(* ===== verification/Prelude.thy ===== *)
theory Prelude
  imports Main "HOL-Library.Word" "HOL-Library.List_Lexorder" "HOL-Library.Char_ord"
    "HOL-Library.Product_Lexorder" "HOL-Library.Signed_Division"
begin

text \<open>
  Shared vocabulary of the development: machine integers, C++ exceptions as values of a sum
  type, and the handful of \<open><algorithm>\<close> routines the sources use on vectors.

  \<^item> \<open>std::uint64_t\<close> and \<open>std::uint32_t\<close> are words, so every addition, subtraction and
    multiplication wraps exactly as in C++.
  \<^item> \<open>std::int64_t\<close> (protobuf \<open>sint64\<close>) is \<open>int\<close>: signed overflow is undefined in C++, so
    the model computes the mathematical value, and \<open>i64_ok\<close> says when the C++ value is the same.
    Signed division truncates towards zero; it is written \<open>sdiv\<close> and \<open>smod\<close>.
  \<^item> \<open>std::string\<close> is a list of characters, compared bytewise and lexicographically, and
    \<open>std::tuple\<close> comparison is the lexicographic order on pairs.
\<close>

type_synonym u64 = "64 word"
type_synonym u32 = "32 word"
type_synonym i64 = int
type_synonym bytes = string

definition i64_max :: int where
  "i64_max = 9223372036854775807"

definition i64_ok :: "int \<Rightarrow> bool" where
  "i64_ok x \<longleftrightarrow> - i64_max - 1 \<le> x \<and> x \<le> i64_max"

text \<open>A \<open>static_cast\<close> between the signed and the unsigned 64-bit types keeps the bit pattern.\<close>

definition to_u64 :: "int \<Rightarrow> u64" where
  "to_u64 x = word_of_int x"

definition to_i64 :: "u64 \<Rightarrow> int" where
  "to_i64 x = sint x"

lemma sdiv_nonneg [simp]: "0 \<le> a \<Longrightarrow> 0 \<le> b \<Longrightarrow> 0 \<le> a sdiv b" for a b :: int
  by (simp add: signed_divide_int_def zero_le_mult_iff pos_imp_zdiv_nonneg_iff sgn_if)

lemma sdiv_div: "0 \<le> a \<Longrightarrow> 0 < b \<Longrightarrow> a sdiv b = a div b" for a b :: int
  by (simp add: signed_divide_int_def sgn_if)

lemma smod_mod: "0 \<le> a \<Longrightarrow> 0 < b \<Longrightarrow> a smod b = a mod b" for a b :: int
  using smod_int_alt_def [of a b] by (simp add: sgn_if)

named_theorems frame_simps \<open>fields an operation does not write\<close>
named_theorems inv_intros \<open>an operation keeps a component's invariant\<close>

subsection \<open>Exceptions\<close>

text \<open>
  Every \<open>throw\<close> of the sources is a value. No handler of the sources resumes after one: the
  exception reaches \<open>main\<close>, which reports it and ends the process, so the state at the time of
  the throw is not part of the result.
\<close>

datatype exn =
    Invalid_argument string
  | Logic_error string
  | Runtime_error string
  | Overflow_error string
  | Out_of_range

type_synonym 'a result = "exn + 'a"

definition bindR :: "'a result \<Rightarrow> ('a \<Rightarrow> 'b result) \<Rightarrow> 'b result" where
  "bindR r f = (case r of Inl e \<Rightarrow> Inl e | Inr x \<Rightarrow> f x)"

definition require :: "bool \<Rightarrow> exn \<Rightarrow> unit result" where
  "require b e = (if b then Inr () else Inl e)"

text \<open>A loop over a vector whose body may throw.\<close>

fun foldR :: "('s \<Rightarrow> 'a \<Rightarrow> 's result) \<Rightarrow> 's \<Rightarrow> 'a list \<Rightarrow> 's result" where
  "foldR f s [] = Inr s"
| "foldR f s (x # xs) = bindR (f s x) (\<lambda>s'. foldR f s' xs)"

text \<open>A loop that appends one element per element of a vector, and may throw.\<close>

fun mapR :: "('a \<Rightarrow> 'b result) \<Rightarrow> 'a list \<Rightarrow> 'b list result" where
  "mapR f [] = Inr []"
| "mapR f (x # xs) = bindR (f x) (\<lambda>y. bindR (mapR f xs) (\<lambda>ys. Inr (y # ys)))"

text \<open>\<open>std::all_of\<close> with a predicate that may throw, left to right with early exit.\<close>

fun allR :: "('a \<Rightarrow> bool result) \<Rightarrow> 'a list \<Rightarrow> bool result" where
  "allR p [] = Inr True"
| "allR p (x # xs) = bindR (p x) (\<lambda>b. if b then allR p xs else Inr False)"

lemma bindR_simps [simp]:
  "bindR (Inl e) f = Inl e"
  "bindR (Inr x) f = f x"
  by (simp_all add: bindR_def)

lemma bindR_eq_Inr [simp]: "bindR r f = Inr y \<longleftrightarrow> (\<exists>x. r = Inr x \<and> f x = Inr y)"
  by (cases r) auto

lemma bindR_cong [fundef_cong]:
  "r = r' \<Longrightarrow> (\<And>x. r' = Inr x \<Longrightarrow> f x = g x) \<Longrightarrow> bindR r f = bindR r' g"
  by (cases r') auto

lemma require_eq_Inr [simp]: "require b e = Inr u \<longleftrightarrow> b"
  by (simp add: require_def)

lemma require_True [simp]: "require True e = Inr ()"
  by (simp add: require_def)

lemma require_False [simp]: "require False e = Inl e"
  by (simp add: require_def)

text \<open>The induction every throwing loop uses: an invariant its body keeps holds at the end.\<close>

lemma foldR_invariant:
  assumes "foldR f s xs = Inr t" and "P s"
    and "\<And>s x s'. x \<in> set xs \<Longrightarrow> P s \<Longrightarrow> f s x = Inr s' \<Longrightarrow> P s'"
  shows "P t"
  using assms
proof (induction xs arbitrary: s)
  case Nil
  then show ?case by simp
next
  case (Cons x xs)
  from Cons.prems(1) obtain u where u: "f s x = Inr u" and rest: "foldR f u xs = Inr t"
    by auto
  have "P u" by (rule Cons.prems(3) [OF _ Cons.prems(2) u]) simp
  then show ?case by (rule Cons.IH [OF rest]) (rule Cons.prems(3), auto)
qed

lemma foldR_append:
  "foldR f s (xs @ ys) = bindR (foldR f s xs) (\<lambda>t. foldR f t ys)"
  by (induction xs arbitrary: s) (auto simp: bindR_def split: sum.splits)

lemma foldR_cong [fundef_cong]:
  "xs = ys \<Longrightarrow> s = t \<Longrightarrow> (\<And>x u. x \<in> set ys \<Longrightarrow> f u x = g u x) \<Longrightarrow> foldR f s xs = foldR g t ys"
  by (induction ys arbitrary: xs s t) (auto simp: bindR_def split: sum.splits)

lemma allR_eq_True: "allR p xs = Inr True \<longleftrightarrow> (\<forall>x \<in> set xs. p x = Inr True)"
  by (induction xs) auto

subsection \<open>Vectors searched and sorted by a key\<close>

text \<open>
  \<open>std::sort\<close> with a comparator \<open>key left < key right\<close> is \<open>sort_key key\<close>. The standard leaves
  the order of equivalent elements open; wherever the sources sort, either equivalent elements are
  then rejected, or they agree in every field, and the header says which.

  \<open>std::lower_bound\<close> by key is the first position whose key is not smaller. The standard defines it
  for a range the key partitions, which the sortedness invariants of the components establish.
\<close>

definition lower_bound :: "('a \<Rightarrow> 'k::linorder) \<Rightarrow> 'a list \<Rightarrow> 'k \<Rightarrow> nat" where
  "lower_bound key xs k = length (takeWhile (\<lambda>x. key x < k) xs)"

definition find_by :: "('a \<Rightarrow> 'k::linorder) \<Rightarrow> 'a list \<Rightarrow> 'k \<Rightarrow> 'a option" where
  "find_by key xs k =
     (let i = lower_bound key xs k in
      if i < length xs \<and> key (xs ! i) = k then Some (xs ! i) else None)"

text \<open>A write through the iterator that \<open>lower_bound\<close> returned.\<close>

definition update_by :: "('a \<Rightarrow> 'k::linorder) \<Rightarrow> 'k \<Rightarrow> ('a \<Rightarrow> 'a) \<Rightarrow> 'a list \<Rightarrow> 'a list" where
  "update_by key k f xs =
     (let i = lower_bound key xs k in
      if i < length xs \<and> key (xs ! i) = k then xs[i := f (xs ! i)] else xs)"

text \<open>\<open>vector::insert\<close> before the position that \<open>lower_bound\<close> returned.\<close>

definition insert_by :: "('a \<Rightarrow> 'k::linorder) \<Rightarrow> 'a \<Rightarrow> 'a list \<Rightarrow> 'a list" where
  "insert_by key x xs =
     (let i = lower_bound key xs (key x) in take i xs @ x # drop i xs)"

text \<open>\<open>vector::erase\<close> of the element at the position that \<open>lower_bound\<close> returned.\<close>

definition erase_by :: "('a \<Rightarrow> 'k::linorder) \<Rightarrow> 'k \<Rightarrow> 'a list \<Rightarrow> 'a list" where
  "erase_by key k xs = (let i = lower_bound key xs k in take i xs @ drop (Suc i) xs)"

text \<open>\<open>std::adjacent_find\<close> finds two equal neighbours.\<close>

fun adjacent_dup :: "('a \<Rightarrow> 'k) \<Rightarrow> 'a list \<Rightarrow> bool" where
  "adjacent_dup key (x # y # zs) = (key x = key y \<or> adjacent_dup key (y # zs))"
| "adjacent_dup key _ = False"

abbreviation strictly_sorted :: "('a \<Rightarrow> 'k::linorder) \<Rightarrow> 'a list \<Rightarrow> bool" where
  "strictly_sorted key xs \<equiv> sorted_wrt (<) (map key xs)"

lemma lower_bound_simps [simp]:
  "lower_bound key [] k = 0"
  "lower_bound key (x # xs) k = (if key x < k then Suc (lower_bound key xs k) else 0)"
  by (simp_all add: lower_bound_def)

lemma find_by_simps [simp]:
  "find_by key [] k = None"
  "find_by key (x # xs) k =
     (if key x < k then find_by key xs k else if key x = k then Some x else None)"
  by (auto simp: find_by_def Let_def)

lemma update_by_simps [simp]:
  "update_by key k f [] = []"
  "update_by key k f (x # xs) =
     (if key x < k then x # update_by key k f xs else if key x = k then f x # xs else x # xs)"
  by (auto simp: update_by_def Let_def)

lemma insert_by_simps [simp]:
  "insert_by key x [] = [x]"
  "insert_by key x (y # ys) = (if key y < key x then y # insert_by key x ys else x # y # ys)"
  by (simp_all add: insert_by_def Let_def)

lemma erase_by_simps [simp]:
  "erase_by key k [] = []"
  "erase_by key k (x # xs) = (if key x < k then x # erase_by key k xs else xs)"
  by (simp_all add: erase_by_def Let_def)

lemma set_insert_by [simp]: "set (insert_by key x xs) = insert x (set xs)"
  by (induction xs) auto

lemma length_insert_by [simp]: "length (insert_by key x xs) = Suc (length xs)"
  by (induction xs) auto

lemma strictly_sorted_insert_by:
  "strictly_sorted key xs \<Longrightarrow> find_by key xs (key x) = None \<Longrightarrow> strictly_sorted key (insert_by key x xs)"
  by (induction xs) (auto simp: not_less le_less split: if_splits)

lemma find_by_insert_by:
  "find_by key xs (key x) = None \<Longrightarrow>
     find_by key (insert_by key x xs) k = (if k = key x then Some x else find_by key xs k)"
  by (induction xs) (auto simp: not_less le_less split: if_splits)

lemma erase_by_filter:
  "strictly_sorted key xs \<Longrightarrow> find_by key xs k \<noteq> None \<Longrightarrow> erase_by key k xs = filter (\<lambda>x. key x \<noteq> k) xs"
  by (induction xs) (force simp: filter_id_conv intro!: filter_True [symmetric] split: if_splits)+

lemma strictly_sorted_filter: "strictly_sorted key xs \<Longrightarrow> strictly_sorted key (filter P xs)"
  by (simp add: sorted_wrt_map sorted_wrt_filter)

lemma lower_bound_nth:
  "strictly_sorted key xs \<Longrightarrow> i < length xs \<Longrightarrow> lower_bound key xs (key (xs ! i)) = i"
  by (induction xs arbitrary: i) (auto simp: nth_Cons split: nat.splits)

lemma find_by_SomeD: "find_by key xs k = Some x \<Longrightarrow> x \<in> set xs \<and> key x = k"
  by (induction xs) (auto split: if_splits)

lemma find_by_sorted:
  "strictly_sorted key xs \<Longrightarrow> find_by key xs k = Some x \<longleftrightarrow> x \<in> set xs \<and> key x = k"
  by (induction xs) (auto dest: find_by_SomeD)

lemma find_by_None:
  "strictly_sorted key xs \<Longrightarrow> find_by key xs k = None \<longleftrightarrow> k \<notin> key ` set xs"
  using find_by_sorted [of key xs k] by (metis image_iff not_Some_eq)

lemma update_by_keys [simp]:
  "(\<And>x. key (f x) = key x) \<Longrightarrow> map key (update_by key k f xs) = map key xs"
  by (induction xs) auto

lemma length_update_by [simp]: "length (update_by key k f xs) = length xs"
  by (induction xs) auto

lemma set_update_by:
  "y \<in> set (update_by key k f xs) \<Longrightarrow> y \<in> set xs \<or> (\<exists>x. find_by key xs k = Some x \<and> y = f x)"
  by (induction xs) (auto split: if_splits)

lemma update_by_map:
  "strictly_sorted key xs \<Longrightarrow>
     update_by key k f xs = map (\<lambda>x. if key x = k then f x else x) xs"
proof (induction xs)
  case Nil
  then show ?case by simp
next
  case (Cons x xs)
  then show ?case by (auto intro!: map_idI [symmetric]) (metis less_irrefl)+
qed

lemma find_by_update:
  assumes "\<And>x. key (f x) = key x"
  shows "find_by key (update_by key k f xs) j =
     (if j = k then map_option f (find_by key xs k) else find_by key xs j)"
  using assms by (induction xs) auto

lemma adjacent_dup_sorted:
  assumes "sorted (map key xs)"
  shows "\<not> adjacent_dup key xs \<longleftrightarrow> strictly_sorted key xs"
  using assms
proof (induction key xs rule: adjacent_dup.induct)
  case (1 key x y zs)
  then show ?case by (auto simp: order.order_iff_strict intro: less_trans)
qed auto

lemma strictly_sorted_distinct: "strictly_sorted key xs \<Longrightarrow> distinct (map key xs)"
  by (simp add: strict_sorted_iff)

lemma strictly_sorted_imp_sorted: "strictly_sorted key xs \<Longrightarrow> sorted (map key xs)"
  by (simp add: strict_sorted_iff)

lemma sort_key_id: "sorted (map key xs) \<Longrightarrow> sort_key key xs = xs"
proof (induction xs)
  case (Cons x xs)
  then show ?case by (cases xs) auto
qed simp

lemma sort_key_idem [simp]: "sort_key key (sort_key key xs) = sort_key key xs"
  by (simp add: sort_key_id)

text \<open>\<open>push_back\<close> of an element followed by \<open>std::sort\<close> on a vector that was sorted before.\<close>

lemma set_sort_key_snoc [simp]: "set (sort_key key (xs @ [x])) = insert x (set xs)"
  by simp

subsection \<open>Selecting the best candidate\<close>

text \<open>The pattern \<open>if (!best || better(candidate, *best)) { best = candidate; }\<close>.\<close>

definition keep_best :: "('a \<Rightarrow> 'a \<Rightarrow> bool) \<Rightarrow> 'a option \<Rightarrow> 'a \<Rightarrow> 'a option" where
  "keep_best better best x =
     (case best of None \<Rightarrow> Some x | Some b \<Rightarrow> if better x b then Some x else best)"

locale selection =
  fixes better :: "'a \<Rightarrow> 'a \<Rightarrow> bool"
  assumes asym: "better x y \<Longrightarrow> \<not> better y x"
    and incomparable: "\<not> better x y \<Longrightarrow> \<not> better y z \<Longrightarrow> \<not> better x z"
begin

text \<open>A candidate kept so far loses to none of those seen.\<close>

definition best_of :: "'a option \<Rightarrow> 'a set \<Rightarrow> bool" where
  "best_of best S \<longleftrightarrow> (case best of None \<Rightarrow> S = {} | Some b \<Rightarrow> b \<in> S \<and> (\<forall>x \<in> S. \<not> better x b))"

lemma best_of_empty: "best_of None {}"
  by (simp add: best_of_def)

lemma best_of_keep: "best_of best S \<Longrightarrow> best_of (keep_best better best x) (insert x S)"
proof -
  assume best: "best_of best S"
  have irrefl: "\<not> better x x" using asym [of x x] by blast
  show ?thesis
  proof (cases best)
    case None
    with best irrefl show ?thesis by (simp add: best_of_def keep_best_def)
  next
    case (Some b)
    with best have b: "b \<in> S" "\<And>y. y \<in> S \<Longrightarrow> \<not> better y b" by (simp_all add: best_of_def)
    show ?thesis
    proof (cases "better x b")
      case True
      then have "\<not> better y x" if "y \<in> S" for y by (rule incomparable [OF b(2) [OF that] asym])
      with Some True irrefl show ?thesis by (simp add: best_of_def keep_best_def)
    qed (use Some b in \<open>simp add: best_of_def keep_best_def\<close>)
  qed
qed

end

text \<open>Selection by the least key.\<close>

locale least_key =
  fixes key :: "'a \<Rightarrow> 'k::linorder"

sublocale least_key \<subseteq> selection "\<lambda>x y. key x < key y"
  by unfold_locales auto

subsection \<open>Decimal numbers\<close>

text \<open>\<open>std::to_string\<close> on an unsigned 64-bit value.\<close>

fun dec_digits :: "nat \<Rightarrow> string" where
  "dec_digits n =
     (if n < 10 then [char_of (48 + n)] else dec_digits (n div 10) @ [char_of (48 + n mod 10)])"

declare dec_digits.simps [simp del]

definition to_string :: "u64 \<Rightarrow> string" where
  "to_string x = dec_digits (unat x)"

subsection \<open>Words\<close>

unbundle bit_operations_syntax

lemma xor_zero_eq: "(a :: u64) XOR b = 0 \<Longrightarrow> a = b"
proof -
  assume "a XOR b = 0"
  then have "(a XOR b) XOR b = b" by simp
  then show "a = b" by (simp only: xor.assoc xor_self_eq xor.right_neutral)
qed

lemma sint_small: "uint (w :: u64) < 2 ^ 63 \<Longrightarrow> sint w = uint w"
  by (simp add: sint_uint signed_take_bit_int_eq_self_iff) (rule order.trans [OF _ uint_ge_0], simp)

lemma times_unit_inj:
  fixes c d :: u64
  assumes "c * d = 1"
  shows "inj (\<lambda>v. v * c)"
proof (rule injI)
  fix x y :: u64
  assume "x * c = y * c"
  then have "x * (c * d) = y * (c * d)" by (simp flip: mult.assoc)
  then show "x = y" by (simp add: assms)
qed

end
