(* ===== verification/Proto.thy ===== *)
theory Proto
  imports Prelude
begin

text \<open>
  The messages of \<^verbatim>\<open>proto/sentinel/v1/sentinel.proto\<close>. One record per message, its fields in the order
  of the file behind a two-letter prefix; one datatype per enum. proto3 enums are open, so an enum
  that a peer process sends, and that the code range-checks, has a constructor for a number without
  a name. A \<open>oneof\<close> is a datatype, a repeated field a list, and a sub-message whose presence the
  code tests an \<open>option\<close>.

  Serialization belongs to the protobuf library. \<open>serializer\<close> is the type of the model's parameter
  for \<open>protocol::deterministic_bytes\<close>: one function over the messages the code serializes.
\<close>

subsection \<open>Enums\<close>

datatype capability =
    Cap_Unspecified | Cap_Search | Cap_Inspection | Cap_Relay | Cap_Delivery
  | Cap_Unrecognized int

datatype region_kind =
    RK_Unspecified | RK_Obstacle | RK_Restricted | RK_Terrain | RK_Chokepoint
  | RK_Unrecognized int

datatype event_kind =
    EK_Unspecified | EK_Release_Task | EK_Disable_Vehicle | EK_Energy_Delta
  | EK_Set_Network_Profile | EK_Set_Region_Closed | EK_Set_Link_Blocked
  | EK_Set_Speed_Permille | EK_Set_Endurance_Permille
  | EK_Unrecognized int

datatype task_status = TS_Unspecified | TS_Pending | TS_Completed | TS_Missed

datatype location_kind = LK_Unspecified | LK_Charging | LK_Return | LK_Unrecognized int

datatype policy =
    AP_Unspecified | AP_Scripted | AP_Nearest_Capable | AP_Sentinel_Cbba
  | AP_Unrecognized int

datatype disposition =
    ND_Unspecified | ND_Queued | ND_Dropped_Loss | ND_Dropped_Partition | ND_Delivered

datatype report_kind = TR_Unspecified | TR_Working | TR_Rejected | TR_Unrecognized int

datatype behavior_mode =
    BM_Unspecified | BM_Idle | BM_Waiting | BM_Navigating | BM_Executing | BM_Charging
  | BM_Returning | BM_Unrecognized int

datatype replan_reason =
    RR_Unspecified | RR_Blockage | RR_Reservation | RR_Endurance | RR_Task | RR_Owner
  | RR_Unrecognized int

fun capability_num :: "capability \<Rightarrow> int" where
  "capability_num Cap_Unspecified = 0"
| "capability_num Cap_Search = 1"
| "capability_num Cap_Inspection = 2"
| "capability_num Cap_Relay = 3"
| "capability_num Cap_Delivery = 4"
| "capability_num (Cap_Unrecognized n) = n"

fun disposition_num :: "disposition \<Rightarrow> nat" where
  "disposition_num ND_Unspecified = 0"
| "disposition_num ND_Queued = 1"
| "disposition_num ND_Dropped_Loss = 2"
| "disposition_num ND_Dropped_Partition = 3"
| "disposition_num ND_Delivered = 4"

fun behavior_num :: "behavior_mode \<Rightarrow> int" where
  "behavior_num BM_Unspecified = 0"
| "behavior_num BM_Idle = 1"
| "behavior_num BM_Waiting = 2"
| "behavior_num BM_Navigating = 3"
| "behavior_num BM_Executing = 4"
| "behavior_num BM_Charging = 5"
| "behavior_num BM_Returning = 6"
| "behavior_num (BM_Unrecognized n) = n"

fun reason_num :: "replan_reason \<Rightarrow> int" where
  "reason_num RR_Unspecified = 0"
| "reason_num RR_Blockage = 1"
| "reason_num RR_Reservation = 2"
| "reason_num RR_Endurance = 3"
| "reason_num RR_Task = 4"
| "reason_num RR_Owner = 5"
| "reason_num (RR_Unrecognized n) = n"

fun status_num :: "task_status \<Rightarrow> nat" where
  "status_num TS_Unspecified = 0"
| "status_num TS_Pending = 1"
| "status_num TS_Completed = 2"
| "status_num TS_Missed = 3"

text \<open>The order of the numbers of an enum the emulator itself writes.\<close>

instantiation disposition :: linorder
begin

definition less_eq_disposition :: "disposition \<Rightarrow> disposition \<Rightarrow> bool" where
  "a \<le> b \<longleftrightarrow> disposition_num a \<le> disposition_num b"

definition less_disposition :: "disposition \<Rightarrow> disposition \<Rightarrow> bool" where
  "a < b \<longleftrightarrow> disposition_num a < disposition_num b"

instance
proof
  fix a b :: disposition
  show "a \<le> b \<Longrightarrow> b \<le> a \<Longrightarrow> a = b"
    by (cases a; cases b) (simp_all add: less_eq_disposition_def)
qed (auto simp: less_eq_disposition_def less_disposition_def)

end

subsection \<open>World, vehicles and tasks\<close>

record point =
  px :: i64
  py :: i64

record region =
  rg_id :: string
  rg_kind :: region_kind
  rg_min :: point
  rg_max :: point
  rg_terrain :: string
  rg_mult :: u32
  rg_closed :: bool

record location =
  lc_id :: string
  lc_kind :: location_kind
  lc_pos :: point
  lc_radius :: i64
  lc_charge :: i64

record world =
  wd_width :: i64
  wd_height :: i64
  wd_regions :: "region list"
  wd_cell :: i64
  wd_map_version :: u64
  wd_locations :: "location list"

record net_profile =
  np_id :: string
  np_latency :: u64
  np_jitter :: u64
  np_loss :: u32
  np_bandwidth :: u64
  np_reorder :: u32
  np_window :: u32

record vehicle_spec =
  vp_id :: string
  vp_kind :: string
  vp_pos :: point
  vp_speed :: i64
  vp_energy :: i64
  vp_cost :: i64
  vp_payload :: i64
  vp_caps :: "capability list"
  vp_terrain :: "string list"
  vp_return :: string

record task_spec =
  tp_id :: string
  tp_kind :: string
  tp_target :: point
  tp_cap :: capability
  tp_payload :: i64
  tp_deadline :: u64
  tp_radius :: i64
  tp_agent :: string
  tp_released :: bool
  tp_service :: u64
  tp_service_energy :: i64
  tp_priority :: u32

record tape_event =
  ev_id :: string
  ev_tick :: u64
  ev_kind :: event_kind
  ev_target :: string
  ev_min :: i64
  ev_max :: i64
  ev_stream :: string
  ev_text :: string
  ev_bool :: bool

record scenario =
  sc_schema :: u32
  sc_name :: string
  sc_seed :: u64
  sc_step_ms :: u64
  sc_max_ticks :: u64
  sc_world :: world
  sc_vehicles :: "vehicle_spec list"
  sc_tasks :: "task_spec list"
  sc_events :: "tape_event list"
  sc_profile :: string
  sc_policy :: policy
  sc_profiles :: "net_profile list"
  sc_detect_ticks :: u64

record vehicle_state =
  vs_id :: string
  vs_kind :: string
  vs_pos :: point
  vs_vx :: i64
  vs_vy :: i64
  vs_speed :: i64
  vs_energy :: i64
  vs_payload :: i64
  vs_caps :: "capability list"
  vs_terrain :: "string list"
  vs_active :: bool
  vs_initial :: i64
  vs_cost :: i64
  vs_return :: string
  vs_capacity :: i64

record task_state =
  ts_id :: string
  ts_kind :: string
  ts_target :: point
  ts_cap :: capability
  ts_payload :: i64
  ts_deadline :: u64
  ts_radius :: i64
  ts_agent :: string
  ts_status :: task_status
  ts_service :: u64
  ts_service_energy :: i64
  ts_progress :: u64
  ts_epoch :: u64
  ts_version :: u64
  ts_priority :: u32
  ts_score :: i64
  ts_position :: u32

subsection \<open>Allocation\<close>

record alloc_claim =
  cl_epoch :: u64
  cl_version :: u64
  cl_task :: string
  cl_agent :: string
  cl_feasible :: bool
  cl_distance :: i64

record alloc_commit =
  cm_epoch :: u64
  cm_version :: u64
  cm_task :: string
  cm_agent :: string
  cm_distance :: i64
  cm_score :: i64
  cm_position :: u32

record alloc_bid =
  bd_epoch :: u64
  bd_version :: u64
  bd_task :: string
  bd_bidder :: string
  bd_score :: i64
  bd_distance :: i64
  bd_energy :: i64
  bd_completion :: u64
  bd_position :: u32

record alloc_relay =
  rl_bid :: alloc_bid
  rl_path :: "string list"

record alloc_state =
  as_epoch :: u64
  as_version :: u64
  as_sender :: string
  as_bids :: "alloc_bid list"
  as_winners :: "alloc_bid list"
  as_bundle :: "string list"
  as_map_version :: u64
  as_owners :: "alloc_commit list"
  as_relays :: "alloc_relay list"

definition empty_alloc_state :: alloc_state where
  "empty_alloc_state =
     \<lparr>as_epoch = 0, as_version = 0, as_sender = [], as_bids = [], as_winners = [],
      as_bundle = [], as_map_version = 0, as_owners = [], as_relays = []\<rparr>"

record task_report =
  tr_task :: string
  tr_kind :: report_kind

subsection \<open>Network, reservations, failures\<close>

record net_message =
  nm_sender :: string
  nm_recipient :: string
  nm_version :: u64
  nm_payload :: bytes

record net_outcome =
  no_sequence :: u64
  no_disposition :: disposition
  no_tick :: u64
  no_message :: net_message
  no_bytes :: u64
  no_enqueue :: u64
  no_start :: u64
  no_end :: u64
  no_delivery :: u64
  no_jitter :: i64
  no_reordered :: bool
  no_profile :: string

record convergence_sample =
  cv_epoch :: u64
  cv_start :: u64
  cv_end :: u64
  cv_complete :: bool

record st_reservation =
  sr_resource :: string
  sr_agent :: string
  sr_start :: u64
  sr_end :: u64
  sr_version :: u64
  sr_route_version :: u64
  sr_map_version :: u64

record failure_detection =
  fd_failed :: string
  fd_detector :: string
  fd_failure_tick :: u64
  fd_detection_tick :: u64

record reassignment =
  ra_task :: string
  ra_failed :: string
  ra_detector :: string
  ra_failure_tick :: u64
  ra_detection_tick :: u64
  ra_prev_epoch :: u64
  ra_prev_version :: u64
  ra_new_agent :: string
  ra_new_epoch :: u64
  ra_new_version :: u64
  ra_commit_tick :: u64
  ra_complete :: bool

record replan_sample =
  rs_agent :: string
  rs_reason :: replan_reason
  rs_start :: u64
  rs_end :: u64
  rs_wait :: bool
  rs_complete :: bool

record route_plan =
  rp_version :: u64
  rp_map_version :: u64
  rp_goal :: string
  rp_waypoints :: "point list"

subsection \<open>Observations, actions, envelopes\<close>

record observation =
  ob_tick :: u64
  ob_step_ms :: u64
  ob_self :: vehicle_state
  ob_assigned :: "task_state list"
  ob_delivered :: "net_message list"
  ob_world :: world
  ob_available :: "task_state list"
  ob_peers :: "string list"
  ob_epoch :: u64
  ob_policy :: policy
  ob_known :: "task_state list"
  ob_profile :: string
  ob_detections :: "failure_detection list"
  ob_reservations :: "st_reservation list"
  ob_reachable :: "string list"

record action =
  aa_tick :: u64
  aa_vx :: i64
  aa_vy :: i64
  aa_messages :: "net_message list"
  aa_commits :: "alloc_commit list"
  aa_reports :: "task_report list"
  aa_charge :: string
  aa_mode :: behavior_mode
  aa_route_version :: u64
  aa_replanned :: bool
  aa_alloc :: "alloc_state option"
  aa_detections :: "failure_detection list"
  aa_proposals :: "st_reservation list"
  aa_samples :: "replan_sample list"
  aa_plan :: "route_plan option"

definition empty_action :: action where
  "empty_action =
     \<lparr>aa_tick = 0, aa_vx = 0, aa_vy = 0, aa_messages = [], aa_commits = [], aa_reports = [],
      aa_charge = [], aa_mode = BM_Unspecified, aa_route_version = 0, aa_replanned = False,
      aa_alloc = None, aa_detections = [], aa_proposals = [], aa_samples = [], aa_plan = None\<rparr>"

datatype body =
    No_body
  | Body_observation observation
  | Body_action action
  | Body_message net_message

record envelope =
  en_schema :: u32
  en_sequence :: u64
  en_time_ms :: u64
  en_sender :: string
  en_recipient :: string
  en_body :: body

definition has_action :: "envelope \<Rightarrow> bool" where
  "has_action e = (case en_body e of Body_action a \<Rightarrow> True | _ \<Rightarrow> False)"

text \<open>\<open>envelope.action()\<close>: the default message where the body is something else.\<close>

definition en_action :: "envelope \<Rightarrow> action" where
  "en_action e = (case en_body e of Body_action a \<Rightarrow> a | _ \<Rightarrow> empty_action)"

record action_batch =
  ab_tick :: u64
  ab_actions :: "envelope list"

record applied_event =
  ae_source :: tape_event
  ae_value :: i64
  ae_stream :: string
  ae_state_after :: u64

record summary =
  sm_success :: bool
  sm_ticks :: u64
  sm_hash :: string
  sm_tick_hashes :: "string list"
  sm_completed :: u32
  sm_total :: u32
  sm_active :: u32
  sm_wait :: u64
  sm_replan :: u64
  sm_recharge :: u64
  sm_return :: u64
  sm_conflicts :: u64
  sm_distance :: u64
  sm_energy :: u64
  sm_rejected :: u64
  sm_bytes :: u64
  sm_messages :: u64
  sm_delivered :: u64
  sm_dropped :: u64
  sm_reordered :: u64
  sm_convergence :: "convergence_sample list"
  sm_detections :: "failure_detection list"
  sm_reassignments :: "reassignment list"
  sm_samples :: "replan_sample list"
  sm_max_delay :: u64
  sm_missing :: u32
  sm_energy_ok :: bool
  sm_energy_violations :: u64
  sm_overlap_ok :: bool
  sm_overlap_violations :: u64
  sm_completed_ok :: bool
  sm_completed_violations :: u64
  sm_capable_ok :: bool
  sm_capable_violations :: u64

record observation_batch =
  bt_tick :: u64
  bt_observations :: "envelope list"
  bt_finished :: bool
  bt_summary :: "summary option"

subsection \<open>Serialization\<close>

datatype proto_msg =
    P_Envelope envelope
  | P_Message net_message
  | P_Bid alloc_bid
  | P_Commit alloc_commit
  | P_State alloc_state
  | P_Detection failure_detection
  | P_Reassignment reassignment
  | P_Sample replan_sample
  | P_Outcome net_outcome
  | P_Event tape_event
  | P_Applied applied_event
  | P_Scenario scenario
  | P_Summary summary

type_synonym serializer = "proto_msg \<Rightarrow> bytes"

end
