(* ===== verification/Hash.thy ===== *)
theory Hash
  imports Prelude
begin

text \<open>
  \<open>core::HashBuilder\<close> (\<^verbatim>\<open>core/src/hash.cpp\<close>): 64-bit FNV-1a over a byte stream, into which integers,
  flags and texts are written with a fixed layout. The builder's only state is the running value. A
  sequence of \<open>hash.unsigned_integer(..)\<close>, \<open>hash.text(..)\<close> calls is a list of \<open>hash_item\<close>s.
\<close>

unbundle bit_operations_syntax

subsection \<open>Model\<close>

definition hash_init :: u64 where
  "hash_init = 14695981039346656037"

definition hash_byte :: "char \<Rightarrow> u64 \<Rightarrow> u64" where
  "hash_byte c st = (st XOR of_char c) * 1099511628211"

definition hb_bytes :: "bytes \<Rightarrow> u64 \<Rightarrow> u64" where
  "hb_bytes data st = fold hash_byte data st"

text \<open>The eight bytes of a value, least significant first.\<close>

definition le_bytes :: "u64 \<Rightarrow> bytes" where
  "le_bytes v = map (\<lambda>byte. char_of (unat (drop_bit (byte * 8) v AND 0xff))) [0..<8]"

definition hb_unsigned :: "u64 \<Rightarrow> u64 \<Rightarrow> u64" where
  "hb_unsigned v = hb_bytes (le_bytes v)"

definition hb_signed :: "i64 \<Rightarrow> u64 \<Rightarrow> u64" where
  "hb_signed v = hb_unsigned (to_u64 v)"

definition hb_boolean :: "bool \<Rightarrow> u64 \<Rightarrow> u64" where
  "hb_boolean v = hb_bytes [if v then CHR 0x01 else CHR 0x00]"

definition hb_text :: "string \<Rightarrow> u64 \<Rightarrow> u64" where
  "hb_text v st = hb_bytes v (hb_unsigned (of_nat (length v)) st)"

fun hex_digits :: "nat \<Rightarrow> string" where
  "hex_digits n =
     (let d = char_of ((if n mod 16 < 10 then 48 else 87) + n mod 16 :: nat)
      in if n < 16 then [d] else hex_digits (n div 16) @ [d])"

declare hex_digits.simps [simp del]

definition hb_finish :: "u64 \<Rightarrow> string" where
  "hb_finish st =
     (let ds = hex_digits (unat st) in replicate (16 - length ds) CHR ''0'' @ ds)"

definition hash_bytes :: "bytes \<Rightarrow> string" where
  "hash_bytes v = hb_finish (hb_bytes v hash_init)"

datatype hash_item = HU u64 | HS i64 | HB bool | HT string

fun absorb :: "hash_item \<Rightarrow> u64 \<Rightarrow> u64" where
  "absorb (HU v) = hb_unsigned v"
| "absorb (HS v) = hb_signed v"
| "absorb (HB v) = hb_boolean v"
| "absorb (HT v) = hb_text v"

definition absorb_all :: "hash_item list \<Rightarrow> u64 \<Rightarrow> u64" where
  "absorb_all items st = fold absorb items st"

subsection \<open>The running value\<close>

lemma hb_bytes_simps [simp]:
  "hb_bytes [] st = st"
  "hb_bytes (c # cs) st = hb_bytes cs (hash_byte c st)"
  "hb_bytes (xs @ ys) st = hb_bytes ys (hb_bytes xs st)"
  by (simp_all add: hb_bytes_def)

lemma fnv_prime_inj: "(x :: u64) * 1099511628211 = y * 1099511628211 \<Longrightarrow> x = y"
  by (rule injD [OF times_unit_inj [where d = 14886173955864302971]]) simp_all

lemma xor_cancel_right: "(x :: u64) XOR c = y XOR c \<Longrightarrow> x = y"
proof -
  assume "x XOR c = y XOR c"
  then have "(x XOR c) XOR c = (y XOR c) XOR c" by (simp only:)
  then show "x = y" by (simp only: xor.assoc xor_self_eq xor.right_neutral)
qed

lemma hash_byte_state_inj: "hash_byte c x = hash_byte c y \<Longrightarrow> x = y"
  unfolding hash_byte_def by (drule fnv_prime_inj) (rule xor_cancel_right)

lemma of_char_u64_inj: "(of_char c :: u64) = of_char d \<Longrightarrow> c = d"
proof -
  assume "(of_char c :: u64) = of_char d"
  moreover have "unat (of_char x :: u64) = of_char x" for x
  proof -
    have "(of_char x :: nat) < 2 ^ LENGTH(64)" by (rule less_trans [OF nat_of_char_less_256]) simp
    then show ?thesis by (metis of_nat_of_char unat_of_nat mod_less)
  qed
  ultimately have "(of_char c :: nat) = of_char d" by metis
  then show "c = d" by simp
qed

lemma hash_byte_char_inj:
  assumes "hash_byte c st = hash_byte d st"
  shows "c = d"
proof -
  have "st XOR of_char c = st XOR of_char d"
    using assms unfolding hash_byte_def by (rule fnv_prime_inj)
  then have "of_char c XOR st = of_char d XOR st" by (simp only: xor.commute)
  then show ?thesis by (rule of_char_u64_inj [OF xor_cancel_right])
qed

lemma hb_bytes_state_inj: "hb_bytes cs x = hb_bytes cs y \<Longrightarrow> x = y"
  by (induction cs arbitrary: x y) (auto dest: hash_byte_state_inj)

subsection \<open>The printed value\<close>

fun unhex :: "char \<Rightarrow> nat" where
  "unhex c = (if of_char c < (58::nat) then of_char c - 48 else of_char c - 87)"

definition parse_hex :: "string \<Rightarrow> nat" where
  "parse_hex s = foldl (\<lambda>v c. v * 16 + unhex c) 0 s"

lemma unhex_digit: "d < 16 \<Longrightarrow> unhex (char_of ((if d < 10 then 48 else 87) + d :: nat)) = d"
  by (auto simp: of_char_of)

lemma parse_hex_snoc: "parse_hex (s @ [c]) = parse_hex s * 16 + unhex c"
  by (simp add: parse_hex_def)

lemma parse_hex_digits: "parse_hex (hex_digits n) = n"
proof (induction n rule: hex_digits.induct)
  case (1 n)
  define d where "d = n mod 16"
  have d: "unhex (char_of ((if d < 10 then 48 else 87) + d :: nat)) = d"
    by (rule unhex_digit) (simp add: d_def)
  have small: "parse_hex [char_of ((if d < 10 then 48 else 87) + d)] = d"
    using d by (simp add: parse_hex_def del: unhex.simps)
  show ?case
  proof (cases "n < 16")
    case True
    then have "d = n" by (simp add: d_def)
    with True small show ?thesis by (simp add: hex_digits.simps [of n] Let_def)
  next
    case False
    with 1 d show ?thesis
      by (simp add: hex_digits.simps [of n] Let_def parse_hex_snoc d_def del: unhex.simps)
  qed
qed

lemma parse_hex_zeros: "parse_hex (replicate k CHR ''0'' @ s) = parse_hex s"
  by (induction k) (simp_all add: parse_hex_def)

lemma parse_hex_finish: "parse_hex (hb_finish st) = unat st"
  by (simp add: hb_finish_def Let_def parse_hex_zeros parse_hex_digits)

lemma hb_finish_inj: "hb_finish x = hb_finish y \<Longrightarrow> x = y"
  by (metis parse_hex_finish word_unat_eq_iff)

lemma length_hex_digits: "n < 16 ^ Suc k \<Longrightarrow> length (hex_digits n) \<le> Suc k"
proof (induction k arbitrary: n)
  case 0
  then show ?case by (simp add: hex_digits.simps [of n] Let_def)
next
  case (Suc k)
  have "n div 16 < 16 ^ Suc k" using Suc.prems by (simp add: div_less_iff_less_mult)
  with Suc.IH show ?case by (simp add: hex_digits.simps [of n] Let_def)
qed

lemma length_finish: "length (hb_finish st) = 16"
proof -
  have "unat st < 16 ^ Suc 15" using unsigned_less [of st, where 'a = nat] by simp
  from length_hex_digits [OF this] show ?thesis by (simp add: hb_finish_def Let_def)
qed

subsection \<open>The byte stream of a sequence of calls\<close>

fun encode_item :: "hash_item \<Rightarrow> bytes" where
  "encode_item (HU v) = le_bytes v"
| "encode_item (HS v) = le_bytes (to_u64 v)"
| "encode_item (HB v) = [if v then CHR 0x01 else CHR 0x00]"
| "encode_item (HT v) = le_bytes (of_nat (length v)) @ v"

definition encode_items :: "hash_item list \<Rightarrow> bytes" where
  "encode_items items = concat (map encode_item items)"

lemma absorb_encode: "absorb item st = hb_bytes (encode_item item) st"
  by (cases item)
    (simp_all add: hb_unsigned_def hb_signed_def hb_boolean_def hb_text_def)

lemma absorb_all_encode: "absorb_all items st = hb_bytes (encode_items items) st"
  by (induction items arbitrary: st) (simp_all add: absorb_all_def encode_items_def absorb_encode)

text \<open>Two items written by the same call: a flag against a flag, a text shorter than \<open>2 ^ 64\<close> bytes
  against such a text.\<close>

fun same_call :: "hash_item \<Rightarrow> hash_item \<Rightarrow> bool" where
  "same_call (HU _) (HU _) = True"
| "same_call (HS a) (HS b) = (i64_ok a \<and> i64_ok b)"
| "same_call (HB _) (HB _) = True"
| "same_call (HT a) (HT b) = (length a < 2 ^ 64 \<and> length b < 2 ^ 64)"
| "same_call _ _ = False"

lemma length_le_bytes [simp]: "length (le_bytes v) = 8"
  by (simp add: le_bytes_def)

lemma le_bytes_inj: "le_bytes v = le_bytes w \<Longrightarrow> v = w"
proof -
  assume eq: "le_bytes v = le_bytes w"
  have byte: "drop_bit (k * 8) v AND 0xff = drop_bit (k * 8) w AND 0xff" if "k < 8" for k
  proof -
    have "le_bytes v ! k = le_bytes w ! k" by (simp add: eq)
    then have "(of_char (char_of (unat (drop_bit (k * 8) v AND 0xff))) :: nat)
        = of_char (char_of (unat (drop_bit (k * 8) w AND 0xff)))"
      using that by (simp add: le_bytes_def)
    moreover have "unat (x AND 0xff) < 256" for x :: u64
    proof -
      have "x AND 0xff \<le> 0xff" by (rule word_and_le1)
      then show ?thesis by (simp add: word_le_nat_alt)
    qed
    ultimately show ?thesis by (simp add: of_char_of word_unat_eq_iff)
  qed
  show "v = w"
  proof (rule bit_word_eqI)
    fix n assume "n < LENGTH(64)"
    then have k: "n div 8 < 8" by simp
    have "bit (drop_bit (n div 8 * 8) v AND 0xff) (n mod 8)
        = bit (drop_bit (n div 8 * 8) w AND 0xff) (n mod 8)" by (simp only: byte [OF k])
    moreover have "bit (0xff :: u64) (n mod 8)"
    proof -
      have "(0xff :: u64) = mask 8" by (simp add: mask_eq_exp_minus_1)
      then show ?thesis by (simp only: bit_mask_iff) simp
    qed
    ultimately show "bit v n = bit w n" by (simp only: bit_and_iff bit_drop_bit_eq) simp
  qed
qed

lemma to_u64_inj: "i64_ok a \<Longrightarrow> i64_ok b \<Longrightarrow> to_u64 a = to_u64 b \<Longrightarrow> a = b"
proof -
  have cast: "to_i64 (to_u64 x) = x" if "i64_ok x" for x
    using that by (simp add: to_i64_def to_u64_def sint_sbintrunc' i64_ok_def i64_max_def
        signed_take_bit_int_eq_self_iff)
  show "i64_ok a \<Longrightarrow> i64_ok b \<Longrightarrow> to_u64 a = to_u64 b \<Longrightarrow> a = b" using cast by metis
qed

lemma of_nat_u64_inj:
  "m < 2 ^ 64 \<Longrightarrow> n < 2 ^ 64 \<Longrightarrow> (of_nat m :: u64) = of_nat n \<Longrightarrow> m = n"
  by (drule arg_cong [where f = unat]) (simp add: unat_of_nat)

lemma encode_item_prefix:
  assumes "same_call a b" and "encode_item a @ xs = encode_item b @ ys"
  shows "a = b \<and> xs = ys"
  using assms
proof (cases a; cases b)
  fix v w assume a: "a = HS v" and b: "b = HS w"
  then have "le_bytes (to_u64 v) @ xs = le_bytes (to_u64 w) @ ys" using assms(2) by simp
  then show ?thesis using assms(1) a b by (auto dest!: le_bytes_inj intro: to_u64_inj)
next
  fix v w assume a: "a = HT v" and b: "b = HT w"
  then have eq: "le_bytes (of_nat (length v)) @ v @ xs = le_bytes (of_nat (length w)) @ w @ ys"
    using assms(2) by simp
  then have "(of_nat (length v) :: u64) = of_nat (length w)" by (auto dest!: le_bytes_inj)
  then have "length v = length w" using assms(1) a b by (auto intro: of_nat_u64_inj)
  with eq a b show ?thesis by simp
qed (use assms in \<open>auto dest!: le_bytes_inj split: if_splits\<close>)

lemma encode_items_inj:
  assumes "list_all2 same_call xs ys" and "encode_items xs = encode_items ys"
  shows "xs = ys"
  using assms
  by (induction rule: list_all2_induct) (auto simp: encode_items_def dest: encode_item_prefix)

subsection \<open>Properties\<close>

text \<open>Changing one byte of a message changes its printed hash, and the print has sixteen digits. The
  hash step is a bijection of the running value, so the change cannot be undone by what follows.\<close>

theorem hash_bytes_one_byte:
  "(hash_bytes (xs @ [c] @ ys) = hash_bytes (xs @ [d] @ ys) \<longleftrightarrow> c = d)
   \<and> length (hash_bytes xs) = 16"
proof -
  have "c = d" if "hash_bytes (xs @ [c] @ ys) = hash_bytes (xs @ [d] @ ys)"
    using that by (auto simp: hash_bytes_def dest!: hb_finish_inj hb_bytes_state_inj hash_byte_char_inj)
  then show ?thesis by (auto simp: hash_bytes_def length_finish)
qed

text \<open>C40: what the builder hashes determines what was written. The running value after a sequence of calls
  is that of the calls' byte stream, and two sequences of the same calls with the same byte stream
  carry the same values: lengths keep neighbouring texts apart.\<close>

theorem absorb_all_injective_stream:
  assumes "list_all2 same_call xs ys"
  shows "absorb_all xs st = hb_bytes (encode_items xs) st
    \<and> (encode_items xs = encode_items ys \<longleftrightarrow> xs = ys)"
  using encode_items_inj [OF assms] by (auto simp: absorb_all_encode)

theorem absorb_all_injective_stream_witness:
  "encode_items [HT ''ab'', HT ''c'', HU 1, HS (- 1), HB True]
   \<noteq> encode_items [HT ''a'', HT ''bc'', HU 1, HS (- 1), HB True]"
  using absorb_all_injective_stream [of "[HT ''ab'', HT ''c'', HU 1, HS (- 1), HB True]"
      "[HT ''a'', HT ''bc'', HU 1, HS (- 1), HB True]" 0]
  by (simp add: i64_ok_def i64_max_def)

end
