(* ===== verification/Scenario.thy ===== *)
theory Scenario
  imports Proto Hash "HOL-Library.Multiset"
begin

text \<open>
  Scenarios (\<^verbatim>\<open>core/src/scenario.cpp\<close>): the canonical order of a scenario's parts, the checks that admit it
  to the simulator, and its hash. Every check that throws is a branch, in the order of the source.

  \<open>std::sort\<close> by identifier leaves the order of equal identifiers open; the checks reject a scenario with two equal
  identifiers in one list, so \<open>sort_key\<close> differs from it on rejected scenarios only.
\<close>

subsection \<open>Limits\<close>

definition max_world_mm :: i64 where "max_world_mm = 1000000000"
definition max_step_ms :: u64 where "max_step_ms = 60000"
definition max_ticks :: u64 where "max_ticks = 10000000"
definition max_speed_mm_s :: i64 where "max_speed_mm_s = 1000000"
definition max_energy_mj :: i64 where "max_energy_mj = 1000000000000000"
definition max_energy_cost :: i64 where "max_energy_cost = 1000000"
definition max_payload_grams :: i64 where "max_payload_grams = 1000000000"
definition max_multiplier :: u32 where "max_multiplier = 100000"
definition max_grid_cells :: i64 where "max_grid_cells = 1000000"
definition max_bandwidth :: u64 where "max_bandwidth = 1000000000"

subsection \<open>Names and kinds\<close>

definition id_chars :: string where
  "id_chars = ''abcdefghijklmnopqrstuvwxyzABCDEFGHIJKLMNOPQRSTUVWXYZ0123456789-_''"

definition valid_id :: "string \<Rightarrow> bool" where
  "valid_id value \<longleftrightarrow> value \<noteq> [] \<and> list_all (\<lambda>c. c \<in> set id_chars) value"

definition valid_capability :: "capability \<Rightarrow> bool" where
  "valid_capability c \<longleftrightarrow> c = Cap_Search \<or> c = Cap_Inspection \<or> c = Cap_Relay \<or> c = Cap_Delivery"

definition valid_region_kind :: "region_kind \<Rightarrow> bool" where
  "valid_region_kind k \<longleftrightarrow> k = RK_Obstacle \<or> k = RK_Restricted \<or> k = RK_Terrain \<or> k = RK_Chokepoint"

definition valid_event_kind :: "event_kind \<Rightarrow> bool" where
  "valid_event_kind k \<longleftrightarrow> k = EK_Release_Task \<or> k = EK_Disable_Vehicle \<or> k = EK_Energy_Delta
     \<or> k = EK_Set_Network_Profile \<or> k = EK_Set_Region_Closed \<or> k = EK_Set_Link_Blocked
     \<or> k = EK_Set_Speed_Permille \<or> k = EK_Set_Endurance_Permille"

definition multiplier_event :: "event_kind \<Rightarrow> bool" where
  "multiplier_event k \<longleftrightarrow> k = EK_Set_Speed_Permille \<or> k = EK_Set_Endurance_Permille"

definition valid_location_kind :: "location_kind \<Rightarrow> bool" where
  "valid_location_kind k \<longleftrightarrow> k = LK_Charging \<or> k = LK_Return"

definition valid_policy :: "policy \<Rightarrow> bool" where
  "valid_policy p \<longleftrightarrow> p = AP_Scripted \<or> p = AP_Nearest_Capable \<or> p = AP_Sentinel_Cbba"

subsection \<open>Lookups\<close>

definition invalid :: "string \<Rightarrow> exn" where
  "invalid message = Invalid_argument message"

definition require_unique :: "('a \<Rightarrow> string) \<Rightarrow> 'a list \<Rightarrow> string \<Rightarrow> unit result" where
  "require_unique key values label = require (\<not> adjacent_dup key values) (invalid (''duplicate '' @ label))"

definition spec_capable :: "vehicle_spec \<Rightarrow> capability \<Rightarrow> bool" where
  "spec_capable v c \<longleftrightarrow> c \<in> set (vp_caps v)"

definition vehicle_by_id :: "scenario \<Rightarrow> string \<Rightarrow> vehicle_spec result" where
  "vehicle_by_id s k =
     (case find_by vp_id (sc_vehicles s) k of
        None \<Rightarrow> Inl (invalid ''unknown assigned vehicle'') | Some v \<Rightarrow> Inr v)"

definition task_exists :: "scenario \<Rightarrow> string \<Rightarrow> bool" where
  "task_exists s k \<longleftrightarrow> list_ex (\<lambda>t. tp_id t = k) (sc_tasks s)"

definition vehicle_exists :: "scenario \<Rightarrow> string \<Rightarrow> bool" where
  "vehicle_exists s k \<longleftrightarrow> list_ex (\<lambda>v. vp_id v = k) (sc_vehicles s)"

definition region_exists :: "scenario \<Rightarrow> string \<Rightarrow> bool" where
  "region_exists s k \<longleftrightarrow> list_ex (\<lambda>r. rg_id r = k) (wd_regions (sc_world s))"

definition profile_exists :: "scenario \<Rightarrow> string \<Rightarrow> bool" where
  "profile_exists s k \<longleftrightarrow> list_ex (\<lambda>p. np_id p = k) (sc_profiles s)"

definition location_by_id :: "scenario \<Rightarrow> string \<Rightarrow> location option" where
  "location_by_id s k = find_by lc_id (wd_locations (sc_world s)) k"

definition in_world :: "world \<Rightarrow> point \<Rightarrow> bool" where
  "in_world w p \<longleftrightarrow> \<not> (px p < 0 \<or> py p < 0 \<or> px p > wd_width w \<or> py p > wd_height w)"

definition validate_point :: "scenario \<Rightarrow> point \<Rightarrow> unit result" where
  "validate_point s p = require (in_world (sc_world s) p) (invalid ''point lies outside world bounds'')"

definition grid_aligned :: "scenario \<Rightarrow> point \<Rightarrow> bool" where
  "grid_aligned s p \<longleftrightarrow> px p smod wd_cell (sc_world s) = 0 \<and> py p smod wd_cell (sc_world s) = 0"

subsection \<open>Normalisation\<close>

definition sort_vehicle_lists :: "vehicle_spec \<Rightarrow> vehicle_spec" where
  "sort_vehicle_lists v = v\<lparr>vp_caps := sort_key capability_num (vp_caps v), vp_terrain := sort (vp_terrain v)\<rparr>"

definition default_priority :: "task_spec \<Rightarrow> task_spec" where
  "default_priority t = (if tp_priority t = 0 then t\<lparr>tp_priority := 50\<rparr> else t)"

definition event_key :: "tape_event \<Rightarrow> u64 \<times> string" where
  "event_key e = (ev_tick e, ev_id e)"

definition normalize_world :: "world \<Rightarrow> world" where
  "normalize_world w =
     \<lparr>wd_width = wd_width w, wd_height = wd_height w, wd_regions = sort_key rg_id (wd_regions w),
      wd_cell = (if wd_cell w = 0 then 100 else wd_cell w),
      wd_map_version = (if wd_map_version w = 0 then 1 else wd_map_version w),
      wd_locations = sort_key lc_id (wd_locations w)\<rparr>"

definition normalize_scenario :: "scenario \<Rightarrow> scenario" where
  "normalize_scenario s =
     s\<lparr>sc_world := normalize_world (sc_world s),
       sc_policy := (if sc_policy s = AP_Unspecified then AP_Scripted else sc_policy s),
       sc_detect_ticks := (if sc_detect_ticks s = 0 then min 5 (sc_max_ticks s) else sc_detect_ticks s),
       sc_profiles := sort_key np_id (sc_profiles s),
       sc_vehicles := map sort_vehicle_lists (sort_key vp_id (sc_vehicles s)),
       sc_tasks := map default_priority (sort_key tp_id (sc_tasks s)),
       sc_events := sort_key event_key (sc_events s)\<rparr>"

subsection \<open>Validation\<close>

definition each :: "('a \<Rightarrow> unit result) \<Rightarrow> 'a list \<Rightarrow> unit result" where
  "each f xs = foldR (\<lambda>_ x. f x) () xs"

definition bad_world :: "scenario \<Rightarrow> bool" where
  "bad_world s \<longleftrightarrow>
     (let w = sc_world s
      in sc_step_ms s = 0 \<or> sc_step_ms s > max_step_ms \<or> sc_max_ticks s = 0 \<or> sc_max_ticks s > max_ticks
         \<or> wd_width w \<le> 0 \<or> wd_width w > max_world_mm \<or> wd_height w \<le> 0 \<or> wd_height w > max_world_mm
         \<or> \<not> valid_id (sc_profile s) \<or> wd_cell w \<le> 0 \<or> wd_cell w > max_world_mm
         \<or> wd_width w smod wd_cell w \<noteq> 0 \<or> wd_height w smod wd_cell w \<noteq> 0
         \<or> (wd_width w sdiv wd_cell w + 1) * (wd_height w sdiv wd_cell w + 1) > max_grid_cells
         \<or> wd_map_version w = 0 \<or> \<not> valid_policy (sc_policy s)
         \<or> sc_detect_ticks s = 0 \<or> sc_detect_ticks s > sc_max_ticks s)"

definition check_profile :: "scenario \<Rightarrow> net_profile \<Rightarrow> unit result" where
  "check_profile s p =
     require (\<not> (\<not> valid_id (np_id p) \<or> np_latency p > sc_max_ticks s \<or> np_jitter p > sc_max_ticks s
         \<or> np_loss p > 10000 \<or> np_bandwidth p = 0 \<or> np_bandwidth p > max_bandwidth
         \<or> np_reorder p > 10000 \<or> ucast (np_window p) > sc_max_ticks s
         \<or> (np_reorder p \<noteq> 0 \<and> np_window p = 0)))
       (invalid ''invalid network profile'')"

definition check_region :: "scenario \<Rightarrow> region \<Rightarrow> unit result" where
  "check_region s r =
     bindR (require (\<not> (\<not> valid_id (rg_id r) \<or> \<not> valid_region_kind (rg_kind r)
         \<or> px (rg_min r) \<ge> px (rg_max r) \<or> py (rg_min r) \<ge> py (rg_max r)
         \<or> rg_mult r = 0 \<or> rg_mult r > max_multiplier
         \<or> (rg_kind r = RK_Terrain \<and> \<not> valid_id (rg_terrain r))))
       (invalid ''invalid region'')) (\<lambda>_.
     bindR (validate_point s (rg_min r)) (\<lambda>_. validate_point s (rg_max r)))"

definition check_location :: "scenario \<Rightarrow> location \<Rightarrow> unit result" where
  "check_location s l =
     bindR (require (\<not> (\<not> valid_id (lc_id l) \<or> \<not> valid_location_kind (lc_kind l) \<or> lc_radius l < 0
         \<or> lc_radius l > max_world_mm \<or> lc_charge l < 0 \<or> lc_charge l > max_energy_mj
         \<or> (lc_kind l = LK_Charging \<and> lc_charge l = 0) \<or> (lc_kind l = LK_Return \<and> lc_charge l \<noteq> 0)))
       (invalid ''invalid service location'')) (\<lambda>_.
     bindR (validate_point s (lc_pos l)) (\<lambda>_.
       require (grid_aligned s (lc_pos l)) (invalid ''service location is not grid aligned'')))"

definition check_vehicle :: "scenario \<Rightarrow> vehicle_spec \<Rightarrow> unit result" where
  "check_vehicle s v =
     bindR (require (\<not> (\<not> valid_id (vp_id v) \<or> vp_kind v = [] \<or> vp_speed v \<le> 0 \<or> vp_speed v > max_speed_mm_s
         \<or> vp_energy v \<le> 0 \<or> vp_energy v > max_energy_mj \<or> vp_cost v < 0 \<or> vp_cost v > max_energy_cost
         \<or> vp_payload v < 0 \<or> vp_payload v > max_payload_grams \<or> vp_caps v = [] \<or> vp_terrain v = []))
       (invalid ''invalid vehicle'')) (\<lambda>_.
     bindR (require (\<not> (\<not> list_all valid_capability (vp_caps v) \<or> \<not> list_all valid_id (vp_terrain v)
         \<or> adjacent_dup id (vp_caps v) \<or> adjacent_dup id (vp_terrain v)))
       (invalid ''invalid vehicle capabilities or terrain access'')) (\<lambda>_.
     bindR (validate_point s (vp_pos v)) (\<lambda>_.
     bindR (require (grid_aligned s (vp_pos v)) (invalid ''vehicle is not grid aligned'')) (\<lambda>_.
       if vp_return v \<noteq> []
       then require (case location_by_id s (vp_return v) of None \<Rightarrow> False | Some l \<Rightarrow> lc_kind l = LK_Return)
              (invalid ''invalid return location'')
       else Inr ()))))"

definition can_carry :: "vehicle_spec \<Rightarrow> task_spec \<Rightarrow> bool" where
  "can_carry v t \<longleftrightarrow> spec_capable v (tp_cap t) \<and> vp_payload v \<ge> tp_payload t"

definition check_assignment :: "scenario \<Rightarrow> task_spec \<Rightarrow> unit result" where
  "check_assignment s t =
     (if tp_agent t \<noteq> []
      then bindR (vehicle_by_id s (tp_agent t)) (\<lambda>v.
             require (can_carry v t) (invalid ''task assignment is infeasible''))
      else require (list_ex (\<lambda>v. can_carry v t) (sc_vehicles s)) (invalid ''task assignment is infeasible''))"

definition check_task :: "scenario \<Rightarrow> task_spec \<Rightarrow> unit result" where
  "check_task s t =
     bindR (require (\<not> (\<not> valid_id (tp_id t) \<or> tp_kind t = [] \<or> \<not> valid_capability (tp_cap t)
         \<or> tp_payload t < 0 \<or> tp_payload t > max_payload_grams \<or> tp_deadline t = 0
         \<or> tp_deadline t > sc_max_ticks s \<or> tp_radius t < 0 \<or> tp_radius t > max_world_mm
         \<or> tp_service t > sc_max_ticks s \<or> tp_service_energy t < 0 \<or> tp_service_energy t > max_energy_mj
         \<or> tp_priority t = 0 \<or> tp_priority t > 100 \<or> (tp_agent t \<noteq> [] \<and> \<not> valid_id (tp_agent t))))
       (invalid ''invalid task'')) (\<lambda>_.
     bindR (validate_point s (tp_target t)) (\<lambda>_.
     bindR (require (\<not> (\<not> grid_aligned s (tp_target t)
         \<or> (tp_service t \<noteq> 0 \<and> tp_service_energy t > max_energy_mj sdiv to_i64 (tp_service t))))
       (invalid ''invalid task service bounds'')) (\<lambda>_.
     bindR (require (\<not> (sc_policy s = AP_Scripted \<and> tp_agent t = []))
       (invalid ''scripted task has no assigned vehicle'')) (\<lambda>_.
       check_assignment s t))))"

text \<open>The body of the loop over the events; the state is \<open>maximum_energy\<close>, one bound per vehicle. The index is that
  of the vehicle with the target's identifier, which exists at that point.\<close>

definition check_event :: "scenario \<Rightarrow> i64 list \<Rightarrow> tape_event \<Rightarrow> i64 list result" where
  "check_event s maximum e =
     bindR (require (\<not> (\<not> valid_id (ev_id e) \<or> ev_tick e \<ge> sc_max_ticks s \<or> \<not> valid_event_kind (ev_kind e)))
       (invalid ''invalid tape event'')) (\<lambda>_.
     bindR (require (\<not> (ev_kind e = EK_Release_Task \<and> \<not> task_exists s (ev_target e)))
       (invalid ''release event targets unknown task'')) (\<lambda>_.
     bindR (require (\<not> ((ev_kind e = EK_Disable_Vehicle \<or> ev_kind e = EK_Energy_Delta
         \<or> multiplier_event (ev_kind e)) \<and> \<not> vehicle_exists s (ev_target e)))
       (invalid ''vehicle event targets unknown vehicle'')) (\<lambda>_.
     bindR (require (\<not> (ev_kind e = EK_Set_Region_Closed \<and> \<not> region_exists s (ev_target e)))
       (invalid ''region event targets unknown region'')) (\<lambda>_.
     bindR (require (\<not> (ev_kind e = EK_Energy_Delta \<and> (ev_min e > ev_max e \<or> ev_min e < - max_energy_mj
         \<or> ev_max e > max_energy_mj \<or> \<not> valid_id (ev_stream e))))
       (invalid ''invalid energy event range'')) (\<lambda>_.
     bindR (require (\<not> (multiplier_event (ev_kind e) \<and> (ev_min e < 1 \<or> ev_max e > 1000 \<or> ev_min e > ev_max e
         \<or> \<not> valid_id (ev_stream e))))
       (invalid ''invalid degradation event range'')) (\<lambda>_.
     bindR (if ev_kind e = EK_Energy_Delta \<and> ev_max e > 0
            then let index = lower_bound vp_id (sc_vehicles s) (ev_target e)
                 in if maximum ! index > max_energy_mj - ev_max e
                    then Inl (invalid ''energy events exceed numeric bounds'')
                    else Inr (maximum[index := maximum ! index + ev_max e])
            else Inr maximum) (\<lambda>maximum'.
     bindR (require (\<not> (ev_kind e = EK_Set_Network_Profile
         \<and> (ev_text e = [] \<or> (sc_profiles s \<noteq> [] \<and> \<not> profile_exists s (ev_text e)))))
       (invalid ''network event has invalid profile'')) (\<lambda>_.
     bindR (require (\<not> (ev_kind e = EK_Set_Link_Blocked
         \<and> (\<not> vehicle_exists s (ev_target e) \<or> \<not> vehicle_exists s (ev_text e) \<or> ev_target e = ev_text e)))
       (invalid ''link event has invalid endpoints'')) (\<lambda>_.
       Inr maximum')))))))))"

definition validate_scenario :: "scenario \<Rightarrow> unit result" where
  "validate_scenario s =
     bindR (require (\<not> (sc_schema s \<noteq> 1 \<or> \<not> valid_id (sc_name s))) (invalid ''invalid scenario identity'')) (\<lambda>_.
     bindR (require (\<not> bad_world s) (invalid ''invalid scenario timing or world'')) (\<lambda>_.
     bindR (require (\<not> (length (sc_vehicles s) < 3 \<or> length (sc_vehicles s) > 5 \<or> sc_tasks s = []))
       (invalid ''scenario requires three to five vehicles and at least one task'')) (\<lambda>_.
     bindR (require_unique rg_id (wd_regions (sc_world s)) ''region id'') (\<lambda>_.
     bindR (require_unique lc_id (wd_locations (sc_world s)) ''location id'') (\<lambda>_.
     bindR (require_unique vp_id (sc_vehicles s) ''vehicle id'') (\<lambda>_.
     bindR (require_unique tp_id (sc_tasks s) ''task id'') (\<lambda>_.
     bindR (require_unique np_id (sc_profiles s) ''network profile id'') (\<lambda>_.
     bindR (require (\<not> (sc_profiles s \<noteq> [] \<and> \<not> profile_exists s (sc_profile s)))
       (invalid ''unknown active network profile'')) (\<lambda>_.
     bindR (each (check_profile s) (sc_profiles s)) (\<lambda>_.
     bindR (each (check_region s) (wd_regions (sc_world s))) (\<lambda>_.
     bindR (each (check_location s) (wd_locations (sc_world s))) (\<lambda>_.
     bindR (each (check_vehicle s) (sc_vehicles s)) (\<lambda>_.
     bindR (require (\<not> length (remdups (map vp_kind (sc_vehicles s))) < 2)
       (invalid ''scenario vehicles are not heterogeneous'')) (\<lambda>_.
     bindR (each (check_task s) (sc_tasks s)) (\<lambda>_.
     bindR (foldR (check_event s) (map vp_energy (sc_vehicles s)) (sc_events s)) (\<lambda>_.
       require (\<not> adjacent_dup id (sort (map ev_id (sc_events s)))) (invalid ''duplicate event id'')))))))))))))))))"

subsection \<open>Loading and hashing\<close>

text \<open>\<open>text\<close> is the content of the file, if it can be read; \<open>parse\<close> is protobuf's text format.\<close>

definition load_scenario :: "(string \<Rightarrow> scenario option) \<Rightarrow> string option \<Rightarrow> scenario result" where
  "load_scenario parse text =
     (case text of
        None \<Rightarrow> Inl (Runtime_error ''failed to open scenario'')
      | Some t \<Rightarrow>
          (case parse t of
             None \<Rightarrow> Inl (invalid ''failed to parse scenario'')
           | Some raw \<Rightarrow>
               let s = normalize_scenario raw in bindR (validate_scenario s) (\<lambda>_. Inr s)))"

definition scenario_hash :: "serializer \<Rightarrow> scenario \<Rightarrow> string" where
  "scenario_hash serialize s = hash_bytes (serialize (P_Scenario (normalize_scenario s)))"

end
