(* ===== verification/Rng.thy ===== *)
theory Rng
  imports Prelude
begin

text \<open>
  The keyed random streams (\<^verbatim>\<open>core/src/rng.cpp\<close>): SplitMix64, rejection sampling of an inclusive
  range, and one generator per stream name. The sampling loop has no bound in the source. It ends
  because the generator visits every 64-bit value; the locale \<open>full_period\<close> states that, and gives
  the measure with which the loop is defined.
\<close>

unbundle bit_operations_syntax

subsection \<open>SplitMix64\<close>

definition gamma :: u64 where
  "gamma = 0x9e3779b97f4a7c15"

text \<open>The three xor-shift-multiply lines that \<open>mix\<close> and \<open>next\<close> share.\<close>

definition avalanche :: "u64 \<Rightarrow> u64" where
  "avalanche v0 =
     (let v1 = (v0 XOR drop_bit 30 v0) * 0xbf58476d1ce4e5b9;
          v2 = (v1 XOR drop_bit 27 v1) * 0x94d049bb133111eb
      in v2 XOR drop_bit 31 v2)"

definition mix :: "u64 \<Rightarrow> u64" where
  "mix v = avalanche (v + gamma)"

text \<open>\<open>next\<close> returns the new state and the value.\<close>

definition rng_next :: "u64 \<Rightarrow> u64 \<times> u64" where
  "rng_next st = (st + gamma, avalanche (st + gamma))"

definition name_hash :: "string \<Rightarrow> u64" where
  "name_hash name = foldl (\<lambda>h c. (h XOR of_char c) * 1099511628211) 14695981039346656037 name"

definition stream_seed :: "u64 \<Rightarrow> string \<Rightarrow> u64" where
  "stream_seed root name = mix (root XOR name_hash name)"

subsection \<open>The generator reaches every value\<close>

lemma xorshift_inj:
  assumes "0 < n"
  shows "inj (\<lambda>v :: u64. v XOR drop_bit n v)"
proof (rule injI)
  fix x y :: u64
  assume eq: "x XOR drop_bit n x = y XOR drop_bit n y"
  let ?z = "x XOR y"
  have "?z XOR drop_bit n ?z = (x XOR drop_bit n x) XOR (y XOR drop_bit n y)"
    by (simp only: drop_bit_xor xor.assoc xor.left_commute)
  then have "?z XOR drop_bit n ?z = 0" by (simp only: eq xor_self_eq)
  then have "?z = drop_bit n ?z" by (rule xor_zero_eq)
  then have "unat ?z = unat ?z div 2 ^ n" by (metis unat_drop_bit_eq drop_bit_eq_div)
  moreover have "(1::nat) < 2 ^ n" using assms by (intro one_less_power) simp_all
  ultimately have "unat ?z = 0" by (metis div_less_dividend less_irrefl neq0_conv)
  then show "x = y" by (simp add: unat_eq_zero xor_zero_eq)
qed

lemma avalanche_inj: "inj avalanche"
proof -
  let ?f = "\<lambda>n (v :: u64). v XOR drop_bit n v"
  have "inj (\<lambda>v :: u64. v * 0xbf58476d1ce4e5b9)"
    by (rule times_unit_inj [of _ 10871156337175269513]) simp
  moreover have "inj (\<lambda>v :: u64. v * 0x94d049bb133111eb)"
    by (rule times_unit_inj [of _ 3573116690164977347]) simp
  ultimately have "inj (?f 31 \<circ> (\<lambda>v. v * 0x94d049bb133111eb) \<circ> ?f 27 \<circ> (\<lambda>v. v * 0xbf58476d1ce4e5b9)
      \<circ> ?f 30)"
    by (intro inj_compose) (simp_all add: xorshift_inj)
  then show ?thesis
    by (rule inj_on_cong [THEN iffD1, rotated]) (simp add: avalanche_def Let_def)
qed

lemma surj_avalanche: "surj avalanche"
  by (rule finite_UNIV_inj_surj) (simp_all add: avalanche_inj)

text \<open>
  A generator with a full period: iterating it from any state produces every output. \<open>rank\<close> counts the
  draws until an output at or above the threshold, which is what the sampling loop decreases.
\<close>

locale full_period =
  fixes adv :: "u64 \<Rightarrow> u64 \<times> u64"
  assumes reaches: "\<exists>k. snd (adv (((fst \<circ> adv) ^^ k) s)) = v"
begin

lemma first_accepted:
  "\<exists>k. t \<le> snd (adv (((fst \<circ> adv) ^^ k) s))
     \<and> (\<forall>j < k. snd (adv (((fst \<circ> adv) ^^ j) s)) < t)"
proof -
  obtain m where "snd (adv (((fst \<circ> adv) ^^ m) s)) = t" using reaches by blast
  then have "t \<le> snd (adv (((fst \<circ> adv) ^^ m) s))" by simp
  then show ?thesis
    using exists_least_iff [of "\<lambda>k. t \<le> snd (adv (((fst \<circ> adv) ^^ k) s))"] by (auto simp: not_le)
qed

lemma rank_decreases:
  assumes "snd (adv s) < t"
  shows "(LEAST k. t \<le> snd (adv (((fst \<circ> adv) ^^ k) (fst (adv s)))))
       < (LEAST k. t \<le> snd (adv (((fst \<circ> adv) ^^ k) s)))"
proof -
  have step: "((fst \<circ> adv) ^^ Suc k) s = ((fst \<circ> adv) ^^ k) (fst (adv s))" for k
    by (simp add: funpow_swap1)
  have "(LEAST k. t \<le> snd (adv (((fst \<circ> adv) ^^ k) s)))
      = Suc (LEAST k. t \<le> snd (adv (((fst \<circ> adv) ^^ Suc k) s)))"
  proof (rule Least_Suc)
    show "t \<le> snd (adv (((fst \<circ> adv) ^^ (SOME k. t \<le> snd (adv (((fst \<circ> adv) ^^ k) s)))) s))"
      by (rule someI_ex) (use first_accepted in blast)
    show "\<not> t \<le> snd (adv (((fst \<circ> adv) ^^ 0) s))" using assms by (simp add: not_le)
  qed
  then show ?thesis by (simp only: step)
qed

end

lemma rng_next_iterate: "((fst \<circ> rng_next) ^^ k) s = s + of_nat k * gamma"
  by (induction k) (simp_all add: rng_next_def algebra_simps)

interpretation splitmix: full_period rng_next
proof
  fix s v :: u64
  obtain w where w: "v = avalanche w" using surj_avalanche by (rule surjE)
  define d where "d = w - gamma - s"
  let ?k = "unat (d * 17428512612931826493)"
  have "of_nat ?k * gamma = d * (17428512612931826493 * gamma)" by (simp add: mult.assoc)
  also have "17428512612931826493 * gamma = (1 :: u64)" by (simp add: gamma_def)
  finally have "s + of_nat ?k * gamma + gamma = w" by (simp add: d_def)
  then show "\<exists>k. snd (rng_next (((fst \<circ> rng_next) ^^ k) s)) = v"
    unfolding rng_next_iterate by (intro exI [of _ ?k]) (simp add: rng_next_def w)
qed

subsection \<open>Rejection sampling\<close>

text \<open>The \<open>do ... while (value < threshold)\<close> loop: the new state and the accepted value.\<close>

function rejection_loop :: "u64 \<Rightarrow> u64 \<Rightarrow> u64 \<times> u64" where
  "rejection_loop threshold st =
     (if snd (rng_next st) < threshold then rejection_loop threshold (fst (rng_next st))
      else rng_next st)"
  by pat_completeness auto
termination
  by (relation "measure (\<lambda>(t, s). LEAST k. t \<le> snd (rng_next (((fst \<circ> rng_next) ^^ k) s)))")
    (use splitmix.rank_decreases in auto)

declare rejection_loop.simps [simp del]

definition uniform :: "u64 \<Rightarrow> i64 \<Rightarrow> i64 \<Rightarrow> (u64 \<times> i64) result" where
  "uniform st minimum maximum =
     (if minimum > maximum then Inl (Invalid_argument ''invalid random range'')
      else
        let span = to_u64 maximum - to_u64 minimum + 1
        in if span = 0 then Inr (fst (rng_next st), to_i64 (snd (rng_next st)))
           else
             let threshold = (- span) mod span;
                 (st', value) = rejection_loop threshold st
             in Inr (st', minimum + to_i64 (value mod span)))"

subsection \<open>Named streams\<close>

record rng_streams =
  rt_seed :: u64
  rt_entries :: "(string \<times> u64) list"

definition empty_streams :: "u64 \<Rightarrow> rng_streams" where
  "empty_streams root = \<lparr>rt_seed = root, rt_entries = []\<rparr>"

text \<open>
  \<open>stream\<close> returns a reference into \<open>entries_\<close>: the model returns the state it refers to and the
  entries after the insertion; \<open>store_stream\<close> is the write of a draw through that reference.
\<close>

definition stream :: "string \<Rightarrow> rng_streams \<Rightarrow> u64 \<times> rng_streams" where
  "stream name rs =
     (case find_by fst (rt_entries rs) name of
        Some e \<Rightarrow> (snd e, rs)
      | None \<Rightarrow>
          let seed = stream_seed (rt_seed rs) name
          in (seed, rs\<lparr>rt_entries := insert_by fst (name, seed) (rt_entries rs)\<rparr>))"

definition store_stream :: "string \<Rightarrow> u64 \<Rightarrow> rng_streams \<Rightarrow> rng_streams" where
  "store_stream name st rs =
     rs\<lparr>rt_entries := update_by fst name (\<lambda>e. (fst e, st)) (rt_entries rs)\<rparr>"

text \<open>\<open>rng_streams_.stream(name).uniform(minimum, maximum)\<close>: the value, the stream's state after it, and
  the streams.\<close>

definition stream_uniform ::
    "string \<Rightarrow> i64 \<Rightarrow> i64 \<Rightarrow> rng_streams \<Rightarrow> (i64 \<times> u64 \<times> rng_streams) result" where
  "stream_uniform name minimum maximum rs =
     (let (st, rs1) = stream name rs
      in bindR (uniform st minimum maximum) (\<lambda>(st', value). Inr (value, st', store_stream name st' rs1)))"

subsection \<open>What a draw returns\<close>

lemma rejection_loop_first:
  "\<exists>k. rejection_loop t s = rng_next (s + of_nat k * gamma)
     \<and> t \<le> snd (rejection_loop t s) \<and> (\<forall>j < k. snd (rng_next (s + of_nat j * gamma)) < t)"
proof (induction t s rule: rejection_loop.induct)
  case (1 t s)
  show ?case
  proof (cases "snd (rng_next s) < t")
    case False
    then show ?thesis by (intro exI [of _ 0]) (auto simp: rejection_loop.simps [of t s] not_less)
  next
    case True
    then obtain k where k: "rejection_loop t s = rng_next (s + gamma + of_nat k * gamma)"
      "t \<le> snd (rejection_loop t s)" "\<forall>j < k. snd (rng_next (s + gamma + of_nat j * gamma)) < t"
      using 1 by (auto simp: rejection_loop.simps [of t s] rng_next_def)
    have "snd (rng_next (s + of_nat j * gamma)) < t" if "j < Suc k" for j
      using that True k(3) by (cases j) (auto simp: algebra_simps)
    with k show ?thesis by (intro exI [of _ "Suc k"]) (auto simp: algebra_simps)
  qed
qed

lemma span_uint:
  assumes "minimum \<le> maximum" and "maximum - minimum < 2 ^ 63"
  shows "uint (to_u64 maximum - to_u64 minimum + 1) = maximum - minimum + 1"
proof -
  have "to_u64 maximum - to_u64 minimum + 1 = word_of_int (maximum - minimum + 1)"
    by (simp add: to_u64_def)
  moreover have "uint (word_of_int (maximum - minimum + 1) :: u64) = maximum - minimum + 1"
    unfolding uint_word_of_int using assms by simp
  ultimately show ?thesis by metis
qed

lemma uniform_in_range:
  assumes "uniform st minimum maximum = Inr (st', v)" and "maximum - minimum < 2 ^ 63"
  shows "minimum \<le> v \<and> v \<le> maximum"
proof -
  let ?span = "to_u64 maximum - to_u64 minimum + 1"
  have le: "minimum \<le> maximum" using assms(1) by (auto simp: uniform_def split: if_splits)
  have span: "uint ?span = maximum - minimum + 1" using span_uint [OF le assms(2)] .
  then have "?span \<noteq> 0" using le by (metis add_le_less_mono diff_ge_0_iff_ge less_irrefl uint_0_eq
        zero_less_one add.right_neutral)
  then obtain x where v: "v = minimum + to_i64 (x mod ?span)"
    using assms(1) le by (auto simp: uniform_def Let_def split: prod.splits)
  have "uint (x mod ?span) = uint x mod (maximum - minimum + 1)" by (simp add: uint_mod span)
  then have bounds: "0 \<le> uint (x mod ?span)" "uint (x mod ?span) \<le> maximum - minimum"
    using le pos_mod_bound [of "maximum - minimum + 1" "uint x"] by auto
  then have "to_i64 (x mod ?span) = uint (x mod ?span)"
    using assms(2) by (simp add: to_i64_def sint_small)
  with bounds v show ?thesis by simp
qed

lemma uniform_total: "minimum \<le> maximum \<Longrightarrow> \<exists>st' v. uniform st minimum maximum = Inr (st', v)"
  by (auto simp: uniform_def Let_def split: prod.splits)

text \<open>Counting residues in a whole number of blocks.\<close>

lemma same_residue:
  fixes m n s a :: nat
  assumes "m mod s = n mod s" and "m \<in> {a..<a + s}" and "n \<in> {a..<a + s}"
  shows "m = n"
proof -
  have "x = y" if "x mod s = y mod s" "a \<le> x" "x \<le> y" "y < a + s" for x y
  proof -
    have "s dvd y - x" using that by (metis mod_eq_dvd_iff_nat)
    moreover have "y - x < s" using that by linarith
    ultimately show ?thesis using that(3) by (auto dest!: dvd_imp_le)
  qed
  then show ?thesis using assms by (metis atLeastLessThan_iff nat_le_linear)
qed

lemma one_residue_per_block:
  fixes a r s :: nat
  assumes "r < s"
  shows "card {n \<in> {a..<a + s}. n mod s = r} = 1"
proof -
  let ?n = "a + (r + s - a mod s) mod s"
  have "a mod s < s" using assms by (intro mod_less_divisor) simp
  then have le: "a mod s \<le> r + s" by simp
  have "?n mod s = (a mod s + (r + s - a mod s)) mod s" by (simp only: mod_add_left_eq mod_add_right_eq)
  also have "\<dots> = (r + s) mod s" using le by simp
  also have "\<dots> = r" using assms by simp
  finally have "?n mod s = r" .
  moreover have "n = ?n" if "n \<in> {a..<a + s}" "n mod s = r" for n
    using same_residue [where m = n and n = "?n" and s = s and a = a] that \<open>?n mod s = r\<close> assms by auto
  ultimately have "{n \<in> {a..<a + s}. n mod s = r} = {?n}" using assms by auto
  then show ?thesis by simp
qed

lemma residues_in_blocks:
  fixes a r s :: nat
  assumes "r < s"
  shows "card {n \<in> {a..<a + q * s}. n mod s = r} = q"
proof (induction q)
  case 0
  then show ?case by simp
next
  case (Suc q)
  have "{n \<in> {a..<a + Suc q * s}. n mod s = r}
      = {n \<in> {a..<a + q * s}. n mod s = r} \<union> {n \<in> {a + q * s..<a + q * s + s}. n mod s = r}"
    by auto
  moreover have "card \<dots> = q + 1"
    by (subst card_Un_disjoint) (auto simp only: Suc one_residue_per_block [OF assms], auto)
  ultimately show ?case by simp
qed

text \<open>The values the loop accepts, counted by the residue they leave.\<close>

lemma unat_neg_mod:
  fixes span :: u64
  assumes "span \<noteq> 0"
  shows "unat ((- span) mod span) = 2 ^ 64 mod unat span"
proof -
  have "unat (- span) = 2 ^ 64 - unat span" using assms unat_sub_if' [of 0 span] by (simp add: unat_eq_zero)
  moreover have "unat span \<le> 2 ^ 64" using unsigned_less [of span, where 'a=nat] by simp
  ultimately show ?thesis by (simp add: unat_mod_distrib le_mod_geq)
qed

lemma accepted_card:
  fixes span r :: u64
  assumes "r < span"
  shows "card {v. (- span) mod span \<le> v \<and> v mod span = r} = 2 ^ 64 div unat span"
proof -
  let ?S = "{v. (- span) mod span \<le> v \<and> v mod span = r}"
  let ?t = "2 ^ 64 mod unat span"
  have nz: "span \<noteq> 0" using assms by auto
  have N: "(2::nat) ^ 64 = ?t + (2 ^ 64 div unat span) * unat span" by simp
  have iff: "v \<in> ?S \<longleftrightarrow> ?t \<le> unat v \<and> unat v mod unat span = unat r" for v
    using unat_neg_mod [OF nz]
    by (simp only: mem_Collect_eq word_le_nat_alt) (simp only: word_unat_eq_iff unat_mod_distrib)
  have "unat ` ?S = {n \<in> {?t..<2 ^ 64}. n mod unat span = unat r}"
  proof (intro equalityI subsetI)
    fix n assume n: "n \<in> {n \<in> {?t..<2 ^ 64}. n mod unat span = unat r}"
    then have un: "unat (of_nat n :: u64) = n" by (simp add: unat_of_nat)
    from n have "?t \<le> n \<and> n mod unat span = unat r" by simp
    then have "(of_nat n :: u64) \<in> ?S" unfolding iff un .
    then show "n \<in> unat ` ?S" by (rule image_eqI [where f = unat, OF un [symmetric]])
  next
    fix n assume "n \<in> unat ` ?S"
    then obtain v where "v \<in> ?S" and n: "n = unat v" by blast
    then show "n \<in> {n \<in> {?t..<2 ^ 64}. n mod unat span = unat r}"
      using unsigned_less [of v, where 'a=nat] by (simp only: iff n mem_Collect_eq atLeastLessThan_iff) simp
  qed
  moreover have "card (unat ` ?S) = card ?S"
    by (rule card_image) (auto simp: inj_on_def dest: word_unat_eq_iff [THEN iffD2])
  ultimately have "card ?S = card {n \<in> {?t..<2 ^ 64}. n mod unat span = unat r}" by (simp only:)
  also have "\<dots> = card {n \<in> {?t..<?t + (2 ^ 64 div unat span) * unat span}. n mod unat span = unat r}"
    by (simp only: N [symmetric])
  also have "\<dots> = 2 ^ 64 div unat span"
    using assms by (intro residues_in_blocks) (simp add: word_less_nat_alt)
  finally show ?thesis .
qed

subsection \<open>Streams\<close>

definition streams_ok :: "rng_streams \<Rightarrow> bool" where
  "streams_ok rs \<longleftrightarrow> strictly_sorted fst (rt_entries rs)"

text \<open>What \<open>stream(name)\<close> would return now, stored or not.\<close>

definition stream_state :: "rng_streams \<Rightarrow> string \<Rightarrow> u64" where
  "stream_state rs name = fst (stream name rs)"

lemma streams_ok_empty [inv_intros]: "streams_ok (empty_streams root)"
  by (simp add: streams_ok_def empty_streams_def)

lemma stream_ok [inv_intros]: "streams_ok rs \<Longrightarrow> stream name rs = (st, rs') \<Longrightarrow> streams_ok rs'"
  using strictly_sorted_insert_by [of fst "rt_entries rs" "(name, stream_seed (rt_seed rs) name)"]
  by (auto simp: stream_def streams_ok_def Let_def split: option.splits)

lemma store_stream_ok [inv_intros]: "streams_ok rs \<Longrightarrow> streams_ok (store_stream name st rs)"
  by (simp add: store_stream_def streams_ok_def)

lemma stream_state_store:
  assumes "stream name rs = (st, rs')"
  shows "stream_state (store_stream name st' rs') m = (if m = name then st' else stream_state rs m)"
  using assms
  by (auto simp: stream_state_def stream_def store_stream_def Let_def find_by_update find_by_insert_by
      split: option.splits if_splits)

lemma rt_seed_stream [frame_simps]:
  "stream name rs = (st, rs') \<Longrightarrow> rt_seed rs' = rt_seed rs"
  "rt_seed (store_stream name st rs) = rt_seed rs"
  by (auto simp: stream_def store_stream_def Let_def split: option.splits)

lemma stream_uniform_state:
  assumes "stream_uniform name lo hi rs = Inr (v, st', rs')"
  shows "uniform (stream_state rs name) lo hi = Inr (st', v)"
    and "stream_state rs' m = (if m = name then st' else stream_state rs m)"
proof -
  obtain st rs1 where s: "stream name rs = (st, rs1)" by (cases "stream name rs")
  with assms show "uniform (stream_state rs name) lo hi = Inr (st', v)"
    by (auto simp: stream_uniform_def stream_state_def)
  from assms s have "rs' = store_stream name st' rs1" by (auto simp: stream_uniform_def)
  then show "stream_state rs' m = (if m = name then st' else stream_state rs m)"
    by (simp add: stream_state_store [OF s])
qed

lemma stream_uniform_ok [inv_intros]:
  "streams_ok rs \<Longrightarrow> stream_uniform name lo hi rs = Inr (v, st', rs') \<Longrightarrow> streams_ok rs'"
  by (auto simp: stream_uniform_def intro: stream_ok store_stream_ok split: prod.splits)

lemma stream_uniform_total:
  "lo \<le> hi \<Longrightarrow> \<exists>v st' rs'. stream_uniform name lo hi rs = Inr (v, st', rs')"
  using uniform_total [of lo hi] by (fastforce simp: stream_uniform_def split: prod.splits)

text \<open>A sequence of draws, each tagged with the stream it came from.\<close>

fun draws :: "rng_streams \<Rightarrow> (string \<times> i64 \<times> i64) list \<Rightarrow> (string \<times> i64) list result" where
  "draws rs [] = Inr []"
| "draws rs ((name, lo, hi) # ds) =
     bindR (stream_uniform name lo hi rs) (\<lambda>(v, st', rs').
       bindR (draws rs' ds) (\<lambda>vs. Inr ((name, v) # vs)))"

lemma draws_one_stream:
  assumes "draws rs ds = Inr vs" and "stream_state rs name = stream_state rs' name"
  shows "draws rs' (filter (\<lambda>d. fst d = name) ds) = Inr (filter (\<lambda>v. fst v = name) vs)"
  using assms
proof (induction rs ds arbitrary: rs' vs rule: draws.induct)
  case (1 rs)
  then show ?case by simp
next
  case (2 rs n lo hi ds)
  from "2.prems"(1) obtain v st1 rs1 ws where d: "stream_uniform n lo hi rs = Inr (v, st1, rs1)"
    and rest: "draws rs1 ds = Inr ws" and vs: "vs = (n, v) # ws" by auto
  note s1 = stream_uniform_state [OF d]
  show ?case
  proof (cases "n = name")
    case False
    have "stream_state rs1 name = stream_state rs' name" using s1(2) False "2.prems"(2) by simp
    with "2.IH" [OF d refl refl rest] False show ?thesis by (simp add: vs)
  next
    case True
    have "uniform (stream_state rs' n) lo hi = Inr (st1, v)" using s1(1) "2.prems"(2) True by simp
    then obtain rs2 where d2: "stream_uniform n lo hi rs' = Inr (v, st1, rs2)"
      by (cases "stream n rs'") (auto simp: stream_uniform_def stream_state_def)
    have "stream_state rs1 name = stream_state rs2 name"
      using s1(2) stream_uniform_state(2) [OF d2] True by simp
    with "2.IH" [OF d refl refl rest] True d2 show ?thesis by (simp add: vs)
  qed
qed

subsection \<open>Properties\<close>

lemma uniform_unfold:
  assumes "lo \<le> hi" and "hi - lo < 2 ^ 63"
  shows "uniform st lo hi =
    (let span = to_u64 hi - to_u64 lo + 1; r = rejection_loop ((- span) mod span) st
     in Inr (fst r, lo + to_i64 (snd r mod span)))"
proof -
  have "uint (to_u64 hi - to_u64 lo + 1) \<noteq> 0" using span_uint [OF assms] assms(1) by linarith
  then have "to_u64 hi - to_u64 lo + 1 \<noteq> 0" by (metis unsigned_0)
  then show ?thesis using assms(1) by (simp add: uniform_def Let_def split_beta)
qed

text \<open>C35: a draw from a range narrower than \<open>2 ^ 63\<close> always ends, with a value inside the range. It takes
  the first output at or above the rejection threshold and leaves the generator right behind it.\<close>

theorem uniform_first_accepted:
  assumes "lo \<le> hi" and "hi - lo < 2 ^ 63"
  shows "\<exists>k v. uniform st lo hi = Inr (st + of_nat (Suc k) * gamma, v) \<and> lo \<le> v \<and> v \<le> hi
    \<and> v = lo + to_i64 (avalanche (st + of_nat (Suc k) * gamma) mod (to_u64 hi - to_u64 lo + 1))
    \<and> (\<forall>j < k. avalanche (st + of_nat (Suc j) * gamma)
               < (- (to_u64 hi - to_u64 lo + 1)) mod (to_u64 hi - to_u64 lo + 1))"
proof -
  let ?span = "to_u64 hi - to_u64 lo + 1"
  obtain k where k: "rejection_loop ((- ?span) mod ?span) st = rng_next (st + of_nat k * gamma)"
    "\<forall>j < k. snd (rng_next (st + of_nat j * gamma)) < (- ?span) mod ?span"
    using rejection_loop_first by blast
  have suc: "st + of_nat j * gamma + gamma = st + of_nat (Suc j) * gamma" for j
    by (simp add: algebra_simps)
  have u: "uniform st lo hi = Inr (st + of_nat (Suc k) * gamma,
      lo + to_i64 (avalanche (st + of_nat (Suc k) * gamma) mod ?span))"
    by (simp only: uniform_unfold [OF assms] Let_def k(1) rng_next_def suc fst_conv snd_conv)
  have "\<forall>j < k. avalanche (st + of_nat (Suc j) * gamma) < (- ?span) mod ?span"
    using k(2) by (simp only: rng_next_def suc snd_conv)
  with u uniform_in_range [OF u assms(2)] show ?thesis by blast
qed

theorem uniform_first_accepted_witness:
  "\<exists>st' v. uniform 42 (- 3) 9999 = Inr (st', v) \<and> - 3 \<le> v \<and> v \<le> 9999"
proof -
  have "(- 3 :: int) \<le> 9999" and "9999 - (- 3 :: int) < 2 ^ 63" by simp_all
  from uniform_first_accepted [OF this, of 42] show ?thesis by blast
qed

lemma rejection_loop_at_once:
  "rejection_loop t s = rng_next s \<longleftrightarrow> t \<le> avalanche (s + gamma)"
proof
  assume f: "rejection_loop t s = rng_next s"
  obtain k where "t \<le> snd (rejection_loop t s)" using rejection_loop_first by blast
  with f show "t \<le> avalanche (s + gamma)" by (simp add: rng_next_def)
qed (auto simp: rejection_loop.simps [of t s] rng_next_def)

lemma rejection_loop_state:
  "fst (rejection_loop t s) = s + gamma \<longleftrightarrow> rejection_loop t s = rng_next s"
proof
  assume f: "fst (rejection_loop t s) = s + gamma"
  obtain k where k: "rejection_loop t s = rng_next (s + of_nat k * gamma)"
    using rejection_loop_first by blast
  with f show "rejection_loop t s = rng_next s" by (simp add: rng_next_def)
qed (simp add: rng_next_def)

lemma uniform_at_once:
  assumes "lo \<le> hi" and "hi - lo < 2 ^ 63"
  shows "uniform st lo hi = Inr (st + gamma, x) \<longleftrightarrow>
    (let span = to_u64 hi - to_u64 lo + 1; w = avalanche (st + gamma)
     in (- span) mod span \<le> w \<and> lo + to_i64 (w mod span) = x)"
proof -
  let ?span = "to_u64 hi - to_u64 lo + 1"
  let ?t = "(- ?span) mod ?span"
  have "uniform st lo hi = Inr (st + gamma, x) \<longleftrightarrow>
      rejection_loop ?t st = rng_next st \<and> lo + to_i64 (snd (rng_next st) mod ?span) = x"
    by (auto simp only: uniform_unfold [OF assms] Let_def rejection_loop_state sum.inject prod.inject)
  also have "snd (rng_next st) = avalanche (st + gamma)" by (simp add: rng_next_def)
  finally show ?thesis by (simp only: rejection_loop_at_once Let_def)
qed

lemma residue_of_value:
  fixes span w :: u64
  assumes "uint span < 2 ^ 63 + 1" and "0 \<le> d" and "d < uint span"
  shows "to_i64 (w mod span) = d \<longleftrightarrow> w mod span = word_of_int d"
proof -
  have "uint (w mod span) < uint span" using assms by (simp add: uint_mod)
  then have "to_i64 (w mod span) = uint (w mod span)" using assms(1) by (simp add: to_i64_def sint_small)
  moreover have "uint (word_of_int d :: u64) = d" using assms by (simp add: uint_word_of_int)
  ultimately show ?thesis by (metis word_uint_eq_iff)
qed

text \<open>C39: the draw is unbiased. Of the \<open>2 ^ 64\<close> generator states, the number from which a value of the
  range is returned by the very next output is the same for every value.\<close>

theorem uniform_unbiased:
  assumes "lo \<le> x" and "x \<le> hi" and "hi - lo < 2 ^ 63"
  shows "card {st. uniform st lo hi = Inr (st + gamma, x)} = 2 ^ 64 div nat (hi - lo + 1)"
proof -
  let ?span = "to_u64 hi - to_u64 lo + 1"
  let ?r = "word_of_int (x - lo) :: u64"
  have le: "lo \<le> hi" using assms by simp
  have span: "uint ?span = hi - lo + 1" by (rule span_uint [OF le assms(3)])
  have r: "uint ?r = x - lo" unfolding uint_word_of_int using assms by simp
  have val: "lo + to_i64 (w mod ?span) = x \<longleftrightarrow> w mod ?span = ?r" for w
  proof -
    have "to_i64 (w mod ?span) = x - lo \<longleftrightarrow> w mod ?span = ?r"
      by (rule residue_of_value) (simp_all only: span, use assms in simp_all)
    then show ?thesis by linarith
  qed
  have "bij (\<lambda>st. avalanche (st + gamma))"
  proof -
    have inj: "inj (\<lambda>st. avalanche (st + gamma))"
      by (rule injI) (drule injD [OF avalanche_inj], simp)
    then show ?thesis by (simp add: bij_def finite_UNIV_inj_surj)
  qed
  moreover have "{st. uniform st lo hi = Inr (st + gamma, x)}
      = (\<lambda>st. avalanche (st + gamma)) -` {w. (- ?span) mod ?span \<le> w \<and> w mod ?span = ?r}"
    by (auto simp only: uniform_at_once [OF le assms(3)] Let_def val vimage_def mem_Collect_eq)
  ultimately have "card {st. uniform st lo hi = Inr (st + gamma, x)}
      = card {w. (- ?span) mod ?span \<le> w \<and> w mod ?span = ?r}"
    by (simp only: card_vimage_inj bij_is_inj bij_is_surj subset_UNIV)
  also have "\<dots> = 2 ^ 64 div unat ?span"
    by (rule accepted_card) (simp only: word_less_def r span, use assms in simp)
  also have "unat ?span = nat (hi - lo + 1)" by (simp add: span [symmetric])
  finally show ?thesis .
qed

theorem uniform_unbiased_witness:
  "card {st. uniform st 0 9999 = Inr (st + gamma, 1234)} = 1844674407370955"
  using uniform_unbiased [of 0 1234 9999] by simp

text \<open>Streams are independent. In any sequence of draws, what one stream returns depends on its own
  draws only: dropping every draw from the others, from an empty table, gives the same values.\<close>

theorem stream_independence:
  assumes "draws (empty_streams root) ds = Inr vs"
  shows "draws (empty_streams root) (filter (\<lambda>d. fst d = name) ds) = Inr (filter (\<lambda>v. fst v = name) vs)"
  by (rule draws_one_stream [OF assms refl])

lemma draws_total: "\<forall>d \<in> set ds. fst (snd d) \<le> snd (snd d) \<Longrightarrow> \<exists>vs. draws rs ds = Inr vs"
proof (induction rs ds rule: draws.induct)
  case (2 rs name lo hi ds)
  then obtain v st' rs' where d: "stream_uniform name lo hi rs = Inr (v, st', rs')"
    using stream_uniform_total by force
  with "2.IH" [OF d refl refl] "2.prems" show ?case by auto
qed simp

theorem stream_independence_witness:
  "\<exists>v1 v2 v3. draws (empty_streams 7) [(''loss'', 0, 9), (''jitter'', 0, 5), (''loss'', 0, 9)]
       = Inr [(''loss'', v1), (''jitter'', v2), (''loss'', v3)]
     \<and> draws (empty_streams 7) [(''loss'', 0, 9), (''loss'', 0, 9)] = Inr [(''loss'', v1), (''loss'', v3)]"
proof -
  obtain vs where vs: "draws (empty_streams 7) [(''loss'', 0, 9), (''jitter'', 0, 5), (''loss'', 0, 9)] = Inr vs"
    using draws_total [of "[(''loss'', 0, 9), (''jitter'', 0, 5), (''loss'', 0, 9)]"] by (auto simp del: draws.simps)
  then obtain v1 v2 v3 where "vs = [(''loss'', v1), (''jitter'', v2), (''loss'', v3)]" by auto
  with vs stream_independence [OF vs, of "''loss''"]
  have "draws (empty_streams 7) [(''loss'', 0, 9), (''loss'', 0, 9)] = Inr [(''loss'', v1), (''loss'', v3)]"
    by (simp del: draws.simps)
  with vs \<open>vs = _\<close> show ?thesis by blast
qed

text \<open>C40: a range wider than \<open>2 ^ 63\<close> breaks the arithmetic of the last line of \<open>uniform\<close>: the remainder no
  longer fits the signed type, and adding it to the minimum leaves the signed 64-bit range.\<close>

theorem uniform_wide_range:
  "\<exists>v. uniform 0 (- i64_max) i64_max = Inr (gamma, v) \<and> \<not> i64_ok v"
  by (simp add: uniform_def i64_max_def i64_ok_def to_u64_def to_i64_def rejection_loop.simps
      rng_next_def gamma_def avalanche_def)

end
