(* ===== verification/Network.thy ===== *)
theory Network
  imports Proto Rng Hash "HOL-Library.Multiset"
begin

text \<open>
  \<open>core::NetworkEmulator\<close> (\<^verbatim>\<open>core/src/network.cpp\<close>): one FIFO queue per directed link, a per-tick
  byte budget, packets in flight until their delivery tick, and undirected partitions. All chance is
  keyed by the sequence number a message is given, so a step is a function of the emulator's state,
  the tick and the messages handed over.
\<close>

subsection \<open>State\<close>

record packet =
  pk_message :: net_message
  pk_profile :: net_profile
  pk_sequence :: u64
  pk_serialized :: u64
  pk_remaining :: u64
  pk_enqueue :: u64
  pk_start :: u64
  pk_end :: u64
  pk_delivery :: u64
  pk_delay :: u64
  pk_jitter :: i64
  pk_started :: bool
  pk_reordered :: bool

record link =
  ln_sender :: string
  ln_recipient :: string
  ln_queue :: "packet list"

record net =
  nt_seed :: u64
  nt_step_ms :: u64
  nt_profile :: net_profile
  nt_links :: "link list"
  nt_in_flight :: "packet list"
  nt_blocked :: "(string \<times> string) list"
  nt_next :: u64
  nt_bytes :: u64
  nt_messages :: u64
  nt_delivered :: u64
  nt_dropped :: u64
  nt_reordered :: u64

definition empty_profile :: net_profile where
  "empty_profile =
     \<lparr>np_id = [], np_latency = 0, np_jitter = 0, np_loss = 0, np_bandwidth = 0, np_reorder = 0,
      np_window = 0\<rparr>"

definition new_net :: "u64 \<Rightarrow> u64 \<Rightarrow> net result" where
  "new_net seed step_ms =
     (if step_ms = 0 then Inl (Invalid_argument ''invalid network clock'')
      else Inr \<lparr>nt_seed = seed, nt_step_ms = step_ms, nt_profile = empty_profile, nt_links = [],
                nt_in_flight = [], nt_blocked = [], nt_next = 1, nt_bytes = 0, nt_messages = 0,
                nt_delivered = 0, nt_dropped = 0, nt_reordered = 0\<rparr>)"

subsection \<open>Helpers\<close>

definition message_key :: "net_message \<Rightarrow> string \<times> string \<times> u64 \<times> bytes" where
  "message_key m = (nm_recipient m, nm_sender m, nm_version m, nm_payload m)"

definition outcome_key :: "net_outcome \<Rightarrow> u64 \<times> u64 \<times> disposition" where
  "outcome_key r = (no_tick r, no_sequence r, no_disposition r)"

definition link_pair :: "string \<Rightarrow> string \<Rightarrow> (string \<times> string) result" where
  "link_pair first second =
     (if first = [] \<or> second = [] \<or> first = second
      then Inl (Invalid_argument ''invalid network link'')
      else Inr (if first < second then (first, second) else (second, first)))"

definition validate_profile :: "net_profile \<Rightarrow> unit result" where
  "validate_profile p =
     (if np_id p = [] \<or> np_loss p > 10000 \<or> np_reorder p > 10000 \<or> np_bandwidth p = 0
         \<or> (np_reorder p > 0 \<and> np_window p = 0)
         \<or> np_latency p > to_u64 i64_max \<or> np_jitter p > to_u64 i64_max
         \<or> np_jitter p > to_u64 i64_max - np_latency p
      then Inl (Invalid_argument ''invalid network profile'') else Inr ())"

definition checked_add :: "u64 \<Rightarrow> u64 \<Rightarrow> u64 result" where
  "checked_add left right =
     (if right > - 1 - left then Inl (Overflow_error ''network tick overflow'')
      else Inr (left + right))"

definition draw_key :: "string \<Rightarrow> net_message \<Rightarrow> u64 \<Rightarrow> string" where
  "draw_key label m sequence =
     ''network-'' @ label @ '':'' @ nm_sender m @ '':'' @ nm_recipient m @ '':'' @ to_string sequence"

definition draw :: "u64 \<Rightarrow> string \<Rightarrow> net_message \<Rightarrow> u64 \<Rightarrow> i64 \<Rightarrow> i64 \<Rightarrow> i64 result" where
  "draw seed label m sequence minimum maximum =
     bindR (uniform (stream_seed seed (draw_key label m sequence)) minimum maximum)
       (\<lambda>(st, value). Inr value)"

subsection \<open>Operations\<close>

definition set_profile :: "net_profile \<Rightarrow> net \<Rightarrow> net result" where
  "set_profile p n = bindR (validate_profile p) (\<lambda>_. Inr (n\<lparr>nt_profile := p\<rparr>))"

definition outcome :: "packet \<Rightarrow> disposition \<Rightarrow> u64 \<Rightarrow> net_outcome" where
  "outcome p d tick =
     \<lparr>no_sequence = pk_sequence p, no_disposition = d, no_tick = tick, no_message = pk_message p,
      no_bytes = pk_serialized p, no_enqueue = pk_enqueue p, no_start = pk_start p,
      no_end = pk_end p, no_delivery = pk_delivery p, no_jitter = pk_jitter p,
      no_reordered = pk_reordered p, no_profile = np_id (pk_profile p)\<rparr>"

definition link_blocked :: "string \<Rightarrow> string \<Rightarrow> net \<Rightarrow> bool result" where
  "link_blocked first second n =
     bindR (link_pair first second) (\<lambda>key. Inr (find_by id (nt_blocked n) key \<noteq> None))"

text \<open>The two loops of \<open>set_link_blocked\<close>: over the queues of the cut link, then over the packets in
  flight on it.\<close>

definition cut_queue ::
    "string \<times> string \<Rightarrow> u64 \<Rightarrow> link list \<times> net_outcome list \<Rightarrow> link \<Rightarrow> (link list \<times> net_outcome list) result" where
  "cut_queue key tick = (\<lambda>(kept, outs) current.
     bindR (link_pair (ln_sender current) (ln_recipient current)) (\<lambda>k.
       if k \<noteq> key then Inr (kept @ [current], outs)
       else Inr (kept @ [current\<lparr>ln_queue := []\<rparr>],
                 outs @ map (\<lambda>q. outcome q ND_Dropped_Partition tick) (ln_queue current))))"

definition cut_flight ::
    "string \<times> string \<Rightarrow> u64 \<Rightarrow> packet list \<times> net_outcome list \<Rightarrow> packet \<Rightarrow> (packet list \<times> net_outcome list) result" where
  "cut_flight key tick = (\<lambda>(kept, outs) current.
     bindR (link_pair (nm_sender (pk_message current)) (nm_recipient (pk_message current))) (\<lambda>k.
       if k = key then Inr (kept, outs @ [outcome current ND_Dropped_Partition tick])
       else Inr (kept @ [current], outs)))"

definition set_link_blocked ::
    "string \<Rightarrow> string \<Rightarrow> bool \<Rightarrow> u64 \<Rightarrow> net \<Rightarrow> (net_outcome list \<times> net) result" where
  "set_link_blocked first second value tick n =
     bindR (link_pair first second) (\<lambda>key.
       let present = find_by id (nt_blocked n) key \<noteq> None
       in if value = present then Inr ([], n)
          else if \<not> value then Inr ([], n\<lparr>nt_blocked := erase_by id key (nt_blocked n)\<rparr>)
          else
            bindR (foldR (cut_queue key tick) ([], []) (nt_links n)) (\<lambda>(links, outs).
            bindR (foldR (cut_flight key tick) ([], outs) (nt_in_flight n)) (\<lambda>(flight, outs').
              Inr (sort_key outcome_key outs',
                   n\<lparr>nt_blocked := insert_by id key (nt_blocked n), nt_links := links,
                     nt_in_flight := flight,
                     nt_dropped := nt_dropped n + of_nat (length outs')\<rparr>))))"

text \<open>\<open>link\<close> returns a reference that its one caller appends to.\<close>

definition link_key :: "link \<Rightarrow> string \<times> string" where
  "link_key l = (ln_sender l, ln_recipient l)"

definition ensure_link :: "string \<Rightarrow> string \<Rightarrow> link list \<Rightarrow> link list" where
  "ensure_link sender recipient links =
     (case find_by link_key links (sender, recipient) of
        Some l \<Rightarrow> links
      | None \<Rightarrow>
          insert_by link_key \<lparr>ln_sender = sender, ln_recipient = recipient, ln_queue = []\<rparr> links)"

definition queue_push :: "packet \<Rightarrow> link list \<Rightarrow> link list" where
  "queue_push p links =
     (let sender = nm_sender (pk_message p); recipient = nm_recipient (pk_message p)
      in update_by link_key (sender, recipient) (\<lambda>l. l\<lparr>ln_queue := ln_queue l @ [p]\<rparr>)
           (ensure_link sender recipient links))"

definition message_envelope :: "net_message \<Rightarrow> u64 \<Rightarrow> u64 \<Rightarrow> envelope" where
  "message_envelope m sequence time =
     \<lparr>en_schema = 1, en_sequence = sequence, en_time_ms = time, en_sender = nm_sender m,
      en_recipient = nm_recipient m, en_body = Body_message m\<rparr>"

definition make_packet :: "serializer \<Rightarrow> net_message \<Rightarrow> u64 \<Rightarrow> net \<Rightarrow> (packet \<times> net) result" where
  "make_packet ser m tick n =
     (let profile = nt_profile n; sequence = nt_next n; seed = nt_seed n;
          jitter = to_i64 (np_jitter profile)
      in bindR (draw seed ''jitter'' m sequence (- jitter) jitter) (\<lambda>jitter_ticks.
         bindR (if np_window profile > 0
                then bindR (draw seed ''reorder'' m sequence 0 9999)
                       (\<lambda>v. Inr (v < uint (np_reorder profile)))
                else Inr False) (\<lambda>reordered.
         bindR (if reordered
                then bindR (draw seed ''reorder-delay'' m sequence 1 (uint (np_window profile)))
                       (\<lambda>v. Inr (to_u64 v))
                else Inr 0) (\<lambda>delay.
         if tick > (- 1) div nt_step_ms n then Inl (Overflow_error ''network time overflow'')
         else
           let bytes = of_nat (length (ser (P_Envelope (message_envelope m sequence (tick * nt_step_ms n)))))
           in Inr (\<lparr>pk_message = m, pk_profile = profile, pk_sequence = sequence,
                    pk_serialized = bytes, pk_remaining = bytes, pk_enqueue = tick, pk_start = 0,
                    pk_end = 0, pk_delivery = 0, pk_delay = delay, pk_jitter = jitter_ticks,
                    pk_started = False, pk_reordered = reordered\<rparr>,
                   n\<lparr>nt_next := sequence + 1\<rparr>)))))"

text \<open>The \<open>while\<close> loop of \<open>transmit\<close> on one queue.\<close>

fun serve :: "u64 \<Rightarrow> u64 \<Rightarrow> u64 \<Rightarrow> packet list \<Rightarrow> packet list \<Rightarrow> (packet list \<times> packet list) result" where
  "serve tick rate budget [] flight = Inr ([], flight)"
| "serve tick rate budget (p # queue) flight =
     (if budget > 0 \<and> np_bandwidth (pk_profile p) = rate then
        let p1 = (if \<not> pk_started p then p\<lparr>pk_started := True, pk_start := tick\<rparr> else p);
            transmitted = min budget (pk_remaining p1);
            p2 = p1\<lparr>pk_remaining := pk_remaining p1 - transmitted\<rparr>
        in if pk_remaining p2 > 0 then Inr (p2 # queue, flight)
           else
             let p3 = p2\<lparr>pk_end := tick\<rparr>;
                 resolved = to_i64 (np_latency (pk_profile p)) + pk_jitter p;
                 delay = to_u64 (max 1 resolved)
             in bindR (checked_add tick delay) (\<lambda>arrival.
                bindR (checked_add arrival (pk_delay p)) (\<lambda>delivery.
                  serve tick rate (budget - transmitted) queue
                    (flight @ [p3\<lparr>pk_delivery := delivery\<rparr>])))
      else Inr (p # queue, flight))"

definition transmit_link ::
    "net \<Rightarrow> u64 \<Rightarrow> link list \<times> packet list \<Rightarrow> link \<Rightarrow> (link list \<times> packet list) result" where
  "transmit_link n tick = (\<lambda>(links, flight) current.
     case ln_queue current of
       [] \<Rightarrow> Inr (links @ [current], flight)
     | p # q \<Rightarrow>
         bindR (link_blocked (ln_sender current) (ln_recipient current) n) (\<lambda>blocked.
           if blocked then Inr (links @ [current], flight)
           else
             let rate = np_bandwidth (pk_profile p)
             in bindR (serve tick rate rate (ln_queue current) flight) (\<lambda>(queue, flight').
                  Inr (links @ [current\<lparr>ln_queue := queue\<rparr>], flight'))))"

definition flight_key :: "packet \<Rightarrow> u64 \<times> u64" where
  "flight_key p = (pk_delivery p, pk_sequence p)"

definition transmit :: "u64 \<Rightarrow> net \<Rightarrow> net result" where
  "transmit tick n =
     bindR (foldR (transmit_link n tick) ([], nt_in_flight n) (nt_links n)) (\<lambda>(links, flight).
       Inr (n\<lparr>nt_links := links, nt_in_flight := sort_key flight_key flight\<rparr>))"

text \<open>The body of \<open>step\<close>'s loop over the sorted messages, and of its loop over the packets in flight.\<close>

definition enqueue ::
    "serializer \<Rightarrow> u64 \<Rightarrow> net \<times> net_outcome list \<Rightarrow> net_message \<Rightarrow> (net \<times> net_outcome list) result" where
  "enqueue ser tick = (\<lambda>(n, outs) m.
     if nm_sender m = [] \<or> nm_recipient m = [] \<or> nm_sender m = nm_recipient m \<or> nm_version m = 0
     then Inl (Invalid_argument ''invalid network message'')
     else
       bindR (make_packet ser m tick n) (\<lambda>(current, n0).
         let n1 = n0\<lparr>nt_bytes := nt_bytes n0 + pk_serialized current,
                     nt_messages := nt_messages n0 + 1\<rparr>
         in bindR (link_blocked (nm_sender m) (nm_recipient m) n1) (\<lambda>blocked.
            if blocked
            then Inr (n1\<lparr>nt_dropped := nt_dropped n1 + 1\<rparr>,
                      outs @ [outcome current ND_Dropped_Partition tick])
            else
              bindR (draw (nt_seed n1) ''loss'' m (pk_sequence current) 0 9999) (\<lambda>v.
                if v < uint (np_loss (pk_profile current))
                then Inr (n1\<lparr>nt_dropped := nt_dropped n1 + 1\<rparr>,
                          outs @ [outcome current ND_Dropped_Loss tick])
                else Inr (n1\<lparr>nt_links := queue_push current (nt_links n1)\<rparr>,
                          outs @ [outcome current ND_Queued tick])))))"

record arrivals =
  ar_kept :: "packet list"
  ar_delivered :: "net_message list"
  ar_outcomes :: "net_outcome list"
  ar_count :: u64
  ar_dropped :: u64
  ar_reordered :: u64

definition arrive :: "net \<Rightarrow> u64 \<Rightarrow> arrivals \<Rightarrow> packet \<Rightarrow> arrivals result" where
  "arrive n now a current =
     (if pk_delivery current > now then Inr (a\<lparr>ar_kept := ar_kept a @ [current]\<rparr>)
      else
        bindR (link_blocked (nm_sender (pk_message current)) (nm_recipient (pk_message current)) n)
          (\<lambda>blocked.
            if blocked
            then Inr (a\<lparr>ar_outcomes := ar_outcomes a @ [outcome current ND_Dropped_Partition now],
                        ar_dropped := ar_dropped a + 1\<rparr>)
            else Inr (a\<lparr>ar_delivered := ar_delivered a @ [pk_message current],
                        ar_outcomes := ar_outcomes a @ [outcome current ND_Delivered now],
                        ar_count := ar_count a + 1,
                        ar_reordered := ar_reordered a + (if pk_reordered current then 1 else 0)\<rparr>)))"

definition net_step ::
    "serializer \<Rightarrow> u64 \<Rightarrow> net_message list \<Rightarrow> net \<Rightarrow> (net_message list \<times> net_outcome list \<times> net) result" where
  "net_step ser tick outgoing n =
     (if outgoing \<noteq> [] \<and> np_id (nt_profile n) = []
      then Inl (Logic_error ''network profile is not set'')
      else
        bindR (foldR (enqueue ser tick) (n, []) (sort_key message_key outgoing)) (\<lambda>(n1, outs).
        bindR (transmit tick n1) (\<lambda>n2.
        bindR (checked_add tick 1) (\<lambda>now.
        bindR (foldR (arrive n2 now)
                 \<lparr>ar_kept = [], ar_delivered = [], ar_outcomes = outs, ar_count = nt_delivered n2,
                  ar_dropped = nt_dropped n2, ar_reordered = nt_reordered n2\<rparr>
                 (nt_in_flight n2)) (\<lambda>a.
          Inr (ar_delivered a, sort_key outcome_key (ar_outcomes a),
               n2\<lparr>nt_in_flight := ar_kept a, nt_delivered := ar_count a,
                  nt_dropped := ar_dropped a, nt_reordered := ar_reordered a\<rparr>))))))"

subsection \<open>The emulator's contribution to the state hash\<close>

definition profile_items :: "net_profile \<Rightarrow> hash_item list" where
  "profile_items p =
     [HT (np_id p), HU (np_latency p), HU (np_jitter p), HU (ucast (np_loss p)),
      HU (np_bandwidth p), HU (ucast (np_reorder p)), HU (ucast (np_window p))]"

definition packet_items :: "serializer \<Rightarrow> packet \<Rightarrow> hash_item list" where
  "packet_items ser p =
     [HT (ser (P_Message (pk_message p)))] @ profile_items (pk_profile p) @
     [HU (pk_sequence p), HU (pk_serialized p), HU (pk_remaining p), HU (pk_enqueue p),
      HU (pk_start p), HU (pk_end p), HU (pk_delivery p), HU (pk_delay p), HS (pk_jitter p),
      HB (pk_started p), HB (pk_reordered p)]"

definition net_items :: "serializer \<Rightarrow> net \<Rightarrow> hash_item list" where
  "net_items ser n =
     [HU (nt_seed n), HU (nt_step_ms n)] @ profile_items (nt_profile n) @
     [HU (nt_next n), HU (nt_bytes n), HU (nt_messages n), HU (nt_delivered n),
      HU (nt_dropped n), HU (nt_reordered n), HU (of_nat (length (nt_blocked n)))] @
     concat (map (\<lambda>(first, second). [HT first, HT second]) (nt_blocked n)) @
     [HU (of_nat (length (nt_links n)))] @
     concat (map (\<lambda>l. [HT (ln_sender l), HT (ln_recipient l), HU (of_nat (length (ln_queue l)))] @
       concat (map (packet_items ser) (ln_queue l))) (nt_links n)) @
     [HU (of_nat (length (nt_in_flight n)))] @
     concat (map (packet_items ser) (nt_in_flight n))"

definition append_hash :: "serializer \<Rightarrow> net \<Rightarrow> u64 \<Rightarrow> u64" where
  "append_hash ser n = absorb_all (net_items ser n)"

end
