(* ===== verification/Geometry.thy ===== *)
theory Geometry
  imports Proto
begin

text \<open>
  The geometry under the planner and the simulator (\<^verbatim>\<open>planning/src/planner.cpp\<close>, lines 15-169 and
  \<open>contested_resource\<close>): closed rectangles, segments, travel time and motion energy. Coordinates are
  integers in millimetres; \<open>Eigen\<close>'s two-component vector is the record \<open>point\<close>.
\<close>

subsection \<open>Segments and rectangles\<close>

definition coordinate :: "i64 \<Rightarrow> i64 \<Rightarrow> point" where
  "coordinate x y = \<lparr>px = x, py = y\<rparr>"

definition rg_contains :: "region \<Rightarrow> point \<Rightarrow> bool" where
  "rg_contains r p \<longleftrightarrow> px p \<ge> px (rg_min r) \<and> px p \<le> px (rg_max r)
     \<and> py p \<ge> py (rg_min r) \<and> py p \<le> py (rg_max r)"

definition orientation :: "point \<Rightarrow> point \<Rightarrow> point \<Rightarrow> int" where
  "orientation a b c =
     (let cross = (px b - px a) * (py c - py a) - (py b - py a) * (px c - px a)
      in (if cross > 0 then 1 else 0) - (if cross < 0 then 1 else 0))"

definition on_segment :: "point \<Rightarrow> point \<Rightarrow> point \<Rightarrow> bool" where
  "on_segment a b p \<longleftrightarrow> px p \<ge> min (px a) (px b) \<and> px p \<le> max (px a) (px b)
     \<and> py p \<ge> min (py a) (py b) \<and> py p \<le> max (py a) (py b)"

definition segments_intersect :: "point \<Rightarrow> point \<Rightarrow> point \<Rightarrow> point \<Rightarrow> bool" where
  "segments_intersect a b c d =
     (let first = orientation a b c; second = orientation a b d;
          third = orientation c d a; fourth = orientation c d b
      in if (first = 0 \<and> on_segment a b c) \<or> (second = 0 \<and> on_segment a b d)
            \<or> (third = 0 \<and> on_segment c d a) \<or> (fourth = 0 \<and> on_segment c d b)
         then True
         else ((first < 0 \<and> second > 0) \<or> (first > 0 \<and> second < 0))
            \<and> ((third < 0 \<and> fourth > 0) \<or> (third > 0 \<and> fourth < 0)))"

definition intersects :: "region \<Rightarrow> point \<Rightarrow> point \<Rightarrow> bool" where
  "intersects r a b =
     (if rg_contains r a \<or> rg_contains r b then True
      else
        let lower_left = coordinate (px (rg_min r)) (py (rg_min r));
            lower_right = coordinate (px (rg_max r)) (py (rg_min r));
            upper_left = coordinate (px (rg_min r)) (py (rg_max r));
            upper_right = coordinate (px (rg_max r)) (py (rg_max r))
        in segments_intersect a b lower_left lower_right
           \<or> segments_intersect a b lower_right upper_right
           \<or> segments_intersect a b upper_right upper_left
           \<or> segments_intersect a b upper_left lower_left)"

subsection \<open>Vehicles in the world\<close>

definition has_capability :: "vehicle_state \<Rightarrow> capability \<Rightarrow> bool" where
  "has_capability v c \<longleftrightarrow> c \<in> set (vs_caps v)"

definition has_terrain :: "vehicle_state \<Rightarrow> string \<Rightarrow> bool" where
  "has_terrain v t \<longleftrightarrow> t \<in> set (vs_terrain v)"

text \<open>Both factors are unsigned; the callers guard \<open>max_speed_mm_s > 0\<close> and \<open>step_ms \<noteq> 0\<close>.\<close>

definition edge_ticks :: "i64 \<Rightarrow> vehicle_state \<Rightarrow> u64 \<Rightarrow> u64" where
  "edge_ticks distance v step_ms =
     (let numerator = to_u64 distance * 1000;
          denominator = to_u64 (vs_speed v) * step_ms
      in numerator div denominator + (if numerator mod denominator \<noteq> 0 then 1 else 0))"

text \<open>The body of the loop over the regions: does this region stop the vehicle?\<close>

definition region_stops :: "vehicle_state \<Rightarrow> point \<Rightarrow> point \<Rightarrow> region \<Rightarrow> bool" where
  "region_stops v a b r \<longleftrightarrow> intersects r a b
     \<and> (rg_closed r \<or> rg_kind r = RK_Obstacle \<or> rg_kind r = RK_Restricted
        \<or> (rg_kind r = RK_Terrain \<and> \<not> has_terrain v (rg_terrain r)))"

definition segment_allowed :: "world \<Rightarrow> vehicle_state \<Rightarrow> point \<Rightarrow> point \<Rightarrow> bool" where
  "segment_allowed w v a b =
     (if px a < 0 \<or> py a < 0 \<or> px b < 0 \<or> py b < 0 \<or> px a > wd_width w \<or> px b > wd_width w
         \<or> py a > wd_height w \<or> py b > wd_height w
      then False else \<not> (\<exists>r \<in> set (wd_regions w). region_stops v a b r))"

definition terrain_multiplier :: "world \<Rightarrow> point \<Rightarrow> point \<Rightarrow> u32" where
  "terrain_multiplier w a b =
     foldl (\<lambda>multiplier r. if rg_kind r = RK_Terrain \<and> intersects r a b
                            then max multiplier (rg_mult r) else multiplier) 1000 (wd_regions w)"

definition motion_energy :: "vehicle_state \<Rightarrow> i64 \<Rightarrow> u32 \<Rightarrow> i64 result" where
  "motion_energy v distance multiplier =
     (if distance < 0 \<or> vs_cost v < 0 then Inl (Invalid_argument ''invalid motion energy input'')
      else
        let base = (distance * vs_cost v) sdiv 1000
        in Inr ((base * uint multiplier) sdiv 1000))"

definition contested_resource :: "world \<Rightarrow> point \<Rightarrow> point \<Rightarrow> string option" where
  "contested_resource w a b =
     foldl (\<lambda>best r. if rg_kind r = RK_Chokepoint \<and> intersects r a b
                         \<and> (case best of None \<Rightarrow> True | Some k \<Rightarrow> rg_id r < k)
                      then Some (rg_id r) else best) None (wd_regions w)"

subsection \<open>Facts\<close>

lemma intersects_ends: "rg_contains r a \<or> rg_contains r b \<Longrightarrow> intersects r a b"
  by (simp add: intersects_def)

text \<open>A vehicle that does not move meets exactly the regions it stands in.\<close>

lemma segments_intersect_point: "segments_intersect a a c d \<Longrightarrow> on_segment c d a"
  by (auto simp: segments_intersect_def orientation_def Let_def on_segment_def split: if_splits)

lemma on_edge_contains:
  assumes "on_segment (coordinate x1 y1) (coordinate x2 y2) a"
    and "px (rg_min r) \<le> min x1 x2" "max x1 x2 \<le> px (rg_max r)"
    and "py (rg_min r) \<le> min y1 y2" "max y1 y2 \<le> py (rg_max r)"
  shows "rg_contains r a"
  using assms by (auto simp: on_segment_def coordinate_def rg_contains_def min_le_iff_disj le_max_iff_disj)

lemma intersects_point:
  assumes "px (rg_min r) < px (rg_max r)" and "py (rg_min r) < py (rg_max r)"
  shows "intersects r a a \<longleftrightarrow> rg_contains r a"
proof -
  note edge = on_edge_contains [OF segments_intersect_point, of a _ _ _ _ r]
  show ?thesis
  proof
    assume "intersects r a a"
    then show "rg_contains r a" unfolding intersects_def Let_def if_bool_eq_disj
      by (elim disjE conjE)
        (assumption | (erule edge; simp add: order.strict_implies_order [OF assms(1)]
            order.strict_implies_order [OF assms(2)]))+
  qed (simp add: intersects_ends)
qed

text \<open>The region with the least identifier among the chokepoints a segment meets.\<close>

lemma contested_resource_spec:
  "case contested_resource w a b of
     None \<Rightarrow> \<forall>r \<in> set (wd_regions w). \<not> (rg_kind r = RK_Chokepoint \<and> intersects r a b)
   | Some k \<Rightarrow> (\<exists>r \<in> set (wd_regions w). rg_kind r = RK_Chokepoint \<and> intersects r a b \<and> rg_id r = k)
       \<and> (\<forall>r \<in> set (wd_regions w). rg_kind r = RK_Chokepoint \<and> intersects r a b \<longrightarrow> k \<le> rg_id r)"
proof -
  have "case foldl (\<lambda>best r. if rg_kind r = RK_Chokepoint \<and> intersects r a b
                         \<and> (case best of None \<Rightarrow> True | Some k \<Rightarrow> rg_id r < k)
                      then Some (rg_id r) else best) None rs of
     None \<Rightarrow> \<forall>r \<in> set rs. \<not> (rg_kind r = RK_Chokepoint \<and> intersects r a b)
   | Some k \<Rightarrow> (\<exists>r \<in> set rs. rg_kind r = RK_Chokepoint \<and> intersects r a b \<and> rg_id r = k)
       \<and> (\<forall>r \<in> set rs. rg_kind r = RK_Chokepoint \<and> intersects r a b \<longrightarrow> k \<le> rg_id r)" for rs
  proof (induction rs rule: rev_induct)
    case (snoc r rs)
    then show ?case
      by (auto simp: not_less split: option.splits if_splits intro: order.strict_implies_order order_trans)
  qed simp
  then show ?thesis by (simp add: contested_resource_def)
qed

lemma segment_allowed_bounds:
  "segment_allowed w v a b \<Longrightarrow> 0 \<le> px a \<and> px a \<le> wd_width w \<and> 0 \<le> py a \<and> py a \<le> wd_height w
     \<and> 0 \<le> px b \<and> px b \<le> wd_width w \<and> 0 \<le> py b \<and> py b \<le> wd_height w"
  by (auto simp: segment_allowed_def split: if_splits)

lemma segment_allowed_regions:
  "segment_allowed w v a b \<Longrightarrow> r \<in> set (wd_regions w) \<Longrightarrow> \<not> region_stops v a b r"
  by (auto simp: segment_allowed_def split: if_splits)

lemma terrain_multiplier_ge: "1000 \<le> terrain_multiplier w a b"
proof -
  have "m \<le> foldl (\<lambda>multiplier r. if P r then max multiplier (rg_mult r) else multiplier) m rs" for m P rs
    by (induction rs rule: rev_induct) (auto simp: max_def)
  then show ?thesis by (simp add: terrain_multiplier_def)
qed

lemma motion_energy_nonneg: "motion_energy v d m = Inr e \<Longrightarrow> 0 \<le> e"
  by (auto simp: motion_energy_def Let_def split: if_splits)

end
