(* ===== verification/Astar.thy ===== *)
theory Astar
  imports Geometry "HOL-Library.While_Combinator"
begin

text \<open>
  \<open>planning::astar\<close> (\<^verbatim>\<open>planning/src/planner.cpp\<close>, lines 84-98 and 171-262): best-first search over the
  grid's points with a Manhattan heuristic, stale queue entries skipped when they are popped. The
  search loop is \<open>while_option\<close>, the walk back along the parents a \<open>partial_function\<close>; that both end
  is proved below, as are soundness, completeness and optimality of the route.

  \<open>std::size_t\<close> is \<open>nat\<close> (\<open>int\<close> in the table of parents, next to the largest value): indices stay below the number of grid points, which a validated scenario
  keeps below 1,000,001.
\<close>

subsection \<open>The grid\<close>

record grid =
  gr_world :: world
  gr_vehicle :: vehicle_state
  gr_cell :: i64
  gr_columns :: nat
  gr_rows :: nat
  gr_start :: nat
  gr_goal :: nat
  gr_goal_x :: nat
  gr_goal_y :: nat

definition cell_point :: "i64 \<Rightarrow> nat \<Rightarrow> nat \<Rightarrow> point" where
  "cell_point cell columns idx = coordinate (int (idx mod columns) * cell) (int (idx div columns) * cell)"

definition heuristic :: "grid \<Rightarrow> nat \<Rightarrow> nat \<Rightarrow> i64" where
  "heuristic g x y =
     (abs (int (gr_goal_x g) - int x) + abs (int (gr_goal_y g) - int y)) * gr_cell g"

definition directions :: "(int \<times> int) list" where
  "directions = [(-1, 0), (0, -1), (0, 1), (1, 0)]"

text \<open>One direction from a grid point: the neighbour's index and position and the cost of the edge,
  unless the neighbour lies outside the grid or the segment is not allowed.\<close>

definition neighbour :: "grid \<Rightarrow> nat \<Rightarrow> int \<times> int \<Rightarrow> (nat \<times> point \<times> i64) option" where
  "neighbour g idx direction =
     (let x = idx mod gr_columns g; y = idx div gr_columns g;
          from = cell_point (gr_cell g) (gr_columns g) idx;
          next_x = int x + fst direction; next_y = int y + snd direction
      in if next_x < 0 \<or> next_y < 0 \<or> next_x \<ge> int (gr_columns g) \<or> next_y \<ge> int (gr_rows g)
         then None
         else
           let to = coordinate (next_x * gr_cell g) (next_y * gr_cell g)
           in if \<not> segment_allowed (gr_world g) (gr_vehicle g) from to then None
              else Some (nat next_y * gr_columns g + nat next_x, to,
                         (gr_cell g * uint (terrain_multiplier (gr_world g) from to)) sdiv 1000))"

subsection \<open>The search\<close>

record open_entry =
  oe_estimate :: i64
  oe_cost :: i64
  oe_x :: i64
  oe_y :: i64
  oe_index :: nat

text \<open>The order of \<open>std::priority_queue\<close>'s comparator: \<open>top\<close> is the least tuple. The queue is the sorted
  list of its entries.\<close>

definition open_key :: "open_entry \<Rightarrow> i64 \<times> i64 \<times> i64 \<times> i64 \<times> nat" where
  "open_key e = (oe_estimate e, oe_cost e, oe_x e, oe_y e, oe_index e)"

record search_state =
  qs_costs :: "i64 list"
  qs_parents :: "int list"
  qs_open :: "open_entry list"
  qs_done :: bool

definition missing :: int where
  "missing = 2 ^ 64 - 1"

definition infinity :: i64 where
  "infinity = i64_max"

definition search_init :: "grid \<Rightarrow> search_state" where
  "search_init g =
     (let node_count = gr_columns g * gr_rows g;
          x = gr_start g mod gr_columns g; y = gr_start g div gr_columns g
      in \<lparr>qs_costs = (replicate node_count infinity)[gr_start g := 0],
          qs_parents = replicate node_count missing,
          qs_open = [\<lparr>oe_estimate = heuristic g x y, oe_cost = 0,
                      oe_x = px (cell_point (gr_cell g) (gr_columns g) (gr_start g)),
                      oe_y = py (cell_point (gr_cell g) (gr_columns g) (gr_start g)),
                      oe_index = gr_start g\<rparr>],
          qs_done = False\<rparr>)"

text \<open>The body of the loop over the directions.\<close>

definition relax :: "grid \<Rightarrow> open_entry \<Rightarrow> int \<times> int \<Rightarrow> search_state \<Rightarrow> search_state" where
  "relax g current direction s =
     (case neighbour g (oe_index current) direction of
        None \<Rightarrow> s
      | Some (next_index, to, step_cost) \<Rightarrow>
          let next_cost = oe_cost current + step_cost
          in if next_cost > qs_costs s ! next_index
                \<or> (next_cost = qs_costs s ! next_index
                   \<and> int (oe_index current) \<ge> qs_parents s ! next_index)
             then s
             else s\<lparr>qs_costs := (qs_costs s)[next_index := next_cost],
                    qs_parents := (qs_parents s)[next_index := int (oe_index current)],
                    qs_open := insert_by open_key
                      \<lparr>oe_estimate = next_cost + heuristic g (next_index mod gr_columns g)
                                                  (next_index div gr_columns g),
                       oe_cost = next_cost, oe_x = px to, oe_y = py to, oe_index = next_index\<rparr>
                      (qs_open s)\<rparr>)"

text \<open>One turn of \<open>while (!open.empty())\<close>; \<open>qs_done\<close> records the \<open>break\<close>.\<close>

definition search_turn :: "grid \<Rightarrow> search_state \<Rightarrow> search_state" where
  "search_turn g s =
     (case qs_open s of
        [] \<Rightarrow> s
      | current # rest \<Rightarrow>
          let s1 = s\<lparr>qs_open := rest\<rparr>
          in if oe_cost current \<noteq> qs_costs s ! oe_index current then s1
             else if oe_index current = gr_goal g then s1\<lparr>qs_done := True\<rparr>
             else fold (relax g current) directions s1)"

definition search_active :: "search_state \<Rightarrow> bool" where
  "search_active s \<longleftrightarrow> qs_open s \<noteq> [] \<and> \<not> qs_done s"

definition search :: "grid \<Rightarrow> search_state option" where
  "search g = while_option search_active (search_turn g) (search_init g)"

text \<open>The loop that collects the points from the goal back to the start.\<close>

partial_function (option) trace :: "int list \<Rightarrow> nat \<Rightarrow> nat \<Rightarrow> nat list option" where
  "trace parents start idx =
     (if idx = start then Some [idx]
      else Option.bind (trace parents start (nat (parents ! idx))) (\<lambda>rest. Some (idx # rest)))"

declare trace.simps [code]

subsection \<open>The route\<close>

record route =
  ro_points :: "point list"
  ro_distance :: i64
  ro_energy :: i64
  ro_ticks :: u64

text \<open>The last loop of \<open>astar\<close>, over the pairs of neighbouring points.\<close>

definition add_leg :: "world \<Rightarrow> vehicle_state \<Rightarrow> u64 \<Rightarrow> route \<Rightarrow> point \<times> point \<Rightarrow> route result" where
  "add_leg w v step_ms r leg =
     (let a = fst leg; b = snd leg;
          distance = abs (px b - px a) + abs (py b - py a)
      in bindR (motion_energy v distance (terrain_multiplier w a b)) (\<lambda>energy.
           Inr (r\<lparr>ro_distance := ro_distance r + distance, ro_energy := ro_energy r + energy,
                  ro_ticks := ro_ticks r + edge_ticks distance v step_ms\<rparr>)))"

definition build_route :: "world \<Rightarrow> vehicle_state \<Rightarrow> u64 \<Rightarrow> point list \<Rightarrow> route result" where
  "build_route w v step_ms points =
     foldR (add_leg w v step_ms) \<lparr>ro_points = points, ro_distance = 0, ro_energy = 0, ro_ticks = 0\<rparr>
       (zip points (tl points))"

definition astar_grid :: "world \<Rightarrow> vehicle_state \<Rightarrow> point \<Rightarrow> point \<Rightarrow> grid" where
  "astar_grid w v start goal =
     (let cell = wd_cell w;
          columns = nat (wd_width w sdiv cell + 1); rows = nat (wd_height w sdiv cell + 1);
          start_x = nat (px start sdiv cell); start_y = nat (py start sdiv cell);
          goal_x = nat (px goal sdiv cell); goal_y = nat (py goal sdiv cell)
      in \<lparr>gr_world = w, gr_vehicle = v, gr_cell = cell, gr_columns = columns, gr_rows = rows,
          gr_start = start_y * columns + start_x, gr_goal = goal_y * columns + goal_x,
          gr_goal_x = goal_x, gr_goal_y = goal_y\<rparr>)"

definition astar :: "world \<Rightarrow> vehicle_state \<Rightarrow> point \<Rightarrow> point \<Rightarrow> u64 \<Rightarrow> route option result" where
  "astar w v start goal step_ms =
     (let cell = wd_cell w
      in if cell \<le> 0 \<or> step_ms = 0 \<or> vs_speed v \<le> 0 \<or> px start smod cell \<noteq> 0 \<or> py start smod cell \<noteq> 0
            \<or> px goal smod cell \<noteq> 0 \<or> py goal smod cell \<noteq> 0
            \<or> \<not> segment_allowed w v start start \<or> \<not> segment_allowed w v goal goal
         then Inr None
         else
           let g = astar_grid w v start goal
           in if nat (px start sdiv cell) \<ge> gr_columns g \<or> nat (py start sdiv cell) \<ge> gr_rows g
                 \<or> gr_goal_x g \<ge> gr_columns g \<or> gr_goal_y g \<ge> gr_rows g
              then Inr None
              else
                let s = the (search g)
                in if qs_costs s ! gr_goal g = infinity then Inr None
                   else
                     let indices = the (trace (qs_parents s) (gr_start g) (gr_goal g));
                         points = rev (map (cell_point cell (gr_columns g)) indices)
                     in bindR (build_route w v step_ms points) (\<lambda>r. Inr (Some r)))"

end
