(* ===== verification/Planner.thy ===== *)
theory Planner
  imports Astar
begin

text \<open>
  Routes, claims and bundles (\<^verbatim>\<open>planning/src/planner.cpp\<close>, lines 264-529): a route from anywhere on a grid
  line, the feasibility of a task for a vehicle, the nearest capable vehicle, and the evaluation of an
  ordered bundle of tasks behind a cache of routes.
\<close>

subsection \<open>Routes from anywhere\<close>

definition route_anchors :: "i64 \<Rightarrow> point \<Rightarrow> point list" where
  "route_anchors cell start =
     (if px start smod cell \<noteq> 0 \<and> py start smod cell = 0
      then [coordinate (px start sdiv cell * cell) (py start),
            coordinate ((px start sdiv cell + 1) * cell) (py start)]
      else if py start smod cell \<noteq> 0 \<and> px start smod cell = 0
      then [coordinate (px start) (py start sdiv cell * cell),
            coordinate (px start) ((py start sdiv cell + 1) * cell)]
      else [])"

text \<open>The tuple the loop over the anchors compares.\<close>

definition anchor_key :: "route \<times> point \<Rightarrow> i64 \<times> i64 \<times> i64" where
  "anchor_key ra = (ro_distance (fst ra), px (snd ra), py (snd ra))"

text \<open>The body of the loop: the best route so far with its anchor.\<close>

definition try_anchor ::
    "world \<Rightarrow> vehicle_state \<Rightarrow> point \<Rightarrow> point \<Rightarrow> u64 \<Rightarrow> (route \<times> point) option \<Rightarrow> point
     \<Rightarrow> (route \<times> point) option result" where
  "try_anchor w v start goal step_ms best anchor =
     (if \<not> segment_allowed w v start anchor then Inr best
      else
        bindR (astar w v anchor goal step_ms) (\<lambda>found.
          case found of
            None \<Rightarrow> Inr best
          | Some r \<Rightarrow>
              let partial = abs (px start - px anchor) + abs (py start - py anchor)
              in bindR (motion_energy v partial (terrain_multiplier w start anchor)) (\<lambda>energy.
                   let r' = r\<lparr>ro_distance := ro_distance r + partial, ro_energy := ro_energy r + energy,
                              ro_ticks := ro_ticks r + edge_ticks partial v step_ms,
                              ro_points := start # ro_points r\<rparr>
                   in Inr (keep_best (\<lambda>a b. anchor_key a < anchor_key b) best (r', anchor)))))"

definition route_from :: "world \<Rightarrow> vehicle_state \<Rightarrow> point \<Rightarrow> point \<Rightarrow> u64 \<Rightarrow> route option result" where
  "route_from w v start goal step_ms =
     (let cell = wd_cell w
      in if cell \<le> 0 then Inr None
         else if px start smod cell = 0 \<and> py start smod cell = 0 then astar w v start goal step_ms
         else bindR (foldR (try_anchor w v start goal step_ms) None (route_anchors cell start))
                (\<lambda>best. Inr (map_option fst best)))"

subsection \<open>Feasibility\<close>

definition reserve_energy :: "vehicle_state \<Rightarrow> i64" where
  "reserve_energy v =
     (if vs_initial v \<le> 0 then 0
      else vs_initial v sdiv 10 + (if vs_initial v smod 10 \<noteq> 0 then 1 else 0))"

definition remaining_service :: "task_state \<Rightarrow> u64" where
  "remaining_service t = (if ts_service t > ts_progress t then ts_service t - ts_progress t else 0)"

definition feasible_route ::
    "world \<Rightarrow> vehicle_state \<Rightarrow> task_state \<Rightarrow> u64 \<Rightarrow> u64 \<Rightarrow> route option result" where
  "feasible_route w v t tick step_ms =
     (if \<not> vs_active v \<or> ts_status t \<noteq> TS_Pending \<or> \<not> has_capability v (ts_cap t)
         \<or> vs_payload v < ts_payload t \<or> tick > ts_deadline t
      then Inr None
      else
        bindR (route_from w v (vs_pos v) (ts_target t) step_ms) (\<lambda>found.
          case found of
            None \<Rightarrow> Inr None
          | Some r \<Rightarrow>
              let remaining_deadline = ts_deadline t - tick;
                  available = vs_energy v - reserve_energy v;
                  service_energy = to_i64 (remaining_service t) * ts_service_energy t
              in Inr (if ro_ticks r > remaining_deadline
                         \<or> remaining_service t > remaining_deadline - ro_ticks r then None
                      else if available < 0 \<or> ro_energy r > available then None
                      else if service_energy < 0 \<or> service_energy > available - ro_energy r then None
                      else Some r)))"

definition make_claim ::
    "world \<Rightarrow> vehicle_state \<Rightarrow> task_state \<Rightarrow> u64 \<Rightarrow> u64 \<Rightarrow> u64 \<Rightarrow> u64 \<Rightarrow> alloc_claim result" where
  "make_claim w v t tick step_ms epoch version =
     bindR (feasible_route w v t tick step_ms) (\<lambda>found.
       Inr \<lparr>cl_epoch = epoch, cl_version = version, cl_task = ts_id t, cl_agent = vs_id v,
            cl_feasible = (found \<noteq> None),
            cl_distance = (case found of None \<Rightarrow> 0 | Some r \<Rightarrow> ro_distance r)\<rparr>)"

definition claim_key :: "alloc_claim \<Rightarrow> i64 \<times> string" where
  "claim_key c = (cl_distance c, cl_agent c)"

definition consider_vehicle ::
    "world \<Rightarrow> task_state \<Rightarrow> u64 \<Rightarrow> u64 \<Rightarrow> u64 \<Rightarrow> u64 \<Rightarrow> alloc_claim option \<Rightarrow> vehicle_state
     \<Rightarrow> alloc_claim option result" where
  "consider_vehicle w t tick step_ms epoch version winner v =
     bindR (make_claim w v t tick step_ms epoch version) (\<lambda>c.
       Inr (if \<not> cl_feasible c then winner
            else keep_best (\<lambda>a b. claim_key a < claim_key b) winner c))"

definition nearest_capable ::
    "world \<Rightarrow> vehicle_state list \<Rightarrow> task_state \<Rightarrow> u64 \<Rightarrow> u64 \<Rightarrow> u64 \<Rightarrow> u64 \<Rightarrow> alloc_claim option result" where
  "nearest_capable w vehicles t tick step_ms epoch version =
     foldR (consider_vehicle w t tick step_ms epoch version) None vehicles"

subsection \<open>Bundles\<close>

record bundle_eval =
  be_distance :: i64
  be_energy :: i64
  be_completion :: u64
  be_ticks :: "u64 list"

record bundle_insertion =
  bi_index :: nat
  bi_score :: i64
  bi_distance :: i64
  bi_energy :: i64
  bi_completion :: u64

text \<open>\<open>routes_\<close>: the cache of one evaluator, from start and goal to the route (or its absence).\<close>

type_synonym route_cache = "(point \<times> point) \<Rightarrow> route option option"

definition route_to ::
    "world \<Rightarrow> vehicle_state \<Rightarrow> u64 \<Rightarrow> point \<times> point \<Rightarrow> route_cache \<Rightarrow> (route option \<times> route_cache) result" where
  "route_to w v step_ms key cache =
     (case cache key of
        Some found \<Rightarrow> Inr (found, cache)
      | None \<Rightarrow> bindR (route_from w v (fst key) (snd key) step_ms)
                  (\<lambda>found. Inr (found, cache(key \<mapsto> found))))"

text \<open>The loop of \<open>evaluate\<close>, over a source of routes with a state of its own: the evaluator's cache, or
  none.\<close>

fun evaluate_loop ::
    "(point \<times> point \<Rightarrow> 'c \<Rightarrow> (route option \<times> 'c) result) \<Rightarrow> vehicle_state \<Rightarrow> i64 \<Rightarrow> bundle_eval
     \<Rightarrow> point \<Rightarrow> i64 \<Rightarrow> task_state list \<Rightarrow> 'c \<Rightarrow> (bundle_eval option \<times> 'c) result" where
  "evaluate_loop fetch v available b position payload [] c = Inr (Some b, c)"
| "evaluate_loop fetch v available b position payload (t # ts) c =
     (if ts_status t \<noteq> TS_Pending \<or> \<not> has_capability v (ts_cap t) \<or> payload < ts_payload t
         \<or> be_completion b > ts_deadline t
      then Inr (None, c)
      else
        bindR (fetch (position, ts_target t) c) (\<lambda>(found, c').
          case found of
            None \<Rightarrow> Inr (None, c')
          | Some r \<Rightarrow>
              let service_ticks = remaining_service t;
                  service_energy = to_i64 service_ticks * ts_service_energy t;
                  completion = be_completion b + (ro_ticks r + service_ticks);
                  b' = b\<lparr>be_distance := be_distance b + ro_distance r,
                         be_energy := be_energy b + (ro_energy r + service_energy),
                         be_completion := completion\<rparr>
              in if service_energy < 0 \<or> be_energy b' > available \<or> completion > ts_deadline t
                 then Inr (None, c')
                 else evaluate_loop fetch v available (b'\<lparr>be_ticks := be_ticks b' @ [completion]\<rparr>)
                        (ts_target t)
                        (if ts_cap t = Cap_Delivery then payload - ts_payload t else payload) ts c'))"

definition evaluate_with ::
    "(point \<times> point \<Rightarrow> 'c \<Rightarrow> (route option \<times> 'c) result) \<Rightarrow> vehicle_state \<Rightarrow> u64 \<Rightarrow> u64
     \<Rightarrow> task_state list \<Rightarrow> 'c \<Rightarrow> (bundle_eval option \<times> 'c) result" where
  "evaluate_with fetch v tick step_ms tasks c =
     (if \<not> vs_active v \<or> step_ms = 0 then Inr (None, c)
      else
        let available = vs_energy v - reserve_energy v
        in if available < 0 then Inr (None, c)
           else evaluate_loop fetch v available
                  \<lparr>be_distance = 0, be_energy = 0, be_completion = tick, be_ticks = []\<rparr>
                  (vs_pos v) (vs_payload v) tasks c)"

text \<open>\<open>BundleEvaluator::Impl::evaluate\<close>.\<close>

definition evaluate ::
    "world \<Rightarrow> vehicle_state \<Rightarrow> u64 \<Rightarrow> u64 \<Rightarrow> task_state list \<Rightarrow> route_cache
     \<Rightarrow> (bundle_eval option \<times> route_cache) result" where
  "evaluate w v tick step_ms = evaluate_with (route_to w v step_ms) v tick step_ms"

definition insert_task :: "nat \<Rightarrow> task_state \<Rightarrow> task_state list \<Rightarrow> task_state list" where
  "insert_task index candidate tasks = take index tasks @ candidate # drop index tasks"

definition delay_ticks :: "nat \<Rightarrow> bundle_eval \<Rightarrow> bundle_eval \<Rightarrow> nat \<Rightarrow> u64" where
  "delay_ticks n current evaluated index =
     foldl (\<lambda>delay task_index.
        let inserted_index = (if task_index < index then task_index else task_index + 1);
            after = be_ticks evaluated ! inserted_index; before = be_ticks current ! task_index
        in if after > before then delay + (after - before) else delay) 0 [0..<n]"

definition insertion_of ::
    "task_state list \<Rightarrow> task_state \<Rightarrow> bundle_eval \<Rightarrow> bundle_eval \<Rightarrow> nat \<Rightarrow> bundle_insertion" where
  "insertion_of tasks candidate current evaluated index =
     (let delay = delay_ticks (length tasks) current evaluated index;
          distance = be_distance evaluated - be_distance current;
          energy = be_energy evaluated - be_energy current;
          completion = be_ticks evaluated ! index;
          slack = ts_deadline candidate - completion;
          score = uint (ts_priority candidate) * 1000000000000 + to_i64 slack * 1000000
                  - to_i64 delay * 1000000 - distance - energy
      in \<lparr>bi_index = index, bi_score = score, bi_distance = distance, bi_energy = energy,
          bi_completion = completion\<rparr>)"

definition better_insertion :: "bundle_insertion \<Rightarrow> bundle_insertion \<Rightarrow> bool" where
  "better_insertion a b \<longleftrightarrow> bi_score a > bi_score b
     \<or> (bi_score a = bi_score b
        \<and> (bi_distance a, bi_energy a, bi_completion a, bi_index a)
          < (bi_distance b, bi_energy b, bi_completion b, bi_index b))"

text \<open>The body of \<open>best_insertion\<close>'s loop over the positions.\<close>

definition try_insertion ::
    "world \<Rightarrow> vehicle_state \<Rightarrow> u64 \<Rightarrow> u64 \<Rightarrow> task_state list \<Rightarrow> task_state \<Rightarrow> bundle_eval
     \<Rightarrow> bundle_insertion option \<times> route_cache \<Rightarrow> nat \<Rightarrow> (bundle_insertion option \<times> route_cache) result" where
  "try_insertion w v tick step_ms tasks candidate current = (\<lambda>(best, cache) index.
     bindR (evaluate w v tick step_ms (insert_task index candidate tasks) cache) (\<lambda>(evaluated, cache').
       case evaluated of
         None \<Rightarrow> Inr (best, cache')
       | Some e \<Rightarrow> Inr (keep_best better_insertion best (insertion_of tasks candidate current e index), cache')))"

definition best_insertion ::
    "world \<Rightarrow> vehicle_state \<Rightarrow> u64 \<Rightarrow> u64 \<Rightarrow> task_state list \<Rightarrow> task_state \<Rightarrow> nat \<Rightarrow> route_cache
     \<Rightarrow> (bundle_insertion option \<times> route_cache) result" where
  "best_insertion w v tick step_ms tasks candidate minimum_index cache =
     (if minimum_index > length tasks \<or> (\<exists>t \<in> set tasks. ts_id t = ts_id candidate) then Inr (None, cache)
      else
        bindR (evaluate w v tick step_ms tasks cache) (\<lambda>(current, cache').
          case current of
            None \<Rightarrow> Inr (None, cache')
          | Some c \<Rightarrow> foldR (try_insertion w v tick step_ms tasks candidate c) (None, cache')
                        [minimum_index..<Suc (length tasks)]))"

text \<open>The free functions: an evaluator made for one call.\<close>

definition evaluate_bundle ::
    "world \<Rightarrow> vehicle_state \<Rightarrow> task_state list \<Rightarrow> u64 \<Rightarrow> u64 \<Rightarrow> bundle_eval option result" where
  "evaluate_bundle w v tasks tick step_ms =
     bindR (evaluate w v tick step_ms tasks Map.empty) (\<lambda>(e, cache). Inr e)"

definition best_insertion_once ::
    "world \<Rightarrow> vehicle_state \<Rightarrow> task_state list \<Rightarrow> task_state \<Rightarrow> u64 \<Rightarrow> u64 \<Rightarrow> nat \<Rightarrow> bundle_insertion option result" where
  "best_insertion_once w v tasks candidate tick step_ms minimum_index =
     bindR (best_insertion w v tick step_ms tasks candidate minimum_index Map.empty) (\<lambda>(i, cache). Inr i)"

end
