(* ===== verification/Reservations.thy ===== *)
theory Reservations
  imports Proto
begin

text \<open>
  \<open>planning::ReservationTable\<close> (\<^verbatim>\<open>planning/src/planner.cpp\<close>): inclusive tick windows on a shared
  resource. The table keeps the committed windows and every proposal it has ever seen, both sorted,
  and a conflict counter. The interface \<open>ledger\<close> states what the simulator relies on: committed
  windows of one resource never overlap, so a resource has at most one holder at any tick.
\<close>

subsection \<open>Model\<close>

record reservation =
  rv_resource :: string
  rv_agent :: string
  rv_start :: u64
  rv_end :: u64
  rv_version :: u64
  rv_route :: u64
  rv_map :: u64

datatype reservation_result = Res_committed | Res_rejected | Res_stale | Res_unchanged

record table =
  tb_committed :: "reservation list"
  tb_seen :: "reservation list"
  tb_conflicts :: u64

definition empty_table :: table where
  "empty_table = \<lparr>tb_committed = [], tb_seen = [], tb_conflicts = 0\<rparr>"

definition same_reservation :: "reservation \<Rightarrow> reservation \<Rightarrow> bool" where
  "same_reservation l r \<longleftrightarrow>
     rv_resource l = rv_resource r \<and> rv_agent l = rv_agent r \<and> rv_start l = rv_start r
     \<and> rv_end l = rv_end r \<and> rv_version l = rv_version r \<and> rv_route l = rv_route r
     \<and> rv_map l = rv_map r"

definition overlaps :: "reservation \<Rightarrow> reservation \<Rightarrow> bool" where
  "overlaps l r \<longleftrightarrow>
     rv_resource l = rv_resource r \<and> rv_start l \<le> rv_end r \<and> rv_start r \<le> rv_end l"

definition higher_priority :: "reservation \<Rightarrow> reservation \<Rightarrow> bool" where
  "higher_priority l r =
     (if rv_start l \<noteq> rv_start r then rv_start l < rv_start r
      else if rv_agent l \<noteq> rv_agent r then rv_agent l < rv_agent r
      else rv_version l > rv_version r)"

text \<open>The tuple \<open>reservation_order\<close> compares.\<close>

definition reservation_key ::
    "reservation \<Rightarrow> string \<times> u64 \<times> u64 \<times> string \<times> u64 \<times> u64 \<times> u64" where
  "reservation_key r =
     (rv_resource r, rv_start r, rv_end r, rv_agent r, rv_version r, rv_route r, rv_map r)"

definition valid_proposal :: "reservation \<Rightarrow> bool" where
  "valid_proposal p \<longleftrightarrow>
     \<not> (rv_resource p = [] \<or> rv_agent p = [] \<or> rv_version p = 0 \<or> rv_route p = 0
        \<or> rv_map p = 0 \<or> rv_start p > rv_end p)"

definition erase_at :: "nat \<Rightarrow> 'a list \<Rightarrow> 'a list" where
  "erase_at i xs = take i xs @ drop (Suc i) xs"

definition conflict_indices :: "reservation list \<Rightarrow> reservation \<Rightarrow> nat list" where
  "conflict_indices cs p = filter (\<lambda>i. overlaps (cs ! i) p) [0..<length cs]"

text \<open>The loop over \<open>conflicts.rbegin()\<close> erases the largest index first, as \<open>foldr\<close> does.\<close>

definition reserve :: "reservation \<Rightarrow> table \<Rightarrow> (reservation_result \<times> table) result" where
  "reserve p t =
     (if \<not> valid_proposal p then Inl (Invalid_argument ''invalid reservation'')
      else if \<exists>c \<in> set (tb_seen t). same_reservation c p then Inr (Res_unchanged, t)
      else if \<exists>c \<in> set (tb_seen t). rv_agent c = rv_agent p \<and> rv_version c \<ge> rv_version p
      then Inr (Res_stale, t)
      else
        let t1 = t\<lparr>tb_seen := sort_key reservation_key (tb_seen t @ [p])\<rparr>;
            cs = tb_committed t;
            conflicts = conflict_indices cs p
        in if conflicts = []
           then Inr (Res_committed,
                  t1\<lparr>tb_committed := sort_key reservation_key (cs @ [p])\<rparr>)
           else if \<exists>i \<in> set conflicts. \<not> higher_priority p (cs ! i)
           then Inr (Res_rejected, t1\<lparr>tb_conflicts := tb_conflicts t + 1\<rparr>)
           else Inr (Res_committed,
                  t1\<lparr>tb_conflicts := tb_conflicts t + of_nat (length conflicts),
                     tb_committed :=
                       sort_key reservation_key (foldr erase_at conflicts cs @ [p])\<rparr>))"

text \<open>\<open>std::erase_if(committed_, P)\<close>, and the four releases of the table.\<close>

definition release_where :: "(reservation \<Rightarrow> bool) \<Rightarrow> table \<Rightarrow> table" where
  "release_where P t = t\<lparr>tb_committed := filter (\<lambda>c. \<not> P c) (tb_committed t)\<rparr>"

definition release_before :: "u64 \<Rightarrow> table \<Rightarrow> table" where
  "release_before tick = release_where (\<lambda>c. rv_end c < tick)"

definition release_agent :: "string \<Rightarrow> table \<Rightarrow> table" where
  "release_agent agent = release_where (\<lambda>c. rv_agent c = agent)"

definition release_route :: "string \<Rightarrow> u64 \<Rightarrow> table \<Rightarrow> table" where
  "release_route agent route = release_where (\<lambda>c. rv_agent c = agent \<and> rv_route c = route)"

definition release_map :: "u64 \<Rightarrow> table \<Rightarrow> table" where
  "release_map version = release_where (\<lambda>c. rv_map c \<noteq> version)"

subsection \<open>Overlap and erasure\<close>

definition covers :: "reservation \<Rightarrow> string \<Rightarrow> u64 \<Rightarrow> bool" where
  "covers c res tick \<longleftrightarrow> rv_resource c = res \<and> rv_start c \<le> tick \<and> tick \<le> rv_end c"

lemma overlaps_sym: "overlaps a b \<longleftrightarrow> overlaps b a"
  by (auto simp: overlaps_def)

lemma overlaps_refl: "rv_start a \<le> rv_end a \<Longrightarrow> overlaps a a"
  by (simp add: overlaps_def)

lemma overlaps_iff_covers:
  assumes "rv_start a \<le> rv_end a" and "rv_start b \<le> rv_end b"
  shows "overlaps a b \<longleftrightarrow> (\<exists>res tick. covers a res tick \<and> covers b res tick)"
proof
  assume "overlaps a b"
  with assms have "covers a (rv_resource a) (max (rv_start a) (rv_start b))"
    "covers b (rv_resource a) (max (rv_start a) (rv_start b))"
    by (auto simp: overlaps_def covers_def)
  then show "\<exists>res tick. covers a res tick \<and> covers b res tick" by blast
qed (auto simp: overlaps_def covers_def)

lemma same_reservation_eq: "same_reservation a b \<longleftrightarrow> a = b"
  by (auto simp: same_reservation_def)

lemma higher_priority_asym: "higher_priority a b \<Longrightarrow> \<not> higher_priority b a"
  by (auto simp: higher_priority_def split: if_splits)

lemma higher_priority_total:
  "rv_agent a \<noteq> rv_agent b \<Longrightarrow> higher_priority a b \<or> higher_priority b a"
  by (auto simp: higher_priority_def)

lemma conflict_indices_Cons:
  "conflict_indices (c # cs) p =
     (if overlaps c p then [0] else []) @ map Suc (conflict_indices cs p)"
  by (simp add: conflict_indices_def upt_conv_Cons map_Suc_upt [symmetric] filter_map comp_def
      del: upt_Suc)

lemma erase_at_0 [simp]: "erase_at 0 (c # cs) = cs"
  by (simp add: erase_at_def)

lemma foldr_erase_at_Suc:
  "foldr erase_at (map Suc is) (c # cs) = c # foldr erase_at is cs"
  by (induction "is") (auto simp: erase_at_def)

text \<open>Erasing the conflicting positions from the back leaves the windows that do not overlap.\<close>

lemma erase_conflicts:
  "foldr erase_at (conflict_indices cs p) cs = filter (\<lambda>c. \<not> overlaps c p) cs"
proof (induction cs)
  case Nil
  then show ?case by (simp add: conflict_indices_def)
next
  case (Cons c cs)
  then show ?case
    by (auto simp: conflict_indices_Cons foldr_erase_at_Suc)
qed

lemma conflicts_Nil: "conflict_indices cs p = [] \<longleftrightarrow> (\<forall>c \<in> set cs. \<not> overlaps c p)"
  by (auto simp: conflict_indices_def filter_empty_conv all_set_conv_all_nth)

lemma conflicts_beaten:
  "(\<exists>i \<in> set (conflict_indices cs p). \<not> higher_priority p (cs ! i)) \<longleftrightarrow>
   (\<exists>c \<in> set cs. overlaps c p \<and> \<not> higher_priority p c)"
  by (fastforce simp: conflict_indices_def in_set_conv_nth)

text \<open>The committing branches in one: what overlaps the proposal goes, the proposal comes in.\<close>

definition insert_window :: "reservation \<Rightarrow> table \<Rightarrow> table" where
  "insert_window p t =
     t\<lparr>tb_seen := sort_key reservation_key (tb_seen t @ [p]),
       tb_conflicts := tb_conflicts t + of_nat (length (conflict_indices (tb_committed t) p)),
       tb_committed :=
         sort_key reservation_key (filter (\<lambda>c. \<not> overlaps c p) (tb_committed t) @ [p])\<rparr>"

definition fresh_proposal :: "reservation \<Rightarrow> table \<Rightarrow> bool" where
  "fresh_proposal p t \<longleftrightarrow>
     valid_proposal p \<and> (\<forall>c \<in> set (tb_seen t). rv_agent c = rv_agent p \<longrightarrow> rv_version c < rv_version p)"

lemma reserve_cases:
  assumes "reserve p t = Inr (r, t')"
  shows "(r = Res_unchanged \<and> t' = t \<and> p \<in> set (tb_seen t))
    \<or> (r = Res_stale \<and> t' = t \<and> \<not> fresh_proposal p t)
    \<or> (r = Res_rejected \<and> fresh_proposal p t
        \<and> (\<exists>c \<in> set (tb_committed t). overlaps c p \<and> \<not> higher_priority p c)
        \<and> t' = t\<lparr>tb_seen := sort_key reservation_key (tb_seen t @ [p]),
                 tb_conflicts := tb_conflicts t + 1\<rparr>)
    \<or> (r = Res_committed \<and> fresh_proposal p t \<and> t' = insert_window p t
        \<and> (\<forall>c \<in> set (tb_committed t). overlaps c p \<longrightarrow> higher_priority p c))"
proof -
  have valid: "valid_proposal p" using assms by (auto simp: reserve_def split: if_splits)
  show ?thesis
  proof (cases "p \<in> set (tb_seen t)
      \<or> (\<exists>c \<in> set (tb_seen t). rv_agent c = rv_agent p \<and> rv_version c \<ge> rv_version p)")
    case True
    then show ?thesis using assms valid
      by (auto simp: reserve_def same_reservation_eq fresh_proposal_def not_less split: if_splits)
  next
    case False
    then have fresh: "fresh_proposal p t" using valid by (auto simp: fresh_proposal_def not_le)
    have flt: "filter (\<lambda>c. \<not> overlaps c p) (tb_committed t) = tb_committed t"
      if "conflict_indices (tb_committed t) p = []"
      using that by (simp add: conflicts_Nil)
    show ?thesis using assms False valid fresh
      by (auto simp: reserve_def same_reservation_eq Let_def conflicts_beaten erase_conflicts
          insert_window_def conflicts_Nil [THEN iffD1] flt split: if_splits)
  qed
qed

subsection \<open>The table invariant\<close>

definition exclusive :: "reservation list \<Rightarrow> bool" where
  "exclusive cs \<longleftrightarrow> distinct cs \<and> (\<forall>a \<in> set cs. \<forall>b \<in> set cs. overlaps a b \<longrightarrow> a = b)"

text \<open>Every proposal on record is well formed, and an agent's version numbers name its proposals.\<close>

definition table_ok :: "table \<Rightarrow> bool" where
  "table_ok t \<longleftrightarrow>
     exclusive (tb_committed t) \<and> set (tb_committed t) \<subseteq> set (tb_seen t)
     \<and> (\<forall>c \<in> set (tb_seen t). valid_proposal c)
     \<and> inj_on (\<lambda>c. (rv_agent c, rv_version c)) (set (tb_seen t))
     \<and> sorted (map reservation_key (tb_committed t)) \<and> sorted (map reservation_key (tb_seen t))"

lemma valid_window: "valid_proposal c \<Longrightarrow> rv_start c \<le> rv_end c"
  by (auto simp: valid_proposal_def)

lemma empty_table_ok [inv_intros]: "table_ok empty_table"
  by (simp add: table_ok_def empty_table_def exclusive_def)

lemma exclusive_filter: "exclusive cs \<Longrightarrow> exclusive (filter P cs)"
  by (auto simp: exclusive_def)

lemma exclusive_insert:
  assumes "exclusive cs" and "p \<notin> set cs"
  shows "exclusive (sort_key reservation_key (filter (\<lambda>c. \<not> overlaps c p) cs @ [p]))"
proof -
  have "a = b" if "a \<in> insert p {c \<in> set cs. \<not> overlaps c p}"
    "b \<in> insert p {c \<in> set cs. \<not> overlaps c p}" "overlaps a b" for a b
    using that assms(1) overlaps_sym [of a b] unfolding exclusive_def by blast
  with assms show ?thesis by (simp add: exclusive_def)
qed

lemma fresh_not_seen: "fresh_proposal p t \<Longrightarrow> p \<notin> set (tb_seen t)"
  by (auto simp: fresh_proposal_def)

lemma fresh_seen_ok:
  assumes "table_ok t" and "fresh_proposal p t"
  shows "\<forall>a \<in> insert p (set (tb_seen t)). valid_proposal a"
    and "inj_on (\<lambda>c. (rv_agent c, rv_version c)) (insert p (set (tb_seen t)))"
  using assms by (auto simp: table_ok_def fresh_proposal_def dest: order.strict_implies_not_eq)

lemma insert_window_ok:
  assumes "table_ok t" and "fresh_proposal p t"
  shows "table_ok (insert_window p t)"
proof -
  have "exclusive (tb_committed (insert_window p t))"
    using assms fresh_not_seen [OF assms(2)]
    by (auto simp: insert_window_def table_ok_def intro!: exclusive_insert)
  then show ?thesis using assms fresh_seen_ok [OF assms]
    by (auto simp: table_ok_def insert_window_def)
qed

lemma reserve_ok [inv_intros]:
  assumes "table_ok t" and "reserve p t = Inr (r, t')"
  shows "table_ok t'"
  using reserve_cases [OF assms(2)]
proof (elim disjE conjE)
  assume "fresh_proposal p t"
    and t': "t' = t\<lparr>tb_seen := sort_key reservation_key (tb_seen t @ [p]),
                    tb_conflicts := tb_conflicts t + 1\<rparr>"
  with fresh_seen_ok [OF assms(1)] assms(1) show ?thesis by (auto simp: table_ok_def)
qed (use assms(1) insert_window_ok in auto)

lemma release_where_ok [inv_intros]: "table_ok t \<Longrightarrow> table_ok (release_where P t)"
  by (auto simp: table_ok_def release_where_def exclusive_filter sorted_filter)

lemmas release_defs = release_before_def release_agent_def release_route_def release_map_def

lemma releases_ok [inv_intros]:
  assumes "table_ok t"
  shows "table_ok (release_before tick t)" "table_ok (release_agent agent t)"
    "table_ok (release_route agent route t)" "table_ok (release_map version t)"
  using assms by (simp_all add: release_defs release_where_ok)

subsection \<open>The interface the simulator uses\<close>

text \<open>
  A ledger hands out exclusive windows. \<open>admit\<close> is its proposal operation, \<open>purge\<close> removes the
  windows a predicate selects. Everything else follows from the laws.
\<close>

locale ledger =
  fixes windows :: "'t \<Rightarrow> reservation list"
    and ok :: "'t \<Rightarrow> bool"
    and admit :: "reservation \<Rightarrow> 't \<Rightarrow> (reservation_result \<times> 't) result"
    and purge :: "(reservation \<Rightarrow> bool) \<Rightarrow> 't \<Rightarrow> 't"
  assumes ok_exclusive: "ok t \<Longrightarrow> exclusive (windows t)"
    and ok_nonempty: "ok t \<Longrightarrow> c \<in> set (windows t) \<Longrightarrow> rv_start c \<le> rv_end c"
    and ok_admit: "ok t \<Longrightarrow> admit p t = Inr (r, t') \<Longrightarrow> ok t'"
    and ok_purge: "ok t \<Longrightarrow> ok (purge P t)"
    and windows_purge: "windows (purge P t) = filter (\<lambda>c. \<not> P c) (windows t)"
begin

lemma one_holder:
  assumes "ok t" and "a \<in> set (windows t)" and "b \<in> set (windows t)"
    and "covers a res tick" and "covers b res tick"
  shows "a = b"
proof -
  have "overlaps a b"
    using assms ok_nonempty by (auto simp: overlaps_iff_covers)
  then show ?thesis using ok_exclusive [OF assms(1)] assms(2,3) by (auto simp: exclusive_def)
qed

lemma indexed_disjoint:
  assumes "ok t" and "i < j" and "j < length (windows t)"
  shows "\<not> overlaps (windows t ! i) (windows t ! j)"
proof
  assume "overlaps (windows t ! i) (windows t ! j)"
  with ok_exclusive [OF assms(1)] assms(2,3) have "windows t ! i = windows t ! j"
    by (auto simp: exclusive_def)
  with ok_exclusive [OF assms(1)] assms(2,3) show False
    by (auto simp: exclusive_def nth_eq_iff_index_eq)
qed

lemma admit_all:
  assumes "foldR (\<lambda>t p. bindR (admit p t) (\<lambda>(r, t'). Inr t')) t ps = Inr t'" and "ok t"
  shows "ok t'"
  using assms by (rule foldR_invariant) (auto intro: ok_admit)

end

interpretation tb: ledger tb_committed table_ok reserve release_where
proof unfold_locales
  show "table_ok t \<Longrightarrow> exclusive (tb_committed t)" for t by (simp add: table_ok_def)
  show "table_ok t \<Longrightarrow> c \<in> set (tb_committed t) \<Longrightarrow> rv_start c \<le> rv_end c" for t c
    by (auto simp: table_ok_def dest: valid_window)
  show "table_ok t \<Longrightarrow> reserve p t = Inr (r, t') \<Longrightarrow> table_ok t'" for t p r t'
    by (rule reserve_ok)
  show "table_ok t \<Longrightarrow> table_ok (release_where P t)" for t P by (rule release_where_ok)
  show "tb_committed (release_where P t) = filter (\<lambda>c. \<not> P c) (tb_committed t)" for P t
    by (simp add: release_where_def)
qed

subsection \<open>Runs of the table\<close>

datatype table_op =
    Op_reserve reservation
  | Op_release_before u64
  | Op_release_agent string
  | Op_release_route string u64
  | Op_release_map u64

fun table_step :: "table \<Rightarrow> table_op \<Rightarrow> table result" where
  "table_step t (Op_reserve p) = bindR (reserve p t) (\<lambda>(r, t'). Inr t')"
| "table_step t (Op_release_before tick) = Inr (release_before tick t)"
| "table_step t (Op_release_agent agent) = Inr (release_agent agent t)"
| "table_step t (Op_release_route agent route) = Inr (release_route agent route t)"
| "table_step t (Op_release_map version) = Inr (release_map version t)"

definition table_run :: "table_op list \<Rightarrow> table result" where
  "table_run = foldR table_step empty_table"

lemma table_step_ok [inv_intros]: "table_ok t \<Longrightarrow> table_step t x = Inr t' \<Longrightarrow> table_ok t'"
  by (cases x) (auto intro: reserve_ok releases_ok)

lemma table_run_ok: "table_run ops = Inr t \<Longrightarrow> table_ok t"
  unfolding table_run_def by (erule foldR_invariant) (auto intro: inv_intros)

lemma committed_insert_window:
  "set (tb_committed (insert_window p t)) = insert p {c \<in> set (tb_committed t). \<not> overlaps c p}"
  by (auto simp: insert_window_def)

lemma reserve_fresh:
  assumes "fresh_proposal p t"
  shows "reserve p t =
    (if \<exists>c \<in> set (tb_committed t). overlaps c p \<and> \<not> higher_priority p c
     then Inr (Res_rejected, t\<lparr>tb_seen := sort_key reservation_key (tb_seen t @ [p]),
                               tb_conflicts := tb_conflicts t + 1\<rparr>)
     else Inr (Res_committed, insert_window p t))"
proof -
  have "\<exists>x. reserve p t = Inr x" using assms
    by (auto simp: reserve_def fresh_proposal_def Let_def)
  then obtain r t' where rt: "reserve p t = Inr (r, t')" by auto
  from reserve_cases [OF rt] fresh_not_seen [OF assms] assms rt show ?thesis by auto
qed

subsection \<open>Properties\<close>

text \<open>C29: after any sequence of proposals and releases, at most one committed window covers a given
  resource at a given tick, whatever the agents propose.\<close>

theorem table_single_holder:
  assumes "table_run ops = Inr t"
    and "a \<in> set (tb_committed t)" and "b \<in> set (tb_committed t)"
    and "covers a res tick" and "covers b res tick"
  shows "a = b"
  by (rule tb.one_holder [OF table_run_ok [OF assms(1)] assms(2-5)])

definition demo_window :: "string \<Rightarrow> u64 \<Rightarrow> u64 \<Rightarrow> reservation" where
  "demo_window agent start stop =
     \<lparr>rv_resource = ''gate'', rv_agent = agent, rv_start = start, rv_end = stop, rv_version = 1,
      rv_route = 1, rv_map = 1\<rparr>"

lemma demo_windows_run:
  "table_run [Op_reserve (demo_window ''a'' 5 7), Op_reserve (demo_window ''b'' 3 5)]
   = Inr \<lparr>tb_committed = [demo_window ''b'' 3 5],
          tb_seen = [demo_window ''b'' 3 5, demo_window ''a'' 5 7], tb_conflicts = 1\<rparr>"
  by (simp add: table_run_def demo_window_def empty_table_def reserve_def valid_proposal_def
      same_reservation_def conflict_indices_def overlaps_def higher_priority_def
      reservation_key_def erase_at_def)

theorem table_single_holder_witness:
  "\<exists>t. table_run [Op_reserve (demo_window ''a'' 5 7), Op_reserve (demo_window ''b'' 3 5)] = Inr t
     \<and> covers (hd (tb_committed t)) ''gate'' 4 \<and> hd (tb_committed t) = last (tb_committed t)"
proof -
  have "covers (demo_window ''b'' 3 5) ''gate'' 4" by (simp add: covers_def demo_window_def)
  with table_single_holder [OF demo_windows_run, of "demo_window ''b'' 3 5"
      "demo_window ''b'' 3 5" "''gate''" 4]
  show ?thesis by (simp add: demo_windows_run)
qed

text \<open>What one proposal does to the committed windows. A duplicate or out-of-date proposal changes
  nothing; a proposal that loses to any overlapping window leaves the windows alone and counts one
  conflict; a proposal that beats every overlapping window replaces exactly those.\<close>

theorem reserve_effect:
  assumes "reserve p t = Inr (r, t')"
  shows "case r of
      Res_unchanged \<Rightarrow> t' = t \<and> p \<in> set (tb_seen t)
    | Res_stale \<Rightarrow> t' = t \<and>
        (\<exists>c \<in> set (tb_seen t). rv_agent c = rv_agent p \<and> rv_version p \<le> rv_version c)
    | Res_rejected \<Rightarrow> tb_committed t' = tb_committed t \<and> tb_conflicts t' = tb_conflicts t + 1
        \<and> (\<exists>c \<in> set (tb_committed t). overlaps c p \<and> \<not> higher_priority p c)
    | Res_committed \<Rightarrow>
        set (tb_committed t') = insert p {c \<in> set (tb_committed t). \<not> overlaps c p}
        \<and> (\<forall>c \<in> set (tb_committed t). overlaps c p \<longrightarrow> higher_priority p c)"
proof -
  have "valid_proposal p" using assms by (auto simp: reserve_def split: if_splits)
  with reserve_cases [OF assms] show ?thesis
    by (auto simp: committed_insert_window fresh_proposal_def not_less)
qed

theorem reserve_effect_witness:
  "\<exists>t'. reserve (demo_window ''b'' 3 5)
           \<lparr>tb_committed = [demo_window ''a'' 5 7], tb_seen = [demo_window ''a'' 5 7], tb_conflicts = 0\<rparr>
         = Inr (Res_committed, t')
     \<and> set (tb_committed t') = {demo_window ''b'' 3 5}"
proof -
  let ?t = "\<lparr>tb_committed = [demo_window ''a'' 5 7], tb_seen = [demo_window ''a'' 5 7], tb_conflicts = 0\<rparr>"
  obtain t' where t': "reserve (demo_window ''b'' 3 5) ?t = Inr (Res_committed, t')"
    by (simp add: demo_window_def reserve_def valid_proposal_def same_reservation_def
        conflict_indices_def overlaps_def higher_priority_def)
  have "overlaps (demo_window ''a'' 5 7) (demo_window ''b'' 3 5)"
    by (simp add: demo_window_def overlaps_def)
  then have "{c \<in> set (tb_committed ?t). \<not> overlaps c (demo_window ''b'' 3 5)} = {}" by auto
  with t' reserve_effect [OF t'] show ?thesis
    by (simp only: reservation_result.case) blast
qed

text \<open>Contention is settled by priority, not by arrival. Two overlapping proposals of different agents,
  neither in conflict with what is already committed, leave the same committed windows in either
  order: those before, plus the proposal of higher priority.\<close>

theorem reserve_order_irrelevant:
  assumes "fresh_proposal p t" and "fresh_proposal q t" and "rv_agent p \<noteq> rv_agent q"
    and "overlaps p q" and "higher_priority p q"
    and "\<forall>c \<in> set (tb_committed t). \<not> overlaps c p \<and> \<not> overlaps c q"
  shows "\<exists>t1 t2. bindR (reserve p t) (\<lambda>(r, u). reserve q u) = Inr (Res_rejected, t1)
    \<and> bindR (reserve q t) (\<lambda>(r, u). reserve p u) = Inr (Res_committed, t2)
    \<and> set (tb_committed t1) = insert p (set (tb_committed t))
    \<and> set (tb_committed t2) = insert p (set (tb_committed t))"
proof -
  have fq: "fresh_proposal q (insert_window p t)" and fp: "fresh_proposal p (insert_window q t)"
    using assms(1-3) by (auto simp: fresh_proposal_def insert_window_def)
  have nq: "\<not> higher_priority q p" using assms(5) by (rule higher_priority_asym)
  have qp: "overlaps q p" using assms(4) by (simp add: overlaps_sym)
  have "reserve p t = Inr (Res_committed, insert_window p t)"
    and "reserve q t = Inr (Res_committed, insert_window q t)"
    using assms by (auto simp: reserve_fresh)
  moreover have "\<exists>c \<in> set (tb_committed (insert_window p t)). overlaps c q \<and> \<not> higher_priority q c"
    using assms(4) nq by (auto simp: committed_insert_window)
  moreover have "\<forall>c \<in> set (tb_committed (insert_window q t)). overlaps c p \<longrightarrow> higher_priority p c"
    using assms(5,6) by (auto simp: committed_insert_window)
  moreover have "set (tb_committed (insert_window p (insert_window q t))) = insert p (set (tb_committed t))"
    and "set (tb_committed (insert_window p t)) = insert p (set (tb_committed t))"
    using assms(6) qp by (auto simp: committed_insert_window)
  ultimately show ?thesis by (simp add: reserve_fresh [OF fq] reserve_fresh [OF fp])
qed

theorem reserve_order_irrelevant_witness:
  "\<exists>t1 t2. bindR (reserve (demo_window ''b'' 3 5) empty_table) (\<lambda>(r, u). reserve (demo_window ''a'' 5 7) u)
       = Inr (Res_rejected, t1)
    \<and> bindR (reserve (demo_window ''a'' 5 7) empty_table) (\<lambda>(r, u). reserve (demo_window ''b'' 3 5) u)
       = Inr (Res_committed, t2)
    \<and> set (tb_committed t1) = {demo_window ''b'' 3 5} \<and> set (tb_committed t2) = {demo_window ''b'' 3 5}"
  using reserve_order_irrelevant [of "demo_window ''b'' 3 5" empty_table "demo_window ''a'' 5 7"]
  by (simp add: demo_window_def fresh_proposal_def valid_proposal_def empty_table_def overlaps_def
      higher_priority_def)

end
