(* ===== verification/Sim_State.thy ===== *)
theory Sim_State
  imports Scenario Network Planner Reservations
begin

text \<open>
  The state of \<open>core::Simulator\<close> (\<^verbatim>\<open>core/include/sentinel/core/simulator.hpp\<close>), its construction from a
  scenario, its lookups, the counters of its four run-time checks, and the views of vehicles and tasks that it hands to
  the planner and to the agents.

  \<open>vehicles_\<close> and \<open>tasks_\<close> are searched by identifier with \<open>std::lower_bound\<close>: \<open>find_by\<close> reads, \<open>update_by\<close> writes
  through the reference that the lookup returned.
\<close>

subsection \<open>State\<close>

record vehicle =
  vh_spec :: vehicle_spec
  vh_x :: i64
  vh_y :: i64
  vh_vx :: i64
  vh_vy :: i64
  vh_energy :: i64
  vh_capacity :: i64
  vh_speed :: i64
  vh_payload :: i64
  vh_active :: bool
  vh_failure :: "u64 option"
  vh_announced :: bool
  vh_mode :: behavior_mode
  vh_route :: u64

record monitor =
  mo_detector :: string
  mo_failed :: string
  mo_failure :: u64
  mo_missed :: u64
  mo_detection :: "u64 option"

record task =
  tk_spec :: task_spec
  tk_released :: bool
  tk_status :: task_status
  tk_agent :: string
  tk_epoch :: u64
  tk_version :: u64
  tk_progress :: u64
  tk_completion :: u64
  tk_score :: i64
  tk_position :: u32

record sim =
  si_scenario :: scenario
  si_vehicles :: "vehicle list"
  si_tasks :: "task list"
  si_rng :: rng_streams
  si_net :: net
  si_table :: table
  si_profile :: string
  si_delivered :: "net_message list"
  si_outcomes :: "net_outcome list"
  si_views :: "alloc_state list"
  si_convergence :: "convergence_sample list"
  si_monitors :: "monitor list"
  si_detections :: "failure_detection list"
  si_reassignments :: "reassignment list"
  si_samples :: "replan_sample list"
  si_epoch :: u64
  si_cv_start :: u64
  si_cv_candidate :: u64
  si_cv_stable :: u32
  si_cv_signature :: string
  si_cv_open :: bool
  si_tick :: u64
  si_next_event :: nat
  si_hash :: string
  si_tick_hashes :: "string list"
  si_wait :: u64
  si_replan :: u64
  si_recharge :: u64
  si_return :: u64
  si_distance :: u64
  si_energy :: u64
  si_rejected :: u64
  si_bad_energy :: u64
  si_bad_overlap :: u64
  si_bad_completed :: u64
  si_bad_capable :: u64

text \<open>The result of a step.\<close>

record step_outcome =
  so_actions :: action_batch
  so_applied :: "applied_event list"
  so_network :: "net_outcome list"
  so_observations :: observation_batch

abbreviation si_world :: "sim \<Rightarrow> world" where
  "si_world s \<equiv> sc_world (si_scenario s)"

definition vh_id :: "vehicle \<Rightarrow> string" where
  "vh_id v = vp_id (vh_spec v)"

definition tk_id :: "task \<Rightarrow> string" where
  "tk_id t = tp_id (tk_spec t)"

subsection \<open>Lookups\<close>

definition lookup_vehicle :: "sim \<Rightarrow> string \<Rightarrow> vehicle result" where
  "lookup_vehicle s k =
     (case find_by vh_id (si_vehicles s) k of None \<Rightarrow> Inl (invalid ''unknown vehicle'') | Some v \<Rightarrow> Inr v)"

definition lookup_task :: "sim \<Rightarrow> string \<Rightarrow> task result" where
  "lookup_task s k =
     (case find_by tk_id (si_tasks s) k of None \<Rightarrow> Inl (invalid ''unknown task'') | Some t \<Rightarrow> Inr t)"

definition lookup_location :: "sim \<Rightarrow> string \<Rightarrow> location result" where
  "lookup_location s k =
     (case find_by lc_id (wd_locations (si_world s)) k of
        None \<Rightarrow> Inl (invalid ''unknown service location'') | Some l \<Rightarrow> Inr l)"

definition network_profile :: "scenario \<Rightarrow> string \<Rightarrow> net_profile" where
  "network_profile sc k =
     (case find_by np_id (sc_profiles sc) k of
        Some p \<Rightarrow> p
      | None \<Rightarrow> \<lparr>np_id = k, np_latency = 0, np_jitter = 0, np_loss = 0, np_bandwidth = 1000000000, np_reorder = 0,
                 np_window = 0\<rparr>)"

text \<open>\<open>std::binary_search\<close> on the sorted capabilities.\<close>

definition vh_capable :: "vehicle \<Rightarrow> capability \<Rightarrow> bool" where
  "vh_capable v c = (find_by capability_num (vp_caps (vh_spec v)) (capability_num c) \<noteq> None)"

definition set_vehicle :: "vehicle \<Rightarrow> sim \<Rightarrow> sim" where
  "set_vehicle v s = s\<lparr>si_vehicles := update_by vh_id (vh_id v) (\<lambda>_. v) (si_vehicles s)\<rparr>"

definition set_task :: "task \<Rightarrow> sim \<Rightarrow> sim" where
  "set_task t s = s\<lparr>si_tasks := update_by tk_id (tk_id t) (\<lambda>_. t) (si_tasks s)\<rparr>"

subsection \<open>Run-time checks\<close>

definition record_energy :: "vehicle \<Rightarrow> sim \<Rightarrow> sim" where
  "record_energy v s = s\<lparr>si_bad_energy := si_bad_energy s + (if vh_energy v < 0 then 1 else 0)\<rparr>"

text \<open>The two loops over the committed windows: every pair once.\<close>

fun overlap_pairs :: "reservation list \<Rightarrow> u64" where
  "overlap_pairs [] = 0"
| "overlap_pairs (r # rs) = of_nat (length (filter (overlaps r) rs)) + overlap_pairs rs"

definition record_overlap :: "sim \<Rightarrow> sim" where
  "record_overlap s = s\<lparr>si_bad_overlap := si_bad_overlap s + overlap_pairs (tb_committed (si_table s))\<rparr>"

definition record_commit :: "task \<Rightarrow> vehicle \<Rightarrow> sim \<Rightarrow> sim" where
  "record_commit t v s =
     s\<lparr>si_bad_completed := si_bad_completed s + (if tk_status t = TS_Completed then 1 else 0),
       si_bad_capable := si_bad_capable s
         + (if \<not> vh_capable v (tp_cap (tk_spec t)) \<or> vh_payload v < tp_payload (tk_spec t) then 1 else 0)\<rparr>"

subsection \<open>Views\<close>

definition vehicle_view :: "vehicle \<Rightarrow> vehicle_state" where
  "vehicle_view v =
     \<lparr>vs_id = vh_id v, vs_kind = vp_kind (vh_spec v), vs_pos = \<lparr>px = vh_x v, py = vh_y v\<rparr>, vs_vx = vh_vx v,
      vs_vy = vh_vy v, vs_speed = vh_speed v, vs_energy = vh_energy v, vs_payload = vh_payload v,
      vs_caps = vp_caps (vh_spec v), vs_terrain = vp_terrain (vh_spec v), vs_active = vh_active v,
      vs_initial = vp_energy (vh_spec v), vs_cost = vp_cost (vh_spec v), vs_return = vp_return (vh_spec v),
      vs_capacity = vh_capacity v\<rparr>"

definition task_view :: "task \<Rightarrow> task_state" where
  "task_view t =
     \<lparr>ts_id = tk_id t, ts_kind = tp_kind (tk_spec t), ts_target = tp_target (tk_spec t), ts_cap = tp_cap (tk_spec t),
      ts_payload = tp_payload (tk_spec t), ts_deadline = tp_deadline (tk_spec t), ts_radius = tp_radius (tk_spec t),
      ts_agent = tk_agent t, ts_status = tk_status t, ts_service = tp_service (tk_spec t),
      ts_service_energy = tp_service_energy (tk_spec t), ts_progress = tk_progress t, ts_epoch = tk_epoch t,
      ts_version = tk_version t, ts_priority = tp_priority (tk_spec t), ts_score = tk_score t,
      ts_position = tk_position t\<rparr>"

definition as_reservation :: "st_reservation \<Rightarrow> reservation" where
  "as_reservation r =
     \<lparr>rv_resource = sr_resource r, rv_agent = sr_agent r, rv_start = sr_start r, rv_end = sr_end r,
      rv_version = sr_version r, rv_route = sr_route_version r, rv_map = sr_map_version r\<rparr>"

definition copy_reservation :: "reservation \<Rightarrow> st_reservation" where
  "copy_reservation r =
     \<lparr>sr_resource = rv_resource r, sr_agent = rv_agent r, sr_start = rv_start r, sr_end = rv_end r,
      sr_version = rv_version r, sr_route_version = rv_route r, sr_map_version = rv_map r\<rparr>"

definition inside :: "point \<Rightarrow> location \<Rightarrow> bool" where
  "inside p l \<longleftrightarrow> abs (px p - px (lc_pos l)) + abs (py p - py (lc_pos l)) \<le> lc_radius l"

subsection \<open>Convergence and the end of a run\<close>

definition begin_convergence :: "sim \<Rightarrow> sim" where
  "begin_convergence s =
     (if sc_policy (si_scenario s) = AP_Scripted then s
      else s\<lparr>si_cv_start := si_tick s, si_cv_candidate := 0, si_cv_stable := 0, si_cv_signature := [],
             si_cv_open := True\<rparr>)"

definition finished :: "sim \<Rightarrow> bool" where
  "finished s \<longleftrightarrow> si_tick s \<ge> sc_max_ticks (si_scenario s)
     \<or> \<not> list_ex vh_active (si_vehicles s) \<or> list_all (\<lambda>t. tk_status t \<noteq> TS_Pending) (si_tasks s)"

subsection \<open>Construction\<close>

definition new_vehicle :: "vehicle_spec \<Rightarrow> vehicle" where
  "new_vehicle spec =
     \<lparr>vh_spec = spec, vh_x = px (vp_pos spec), vh_y = py (vp_pos spec), vh_vx = 0, vh_vy = 0,
      vh_energy = vp_energy spec, vh_capacity = vp_energy spec, vh_speed = vp_speed spec,
      vh_payload = vp_payload spec, vh_active = True, vh_failure = None, vh_announced = False, vh_mode = BM_Idle,
      vh_route = 0\<rparr>"

definition new_task :: "u64 \<Rightarrow> task_spec \<Rightarrow> task" where
  "new_task epoch spec =
     \<lparr>tk_spec = spec, tk_released = tp_released spec, tk_status = TS_Pending, tk_agent = tp_agent spec,
      tk_epoch = (if tp_agent spec = [] then 0 else epoch), tk_version = (if tp_agent spec = [] then 0 else 1),
      tk_progress = 0, tk_completion = 0, tk_score = 0, tk_position = 0\<rparr>"

text \<open>The members' initialisers.\<close>

definition blank_sim :: "scenario \<Rightarrow> net \<Rightarrow> sim" where
  "blank_sim sc n =
     \<lparr>si_scenario = sc, si_vehicles = [], si_tasks = [], si_rng = empty_streams (sc_seed sc), si_net = n,
      si_table = empty_table, si_profile = sc_profile sc, si_delivered = [], si_outcomes = [], si_views = [],
      si_convergence = [], si_monitors = [], si_detections = [], si_reassignments = [], si_samples = [],
      si_epoch = 1, si_cv_start = 0, si_cv_candidate = 0, si_cv_stable = 0, si_cv_signature = [], si_cv_open = False,
      si_tick = 0, si_next_event = 0, si_hash = [], si_tick_hashes = [], si_wait = 0, si_replan = 0,
      si_recharge = 0, si_return = 0, si_distance = 0, si_energy = 0, si_rejected = 0, si_bad_energy = 0,
      si_bad_overlap = 0, si_bad_completed = 0, si_bad_capable = 0\<rparr>"

definition add_vehicle :: "sim \<Rightarrow> vehicle \<Rightarrow> sim" where
  "add_vehicle s v = (record_energy v s)\<lparr>si_vehicles := si_vehicles s @ [v]\<rparr>"

definition populate :: "scenario \<Rightarrow> net \<Rightarrow> sim" where
  "populate sc n =
     (let s = foldl add_vehicle (blank_sim sc n) (map new_vehicle (sc_vehicles sc))
      in s\<lparr>si_tasks := map (new_task (si_epoch s)) (sc_tasks sc),
           si_views := replicate (length (si_vehicles s)) empty_alloc_state\<rparr>)"

text \<open>The constructor up to the hash of the state.\<close>

definition build_sim :: "scenario \<Rightarrow> sim result" where
  "build_sim raw =
     bindR (new_net (sc_seed raw) (sc_step_ms raw)) (\<lambda>n.
       let sc = normalize_scenario raw; s = populate sc n
       in bindR (validate_scenario sc) (\<lambda>_.
          bindR (set_profile (network_profile sc (si_profile s)) (si_net s)) (\<lambda>n'.
            Inr (if sc_policy sc \<noteq> AP_Scripted then begin_convergence (s\<lparr>si_net := n'\<rparr>) else s\<lparr>si_net := n'\<rparr>))))"

end
