(* ===== verification/Sim_Actions.thy ===== *)
theory Sim_Actions
  imports Sim_State
begin

text \<open>
  \<open>Simulator::canonicalize_actions\<close> (\<^verbatim>\<open>core/src/simulator.cpp\<close>, lines 501-733): what a batch of agent actions
  must look like before anything is applied, and the order its parts are put in. A batch that fails a check is refused
  as a whole, before the state changes.
\<close>

subsection \<open>Canonical order\<close>

definition bid_key :: "alloc_bid \<Rightarrow> string \<times> string" where
  "bid_key b = (bd_task b, bd_bidder b)"

definition sort_alloc_state :: "alloc_state \<Rightarrow> alloc_state" where
  "sort_alloc_state a =
     a\<lparr>as_bids := sort_key bid_key (as_bids a), as_winners := sort_key bid_key (as_winners a),
       as_relays := sort_key (\<lambda>r. bid_key (rl_bid r)) (as_relays a), as_owners := sort_key cm_task (as_owners a)\<rparr>"

definition detection_key :: "failure_detection \<Rightarrow> string \<times> string" where
  "detection_key d = (fd_failed d, fd_detector d)"

definition proposal_key :: "st_reservation \<Rightarrow> string \<times> u64 \<times> u64 \<times> u64" where
  "proposal_key r = (sr_resource r, sr_start r, sr_end r, sr_version r)"

definition sample_key :: "replan_sample \<Rightarrow> u64 \<times> int \<times> nat" where
  "sample_key r = (rs_start r, reason_num (rs_reason r), if rs_wait r then 1 else 0)"

definition sort_action :: "action \<Rightarrow> action" where
  "sort_action a =
     a\<lparr>aa_alloc := map_option sort_alloc_state (aa_alloc a), aa_messages := sort_key message_key (aa_messages a),
       aa_commits := sort_key cm_task (aa_commits a), aa_reports := sort_key tr_task (aa_reports a),
       aa_detections := sort_key detection_key (aa_detections a),
       aa_proposals := sort_key proposal_key (aa_proposals a), aa_samples := sort_key sample_key (aa_samples a)\<rparr>"

subsection \<open>Enumerations\<close>

definition valid_behavior :: "behavior_mode \<Rightarrow> bool" where
  "valid_behavior m \<longleftrightarrow> behavior_num m \<ge> 0 \<and> behavior_num m \<le> 6"

definition valid_report :: "report_kind \<Rightarrow> bool" where
  "valid_report k \<longleftrightarrow> k = TR_Working \<or> k = TR_Rejected"

definition valid_replan_reason :: "replan_reason \<Rightarrow> bool" where
  "valid_replan_reason r \<longleftrightarrow> reason_num r \<ge> 1 \<and> reason_num r \<le> 5"

subsection \<open>Allocation states\<close>

definition task_count :: "sim \<Rightarrow> u32" where
  "task_count s = of_nat (length (si_tasks s))"

definition valid_bid :: "sim \<Rightarrow> alloc_state \<Rightarrow> alloc_bid \<Rightarrow> bool result" where
  "valid_bid s a b =
     (if bd_epoch b \<noteq> as_epoch a \<or> bd_version b = 0 \<or> bd_task b = [] \<or> bd_bidder b = [] \<or> bd_distance b < 0
         \<or> bd_energy b < 0 \<or> bd_completion b > sc_max_ticks (si_scenario s) \<or> bd_position b \<ge> task_count s
      then Inr False
      else bindR (lookup_task s (bd_task b)) (\<lambda>_. bindR (lookup_vehicle s (bd_bidder b)) (\<lambda>_. Inr True)))"

definition check_bids :: "sim \<Rightarrow> string \<Rightarrow> alloc_state \<Rightarrow> unit result" where
  "check_bids s sender a =
     bindR (allR (\<lambda>b. bindR (valid_bid s a b) (\<lambda>ok. Inr (ok \<and> bd_bidder b = sender))) (as_bids a)) (\<lambda>bids.
       if \<not> bids then Inl (invalid ''invalid allocation bids'')
       else bindR (allR (valid_bid s a) (as_winners a)) (\<lambda>winners.
         require (\<not> (\<not> winners \<or> length (as_relays a) \<noteq> length (as_winners a)
             \<or> adjacent_dup bd_task (as_bids a) \<or> adjacent_dup bd_task (as_winners a)))
           (invalid ''invalid allocation bids'')))"

definition check_relay :: "serializer \<Rightarrow> sim \<Rightarrow> alloc_state \<Rightarrow> nat \<Rightarrow> unit result" where
  "check_relay ser s a index =
     (let r = as_relays a ! index; path = rl_path r
      in bindR (require (\<not> (ser (P_Bid (rl_bid r)) \<noteq> ser (P_Bid (as_winners a ! index)) \<or> path = []
             \<or> hd path \<noteq> bd_bidder (rl_bid r) \<or> last path \<noteq> as_sender a))
           (invalid ''invalid allocation relay'')) (\<lambda>_.
         bindR (require (\<not> (adjacent_dup id (sort path) \<or> (bd_bidder (rl_bid r) = as_sender a \<and> length path \<noteq> 1)))
           (invalid ''invalid allocation relay'')) (\<lambda>_.
         each (\<lambda>agent. bindR (lookup_vehicle s agent) (\<lambda>_. Inr ())) path)))"

definition check_owner :: "sim \<Rightarrow> alloc_commit \<Rightarrow> unit result" where
  "check_owner s c =
     bindR (lookup_task s (cm_task c)) (\<lambda>t.
     bindR (require (\<not> (\<not> tk_released t \<or> tk_status t \<noteq> TS_Pending \<or> cm_agent c = [] \<or> cm_epoch c = 0
         \<or> cm_epoch c > si_epoch s \<or> cm_version c = 0 \<or> cm_distance c \<noteq> 0 \<or> cm_position c \<ge> task_count s))
       (invalid ''invalid allocation owners'')) (\<lambda>_.
     bindR (lookup_vehicle s (cm_agent c)) (\<lambda>_. Inr ())))"

definition check_nearest_bundle :: "alloc_state \<Rightarrow> unit result" where
  "check_nearest_bundle a =
     require (\<not> (as_bundle a \<noteq> [] \<or> list_ex (\<lambda>b. bd_score b \<noteq> 0 \<or> bd_position b \<noteq> 0) (as_bids a)
         \<or> list_ex (\<lambda>b. bd_score b \<noteq> 0 \<or> bd_position b \<noteq> 0) (as_winners a)))
       (invalid ''invalid nearest allocation state'')"

text \<open>The position that the bid for a task of the bundle claims.\<close>

definition bundle_position :: "alloc_state \<Rightarrow> string \<Rightarrow> u32 result" where
  "bundle_position a k =
     (case find_by bd_task (as_bids a) k of
        None \<Rightarrow> Inl (invalid ''invalid CBBA bundle'')
      | Some b \<Rightarrow> if unat (bd_position b) \<ge> length (as_bundle a) then Inl (invalid ''invalid CBBA bundle'')
                   else Inr (bd_position b))"

definition check_cbba_bundle :: "alloc_state \<Rightarrow> unit result" where
  "check_cbba_bundle a =
     bindR (require (length (as_bundle a) = length (as_bids a)) (invalid ''invalid CBBA bundle'')) (\<lambda>_.
     bindR (foldR (\<lambda>ps k. bindR (bundle_position a k) (\<lambda>p. Inr (ps @ [p]))) [] (as_bundle a)) (\<lambda>positions.
       require (list_all (\<lambda>i. unat (sort positions ! i) = i) [0..<length positions])
         (invalid ''invalid CBBA bundle'')))"

definition check_alloc_state :: "serializer \<Rightarrow> sim \<Rightarrow> string \<Rightarrow> alloc_state \<Rightarrow> unit result" where
  "check_alloc_state ser s sender a =
     bindR (require (\<not> (sc_policy (si_scenario s) = AP_Scripted \<or> as_sender a \<noteq> sender \<or> as_epoch a \<noteq> si_epoch s
         \<or> as_version a = 0 \<or> as_map_version a \<noteq> wd_map_version (si_world s)))
       (invalid ''invalid allocation state'')) (\<lambda>_.
     bindR (check_bids s sender a) (\<lambda>_.
     bindR (each (check_relay ser s a) [0..<length (as_relays a)]) (\<lambda>_.
     bindR (require (\<not> adjacent_dup cm_task (as_owners a)) (invalid ''invalid allocation owners'')) (\<lambda>_.
     bindR (each (check_owner s) (as_owners a)) (\<lambda>_.
     bindR (require (\<not> adjacent_dup id (sort (as_bundle a))) (invalid ''invalid allocation bundle'')) (\<lambda>_.
     bindR (each (\<lambda>k. bindR (lookup_task s k) (\<lambda>_. Inr ())) (as_bundle a)) (\<lambda>_.
       if sc_policy (si_scenario s) = AP_Nearest_Capable then check_nearest_bundle a
       else check_cbba_bundle a)))))))"

subsection \<open>Detections and reservations\<close>

definition valid_detection :: "sim \<Rightarrow> failure_detection \<Rightarrow> envelope \<Rightarrow> bool result" where
  "valid_detection s d e =
     (if fd_detector d \<noteq> en_sender e \<or> fd_failed d = en_sender e then Inr False
      else bindR (lookup_vehicle s (en_sender e)) (\<lambda>sender.
        if \<not> vh_active sender then Inr False
        else bindR (lookup_vehicle s (fd_failed d)) (\<lambda>failed.
          if vh_active failed \<or> vh_failure failed \<noteq> Some (fd_failure_tick d) then Inr False
          else Inr (list_ex (\<lambda>m. mo_detector m = en_sender e \<and> mo_failed m = fd_failed d
                 \<and> mo_detection m = Some (fd_detection_tick d)) (si_monitors s)))))"

definition valid_reservation :: "sim \<Rightarrow> st_reservation \<Rightarrow> envelope \<Rightarrow> bool" where
  "valid_reservation s p e =
     (if sr_agent p \<noteq> en_sender e \<or> sr_version p = 0 \<or> sr_route_version p = 0
         \<or> sr_route_version p \<noteq> aa_route_version (en_action e) \<or> sr_map_version p \<noteq> wd_map_version (si_world s)
         \<or> sr_start p \<le> si_tick s \<or> sr_start p > sr_end p
      then False
      else (case find_by rg_id (wd_regions (si_world s)) (sr_resource p) of
              None \<Rightarrow> False
            | Some r \<Rightarrow> rg_kind r = RK_Chokepoint \<and> \<not> rg_closed r))"

subsection \<open>Batches\<close>

definition check_envelope :: "sim \<Rightarrow> nat \<Rightarrow> envelope \<Rightarrow> unit result" where
  "check_envelope s index e =
     require (\<not> (en_schema e \<noteq> 1 \<or> \<not> has_action e \<or> en_sender e \<noteq> vh_id (si_vehicles s ! index)
         \<or> en_recipient e \<noteq> ''sim'' \<or> en_time_ms e \<noteq> si_tick s * sc_step_ms (si_scenario s)
         \<or> en_sequence e \<noteq> si_tick s * of_nat (length (si_vehicles s)) + of_nat index + 1
         \<or> aa_tick (en_action e) \<noteq> si_tick s \<or> \<not> valid_behavior (aa_mode (en_action e))))
       (invalid ''invalid agent action envelope'')"

definition check_message :: "sim \<Rightarrow> envelope \<Rightarrow> net_message \<Rightarrow> unit result" where
  "check_message s e m =
     bindR (require (\<not> (nm_sender m \<noteq> en_sender e \<or> nm_version m = 0)) (invalid ''invalid outgoing network message''))
       (\<lambda>_. bindR (lookup_vehicle s (nm_recipient m)) (\<lambda>_. Inr ()))"

definition check_commit :: "sim \<Rightarrow> envelope \<Rightarrow> alloc_commit \<Rightarrow> unit result" where
  "check_commit s e c =
     bindR (require (\<not> (cm_agent c \<noteq> en_sender e \<or> cm_epoch c = 0 \<or> cm_version c = 0))
       (invalid ''invalid allocation commit''))
       (\<lambda>_. bindR (lookup_task s (cm_task c)) (\<lambda>_. Inr ()))"

definition check_report :: "sim \<Rightarrow> task_report \<Rightarrow> unit result" where
  "check_report s r =
     bindR (require (valid_report (tr_kind r)) (invalid ''invalid task report''))
       (\<lambda>_. bindR (lookup_task s (tr_task r)) (\<lambda>_. Inr ()))"

definition check_detection :: "sim \<Rightarrow> envelope \<Rightarrow> failure_detection \<Rightarrow> unit result" where
  "check_detection s e d =
     bindR (valid_detection s d e) (\<lambda>ok. require ok (invalid ''invalid failure detection''))"

definition check_sample :: "sim \<Rightarrow> envelope \<Rightarrow> replan_sample \<Rightarrow> unit result" where
  "check_sample s e r =
     require (\<not> (rs_agent r \<noteq> en_sender e \<or> \<not> valid_replan_reason (rs_reason r) \<or> rs_start r > rs_end r
         \<or> rs_end r \<noteq> si_tick s \<or> \<not> rs_complete r))
       (invalid ''invalid replanning sample'')"

definition check_charge :: "sim \<Rightarrow> string \<Rightarrow> unit result" where
  "check_charge s k =
     (if k \<noteq> [] then bindR (lookup_location s k) (\<lambda>l.
        require (lc_kind l = LK_Charging) (invalid ''invalid charging request''))
      else Inr ())"

text \<open>The parts of one action, sorted.\<close>

definition check_action :: "sim \<Rightarrow> envelope \<Rightarrow> action \<Rightarrow> unit result" where
  "check_action s e a =
     bindR (each (check_message s e) (aa_messages a)) (\<lambda>_.
     bindR (each (check_commit s e) (aa_commits a)) (\<lambda>_.
     bindR (each (check_report s) (aa_reports a)) (\<lambda>_.
     bindR (each (check_detection s e) (aa_detections a)) (\<lambda>_.
     bindR (each (\<lambda>p. require (valid_reservation s p e) (invalid ''invalid reservation proposal'')) (aa_proposals a)) (\<lambda>_.
     bindR (each (check_sample s e) (aa_samples a)) (\<lambda>_.
     bindR (require (\<not> (adjacent_dup cm_task (aa_commits a) \<or> adjacent_dup tr_task (aa_reports a)
         \<or> adjacent_dup fd_failed (aa_detections a))) (invalid ''duplicate agent action'')) (\<lambda>_.
       check_charge s (aa_charge a))))))))"

text \<open>The body of the loop: the envelope with its action in canonical order.\<close>

definition canonical_envelope :: "serializer \<Rightarrow> sim \<Rightarrow> nat \<Rightarrow> envelope \<Rightarrow> envelope result" where
  "canonical_envelope ser s index e =
     bindR (check_envelope s index e) (\<lambda>_.
       let a = sort_action (en_action e); e' = e\<lparr>en_body := Body_action a\<rparr>
       in bindR (case aa_alloc a of None \<Rightarrow> Inr () | Some st \<Rightarrow> check_alloc_state ser s (en_sender e) st) (\<lambda>_.
            bindR (check_action s e' a) (\<lambda>_. Inr e')))"

fun mapiR :: "(nat \<Rightarrow> 'a \<Rightarrow> 'b result) \<Rightarrow> nat \<Rightarrow> 'a list \<Rightarrow> 'b list result" where
  "mapiR f i [] = Inr []"
| "mapiR f i (x # xs) = bindR (f i x) (\<lambda>y. bindR (mapiR f (Suc i) xs) (\<lambda>ys. Inr (y # ys)))"

definition canonicalize_actions :: "serializer \<Rightarrow> sim \<Rightarrow> action_batch \<Rightarrow> action_batch result" where
  "canonicalize_actions ser s acts =
     (if ab_tick acts \<noteq> si_tick s \<or> length (ab_actions acts) \<noteq> length (si_vehicles s)
      then Inl (invalid ''invalid action batch'')
      else bindR (mapiR (canonical_envelope ser s) 0 (sort_key en_sender (ab_actions acts)))
             (\<lambda>es. Inr (acts\<lparr>ab_actions := es\<rparr>)))"

end
