(* ===== verification/Sim_Step.thy ===== *)
theory Sim_Step
  imports Sim_Actions
begin

text \<open>
  The phases of \<open>Simulator::step_internal\<close> (\<^verbatim>\<open>core/src/simulator.cpp\<close>, lines 735-1336 and 1434-1458): the tape
  events of the tick, failure detections, task commits, rejections, reservations, motion and charging, the network,
  failure monitors, task progress and convergence of the allocation.
\<close>

subsection \<open>Tape events\<close>

definition bump_epoch :: "sim \<Rightarrow> sim" where
  "bump_epoch s = begin_convergence (s\<lparr>si_epoch := si_epoch s + 1\<rparr>)"

definition apply_release :: "tape_event \<Rightarrow> sim \<Rightarrow> sim result" where
  "apply_release e s =
     bindR (lookup_task s (ev_target e)) (\<lambda>t.
       if tk_released t then Inr s
       else let s1 = set_task (t\<lparr>tk_released := True\<rparr>) s
            in Inr (if tk_agent t = [] then bump_epoch s1 else s1))"

definition orphan_sample :: "string \<Rightarrow> u64 \<Rightarrow> task \<Rightarrow> reassignment" where
  "orphan_sample failed tick t =
     \<lparr>ra_task = tk_id t, ra_failed = failed, ra_detector = [], ra_failure_tick = tick, ra_detection_tick = 0,
      ra_prev_epoch = tk_epoch t, ra_prev_version = tk_version t, ra_new_agent = [], ra_new_epoch = 0,
      ra_new_version = 0, ra_commit_tick = 0, ra_complete = False\<rparr>"

definition held_by :: "string \<Rightarrow> task \<Rightarrow> bool" where
  "held_by k t \<longleftrightarrow> tk_released t \<and> tk_status t = TS_Pending \<and> tk_agent t = k"

definition disable_vehicle :: "vehicle \<Rightarrow> sim \<Rightarrow> sim" where
  "disable_vehicle v s =
     (let k = vh_id v;
          s1 = set_vehicle (v\<lparr>vh_active := False, vh_vx := 0, vh_vy := 0, vh_failure := Some (si_tick s)\<rparr>) s;
          detectors = filter (\<lambda>d. vh_active d \<and> vh_id d \<noteq> k) (si_vehicles s1)
      in s1\<lparr>si_table := release_agent k (si_table s1),
            si_monitors := si_monitors s1 @ map (\<lambda>d. \<lparr>mo_detector = vh_id d, mo_failed = k,
              mo_failure = si_tick s, mo_missed = 0, mo_detection = None\<rparr>) detectors,
            si_reassignments := si_reassignments s1
              @ map (orphan_sample k (si_tick s)) (filter (held_by k) (si_tasks s1))\<rparr>)"

definition apply_disable :: "tape_event \<Rightarrow> sim \<Rightarrow> sim result" where
  "apply_disable e s =
     bindR (lookup_vehicle s (ev_target e)) (\<lambda>v. Inr (if \<not> vh_active v then s else disable_vehicle v s))"

definition random_event :: "event_kind \<Rightarrow> bool" where
  "random_event k \<longleftrightarrow> k = EK_Energy_Delta \<or> k = EK_Set_Speed_Permille \<or> k = EK_Set_Endurance_Permille"

text \<open>The random value of an event: drawn, or drawn and compared with the recording.\<close>

definition resolve_event ::
    "applied_event option \<Rightarrow> tape_event \<Rightarrow> sim \<Rightarrow> (i64 \<times> applied_event \<times> sim) result" where
  "resolve_event recorded e s =
     bindR (stream_uniform (ev_stream e) (ev_min e) (ev_max e) (si_rng s)) (\<lambda>(drawn, after, rs).
       let s1 = s\<lparr>si_rng := rs\<rparr>
       in case recorded of
            None \<Rightarrow> Inr (drawn, \<lparr>ae_source = e, ae_value = drawn, ae_stream = ev_stream e, ae_state_after = after\<rparr>, s1)
          | Some r \<Rightarrow>
              if ae_stream r \<noteq> ev_stream e \<or> ae_value r \<noteq> drawn \<or> ae_state_after r \<noteq> after
              then Inl (Runtime_error ''event log random event mismatch'')
              else Inr (ae_value r, r, s1))"

definition change_energy :: "i64 \<Rightarrow> vehicle \<Rightarrow> sim \<Rightarrow> sim" where
  "change_energy value v s =
     (let v1 = v\<lparr>vh_energy := max 0 (vh_energy v + value)\<rparr> in record_energy v1 (set_vehicle v1 s))"

text \<open>A change of speed or endurance: the vehicle's route is void and the tasks are allocated anew.\<close>

definition void_route :: "vehicle \<Rightarrow> sim \<Rightarrow> sim" where
  "void_route v s = bump_epoch (s\<lparr>si_table := release_route (vh_id v) (vh_route v) (si_table s)\<rparr>)"

definition change_speed :: "i64 \<Rightarrow> vehicle \<Rightarrow> sim \<Rightarrow> sim" where
  "change_speed value v s =
     void_route v (set_vehicle (v\<lparr>vh_speed := max 1 ((vp_speed (vh_spec v) * value) sdiv 1000)\<rparr>) s)"

definition change_endurance :: "i64 \<Rightarrow> vehicle \<Rightarrow> sim \<Rightarrow> sim" where
  "change_endurance value v s =
     (let capacity = max 1 ((vp_energy (vh_spec v) * value) sdiv 1000);
          v1 = v\<lparr>vh_capacity := capacity, vh_energy := min (vh_energy v) capacity\<rparr>
      in void_route v (record_energy v1 (set_vehicle v1 s)))"

definition apply_random :: "tape_event \<Rightarrow> i64 \<Rightarrow> sim \<Rightarrow> sim result" where
  "apply_random e value s =
     bindR (lookup_vehicle s (ev_target e)) (\<lambda>v.
       Inr (if ev_kind e = EK_Energy_Delta then change_energy value v s
            else if ev_kind e = EK_Set_Speed_Permille then change_speed value v s
            else change_endurance value v s))"

definition apply_profile :: "tape_event \<Rightarrow> sim \<Rightarrow> sim result" where
  "apply_profile e s =
     bindR (set_profile (network_profile (si_scenario s) (ev_text e)) (si_net s)) (\<lambda>n.
       Inr (s\<lparr>si_profile := ev_text e, si_net := n\<rparr>))"

definition close_region :: "bool \<Rightarrow> string \<Rightarrow> world \<Rightarrow> world" where
  "close_region closed k w =
     w\<lparr>wd_regions := update_by rg_id k (\<lambda>r. r\<lparr>rg_closed := closed\<rparr>) (wd_regions w),
       wd_map_version := wd_map_version w + 1\<rparr>"

definition change_region :: "bool \<Rightarrow> string \<Rightarrow> sim \<Rightarrow> sim" where
  "change_region closed k s =
     (let w = close_region closed k (si_world s);
          s1 = s\<lparr>si_scenario := (si_scenario s)\<lparr>sc_world := w\<rparr>\<rparr>
      in begin_convergence (s1\<lparr>si_table := release_map (wd_map_version w) (si_table s1)\<rparr>))"

definition apply_region :: "tape_event \<Rightarrow> sim \<Rightarrow> sim result" where
  "apply_region e s =
     (case find_by rg_id (wd_regions (si_world s)) (ev_target e) of
        None \<Rightarrow> Inl (invalid ''unknown region'')
      | Some r \<Rightarrow> Inr (if rg_closed r = ev_bool e then s else change_region (ev_bool e) (ev_target e) s))"

definition apply_link :: "tape_event \<Rightarrow> sim \<times> net_outcome list \<Rightarrow> (sim \<times> net_outcome list) result" where
  "apply_link e = (\<lambda>(s, outs).
     bindR (link_blocked (ev_target e) (ev_text e) (si_net s)) (\<lambda>was_blocked.
     bindR (set_link_blocked (ev_target e) (ev_text e) (ev_bool e) (si_tick s) (si_net s)) (\<lambda>(cut, n).
       let s1 = s\<lparr>si_net := n\<rparr>
       in Inr (if was_blocked \<noteq> ev_bool e then begin_convergence s1 else s1, outs @ cut))))"

definition plain_event :: "tape_event \<Rightarrow> applied_event" where
  "plain_event e = \<lparr>ae_source = e, ae_value = 0, ae_stream = [], ae_state_after = 0\<rparr>"

text \<open>The body of the loop over the events of the tick. \<open>recorded\<close> is the recorded event at the same position, when
  a run is replayed.\<close>

definition apply_event ::
    "applied_event option \<Rightarrow> tape_event \<Rightarrow> sim \<times> net_outcome list
     \<Rightarrow> (applied_event \<times> sim \<times> net_outcome list) result" where
  "apply_event recorded e = (\<lambda>(s, outs).
     let event = (case recorded of None \<Rightarrow> plain_event e | Some r \<Rightarrow> r);
         quiet = (\<lambda>r. bindR r (\<lambda>(s', outs').
           if recorded \<noteq> None \<and> (ae_value event \<noteq> 0 \<or> ae_stream event \<noteq> [] \<or> ae_state_after event \<noteq> 0)
           then Inl (Runtime_error ''event log contains invalid resolved input'')
           else Inr (event, s', outs')))
     in if ev_kind e = EK_Release_Task then quiet (bindR (apply_release e s) (\<lambda>s'. Inr (s', outs)))
        else if ev_kind e = EK_Disable_Vehicle then quiet (bindR (apply_disable e s) (\<lambda>s'. Inr (s', outs)))
        else if random_event (ev_kind e)
        then bindR (resolve_event recorded e s) (\<lambda>(value, event', s1).
               bindR (apply_random e value s1) (\<lambda>s'. Inr (event', s', outs)))
        else if ev_kind e = EK_Set_Network_Profile then quiet (bindR (apply_profile e s) (\<lambda>s'. Inr (s', outs)))
        else if ev_kind e = EK_Set_Region_Closed then quiet (bindR (apply_region e s) (\<lambda>s'. Inr (s', outs)))
        else if ev_kind e = EK_Set_Link_Blocked then quiet (apply_link e (s, outs))
        else quiet (Inr (s, outs)))"

fun events_loop ::
    "serializer \<Rightarrow> applied_event list option \<Rightarrow> tape_event list \<Rightarrow> applied_event list \<Rightarrow> sim \<times> net_outcome list
     \<Rightarrow> (applied_event list \<times> sim \<times> net_outcome list) result" where
  "events_loop ser recorded [] applied (s, outs) = Inr (applied, s, outs)"
| "events_loop ser recorded (e # es) applied (s, outs) =
     (if ev_tick e \<noteq> si_tick s then Inr (applied, s, outs)
      else
        bindR (case recorded of
                 None \<Rightarrow> Inr None
               | Some rs \<Rightarrow>
                   if length applied \<ge> length rs then Inl (Runtime_error ''event log is missing a recorded event'')
                   else if ser (P_Event (ae_source (rs ! length applied))) \<noteq> ser (P_Event e)
                   then Inl (Runtime_error ''event log source event mismatch'')
                   else Inr (Some (rs ! length applied))) (\<lambda>r.
        bindR (apply_event r e (s, outs)) (\<lambda>(event, s', outs').
          events_loop ser recorded es (applied @ [event]) (s'\<lparr>si_next_event := si_next_event s' + 1\<rparr>, outs'))))"

definition apply_events ::
    "serializer \<Rightarrow> applied_event list option \<Rightarrow> sim \<Rightarrow> (applied_event list \<times> sim \<times> net_outcome list) result" where
  "apply_events ser recorded s =
     bindR (events_loop ser recorded (drop (si_next_event s) (sc_events (si_scenario s))) [] (s, []))
       (\<lambda>(applied, s', outs).
          case recorded of
            None \<Rightarrow> Inr (applied, s', outs)
          | Some rs \<Rightarrow>
              if length applied \<noteq> length rs then Inl (Runtime_error ''event log contains an unexpected recorded event'')
              else Inr (applied, s', outs))"

subsection \<open>Failure detections\<close>

definition unassign :: "task \<Rightarrow> task" where
  "unassign t = t\<lparr>tk_agent := [], tk_epoch := 0, tk_version := 0, tk_score := 0, tk_position := 0, tk_progress := 0\<rparr>"

definition note_detection ::
    "sim \<times> (string \<times> failure_detection) list \<Rightarrow> failure_detection \<Rightarrow> sim \<times> (string \<times> failure_detection) list" where
  "note_detection = (\<lambda>(s, first) d.
     let s1 = (if list_ex (\<lambda>c. fd_failed c = fd_failed d \<and> fd_detector c = fd_detector d) (si_detections s) then s
               else s\<lparr>si_detections := si_detections s @ [d]\<rparr>)
     in case find_by fst first (fd_failed d) of
          None \<Rightarrow> (s1, insert_by fst (fd_failed d, d) first)
        | Some (k, c) \<Rightarrow>
            (s1, if (fd_detection_tick d, fd_detector d) < (fd_detection_tick c, fd_detector c)
                 then update_by fst (fd_failed d) (\<lambda>_. (fd_failed d, d)) first else first))"

definition note_detections ::
    "sim \<times> (string \<times> failure_detection) list \<Rightarrow> envelope \<Rightarrow> (sim \<times> (string \<times> failure_detection) list) result" where
  "note_detections st e =
     bindR (lookup_vehicle (fst st) (en_sender e)) (\<lambda>v.
       Inr (if \<not> vh_active v then st else foldl note_detection st (aa_detections (en_action e))))"

definition orphan_tasks :: "failure_detection \<Rightarrow> vehicle \<Rightarrow> sim \<Rightarrow> sim" where
  "orphan_tasks d failed s =
     (let s1 = set_vehicle (failed\<lparr>vh_announced := True\<rparr>) s
      in s1\<lparr>si_reassignments := map (\<lambda>r.
              if ra_failed r = vh_id failed \<and> ra_detection_tick r = 0
              then r\<lparr>ra_detector := fd_detector d, ra_detection_tick := fd_detection_tick d\<rparr> else r)
              (si_reassignments s1),
            si_tasks := map (\<lambda>t. if held_by (vh_id failed) t then unassign t else t) (si_tasks s1)\<rparr>)"

definition announce_failure :: "sim \<times> bool \<Rightarrow> string \<times> failure_detection \<Rightarrow> (sim \<times> bool) result" where
  "announce_failure = (\<lambda>(s, orphaned) (k, d).
     bindR (lookup_vehicle s k) (\<lambda>failed.
       Inr (if vh_announced failed then (s, orphaned)
            else (orphan_tasks d failed s, orphaned \<or> list_ex (held_by (vh_id failed)) (si_tasks s)))))"

definition apply_failure_detections :: "action_batch \<Rightarrow> sim \<Rightarrow> sim result" where
  "apply_failure_detections acts s =
     bindR (foldR note_detections (s, []) (ab_actions acts)) (\<lambda>(s1, first).
     bindR (foldR announce_failure (s1, False) first) (\<lambda>(s2, orphaned).
       Inr (if orphaned then bump_epoch s2 else s2)))"

subsection \<open>Task commits\<close>

definition valid_commit :: "sim \<Rightarrow> alloc_commit \<Rightarrow> envelope \<Rightarrow> bool result" where
  "valid_commit s c e =
     (if (sc_policy (si_scenario s) \<noteq> AP_Nearest_Capable \<and> sc_policy (si_scenario s) \<noteq> AP_Sentinel_Cbba)
         \<or> cm_agent c \<noteq> en_sender e \<or> cm_epoch c \<noteq> si_epoch s
      then Inr False
      else bindR (lookup_task s (cm_task c)) (\<lambda>t.
        if \<not> tk_released t \<or> tk_status t \<noteq> TS_Pending \<or> tk_agent t \<noteq> [] then Inr False
        else bindR (lookup_vehicle s (en_sender e)) (\<lambda>v.
          if \<not> vh_active v then Inr False
          else
            case aa_alloc (en_action e) of
              None \<Rightarrow>
                if sc_policy (si_scenario s) \<noteq> AP_Nearest_Capable \<or> sc_profiles (si_scenario s) \<noteq> [] then Inr False
                else bindR (nearest_capable (si_world s) (map vehicle_view (filter vh_active (si_vehicles s)))
                       (task_view t) (si_tick s) (sc_step_ms (si_scenario s)) (cm_epoch c) (cm_version c)) (\<lambda>winner.
                  Inr (case winner of None \<Rightarrow> False
                       | Some w \<Rightarrow> cl_agent w = en_sender e \<and> cl_distance w = cm_distance c))
            | Some st \<Rightarrow>
                case find_by bd_task (as_winners st) (cm_task c) of
                  None \<Rightarrow> Inr False
                | Some b \<Rightarrow>
                    if bd_bidder b \<noteq> en_sender e \<or> bd_version b \<noteq> cm_version c \<or> bd_score b \<noteq> cm_score c
                       \<or> bd_position b \<noteq> cm_position c
                    then Inr False
                    else bindR (make_claim (si_world s) (vehicle_view v) (task_view t) (si_tick s)
                           (sc_step_ms (si_scenario s)) (cm_epoch c) (cm_version c)) (\<lambda>claim.
                      Inr (cl_feasible claim \<and> cl_distance claim = cm_distance c)))))"

definition better_commit :: "policy \<Rightarrow> alloc_commit \<Rightarrow> alloc_commit \<Rightarrow> bool" where
  "better_commit p c previous =
     (if p = AP_Sentinel_Cbba
      then cm_score c > cm_score previous \<or> (cm_score c = cm_score previous \<and> cm_agent c < cm_agent previous)
      else (cm_distance c, cm_agent c) < (cm_distance previous, cm_agent previous))"

text \<open>\<open>selected\<close>: the best commit per task so far, in the order of the task identifiers.\<close>

definition select_commit ::
    "envelope \<Rightarrow> sim \<times> (string \<times> alloc_commit) list \<Rightarrow> alloc_commit
     \<Rightarrow> (sim \<times> (string \<times> alloc_commit) list) result" where
  "select_commit e = (\<lambda>(s, selected) c.
     bindR (valid_commit s c e) (\<lambda>ok.
       let rejected = s\<lparr>si_rejected := si_rejected s + 1\<rparr>
       in Inr (if \<not> ok then (rejected, selected)
               else case find_by fst selected (cm_task c) of
                      None \<Rightarrow> (s, insert_by fst (cm_task c, c) selected)
                    | Some (k, previous) \<Rightarrow>
                        (rejected, if better_commit (sc_policy (si_scenario s)) c previous
                                   then update_by fst (cm_task c) (\<lambda>_. (cm_task c, c)) selected else selected))))"

definition complete_sample :: "u64 \<Rightarrow> alloc_commit \<Rightarrow> reassignment \<Rightarrow> reassignment" where
  "complete_sample tick c r =
     (if cm_epoch c > ra_prev_epoch r
      then r\<lparr>ra_new_agent := cm_agent c, ra_new_epoch := cm_epoch c, ra_new_version := cm_version c,
             ra_commit_tick := tick, ra_complete := True\<rparr>
      else r)"

text \<open>A write through the iterator of \<open>std::find_if\<close>.\<close>

fun update_first :: "('a \<Rightarrow> bool) \<Rightarrow> ('a \<Rightarrow> 'a) \<Rightarrow> 'a list \<Rightarrow> 'a list" where
  "update_first P f [] = []"
| "update_first P f (x # xs) = (if P x then f x # xs else x # update_first P f xs)"

definition assign_task :: "alloc_commit \<Rightarrow> task \<Rightarrow> vehicle \<Rightarrow> sim \<Rightarrow> sim" where
  "assign_task c t v s =
     (let s1 = set_task (t\<lparr>tk_agent := cm_agent c, tk_epoch := cm_epoch c, tk_version := cm_version c,
                           tk_score := cm_score c, tk_position := cm_position c\<rparr>) (record_commit t v s)
      in s1\<lparr>si_reassignments :=
             update_first (\<lambda>r. ra_task r = tk_id t \<and> ra_detection_tick r \<noteq> 0 \<and> \<not> ra_complete r)
               (complete_sample (si_tick s) c) (si_reassignments s1)\<rparr>)"

definition commit_task :: "sim \<Rightarrow> string \<times> alloc_commit \<Rightarrow> sim result" where
  "commit_task s = (\<lambda>(k, c).
     bindR (lookup_task s k) (\<lambda>t.
     bindR (lookup_vehicle s (cm_agent c)) (\<lambda>v. Inr (assign_task c t v s))))"

definition apply_commits :: "action_batch \<Rightarrow> bool \<Rightarrow> sim \<Rightarrow> sim result" where
  "apply_commits acts coordination_fence s =
     (if coordination_fence
      then Inr (foldl (\<lambda>s e. s\<lparr>si_rejected := si_rejected s + of_nat (length (aa_commits (en_action e)))\<rparr>) s
                  (ab_actions acts))
      else
        bindR (foldR (\<lambda>st e. foldR (select_commit e) st (aa_commits (en_action e))) (s, []) (ab_actions acts))
          (\<lambda>(s1, selected). foldR commit_task s1 selected))"

subsection \<open>Rejections\<close>

definition reject_task :: "string \<Rightarrow> sim \<Rightarrow> task_report \<Rightarrow> sim result" where
  "reject_task sender s r =
     (if tr_kind r \<noteq> TR_Rejected then Inr s
      else bindR (lookup_task s (tr_task r)) (\<lambda>t.
        Inr (if tk_status t = TS_Pending \<and> tk_agent t = sender then bump_epoch (set_task (unassign t) s) else s)))"

definition apply_rejections :: "action_batch \<Rightarrow> sim \<Rightarrow> sim result" where
  "apply_rejections acts s =
     foldR (\<lambda>s e. bindR (lookup_vehicle s (en_sender e)) (\<lambda>v.
       if \<not> vh_active v then Inr s else foldR (reject_task (en_sender e)) s (aa_reports (en_action e))))
       s (ab_actions acts)"

subsection \<open>Reservations\<close>

definition adopt_route :: "sim \<Rightarrow> envelope \<Rightarrow> sim result" where
  "adopt_route s e =
     bindR (lookup_vehicle s (en_sender e)) (\<lambda>v.
       let next = aa_route_version (en_action e)
       in Inr (if next = vh_route v then s
               else set_vehicle (v\<lparr>vh_route := next\<rparr>)
                      (s\<lparr>si_table := release_route (vh_id v) (vh_route v) (si_table s)\<rparr>)))"

definition propose :: "string \<Rightarrow> sim \<Rightarrow> st_reservation \<Rightarrow> sim result" where
  "propose sender s p =
     bindR (lookup_vehicle s sender) (\<lambda>v.
       if sr_map_version p \<noteq> wd_map_version (si_world s) \<or> sr_route_version p \<noteq> vh_route v then Inr s
       else bindR (reserve (as_reservation p) (si_table s)) (\<lambda>(result, t).
         let s1 = s\<lparr>si_table := t\<rparr> in Inr (if result = Res_committed then record_overlap s1 else s1)))"

definition propose_all :: "sim \<Rightarrow> envelope \<Rightarrow> sim result" where
  "propose_all s e =
     bindR (lookup_vehicle s (en_sender e)) (\<lambda>v.
       if \<not> vh_active v then Inr s else foldR (propose (en_sender e)) s (aa_proposals (en_action e)))"

definition apply_reservations :: "action_batch \<Rightarrow> bool \<Rightarrow> sim \<Rightarrow> sim result" where
  "apply_reservations acts coordination_fence s =
     bindR (foldR adopt_route (s\<lparr>si_table := release_before (si_tick s) (si_table s)\<rparr>) (ab_actions acts)) (\<lambda>s1.
       if coordination_fence then Inr s1 else foldR propose_all s1 (ab_actions acts))"

definition has_reservation :: "sim \<Rightarrow> string \<Rightarrow> string \<Rightarrow> u64 \<Rightarrow> bool" where
  "has_reservation s agent resource route =
     list_ex (\<lambda>r. rv_agent r = agent \<and> rv_resource r = resource \<and> rv_start r \<le> si_tick s \<and> si_tick s \<le> rv_end r
        \<and> rv_route r = route \<and> rv_map r = wd_map_version (si_world s)) (tb_committed (si_table s))"

definition occupied :: "sim \<Rightarrow> string \<Rightarrow> string \<Rightarrow> bool" where
  "occupied s resource agent =
     list_ex (\<lambda>v. vh_active v \<and> vh_id v \<noteq> agent
        \<and> contested_resource (si_world s) (coordinate (vh_x v) (vh_y v)) (coordinate (vh_x v) (vh_y v)) = Some resource)
       (si_vehicles s)"

subsection \<open>Motion and charging\<close>

definition axis_velocity :: "i64 \<Rightarrow> i64 \<Rightarrow> i64" where
  "axis_velocity value limit = (if value < - limit then - limit else if limit < value then limit else value)"

text \<open>The velocity an action asks for, cut down to the vehicle's speed in the sum of the axes.\<close>

definition limit_velocity :: "i64 \<Rightarrow> i64 \<Rightarrow> i64 \<Rightarrow> i64 \<times> i64" where
  "limit_velocity speed x y =
     (let vx = axis_velocity x speed; vy = axis_velocity y speed; magnitude = abs vx + abs vy
      in if magnitude > speed then ((vx * speed) sdiv magnitude, (vy * speed) sdiv magnitude) else (vx, vy))"

definition step_delta :: "sim \<Rightarrow> i64 \<Rightarrow> i64" where
  "step_delta s velocity = (velocity * to_i64 (sc_step_ms (si_scenario s))) sdiv 1000"

definition stop :: "vehicle \<Rightarrow> vehicle" where
  "stop v = v\<lparr>vh_vx := 0, vh_vy := 0\<rparr>"

definition reservation_blocked :: "sim \<Rightarrow> vehicle \<Rightarrow> point \<Rightarrow> point \<Rightarrow> bool" where
  "reservation_blocked s v from to =
     (case contested_resource (si_world s) from to of
        None \<Rightarrow> False
      | Some resource \<Rightarrow>
          \<not> has_reservation s (vh_id v) resource (vh_route v) \<or> occupied s resource (vh_id v))"

text \<open>Lines 1179-1224: the vehicle and the counters after the move, or the refusal of it.\<close>

definition move_vehicle :: "sim \<Rightarrow> vehicle \<Rightarrow> action \<Rightarrow> bool \<Rightarrow> (sim \<times> vehicle) result" where
  "move_vehicle s v a waited =
     (let (vx, vy) = limit_velocity (vh_speed v) (aa_vx a) (aa_vy a);
          dx = step_delta s vx; dy = step_delta s vy;
          from = coordinate (vh_x v) (vh_y v); to = coordinate (vh_x v + dx) (vh_y v + dy);
          view = vehicle_view v
      in if (dx \<noteq> 0 \<or> dy \<noteq> 0) \<and> reservation_blocked s v from to
         then Inr (if waited then s else s\<lparr>si_wait := si_wait s + 1\<rparr>, (stop v)\<lparr>vh_mode := BM_Waiting\<rparr>)
         else if \<not> segment_allowed (si_world s) view from to then Inr (s, stop v)
         else
           let distance = abs dx + abs dy
           in bindR (motion_energy view distance (terrain_multiplier (si_world s) from to)) (\<lambda>cost.
                if cost > vh_energy v then Inr (s, stop v)
                else
                  let v1 = v\<lparr>vh_x := px to, vh_y := py to, vh_vx := vx, vh_vy := vy, vh_energy := vh_energy v - cost\<rparr>
                  in Inr ((record_energy v1 s)\<lparr>si_distance := si_distance s + to_u64 distance,
                            si_energy := si_energy s + to_u64 cost\<rparr>, v1)))"

definition charge_vehicle :: "sim \<Rightarrow> vehicle \<Rightarrow> action \<Rightarrow> (sim \<times> vehicle) result" where
  "charge_vehicle s v a =
     (if aa_charge a \<noteq> [] \<and> aa_vx a = 0 \<and> aa_vy a = 0
      then bindR (lookup_location s (aa_charge a)) (\<lambda>l.
        if inside \<lparr>px = vh_x v, py = vh_y v\<rparr> l
        then let v1 = v\<lparr>vh_energy := min (vh_capacity v) (vh_energy v + lc_charge l)\<rparr>
             in Inr ((record_energy v1 s)\<lparr>si_recharge := si_recharge s + 1\<rparr>, v1)
        else Inr (s, v))
      else Inr (s, v))"

definition put_vehicle :: "nat \<Rightarrow> vehicle \<Rightarrow> sim \<Rightarrow> sim" where
  "put_vehicle index v s = s\<lparr>si_vehicles := (si_vehicles s)[index := v]\<rparr>"

text \<open>The body of the loop over the actions; the action at an index belongs to the vehicle at that index.\<close>

definition act_vehicle ::
    "sim \<times> net_message list \<Rightarrow> nat \<times> envelope \<Rightarrow> (sim \<times> net_message list) result" where
  "act_vehicle = (\<lambda>(s, messages) (index, e).
     let a = en_action e;
         v = (si_vehicles s ! index)\<lparr>vh_mode := (if aa_mode a = BM_Unspecified then BM_Idle else aa_mode a)\<rparr>;
         view = (case aa_alloc a of None \<Rightarrow> empty_alloc_state | Some st \<Rightarrow> st);
         s0 = s\<lparr>si_views := (si_views s)[index := view]\<rparr>
     in if \<not> vh_active v then Inr (put_vehicle index (stop v) s0, messages)
        else
          let waited = (vh_mode v = BM_Waiting);
              s1 = s0\<lparr>si_wait := si_wait s0 + (if waited then 1 else 0),
                     si_return := si_return s0 + (if vh_mode v = BM_Returning then 1 else 0),
                     si_replan := si_replan s0 + (if aa_replanned a then 1 else 0),
                     si_samples := si_samples s0 @ aa_samples a\<rparr>
          in bindR (move_vehicle s1 v a waited) (\<lambda>(s2, v2).
             bindR (charge_vehicle s2 v2 a) (\<lambda>(s3, v3).
               Inr (put_vehicle index v3 s3, messages @ aa_messages a))))"

definition act_all :: "action_batch \<Rightarrow> sim \<Rightarrow> (sim \<times> net_message list) result" where
  "act_all acts s = foldR act_vehicle (s, []) (enumerate 0 (ab_actions acts))"

definition exchange_messages ::
    "serializer \<Rightarrow> sim \<times> net_message list \<Rightarrow> net_outcome list \<Rightarrow> (sim \<times> net_outcome list) result" where
  "exchange_messages ser = (\<lambda>(s, messages) outs.
     bindR (net_step ser (si_tick s) messages (si_net s)) (\<lambda>(delivered, sent, n).
       Inr (s\<lparr>si_net := n, si_delivered := delivered\<rparr>, outs @ sent)))"

definition apply_actions ::
    "serializer \<Rightarrow> action_batch \<Rightarrow> net_outcome list \<Rightarrow> bool \<Rightarrow> sim \<Rightarrow> (sim \<times> net_outcome list) result" where
  "apply_actions ser acts outs coordination_fence s =
     bindR (apply_failure_detections acts s) (\<lambda>s1.
     bindR (apply_commits acts coordination_fence s1) (\<lambda>s2.
     bindR (apply_rejections acts s2) (\<lambda>s3.
     bindR (apply_reservations acts coordination_fence s3) (\<lambda>s4.
     bindR (act_all acts s4) (\<lambda>st. exchange_messages ser st outs)))))"

end
