(* ===== verification/Sim_Run.thy ===== *)
theory Sim_Run
  imports Sim_Step
begin

text \<open>
  The rest of \<open>Simulator\<close> (\<^verbatim>\<open>core/src/simulator.cpp\<close>): failure monitors, task progress, convergence, the hash of the
  state, the summary, what the agents observe, and the step that composes the phases.
\<close>

subsection \<open>Failure monitors\<close>

definition tick_monitor :: "sim \<Rightarrow> monitor \<Rightarrow> monitor result" where
  "tick_monitor s m =
     (if mo_detection m \<noteq> None then Inr m
      else bindR (lookup_vehicle s (mo_detector m)) (\<lambda>detector.
        if \<not> vh_active detector then Inr m
        else bindR (link_blocked (mo_detector m) (mo_failed m) (si_net s)) (\<lambda>blocked.
          if blocked then Inr (m\<lparr>mo_missed := 0\<rparr>)
          else
            let heard = list_ex (\<lambda>x. nm_sender x = mo_failed m \<and> nm_recipient x = mo_detector m) (si_delivered s);
                missed = (if heard then 0 else mo_missed m + 1)
            in Inr (m\<lparr>mo_missed := missed,
                      mo_detection := (if missed \<ge> sc_detect_ticks (si_scenario s) then Some (si_tick s + 1)
                                       else mo_detection m)\<rparr>))))"

definition update_failure_monitors :: "sim \<Rightarrow> sim result" where
  "update_failure_monitors s =
     bindR (mapR (tick_monitor s) (si_monitors s)) (\<lambda>ms. Inr (s\<lparr>si_monitors := ms\<rparr>))"

subsection \<open>Task progress\<close>

definition deliver :: "task \<Rightarrow> vehicle \<Rightarrow> vehicle" where
  "deliver t v =
     (if tp_cap (tk_spec t) = Cap_Delivery then v\<lparr>vh_payload := vh_payload v - tp_payload (tk_spec t)\<rparr> else v)"

definition complete :: "u64 \<Rightarrow> task \<Rightarrow> task" where
  "complete tick t = t\<lparr>tk_status := TS_Completed, tk_completion := tick\<rparr>"

definition reports_work :: "action_batch \<Rightarrow> task \<Rightarrow> bool" where
  "reports_work acts t =
     (case find_by en_sender (ab_actions acts) (tk_agent t) of
        None \<Rightarrow> False
      | Some e \<Rightarrow>
          (case find_by tr_task (aa_reports (en_action e)) (tk_id t) of
             None \<Rightarrow> False | Some r \<Rightarrow> tr_kind r = TR_Working))"

text \<open>The reserve as the simulator computes it.\<close>

definition service_reserve :: "vehicle \<Rightarrow> i64" where
  "service_reserve v = (vp_energy (vh_spec v) + 9) sdiv 10"

text \<open>A released, pending task before its deadline with an assigned vehicle \<open>v\<close>.\<close>

definition work_task :: "action_batch \<Rightarrow> sim \<Rightarrow> task \<Rightarrow> vehicle \<Rightarrow> sim \<times> bool" where
  "work_task acts s t v =
     (let spec = tk_spec t;
          distance = abs (vh_x v - px (tp_target spec)) + abs (vh_y v - py (tp_target spec));
          capable = vh_active v \<and> vh_capable v (tp_cap spec) \<and> vh_payload v \<ge> tp_payload spec
      in if tp_service spec = 0
         then if capable \<and> distance \<le> tp_radius spec
              then (set_vehicle (deliver t v) (set_task (complete (si_tick s) t) s), True)
              else (s, False)
         else if \<not> capable \<or> distance > tp_radius spec \<or> \<not> reports_work acts t
                 \<or> vh_energy v < tp_service_energy spec + service_reserve v
         then (set_task (t\<lparr>tk_progress := 0\<rparr>) s, False)
         else
           let v1 = v\<lparr>vh_energy := vh_energy v - tp_service_energy spec\<rparr>;
               t1 = t\<lparr>tk_progress := tk_progress t + 1\<rparr>;
               s1 = (record_energy v1 s)\<lparr>si_energy := si_energy s + to_u64 (tp_service_energy spec)\<rparr>
           in if tk_progress t1 \<ge> tp_service spec
              then (set_vehicle (deliver t v1) (set_task (complete (si_tick s) t1) s1), True)
              else (set_vehicle v1 (set_task t1 s1), False))"

definition update_task :: "action_batch \<Rightarrow> sim \<times> bool \<Rightarrow> nat \<Rightarrow> (sim \<times> bool) result" where
  "update_task acts = (\<lambda>(s, changed) index.
     let t = si_tasks s ! index
     in if \<not> tk_released t \<or> tk_status t \<noteq> TS_Pending then Inr (s, changed)
        else if si_tick s > tp_deadline (tk_spec t)
        then Inr (set_task (t\<lparr>tk_status := TS_Missed, tk_progress := 0\<rparr>) s, True)
        else if tk_agent t = [] then Inr (s, changed)
        else bindR (lookup_vehicle s (tk_agent t)) (\<lambda>v.
          let (s', c) = work_task acts s t v in Inr (s', changed \<or> c)))"

definition update_tasks :: "action_batch \<Rightarrow> sim \<Rightarrow> sim result" where
  "update_tasks acts s =
     bindR (foldR (update_task acts) (s, False) [0..<length (si_tasks s)]) (\<lambda>(s', changed).
       Inr (if changed then begin_convergence s' else s'))"

subsection \<open>Convergence of the allocation\<close>

definition open_tasks :: "sim \<Rightarrow> string list" where
  "open_tasks s = sort (map tk_id (filter (\<lambda>t. tk_released t \<and> tk_status t = TS_Pending) (si_tasks s)))"

text \<open>The inner loop of the search: the vehicles that \<open>from\<close> reaches directly. The search visits each vehicle once,
  so its cursor passes at most \<open>length (si_vehicles s)\<close> positions.\<close>

definition reach_candidate ::
    "sim \<Rightarrow> nat \<Rightarrow> bool list \<times> nat list \<Rightarrow> nat \<Rightarrow> (bool list \<times> nat list) result" where
  "reach_candidate s from = (\<lambda>(visited, component) candidate.
     if \<not> vh_active (si_vehicles s ! candidate) \<or> visited ! candidate then Inr (visited, component)
     else bindR (link_blocked (vh_id (si_vehicles s ! from)) (vh_id (si_vehicles s ! candidate)) (si_net s)) (\<lambda>blocked.
       Inr (if blocked then (visited, component) else (visited[candidate := True], component @ [candidate]))))"

definition explore :: "sim \<Rightarrow> bool list \<times> nat list \<Rightarrow> nat \<Rightarrow> (bool list \<times> nat list) result" where
  "explore s = (\<lambda>(visited, component) cursor.
     if cursor < length component
     then foldR (reach_candidate s (component ! cursor)) (visited, component) [0..<length (si_vehicles s)]
     else Inr (visited, component))"

definition view_matches :: "sim \<Rightarrow> nat \<Rightarrow> bool" where
  "view_matches s index =
     (let view = si_views s ! index
      in \<not> (as_sender view \<noteq> vh_id (si_vehicles s ! index) \<or> as_epoch view \<noteq> si_epoch s
            \<or> as_map_version view \<noteq> wd_map_version (si_world s))
         \<and> sort (map bd_task (as_winners view) @ map cm_task (as_owners view)) = open_tasks s)"

definition same_allocation :: "serializer \<Rightarrow> alloc_state \<Rightarrow> alloc_state \<Rightarrow> bool" where
  "same_allocation ser view reference \<longleftrightarrow>
     length (as_winners view) = length (as_winners reference) \<and> length (as_owners view) = length (as_owners reference)
     \<and> map (\<lambda>b. ser (P_Bid b)) (as_winners view) = map (\<lambda>b. ser (P_Bid b)) (as_winners reference)
     \<and> map (\<lambda>c. ser (P_Commit c)) (as_owners view) = map (\<lambda>c. ser (P_Commit c)) (as_owners reference)"

definition component_agrees :: "serializer \<Rightarrow> sim \<Rightarrow> nat list \<Rightarrow> bool" where
  "component_agrees ser s component =
     (list_all (view_matches s) component
      \<and> list_all (\<lambda>index. same_allocation ser (si_views s ! index) (si_views s ! hd component)) (tl component))"

text \<open>The loop over the roots: the vehicles visited, and whether one was active; \<open>None\<close> once the views of a component
  disagree.\<close>

definition agree_root ::
    "serializer \<Rightarrow> sim \<Rightarrow> (bool list \<times> bool) option \<Rightarrow> nat \<Rightarrow> (bool list \<times> bool) option result" where
  "agree_root ser s st root =
     (case st of
        None \<Rightarrow> Inr None
      | Some (visited, any_active) \<Rightarrow>
          if \<not> vh_active (si_vehicles s ! root) \<or> visited ! root then Inr st
          else bindR (foldR (explore s) (visited[root := True], [root]) [0..<length (si_vehicles s)])
                 (\<lambda>(visited', component).
                    Inr (if component_agrees ser s component then Some (visited', True) else None)))"

definition allocation_agrees :: "serializer \<Rightarrow> sim \<Rightarrow> bool result" where
  "allocation_agrees ser s =
     bindR (foldR (agree_root ser s) (Some (replicate (length (si_vehicles s)) False, False))
              [0..<length (si_vehicles s)])
       (\<lambda>st. Inr (case st of None \<Rightarrow> False | Some (visited, any_active) \<Rightarrow> any_active))"

definition signature_items :: "serializer \<Rightarrow> sim \<Rightarrow> hash_item list" where
  "signature_items ser s =
     [HU (si_epoch s), HU (wd_map_version (si_world s))]
     @ concat (map (\<lambda>index. if vh_active (si_vehicles s ! index)
                            then [HT (vh_id (si_vehicles s ! index)), HT (ser (P_State (si_views s ! index)))] else [])
                [0..<length (si_vehicles s)])"

definition allocation_signature :: "serializer \<Rightarrow> sim \<Rightarrow> string" where
  "allocation_signature ser s = hb_finish (absorb_all (signature_items ser s) hash_init)"

definition update_convergence :: "serializer \<Rightarrow> sim \<Rightarrow> sim result" where
  "update_convergence ser s =
     bindR (if si_cv_open s then allocation_agrees ser s else Inr False) (\<lambda>agrees.
       Inr (if \<not> agrees then s\<lparr>si_cv_candidate := 0, si_cv_stable := 0, si_cv_signature := []\<rparr>
            else
              let signature = allocation_signature ser s
              in if signature \<noteq> si_cv_signature s
                 then s\<lparr>si_cv_signature := signature, si_cv_candidate := si_tick s, si_cv_stable := 1\<rparr>
                 else
                   let s1 = s\<lparr>si_cv_stable := si_cv_stable s + 1\<rparr>
                   in if si_cv_stable s1 < 10 then s1
                      else s1\<lparr>si_convergence := si_convergence s1
                                @ [\<lparr>cv_epoch = si_epoch s1, cv_start = si_cv_start s1, cv_end = si_cv_candidate s1,
                                    cv_complete = True\<rparr>],
                              si_cv_open := False\<rparr>))"

end
