(* ===== verification/Sim_Observe.thy ===== *)
theory Sim_Observe
  imports Sim_Run
begin

text \<open>
  What leaves the simulator (\<^verbatim>\<open>core/src/simulator.cpp\<close>): the hash of the whole state, the summary of a run, the
  observations handed to the agents, and the step itself.
\<close>

subsection \<open>The hash of the state\<close>

definition option_items :: "u64 option \<Rightarrow> hash_item list" where
  "option_items x = [HB (x \<noteq> None), HU (case x of None \<Rightarrow> 0 | Some v \<Rightarrow> v)]"

definition vehicle_items :: "vehicle \<Rightarrow> hash_item list" where
  "vehicle_items v =
     [HT (vh_id v), HT (vp_kind (vh_spec v)), HS (vh_x v), HS (vh_y v), HS (vh_vx v), HS (vh_vy v), HS (vh_energy v),
      HS (vh_capacity v), HS (vh_speed v), HS (vh_payload v), HB (vh_active v)]
     @ option_items (vh_failure v)
     @ [HB (vh_announced v), HU (of_int (behavior_num (vh_mode v))), HU (vh_route v)]"

definition task_items :: "task \<Rightarrow> hash_item list" where
  "task_items t =
     [HT (tk_id t), HB (tk_released t), HU (of_nat (status_num (tk_status t))), HT (tk_agent t), HU (tk_epoch t),
      HU (tk_version t), HS (tk_score t), HU (ucast (tk_position t)), HU (tk_progress t), HU (tk_completion t)]"

definition reservation_items :: "reservation \<Rightarrow> hash_item list" where
  "reservation_items r =
     [HT (rv_resource r), HT (rv_agent r), HU (rv_start r), HU (rv_end r), HU (rv_version r), HU (rv_route r),
      HU (rv_map r)]"

definition counted :: "('a \<Rightarrow> hash_item list) \<Rightarrow> 'a list \<Rightarrow> hash_item list" where
  "counted f xs = HU (of_nat (length xs)) # concat (map f xs)"

definition monitor_items :: "monitor \<Rightarrow> hash_item list" where
  "monitor_items m =
     [HT (mo_detector m), HT (mo_failed m), HU (mo_failure m), HU (mo_missed m)] @ option_items (mo_detection m)"

definition state_items :: "serializer \<Rightarrow> sim \<Rightarrow> hash_item list" where
  "state_items ser s =
     [HU (si_tick s), HT (si_profile s), HU (si_epoch s), HU (wd_map_version (si_world s))]
     @ concat (map (\<lambda>r. [HT (rg_id r), HB (rg_closed r)]) (wd_regions (si_world s)))
     @ concat (map vehicle_items (si_vehicles s))
     @ concat (map task_items (si_tasks s))
     @ [HU (si_wait s), HU (si_replan s), HU (si_recharge s), HU (si_return s), HU (si_distance s), HU (si_energy s),
        HU (si_rejected s), HU (tb_conflicts (si_table s))]
     @ counted reservation_items (tb_committed (si_table s))
     @ counted reservation_items (tb_seen (si_table s))
     @ net_items ser (si_net s)
     @ [HB (si_cv_open s), HU (si_cv_start s), HU (si_cv_candidate s), HU (ucast (si_cv_stable s)),
        HT (si_cv_signature s)]
     @ counted (\<lambda>v. [HT (ser (P_State v))]) (si_views s)
     @ counted (\<lambda>c. [HU (cv_epoch c), HU (cv_start c), HU (cv_end c), HB (cv_complete c)]) (si_convergence s)
     @ counted monitor_items (si_monitors s)
     @ counted (\<lambda>d. [HT (ser (P_Detection d))]) (si_detections s)
     @ counted (\<lambda>r. [HT (ser (P_Reassignment r))]) (si_reassignments s)
     @ counted (\<lambda>r. [HT (ser (P_Sample r))]) (si_samples s)
     @ concat (map (\<lambda>(name, st). [HT name, HU st]) (rt_entries (si_rng s)))
     @ concat (map (\<lambda>m. [HT (nm_sender m), HT (nm_recipient m), HU (nm_version m), HT (nm_payload m)]) (si_delivered s))
     @ counted (\<lambda>r. [HT (ser (P_Outcome r))]) (si_outcomes s)"

definition compute_state_hash :: "serializer \<Rightarrow> sim \<Rightarrow> string" where
  "compute_state_hash ser s = hb_finish (absorb_all (state_items ser s) hash_init)"

subsection \<open>The summary\<close>

definition reassignment_delay :: "sim \<Rightarrow> reassignment \<Rightarrow> u64" where
  "reassignment_delay s r = (ra_commit_tick r - ra_detection_tick r) * sc_step_ms (si_scenario s)"

definition summarize :: "sim \<Rightarrow> summary" where
  "summarize s =
     (let completed = length (filter (\<lambda>t. tk_status t = TS_Completed) (si_tasks s))
      in \<lparr>sm_success = (completed = length (si_tasks s)), sm_ticks = si_tick s, sm_hash = si_hash s,
          sm_tick_hashes = si_tick_hashes s, sm_completed = of_nat completed,
          sm_total = of_nat (length (si_tasks s)), sm_active = of_nat (length (filter vh_active (si_vehicles s))),
          sm_wait = si_wait s, sm_replan = si_replan s, sm_recharge = si_recharge s, sm_return = si_return s,
          sm_conflicts = tb_conflicts (si_table s), sm_distance = si_distance s, sm_energy = si_energy s,
          sm_rejected = si_rejected s, sm_bytes = nt_bytes (si_net s), sm_messages = nt_messages (si_net s),
          sm_delivered = nt_delivered (si_net s), sm_dropped = nt_dropped (si_net s),
          sm_reordered = nt_reordered (si_net s),
          sm_convergence = si_convergence s
            @ (if si_cv_open s then [\<lparr>cv_epoch = si_epoch s, cv_start = si_cv_start s, cv_end = si_tick s,
                                      cv_complete = False\<rparr>] else []),
          sm_detections = si_detections s, sm_reassignments = si_reassignments s, sm_samples = si_samples s,
          sm_max_delay = foldl (\<lambda>m r. if ra_complete r then max m (reassignment_delay s r) else m) 0
                           (si_reassignments s),
          sm_missing = of_nat (length (filter (\<lambda>r. \<not> ra_complete r) (si_reassignments s))),
          sm_energy_ok = (si_bad_energy s = 0), sm_energy_violations = si_bad_energy s,
          sm_overlap_ok = (si_bad_overlap s = 0), sm_overlap_violations = si_bad_overlap s,
          sm_completed_ok = (si_bad_completed s = 0), sm_completed_violations = si_bad_completed s,
          sm_capable_ok = (si_bad_capable s = 0), sm_capable_violations = si_bad_capable s\<rparr>)"

subsection \<open>Observations\<close>

definition detected :: "sim \<Rightarrow> string \<Rightarrow> string \<Rightarrow> bool" where
  "detected s self agent =
     list_ex (\<lambda>m. mo_detector m = self \<and> mo_failed m = agent \<and> mo_detection m \<noteq> None) (si_monitors s)"

text \<open>The peers a vehicle may talk to.\<close>

definition reachable_peer :: "sim \<Rightarrow> string \<Rightarrow> string list \<Rightarrow> vehicle \<Rightarrow> string list result" where
  "reachable_peer s self ks peer =
     (if vh_id peer = self then Inr (ks @ [vh_id peer])
      else bindR (link_blocked self (vh_id peer) (si_net s)) (\<lambda>blocked.
        Inr (if \<not> blocked \<and> \<not> detected s self (vh_id peer) then ks @ [vh_id peer] else ks)))"

definition project_owner :: "sim \<Rightarrow> nat \<Rightarrow> string \<Rightarrow> task \<Rightarrow> task_state \<Rightarrow> task_state" where
  "project_owner s index self t view =
     (let cleared = view\<lparr>ts_agent := [], ts_epoch := 0, ts_version := 0, ts_score := 0, ts_position := 0\<rparr>
      in case find_by cm_task (as_owners (si_views s ! index)) (tk_id t) of
           None \<Rightarrow> cleared
         | Some c \<Rightarrow>
             if cm_agent c \<noteq> self \<and> \<not> detected s self (cm_agent c)
             then cleared\<lparr>ts_agent := cm_agent c, ts_epoch := cm_epoch c, ts_version := cm_version c,
                          ts_score := cm_score c, ts_position := cm_position c\<rparr>
             else cleared)"

text \<open>A task as one vehicle sees it: the owner of another's task is what the vehicle's own allocation view says.\<close>

definition project_task :: "sim \<Rightarrow> nat \<Rightarrow> string \<Rightarrow> task \<Rightarrow> task_state" where
  "project_task s index self t =
     (let view = (if tk_agent t \<noteq> self then (task_view t)\<lparr>ts_progress := 0\<rparr> else task_view t)
      in if sc_policy (si_scenario s) \<noteq> AP_Scripted \<and> tk_agent t \<noteq> self then project_owner s index self t view
         else view)"

definition observe_vehicle :: "sim \<Rightarrow> nat \<Rightarrow> vehicle \<Rightarrow> envelope result" where
  "observe_vehicle s index v =
     (let self = vh_id v;
          visible = filter (\<lambda>t. tk_released t \<and> tk_status t = TS_Pending) (si_tasks s);
          projected = map (\<lambda>t. (t, project_task s index self t)) visible
      in bindR (foldR (reachable_peer s self) [] (si_vehicles s)) (\<lambda>reachable.
         Inr \<lparr>en_schema = 1, en_sequence = si_tick s * of_nat (length (si_vehicles s)) + of_nat index + 1,
              en_time_ms = si_tick s * sc_step_ms (si_scenario s), en_sender = ''sim'', en_recipient = self,
              en_body = Body_observation
                \<lparr>ob_tick = si_tick s, ob_step_ms = sc_step_ms (si_scenario s), ob_self = vehicle_view v,
                 ob_assigned = map (\<lambda>(t, p). task_view t) (filter (\<lambda>(t, p). tk_agent t = self) projected),
                 ob_delivered = filter (\<lambda>m. nm_recipient m = self) (si_delivered s),
                 ob_world = si_world s,
                 ob_available = map snd (filter (\<lambda>(t, p). tk_agent t \<noteq> self \<and> ts_agent p = []) projected),
                 ob_peers = map vh_id (si_vehicles s), ob_epoch = si_epoch s,
                 ob_policy = sc_policy (si_scenario s), ob_known = map snd projected, ob_profile = si_profile s,
                 ob_detections =
                   (if vh_active v
                    then concat (map (\<lambda>m. case mo_detection m of None \<Rightarrow> []
                           | Some d \<Rightarrow> if mo_detector m = self
                               then [\<lparr>fd_failed = mo_failed m, fd_detector = mo_detector m,
                                      fd_failure_tick = mo_failure m, fd_detection_tick = d\<rparr>] else [])
                           (si_monitors s))
                    else []),
                 ob_reservations =
                   map copy_reservation (filter (\<lambda>r. rv_agent r = self) (tb_committed (si_table s))),
                 ob_reachable = reachable\<rparr>\<rparr>))"

definition observe :: "sim \<Rightarrow> observation_batch result" where
  "observe s =
     bindR (mapiR (observe_vehicle s) 0 (si_vehicles s)) (\<lambda>es.
       Inr \<lparr>bt_tick = si_tick s, bt_observations = es, bt_finished = finished s,
            bt_summary = (if finished s then Some (summarize s) else None)\<rparr>)"

subsection \<open>Steps\<close>

definition new_simulator :: "serializer \<Rightarrow> scenario \<Rightarrow> sim result" where
  "new_simulator ser raw = bindR (build_sim raw) (\<lambda>s. Inr (s\<lparr>si_hash := compute_state_hash ser s\<rparr>))"

definition fenced :: "applied_event list \<Rightarrow> bool" where
  "fenced applied = list_ex (\<lambda>e. ev_kind (ae_source e) = EK_Set_Link_Blocked) applied"

text \<open>The step from the end of the tape events on.\<close>

definition run_phases :: "serializer \<Rightarrow> action_batch \<Rightarrow> bool \<Rightarrow> sim \<times> net_outcome list \<Rightarrow> (sim \<times> net_outcome list) result" where
  "run_phases ser acts fence = (\<lambda>(s1, outs).
     bindR (apply_actions ser acts outs fence s1) (\<lambda>(s2, outs').
     bindR (update_failure_monitors s2) (\<lambda>s3.
       let sorted_outs = sort_key outcome_key outs';
           s4 = s3\<lparr>si_outcomes := sorted_outs, si_tick := si_tick s3 + 1\<rparr>
       in bindR (update_tasks acts s4) (\<lambda>s5.
          bindR (update_convergence ser s5) (\<lambda>s6. Inr (s6, sorted_outs))))))"

definition step_internal ::
    "serializer \<Rightarrow> action_batch \<Rightarrow> applied_event list option \<Rightarrow> sim \<Rightarrow> (sim \<times> step_outcome) result" where
  "step_internal ser actions recorded s =
     (if finished s then Inl (Logic_error ''simulation has already finished'')
      else
        bindR (canonicalize_actions ser s actions) (\<lambda>acts.
        bindR (apply_events ser recorded s) (\<lambda>(applied, s1, outs).
        bindR (run_phases ser acts (fenced applied) (s1, outs)) (\<lambda>(s2, sorted_outs).
          let hash = compute_state_hash ser s2;
              s3 = s2\<lparr>si_hash := hash, si_tick_hashes := si_tick_hashes s2 @ [hash]\<rparr>
          in bindR (observe s3) (\<lambda>batch.
               Inr (s3, \<lparr>so_actions = acts, so_applied = applied, so_network = sorted_outs,
                         so_observations = batch\<rparr>))))))"

definition step :: "serializer \<Rightarrow> action_batch \<Rightarrow> sim \<Rightarrow> (sim \<times> step_outcome) result" where
  "step ser actions s = step_internal ser actions None s"

definition replay_step ::
    "serializer \<Rightarrow> action_batch \<Rightarrow> applied_event list \<Rightarrow> sim \<Rightarrow> (sim \<times> step_outcome) result" where
  "replay_step ser actions recorded s = step_internal ser actions (Some recorded) s"

end
