(* ===== verification/Scenario_Laws.thy ===== *)
theory Scenario_Laws
  imports Scenario
begin

text \<open>
  What loading a scenario establishes: one canonical form whatever the order of the file, identifiers that the
  lookups by binary search may rely on, and bounds that keep the simulator's signed arithmetic in range.
\<close>

subsection \<open>Canonical form\<close>

lemma sort_key_perm:
  assumes "mset xs = mset ys" and "distinct (map key xs)"
  shows "sort_key key xs = sort_key key ys"
proof (rule properties_for_sort_key)
  show "mset (sort_key key ys) = mset xs" using assms(1) by simp
  show "sorted (map key (sort_key key ys))" by simp
  fix k assume "k \<in> set (sort_key key ys)"
  have d: "distinct (map key zs)" if "mset zs = mset xs" for zs
    using assms(2) that by (metis mset_eq_imp_distinct_iff mset_map)
  have one: "filter (\<lambda>x. key k = key x) zs = [x \<leftarrow> [k]. x \<in> set zs]" if "distinct (map key zs)" "k \<in> set zs" for zs
    using that by (induction zs) (auto simp: filter_empty_conv image_iff)
  have mem: "k \<in> set xs" using \<open>k \<in> set (sort_key key ys)\<close> assms(1) by (metis set_mset_mset set_sort)
  show "filter (\<lambda>x. key k = key x) (sort_key key ys) = filter (\<lambda>x. key k = key x) xs"
    using one [OF d, of "sort_key key ys"] one [OF d, of xs] assms(1) mem by (simp flip: set_mset_mset)
qed

lemma mset_nil: "mset xs = mset ys \<Longrightarrow> xs = [] \<longleftrightarrow> ys = []"
  by (metis mset_zero_iff)

lemma capability_num_inj:
  "valid_capability a \<Longrightarrow> valid_capability b \<Longrightarrow> capability_num a = capability_num b \<Longrightarrow> a = b"
  by (auto simp: valid_capability_def)

lemma normalize_world_idem: "normalize_world (normalize_world w) = normalize_world w"
  by (simp add: normalize_world_def)

lemma sort_vehicle_lists_id: "vp_id (sort_vehicle_lists v) = vp_id v"
  by (simp add: sort_vehicle_lists_def)

lemma sort_vehicle_lists_idem: "sort_vehicle_lists (sort_vehicle_lists v) = sort_vehicle_lists v"
  by (simp add: sort_vehicle_lists_def sort_key_id)

lemma default_priority_id: "tp_id (default_priority t) = tp_id t"
  by (simp add: default_priority_def)

lemma default_priority_idem: "default_priority (default_priority t) = default_priority t"
  by (simp add: default_priority_def)

lemma sort_key_map_same:
  assumes "\<And>x. key (f x) = key x"
  shows "sort_key key (map f (sort_key key xs)) = map f (sort_key key xs)"
  by (rule sort_key_id) (simp add: comp_def assms)

lemma sort_key_map_commute:
  assumes "\<And>x. key (f x) = key x"
  shows "map f (sort_key key xs) = sort_key key (map f xs)"
proof -
  have "map f (insort_key key x ys) = insort_key key (f x) (map f ys)" for x ys
    by (induction ys) (simp_all add: assms)
  then show ?thesis by (induction xs) simp_all
qed

subsection \<open>What validation checks\<close>

lemma each_eq: "each f xs = Inr u \<longleftrightarrow> (\<forall>x \<in> set xs. f x = Inr ())"
  unfolding each_def by (induction xs) auto

lemma validate_point_eq: "validate_point s p = Inr u \<longleftrightarrow> in_world (sc_world s) p"
  by (simp add: validate_point_def)

lemma check_region_eq:
  "check_region s r = Inr u \<longleftrightarrow> valid_id (rg_id r) \<and> valid_region_kind (rg_kind r)
     \<and> px (rg_min r) < px (rg_max r) \<and> py (rg_min r) < py (rg_max r)
     \<and> rg_mult r \<noteq> 0 \<and> rg_mult r \<le> max_multiplier \<and> (rg_kind r = RK_Terrain \<longrightarrow> valid_id (rg_terrain r))
     \<and> in_world (sc_world s) (rg_min r) \<and> in_world (sc_world s) (rg_max r)"
  by (auto simp: check_region_def validate_point_eq not_le)

lemma check_location_eq:
  "check_location s l = Inr u \<longleftrightarrow> valid_id (lc_id l) \<and> valid_location_kind (lc_kind l)
     \<and> 0 \<le> lc_radius l \<and> lc_radius l \<le> max_world_mm \<and> 0 \<le> lc_charge l \<and> lc_charge l \<le> max_energy_mj
     \<and> (lc_kind l = LK_Charging \<longrightarrow> lc_charge l \<noteq> 0) \<and> (lc_kind l = LK_Return \<longrightarrow> lc_charge l = 0)
     \<and> in_world (sc_world s) (lc_pos l) \<and> grid_aligned s (lc_pos l)"
  by (auto simp: check_location_def validate_point_eq not_less)

lemma check_vehicle_eq:
  "check_vehicle s v = Inr u \<longleftrightarrow> valid_id (vp_id v) \<and> vp_kind v \<noteq> [] \<and> 0 < vp_speed v \<and> vp_speed v \<le> max_speed_mm_s
     \<and> 0 < vp_energy v \<and> vp_energy v \<le> max_energy_mj \<and> 0 \<le> vp_cost v \<and> vp_cost v \<le> max_energy_cost
     \<and> 0 \<le> vp_payload v \<and> vp_payload v \<le> max_payload_grams \<and> vp_caps v \<noteq> [] \<and> vp_terrain v \<noteq> []
     \<and> list_all valid_capability (vp_caps v) \<and> list_all valid_id (vp_terrain v)
     \<and> \<not> adjacent_dup id (vp_caps v) \<and> \<not> adjacent_dup id (vp_terrain v)
     \<and> in_world (sc_world s) (vp_pos v) \<and> grid_aligned s (vp_pos v)
     \<and> (vp_return v \<noteq> [] \<longrightarrow> (\<exists>l. location_by_id s (vp_return v) = Some l \<and> lc_kind l = LK_Return))"
  by (auto simp: check_vehicle_def validate_point_eq not_less not_le split: option.splits)

lemma check_assignment_capable:
  "check_assignment s t = Inr u \<Longrightarrow>
     \<exists>v \<in> set (sc_vehicles s). can_carry v t \<and> (tp_agent t \<noteq> [] \<longrightarrow> vp_id v = tp_agent t)"
  by (auto simp: check_assignment_def vehicle_by_id_def list_ex_iff split: if_splits option.splits dest: find_by_SomeD)

text \<open>The division in \<open>check_task\<close> bounds the energy of the whole service.\<close>

lemma service_energy_total:
  assumes "tp_service t \<le> max_ticks" and "0 \<le> tp_service_energy t"
    and "tp_service t \<noteq> 0 \<longrightarrow> tp_service_energy t \<le> max_energy_mj sdiv to_i64 (tp_service t)"
  shows "int (unat (tp_service t)) * tp_service_energy t \<le> max_energy_mj"
proof (cases "tp_service t = 0")
  case True
  then show ?thesis by (simp add: max_energy_mj_def)
next
  case False
  have small: "unat (tp_service t) \<le> 10000000"
    using assms(1) by (simp add: max_ticks_def word_le_nat_alt)
  have eq: "to_i64 (tp_service t) = int (unat (tp_service t))"
  proof -
    have u: "uint (tp_service t) = int (unat (tp_service t))" by (rule uint_nat)
    have "int (unat (tp_service t)) \<le> int 10000000" using small by (simp only: of_nat_le_iff)
    also have "\<dots> < 2 ^ 63" by simp
    finally show ?thesis unfolding to_i64_def by (subst sint_small) (simp_all only: u)
  qed
  define k where "k = int (unat (tp_service t))"
  have pos: "0 < k" unfolding k_def of_nat_0_less_iff unat_gt_0 by (rule False)
  have "tp_service_energy t \<le> max_energy_mj div k"
    using assms(3) False pos sdiv_div [of max_energy_mj k] unfolding eq k_def [symmetric] by (simp add: max_energy_mj_def)
  then have "k * tp_service_energy t \<le> k * (max_energy_mj div k)" using pos by (intro mult_left_mono) simp_all
  also have "\<dots> = max_energy_mj - max_energy_mj mod k" by (simp add: minus_mod_eq_mult_div)
  also have "\<dots> \<le> max_energy_mj" using pos by simp
  finally show ?thesis unfolding k_def .
qed

subsection \<open>The bound on energy\<close>

text \<open>What the events can add to a vehicle at most.\<close>

definition energy_gain :: "string \<Rightarrow> tape_event \<Rightarrow> i64" where
  "energy_gain k e = (if ev_kind e = EK_Energy_Delta \<and> ev_max e > 0 \<and> ev_target e = k then ev_max e else 0)"

lemma vehicle_exists_index:
  assumes "strictly_sorted vp_id (sc_vehicles s)" and "vehicle_exists s k"
  obtains i where "i < length (sc_vehicles s)" "vp_id (sc_vehicles s ! i) = k"
    "lower_bound vp_id (sc_vehicles s) k = i"
proof -
  from assms(2) obtain i where "i < length (sc_vehicles s)" "vp_id (sc_vehicles s ! i) = k"
    by (auto simp: vehicle_exists_def list_ex_iff in_set_conv_nth)
  with lower_bound_nth [OF assms(1)] that show ?thesis by blast
qed

lemma check_event_energy:
  assumes "check_event s m e = Inr m'"
  shows "(ev_kind e = EK_Energy_Delta \<longrightarrow> vehicle_exists s (ev_target e))
    \<and> m' = (if ev_kind e = EK_Energy_Delta \<and> ev_max e > 0
        then m[lower_bound vp_id (sc_vehicles s) (ev_target e) := m ! lower_bound vp_id (sc_vehicles s) (ev_target e) + ev_max e]
        else m)
    \<and> (ev_kind e = EK_Energy_Delta \<and> ev_max e > 0 \<longrightarrow>
        m ! lower_bound vp_id (sc_vehicles s) (ev_target e) + ev_max e \<le> max_energy_mj)"
proof -
  from assms obtain m1 where vehicle: "ev_kind e = EK_Energy_Delta \<longrightarrow> vehicle_exists s (ev_target e)"
    and m1: "(if ev_kind e = EK_Energy_Delta \<and> ev_max e > 0
            then let index = lower_bound vp_id (sc_vehicles s) (ev_target e)
                 in if m ! index > max_energy_mj - ev_max e
                    then Inl (invalid ''energy events exceed numeric bounds'')
                    else Inr (m[index := m ! index + ev_max e])
            else Inr m) = Inr m1" and "m1 = m'"
    unfolding check_event_def bindR_eq_Inr require_eq_Inr by blast
  with m1 vehicle show ?thesis
    by (cases "ev_kind e = EK_Energy_Delta \<and> ev_max e > 0") (auto simp: Let_def split: if_split_asm)
qed

lemma check_events_energy:
  assumes "foldR (check_event s) m es = Inr m'" and "strictly_sorted vp_id (sc_vehicles s)"
    and "length m = length (sc_vehicles s)" and "i < length m" and "m ! i \<le> max_energy_mj"
  shows "m' ! i = m ! i + (\<Sum>e\<leftarrow>es. energy_gain (vp_id (sc_vehicles s ! i)) e) \<and> m' ! i \<le> max_energy_mj"
  using assms(1,3-5)
proof (induction es arbitrary: m)
  case Nil
  then show ?case by simp
next
  case (Cons e es)
  from Cons.prems(1) obtain m1 where e: "check_event s m e = Inr m1" and rest: "foldR (check_event s) m1 es = Inr m'"
    by auto
  note step = check_event_energy [OF e]
  have one: "length m1 = length m \<and> m1 ! i = m ! i + energy_gain (vp_id (sc_vehicles s ! i)) e \<and> m1 ! i \<le> max_energy_mj"
  proof (cases "ev_kind e = EK_Energy_Delta \<and> ev_max e > 0")
    case False
    with step have "m1 = m" by simp
    with False Cons.prems show ?thesis by (auto simp: energy_gain_def)
  next
    case True
    with step have "vehicle_exists s (ev_target e)" by simp
    then obtain j where j: "j < length (sc_vehicles s)" "vp_id (sc_vehicles s ! j) = ev_target e"
      "lower_bound vp_id (sc_vehicles s) (ev_target e) = j" by (rule vehicle_exists_index [OF assms(2)])
    have m1: "m1 = m[j := m ! j + ev_max e]" and fits: "m ! j + ev_max e \<le> max_energy_mj"
      using step True j(3) by simp_all
    have same: "vp_id (sc_vehicles s ! i) = ev_target e \<longleftrightarrow> i = j"
      using lower_bound_nth [OF assms(2), of i] j Cons.prems(2,3) by auto
    show ?thesis using m1 fits same True Cons.prems(2-4) j(1) by (auto simp: energy_gain_def)
  qed
  with Cons.IH [OF rest] Cons.prems show ?case by simp
qed

subsection \<open>An admitted scenario\<close>

text \<open>What the rest of the program relies on.\<close>

definition canonical :: "scenario \<Rightarrow> bool" where
  "canonical s \<longleftrightarrow> strictly_sorted vp_id (sc_vehicles s) \<and> strictly_sorted tp_id (sc_tasks s)
     \<and> strictly_sorted rg_id (wd_regions (sc_world s)) \<and> strictly_sorted lc_id (wd_locations (sc_world s))
     \<and> strictly_sorted np_id (sc_profiles s) \<and> sorted (map event_key (sc_events s)) \<and> distinct (map ev_id (sc_events s))"

definition bounded :: "scenario \<Rightarrow> bool" where
  "bounded s \<longleftrightarrow> 0 < sc_step_ms s \<and> sc_step_ms s \<le> max_step_ms \<and> 0 < sc_max_ticks s \<and> sc_max_ticks s \<le> max_ticks
     \<and> 0 < wd_cell (sc_world s) \<and> 0 < wd_width (sc_world s) \<and> wd_width (sc_world s) \<le> max_world_mm
     \<and> 0 < wd_height (sc_world s) \<and> wd_height (sc_world s) \<le> max_world_mm
     \<and> (wd_width (sc_world s) div wd_cell (sc_world s) + 1) * (wd_height (sc_world s) div wd_cell (sc_world s) + 1)
         \<le> max_grid_cells
     \<and> 0 < sc_detect_ticks s
     \<and> 3 \<le> length (sc_vehicles s) \<and> length (sc_vehicles s) \<le> 5"

definition vehicle_bounded :: "scenario \<Rightarrow> vehicle_spec \<Rightarrow> bool" where
  "vehicle_bounded s v \<longleftrightarrow> vp_id v \<noteq> [] \<and> 0 < vp_speed v \<and> vp_speed v \<le> max_speed_mm_s \<and> 0 < vp_energy v
     \<and> 0 \<le> vp_cost v \<and> vp_cost v \<le> max_energy_cost \<and> 0 \<le> vp_payload v \<and> in_world (sc_world s) (vp_pos v)
     \<and> vp_energy v + (\<Sum>e\<leftarrow>sc_events s. energy_gain (vp_id v) e) \<le> max_energy_mj"

definition task_bounded :: "scenario \<Rightarrow> task_spec \<Rightarrow> bool" where
  "task_bounded s t \<longleftrightarrow> 0 \<le> tp_payload t \<and> 0 < tp_deadline t \<and> tp_deadline t \<le> sc_max_ticks s \<and> 0 \<le> tp_radius t
     \<and> in_world (sc_world s) (tp_target t) \<and> 0 \<le> tp_service_energy t
     \<and> int (unat (tp_service t)) * tp_service_energy t \<le> max_energy_mj
     \<and> (\<exists>v \<in> set (sc_vehicles s). can_carry v t \<and> (tp_agent t \<noteq> [] \<longrightarrow> vp_id v = tp_agent t))"

definition scenario_ok :: "scenario \<Rightarrow> bool" where
  "scenario_ok s \<longleftrightarrow> canonical s \<and> bounded s
     \<and> list_all (vehicle_bounded s) (sc_vehicles s) \<and> list_all (task_bounded s) (sc_tasks s)
     \<and> list_all (\<lambda>r. check_region s r = Inr ()) (wd_regions (sc_world s))
     \<and> list_all (\<lambda>l. check_location s l = Inr ()) (wd_locations (sc_world s))"

lemma strictly_sorted_map:
  "(\<And>x. key (f x) = key x) \<Longrightarrow> strictly_sorted key (map f xs) \<longleftrightarrow> strictly_sorted key xs"
  by (simp add: comp_def)

lemma normalize_sorted:
  "sorted (map rg_id (wd_regions (sc_world (normalize_scenario s))))"
  "sorted (map lc_id (wd_locations (sc_world (normalize_scenario s))))"
  "sorted (map np_id (sc_profiles (normalize_scenario s)))"
  "sorted (map vp_id (sc_vehicles (normalize_scenario s)))"
  "sorted (map tp_id (sc_tasks (normalize_scenario s)))"
  "sorted (map event_key (sc_events (normalize_scenario s)))"
  by (simp_all add: normalize_scenario_def normalize_world_def comp_def sort_vehicle_lists_id default_priority_id)

lemma validate_checks:
  assumes "validate_scenario s = Inr u"
  shows "\<not> bad_world s" "\<not> (length (sc_vehicles s) < 3 \<or> length (sc_vehicles s) > 5 \<or> sc_tasks s = [])"
    "\<not> adjacent_dup rg_id (wd_regions (sc_world s))" "\<not> adjacent_dup lc_id (wd_locations (sc_world s))"
    "\<not> adjacent_dup vp_id (sc_vehicles s)" "\<not> adjacent_dup tp_id (sc_tasks s)" "\<not> adjacent_dup np_id (sc_profiles s)"
    "each (check_region s) (wd_regions (sc_world s)) = Inr ()"
    "each (check_location s) (wd_locations (sc_world s)) = Inr ()"
    "each (check_vehicle s) (sc_vehicles s) = Inr ()" "each (check_task s) (sc_tasks s) = Inr ()"
    "\<exists>m. foldR (check_event s) (map vp_energy (sc_vehicles s)) (sc_events s) = Inr m"
    "\<not> adjacent_dup id (sort (map ev_id (sc_events s)))"
  using assms unfolding validate_scenario_def bindR_eq_Inr require_eq_Inr require_unique_def
  by (elim exE conjE; (assumption | simp | blast))+

lemma check_task_bounded:
  assumes "check_task s t = Inr u" and "sc_max_ticks s \<le> max_ticks"
  shows "task_bounded s t"
proof -
  from assms(1) have c: "tp_payload t \<ge> 0" "tp_deadline t \<noteq> 0" "tp_deadline t \<le> sc_max_ticks s" "0 \<le> tp_radius t"
    "tp_service t \<le> sc_max_ticks s" "0 \<le> tp_service_energy t" "in_world (sc_world s) (tp_target t)"
    "tp_service t \<noteq> 0 \<longrightarrow> tp_service_energy t \<le> max_energy_mj sdiv to_i64 (tp_service t)"
    and a: "check_assignment s t = Inr u"
    unfolding check_task_def bindR_eq_Inr require_eq_Inr validate_point_eq by auto
  have "tp_service t \<le> max_ticks" using c(5) assms(2) by (rule order_trans)
  from service_energy_total [OF this c(6,8)] c check_assignment_capable [OF a] show ?thesis
    by (simp add: task_bounded_def word_gt_0)
qed

lemma validated_ok:
  assumes "validate_scenario s = Inr u"
    and sorted: "sorted (map rg_id (wd_regions (sc_world s)))" "sorted (map lc_id (wd_locations (sc_world s)))"
      "sorted (map np_id (sc_profiles s))" "sorted (map vp_id (sc_vehicles s))" "sorted (map tp_id (sc_tasks s))"
      "sorted (map event_key (sc_events s))"
  shows "scenario_ok s"
proof -
  note v = validate_checks [OF assms(1)]
  have "distinct (map ev_id (sc_events s))"
    using v(13) adjacent_dup_sorted [of id "sort (map ev_id (sc_events s))"] by (simp add: strict_sorted_iff)
  then have canonical: "canonical s"
    using v(3-7) sorted by (simp add: canonical_def adjacent_dup_sorted)
  have b: "bounded s" using v(1,2)
    by (auto simp: bounded_def bad_world_def Let_def not_less not_le word_gt_0 sdiv_div)
  have energy: "vp_energy w + (\<Sum>e\<leftarrow>sc_events s. energy_gain (vp_id w) e) \<le> max_energy_mj"
    if "w \<in> set (sc_vehicles s)" for w
  proof -
    from v(12) obtain m where run: "foldR (check_event s) (map vp_energy (sc_vehicles s)) (sc_events s) = Inr m" by blast
    from that obtain i where i: "i < length (sc_vehicles s)" "sc_vehicles s ! i = w" by (auto simp: in_set_conv_nth)
    have "vp_energy w \<le> max_energy_mj" using v(10) that by (simp add: each_eq check_vehicle_eq)
    with check_events_energy [OF run _ _, of i] canonical i show ?thesis by (simp add: canonical_def)
  qed
  have vs: "list_all (vehicle_bounded s) (sc_vehicles s)"
    using v(10) energy by (auto simp: list_all_iff vehicle_bounded_def each_eq check_vehicle_eq valid_id_def)
  have ts: "list_all (task_bounded s) (sc_tasks s)"
    using v(11) b by (auto simp: list_all_iff each_eq bounded_def intro: check_task_bounded)
  show ?thesis using canonical b vs ts v(8,9) by (simp add: scenario_ok_def list_all_iff each_eq)
qed

lemma loaded_ok: "validate_scenario (normalize_scenario s) = Inr u \<Longrightarrow> scenario_ok (normalize_scenario s)"
  by (rule validated_ok [OF _ normalize_sorted])

subsection \<open>Properties\<close>

lemma normalize_idem: "normalize_scenario (normalize_scenario s) = normalize_scenario s"
proof -
  have "0 < (if n = 0 then min 5 m else n) \<or> m = 0" for n m :: u64 by (simp add: word_gt_0 min_def)
  then show ?thesis
    by (auto simp: normalize_scenario_def normalize_world_idem sort_key_map_same sort_vehicle_lists_id
        sort_vehicle_lists_idem default_priority_id default_priority_idem comp_def min_def)
qed

text \<open>Normalisation is idempotent, so a scenario and its normalised form have the same hash.\<close>

theorem normalize_idempotent:
  "normalize_scenario (normalize_scenario s) = normalize_scenario s
   \<and> scenario_hash serialize (normalize_scenario s) = scenario_hash serialize s"
  by (simp add: normalize_idem scenario_hash_def)

text \<open>The order in which a scenario file declares its parts does not matter. Two scenarios with the same vehicles
  (up to the order of their capabilities and terrains), tasks, events, profiles, regions and locations, in any order and
  without equal identifiers, have the same normal form and the same hash.\<close>

theorem normalize_order_irrelevant:
  assumes "b = a\<lparr>sc_vehicles := vs, sc_tasks := ts, sc_events := es, sc_profiles := ps,
      sc_world := (sc_world a)\<lparr>wd_regions := rs, wd_locations := ls\<rparr>\<rparr>"
    and "mset (map sort_vehicle_lists vs) = mset (map sort_vehicle_lists (sc_vehicles a))" "distinct (map vp_id vs)"
    and "mset ts = mset (sc_tasks a)" "distinct (map tp_id ts)"
    and "mset es = mset (sc_events a)" "distinct (map event_key es)"
    and "mset ps = mset (sc_profiles a)" "distinct (map np_id ps)"
    and "mset rs = mset (wd_regions (sc_world a))" "distinct (map rg_id rs)"
    and "mset ls = mset (wd_locations (sc_world a))" "distinct (map lc_id ls)"
  shows "normalize_scenario b = normalize_scenario a \<and> scenario_hash serialize b = scenario_hash serialize a"
proof -
  have swap: "map sort_vehicle_lists (sort_key vp_id us) = sort_key vp_id (map sort_vehicle_lists us)" for us
    by (rule sort_key_map_commute) (rule sort_vehicle_lists_id)
  have vehicles: "sort_key vp_id (map sort_vehicle_lists vs) = sort_key vp_id (map sort_vehicle_lists (sc_vehicles a))"
    by (rule sort_key_perm [OF assms(2)]) (simp add: comp_def sort_vehicle_lists_id assms(3))
  have "normalize_scenario b = normalize_scenario a"
    unfolding assms(1) normalize_scenario_def normalize_world_def swap
    using vehicles sort_key_perm [OF assms(4,5)] sort_key_perm [OF assms(6,7)] sort_key_perm [OF assms(8,9)]
      sort_key_perm [OF assms(10,11)] sort_key_perm [OF assms(12,13)] by simp
  then show ?thesis by (simp add: scenario_hash_def)
qed

definition demo_spec :: "string \<Rightarrow> string \<Rightarrow> vehicle_spec" where
  "demo_spec k kind = \<lparr>vp_id = k, vp_kind = kind, vp_pos = \<lparr>px = 0, py = 0\<rparr>, vp_speed = 100, vp_energy = 50, vp_cost = 1,
     vp_payload = 3, vp_caps = [Cap_Search, Cap_Delivery], vp_terrain = [''road''], vp_return = []\<rparr>"

definition demo_task_spec :: task_spec where
  "demo_task_spec = \<lparr>tp_id = ''t'', tp_kind = ''look'', tp_target = \<lparr>px = 4, py = 2\<rparr>, tp_cap = Cap_Search, tp_payload = 1,
     tp_deadline = 9, tp_radius = 0, tp_agent = ''b'', tp_released = True, tp_service = 2, tp_service_energy = 3,
     tp_priority = 0\<rparr>"

definition demo_event :: tape_event where
  "demo_event = \<lparr>ev_id = ''e'', ev_tick = 1, ev_kind = EK_Energy_Delta, ev_target = ''b'', ev_min = - 2, ev_max = 5,
     ev_stream = ''w'', ev_text = [], ev_bool = False\<rparr>"

definition demo_scenario :: scenario where
  "demo_scenario = \<lparr>sc_schema = 1, sc_name = ''s'', sc_seed = 7, sc_step_ms = 100, sc_max_ticks = 10,
     sc_world = \<lparr>wd_width = 6, wd_height = 4,
       wd_regions = [\<lparr>rg_id = ''gate'', rg_kind = RK_Chokepoint, rg_min = \<lparr>px = 2, py = 0\<rparr>, rg_max = \<lparr>px = 3, py = 2\<rparr>,
         rg_terrain = [], rg_mult = 1000, rg_closed = False\<rparr>], wd_cell = 2, wd_map_version = 0, wd_locations = []\<rparr>,
     sc_vehicles = [demo_spec ''c'' ''rover'', demo_spec ''a'' ''drone'', demo_spec ''b'' ''rover''],
     sc_tasks = [demo_task_spec], sc_events = [demo_event], sc_profile = ''lan'', sc_policy = AP_Unspecified,
     sc_profiles = [], sc_detect_ticks = 0\<rparr>"

theorem normalize_order_irrelevant_witness:
  "normalize_scenario (demo_scenario\<lparr>sc_vehicles := [demo_spec ''b'' ''rover'', (demo_spec ''a'' ''drone'')
       \<lparr>vp_caps := [Cap_Delivery, Cap_Search]\<rparr>, demo_spec ''c'' ''rover'']\<rparr>) = normalize_scenario demo_scenario"
proof -
  let ?vs = "[demo_spec ''b'' ''rover'', (demo_spec ''a'' ''drone'')\<lparr>vp_caps := [Cap_Delivery, Cap_Search]\<rparr>,
    demo_spec ''c'' ''rover'']"
  have vehicles: "mset (map sort_vehicle_lists ?vs) = mset (map sort_vehicle_lists (sc_vehicles demo_scenario))"
    by (simp add: demo_scenario_def demo_spec_def sort_vehicle_lists_def add_mset_commute)
  have "normalize_scenario (demo_scenario\<lparr>sc_vehicles := ?vs\<rparr>) = normalize_scenario demo_scenario
    \<and> scenario_hash (\<lambda>_. []) (demo_scenario\<lparr>sc_vehicles := ?vs\<rparr>) = scenario_hash (\<lambda>_. []) demo_scenario"
    by (rule normalize_order_irrelevant [OF _ vehicles _ refl _ refl _ refl _ refl _ refl])
      (simp_all add: demo_scenario_def demo_spec_def)
  then show ?thesis by simp
qed

text \<open>C38: what loading a file guarantees. An admitted scenario is its own normal form; its lists are sorted by
  identifiers that occur once; the grid fits the limit; every vehicle starts inside the world and, with everything the
  events may add, never exceeds the energy limit; every task lies in the world, has a vehicle that can carry it out (its
  assigned one, if any), and its whole service stays within the energy limit.\<close>

theorem load_scenario_ok:
  assumes "load_scenario parse text = Inr s"
  shows "normalize_scenario s = s \<and> scenario_ok s"
  using assms loaded_ok normalize_idem
  by (auto simp: load_scenario_def Let_def split: option.splits)

lemma demo_scenario_loads:
  "(case validate_scenario (normalize_scenario demo_scenario) of Inr u \<Rightarrow> True | _ \<Rightarrow> False)"
  by code_simp

theorem load_scenario_ok_witness:
  "\<exists>s. load_scenario (\<lambda>_. Some demo_scenario) (Some []) = Inr s \<and> scenario_ok s"
proof -
  have "load_scenario (\<lambda>_. Some demo_scenario) (Some []) = Inr (normalize_scenario demo_scenario)"
    using demo_scenario_loads by (auto simp: load_scenario_def split: sum.splits)
  with load_scenario_ok [OF this] show ?thesis by blast
qed

end
