(* ===== verification/Astar_Laws.thy ===== *)
theory Astar_Laws
  imports Astar
begin

text \<open>
  The search ends, and what it returns is a cheapest path. The invariant of the loop: tentative costs are
  costs of real paths along the parents, and every point reached is either still queued at its
  tentative cost or has had all its edges relaxed.
\<close>

subsection \<open>Edges and the heuristic\<close>

definition nodes :: "grid \<Rightarrow> nat" where
  "nodes g = gr_columns g * gr_rows g"

definition grid_ok :: "grid \<Rightarrow> bool" where
  "grid_ok g \<longleftrightarrow> 0 < gr_cell g \<and> 0 < gr_columns g \<and> gr_start g < nodes g \<and> gr_goal g < nodes g
     \<and> gr_goal_x g = gr_goal g mod gr_columns g \<and> gr_goal_y g = gr_goal g div gr_columns g
     \<and> gr_cell g = wd_cell (gr_world g)"

definition edge :: "grid \<Rightarrow> nat \<Rightarrow> nat \<Rightarrow> int \<Rightarrow> bool" where
  "edge g u x c \<longleftrightarrow> (\<exists>d \<in> set directions. \<exists>to. neighbour g u d = Some (x, to, c))"

definition estimate :: "grid \<Rightarrow> nat \<Rightarrow> int" where
  "estimate g u = heuristic g (u mod gr_columns g) (u div gr_columns g)"

lemma sdiv_ge_cell:
  assumes "0 < cell" and "1000 \<le> (m :: u32)"
  shows "cell \<le> (cell * uint m) sdiv 1000"
proof -
  have "1000 \<le> uint m" using assms(2) by (simp add: word_le_def)
  then have "cell * 1000 \<le> cell * uint m" using assms(1) by simp
  then have "cell * 1000 div 1000 \<le> cell * uint m div 1000" by (rule zdiv_mono1) simp
  then show ?thesis using assms(1) by (simp add: sdiv_div)
qed

lemma neighbour_facts:
  assumes "grid_ok g" and "neighbour g u d = Some (x, to, c)" and "d \<in> set directions"
  shows "x < nodes g" and "gr_cell g \<le> c" and "estimate g u \<le> c + estimate g x"
    and "to = cell_point (gr_cell g) (gr_columns g) x"
proof -
  let ?nx = "int (u mod gr_columns g) + fst d" and ?ny = "int (u div gr_columns g) + snd d"
  from assms(2) have b: "0 \<le> ?nx" "0 \<le> ?ny" "?nx < int (gr_columns g)" "?ny < int (gr_rows g)"
    and x: "x = nat ?ny * gr_columns g + nat ?nx" and to: "to = coordinate (?nx * gr_cell g) (?ny * gr_cell g)"
    and c: "c = (gr_cell g * uint (terrain_multiplier (gr_world g) (cell_point (gr_cell g) (gr_columns g) u) to)) sdiv 1000"
    by (auto simp: neighbour_def Let_def split: if_splits)
  have nx: "nat ?nx < gr_columns g" and ny: "nat ?ny < gr_rows g" using b by linarith+
  have "nat ?ny * gr_columns g + nat ?nx < (nat ?ny + 1) * gr_columns g" using nx by simp
  also have "\<dots> \<le> gr_rows g * gr_columns g" using ny by (intro mult_right_mono) simp_all
  finally show "x < nodes g" by (simp add: x nodes_def mult.commute)
  have xm: "x mod gr_columns g = nat ?nx" "x div gr_columns g = nat ?ny" using nx by (simp_all add: x)
  then show "to = cell_point (gr_cell g) (gr_columns g) x"
    using b by (simp add: to cell_point_def)
  have cell: "0 < gr_cell g" using assms(1) by (simp add: grid_ok_def)
  show cc: "gr_cell g \<le> c" unfolding c by (rule sdiv_ge_cell [OF cell terrain_multiplier_ge])
  let ?m = "\<lambda>a b. abs (int (gr_goal_x g) - a) + abs (int (gr_goal_y g) - b)"
  have "?m (int (u mod gr_columns g)) (int (u div gr_columns g)) \<le> 1 + ?m ?nx ?ny"
    using assms(3) by (auto simp: directions_def)
  then have "?m (int (u mod gr_columns g)) (int (u div gr_columns g)) * gr_cell g
      \<le> (1 + ?m ?nx ?ny) * gr_cell g"
    using cell by (intro mult_right_mono) simp_all
  also have "\<dots> = gr_cell g + ?m ?nx ?ny * gr_cell g" by (simp add: algebra_simps)
  also have "?m ?nx ?ny * gr_cell g = estimate g x" using b by (simp add: estimate_def heuristic_def xm)
  finally show "estimate g u \<le> c + estimate g x" using cc by (simp add: estimate_def heuristic_def)
qed

lemma edge_facts:
  assumes "grid_ok g" and "edge g u x c"
  shows "x < nodes g" and "gr_cell g \<le> c" and "0 < c" and "estimate g u \<le> c + estimate g x"
proof -
  from assms(2) obtain d to where d: "d \<in> set directions" "neighbour g u d = Some (x, to, c)"
    by (auto simp: edge_def)
  note f = neighbour_facts [OF assms(1) d(2,1)]
  show "x < nodes g" "gr_cell g \<le> c" "estimate g u \<le> c + estimate g x" by (rule f)+
  show "0 < c" using f(2) assms(1) by (simp add: grid_ok_def)
qed

inductive walk :: "grid \<Rightarrow> nat \<Rightarrow> int \<Rightarrow> nat \<Rightarrow> bool" for g u where
  walk_refl: "walk g u 0 u"
| walk_step: "walk g u c x \<Longrightarrow> edge g x y k \<Longrightarrow> walk g u (c + k) y"

lemma walk_facts:
  assumes "walk g u c x" and "grid_ok g"
  shows "0 \<le> c" and "estimate g u \<le> c + estimate g x" and "u < nodes g \<Longrightarrow> x < nodes g"
proof -
  have "0 \<le> c \<and> estimate g u \<le> c + estimate g x \<and> (u < nodes g \<longrightarrow> x < nodes g)"
    using assms(1)
  proof induction
    case (walk_step c x y k)
    with edge_facts [OF assms(2) walk_step.hyps(2)] show ?case by auto
  qed simp
  then show "0 \<le> c" "estimate g u \<le> c + estimate g x" "u < nodes g \<Longrightarrow> x < nodes g" by blast+
qed

subsection \<open>The invariant\<close>

definition fresh :: "search_state \<Rightarrow> nat \<Rightarrow> bool" where
  "fresh s u \<longleftrightarrow> (\<exists>e \<in> set (qs_open s). oe_index e = u \<and> oe_cost e = qs_costs s ! u)"

definition settled :: "grid \<Rightarrow> search_state \<Rightarrow> nat \<Rightarrow> bool" where
  "settled g s u \<longleftrightarrow> (\<forall>x c. edge g u x c \<longrightarrow> qs_costs s ! x \<le> qs_costs s ! u + c)"

definition tables_ok :: "grid \<Rightarrow> search_state \<Rightarrow> bool" where
  "tables_ok g s \<longleftrightarrow> length (qs_costs s) = nodes g \<and> length (qs_parents s) = nodes g
     \<and> qs_costs s ! gr_start g = 0
     \<and> (\<forall>u < nodes g. 0 \<le> qs_costs s ! u \<and> qs_costs s ! u \<le> infinity)"

definition parents_ok :: "grid \<Rightarrow> search_state \<Rightarrow> bool" where
  "parents_ok g s \<longleftrightarrow> (\<forall>u < nodes g. u \<noteq> gr_start g \<and> qs_costs s ! u < infinity \<longrightarrow>
     (\<exists>c. nat (qs_parents s ! u) < nodes g \<and> edge g (nat (qs_parents s ! u)) u c
        \<and> qs_costs s ! (nat (qs_parents s ! u)) + c \<le> qs_costs s ! u))"

definition open_ok :: "grid \<Rightarrow> search_state \<Rightarrow> bool" where
  "open_ok g s \<longleftrightarrow> sorted (map open_key (qs_open s))
     \<and> (\<forall>e \<in> set (qs_open s). oe_index e < nodes g \<and> oe_estimate e = oe_cost e + estimate g (oe_index e)
          \<and> qs_costs s ! oe_index e \<le> oe_cost e)"

text \<open>Points in \<open>E\<close> are excused from being queued or settled.\<close>

definition search_inv :: "grid \<Rightarrow> nat set \<Rightarrow> search_state \<Rightarrow> bool" where
  "search_inv g E s \<longleftrightarrow> tables_ok g s \<and> parents_ok g s \<and> open_ok g s
     \<and> (\<forall>u < nodes g. qs_costs s ! u < infinity \<longrightarrow> u \<in> E \<or> fresh s u \<or> settled g s u)"

lemma sorted_insert_by: "sorted (map key xs) \<Longrightarrow> sorted (map key (insert_by key x xs))"
  by (induction xs) (auto simp: not_less)

lemma relax_cases:
  assumes "relax g current d s = s'"
  obtains (keep) "s' = s" and "\<And>x to c. neighbour g (oe_index current) d = Some (x, to, c) \<Longrightarrow>
      qs_costs s ! x \<le> oe_cost current + c"
  | (push) x to c where "neighbour g (oe_index current) d = Some (x, to, c)"
      and "oe_cost current + c < qs_costs s ! x
        \<or> oe_cost current + c = qs_costs s ! x \<and> int (oe_index current) < qs_parents s ! x"
      and "s' = s\<lparr>qs_costs := (qs_costs s)[x := oe_cost current + c],
                  qs_parents := (qs_parents s)[x := int (oe_index current)],
                  qs_open := insert_by open_key
                    \<lparr>oe_estimate = oe_cost current + c + estimate g x, oe_cost = oe_cost current + c,
                     oe_x = px to, oe_y = py to, oe_index = x\<rparr> (qs_open s)\<rparr>"
proof (cases "neighbour g (oe_index current) d")
  case None
  with assms keep show thesis by (simp add: relax_def)
next
  case (Some n)
  obtain x to c where n: "n = (x, to, c)" by (cases n)
  show thesis
  proof (cases "oe_cost current + c > qs_costs s ! x
      \<or> (oe_cost current + c = qs_costs s ! x \<and> int (oe_index current) \<ge> qs_parents s ! x)")
    case True
    with assms Some n have "s' = s" by (simp add: relax_def)
    with True Some n keep show thesis by auto
  next
    case False
    then have "oe_cost current + c < qs_costs s ! x
        \<or> oe_cost current + c = qs_costs s ! x \<and> int (oe_index current) < qs_parents s ! x" by linarith
    with assms Some n False push [of x to c] show thesis by (simp add: relax_def estimate_def Let_def)
  qed
qed

lemma list_update_le: "k \<le> xs ! y \<Longrightarrow> xs[y := k] ! x \<le> xs ! x" for xs :: "int list"
  by (cases "x = y"; cases "y < length xs") (auto simp: list_update_beyond)

lemma relax_mono: "qs_costs (relax g current d s) ! x \<le> qs_costs s ! x"
proof (cases rule: relax_cases [OF refl, of g current d s])
  case (2 y to c)
  then show ?thesis by (auto intro: list_update_le)
qed simp

lemma relax_done: "qs_done (relax g current d s) = qs_done s"
  by (cases rule: relax_cases [OF refl, of g current d s]) auto

lemma fresh_push:
  assumes "fresh s u" and "u \<noteq> x"
  shows "fresh (s\<lparr>qs_costs := (qs_costs s)[x := k], qs_parents := ps, qs_open := insert_by open_key e (qs_open s)\<rparr>) u"
  using assms by (auto simp: fresh_def)

text \<open>One relaxation from a point \<open>u\<close> that is excused and whose entry is not stale.\<close>

lemma relax_inv:
  assumes g: "grid_ok g" and inv: "search_inv g E s" and u: "oe_index current = u" "u < nodes g" "u \<in> E"
    and cost: "oe_cost current = qs_costs s ! u" and d: "d \<in> set directions"
  shows "search_inv g E (relax g current d s) \<and> qs_costs (relax g current d s) ! u = qs_costs s ! u"
proof (cases rule: relax_cases [OF refl, of g current d s])
  case 1
  then show ?thesis using inv by simp
next
  case (2 x to c)
  let ?k = "qs_costs s ! u + c" and ?s = "relax g current d s"
  note nf = neighbour_facts [OF g 2(1) d]
  have t: "tables_ok g s" and p: "parents_ok g s" and o: "open_ok g s" using inv by (simp_all add: search_inv_def)
  have len: "length (qs_costs s) = nodes g" "length (qs_parents s) = nodes g"
    and range: "\<And>v. v < nodes g \<Longrightarrow> 0 \<le> qs_costs s ! v \<and> qs_costs s ! v \<le> infinity"
    and start: "qs_costs s ! gr_start g = 0" using t by (simp_all add: tables_ok_def)
  have c: "0 < c" using nf(2) g by (simp add: grid_ok_def)
  have xn: "x < nodes g" by (rule nf(1))
  have below: "?k \<le> qs_costs s ! x" using 2(2) by (auto simp: cost)
  have xu: "x \<noteq> u" using below c by auto
  have xs: "x \<noteq> gr_start g" using below c range [OF u(2)] start by auto
  have e: "edge g u x c" using 2(1) d u(1) by (auto simp: edge_def)
  have s': "?s = s\<lparr>qs_costs := (qs_costs s)[x := ?k], qs_parents := (qs_parents s)[x := int u],
      qs_open := insert_by open_key \<lparr>oe_estimate = ?k + estimate g x, oe_cost = ?k,
        oe_x = px to, oe_y = py to, oe_index = x\<rparr> (qs_open s)\<rparr>"
    using 2(3) by (simp add: cost u(1))
  have costs: "qs_costs ?s ! v = (if v = x then ?k else qs_costs s ! v)" if "v < nodes g" for v
    using that len xn by (simp add: s')
  have "tables_ok g ?s"
    using t xn xs range [OF u(2)] range [OF xn] c below unfolding tables_ok_def
    by (auto simp: s' nth_list_update)
  moreover have "parents_ok g ?s"
    unfolding parents_ok_def
  proof (intro allI impI)
    fix v assume v: "v < nodes g" "v \<noteq> gr_start g \<and> qs_costs ?s ! v < infinity"
    show "\<exists>c. nat (qs_parents ?s ! v) < nodes g \<and> edge g (nat (qs_parents ?s ! v)) v c
        \<and> qs_costs ?s ! (nat (qs_parents ?s ! v)) + c \<le> qs_costs ?s ! v"
    proof (cases "v = x")
      case True
      with e u(2) xu xn len show ?thesis by (intro exI [of _ c]) (simp add: s')
    next
      case False
      with v costs have "qs_costs s ! v < infinity" by simp
      with p v obtain k where k: "nat (qs_parents s ! v) < nodes g" "edge g (nat (qs_parents s ! v)) v k"
        "qs_costs s ! (nat (qs_parents s ! v)) + k \<le> qs_costs s ! v" by (auto simp: parents_ok_def)
      have "qs_parents ?s ! v = qs_parents s ! v" using False by (simp add: s')
      moreover have "qs_costs ?s ! (nat (qs_parents s ! v)) \<le> qs_costs s ! (nat (qs_parents s ! v))" by (rule relax_mono)
      ultimately show ?thesis using k v costs False by (intro exI [of _ k]) simp
    qed
  qed
  moreover have "open_ok g ?s"
  proof -
    have "qs_costs ?s ! oe_index en \<le> oe_cost en" if "en \<in> set (qs_open s)" for en
      using that o relax_mono [of g current d s "oe_index en"] by (fastforce simp: open_ok_def)
    moreover have "qs_open ?s = insert_by open_key \<lparr>oe_estimate = ?k + estimate g x, oe_cost = ?k,
        oe_x = px to, oe_y = py to, oe_index = x\<rparr> (qs_open s)" by (simp add: s')
    ultimately show ?thesis using o xn costs [OF xn] by (auto simp: open_ok_def sorted_insert_by)
  qed
  moreover have "v \<in> E \<or> fresh ?s v \<or> settled g ?s v" if v: "v < nodes g" "qs_costs ?s ! v < infinity" for v
  proof (cases "v = x")
    case True
    then show ?thesis using xn len by (auto simp: fresh_def s')
  next
    case False
    with v costs inv have "v \<in> E \<or> fresh s v \<or> settled g s v" by (simp add: search_inv_def)
    moreover have "fresh ?s v" if "fresh s v" unfolding s' using that False by (rule fresh_push)
    moreover have "settled g ?s v" if "settled g s v"
      using that relax_mono [of g current d s] costs [OF v(1)] False
      unfolding settled_def by (metis order_trans)
    ultimately show ?thesis by blast
  qed
  ultimately show ?thesis using costs [OF u(2)] xu by (auto simp: search_inv_def)
qed

text \<open>All four directions.\<close>

lemma relax_all:
  assumes g: "grid_ok g" and u: "oe_index current = u" "u < nodes g" "u \<in> E"
    and "set ds \<subseteq> set directions" and "search_inv g E s" and "oe_cost current = qs_costs s ! u"
  shows "search_inv g E (fold (relax g current) ds s)
    \<and> qs_costs (fold (relax g current) ds s) ! u = qs_costs s ! u
    \<and> qs_done (fold (relax g current) ds s) = qs_done s
    \<and> (\<forall>x. qs_costs (fold (relax g current) ds s) ! x \<le> qs_costs s ! x)
    \<and> (\<forall>d \<in> set ds. \<forall>x to c. neighbour g u d = Some (x, to, c) \<longrightarrow>
         qs_costs (fold (relax g current) ds s) ! x \<le> qs_costs s ! u + c)"
  using assms(5-7)
proof (induction ds arbitrary: s)
  case Nil
  then show ?case by simp
next
  case (Cons d ds)
  let ?s = "relax g current d s"
  have d: "d \<in> set directions" using Cons.prems(1) by simp
  from relax_inv [OF g Cons.prems(2) u Cons.prems(3) d]
  have inv: "search_inv g E ?s" and cu: "qs_costs ?s ! u = qs_costs s ! u" by simp_all
  have ih: "search_inv g E (fold (relax g current) ds ?s)
    \<and> qs_costs (fold (relax g current) ds ?s) ! u = qs_costs ?s ! u
    \<and> qs_done (fold (relax g current) ds ?s) = qs_done ?s
    \<and> (\<forall>x. qs_costs (fold (relax g current) ds ?s) ! x \<le> qs_costs ?s ! x)
    \<and> (\<forall>d \<in> set ds. \<forall>x to c. neighbour g u d = Some (x, to, c) \<longrightarrow>
         qs_costs (fold (relax g current) ds ?s) ! x \<le> qs_costs ?s ! u + c)"
    by (rule Cons.IH) (use Cons.prems inv cu in simp_all)
  have here: "qs_costs ?s ! x \<le> qs_costs s ! u + c" if "neighbour g u d = Some (x, to, c)" for x to c
  proof (cases rule: relax_cases [OF refl, of g current d s])
    case 1
    with that u(1) Cons.prems(3) show ?thesis by simp
  next
    case (2 y to' k)
    then have "y = x" "k = c" using that u(1) by simp_all
    moreover have "x < length (qs_costs s)"
      using neighbour_facts(1) [OF g that d] Cons.prems(2) by (simp add: search_inv_def tables_ok_def)
    ultimately show ?thesis using 2(3) Cons.prems(3) by simp
  qed
  show ?case
    using ih cu here relax_done [of g current d s] relax_mono [of g current d s] by (auto intro: order_trans)
qed

lemma search_turn_inv:
  assumes g: "grid_ok g" and inv: "search_inv g {} s" and "search_active s"
  shows "if qs_done (search_turn g s)
    then search_inv g {gr_goal g} (search_turn g s) \<and> qs_costs (search_turn g s) = qs_costs s
      \<and> (\<forall>e \<in> set (qs_open (search_turn g s)). qs_costs s ! gr_goal g \<le> oe_estimate e)
    else search_inv g {} (search_turn g s)"
proof -
  from assms(3) obtain current rest where o: "qs_open s = current # rest" and nd: "\<not> qs_done s"
    by (cases "qs_open s") (auto simp: search_active_def)
  define u where "u = oe_index current"
  define s1 where "s1 = s\<lparr>qs_open := rest\<rparr>"
  have ok: "open_ok g s" using inv by (simp add: search_inv_def)
  have un: "u < nodes g" and est: "oe_estimate current = oe_cost current + estimate g u"
    using ok o by (simp_all add: open_ok_def u_def)
  have least: "oe_estimate current \<le> oe_estimate e" if "e \<in> set rest" for e
    using ok o that by (auto simp: open_ok_def open_key_def less_eq_prod_def)
  have pop: "fresh s1 x" if "fresh s x" "x \<noteq> u" for x
    using that o by (auto simp: fresh_def s1_def u_def)
  have stale: "fresh s1 u" if "fresh s u" "oe_cost current \<noteq> qs_costs s ! u"
    using that o by (auto simp: fresh_def s1_def)
  have s1: "tables_ok g s1" "parents_ok g s1" "open_ok g s1" "\<And>x. settled g s1 x = settled g s x"
    using inv o by (auto simp: search_inv_def tables_ok_def parents_ok_def open_ok_def settled_def s1_def)
  have inv1: "search_inv g {u} s1"
    using inv s1 pop unfolding search_inv_def by (auto simp: s1_def)
  show ?thesis
  proof (cases "oe_cost current = qs_costs s ! u")
    case False
    then have "search_turn g s = s1" using o by (simp add: search_turn_def s1_def u_def)
    moreover have "search_inv g {} s1"
      using inv s1 pop stale False unfolding search_inv_def by (auto simp: s1_def)
    ultimately show ?thesis using nd by (simp add: s1_def)
  next
    case True
    show ?thesis
    proof (cases "u = gr_goal g")
      case goal: True
      have "estimate g (gr_goal g) = 0" using g by (simp add: grid_ok_def estimate_def heuristic_def)
      then have "qs_costs s ! gr_goal g \<le> oe_estimate e" if "e \<in> set rest" for e
        using least [OF that] est True goal by simp
      moreover have "search_turn g s = s1\<lparr>qs_done := True\<rparr>"
        using o True goal by (simp add: search_turn_def s1_def u_def)
      moreover have "search_inv g {gr_goal g} (s1\<lparr>qs_done := True\<rparr>)"
        using inv1 goal by (simp add: search_inv_def tables_ok_def parents_ok_def open_ok_def fresh_def settled_def)
      ultimately show ?thesis by (simp add: s1_def)
    next
      case False
      let ?s = "fold (relax g current) directions s1"
      have turn: "search_turn g s = ?s" using o True False by (simp add: search_turn_def s1_def u_def)
      have c1: "oe_cost current = qs_costs s1 ! u" using True by (simp add: s1_def)
      note all = relax_all [OF g u_def [symmetric] un insertI1 subset_refl inv1 c1]
      have "settled g ?s u"
        using all unfolding settled_def edge_def by metis
      with all have "search_inv g {} ?s" unfolding search_inv_def by blast
      with all nd show ?thesis by (simp add: turn s1_def)
    qed
  qed
qed

subsection \<open>Termination\<close>

definition cost_sum :: "search_state \<Rightarrow> nat" where
  "cost_sum s = sum_list (map nat (qs_costs s))"

definition parent_sum :: "search_state \<Rightarrow> nat" where
  "parent_sum s = sum_list (map nat (qs_parents s))"

definition search_measure :: "(search_state \<times> search_state) set" where
  "search_measure = measures [cost_sum, parent_sum, \<lambda>s. length (qs_open s), \<lambda>s. if qs_done s then 0 else 1]"

lemma sum_list_update_less:
  fixes xs :: "nat list"
  assumes "i < length xs" and "k < xs ! i"
  shows "sum_list (xs[i := k]) < sum_list xs"
  using assms by (induction xs arbitrary: i) (auto split: nat.splits)

text \<open>A relaxation either changes nothing or lowers the costs, or keeps them and lowers the parents.\<close>

definition lowers :: "search_state \<Rightarrow> search_state \<Rightarrow> bool" where
  "lowers s s' \<longleftrightarrow> cost_sum s' < cost_sum s \<or> (cost_sum s' = cost_sum s \<and> parent_sum s' < parent_sum s)"

lemma relax_lowers:
  assumes "grid_ok g" and "search_inv g E s" and "0 \<le> oe_cost current" and "d \<in> set directions"
  shows "relax g current d s = s \<or> lowers s (relax g current d s)"
proof (cases rule: relax_cases [OF refl, of g current d s])
  case 1
  then show ?thesis by simp
next
  case (2 x to c)
  note nf = neighbour_facts [OF assms(1) 2(1) assms(4)]
  have len: "x < length (qs_costs s)" "x < length (qs_parents s)"
    using nf(1) assms(2) by (simp_all add: search_inv_def tables_ok_def)
  have "0 \<le> oe_cost current + c" using nf(2) assms(1,3) by (simp add: grid_ok_def)
  let ?s = "relax g current d s"
  have cs: "map nat (qs_costs ?s) = (map nat (qs_costs s))[x := nat (oe_cost current + c)]"
    by (simp add: 2(3) map_update)
  from 2(2) show ?thesis
  proof
    assume "oe_cost current + c < qs_costs s ! x"
    then have "cost_sum ?s < cost_sum s" unfolding cost_sum_def cs
      using len \<open>0 \<le> oe_cost current + c\<close> by (intro sum_list_update_less) simp_all
    then show ?thesis by (simp add: lowers_def)
  next
    assume e: "oe_cost current + c = qs_costs s ! x \<and> int (oe_index current) < qs_parents s ! x"
    then have "qs_costs ?s = qs_costs s" by (simp add: 2(3))
    moreover have "map nat (qs_parents ?s) = (map nat (qs_parents s))[x := oe_index current]"
      by (simp add: 2(3) map_update)
    then have "sum_list (map nat (qs_parents ?s)) < sum_list (map nat (qs_parents s))"
      using len e by (simp only:) (intro sum_list_update_less, auto)
    then have "parent_sum ?s < parent_sum s" by (simp add: parent_sum_def)
    ultimately show ?thesis by (simp add: lowers_def cost_sum_def)
  qed
qed

lemma relax_all_lowers:
  assumes g: "grid_ok g" and u: "oe_index current = u" "u < nodes g" "u \<in> E"
    and "set ds \<subseteq> set directions" and "search_inv g E s" and "oe_cost current = qs_costs s ! u"
  shows "fold (relax g current) ds s = s \<or> lowers s (fold (relax g current) ds s)"
  using assms(5-7)
proof (induction ds arbitrary: s)
  case (Cons d ds)
  have d: "d \<in> set directions" and nn: "0 \<le> oe_cost current"
    using Cons.prems u(2) by (auto simp: search_inv_def tables_ok_def)
  from relax_inv [OF g Cons.prems(2) u Cons.prems(3) d]
  have "fold (relax g current) ds (relax g current d s) = relax g current d s
    \<or> lowers (relax g current d s) (fold (relax g current) ds (relax g current d s))"
    using Cons.prems by (intro Cons.IH) simp_all
  with relax_lowers [OF g Cons.prems(2) nn d] show ?case by (auto simp: lowers_def)
qed simp

lemma search_turn_decreases:
  assumes g: "grid_ok g" and inv: "search_inv g {} s" and "search_active s"
  shows "(search_turn g s, s) \<in> search_measure"
proof -
  from assms(3) obtain current rest where o: "qs_open s = current # rest" and nd: "\<not> qs_done s"
    by (cases "qs_open s") (auto simp: search_active_def)
  define s1 where "s1 = s\<lparr>qs_open := rest\<rparr>"
  have s1: "cost_sum s1 = cost_sum s" "parent_sum s1 = parent_sum s" "length (qs_open s1) < length (qs_open s)"
    by (simp_all add: s1_def cost_sum_def parent_sum_def o)
  have un: "oe_index current < nodes g" using inv o by (simp add: search_inv_def open_ok_def)
  show ?thesis
  proof (cases "oe_cost current = qs_costs s ! oe_index current \<and> oe_index current \<noteq> gr_goal g")
    case True
    have "search_inv g {oe_index current} s1"
      using inv o unfolding search_inv_def
      by (auto simp: s1_def tables_ok_def parents_ok_def open_ok_def settled_def fresh_def)
    from relax_all_lowers [OF g refl un insertI1 subset_refl this] True
    have "fold (relax g current) directions s1 = s1 \<or> lowers s1 (fold (relax g current) directions s1)"
      by (simp add: s1_def)
    moreover have "search_turn g s = fold (relax g current) directions s1"
      using o True by (simp add: search_turn_def s1_def)
    ultimately show ?thesis using s1 by (auto simp: search_measure_def lowers_def)
  next
    case False
    then have "search_turn g s = s1 \<or> search_turn g s = s1\<lparr>qs_done := True\<rparr>"
      using o by (auto simp: search_turn_def s1_def Let_def)
    with s1 show ?thesis by (auto simp: search_measure_def cost_sum_def parent_sum_def)
  qed
qed

lemma search_init_inv:
  assumes "grid_ok g"
  shows "search_inv g {} (search_init g)" and "\<not> qs_done (search_init g)"
proof -
  have s: "gr_start g < nodes g" using assms by (simp add: grid_ok_def)
  then show "search_inv g {} (search_init g)"
    by (auto simp: search_inv_def tables_ok_def parents_ok_def open_ok_def fresh_def search_init_def
        nth_list_update nodes_def infinity_def i64_max_def estimate_def Let_def)
  show "\<not> qs_done (search_init g)" by (simp add: search_init_def Let_def)
qed

text \<open>What holds of the state after any number of turns.\<close>

definition search_state_ok :: "grid \<Rightarrow> search_state \<Rightarrow> bool" where
  "search_state_ok g s \<longleftrightarrow>
     (if qs_done s
      then search_inv g {gr_goal g} s \<and> (\<forall>e \<in> set (qs_open s). qs_costs s ! gr_goal g \<le> oe_estimate e)
      else search_inv g {} s)"

lemma search_state_ok_turn:
  assumes "grid_ok g" and "search_state_ok g s" and "search_active s"
  shows "search_state_ok g (search_turn g s)"
proof -
  have "search_inv g {} s" using assms(2,3) by (simp add: search_state_ok_def search_active_def)
  from search_turn_inv [OF assms(1) this assms(3)] show ?thesis
    by (auto simp: search_state_ok_def split: if_splits)
qed

lemma search_terminates:
  assumes "grid_ok g"
  shows "\<exists>s. search g = Some s \<and> search_state_ok g s \<and> \<not> search_active s"
proof -
  have init: "search_state_ok g (search_init g)"
    using search_init_inv [OF assms] by (simp add: search_state_ok_def)
  have "\<exists>s. while_option search_active (search_turn g) (search_init g) = Some s"
  proof (rule wf_while_option_Some [where P = "search_state_ok g"])
    have "{(t, s). (search_state_ok g s \<and> search_active s) \<and> t = search_turn g s} \<subseteq> search_measure"
      using search_turn_decreases [OF assms] by (auto simp: search_state_ok_def search_active_def)
    moreover have "wf search_measure" by (simp add: search_measure_def)
    ultimately show "wf {(t, s). (search_state_ok g s \<and> search_active s) \<and> t = search_turn g s}"
      by (rule wf_subset [rotated])
  qed (use search_state_ok_turn [OF assms] init in blast)+
  then obtain s where s: "search g = Some s" by (auto simp: search_def)
  have "search_state_ok g s"
    by (rule while_option_rule [where P = "search_state_ok g", OF _ s [unfolded search_def] init])
      (use search_state_ok_turn [OF assms] in blast)
  with while_option_stop [OF s [unfolded search_def]] s show ?thesis by blast
qed

subsection \<open>Optimality\<close>

text \<open>Along any walk from the start, either the tentative cost is already as low as the walk's cost, or the
  walk passes a point that is still queued (or excused) at a cost no higher than the walk's so far.\<close>

lemma walk_frontier:
  assumes g: "grid_ok g" and inv: "search_inv g E s" and "walk g (gr_start g) c x"
  shows "qs_costs s ! x \<le> c
    \<or> (\<exists>v c1 c2. (fresh s v \<or> v \<in> E) \<and> v < nodes g \<and> qs_costs s ! v \<le> c1 \<and> walk g v c2 x \<and> c1 + c2 = c)"
  using assms(3)
proof induction
  case walk_refl
  then show ?case using inv by (simp add: search_inv_def tables_ok_def)
next
  case (walk_step c x y k)
  note ef = edge_facts [OF g walk_step.hyps(2)]
  have x: "x < nodes g" using walk_facts(3) [OF walk_step.hyps(1) g] g by (simp add: grid_ok_def)
  from walk_step.IH show ?case
  proof
    assume cx: "qs_costs s ! x \<le> c"
    show ?thesis
    proof (cases "qs_costs s ! x < infinity")
      case True
      with inv x have "x \<in> E \<or> fresh s x \<or> settled g s x" by (simp add: search_inv_def)
      then show ?thesis
      proof (elim disjE)
        assume "settled g s x"
        then have "qs_costs s ! y \<le> qs_costs s ! x + k" using walk_step.hyps(2) by (simp add: settled_def)
        with cx show ?thesis by linarith
      next
        assume "x \<in> E"
        moreover have "walk g x k y" using walk.walk_step [OF walk.walk_refl walk_step.hyps(2)] by simp
        ultimately show ?thesis using cx x by blast
      next
        assume "fresh s x"
        moreover have "walk g x k y" using walk.walk_step [OF walk.walk_refl walk_step.hyps(2)] by simp
        ultimately show ?thesis using cx x by blast
      qed
    next
      case False
      have "qs_costs s ! y \<le> infinity" using inv ef(1) by (simp add: search_inv_def tables_ok_def)
      with False cx ef(3) show ?thesis by linarith
    qed
  next
    assume "\<exists>v c1 c2. (fresh s v \<or> v \<in> E) \<and> v < nodes g \<and> qs_costs s ! v \<le> c1 \<and> walk g v c2 x \<and> c1 + c2 = c"
    then obtain v c1 c2 where v: "fresh s v \<or> v \<in> E" "v < nodes g" "qs_costs s ! v \<le> c1" "walk g v c2 x"
      "c1 + c2 = c" by blast
    from walk.walk_step [OF v(4) walk_step.hyps(2)] v show ?thesis
      by (intro disjI2 exI [of _ v] exI [of _ c1] exI [of _ "c2 + k"]) simp
  qed
qed

lemma search_optimal:
  assumes g: "grid_ok g" and ok: "search_state_ok g s" and "\<not> search_active s"
    and w: "walk g (gr_start g) c (gr_goal g)"
  shows "qs_costs s ! gr_goal g \<le> c"
proof (cases "qs_done s")
  case False
  then have "search_inv g {} s" "qs_open s = []"
    using ok assms(3) by (simp_all add: search_state_ok_def search_active_def)
  from walk_frontier [OF g this(1) w] this(2) show ?thesis by (auto simp: fresh_def)
next
  case True
  then have inv: "search_inv g {gr_goal g} s"
    and least: "\<And>e. e \<in> set (qs_open s) \<Longrightarrow> qs_costs s ! gr_goal g \<le> oe_estimate e"
    using ok by (simp_all add: search_state_ok_def)
  from walk_frontier [OF g inv w] show ?thesis
  proof
    assume "\<exists>v c1 c2. (fresh s v \<or> v \<in> {gr_goal g}) \<and> v < nodes g \<and> qs_costs s ! v \<le> c1
        \<and> walk g v c2 (gr_goal g) \<and> c1 + c2 = c"
    then obtain v c1 c2 where v: "fresh s v \<or> v = gr_goal g" "qs_costs s ! v \<le> c1" "walk g v c2 (gr_goal g)"
      "c1 + c2 = c" by blast
    note wf = walk_facts [OF v(3) g]
    from v(1) show ?thesis
    proof
      assume "fresh s v"
      then obtain e where e: "e \<in> set (qs_open s)" "oe_index e = v" "oe_cost e = qs_costs s ! v"
        by (auto simp: fresh_def)
      have "oe_estimate e = qs_costs s ! v + estimate g v" using inv e by (auto simp: search_inv_def open_ok_def)
      moreover have "estimate g (gr_goal g) = 0" using g by (simp add: grid_ok_def estimate_def heuristic_def)
      ultimately show ?thesis using least [OF e(1)] wf(2) v by linarith
    next
      assume "v = gr_goal g"
      with v wf(1) show ?thesis by simp
    qed
  qed
qed

subsection \<open>The walk back\<close>

definition leg_cost :: "world \<Rightarrow> point \<Rightarrow> point \<Rightarrow> int" where
  "leg_cost w a b = (wd_cell w * uint (terrain_multiplier w a b)) sdiv 1000"

fun path_cost :: "world \<Rightarrow> point list \<Rightarrow> int" where
  "path_cost w (a # b # ps) = leg_cost w a b + path_cost w (b # ps)"
| "path_cost w _ = 0"

text \<open>A path on the grid: each leg goes to one of the four neighbouring points and is allowed.\<close>

definition grid_leg :: "world \<Rightarrow> vehicle_state \<Rightarrow> point \<Rightarrow> point \<Rightarrow> bool" where
  "grid_leg w v a b \<longleftrightarrow> segment_allowed w v a b
     \<and> (\<exists>d \<in> set directions. b = coordinate (px a + fst d * wd_cell w) (py a + snd d * wd_cell w))"

fun grid_path :: "world \<Rightarrow> vehicle_state \<Rightarrow> point list \<Rightarrow> bool" where
  "grid_path w v (a # b # ps) \<longleftrightarrow> grid_leg w v a b \<and> grid_path w v (b # ps)"
| "grid_path w v [a] \<longleftrightarrow> True"
| "grid_path w v [] \<longleftrightarrow> False"

abbreviation node_point :: "grid \<Rightarrow> nat \<Rightarrow> point" where
  "node_point g \<equiv> cell_point (gr_cell g) (gr_columns g)"

lemma path_cost_snoc: "path_cost w (ps @ [a, b]) = path_cost w (ps @ [a]) + leg_cost w a b"
  by (induction ps rule: induct_list012) simp_all

lemma grid_path_snoc: "grid_path w v (ps @ [a, b]) \<longleftrightarrow> grid_path w v (ps @ [a]) \<and> grid_leg w v a b"
  by (induction ps rule: induct_list012) auto

lemma edge_leg:
  assumes "grid_ok g" and "edge g u x c"
  shows "grid_leg (gr_world g) (gr_vehicle g) (node_point g u) (node_point g x)"
    and "c = leg_cost (gr_world g) (node_point g u) (node_point g x)"
proof -
  from assms(2) obtain d to where d: "d \<in> set directions" "neighbour g u d = Some (x, to, c)"
    by (auto simp: edge_def)
  have to: "to = node_point g x" by (rule neighbour_facts(4) [OF assms(1) d(2,1)])
  have cell: "gr_cell g = wd_cell (gr_world g)" using assms(1) by (simp add: grid_ok_def)
  from d(2) have allowed: "segment_allowed (gr_world g) (gr_vehicle g) (node_point g u) to"
    and at: "to = coordinate ((int (u mod gr_columns g) + fst d) * gr_cell g) ((int (u div gr_columns g) + snd d) * gr_cell g)"
    and c: "c = (gr_cell g * uint (terrain_multiplier (gr_world g) (node_point g u) to)) sdiv 1000"
    by (auto simp: neighbour_def Let_def split: if_splits)
  show "c = leg_cost (gr_world g) (node_point g u) (node_point g x)" by (simp add: c to leg_cost_def cell)
  have "to = coordinate (px (node_point g u) + fst d * wd_cell (gr_world g))
      (py (node_point g u) + snd d * wd_cell (gr_world g))"
    by (simp add: at cell_point_def coordinate_def cell algebra_simps)
  with allowed d(1) show "grid_leg (gr_world g) (gr_vehicle g) (node_point g u) (node_point g x)"
    by (auto simp: grid_leg_def to)
qed

lemma trace_ends:
  assumes g: "grid_ok g" and inv: "search_inv g E s"
  shows "u < nodes g \<Longrightarrow> qs_costs s ! u < infinity \<Longrightarrow>
    \<exists>us. trace (qs_parents s) (gr_start g) u = Some (u # us) \<and> last (u # us) = gr_start g
      \<and> grid_path (gr_world g) (gr_vehicle g) (rev (map (node_point g) (u # us)))
      \<and> path_cost (gr_world g) (rev (map (node_point g) (u # us))) \<le> qs_costs s ! u"
proof (induction "nat (qs_costs s ! u)" arbitrary: u rule: less_induct)
  case less
  have nn: "0 \<le> qs_costs s ! v" if "v < nodes g" for v
    using that inv by (simp add: search_inv_def tables_ok_def)
  show ?case
  proof (cases "u = gr_start g")
    case True
    then show ?thesis using nn [OF less.prems(1)] by (intro exI [of _ "[]"]) (subst trace.simps, simp)
  next
    case False
    let ?p = "nat (qs_parents s ! u)"
    from False less.prems inv obtain c where p: "?p < nodes g" "edge g ?p u c"
      "qs_costs s ! ?p + c \<le> qs_costs s ! u" by (auto simp: search_inv_def parents_ok_def)
    have "0 < c" by (rule edge_facts(3) [OF g p(2)])
    with nn [OF p(1)] p(3) less.prems(2)
    have "nat (qs_costs s ! ?p) < nat (qs_costs s ! u)" "qs_costs s ! ?p < infinity" by simp_all
    from less.hyps [OF this(1) p(1) this(2)] obtain us where
      us: "trace (qs_parents s) (gr_start g) ?p = Some (?p # us)" "last (?p # us) = gr_start g"
        "grid_path (gr_world g) (gr_vehicle g) (rev (map (node_point g) (?p # us)))"
        "path_cost (gr_world g) (rev (map (node_point g) (?p # us))) \<le> qs_costs s ! ?p" by blast
    have t: "trace (qs_parents s) (gr_start g) u = Some (u # ?p # us)"
      using us(1) False by (subst trace.simps) simp
    show ?thesis
      by (rule exI [of _ "?p # us"])
        (use t us p(3) edge_leg [OF g p(2)] in \<open>simp add: grid_path_snoc path_cost_snoc\<close>)
  qed
qed

text \<open>Conversely, a path on the grid that starts at a node is a walk.\<close>

lemma leg_edge:
  assumes g: "grid_ok g" and "u < nodes g" and rows: "gr_columns g = nat (wd_width (gr_world g) sdiv gr_cell g + 1)"
      "gr_rows g = nat (wd_height (gr_world g) sdiv gr_cell g + 1)"
    and leg: "grid_leg (gr_world g) (gr_vehicle g) (node_point g u) b"
  shows "\<exists>x c. b = node_point g x \<and> edge g u x c"
proof -
  have cell: "0 < gr_cell g" "wd_cell (gr_world g) = gr_cell g" using g by (simp_all add: grid_ok_def)
  from leg obtain d where allowed: "segment_allowed (gr_world g) (gr_vehicle g) (node_point g u) b"
    and d: "d \<in> set directions"
    and b: "b = coordinate (px (node_point g u) + fst d * gr_cell g) (py (node_point g u) + snd d * gr_cell g)"
    by (auto simp: grid_leg_def cell)
  let ?nx = "int (u mod gr_columns g) + fst d" and ?ny = "int (u div gr_columns g) + snd d"
  have bc: "b = coordinate (?nx * gr_cell g) (?ny * gr_cell g)"
    by (simp add: b cell_point_def coordinate_def algebra_simps)
  from segment_allowed_bounds [OF allowed]
  have r: "0 \<le> ?nx * gr_cell g" "?nx * gr_cell g \<le> wd_width (gr_world g)"
    "0 \<le> ?ny * gr_cell g" "?ny * gr_cell g \<le> wd_height (gr_world g)"
    by (simp_all add: bc coordinate_def)
  then have nn: "0 \<le> ?nx" "0 \<le> ?ny" using cell(1) by (simp_all add: zero_le_mult_iff)
  have fit: "k < int (nat (W sdiv gr_cell g + 1))" if "0 \<le> k * gr_cell g" "k * gr_cell g \<le> W" for k W
  proof -
    have "k * gr_cell g div gr_cell g \<le> W div gr_cell g" using that(2) cell(1) by (rule zdiv_mono1)
    then have "k \<le> W div gr_cell g" using cell(1) by simp
    moreover have "0 \<le> W" using that by linarith
    ultimately show ?thesis using cell(1) by (simp add: sdiv_div)
  qed
  have "?nx < int (gr_columns g)" "?ny < int (gr_rows g)"
    using fit [OF r(1,2)] fit [OF r(3,4)] by (simp_all only: rows [symmetric])
  with nn allowed have "neighbour g u d = Some (nat ?ny * gr_columns g + nat ?nx, b,
      (gr_cell g * uint (terrain_multiplier (gr_world g) (node_point g u) b)) sdiv 1000)"
    by (simp add: neighbour_def Let_def bc)
  then have "edge g u (nat ?ny * gr_columns g + nat ?nx)
      ((gr_cell g * uint (terrain_multiplier (gr_world g) (node_point g u) b)) sdiv 1000)"
    "b = node_point g (nat ?ny * gr_columns g + nat ?nx)"
    using d neighbour_facts(4) [OF g _ d] by (auto simp: edge_def)
  then show ?thesis by blast
qed

lemma grid_path_walk:
  assumes g: "grid_ok g" and dims: "gr_columns g = nat (wd_width (gr_world g) sdiv gr_cell g + 1)"
      "gr_rows g = nat (wd_height (gr_world g) sdiv gr_cell g + 1)"
  shows "grid_path (gr_world g) (gr_vehicle g) ps \<Longrightarrow> hd ps = node_point g u \<Longrightarrow> u < nodes g \<Longrightarrow>
    \<exists>x. last ps = node_point g x \<and> x < nodes g \<and> walk g u (path_cost (gr_world g) ps) x"
proof (induction ps rule: rev_induct)
  case (snoc b ps)
  show ?case
  proof (cases ps rule: rev_cases)
    case Nil
    with snoc.prems show ?thesis by (auto intro: walk.walk_refl)
  next
    case (snoc qs a)
    have path: "grid_path (gr_world g) (gr_vehicle g) ps" and leg: "grid_leg (gr_world g) (gr_vehicle g) a b"
      using snoc.prems(1) snoc by (simp_all add: grid_path_snoc)
    have "hd ps = node_point g u" using snoc.prems(2) snoc by (cases qs) simp_all
    from snoc.IH [OF path this snoc.prems(3)] obtain x where
      x: "last ps = node_point g x" "x < nodes g" "walk g u (path_cost (gr_world g) ps) x" by blast
    have a: "a = node_point g x" using x(1) snoc by simp
    from leg_edge [OF g x(2) dims] leg obtain y c where y: "b = node_point g y" "edge g x y c"
      unfolding a by blast
    have "c = leg_cost (gr_world g) a b" using edge_leg(2) [OF g y(2)] by (simp add: a y)
    with walk.walk_step [OF x(3) y(2)] have "walk g u (path_cost (gr_world g) (ps @ [b])) y"
      by (simp add: snoc path_cost_snoc)
    with y edge_facts(1) [OF g y(2)] show ?thesis by auto
  qed
qed simp

subsection \<open>The whole function\<close>

lemma aligned_point:
  assumes "0 < cell" and "p = coordinate (int i * cell) (int j * cell)" and "i < columns"
  shows "p = cell_point cell columns (j * columns + i)"
  using assms by (simp add: cell_point_def)

lemma astar_grid_ok:
  assumes "0 < wd_cell w" and "px start smod wd_cell w = 0" "py start smod wd_cell w = 0"
    and "px goal smod wd_cell w = 0" "py goal smod wd_cell w = 0"
    and "segment_allowed w v start start" and "segment_allowed w v goal goal"
  defines "g \<equiv> astar_grid w v start goal"
  shows "grid_ok g" and "node_point g (gr_start g) = start" and "node_point g (gr_goal g) = goal"
    and "nat (px start sdiv wd_cell w) < gr_columns g" and "nat (py start sdiv wd_cell w) < gr_rows g"
    and "gr_goal_x g < gr_columns g" and "gr_goal_y g < gr_rows g"
proof -
  have c: "0 < wd_cell w" by fact
  have fit: "nat (k sdiv wd_cell w) < nat (W sdiv wd_cell w + 1)" if "0 \<le> k" "k \<le> W" for k W
  proof -
    have "k div wd_cell w \<le> W div wd_cell w" using that(2) c by (rule zdiv_mono1)
    with that c show ?thesis by (simp add: sdiv_div pos_imp_zdiv_nonneg_iff)
  qed
  note bs = segment_allowed_bounds [OF assms(6)] and bg = segment_allowed_bounds [OF assms(7)]
  show sx: "nat (px start sdiv wd_cell w) < gr_columns g" and sy: "nat (py start sdiv wd_cell w) < gr_rows g"
    and gx: "gr_goal_x g < gr_columns g" and gy: "gr_goal_y g < gr_rows g"
    using fit [of "px start" "wd_width w"] fit [of "py start" "wd_height w"] fit [of "px goal" "wd_width w"]
      fit [of "py goal" "wd_height w"] bs bg by (simp_all add: g_def astar_grid_def Let_def)
  have bound: "y * gr_columns g + x < nodes g" if "x < gr_columns g" "y < gr_rows g" for x y
  proof -
    have "y * gr_columns g + x < (y + 1) * gr_columns g" using that by simp
    also have "\<dots> \<le> gr_rows g * gr_columns g" using that by (intro mult_right_mono) simp_all
    finally show ?thesis by (simp add: nodes_def mult.commute)
  qed
  have start: "gr_start g = nat (py start sdiv wd_cell w) * gr_columns g + nat (px start sdiv wd_cell w)"
    and goal: "gr_goal g = gr_goal_y g * gr_columns g + gr_goal_x g"
    and eqs: "gr_cell g = wd_cell w" "gr_world g = w" "gr_goal_x g = nat (px goal sdiv wd_cell w)"
      "gr_goal_y g = nat (py goal sdiv wd_cell w)"
    by (simp_all add: g_def astar_grid_def Let_def)
  show "grid_ok g" using c sx gx gy bound [OF sx sy] bound [OF gx gy]
    by (auto simp: grid_ok_def start goal eqs(1,2) intro: le_less_trans)
  have whole: "int (nat (k sdiv wd_cell w)) * wd_cell w = k" if "0 \<le> k" "k smod wd_cell w = 0" for k
    using that c by (simp add: sdiv_div smod_mod pos_imp_zdiv_nonneg_iff dvd_eq_mod_eq_0 [symmetric])
  show "node_point g (gr_start g) = start" unfolding eqs(1) start
    by (rule aligned_point [symmetric]) (use c sx whole bs assms(2,3) in \<open>simp_all add: coordinate_def\<close>)
  show "node_point g (gr_goal g) = goal" unfolding eqs(1) goal
    by (rule aligned_point [symmetric])
      (use c gx whole bg assms(4,5) in \<open>simp_all add: eqs(3,4) coordinate_def\<close>)
qed

lemma build_route_points: "build_route w v step ps = Inr r \<Longrightarrow> ro_points r = ps"
  unfolding build_route_def
  by (drule foldR_invariant [where P = "\<lambda>r. ro_points r = ps"]) (auto simp: add_leg_def Let_def)

text \<open>The precondition under which \<open>astar\<close> searches at all.\<close>

definition searchable :: "world \<Rightarrow> vehicle_state \<Rightarrow> point \<Rightarrow> point \<Rightarrow> u64 \<Rightarrow> bool" where
  "searchable w v start goal step_ms \<longleftrightarrow>
     0 < wd_cell w \<and> step_ms \<noteq> 0 \<and> 0 < vs_speed v
     \<and> px start smod wd_cell w = 0 \<and> py start smod wd_cell w = 0
     \<and> px goal smod wd_cell w = 0 \<and> py goal smod wd_cell w = 0
     \<and> segment_allowed w v start start \<and> segment_allowed w v goal goal"

lemma astar_not_searchable: "\<not> searchable w v start goal step \<Longrightarrow> astar w v start goal step = Inr None"
  by (auto simp: astar_def searchable_def Let_def not_less)

lemma astar_searchable:
  assumes "searchable w v start goal step"
  obtains g s where "g = astar_grid w v start goal" and "grid_ok g" and "search g = Some s"
    and "search_state_ok g s" and "\<not> search_active s"
    and "node_point g (gr_start g) = start" and "node_point g (gr_goal g) = goal"
    and "gr_world g = w" and "gr_vehicle g = v"
    and "gr_columns g = nat (wd_width w sdiv gr_cell g + 1)" and "gr_rows g = nat (wd_height w sdiv gr_cell g + 1)"
    and "astar w v start goal step =
      (if qs_costs s ! gr_goal g = infinity then Inr None
       else bindR (build_route w v step (rev (map (node_point g) (the (trace (qs_parents s) (gr_start g) (gr_goal g))))))
              (\<lambda>r. Inr (Some r)))"
proof -
  define g where "g = astar_grid w v start goal"
  have conds: "0 < wd_cell w" "px start smod wd_cell w = 0" "py start smod wd_cell w = 0"
    "px goal smod wd_cell w = 0" "py goal smod wd_cell w = 0"
    "segment_allowed w v start start" "segment_allowed w v goal goal"
    using assms by (simp_all add: searchable_def)
  note ok = astar_grid_ok [OF conds, folded g_def]
  obtain s where s: "search g = Some s" "search_state_ok g s" "\<not> search_active s"
    using search_terminates [OF ok(1)] by blast
  have f: "gr_world g = w" "gr_vehicle g = v" "gr_cell g = wd_cell w"
    "gr_columns g = nat (wd_width w sdiv wd_cell w + 1)" "gr_rows g = nat (wd_height w sdiv wd_cell w + 1)"
    by (simp_all add: g_def astar_grid_def Let_def)
  have "\<not> (wd_cell w \<le> 0 \<or> step = 0 \<or> vs_speed v \<le> 0 \<or> px start smod wd_cell w \<noteq> 0 \<or> py start smod wd_cell w \<noteq> 0
      \<or> px goal smod wd_cell w \<noteq> 0 \<or> py goal smod wd_cell w \<noteq> 0
      \<or> \<not> segment_allowed w v start start \<or> \<not> segment_allowed w v goal goal)"
    using assms by (auto simp: searchable_def)
  then have "astar w v start goal step =
      (if qs_costs s ! gr_goal g = infinity then Inr None
       else bindR (build_route w v step (rev (map (node_point g) (the (trace (qs_parents s) (gr_start g) (gr_goal g))))))
              (\<lambda>r. Inr (Some r)))"
    unfolding astar_def Let_def g_def [symmetric] if_False using ok(4-7) s(1) f(3) by simp
  with that [OF g_def ok(1) s ok(2,3) f(1,2)] f show thesis by simp
qed

lemma node_point_inj: "0 < cell \<Longrightarrow> cell_point cell columns i = cell_point cell columns j \<Longrightarrow> i = j"
  by (auto simp: cell_point_def coordinate_def) (metis div_mult_mod_eq)

lemma astar_cheapest_path:
  assumes "astar w v start goal step = Inr (Some r)"
  shows "grid_path w v (ro_points r) \<and> hd (ro_points r) = start \<and> last (ro_points r) = goal
    \<and> (\<forall>ps. grid_path w v ps \<and> hd ps = start \<and> last ps = goal \<longrightarrow> path_cost w (ro_points r) \<le> path_cost w ps)"
proof -
  have "searchable w v start goal step" using assms astar_not_searchable by fastforce
  then obtain g s where g: "grid_ok g" and s: "search_state_ok g s" "\<not> search_active s"
    and ends: "node_point g (gr_start g) = start" "node_point g (gr_goal g) = goal"
    and f: "gr_world g = w" "gr_vehicle g = v"
    and dims: "gr_columns g = nat (wd_width w sdiv gr_cell g + 1)" "gr_rows g = nat (wd_height w sdiv gr_cell g + 1)"
    and run: "astar w v start goal step =
      (if qs_costs s ! gr_goal g = infinity then Inr None
       else bindR (build_route w v step (rev (map (node_point g) (the (trace (qs_parents s) (gr_start g) (gr_goal g))))))
              (\<lambda>r. Inr (Some r)))"
    by (rule astar_searchable)
  obtain E where inv: "search_inv g E s" using s(1) by (auto simp: search_state_ok_def split: if_splits)
  have gn: "gr_goal g < nodes g" and sn: "gr_start g < nodes g" and cell: "0 < gr_cell g" using g by (simp_all add: grid_ok_def)
  have "qs_costs s ! gr_goal g \<noteq> infinity" using assms run by auto
  moreover have "qs_costs s ! gr_goal g \<le> infinity" using inv gn by (simp add: search_inv_def tables_ok_def)
  ultimately have "qs_costs s ! gr_goal g < infinity" by simp
  from trace_ends [OF g inv gn this] obtain us where
    t: "trace (qs_parents s) (gr_start g) (gr_goal g) = Some (gr_goal g # us)"
    and last: "last (gr_goal g # us) = gr_start g"
    and path: "grid_path w v (rev (map (node_point g) (gr_goal g # us)))"
    and cost: "path_cost w (rev (map (node_point g) (gr_goal g # us))) \<le> qs_costs s ! gr_goal g"
    unfolding f by blast
  let ?ps = "rev (map (node_point g) (gr_goal g # us))"
  have pts: "ro_points r = ?ps" using assms run t by (auto dest: build_route_points split: if_splits)
  have "hd ?ps = node_point g (gr_start g)" unfolding hd_rev last_map [OF list.distinct(2)] last ..
  moreover have "last ?ps = node_point g (gr_goal g)" by simp
  moreover have "qs_costs s ! gr_goal g \<le> path_cost w qs"
    if "grid_path w v qs" "hd qs = start" "last qs = goal" for qs
  proof -
    from grid_path_walk [OF g, unfolded f, OF dims that(1) _ sn] that(2,3) ends
    obtain x where x: "goal = node_point g x" "walk g (gr_start g) (path_cost w qs) x" by auto
    have "x = gr_goal g" using node_point_inj [OF cell] x(1) ends(2) by metis
    with x(2) show ?thesis by (intro search_optimal [OF g s]) simp
  qed
  ultimately show ?thesis using path cost pts ends by fastforce
qed

lemma astar_path:
  assumes "astar w v start goal step = Inr (Some r)"
  shows "grid_path w v (ro_points r)" "hd (ro_points r) = start" "last (ro_points r) = goal"
  using astar_cheapest_path [OF assms] by blast+

subsection \<open>Properties\<close>

text \<open>C27: \<open>astar\<close> returns a path on the grid from the start to the goal, each leg allowed for the vehicle, and
  no such path is cheaper in terrain-weighted length.\<close>

theorem astar_optimal:
  assumes "astar w v start goal step = Inr (Some r)"
  shows "grid_path w v (ro_points r) \<and> hd (ro_points r) = start \<and> last (ro_points r) = goal
    \<and> (\<forall>ps. grid_path w v ps \<and> hd ps = start \<and> last ps = goal \<longrightarrow> path_cost w (ro_points r) \<le> path_cost w ps)"
  by (rule astar_cheapest_path [OF assms])

definition demo_world :: world where
  "demo_world = \<lparr>wd_width = 2, wd_height = 2,
     wd_regions = [\<lparr>rg_id = ''wall'', rg_kind = RK_Obstacle, rg_min = \<lparr>px = 1, py = 0\<rparr>,
                    rg_max = \<lparr>px = 1, py = 1\<rparr>, rg_terrain = [], rg_mult = 1000, rg_closed = False\<rparr>],
     wd_cell = 1, wd_map_version = 1, wd_locations = []\<rparr>"

definition demo_vehicle :: vehicle_state where
  "demo_vehicle = \<lparr>vs_id = ''v'', vs_kind = ''rover'', vs_pos = \<lparr>px = 0, py = 0\<rparr>, vs_vx = 0, vs_vy = 0,
     vs_speed = 1, vs_energy = 100, vs_payload = 0, vs_caps = [Cap_Search], vs_terrain = [],
     vs_active = True, vs_initial = 100, vs_cost = 1000, vs_return = [], vs_capacity = 100\<rparr>"

lemma demo_route_evaluates:
  "(case astar demo_world demo_vehicle \<lparr>px = 0, py = 0\<rparr> \<lparr>px = 2, py = 0\<rparr> 1000 of
      Inr (Some r) \<Rightarrow> map (\<lambda>p. (px p, py p)) (ro_points r)
        = [(0, 0), (0, 1), (0, 2), (1, 2), (2, 2), (2, 1), (2, 0)]
    | _ \<Rightarrow> False)"
  by code_simp

theorem astar_optimal_witness:
  "\<exists>r. astar demo_world demo_vehicle \<lparr>px = 0, py = 0\<rparr> \<lparr>px = 2, py = 0\<rparr> 1000 = Inr (Some r)
     \<and> grid_path demo_world demo_vehicle (ro_points r)"
proof -
  obtain r where r: "astar demo_world demo_vehicle \<lparr>px = 0, py = 0\<rparr> \<lparr>px = 2, py = 0\<rparr> 1000 = Inr (Some r)"
    using demo_route_evaluates by (auto split: sum.splits option.splits)
  with astar_optimal [OF r] show ?thesis by blast
qed

text \<open>C31: when \<open>astar\<close> finds no route although both ends are on the grid and allowed, there is none: every
  path on the grid between them costs more than the 64-bit range can hold.\<close>

theorem astar_complete:
  assumes "astar w v start goal step = Inr None" and "searchable w v start goal step"
  shows "\<not> (\<exists>ps. grid_path w v ps \<and> hd ps = start \<and> last ps = goal \<and> path_cost w ps < i64_max)"
proof
  assume "\<exists>ps. grid_path w v ps \<and> hd ps = start \<and> last ps = goal \<and> path_cost w ps < i64_max"
  then obtain ps where ps: "grid_path w v ps" "hd ps = start" "last ps = goal" "path_cost w ps < i64_max" by blast
  from assms(2) obtain g s where g: "grid_ok g" and s: "search_state_ok g s" "\<not> search_active s"
    and ends: "node_point g (gr_start g) = start" "node_point g (gr_goal g) = goal"
    and f: "gr_world g = w" "gr_vehicle g = v"
    and dims: "gr_columns g = nat (wd_width w sdiv gr_cell g + 1)" "gr_rows g = nat (wd_height w sdiv gr_cell g + 1)"
    and run: "astar w v start goal step =
      (if qs_costs s ! gr_goal g = infinity then Inr None
       else bindR (build_route w v step (rev (map (node_point g) (the (trace (qs_parents s) (gr_start g) (gr_goal g))))))
              (\<lambda>r. Inr (Some r)))"
    by (rule astar_searchable)
  have sn: "gr_start g < nodes g" and cell: "0 < gr_cell g" using g by (simp_all add: grid_ok_def)
  have "qs_costs s ! gr_goal g = infinity" using assms(1) run by (auto split: if_splits)
  moreover from grid_path_walk [OF g, unfolded f, OF dims ps(1) _ sn] ps(2,3) ends
  obtain x where x: "goal = node_point g x" "walk g (gr_start g) (path_cost w ps) x" by auto
  have "x = gr_goal g" using node_point_inj [OF cell] x(1) ends(2) by metis
  with x(2) have "qs_costs s ! gr_goal g \<le> path_cost w ps" by (intro search_optimal [OF g s]) simp
  ultimately show False using ps(4) by (simp add: infinity_def)
qed

definition walled_world :: world where
  "walled_world = demo_world\<lparr>wd_regions := [\<lparr>rg_id = ''wall'', rg_kind = RK_Obstacle, rg_min = \<lparr>px = 1, py = 0\<rparr>,
     rg_max = \<lparr>px = 1, py = 2\<rparr>, rg_terrain = [], rg_mult = 1000, rg_closed = False\<rparr>]\<rparr>"

lemma walled_evaluates:
  "(case astar walled_world demo_vehicle \<lparr>px = 0, py = 0\<rparr> \<lparr>px = 2, py = 0\<rparr> 1000 of Inr None \<Rightarrow> True | _ \<Rightarrow> False)
   \<and> searchable walled_world demo_vehicle \<lparr>px = 0, py = 0\<rparr> \<lparr>px = 2, py = 0\<rparr> 1000"
  by code_simp

theorem astar_complete_witness:
  "\<not> (\<exists>ps. grid_path walled_world demo_vehicle ps \<and> hd ps = \<lparr>px = 0, py = 0\<rparr> \<and> last ps = \<lparr>px = 2, py = 0\<rparr>
     \<and> path_cost walled_world ps < i64_max)"
proof -
  have "astar walled_world demo_vehicle \<lparr>px = 0, py = 0\<rparr> \<lparr>px = 2, py = 0\<rparr> 1000 = Inr None"
    using walled_evaluates by (auto split: sum.splits option.splits)
  from astar_complete [OF this] walled_evaluates show ?thesis by blast
qed

end
