(* ===== verification/Planner_Laws.thy ===== *)
theory Planner_Laws
  imports Planner Astar_Laws
begin

text \<open>
  What the allocation protocol relies on: a feasible route leaves enough time and energy, the nearest
  capable vehicle is the nearest, the evaluator's cache never changes an answer, and the insertion it
  proposes is the best of all positions.
\<close>

subsection \<open>Selections\<close>

interpretation claims: least_key claim_key .

interpretation anchors: least_key anchor_key .

definition insertion_key :: "bundle_insertion \<Rightarrow> i64 \<times> i64 \<times> i64 \<times> u64 \<times> nat" where
  "insertion_key i = (- bi_score i, bi_distance i, bi_energy i, bi_completion i, bi_index i)"

interpretation insertions: least_key insertion_key .

lemma better_insertion_key: "better_insertion = (\<lambda>a b. insertion_key a < insertion_key b)"
  by (intro ext) (auto simp: better_insertion_def insertion_key_def)

subsection \<open>The nearest capable vehicle\<close>

lemma consider_vehicles_best:
  assumes "foldR (consider_vehicle w t tick step epoch version) winner vs = Inr winner'"
    and "claims.best_of winner S"
  shows "\<exists>cs. list_all2 (\<lambda>v c. make_claim w v t tick step epoch version = Inr c) vs cs
    \<and> claims.best_of winner' (S \<union> {c \<in> set cs. cl_feasible c})"
  using assms
proof (induction vs arbitrary: winner S)
  case Nil
  then show ?case by (intro exI [of _ "[]"]) simp
next
  case (Cons v vs)
  from Cons.prems(1) obtain u where u: "consider_vehicle w t tick step epoch version winner v = Inr u"
    and rest_u: "foldR (consider_vehicle w t tick step epoch version) u vs = Inr winner'" by auto
  from u obtain c where c: "make_claim w v t tick step epoch version = Inr c"
    and u_eq: "u = (if \<not> cl_feasible c then winner else keep_best (\<lambda>a b. claim_key a < claim_key b) winner c)"
    unfolding consider_vehicle_def bindR_eq_Inr by blast
  note rest = rest_u [unfolded u_eq]
  let ?S = "if cl_feasible c then insert c S else S"
  have "claims.best_of (if \<not> cl_feasible c then winner else keep_best (\<lambda>a b. claim_key a < claim_key b) winner c) ?S"
    using claims.best_of_keep [OF Cons.prems(2)] Cons.prems(2) by simp
  from Cons.IH [OF rest this] obtain cs where
    cs: "list_all2 (\<lambda>v c. make_claim w v t tick step epoch version = Inr c) vs cs"
      "claims.best_of winner' (?S \<union> {c \<in> set cs. cl_feasible c})" by blast
  have "?S \<union> {c \<in> set cs. cl_feasible c} = S \<union> {k \<in> set (c # cs). cl_feasible k}" by auto
  with c cs show ?case by (intro exI [of _ "c # cs"]) simp
qed

lemma make_claim_agent:
  "make_claim w v t tick step epoch version = Inr c \<Longrightarrow>
     cl_agent c = vs_id v \<and> cl_task c = ts_id t \<and> cl_epoch c = epoch \<and> cl_version c = version"
  by (auto simp: make_claim_def)

subsection \<open>Feasibility\<close>

lemma three_guards:
  "(if a then None else if b then None else if c then None else Some x) = Some y \<Longrightarrow>
     \<not> a \<and> \<not> b \<and> \<not> c \<and> x = y"
  by (simp split: if_splits)

lemma feasible_route_found:
  assumes "feasible_route w v t tick step = Inr (Some r)"
  shows "(vs_active v \<and> ts_status t = TS_Pending \<and> has_capability v (ts_cap t)
      \<and> ts_payload t \<le> vs_payload v \<and> tick \<le> ts_deadline t)
    \<and> route_from w v (vs_pos v) (ts_target t) step = Inr (Some r)
    \<and> (ro_ticks r \<le> ts_deadline t - tick \<and> remaining_service t \<le> ts_deadline t - tick - ro_ticks r)
    \<and> ro_energy r \<le> vs_energy v - reserve_energy v
    \<and> 0 \<le> to_i64 (remaining_service t) * ts_service_energy t
    \<and> to_i64 (remaining_service t) * ts_service_energy t \<le> vs_energy v - reserve_energy v - ro_energy r"
proof -
  let ?guard = "\<not> vs_active v \<or> ts_status t \<noteq> TS_Pending \<or> \<not> has_capability v (ts_cap t)
         \<or> vs_payload v < ts_payload t \<or> tick > ts_deadline t"
  have g: "\<not> ?guard"
  proof
    assume ?guard
    then have "feasible_route w v t tick step = Inr None" unfolding feasible_route_def by (rule if_P)
    with assms show False by simp
  qed
  then have eq: "feasible_route w v t tick step =
      bindR (route_from w v (vs_pos v) (ts_target t) step) (\<lambda>found.
          case found of
            None \<Rightarrow> Inr None
          | Some r \<Rightarrow>
              let remaining_deadline = ts_deadline t - tick;
                  available = vs_energy v - reserve_energy v;
                  service_energy = to_i64 (remaining_service t) * ts_service_energy t
              in Inr (if ro_ticks r > remaining_deadline
                         \<or> remaining_service t > remaining_deadline - ro_ticks r then None
                      else if available < 0 \<or> ro_energy r > available then None
                      else if service_energy < 0 \<or> service_energy > available - ro_energy r then None
                      else Some r))"
    unfolding feasible_route_def by (rule if_not_P)
  from assms [unfolded eq bindR_eq_Inr Let_def] obtain found where
    found: "route_from w v (vs_pos v) (ts_target t) step = Inr found" and
    rest: "(case found of None \<Rightarrow> Inr None
          | Some r \<Rightarrow> Inr (if ro_ticks r > ts_deadline t - tick
                         \<or> remaining_service t > ts_deadline t - tick - ro_ticks r then None
                      else if vs_energy v - reserve_energy v < 0 \<or> ro_energy r > vs_energy v - reserve_energy v then None
                      else if to_i64 (remaining_service t) * ts_service_energy t < 0
                        \<or> to_i64 (remaining_service t) * ts_service_energy t
                          > vs_energy v - reserve_energy v - ro_energy r then None
                      else Some r)) = (Inr (Some r) :: route option result)"
    by blast
  show ?thesis
  proof (cases found)
    case None
    with rest show ?thesis by simp
  next
    case (Some r')
    note three = three_guards [OF rest [unfolded Some option.case sum.inject]]
    then have eq: "r' = r" by (elim conjE)
    show ?thesis using three g found
      unfolding eq Some de_Morgan_disj not_not not_less by (elim conjE) (intro conjI, assumption+)
  qed
qed

lemma unat_chain_sub:
  fixes a b c d :: u64
  assumes "a \<le> d" and "b \<le> d - a" and "c \<le> d - a - b"
  shows "unat a + unat b + unat c \<le> unat d"
proof -
  have "unat (d - a) = unat d - unat a" using assms(1) by (rule unat_sub)
  moreover have "unat (d - a - b) = unat (d - a) - unat b" using assms(2) by (rule unat_sub)
  ultimately show ?thesis using assms by (simp add: word_le_nat_alt)
qed

subsection \<open>Routes\<close>

lemma route_from_ends:
  assumes "route_from w v start goal step = Inr (Some r)"
  shows "hd (ro_points r) = start \<and> last (ro_points r) = goal
    \<and> (grid_path w v (ro_points r)
       \<or> (\<exists>anchor \<in> set (route_anchors (wd_cell w) start). segment_allowed w v start anchor
            \<and> hd (tl (ro_points r)) = anchor \<and> grid_path w v (tl (ro_points r))))"
proof (cases "px start smod wd_cell w = 0 \<and> py start smod wd_cell w = 0")
  case True
  with assms have "astar w v start goal step = Inr (Some r)" by (auto simp: route_from_def Let_def split: if_splits)
  from astar_path [OF this] show ?thesis by blast
next
  case False
  define ok where "ok = (\<lambda>b :: (route \<times> point) option. case b of None \<Rightarrow> True
    | Some (r, anchor) \<Rightarrow> anchor \<in> set (route_anchors (wd_cell w) start) \<and> segment_allowed w v start anchor
        \<and> (\<exists>ps. ro_points r = start # ps \<and> grid_path w v ps \<and> hd ps = anchor \<and> last ps = goal))"
  from False assms obtain best where run: "foldR (try_anchor w v start goal step) None (route_anchors (wd_cell w) start) = Inr best"
    and r: "map_option fst best = Some r" by (auto simp: route_from_def Let_def split: if_splits)
  have step: "ok b'" if "anchor \<in> set (route_anchors (wd_cell w) start)" "ok b"
    "try_anchor w v start goal step b anchor = Inr b'" for anchor b b'
  proof (cases "segment_allowed w v start anchor")
    case False
    with that show ?thesis by (simp add: try_anchor_def)
  next
    case allowed: True
    with that(3) obtain found where found: "astar w v anchor goal step = Inr found" by (auto simp: try_anchor_def)
    show ?thesis
    proof (cases found)
      case None
      with that allowed found show ?thesis by (simp add: try_anchor_def)
    next
      case (Some r)
      with astar_path [of w v anchor goal step r] found
      have p: "grid_path w v (ro_points r)" "hd (ro_points r) = anchor" "last (ro_points r) = goal" by simp_all
      from that(3) obtain energy where
        b': "b' = keep_best (\<lambda>a b. anchor_key a < anchor_key b) b (
            r\<lparr>ro_distance := ro_distance r + (abs (px start - px anchor) + abs (py start - py anchor)),
              ro_energy := ro_energy r + energy,
              ro_ticks := ro_ticks r + edge_ticks (abs (px start - px anchor) + abs (py start - py anchor)) v step,
              ro_points := start # ro_points r\<rparr>, anchor)" (is "_ = keep_best _ _ (?r', _)")
        by (auto simp: try_anchor_def Let_def allowed found Some simp del: keep_best_def)
      have "ok (Some (?r', anchor))" using that(1) allowed p by (simp add: ok_def)
      with that(2) show ?thesis by (auto simp: b' keep_best_def split: option.splits)
    qed
  qed
  have "ok best" by (rule foldR_invariant [OF run]) (use step in \<open>auto simp: ok_def\<close>)
  then obtain anchor ps where a: "anchor \<in> set (route_anchors (wd_cell w) start)" "segment_allowed w v start anchor"
    "ro_points r = start # ps" "grid_path w v ps" "hd ps = anchor" "last ps = goal"
    using r by (cases best) (auto simp: ok_def)
  then have "ps \<noteq> []" by auto
  with a show ?thesis by auto
qed

subsection \<open>The cache\<close>

text \<open>A cache in front of a computation that may throw.\<close>

locale memo =
  fixes compute :: "'k \<Rightarrow> 'v result"
    and fetch :: "'k \<Rightarrow> ('k \<Rightarrow> 'v option) \<Rightarrow> ('v \<times> ('k \<Rightarrow> 'v option)) result"
  assumes hit: "c k = Some x \<Longrightarrow> fetch k c = Inr (x, c)"
    and miss: "c k = None \<Longrightarrow> fetch k c = bindR (compute k) (\<lambda>x. Inr (x, c(k \<mapsto> x)))"
begin

definition sound :: "('k \<Rightarrow> 'v option) \<Rightarrow> bool" where
  "sound c \<longleftrightarrow> (\<forall>k x. c k = Some x \<longrightarrow> compute k = Inr x)"

lemma sound_empty: "sound Map.empty"
  by (simp add: sound_def)

lemma fetch_sound:
  assumes "sound c"
  shows "case fetch k c of Inl e \<Rightarrow> compute k = Inl e | Inr (x, c') \<Rightarrow> compute k = Inr x \<and> sound c'"
proof (cases "c k")
  case None
  then show ?thesis using assms by (cases "compute k") (auto simp: miss [of c k, OF None] sound_def)
next
  case (Some x)
  then show ?thesis using assms by (simp add: hit [of c k, OF Some] sound_def)
qed

end

interpretation routes: memo "\<lambda>k. route_from w v (fst k) (snd k) step" "route_to w v step" for w v step
  by unfold_locales (simp_all add: route_to_def)

text \<open>The evaluation without a cache.\<close>

definition plain_route :: "world \<Rightarrow> vehicle_state \<Rightarrow> u64 \<Rightarrow> point \<times> point \<Rightarrow> unit \<Rightarrow> (route option \<times> unit) result" where
  "plain_route w v step_ms key c = bindR (route_from w v (fst key) (snd key) step_ms) (\<lambda>r. Inr (r, ()))"

definition evaluate_plain :: "world \<Rightarrow> vehicle_state \<Rightarrow> u64 \<Rightarrow> u64 \<Rightarrow> task_state list \<Rightarrow> bundle_eval option result" where
  "evaluate_plain w v tick step_ms tasks =
     bindR (evaluate_with (plain_route w v step_ms) v tick step_ms tasks ()) (\<lambda>(e, c). Inr e)"

definition agrees :: "('c \<Rightarrow> bool) \<Rightarrow> ('a \<times> 'c) result \<Rightarrow> ('a \<times> unit) result \<Rightarrow> bool" where
  "agrees ok cached plain \<longleftrightarrow>
     (case cached of Inl e \<Rightarrow> plain = Inl e | Inr (x, c) \<Rightarrow> plain = Inr (x, ()) \<and> ok c)"

text \<open>One round of the loop, apart from where its route comes from.\<close>

definition after_leg :: "bundle_eval \<Rightarrow> task_state \<Rightarrow> route \<Rightarrow> bundle_eval" where
  "after_leg b t r =
     b\<lparr>be_distance := be_distance b + ro_distance r,
       be_energy := be_energy b + (ro_energy r + to_i64 (remaining_service t) * ts_service_energy t),
       be_completion := be_completion b + (ro_ticks r + remaining_service t)\<rparr>"

definition leg_refused :: "i64 \<Rightarrow> bundle_eval \<Rightarrow> task_state \<Rightarrow> route \<Rightarrow> bool" where
  "leg_refused available b t r \<longleftrightarrow> to_i64 (remaining_service t) * ts_service_energy t < 0
     \<or> be_energy (after_leg b t r) > available \<or> be_completion b + (ro_ticks r + remaining_service t) > ts_deadline t"

lemma evaluate_loop_Cons:
  "evaluate_loop fetch v available b position payload (t # ts) c =
     (if ts_status t \<noteq> TS_Pending \<or> \<not> has_capability v (ts_cap t) \<or> payload < ts_payload t
         \<or> be_completion b > ts_deadline t
      then Inr (None, c)
      else bindR (fetch (position, ts_target t) c) (\<lambda>(found, c').
          case found of
            None \<Rightarrow> Inr (None, c')
          | Some r \<Rightarrow>
              if leg_refused available b t r then Inr (None, c')
              else evaluate_loop fetch v available
                     ((after_leg b t r)\<lparr>be_ticks := be_ticks (after_leg b t r) @ [be_completion b + (ro_ticks r + remaining_service t)]\<rparr>)
                     (ts_target t) (if ts_cap t = Cap_Delivery then payload - ts_payload t else payload) ts c'))"
  unfolding evaluate_loop.simps Let_def leg_refused_def after_leg_def by (rule refl)

declare evaluate_loop.simps(2) [simp del]

lemma evaluate_loop_agrees:
  assumes "routes.sound w v step cache"
  shows "agrees (routes.sound w v step)
    (evaluate_loop (route_to w v step) v available b position payload ts cache)
    (evaluate_loop (plain_route w v step) v available b position payload ts ())"
  using assms
proof (induction ts arbitrary: b position payload cache)
  case Nil
  then show ?case by (simp add: agrees_def)
next
  case (Cons t ts)
  let ?k = "(position, ts_target t)"
  have f: "case route_to w v step ?k cache of Inl e \<Rightarrow> route_from w v position (ts_target t) step = Inl e
      | Inr (x, c') \<Rightarrow> route_from w v position (ts_target t) step = Inr x \<and> routes.sound w v step c'"
    using routes.fetch_sound [OF Cons.prems, of ?k] unfolding fst_conv snd_conv .
  show ?case
  proof (cases "ts_status t \<noteq> TS_Pending \<or> \<not> has_capability v (ts_cap t) \<or> payload < ts_payload t
         \<or> be_completion b > ts_deadline t")
    case True
    have eq: "evaluate_loop fetch v available b position payload (t # ts) c = Inr (None, c)"
      for fetch :: "point \<times> point \<Rightarrow> 'c \<Rightarrow> (route option \<times> 'c) result" and c
      unfolding evaluate_loop_Cons using True by (rule if_P)
    show ?thesis by (simp add: eq agrees_def Cons.prems)
  next
    case False
    note eq = evaluate_loop_Cons [of _ v available b position payload t ts, unfolded if_not_P [OF False]]
    show ?thesis
    proof (cases "route_to w v step ?k cache")
      case (Inl e)
      with f show ?thesis by (simp add: eq agrees_def plain_route_def)
    next
      case (Inr r)
      obtain found c' where r: "r = (found, c')" by (cases r)
      with f Inr have "route_from w v position (ts_target t) step = Inr found" and c': "routes.sound w v step c'"
        by simp_all
      with Inr r Cons.IH [OF c'] show ?thesis
        by (cases found) (simp_all add: eq agrees_def plain_route_def)
    qed
  qed
qed

lemma evaluate_agrees:
  assumes "routes.sound w v step cache"
  shows "case evaluate w v tick step tasks cache of
      Inl e \<Rightarrow> evaluate_plain w v tick step tasks = Inl e
    | Inr (x, c') \<Rightarrow> evaluate_plain w v tick step tasks = Inr x \<and> routes.sound w v step c'"
proof -
  have "agrees (routes.sound w v step) (evaluate w v tick step tasks cache)
      (evaluate_with (plain_route w v step) v tick step tasks ())"
  proof (cases "\<not> vs_active v \<or> step = 0 \<or> vs_energy v - reserve_energy v < 0")
    case True
    with assms show ?thesis by (auto simp: evaluate_def evaluate_with_def agrees_def)
  next
    case False
    have eq: "evaluate_with fetch v tick step tasks c = evaluate_loop fetch v (vs_energy v - reserve_energy v)
        \<lparr>be_distance = 0, be_energy = 0, be_completion = tick, be_ticks = []\<rparr> (vs_pos v) (vs_payload v) tasks c"
      for fetch :: "point \<times> point \<Rightarrow> 'c \<Rightarrow> (route option \<times> 'c) result" and c
      using False by (simp add: evaluate_with_def)
    show ?thesis unfolding evaluate_def eq by (rule evaluate_loop_agrees [OF assms])
  qed
  then show ?thesis by (auto simp: agrees_def evaluate_plain_def split: sum.splits)
qed

lemma evaluate_bundle_plain: "evaluate_bundle w v tasks tick step = evaluate_plain w v tick step tasks"
  using evaluate_agrees [OF routes.sound_empty, where w = w and v = v and step = step and tick = tick and tasks = tasks]
  by (auto simp: evaluate_bundle_def bindR_def split: sum.splits)

text \<open>Several bundles put to one evaluator, one after the other.\<close>

fun evaluate_all ::
    "world \<Rightarrow> vehicle_state \<Rightarrow> u64 \<Rightarrow> u64 \<Rightarrow> task_state list list \<Rightarrow> route_cache \<Rightarrow> bundle_eval option list result" where
  "evaluate_all w v tick step_ms [] cache = Inr []"
| "evaluate_all w v tick step_ms (ts # tss) cache =
     bindR (evaluate w v tick step_ms ts cache) (\<lambda>(e, cache').
       bindR (evaluate_all w v tick step_ms tss cache') (\<lambda>es. Inr (e # es)))"

fun evaluate_each :: "world \<Rightarrow> vehicle_state \<Rightarrow> u64 \<Rightarrow> u64 \<Rightarrow> task_state list list \<Rightarrow> bundle_eval option list result" where
  "evaluate_each w v tick step_ms [] = Inr []"
| "evaluate_each w v tick step_ms (ts # tss) =
     bindR (evaluate_bundle w v ts tick step_ms) (\<lambda>e.
       bindR (evaluate_each w v tick step_ms tss) (\<lambda>es. Inr (e # es)))"

lemma evaluate_all_each:
  "routes.sound w v step cache \<Longrightarrow> evaluate_all w v tick step tss cache = evaluate_each w v tick step tss"
proof (induction tss arbitrary: cache)
  case (Cons ts tss)
  from evaluate_agrees [OF Cons.prems, of tick ts] Cons.IH show ?case
    by (cases "evaluate w v tick step ts cache") (auto simp: evaluate_bundle_plain)
qed simp

text \<open>The loop's own invariant: what the bundle costs so far is within the vehicle's means.\<close>

lemma evaluate_loop_bounds:
  assumes "evaluate_loop fetch v available b position payload ts c = Inr (Some b', c')"
    and "be_energy b \<le> available"
  shows "\<exists>ticks. be_ticks b' = be_ticks b @ ticks
    \<and> list_all2 (\<lambda>t k. ts_status t = TS_Pending \<and> has_capability v (ts_cap t) \<and> k \<le> ts_deadline t) ts ticks
    \<and> be_energy b' \<le> available"
  using assms
proof (induction ts arbitrary: b position payload c)
  case Nil
  then show ?case by simp
next
  case (Cons t ts)
  let ?guard = "ts_status t \<noteq> TS_Pending \<or> \<not> has_capability v (ts_cap t) \<or> payload < ts_payload t
         \<or> be_completion b > ts_deadline t"
  have g: "\<not> ?guard" using Cons.prems(1) unfolding evaluate_loop_Cons by (metis Pair_inject sum.inject(2) option.distinct(1))
  note run = Cons.prems(1) [unfolded evaluate_loop_Cons if_not_P [OF g]]
  from run obtain r c1 where not_refused: "\<not> leg_refused available b t r" and
    rest: "evaluate_loop fetch v available
        ((after_leg b t r)\<lparr>be_ticks := be_ticks (after_leg b t r) @ [be_completion b + (ro_ticks r + remaining_service t)]\<rparr>)
        (ts_target t) (if ts_cap t = Cap_Delivery then payload - ts_payload t else payload) ts c1 = Inr (Some b', c')"
    by (auto split: option.splits if_split_asm)
  let ?b = "(after_leg b t r)\<lparr>be_ticks := be_ticks (after_leg b t r) @ [be_completion b + (ro_ticks r + remaining_service t)]\<rparr>"
  from not_refused have e: "be_energy ?b \<le> available"
    and k: "be_completion b + (ro_ticks r + remaining_service t) \<le> ts_deadline t"
    by (simp_all add: leg_refused_def not_less)
  from Cons.IH [OF rest e] obtain ticks where
    ticks: "be_ticks b' = be_ticks ?b @ ticks" "be_energy b' \<le> available"
      "list_all2 (\<lambda>t k. ts_status t = TS_Pending \<and> has_capability v (ts_cap t) \<and> k \<le> ts_deadline t) ts ticks" by blast
  have "be_ticks ?b = be_ticks b @ [be_completion b + (ro_ticks r + remaining_service t)]"
    by (simp add: after_leg_def)
  with ticks g k show ?case
    by (intro exI [of _ "(be_completion b + (ro_ticks r + remaining_service t)) # ticks"]) simp
qed

lemma evaluate_plain_bounds:
  assumes "evaluate_plain w v tick step tasks = Inr (Some b)"
  shows "vs_active v \<and> be_energy b + reserve_energy v \<le> vs_energy v
    \<and> list_all2 (\<lambda>t k. ts_status t = TS_Pending \<and> has_capability v (ts_cap t) \<and> k \<le> ts_deadline t) tasks (be_ticks b)"
proof -
  from assms obtain c where run: "evaluate_with (plain_route w v step) v tick step tasks () = Inr (Some b, c)"
    by (auto simp: evaluate_plain_def)
  have g: "\<not> (\<not> vs_active v \<or> step = 0)" "\<not> vs_energy v - reserve_energy v < 0"
    using run by (auto simp: evaluate_with_def Let_def split: if_split_asm)
  note run' = run [unfolded evaluate_with_def Let_def if_not_P [OF g(1)] if_not_P [OF g(2)]]
  from evaluate_loop_bounds [OF run'] g show ?thesis by auto
qed

subsection \<open>Insertions\<close>

definition insertion_at ::
    "world \<Rightarrow> vehicle_state \<Rightarrow> u64 \<Rightarrow> u64 \<Rightarrow> task_state list \<Rightarrow> task_state \<Rightarrow> bundle_eval \<Rightarrow> nat \<Rightarrow> bundle_insertion option" where
  "insertion_at w v tick step_ms tasks candidate current index =
     (case evaluate_plain w v tick step_ms (insert_task index candidate tasks) of
        Inr (Some e) \<Rightarrow> Some (insertion_of tasks candidate current e index) | _ \<Rightarrow> None)"

lemma try_insertions_best:
  assumes "foldR (try_insertion w v tick step tasks candidate current) (best, cache) is = Inr (best', cache')"
    and "routes.sound w v step cache" and "insertions.best_of best S"
  shows "insertions.best_of best' (S \<union> {i. \<exists>index \<in> set is. insertion_at w v tick step tasks candidate current index = Some i})"
  using assms
proof (induction "is" arbitrary: best cache S)
  case Nil
  then show ?case by simp
next
  case (Cons k ks)
  let ?at = "insertion_at w v tick step tasks candidate current"
  from Cons.prems(1) obtain best1 cache1 where one: "try_insertion w v tick step tasks candidate current (best, cache) k = Inr (best1, cache1)"
    and rest: "foldR (try_insertion w v tick step tasks candidate current) (best1, cache1) ks = Inr (best', cache')" by auto
  from one obtain e where e: "evaluate w v tick step (insert_task k candidate tasks) cache = Inr (e, cache1)"
    and b1: "best1 = (case e of None \<Rightarrow> best
      | Some x \<Rightarrow> keep_best better_insertion best (insertion_of tasks candidate current x k))"
    by (auto simp: try_insertion_def split: option.splits)
  from evaluate_agrees [OF Cons.prems(2), of tick "insert_task k candidate tasks"] e
  have plain: "evaluate_plain w v tick step (insert_task k candidate tasks) = Inr e" and c1: "routes.sound w v step cache1"
    by simp_all
  let ?S = "S \<union> {i. ?at k = Some i}"
  have "insertions.best_of best1 ?S"
    using Cons.prems(3) insertions.best_of_keep [OF Cons.prems(3)]
    by (cases e) (simp_all add: b1 insertion_at_def plain better_insertion_key)
  from Cons.IH [OF rest c1 this] show ?case by (simp add: Un_assoc Collect_disj_eq [symmetric])
qed

subsection \<open>Properties\<close>

text \<open>C30: a route that makes a task feasible starts where the vehicle stands and ends at the task, the vehicle is
  active and has the capability and the payload, the arrival and the remaining service end by the deadline (as
  numbers: no tick count wraps), and the energy of the way and of the service leaves the reserve untouched.\<close>

theorem feasible_route_sound:
  assumes "feasible_route w v t tick step = Inr (Some r)"
  shows "vs_active v \<and> ts_status t = TS_Pending \<and> has_capability v (ts_cap t) \<and> ts_payload t \<le> vs_payload v
    \<and> hd (ro_points r) = vs_pos v \<and> last (ro_points r) = ts_target t
    \<and> unat tick + unat (ro_ticks r) + unat (remaining_service t) \<le> unat (ts_deadline t)
    \<and> ro_energy r + to_i64 (remaining_service t) * ts_service_energy t + reserve_energy v \<le> vs_energy v"
proof -
  note found = feasible_route_found [OF assms]
  from found have "unat tick + unat (ro_ticks r) + unat (remaining_service t) \<le> unat (ts_deadline t)"
    by (intro unat_chain_sub) simp_all
  with found route_from_ends [of w v "vs_pos v" "ts_target t" step r] show ?thesis by simp
qed

definition demo_task :: task_state where
  "demo_task = \<lparr>ts_id = ''t'', ts_kind = ''search'', ts_target = \<lparr>px = 0, py = 1\<rparr>, ts_cap = Cap_Search, ts_payload = 0,
     ts_deadline = 20, ts_radius = 0, ts_agent = [], ts_status = TS_Pending, ts_service = 2, ts_service_energy = 1,
     ts_progress = 0, ts_epoch = 0, ts_version = 0, ts_priority = 1, ts_score = 0, ts_position = 0\<rparr>"

lemma demo_task_feasible:
  "(case feasible_route demo_world demo_vehicle demo_task 1 1000 of Inr (Some r) \<Rightarrow> ro_ticks r = 1 | _ \<Rightarrow> False)"
  by code_simp

theorem feasible_route_sound_witness:
  "\<exists>r. feasible_route demo_world demo_vehicle demo_task 1 1000 = Inr (Some r)
     \<and> last (ro_points r) = \<lparr>px = 0, py = 1\<rparr> \<and> ro_energy r + 2 + 10 \<le> 100"
proof -
  obtain r where r: "feasible_route demo_world demo_vehicle demo_task 1 1000 = Inr (Some r)"
    using demo_task_feasible by (auto split: sum.splits option.splits)
  have "to_i64 (remaining_service demo_task) * ts_service_energy demo_task = 2" "reserve_energy demo_vehicle = 10"
    "vs_energy demo_vehicle = 100" "ts_target demo_task = \<lparr>px = 0, py = 1\<rparr>" by code_simp+
  with r feasible_route_sound [OF r] show ?thesis by auto
qed

text \<open>C28: \<open>nearest_capable\<close> returns a claim that one of the vehicles makes and that is feasible, and no feasible
  claim of any vehicle is nearer, or as near with a smaller agent identifier; it returns none exactly when no vehicle
  has a feasible claim.\<close>

theorem nearest_capable_least:
  assumes "nearest_capable w vs t tick step epoch version = Inr winner"
  shows "\<exists>cs. list_all2 (\<lambda>v c. make_claim w v t tick step epoch version = Inr c) vs cs
    \<and> (case winner of
         None \<Rightarrow> \<forall>c \<in> set cs. \<not> cl_feasible c
       | Some b \<Rightarrow> b \<in> set cs \<and> cl_feasible b
           \<and> (\<forall>c \<in> set cs. cl_feasible c \<longrightarrow> (cl_distance b, cl_agent b) \<le> (cl_distance c, cl_agent c)))"
proof -
  from consider_vehicles_best [OF assms [unfolded nearest_capable_def] claims.best_of_empty]
  obtain cs where cs: "list_all2 (\<lambda>v c. make_claim w v t tick step epoch version = Inr c) vs cs"
    and best: "claims.best_of winner {c \<in> set cs. cl_feasible c}" by auto
  show ?thesis
  proof (intro exI [of _ cs] conjI cs)
    show "case winner of None \<Rightarrow> \<forall>c \<in> set cs. \<not> cl_feasible c
       | Some b \<Rightarrow> b \<in> set cs \<and> cl_feasible b
           \<and> (\<forall>c \<in> set cs. cl_feasible c \<longrightarrow> (cl_distance b, cl_agent b) \<le> (cl_distance c, cl_agent c))"
      using best unfolding claims.best_of_def not_less claim_key_def [symmetric] by (cases winner) auto
  qed
qed

definition far_vehicle :: vehicle_state where
  "far_vehicle = demo_vehicle\<lparr>vs_id := ''a'', vs_pos := \<lparr>px = 0, py = 2\<rparr>\<rparr>"

lemma demo_nearest_evaluates:
  "(case nearest_capable demo_world [demo_vehicle, far_vehicle] demo_task 1 1000 3 4 of
      Inr (Some c) \<Rightarrow> cl_agent c = ''a'' | _ \<Rightarrow> False)"
  by code_simp

theorem nearest_capable_least_witness:
  "\<exists>c. nearest_capable demo_world [demo_vehicle, far_vehicle] demo_task 1 1000 3 4 = Inr (Some c) \<and> cl_feasible c"
proof -
  obtain c where c: "nearest_capable demo_world [demo_vehicle, far_vehicle] demo_task 1 1000 3 4 = Inr (Some c)"
    using demo_nearest_evaluates by (auto split: sum.splits option.splits)
  with nearest_capable_least [OF c] show ?thesis by auto
qed

text \<open>C37: the evaluator's cache of routes is invisible: any sequence of bundles put to one evaluator gets the answers
  that a fresh evaluator would give to each of them, errors included.\<close>

theorem evaluator_cache_transparent:
  "evaluate_all w v tick step bundles Map.empty = evaluate_each w v tick step bundles"
  by (rule evaluate_all_each [OF routes.sound_empty])

text \<open>A bundle that evaluates is one the vehicle can carry out: every task is pending and within the vehicle's
  capabilities, is completed by its own deadline, and the energy of all legs and services leaves the reserve.\<close>

theorem evaluate_bundle_bounds:
  assumes "evaluate_bundle w v tasks tick step = Inr (Some b)"
  shows "vs_active v \<and> be_energy b + reserve_energy v \<le> vs_energy v
    \<and> list_all2 (\<lambda>t k. ts_status t = TS_Pending \<and> has_capability v (ts_cap t) \<and> k \<le> ts_deadline t) tasks (be_ticks b)"
  by (rule evaluate_plain_bounds [OF assms [unfolded evaluate_bundle_plain]])

definition second_task :: task_state where
  "second_task = demo_task\<lparr>ts_id := ''u'', ts_target := \<lparr>px = 0, py = 2\<rparr>\<rparr>"

lemma demo_bundle_evaluates:
  "(case evaluate_bundle demo_world demo_vehicle [demo_task, second_task] 1 1000 of
      Inr (Some b) \<Rightarrow> be_ticks b = [4, 7] | _ \<Rightarrow> False)"
  by code_simp

theorem evaluate_bundle_bounds_witness:
  "\<exists>b. evaluate_bundle demo_world demo_vehicle [demo_task, second_task] 1 1000 = Inr (Some b)
     \<and> be_energy b + reserve_energy demo_vehicle \<le> vs_energy demo_vehicle"
proof -
  obtain b where b: "evaluate_bundle demo_world demo_vehicle [demo_task, second_task] 1 1000 = Inr (Some b)"
    using demo_bundle_evaluates by (auto split: sum.splits option.splits)
  with evaluate_bundle_bounds [OF b] show ?thesis by blast
qed

text \<open>C32: \<open>best_insertion\<close> tries every position from \<open>minimum_index\<close> to the end of the bundle: the insertion it
  returns is at such a position, the bundle with the task there is feasible, and no feasible position scores higher, or
  equal with less distance, energy, completion tick or index; with none returned for a new task and a feasible bundle,
  no position is feasible.\<close>

theorem best_insertion_best:
  assumes "best_insertion_once w v tasks candidate tick step minimum = Inr best"
    and "evaluate_bundle w v tasks tick step = Inr (Some current)"
    and "minimum \<le> length tasks" and "ts_id candidate \<notin> ts_id ` set tasks"
  shows "let at = insertion_at w v tick step tasks candidate current; positions = {minimum..length tasks}
    in case best of
         None \<Rightarrow> \<forall>k \<in> positions. at k = None
       | Some b \<Rightarrow> bi_index b \<in> positions \<and> at (bi_index b) = Some b
           \<and> (\<forall>k \<in> positions. \<forall>i. at k = Some i \<longrightarrow> \<not> better_insertion i b)"
proof -
  let ?at = "insertion_at w v tick step tasks candidate current"
  have ids: "\<not> (minimum > length tasks \<or> (\<exists>t \<in> set tasks. ts_id t = ts_id candidate))"
    using assms(3,4) by (auto simp: not_less image_iff)
  from assms(2) [unfolded evaluate_bundle_plain] obtain cache where e: "evaluate w v tick step tasks Map.empty = Inr (Some current, cache)"
    and sound: "routes.sound w v step cache"
    using evaluate_agrees [OF routes.sound_empty, where w = w and v = v and step = step and tick = tick and tasks = tasks]
    by (auto split: sum.splits)
  from assms(1) obtain cache' where
    run: "foldR (try_insertion w v tick step tasks candidate current) (None, cache) [minimum..<Suc (length tasks)]
      = Inr (best, cache')"
    unfolding best_insertion_once_def best_insertion_def if_not_P [OF ids] e by auto
  have best: "insertions.best_of best {i. \<exists>k \<in> set [minimum..<Suc (length tasks)]. ?at k = Some i}"
    using try_insertions_best [OF run sound insertions.best_of_empty] by simp
  have index: "bi_index i = k" if "?at k = Some i" for i k
    using that by (auto simp: insertion_at_def insertion_of_def Let_def split: sum.splits option.splits)
  have positions: "set [minimum..<Suc (length tasks)] = {minimum..length tasks}" by auto
  show ?thesis
  proof (cases best)
    case None
    with best [unfolded positions] show ?thesis by (simp add: insertions.best_of_def) (metis not_None_eq)
  next
    case (Some b)
    from best [unfolded positions Some insertions.best_of_def option.case mem_Collect_eq]
    obtain k where k: "k \<in> {minimum..length tasks}" "?at k = Some b"
      and least: "\<And>k i. k \<in> {minimum..length tasks} \<Longrightarrow> ?at k = Some i \<Longrightarrow> \<not> better_insertion i b"
      unfolding better_insertion_key by blast
    have "bi_index b = k" by (rule index [OF k(2)])
    with k show ?thesis unfolding Let_def Some option.case by (intro conjI ballI allI impI least) auto
  qed
qed

lemma demo_insertion_evaluates:
  "(case best_insertion_once demo_world demo_vehicle [demo_task] second_task 1 1000 0 of
      Inr (Some b) \<Rightarrow> bi_index b = 1 | _ \<Rightarrow> False)
   \<and> (case evaluate_bundle demo_world demo_vehicle [demo_task] 1 1000 of Inr (Some _) \<Rightarrow> True | _ \<Rightarrow> False)
   \<and> ts_id second_task \<notin> ts_id ` set [demo_task]"
  by code_simp

theorem best_insertion_best_witness:
  "\<exists>b current. best_insertion_once demo_world demo_vehicle [demo_task] second_task 1 1000 0 = Inr (Some b)
     \<and> insertion_at demo_world demo_vehicle 1 1000 [demo_task] second_task current (bi_index b) = Some b"
proof -
  obtain b current where b: "best_insertion_once demo_world demo_vehicle [demo_task] second_task 1 1000 0 = Inr (Some b)"
    "evaluate_bundle demo_world demo_vehicle [demo_task] 1 1000 = Inr (Some current)"
    using demo_insertion_evaluates by (auto split: sum.splits option.splits)
  from best_insertion_best [OF b] demo_insertion_evaluates
  have "insertion_at demo_world demo_vehicle 1 1000 [demo_task] second_task current (bi_index b) = Some b"
    by (simp add: Let_def)
  with b(1) show ?thesis by blast
qed

end
