(* ===== verification/Network_Laws.thy ===== *)
theory Network_Laws
  imports Network
begin

text \<open>
  What the network emulator guarantees: every message is accounted for exactly once, a partition lets
  nothing through, nothing arrives in the tick it was sent, a link never exceeds its byte budget, and
  a step does not depend on the order in which the messages are handed over.
\<close>

subsection \<open>Views of the state\<close>

definition pair_of :: "string \<Rightarrow> string \<Rightarrow> string \<times> string" where
  "pair_of a b = (if a < b then (a, b) else (b, a))"

definition proper :: "string \<Rightarrow> string \<Rightarrow> bool" where
  "proper a b \<longleftrightarrow> a \<noteq> [] \<and> b \<noteq> [] \<and> a \<noteq> b"

definition queued :: "link list \<Rightarrow> packet list" where
  "queued links = concat (map ln_queue links)"

definition pending :: "net \<Rightarrow> packet list" where
  "pending n = queued (nt_links n) @ nt_in_flight n"

definition pk_pair :: "packet \<Rightarrow> string \<times> string" where
  "pk_pair p = pair_of (nm_sender (pk_message p)) (nm_recipient (pk_message p))"

definition pk_proper :: "packet \<Rightarrow> bool" where
  "pk_proper p \<longleftrightarrow> proper (nm_sender (pk_message p)) (nm_recipient (pk_message p))"

text \<open>What transmission does not change about a packet.\<close>

definition pk_core :: "packet \<Rightarrow> net_message \<times> net_profile \<times> u64 \<times> u64 \<times> u64 \<times> u64 \<times> i64 \<times> bool" where
  "pk_core p = (pk_message p, pk_profile p, pk_sequence p, pk_serialized p, pk_enqueue p, pk_delay p,
     pk_jitter p, pk_reordered p)"

definition final_outcome :: "net_outcome \<Rightarrow> bool" where
  "final_outcome r \<longleftrightarrow> no_disposition r \<in> {ND_Dropped_Loss, ND_Dropped_Partition, ND_Delivered}"

text \<open>The sequence numbers that have a final outcome or are still under way.\<close>

definition accounted :: "net_outcome list \<Rightarrow> packet list \<Rightarrow> u64 multiset" where
  "accounted outs ps = mset (map no_sequence (filter final_outcome outs)) + mset (map pk_sequence ps)"

definition count_of :: "disposition set \<Rightarrow> net_outcome list \<Rightarrow> u64" where
  "count_of D outs = of_nat (length (filter (\<lambda>r. no_disposition r \<in> D) outs))"

definition pk_ends :: "packet \<Rightarrow> string \<times> string" where
  "pk_ends p = (nm_sender (pk_message p), nm_recipient (pk_message p))"

definition link_ok :: "link \<Rightarrow> bool" where
  "link_ok l \<longleftrightarrow> proper (ln_sender l) (ln_recipient l)
     \<and> (\<forall>p \<in> set (ln_queue l). pk_ends p = link_key l)"

definition links_ok :: "link list \<Rightarrow> bool" where
  "links_ok links \<longleftrightarrow> strictly_sorted link_key links \<and> (\<forall>l \<in> set links. link_ok l)"

definition net_ok :: "net \<Rightarrow> bool" where
  "net_ok n \<longleftrightarrow>
     strictly_sorted id (nt_blocked n) \<and> links_ok (nt_links n)
     \<and> (\<forall>p \<in> set (nt_in_flight n). pk_proper p)
     \<and> (\<forall>p \<in> set (pending n). pk_pair p \<notin> set (nt_blocked n))"

lemma link_pair_eq: "link_pair a b = (if proper a b then Inr (pair_of a b) else Inl (Invalid_argument ''invalid network link''))"
  by (auto simp: link_pair_def proper_def pair_of_def)

lemma link_pair_Inr [simp]: "link_pair a b = Inr k \<longleftrightarrow> proper a b \<and> k = pair_of a b"
  by (auto simp: link_pair_eq)

lemma pair_of_commute: "pair_of a b = pair_of b a"
  by (auto simp: pair_of_def)

lemma pair_of_eq: "pair_of a b = pair_of c d \<longleftrightarrow> (a = c \<and> b = d) \<or> (a = d \<and> b = c)"
  by (auto simp: pair_of_def split: if_splits)

lemma link_blocked_iff:
  assumes "strictly_sorted id (nt_blocked n)"
  shows "link_blocked a b n = Inr v \<longleftrightarrow> proper a b \<and> v = (pair_of a b \<in> set (nt_blocked n))"
  using find_by_None [OF assms] by (auto simp: link_blocked_def)

lemma count_of_simps [simp]:
  "count_of D [] = 0"
  "count_of D (xs @ ys) = count_of D xs + count_of D ys"
  "count_of D (r # rs) = (if no_disposition r \<in> D then 1 else 0) + count_of D rs"
  by (simp_all add: count_of_def)

lemma count_of_map: "count_of D outs = of_nat (length (filter (\<lambda>d. d \<in> D) (map no_disposition outs)))"
  by (simp add: count_of_def filter_map comp_def)

lemma count_of_mset: "mset xs = mset ys \<Longrightarrow> count_of D xs = count_of D ys"
  unfolding count_of_def by (metis mset_filter size_mset)

lemma accounted_append [simp]:
  "accounted (xs @ ys) ps = accounted xs ps + mset (map no_sequence (filter final_outcome ys))"
  by (simp add: accounted_def)

lemma accounted_mset: "mset xs = mset ys \<Longrightarrow> accounted xs ps = accounted ys ps"
  by (simp add: accounted_def mset_filter)

lemma outcome_fields [simp]:
  "no_sequence (outcome p d tick) = pk_sequence p"
  "no_disposition (outcome p d tick) = d"
  "no_tick (outcome p d tick) = tick"
  "no_message (outcome p d tick) = pk_message p"
  by (simp_all add: outcome_def)

subsection \<open>Queues\<close>

lemma ensure_link_ok:
  assumes "links_ok links" and "proper s r"
  shows "links_ok (ensure_link s r links)"
  using assms strictly_sorted_insert_by [of link_key links "\<lparr>ln_sender = s, ln_recipient = r, ln_queue = []\<rparr>"]
  by (auto simp: ensure_link_def links_ok_def link_ok_def link_key_def split: option.splits)

lemma queued_insert_empty: "ln_queue l = [] \<Longrightarrow> queued (insert_by link_key l links) = queued links"
  by (induction links) (auto simp: queued_def)

lemma queued_ensure [simp]: "queued (ensure_link s r links) = queued links"
  by (auto simp: ensure_link_def queued_insert_empty split: option.splits)

lemma find_ensure:
  assumes "links_ok links"
  shows "find_by link_key (ensure_link s r links) (s, r) \<noteq> None"
  by (auto simp: ensure_link_def link_key_def find_by_insert_by split: option.splits)

lemma mset_queued_update:
  assumes "find_by link_key links k = Some l"
  shows "mset (queued (update_by link_key k (\<lambda>l. l\<lparr>ln_queue := ln_queue l @ [p]\<rparr>) links))
    = mset (queued links) + {#p#}"
  using assms by (induction links) (auto simp: queued_def split: if_splits)

lemma queue_push_ok:
  assumes "links_ok links" and "pk_proper p"
  shows "links_ok (queue_push p links)"
    and "mset (queued (queue_push p links)) = mset (queued links) + {#p#}"
proof -
  define s r where sr: "s = nm_sender (pk_message p)" "r = nm_recipient (pk_message p)"
  let ?links = "ensure_link s r links" and ?add = "\<lambda>l. l\<lparr>ln_queue := ln_queue l @ [p]\<rparr>"
  have ok: "links_ok ?links" using assms by (simp add: ensure_link_ok pk_proper_def sr)
  then have sorted: "strictly_sorted link_key ?links" by (simp only: links_ok_def)
  obtain l where l: "find_by link_key ?links (s, r) = Some l"
    using find_ensure [OF assms(1)] by blast
  have push: "queue_push p links = update_by link_key (s, r) ?add ?links"
    by (simp add: queue_push_def sr Let_def)
  then show "mset (queued (queue_push p links)) = mset (queued links) + {#p#}"
    by (simp add: mset_queued_update [OF l])
  have "map link_key (queue_push p links) = map link_key ?links"
    unfolding push by (rule update_by_keys) (simp add: link_key_def)
  moreover have "link_ok (?add l)" if "link_ok l" and "link_key l = (s, r)" for l
    using that by (auto simp: link_ok_def link_key_def pk_ends_def sr)
  then have "\<forall>l \<in> set (queue_push p links). link_ok l"
    using ok by (auto simp: push update_by_map [OF sorted] links_ok_def)
  ultimately show "links_ok (queue_push p links)" using sorted by (simp only: links_ok_def)
qed

subsection \<open>Accepting messages\<close>

lemma make_packet_fields:
  assumes "make_packet ser m tick n = Inr (p, n')"
  shows "pk_message p = m" "pk_profile p = nt_profile n" "pk_sequence p = nt_next n"
    "pk_enqueue p = tick" "pk_remaining p = pk_serialized p" "pk_started p = False"
    "n' = n\<lparr>nt_next := nt_next n + 1\<rparr>"
  using assms by (auto simp: make_packet_def Let_def split: if_splits)

text \<open>One message: the bookkeeping of an emulator state and the outcomes so far.\<close>

definition books :: "net_outcome list \<Rightarrow> net \<Rightarrow> nat \<Rightarrow> bool" where
  "books outs n k \<longleftrightarrow>
     accounted outs (pending n) = mset (map of_nat [1..<Suc k]) \<and> nt_next n = of_nat (Suc k)
     \<and> nt_messages n = of_nat k
     \<and> nt_delivered n = count_of {ND_Delivered} outs
     \<and> nt_dropped n = count_of {ND_Dropped_Loss, ND_Dropped_Partition} outs"

text \<open>The state after the counters every message moves.\<close>

definition booked :: "packet \<Rightarrow> net \<Rightarrow> net" where
  "booked p n = n\<lparr>nt_next := nt_next n + 1, nt_bytes := nt_bytes n + pk_serialized p,
                  nt_messages := nt_messages n + 1\<rparr>"

lemma enqueue_cases:
  assumes "enqueue ser tick (n, outs) m = Inr (n', outs')" and "strictly_sorted id (nt_blocked n)"
  obtains (partition) p n0 where "make_packet ser m tick n = Inr (p, n0)" and "pk_proper p"
      and "pk_pair p \<in> set (nt_blocked n)" and "n' = booked p n\<lparr>nt_dropped := nt_dropped n + 1\<rparr>"
      and "outs' = outs @ [outcome p ND_Dropped_Partition tick]"
    | (loss) p n0 v where "make_packet ser m tick n = Inr (p, n0)" and "pk_proper p"
      and "pk_pair p \<notin> set (nt_blocked n)" and "n' = booked p n\<lparr>nt_dropped := nt_dropped n + 1\<rparr>"
      and "draw (nt_seed n) ''loss'' m (nt_next n) 0 9999 = Inr v" and "v < uint (np_loss (nt_profile n))"
      and "outs' = outs @ [outcome p ND_Dropped_Loss tick]"
    | (queue) p n0 where "make_packet ser m tick n = Inr (p, n0)" and "pk_proper p"
      and "pk_pair p \<notin> set (nt_blocked n)"
      and "n' = booked p n\<lparr>nt_links := queue_push p (nt_links n)\<rparr>"
      and "outs' = outs @ [outcome p ND_Queued tick]"
proof -
  from assms(1) obtain p n0 where p: "make_packet ser m tick n = Inr (p, n0)"
    and valid: "\<not> (nm_sender m = [] \<or> nm_recipient m = [] \<or> nm_sender m = nm_recipient m \<or> nm_version m = 0)"
    by (auto simp: enqueue_def split: if_splits)
  then have proper: "proper (nm_sender m) (nm_recipient m)" by (simp add: proper_def)
  note pf = make_packet_fields [OF p]
  have pp: "pk_proper p" "pk_pair p = pair_of (nm_sender m) (nm_recipient m)"
    using proper pf by (simp_all add: pk_proper_def pk_pair_def)
  let ?n1 = "n0\<lparr>nt_bytes := nt_bytes n0 + pk_serialized p, nt_messages := nt_messages n0 + 1\<rparr>"
  have n1: "?n1 = booked p n" by (simp add: pf booked_def)
  have sb: "strictly_sorted id (nt_blocked ?n1)" using assms(2) by (simp add: pf)
  have blocked: "link_blocked (nm_sender m) (nm_recipient m) (booked p n)
      = Inr (pk_pair p \<in> set (nt_blocked n))"
    using link_blocked_iff [OF sb] proper by (simp add: n1 pp) (simp add: booked_def)
  from assms(1) p have *: "(if pk_pair p \<in> set (nt_blocked n)
      then Inr (booked p n\<lparr>nt_dropped := nt_dropped (booked p n) + 1\<rparr>, outs @ [outcome p ND_Dropped_Partition tick])
      else bindR (draw (nt_seed (booked p n)) ''loss'' m (pk_sequence p) 0 9999) (\<lambda>v.
        if v < uint (np_loss (pk_profile p))
        then Inr (booked p n\<lparr>nt_dropped := nt_dropped (booked p n) + 1\<rparr>, outs @ [outcome p ND_Dropped_Loss tick])
        else Inr (booked p n\<lparr>nt_links := queue_push p (nt_links (booked p n))\<rparr>, outs @ [outcome p ND_Queued tick])))
      = Inr (n', outs')"
    by (simp only: enqueue_def prod.case valid if_False p bindR_simps Let_def n1 blocked)
  have b: "nt_dropped (booked p n) = nt_dropped n" "nt_seed (booked p n) = nt_seed n"
    "nt_links (booked p n) = nt_links n" by (simp_all add: booked_def)
  show thesis
  proof (cases "pk_pair p \<in> set (nt_blocked n)")
    case True
    with * partition [OF p pp(1)] show thesis by (simp add: b)
  next
    case False
    with * obtain v where v: "draw (nt_seed n) ''loss'' m (nt_next n) 0 9999 = Inr v" by (auto simp: b pf)
    with * False loss [OF p pp(1) False] queue [OF p pp(1) False] show thesis
      by (auto simp: b pf split: if_splits)
  qed
qed

lemma pending_booked [simp]: "pending (booked p n) = pending n"
  "nt_blocked (booked p n) = nt_blocked n" "nt_links (booked p n) = nt_links n"
  "nt_in_flight (booked p n) = nt_in_flight n"
  by (simp_all add: booked_def pending_def)

lemma pending_queue:
  assumes "links_ok (nt_links n)" and "pk_proper p"
  shows "mset (pending (n'\<lparr>nt_links := queue_push p (nt_links n), nt_in_flight := nt_in_flight n\<rparr>))
    = mset (pending n) + {#p#}"
  using queue_push_ok(2) [OF assms] by (simp add: pending_def)

lemma enqueue_ok:
  assumes "enqueue ser tick (n, outs) m = Inr (n', outs')" and "net_ok n"
  shows "net_ok n'"
proof -
  have sb: "strictly_sorted id (nt_blocked n)" and lo: "links_ok (nt_links n)"
    using assms(2) by (simp_all add: net_ok_def)
  from assms(1) sb show ?thesis
  proof (cases rule: enqueue_cases)
    case (queue p n0)
    have "set (queued (queue_push p (nt_links n))) = insert p (set (queued (nt_links n)))"
      using arg_cong [OF queue_push_ok(2) [OF lo queue(2)], of set_mset] by simp
    with assms(2) queue queue_push_ok(1) [OF lo queue(2)] show ?thesis
      by (auto simp: net_ok_def pending_def)
  qed (use assms(2) in \<open>auto simp: net_ok_def pending_def\<close>)
qed

lemma enqueue_books:
  assumes "enqueue ser tick (n, outs) m = Inr (n', outs')" and "net_ok n" and "books outs n k"
  shows "books outs' n' (Suc k)"
proof -
  have sb: "strictly_sorted id (nt_blocked n)" and lo: "links_ok (nt_links n)"
    using assms(2) by (simp_all add: net_ok_def)
  from assms(1) sb show ?thesis
  proof (cases rule: enqueue_cases)
    case (partition p n0)
    with assms(3) make_packet_fields(3) [OF partition(1)] show ?thesis
      by (auto simp: books_def accounted_def final_outcome_def booked_def pending_def)
  next
    case (loss p n0 v)
    with assms(3) make_packet_fields(3) [OF loss(1)] show ?thesis
      by (auto simp: books_def accounted_def final_outcome_def booked_def pending_def)
  next
    case (queue p n0)
    with assms(3) make_packet_fields(3) [OF queue(1)] queue_push_ok(2) [OF lo queue(2)] show ?thesis
      by (auto simp: books_def accounted_def final_outcome_def booked_def pending_def)
  qed
qed

subsection \<open>Transmission\<close>

text \<open>A packet that waits in a queue, and one in flight, as of tick \<open>T\<close>.\<close>

definition waiting :: "u64 \<Rightarrow> packet \<Rightarrow> bool" where
  "waiting T p \<longleftrightarrow> pk_enqueue p \<le> T \<and> (pk_started p \<longrightarrow> pk_enqueue p \<le> pk_start p \<and> pk_start p \<le> T)
     \<and> pk_jitter p \<le> i64_max"

definition flying :: "u64 \<Rightarrow> packet \<Rightarrow> bool" where
  "flying T p \<longleftrightarrow> pk_enqueue p \<le> pk_start p \<and> pk_start p \<le> pk_end p \<and> pk_end p \<le> T
     \<and> pk_end p < pk_delivery p"

definition served :: "u64 \<Rightarrow> packet list \<Rightarrow> packet list \<Rightarrow> packet list \<Rightarrow> bool" where
  "served tick queue queue' sent \<longleftrightarrow>
     map pk_core queue = map pk_core sent @ map pk_core queue'
     \<and> (\<forall>T \<le> tick. (\<forall>p \<in> set queue. waiting T p)
          \<longrightarrow> (\<forall>p \<in> set queue'. waiting tick p) \<and> (\<forall>p \<in> set sent. flying tick p))"

lemma checked_add_Inr [simp]:
  "checked_add a b = Inr c \<longleftrightarrow> b \<le> - 1 - a \<and> c = a + b"
  by (auto simp: checked_add_def not_less)

lemma add_above:
  fixes a b :: u64
  assumes "b \<le> - 1 - a"
  shows "a \<le> a + b" and "b \<noteq> 0 \<Longrightarrow> a < a + b"
proof -
  have "unat b \<le> unat (- 1 - a :: u64)" using assms by (simp add: word_le_nat_alt)
  also have "unat (- 1 - a :: u64) = unat (- 1 :: u64) - unat a"
    by (rule unat_sub) simp
  finally have "unat a + unat b < 2 ^ 64"
    using unsigned_less [of a, where 'a = nat] by (simp add: unsigned_minus_1_eq_mask mask_eq_exp_minus_1)
  then have s: "unat (a + b) = unat a + unat b" by (simp add: unat_add_lem [symmetric])
  then show "a \<le> a + b" by (simp add: word_le_nat_alt)
  show "b \<noteq> 0 \<Longrightarrow> a < a + b" using s by (simp add: word_less_nat_alt unat_eq_zero flip: neq0_conv)
qed

lemma delay_positive:
  assumes "j \<le> i64_max"
  shows "to_u64 (max 1 (to_i64 l + j)) \<noteq> 0"
proof -
  have "to_i64 l \<le> i64_max" using sint_lt [of l] by (simp add: to_i64_def i64_max_def)
  then have "uint (to_u64 (max 1 (to_i64 l + j))) = max 1 (to_i64 l + j)"
    using assms by (simp add: to_u64_def uint_word_of_int i64_max_def)
  then show ?thesis by (metis max.cobounded1 not_one_le_zero unsigned_0)
qed

lemma served_refl: "served tick queue queue []"
  by (auto simp: served_def waiting_def)

lemma served_head:
  assumes "pk_core p' = pk_core p" and "\<And>T. T \<le> tick \<Longrightarrow> waiting T p \<Longrightarrow> waiting tick p'"
  shows "served tick (p # queue) (p' # queue) []"
  using assms by (auto simp: served_def) (auto simp: waiting_def)

lemma served_sent:
  assumes "pk_core p' = pk_core p" and "\<And>T. T \<le> tick \<Longrightarrow> waiting T p \<Longrightarrow> flying tick p'"
    and "served tick queue queue' sent"
  shows "served tick (p # queue) queue' (p' # sent)"
  using assms by (auto simp: served_def)

lemma serve_served:
  assumes "serve tick rate budget queue flight = Inr (queue', flight')"
  shows "\<exists>sent. flight' = flight @ sent \<and> served tick queue queue' sent"
  using assms
proof (induction tick rate budget queue flight rule: serve.induct)
  case (1 tick rate budget flight)
  then show ?case by (simp add: served_refl)
next
  case (2 tick rate budget p queue flight)
  define p1 where "p1 = (if \<not> pk_started p then p\<lparr>pk_started := True, pk_start := tick\<rparr> else p)"
  define transmitted where "transmitted = min budget (pk_remaining p1)"
  define p2 where "p2 = p1\<lparr>pk_remaining := pk_remaining p1 - transmitted\<rparr>"
  define delay where "delay = to_u64 (max 1 (to_i64 (np_latency (pk_profile p)) + pk_jitter p))"
  show ?case
  proof (cases "budget > 0 \<and> np_bandwidth (pk_profile p) = rate")
    case False
    then have "queue' = p # queue" "flight' = flight" using "2.prems" by auto
    then show ?thesis by (simp add: served_refl)
  next
    case serving: True
    have run: "serve tick rate budget (p # queue) flight =
        (if 0 < pk_remaining p2 then Inr (p2 # queue, flight)
         else bindR (checked_add tick delay) (\<lambda>arrival.
              bindR (checked_add arrival (pk_delay p)) (\<lambda>delivery.
                serve tick rate (budget - transmitted) queue
                  (flight @ [p2\<lparr>pk_end := tick, pk_delivery := delivery\<rparr>]))))"
      using serving by (simp add: Let_def p1_def transmitted_def p2_def delay_def)
    show ?thesis
    proof (cases "pk_remaining p2 > 0")
      case True
      then have "queue' = p2 # queue" "flight' = flight"
        using "2.prems" unfolding run by auto
      moreover have "served tick (p # queue) (p2 # queue) []"
        by (rule served_head) (auto simp: p2_def p1_def pk_core_def waiting_def)
      ultimately show ?thesis by simp
    next
      case False
      let ?p4 = "p2\<lparr>pk_end := tick, pk_delivery := tick + delay + pk_delay p\<rparr>"
      from "2.prems" serving False have a: "delay \<le> - 1 - tick" "pk_delay p \<le> - 1 - (tick + delay)"
        and rest: "serve tick rate (budget - transmitted) queue (flight @ [?p4]) = Inr (queue', flight')"
        unfolding run by auto
      from "2.IH" [OF serving p1_def transmitted_def p2_def _ refl refl delay_def _ _ rest] False a
      obtain sent where sent: "flight' = (flight @ [?p4]) @ sent" "served tick queue queue' sent"
        by auto
      have "tick < tick + delay + pk_delay p" if "pk_jitter p \<le> i64_max"
        using add_above [OF a(1)] add_above(1) [OF a(2)] delay_positive [OF that]
        by (auto simp: delay_def)
      then have "flying tick ?p4" if "T \<le> tick" "waiting T p" for T
        using that by (auto simp: flying_def waiting_def p2_def p1_def)
      then have "served tick (p # queue) queue' (?p4 # sent)"
        by (intro served_sent [OF _ _ sent(2)]) (simp add: pk_core_def p2_def p1_def)
      with sent(1) show ?thesis by auto
    qed
  qed
qed

text \<open>The bytes a queue still has to send, and the budget a tick gives it.\<close>

definition load :: "packet list \<Rightarrow> nat" where
  "load ps = sum_list (map (\<lambda>p. unat (pk_remaining p)) ps)"

definition head_rate :: "packet list \<Rightarrow> nat" where
  "head_rate queue = (case queue of [] \<Rightarrow> 0 | p # _ \<Rightarrow> unat (np_bandwidth (pk_profile p)))"

lemma load_Cons [simp]: "load (p # ps) = unat (pk_remaining p) + load ps"
  by (simp add: load_def)

lemma serve_load:
  assumes "serve tick rate budget queue flight = Inr (queue', flight')"
  shows "load queue \<le> load queue' + unat budget"
  using assms
proof (induction tick rate budget queue flight rule: serve.induct)
  case (2 tick rate budget p queue flight)
  let ?t = "min budget (pk_remaining p)"
  have r: "unat (pk_remaining p - ?t) = unat (pk_remaining p) - unat ?t" "unat (budget - ?t) = unat budget - unat ?t"
    by (simp_all add: unat_sub)
  have t: "unat ?t \<le> unat budget" "unat ?t \<le> unat (pk_remaining p)" by (simp_all add: word_le_nat_alt [symmetric])
  from "2.prems" have "queue' = p # queue \<or> (\<exists>p'. queue' = p' # queue \<and> pk_remaining p' = pk_remaining p - ?t)
      \<or> (pk_remaining p - ?t = 0 \<and> load queue \<le> load queue' + unat (budget - ?t))"
    using "2.IH" by (auto simp: Let_def word_gt_0 split: if_splits)
  then show ?case
  proof (elim disjE exE conjE)
    fix p' assume "queue' = p' # queue" "pk_remaining p' = pk_remaining p - ?t"
    then have "load queue' = unat (pk_remaining p) - unat ?t + load queue" by (simp only: load_Cons r)
    with t show ?thesis by (simp only: load_Cons)
  next
    assume "pk_remaining p - ?t = 0" "load queue \<le> load queue' + unat (budget - ?t)"
    then have "unat (pk_remaining p) - unat ?t = 0" "load queue \<le> load queue' + (unat budget - unat ?t)"
      by (simp_all only: r [symmetric] unsigned_0)
    with t show ?thesis by (simp only: load_Cons)
  qed simp
qed (simp add: load_def)

text \<open>The loop over the links, one pair of a link and what it sent per link.\<close>

definition sends :: "u64 \<Rightarrow> link \<Rightarrow> link \<times> packet list \<Rightarrow> bool" where
  "sends tick l r \<longleftrightarrow>
     fst r = l\<lparr>ln_queue := ln_queue (fst r)\<rparr> \<and> served tick (ln_queue l) (ln_queue (fst r)) (snd r)
     \<and> load (ln_queue l) \<le> load (ln_queue (fst r)) + head_rate (ln_queue l)"

lemma transmit_link_sends:
  assumes "transmit_link n tick (ls, fl) l = Inr (ls', fl')"
  shows "\<exists>r. ls' = ls @ [fst r] \<and> fl' = fl @ snd r \<and> sends tick l r"
proof (cases "ls' = ls @ [l] \<and> fl' = fl")
  case True
  then show ?thesis by (intro exI [of _ "(l, [])"]) (simp add: sends_def served_refl)
next
  case False
  with assms obtain queue flight rate where
    run: "serve tick rate rate (ln_queue l) fl = Inr (queue, flight)" and rate: "unat rate = head_rate (ln_queue l)"
    and "ls' = ls @ [l\<lparr>ln_queue := queue\<rparr>]" and "fl' = flight"
    by (auto simp: transmit_link_def Let_def head_rate_def simp del: serve.simps split: list.splits if_splits)
  with serve_served [OF run] serve_load [OF run] show ?thesis by (fastforce simp: sends_def)
qed

lemma transmit_links_sends:
  assumes "foldR (transmit_link n tick) (ls, fl) links = Inr (ls', fl')"
  shows "\<exists>rs. ls' = ls @ map fst rs \<and> fl' = fl @ concat (map snd rs) \<and> list_all2 (sends tick) links rs"
  using assms
proof (induction links arbitrary: ls fl)
  case Nil
  then show ?case by simp
next
  case (Cons l links)
  then obtain ls1 fl1 where one: "transmit_link n tick (ls, fl) l = Inr (ls1, fl1)"
    and rest: "foldR (transmit_link n tick) (ls1, fl1) links = Inr (ls', fl')" by auto
  obtain r where r: "ls1 = ls @ [fst r]" "fl1 = fl @ snd r" "sends tick l r"
    using transmit_link_sends [OF one] by blast
  obtain rs where rs: "ls' = ls1 @ map fst rs" "fl' = fl1 @ concat (map snd rs)"
    "list_all2 (sends tick) links rs" using Cons.IH [OF rest] by blast
  show ?case by (rule exI [of _ "r # rs"]) (use r rs in simp)
qed

lemma sends_cores:
  "list_all2 (sends tick) links rs \<Longrightarrow>
     mset (map pk_core (queued (map fst rs) @ concat (map snd rs))) = mset (map pk_core (queued links))"
  by (induction rule: list_all2_induct) (auto simp: queued_def sends_def served_def)

lemma core_sequence: "map pk_sequence ps = map (\<lambda>c. fst (snd (snd c))) (map pk_core ps)"
  by (simp add: pk_core_def)

lemma mset_core_map:
  assumes "mset (map pk_core xs) = mset (map pk_core ys)" and "\<And>p. g (pk_core p) = h p"
  shows "mset (map h xs) = mset (map h ys)"
proof -
  have "mset (map h zs) = image_mset g (mset (map pk_core zs))" for zs
    by (simp add: image_mset.compositionality comp_def assms(2))
  with assms(1) show ?thesis by metis
qed

lemma sends_link_ok: "sends tick l r \<Longrightarrow> link_ok l \<Longrightarrow> link_ok (fst r)"
proof -
  assume s: "sends tick l r" and ok: "link_ok l"
  have core: "p \<in> set (ln_queue (fst r)) \<Longrightarrow> \<exists>q \<in> set (ln_queue l). pk_message q = pk_message p" for p
  proof -
    assume "p \<in> set (ln_queue (fst r))"
    then have "pk_core p \<in> pk_core ` set (ln_queue l)"
      using s by (auto simp: sends_def served_def dest!: arg_cong [where f = set])
    then show ?thesis by (auto simp: pk_core_def)
  qed
  have "fst r = l\<lparr>ln_queue := ln_queue (fst r)\<rparr>" using s by (simp add: sends_def)
  then have ends: "ln_sender (fst r) = ln_sender l" "ln_recipient (fst r) = ln_recipient l"
    by (metis link.select_convs(1) link.surjective link.update_convs(3),
        metis link.select_convs(2) link.surjective link.update_convs(3))
  show ?thesis using ok core ends by (fastforce simp: link_ok_def pk_ends_def link_key_def)
qed

lemma sends_links_ok:
  assumes "list_all2 (sends tick) links rs" and "links_ok links"
  shows "links_ok (map fst rs)"
proof -
  have "sends tick l r \<Longrightarrow> link_key (fst r) = link_key l" for l r
    by (auto simp: sends_def link_key_def) (metis link.select_convs link.surjective link.update_convs(3))+
  with assms(1) have "map link_key (map fst rs) = map link_key links"
    by (induction rule: list_all2_induct) auto
  moreover have "\<forall>l \<in> set (map fst rs). link_ok l"
    using assms by (induction rule: list_all2_induct) (auto simp: links_ok_def dest: sends_link_ok)
  ultimately show ?thesis using assms(2) by (simp add: links_ok_def)
qed

lemma transmit_spec:
  assumes "transmit tick n = Inr n'"
  obtains rs where "list_all2 (sends tick) (nt_links n) rs"
    and "n' = n\<lparr>nt_links := map fst rs,
                nt_in_flight := sort_key flight_key (nt_in_flight n @ concat (map snd rs))\<rparr>"
  using assms transmit_links_sends [of n tick "[]" "nt_in_flight n" "nt_links n"]
  by (fastforce simp: transmit_def)

lemma transmit_cores:
  assumes "transmit tick n = Inr n'"
  shows "mset (map pk_core (pending n')) = mset (map pk_core (pending n))"
  using assms
proof (cases rule: transmit_spec)
  case (1 rs)
  from sends_cores [OF 1(1)] show ?thesis by (simp add: 1(2) pending_def ac_simps)
qed

lemma transmit_ok:
  assumes "transmit tick n = Inr n'" and "net_ok n"
  shows "net_ok n'"
proof -
  have cores: "pk_core ` set (pending n') = pk_core ` set (pending n)"
    using arg_cong [OF transmit_cores [OF assms(1)], of set_mset] by simp
  have pend: "\<exists>q \<in> set (pending n). pk_message q = pk_message p" if "p \<in> set (pending n')" for p
  proof -
    have "pk_core p \<in> pk_core ` set (pending n)" using that cores by blast
    then show ?thesis by (auto simp: pk_core_def)
  qed
  have proper: "pk_proper q" if "q \<in> set (pending n)" for q
    using that assms(2) by (auto simp: net_ok_def pending_def queued_def links_ok_def link_ok_def
        pk_ends_def pk_proper_def link_key_def)
  from assms(1) obtain rs where rs: "list_all2 (sends tick) (nt_links n) rs" "nt_links n' = map fst rs"
    "nt_blocked n' = nt_blocked n" by (auto elim!: transmit_spec)
  have "links_ok (nt_links n')" using sends_links_ok [OF rs(1)] assms(2) by (simp add: rs net_ok_def)
  moreover have "pk_proper p \<and> pk_pair p \<notin> set (nt_blocked n')" if "p \<in> set (pending n')" for p
  proof -
    obtain q where q: "q \<in> set (pending n)" "pk_message q = pk_message p" using pend [OF \<open>p \<in> _\<close>] by blast
    from q(1) assms(2) have "pk_pair q \<notin> set (nt_blocked n)" by (simp add: net_ok_def)
    with proper [OF q(1)] q(2) show ?thesis by (simp add: rs pk_pair_def pk_proper_def)
  qed
  ultimately show ?thesis using assms(2) by (auto simp: net_ok_def rs pending_def)
qed

lemma transmit_books:
  assumes "transmit tick n = Inr n'" and "books outs n k"
  shows "books outs n' k"
proof -
  have "mset (map pk_sequence (pending n')) = mset (map pk_sequence (pending n))"
    by (rule mset_core_map [OF transmit_cores [OF assms(1)], of "\<lambda>c. fst (snd (snd c))"])
      (simp add: pk_core_def)
  with assms show ?thesis by (auto simp: books_def accounted_def elim!: transmit_spec)
qed

subsection \<open>Arrivals\<close>

definition due :: "u64 \<Rightarrow> packet list \<Rightarrow> packet list" where
  "due now ps = filter (\<lambda>p. pk_delivery p \<le> now) ps"

lemma arrive_all:
  assumes "strictly_sorted id (nt_blocked n)"
    and "\<forall>p \<in> set ps. pk_proper p \<and> pk_pair p \<notin> set (nt_blocked n)"
  shows "foldR (arrive n now) a ps = Inr (a\<lparr>ar_kept := ar_kept a @ filter (\<lambda>p. now < pk_delivery p) ps,
      ar_delivered := ar_delivered a @ map pk_message (due now ps),
      ar_outcomes := ar_outcomes a @ map (\<lambda>p. outcome p ND_Delivered now) (due now ps),
      ar_count := ar_count a + of_nat (length (due now ps)),
      ar_reordered := ar_reordered a + of_nat (length (filter pk_reordered (due now ps)))\<rparr>)"
  using assms(2)
proof (induction ps arbitrary: a)
  case Nil
  then show ?case by (simp add: due_def)
next
  case (Cons p ps)
  then have "link_blocked (nm_sender (pk_message p)) (nm_recipient (pk_message p)) n = Inr False"
    using link_blocked_iff [OF assms(1)] by (simp add: pk_proper_def pk_pair_def)
  then show ?case using Cons by (cases "pk_delivery p \<le> now") (simp_all add: arrive_def due_def not_less not_le)
qed

text \<open>A step, taken apart: the state after the messages were accepted, the state after transmission,
  and the packets that are due.\<close>

lemma net_step_parts:
  assumes "net_step ser tick outgoing n = Inr (delivered, outs, n')" and "net_ok n"
  obtains n1 outs1 n2 where "foldR (enqueue ser tick) (n, []) (sort_key message_key outgoing) = Inr (n1, outs1)"
    and "net_ok n1" and "transmit tick n1 = Inr n2" and "net_ok n2" and "tick < tick + 1"
    and "delivered = map pk_message (due (tick + 1) (nt_in_flight n2))"
    and "outs = sort_key outcome_key
          (outs1 @ map (\<lambda>p. outcome p ND_Delivered (tick + 1)) (due (tick + 1) (nt_in_flight n2)))"
    and "n' = n2\<lparr>nt_in_flight := filter (\<lambda>p. tick + 1 < pk_delivery p) (nt_in_flight n2),
                nt_delivered := nt_delivered n2 + of_nat (length (due (tick + 1) (nt_in_flight n2))),
                nt_reordered := nt_reordered n2
                  + of_nat (length (filter pk_reordered (due (tick + 1) (nt_in_flight n2))))\<rparr>"
proof -
  from assms(1) obtain n1 outs1 n2 where
    e: "foldR (enqueue ser tick) (n, []) (sort_key message_key outgoing) = Inr (n1, outs1)"
    and t: "transmit tick n1 = Inr n2" and c: "1 \<le> - 1 - tick"
    and a: "bindR (foldR (arrive n2 (tick + 1))
                 \<lparr>ar_kept = [], ar_delivered = [], ar_outcomes = outs1, ar_count = nt_delivered n2,
                  ar_dropped = nt_dropped n2, ar_reordered = nt_reordered n2\<rparr>
                 (nt_in_flight n2)) (\<lambda>a.
          Inr (ar_delivered a, sort_key outcome_key (ar_outcomes a),
               n2\<lparr>nt_in_flight := ar_kept a, nt_delivered := ar_count a,
                  nt_dropped := ar_dropped a, nt_reordered := ar_reordered a\<rparr>)) = Inr (delivered, outs, n')"
    by (auto simp: net_step_def split: if_splits)
  have ok1: "net_ok (fst (n1, outs1))"
    by (rule foldR_invariant [OF e]) (use assms(2) enqueue_ok in \<open>auto simp: split_beta\<close>)
  then have ok2: "net_ok n2" using transmit_ok [OF t] by simp
  then have "strictly_sorted id (nt_blocked n2)"
    "\<forall>p \<in> set (nt_in_flight n2). pk_proper p \<and> pk_pair p \<notin> set (nt_blocked n2)"
    by (auto simp: net_ok_def pending_def)
  note arrived = arrive_all [OF this, of "tick + 1"]
  show thesis
    by (rule that [OF e _ t ok2]) (use ok1 a add_above(2) [OF c] in \<open>simp_all add: arrived\<close>)
qed

lemma net_step_ok:
  assumes "net_step ser tick outgoing n = Inr (delivered, outs, n')" and "net_ok n"
  shows "net_ok n'"
  using assms
proof (cases rule: net_step_parts)
  case (1 n1 outs1 n2)
  then show ?thesis by (auto simp: net_ok_def pending_def)
qed

lemma enqueue_all_books:
  assumes "foldR (enqueue ser tick) (n, outs) ms = Inr (n', outs')" and "net_ok n" and "books outs n k"
  shows "net_ok n' \<and> books outs' n' (k + length ms)"
  using assms
proof (induction ms arbitrary: n outs k)
  case Nil
  then show ?case by simp
next
  case (Cons m ms)
  then obtain n1 outs1 where one: "enqueue ser tick (n, outs) m = Inr (n1, outs1)"
    and rest: "foldR (enqueue ser tick) (n1, outs1) ms = Inr (n', outs')" by auto
  from Cons.IH [OF rest enqueue_ok [OF one] enqueue_books [OF one]] Cons.prems show ?case by simp
qed

text \<open>The bookkeeping does not depend on how the outcomes before the step are stored.\<close>

lemma enqueue_outs_prefix:
  "foldR (enqueue ser tick) (n, outs) ms
   = bindR (foldR (enqueue ser tick) (n, []) ms) (\<lambda>(n', outs'). Inr (n', outs @ outs'))"
proof (induction ms arbitrary: n outs)
  case Nil
  then show ?case by simp
next
  case (Cons m ms)
  have one: "enqueue ser tick (n, outs) m
      = bindR (enqueue ser tick (n, []) m) (\<lambda>(n', outs'). Inr (n', outs @ outs'))"
    by (auto simp: enqueue_def bindR_def Let_def split: sum.splits)
  show ?case
  proof (cases "enqueue ser tick (n, []) m")
    case (Inl e)
    then show ?thesis by (simp add: one)
  next
    case (Inr r)
    obtain n1 o1 where r: "r = (n1, o1)" by (cases r)
    have "foldR (enqueue ser tick) (n1, outs @ o1) ms
        = bindR (bindR (foldR (enqueue ser tick) (n1, []) ms) (\<lambda>(n', outs'). Inr (n', o1 @ outs')))
            (\<lambda>(n', outs'). Inr (n', outs @ outs'))"
      unfolding Cons.IH [of n1 "outs @ o1"] by (auto simp: bindR_def split: sum.splits)
    then show ?thesis by (simp add: one Inr r Cons.IH [of n1 o1])
  qed
qed

lemma mset_map_split:
  "mset (map f (filter P ps)) + mset (map f (filter (\<lambda>p. \<not> P p) ps)) = mset (map f ps)"
  by (induction ps) simp_all

lemma due_split:
  "mset (map f (due now ps)) + mset (map f (filter (\<lambda>p. now < pk_delivery p) ps)) = mset (map f ps)"
  by (induction ps) (auto simp: due_def)

lemma net_step_books:
  assumes "net_step ser tick outgoing n = Inr (delivered, outs, n')" and "net_ok n"
    and "books past n k"
  shows "books (past @ outs) n' (k + length outgoing)"
  using assms(1,2)
proof (cases rule: net_step_parts)
  case (1 n1 outs1 n2)
  let ?due = "due (tick + 1) (nt_in_flight n2)"
  let ?out = "map (\<lambda>p. outcome p ND_Delivered (tick + 1)) ?due"
  have "foldR (enqueue ser tick) (n, past) (sort_key message_key outgoing) = Inr (n1, past @ outs1)"
    by (subst enqueue_outs_prefix) (simp add: 1(1))
  from enqueue_all_books [OF this assms(2,3)] have "books (past @ outs1) n1 (k + length outgoing)" by simp
  from transmit_books [OF 1(3) this] have b: "books (past @ outs1) n2 (k + length outgoing)" .
  have m: "mset (past @ outs) = mset (past @ outs1 @ ?out)" by (simp add: 1(7))
  have f: "filter final_outcome ?out = ?out" "filter (\<lambda>r. no_disposition r \<in> {ND_Delivered}) ?out = ?out"
    "filter (\<lambda>r. no_disposition r \<in> {ND_Dropped_Loss, ND_Dropped_Partition}) ?out = []"
    by (simp_all add: filter_id_conv filter_empty_conv final_outcome_def)
  have seqs: "map no_sequence ?out = map pk_sequence ?due" by simp
  have acc: "accounted (past @ outs) (pending n') = accounted (past @ outs1) (pending n2)"
  proof -
    have "accounted (past @ outs) (pending n')
        = accounted (past @ outs1) (queued (nt_links n2)) + (mset (map no_sequence ?out)
          + mset (map pk_sequence (filter (\<lambda>p. tick + 1 < pk_delivery p) (nt_in_flight n2))))"
      unfolding accounted_mset [OF m] 1(8)
      by (simp only: append_assoc [symmetric] accounted_append f) (simp add: accounted_def pending_def)
    also have "\<dots> = accounted (past @ outs1) (pending n2)"
      by (simp only: seqs due_split) (simp add: accounted_def pending_def)
    finally show ?thesis .
  qed
  have "count_of {ND_Delivered} ?out = of_nat (length ?due)"
    "count_of {ND_Dropped_Loss, ND_Dropped_Partition} ?out = 0"
    unfolding count_of_def f by simp_all
  with b acc show ?thesis
    unfolding books_def count_of_mset [OF m] by (simp add: 1(8))
qed

subsection \<open>Partitions\<close>

lemma cut_queues:
  assumes "\<forall>l \<in> set links. proper (ln_sender l) (ln_recipient l)"
  shows "foldR (cut_queue key tick) (kept, outs) links =
    Inr (kept @ map (\<lambda>l. if pair_of (ln_sender l) (ln_recipient l) = key then l\<lparr>ln_queue := []\<rparr> else l) links,
         outs @ map (\<lambda>q. outcome q ND_Dropped_Partition tick)
           (queued (filter (\<lambda>l. pair_of (ln_sender l) (ln_recipient l) = key) links)))"
  using assms by (induction links arbitrary: kept outs) (auto simp: cut_queue_def queued_def link_pair_eq)

lemma cut_flights:
  assumes "\<forall>p \<in> set ps. pk_proper p"
  shows "foldR (cut_flight key tick) (kept, outs) ps =
    Inr (kept @ filter (\<lambda>p. pk_pair p \<noteq> key) ps,
         outs @ map (\<lambda>q. outcome q ND_Dropped_Partition tick) (filter (\<lambda>p. pk_pair p = key) ps))"
  using assms
  by (induction ps arbitrary: kept outs) (auto simp: cut_flight_def pk_proper_def pk_pair_def link_pair_eq)

text \<open>What a cut drops, as one list.\<close>

definition severed :: "string \<times> string \<Rightarrow> net \<Rightarrow> packet list" where
  "severed key n = filter (\<lambda>p. pk_pair p = key) (pending n)"

lemma queued_filter_links:
  assumes "\<forall>l \<in> set links. link_ok l"
  shows "queued (filter (\<lambda>l. pair_of (ln_sender l) (ln_recipient l) = key) links)
      = filter (\<lambda>p. pk_pair p = key) (queued links)"
    and "queued (map (\<lambda>l. if pair_of (ln_sender l) (ln_recipient l) = key then l\<lparr>ln_queue := []\<rparr> else l) links)
      = filter (\<lambda>p. pk_pair p \<noteq> key) (queued links)"
  using assms
  by (induction links)
    (auto simp: queued_def link_ok_def pk_ends_def pk_pair_def link_key_def filter_empty_conv filter_id_conv)

lemma block_parts:
  assumes "net_ok n" and "proper a b" and "pair_of a b \<notin> set (nt_blocked n)"
  obtains n' where "set_link_blocked a b True tick n
      = Inr (sort_key outcome_key (map (\<lambda>q. outcome q ND_Dropped_Partition tick) (severed (pair_of a b) n)), n')"
    and "net_ok n'" and "queued (nt_links n') = filter (\<lambda>p. pk_pair p \<noteq> pair_of a b) (queued (nt_links n))"
    and "nt_in_flight n' = filter (\<lambda>p. pk_pair p \<noteq> pair_of a b) (nt_in_flight n)"
    and "n' = n\<lparr>nt_blocked := insert_by id (pair_of a b) (nt_blocked n), nt_links := nt_links n',
                nt_in_flight := nt_in_flight n',
                nt_dropped := nt_dropped n + of_nat (length (severed (pair_of a b) n))\<rparr>"
proof -
  let ?key = "pair_of a b"
  have sb: "strictly_sorted id (nt_blocked n)" and lo: "links_ok (nt_links n)"
    and fl: "\<forall>p \<in> set (nt_in_flight n). pk_proper p" using assms(1) by (simp_all add: net_ok_def)
  have lk: "\<forall>l \<in> set (nt_links n). link_ok l" and ss: "strictly_sorted link_key (nt_links n)"
    using lo by (simp_all add: links_ok_def)
  then have pl: "\<forall>l \<in> set (nt_links n). proper (ln_sender l) (ln_recipient l)" by (simp add: link_ok_def)
  have absent: "find_by id (nt_blocked n) ?key = None" using find_by_None [OF sb] assms(3) by simp
  let ?links = "map (\<lambda>l. if pair_of (ln_sender l) (ln_recipient l) = ?key then l\<lparr>ln_queue := []\<rparr> else l) (nt_links n)"
  let ?flight = "filter (\<lambda>p. pk_pair p \<noteq> ?key) (nt_in_flight n)"
  let ?n = "n\<lparr>nt_blocked := insert_by id ?key (nt_blocked n), nt_links := ?links, nt_in_flight := ?flight,
      nt_dropped := nt_dropped n + of_nat (length (severed ?key n))\<rparr>"
  have run: "set_link_blocked a b True tick n
      = Inr (sort_key outcome_key (map (\<lambda>q. outcome q ND_Dropped_Partition tick) (severed ?key n)), ?n)"
    using assms(2) absent cut_queues [OF pl] cut_flights [OF fl]
    by (simp add: set_link_blocked_def link_pair_eq severed_def pending_def queued_filter_links(1) [OF lk])
  have queue: "queued ?links = filter (\<lambda>p. pk_pair p \<noteq> ?key) (queued (nt_links n))"
    by (rule queued_filter_links(2) [OF lk])
  then have pend: "pending ?n = filter (\<lambda>p. pk_pair p \<noteq> ?key) (pending n)" by (simp add: pending_def)
  have "map link_key ?links = map link_key (nt_links n)" by (simp add: link_key_def)
  moreover have "\<forall>l \<in> set ?links. link_ok l" using lk by (auto simp: link_ok_def)
  ultimately have "links_ok ?links" using ss by (simp only: links_ok_def)
  moreover have "strictly_sorted id (insert_by id ?key (nt_blocked n))"
    using strictly_sorted_insert_by [OF sb, of ?key] absent by simp
  ultimately have "net_ok ?n" using assms(1) pend by (auto simp: net_ok_def)
  then show thesis using that [OF run] queue by simp
qed

subsection \<open>Runs\<close>

datatype net_op =
    Net_profile net_profile
  | Net_link string string bool u64
  | Net_step u64 "net_message list"

text \<open>An emulator with every outcome it has reported so far.\<close>

fun net_apply ::
    "serializer \<Rightarrow> net_outcome list \<times> net \<Rightarrow> net_op \<Rightarrow> (net_outcome list \<times> net) result" where
  "net_apply ser (past, n) (Net_profile p) = bindR (set_profile p n) (\<lambda>n'. Inr (past, n'))"
| "net_apply ser (past, n) (Net_link a b v tick) =
     bindR (set_link_blocked a b v tick n) (\<lambda>(outs, n'). Inr (past @ outs, n'))"
| "net_apply ser (past, n) (Net_step tick messages) =
     bindR (net_step ser tick messages n) (\<lambda>(delivered, outs, n'). Inr (past @ outs, n'))"

definition net_run :: "serializer \<Rightarrow> u64 \<Rightarrow> u64 \<Rightarrow> net_op list \<Rightarrow> (net_outcome list \<times> net) result" where
  "net_run ser seed step_ms ops =
     bindR (new_net seed step_ms) (\<lambda>n. foldR (net_apply ser) ([], n) ops)"

fun op_messages :: "net_op \<Rightarrow> nat" where
  "op_messages (Net_step tick messages) = length messages"
| "op_messages _ = 0"

lemma new_net_ok: "new_net seed ms = Inr n \<Longrightarrow> net_ok n \<and> books [] n 0"
  by (auto simp: new_net_def net_ok_def links_ok_def pending_def queued_def books_def accounted_def
      split: if_splits)

lemma unblock_erases:
  assumes "strictly_sorted id (nt_blocked n)" and "set_link_blocked a b False tick n = Inr (outs, n')"
  shows "outs = []" and "proper a b"
    and "n' = n\<lparr>nt_blocked := filter (\<lambda>k. k \<noteq> pair_of a b) (nt_blocked n)\<rparr>"
proof -
  from assms(2) show "proper a b" "outs = []"
    by (auto simp: set_link_blocked_def Let_def split: if_splits)
  show "n' = n\<lparr>nt_blocked := filter (\<lambda>k. k \<noteq> pair_of a b) (nt_blocked n)\<rparr>"
  proof (cases "pair_of a b \<in> set (nt_blocked n)")
    case True
    then have "find_by id (nt_blocked n) (pair_of a b) \<noteq> None" using find_by_None [OF assms(1)] by simp
    with assms(2) erase_by_filter [OF assms(1) this] show ?thesis
      by (auto simp: set_link_blocked_def Let_def split: if_splits)
  next
    case False
    then have "find_by id (nt_blocked n) (pair_of a b) = None" "filter (\<lambda>k. k \<noteq> pair_of a b) (nt_blocked n) = nt_blocked n"
      using find_by_None [OF assms(1), of "pair_of a b"] by (auto simp: filter_id_conv)
    with assms(2) show ?thesis by (auto simp: set_link_blocked_def Let_def split: if_splits)
  qed
qed

text \<open>Closing an open link, or leaving a closed one closed.\<close>

lemma block_effect:
  assumes "net_ok n" and "set_link_blocked a b True tick n = Inr (outs, n')"
  shows "net_ok n'" and "pair_of a b \<in> set (nt_blocked n')"
    and "books past n k \<Longrightarrow> books (past @ outs) n' k"
    and "mset outs = mset (map (\<lambda>q. outcome q ND_Dropped_Partition tick) (severed (pair_of a b) n))"
    and "queued (nt_links n') = filter (\<lambda>p. pk_pair p \<noteq> pair_of a b) (queued (nt_links n))"
    and "nt_in_flight n' = filter (\<lambda>p. pk_pair p \<noteq> pair_of a b) (nt_in_flight n)"
proof -
  have sb: "strictly_sorted id (nt_blocked n)" using assms(1) by (simp add: net_ok_def)
  have pab: "proper a b" using assms(2) by (auto simp: set_link_blocked_def)
  have all: "net_ok n' \<and> pair_of a b \<in> set (nt_blocked n') \<and> (books past n k \<longrightarrow> books (past @ outs) n' k)
    \<and> mset outs = mset (map (\<lambda>q. outcome q ND_Dropped_Partition tick) (severed (pair_of a b) n))
    \<and> queued (nt_links n') = filter (\<lambda>p. pk_pair p \<noteq> pair_of a b) (queued (nt_links n))
    \<and> nt_in_flight n' = filter (\<lambda>p. pk_pair p \<noteq> pair_of a b) (nt_in_flight n)"
  proof (cases "pair_of a b \<in> set (nt_blocked n)")
    case True
    then have "find_by id (nt_blocked n) (pair_of a b) \<noteq> None" using find_by_None [OF sb] by simp
    with assms(2) have same: "outs = []" "n' = n" by (auto simp: set_link_blocked_def Let_def)
    have "severed (pair_of a b) n = []"
      "filter (\<lambda>p. pk_pair p \<noteq> pair_of a b) (queued (nt_links n)) = queued (nt_links n)"
      "filter (\<lambda>p. pk_pair p \<noteq> pair_of a b) (nt_in_flight n) = nt_in_flight n"
    proof -
      have "pk_pair p \<noteq> pair_of a b" if "p \<in> set (pending n)" for p
        using that True assms(1) unfolding net_ok_def by metis
      then show "severed (pair_of a b) n = []"
        "filter (\<lambda>p. pk_pair p \<noteq> pair_of a b) (queued (nt_links n)) = queued (nt_links n)"
        "filter (\<lambda>p. pk_pair p \<noteq> pair_of a b) (nt_in_flight n) = nt_in_flight n"
        by (simp_all add: severed_def pending_def filter_empty_conv filter_id_conv)
    qed
    with same True assms(1) show ?thesis by simp
  next
    case False
    obtain n1 where n1: "set_link_blocked a b True tick n
        = Inr (sort_key outcome_key (map (\<lambda>q. outcome q ND_Dropped_Partition tick) (severed (pair_of a b) n)), n1)"
      and ok1: "net_ok n1" and queue1: "queued (nt_links n1) = filter (\<lambda>p. pk_pair p \<noteq> pair_of a b) (queued (nt_links n))"
      and flight1: "nt_in_flight n1 = filter (\<lambda>p. pk_pair p \<noteq> pair_of a b) (nt_in_flight n)"
      and n1': "n1 = n\<lparr>nt_blocked := insert_by id (pair_of a b) (nt_blocked n), nt_links := nt_links n1,
                nt_in_flight := nt_in_flight n1,
                nt_dropped := nt_dropped n + of_nat (length (severed (pair_of a b) n))\<rparr>"
      using block_parts [OF assms(1) pab False] .
    have pend: "pending n1 = filter (\<lambda>p. pk_pair p \<noteq> pair_of a b) (pending n)"
      by (simp add: pending_def queue1 flight1)
    let ?out = "map (\<lambda>q. outcome q ND_Dropped_Partition tick) (severed (pair_of a b) n)"
    from n1 assms(2) have n': "n' = n1" and outs: "mset outs = mset ?out" by auto
    have m: "mset (past @ outs) = mset (past @ ?out)" using outs by simp
    have f: "filter final_outcome ?out = ?out" "filter (\<lambda>r. no_disposition r \<in> {ND_Delivered}) ?out = []"
      "filter (\<lambda>r. no_disposition r \<in> {ND_Dropped_Loss, ND_Dropped_Partition}) ?out = ?out"
      by (simp_all add: filter_id_conv filter_empty_conv final_outcome_def)
    have "mset (map pk_sequence (severed (pair_of a b) n))
        + mset (map pk_sequence (filter (\<lambda>p. pk_pair p \<noteq> pair_of a b) (pending n)))
        = mset (map pk_sequence (pending n))"
      unfolding severed_def by (rule mset_map_split)
    then have acc: "accounted (past @ ?out) (pending n1) = accounted past (pending n)"
      unfolding pend by (simp only: accounted_append f) (simp add: accounted_def comp_def ac_simps)
    have blocked: "nt_blocked n1 = insert_by id (pair_of a b) (nt_blocked n)"
      and counts: "nt_next n1 = nt_next n" "nt_messages n1 = nt_messages n" "nt_delivered n1 = nt_delivered n"
        "nt_dropped n1 = nt_dropped n + of_nat (length (severed (pair_of a b) n))"
      by (subst n1'; simp)+
    have "count_of {ND_Delivered} ?out = 0"
      "count_of {ND_Dropped_Loss, ND_Dropped_Partition} ?out = of_nat (length (severed (pair_of a b) n))"
      unfolding count_of_def f by simp_all
    with acc have "books (past @ outs) n1 k" if "books past n k"
      using that unfolding books_def accounted_mset [OF m] count_of_mset [OF m] by (simp add: counts)
    then show ?thesis using ok1 outs queue1 flight1 blocked by (simp add: n')
  qed
  then show "net_ok n'" "pair_of a b \<in> set (nt_blocked n')" "books past n k \<Longrightarrow> books (past @ outs) n' k"
    "mset outs = mset (map (\<lambda>q. outcome q ND_Dropped_Partition tick) (severed (pair_of a b) n))"
    "queued (nt_links n') = filter (\<lambda>p. pk_pair p \<noteq> pair_of a b) (queued (nt_links n))"
    "nt_in_flight n' = filter (\<lambda>p. pk_pair p \<noteq> pair_of a b) (nt_in_flight n)" by blast+
qed

lemma net_apply_ok:
  assumes "net_apply ser (past, n) op = Inr (past', n')" and "net_ok n"
  shows "net_ok n'"
proof (cases op)
  case (Net_profile p)
  with assms show ?thesis by (auto simp: set_profile_def net_ok_def pending_def)
next
  case (Net_link a b v tick)
  with assms(1) obtain outs where r: "set_link_blocked a b v tick n = Inr (outs, n')" by auto
  show ?thesis
  proof (cases v)
    case True
    with r block_effect(1) [OF assms(2), of a b tick outs n'] show ?thesis by simp
  next
    case False
    have sb: "strictly_sorted id (nt_blocked n)" using assms(2) by (simp add: net_ok_def)
    from r False have "set_link_blocked a b False tick n = Inr (outs, n')" by simp
    from unblock_erases [OF sb this] assms(2) strictly_sorted_filter [of id "nt_blocked n"] show ?thesis
      by (auto simp: net_ok_def pending_def)
  qed
next
  case (Net_step tick messages)
  with assms net_step_ok show ?thesis by fastforce
qed

lemma net_apply_books:
  assumes "net_apply ser (past, n) op = Inr (past', n')" and "net_ok n" and "books past n k"
  shows "net_ok n' \<and> books past' n' (k + op_messages op)"
proof (cases op)
  case (Net_profile p)
  with assms show ?thesis
    by (auto simp: set_profile_def net_ok_def books_def pending_def)
next
  case (Net_link a b v tick)
  with assms(1) obtain outs where r: "set_link_blocked a b v tick n = Inr (outs, n')" "past' = past @ outs" by auto
  show ?thesis
  proof (cases v)
    case True
    with r block_effect [OF assms(2), of a b tick outs n'] assms(3) Net_link show ?thesis by simp
  next
    case False
    have sb: "strictly_sorted id (nt_blocked n)" using assms(2) by (simp add: net_ok_def)
    from r False have "set_link_blocked a b False tick n = Inr (outs, n')" by simp
    from unblock_erases [OF sb this] assms r strictly_sorted_filter [of id "nt_blocked n"] Net_link show ?thesis
      by (auto simp: net_ok_def books_def pending_def)
  qed
next
  case (Net_step tick messages)
  with assms net_step_books net_step_ok show ?thesis by fastforce
qed

lemma net_run_books:
  assumes "net_run ser seed ms ops = Inr (outs, n)"
  shows "net_ok n \<and> books outs n (sum_list (map op_messages ops))"
proof -
  have "net_ok n' \<and> books past' n' (k + sum_list (map op_messages ops))"
    if "foldR (net_apply ser) (past, n) ops = Inr (past', n')" "net_ok n" "books past n k" for past n past' n' k
    using that
  proof (induction ops arbitrary: past n k)
    case (Cons op ops)
    then obtain past1 n1 where one: "net_apply ser (past, n) op = Inr (past1, n1)"
      and rest: "foldR (net_apply ser) (past1, n1) ops = Inr (past', n')" by auto
    from net_apply_books [OF one Cons.prems(2,3)] Cons.IH [OF rest, of "k + op_messages op"]
    show ?case by (simp add: add.assoc)
  qed simp
  with assms new_net_ok show ?thesis by (fastforce simp: net_run_def)
qed

subsection \<open>Time\<close>

definition net_timed :: "u64 \<Rightarrow> net \<Rightarrow> bool" where
  "net_timed T n \<longleftrightarrow> (\<forall>p \<in> set (queued (nt_links n)). waiting T p) \<and> (\<forall>p \<in> set (nt_in_flight n). flying T p)"

text \<open>A delivery that reports its times in order, strictly after the tick it was sent in.\<close>

definition timely :: "net_outcome \<Rightarrow> bool" where
  "timely r \<longleftrightarrow> (no_disposition r = ND_Delivered \<longrightarrow>
     no_enqueue r \<le> no_start r \<and> no_start r \<le> no_end r \<and> no_end r < no_delivery r
     \<and> no_delivery r \<le> no_tick r)"

lemma uniform_upper:
  assumes "uniform st lo hi = Inr (st', v)" and "lo \<le> 0"
  shows "v \<le> i64_max"
proof -
  have "to_i64 x \<le> i64_max" for x using sint_lt [of x] by (simp add: to_i64_def i64_max_def)
  then have "to_i64 x \<le> i64_max \<and> lo + to_i64 x \<le> i64_max" for x using assms(2) by (meson add_mono order_trans add_le_same_cancel2 order_refl)
  then show ?thesis using assms(1) by (auto simp: uniform_def Let_def split: if_splits prod.splits)
qed

lemma make_packet_jitter:
  assumes "make_packet ser m tick n = Inr (p, n')"
  shows "pk_jitter p \<le> i64_max"
proof -
  let ?j = "to_i64 (np_jitter (nt_profile n))"
  from assms obtain v where v: "draw (nt_seed n) ''jitter'' m (nt_next n) (- ?j) ?j = Inr v" "pk_jitter p = v"
    by (auto simp: make_packet_def Let_def split: if_splits)
  then obtain st' where "uniform (stream_seed (nt_seed n) (draw_key ''jitter'' m (nt_next n))) (- ?j) ?j = Inr (st', v)"
    by (auto simp: draw_def)
  moreover from this have "- ?j \<le> 0" by (auto simp: uniform_def split: if_splits)
  ultimately show ?thesis using v by (auto intro: uniform_upper)
qed

lemma enqueue_timed:
  assumes "enqueue ser tick (n, outs) m = Inr (n', outs')" and "net_ok n"
    and "\<forall>p \<in> set (queued (nt_links n)). waiting tick p" and "\<forall>r \<in> set outs. timely r"
  shows "\<forall>p \<in> set (queued (nt_links n')). waiting tick p" and "\<forall>r \<in> set outs'. timely r"
    and "nt_in_flight n' = nt_in_flight n"
proof -
  have sb: "strictly_sorted id (nt_blocked n)" and lo: "links_ok (nt_links n)"
    using assms(2) by (simp_all add: net_ok_def)
  have all: "(\<forall>p \<in> set (queued (nt_links n')). waiting tick p) \<and> (\<forall>r \<in> set outs'. timely r)
      \<and> nt_in_flight n' = nt_in_flight n"
    using assms(1) sb
  proof (cases rule: enqueue_cases)
    case (queue p n0)
    have "set (queued (queue_push p (nt_links n))) = insert p (set (queued (nt_links n)))"
      using arg_cong [OF queue_push_ok(2) [OF lo queue(2)], of set_mset] by simp
    moreover have "waiting tick p"
      using make_packet_fields [OF queue(1)] make_packet_jitter [OF queue(1)] by (simp add: waiting_def)
    ultimately show ?thesis using queue assms(3,4) by (auto simp: timely_def)
  qed (use assms(3,4) in \<open>auto simp: timely_def\<close>)
  then show "\<forall>p \<in> set (queued (nt_links n')). waiting tick p" "\<forall>r \<in> set outs'. timely r"
    "nt_in_flight n' = nt_in_flight n" by blast+
qed

lemma enqueue_all_timed:
  assumes "foldR (enqueue ser tick) (n, outs) ms = Inr (n', outs')" and "net_ok n"
    and "\<forall>p \<in> set (queued (nt_links n)). waiting tick p" and "\<forall>r \<in> set outs. timely r"
  shows "(\<forall>p \<in> set (queued (nt_links n')). waiting tick p) \<and> (\<forall>r \<in> set outs'. timely r)
    \<and> nt_in_flight n' = nt_in_flight n"
  using assms
proof (induction ms arbitrary: n outs)
  case (Cons m ms)
  then obtain n1 outs1 where one: "enqueue ser tick (n, outs) m = Inr (n1, outs1)"
    and rest: "foldR (enqueue ser tick) (n1, outs1) ms = Inr (n', outs')" by auto
  from Cons.IH [OF rest enqueue_ok [OF one Cons.prems(2)] enqueue_timed(1,2) [OF one Cons.prems(2-4)]]
    enqueue_timed(3) [OF one Cons.prems(2-4)] show ?case by simp
qed simp

lemma waiting_mono: "waiting T p \<Longrightarrow> T \<le> T' \<Longrightarrow> waiting T' p"
  by (auto simp: waiting_def)

lemma flying_mono: "flying T p \<Longrightarrow> T \<le> T' \<Longrightarrow> flying T' p"
  by (auto simp: flying_def)

lemma sends_timed:
  assumes "list_all2 (sends tick) links rs" and "\<forall>p \<in> set (queued links). waiting tick p"
  shows "(\<forall>p \<in> set (queued (map fst rs)). waiting tick p) \<and> (\<forall>p \<in> set (concat (map snd rs)). flying tick p)"
  using assms
proof (induction rule: list_all2_induct)
  case (Cons l links r rs)
  have "\<forall>p \<in> set (ln_queue l). waiting tick p" using Cons.prems by (simp add: queued_def)
  then have "(\<forall>p \<in> set (ln_queue (fst r)). waiting tick p) \<and> (\<forall>p \<in> set (snd r). flying tick p)"
    using Cons.hyps(1) unfolding sends_def served_def by blast
  with Cons show ?case by (auto simp: queued_def)
qed (simp add: queued_def)

lemma net_step_timed:
  assumes "net_step ser tick outgoing n = Inr (delivered, outs, n')" and "net_ok n"
    and "net_timed T n" and "T \<le> tick"
  shows "net_timed tick n' \<and> (\<forall>r \<in> set outs. timely r)"
  using assms(1,2)
proof (cases rule: net_step_parts)
  case (1 n1 outs1 n2)
  have w: "\<forall>p \<in> set (queued (nt_links n)). waiting tick p" "\<forall>p \<in> set (nt_in_flight n). flying tick p"
    using assms(3,4) by (auto simp: net_timed_def intro: waiting_mono flying_mono)
  from enqueue_all_timed [OF 1(1) assms(2) w(1)]
  have e: "\<forall>p \<in> set (queued (nt_links n1)). waiting tick p" "\<forall>r \<in> set outs1. timely r"
    "nt_in_flight n1 = nt_in_flight n" by simp_all
  from 1(3) obtain rs where rs: "list_all2 (sends tick) (nt_links n1) rs"
    and n2: "n2 = n1\<lparr>nt_links := map fst rs,
                nt_in_flight := sort_key flight_key (nt_in_flight n1 @ concat (map snd rs))\<rparr>"
    by (rule transmit_spec)
  from sends_timed [OF rs e(1)] w(2) e(3)
  have q2: "\<forall>p \<in> set (queued (nt_links n2)). waiting tick p" and f2: "\<forall>p \<in> set (nt_in_flight n2). flying tick p"
    by (auto simp: n2)
  have "timely (outcome p ND_Delivered (tick + 1))" if "p \<in> set (due (tick + 1) (nt_in_flight n2))" for p
    using that f2 by (auto simp: due_def timely_def outcome_def flying_def)
  with e(2) q2 f2 show ?thesis by (auto simp: net_timed_def 1(7,8))
qed

fun op_ticks :: "net_op \<Rightarrow> u64 list" where
  "op_ticks (Net_step tick messages) = [tick]"
| "op_ticks _ = []"

lemma cut_timely:
  assumes "mset outs = mset (map (\<lambda>q. outcome q ND_Dropped_Partition tick) ps)"
  shows "\<forall>r \<in> set outs. timely r"
  using arg_cong [OF assms, of set_mset] by (auto simp: timely_def)

lemma net_apply_timed:
  assumes "net_apply ser (past, n) op = Inr (past', n')" and "net_ok n" and "net_timed T n"
    and "sorted (T # op_ticks op)" and "\<forall>r \<in> set past. timely r"
  shows "net_timed (last (T # op_ticks op)) n' \<and> (\<forall>r \<in> set past'. timely r)"
proof (cases op)
  case (Net_profile p)
  with assms show ?thesis by (auto simp: set_profile_def net_timed_def)
next
  case (Net_link a b v tick)
  with assms(1) obtain outs where r: "set_link_blocked a b v tick n = Inr (outs, n')" "past' = past @ outs" by auto
  show ?thesis
  proof (cases v)
    case True
    with r(1) have "set_link_blocked a b True tick n = Inr (outs, n')" by simp
    note e = block_effect(4-6) [OF assms(2) this]
    then have "net_timed T n'" using assms(3) by (auto simp: net_timed_def)
    with cut_timely [OF e(1)] assms(5) r(2) Net_link show ?thesis by auto
  next
    case False
    have sb: "strictly_sorted id (nt_blocked n)" using assms(2) by (simp add: net_ok_def)
    from r False have "set_link_blocked a b False tick n = Inr (outs, n')" by simp
    from unblock_erases [OF sb this] assms(3,5) r(2) Net_link show ?thesis
      by (auto simp: net_timed_def)
  qed
next
  case (Net_step tick messages)
  with assms(1) obtain delivered outs where "net_step ser tick messages n = Inr (delivered, outs, n')"
    "past' = past @ outs" by auto
  with net_step_timed [OF this(1) assms(2,3)] assms(4,5) Net_step show ?thesis by auto
qed

lemma net_run_timed:
  assumes "net_run ser seed ms ops = Inr (outs, n)" and "sorted (concat (map op_ticks ops))"
  shows "(\<exists>T. net_timed T n) \<and> (\<forall>r \<in> set outs. timely r)"
proof -
  have all: "(\<exists>T'. net_timed T' n') \<and> (\<forall>r \<in> set past'. timely r)"
    if "foldR (net_apply ser) (past, n) ops = Inr (past', n')" "net_ok n" "net_timed T n"
      "sorted (T # concat (map op_ticks ops))" "\<forall>r \<in> set past. timely r" for past n past' n' T
    using that
  proof (induction ops arbitrary: past n T)
    case (Cons op ops)
    then obtain past1 n1 where one: "net_apply ser (past, n) op = Inr (past1, n1)"
      and rest: "foldR (net_apply ser) (past1, n1) ops = Inr (past', n')" by auto
    have s: "sorted (T # op_ticks op)" "sorted (last (T # op_ticks op) # concat (map op_ticks ops))"
      using Cons.prems(4) by (cases op; auto simp: sorted_append)+
    have "net_ok n1" using net_apply_ok [OF one Cons.prems(2)] .
    with net_apply_timed [OF one Cons.prems(2,3) s(1) Cons.prems(5)] Cons.IH [OF rest _ _ s(2)]
    show ?case by blast
  qed auto
  obtain n0 where n0: "new_net seed ms = Inr n0"
    and run: "foldR (net_apply ser) ([], n0) ops = Inr (outs, n)"
    using assms(1) by (auto simp: net_run_def)
  have "net_timed 0 n0" using n0
    by (auto simp: new_net_def net_timed_def queued_def split: if_splits)
  moreover have "sorted (0 # concat (map op_ticks ops))" using assms(2) by simp
  ultimately show ?thesis using all [OF run _ _ ] new_net_ok [OF n0] by simp
qed

subsection \<open>What a partition lets through\<close>

definition msg_pair :: "net_message \<Rightarrow> string \<times> string" where
  "msg_pair m = pair_of (nm_sender m) (nm_recipient m)"

text \<open>Outcomes on a blocked pair of vehicles are partition drops.\<close>

definition honours :: "net \<Rightarrow> net_outcome list \<Rightarrow> bool" where
  "honours n outs \<longleftrightarrow> (\<forall>r \<in> set outs. msg_pair (no_message r) \<in> set (nt_blocked n)
     \<longrightarrow> no_disposition r = ND_Dropped_Partition)"

lemma enqueue_honours:
  assumes "enqueue ser tick (n, outs) m = Inr (n', outs')" and "strictly_sorted id (nt_blocked n)"
    and "honours n outs"
  shows "nt_blocked n' = nt_blocked n" and "honours n' outs'"
proof -
  have "nt_blocked n' = nt_blocked n \<and> honours n' outs'"
    using assms(1,2)
    by (cases rule: enqueue_cases) (use assms(3) in \<open>auto simp: honours_def msg_pair_def pk_pair_def\<close>)
  then show "nt_blocked n' = nt_blocked n" "honours n' outs'" by blast+
qed

lemma enqueue_all_honours:
  assumes "foldR (enqueue ser tick) (n, outs) ms = Inr (n', outs')" and "strictly_sorted id (nt_blocked n)"
    and "honours n outs"
  shows "nt_blocked n' = nt_blocked n \<and> honours n' outs'"
  using assms
proof (induction ms arbitrary: n outs)
  case (Cons m ms)
  then obtain n1 outs1 where one: "enqueue ser tick (n, outs) m = Inr (n1, outs1)"
    and rest: "foldR (enqueue ser tick) (n1, outs1) ms = Inr (n', outs')" by auto
  from Cons.IH [OF rest] enqueue_honours [OF one Cons.prems(2,3)] Cons.prems(2) show ?case by simp
qed simp

lemma net_step_honours:
  assumes "net_step ser tick outgoing n = Inr (delivered, outs, n')" and "net_ok n"
  shows "honours n outs \<and> (\<forall>m \<in> set delivered. msg_pair m \<notin> set (nt_blocked n)) \<and> nt_blocked n' = nt_blocked n"
  using assms
proof (cases rule: net_step_parts)
  case (1 n1 outs1 n2)
  have "strictly_sorted id (nt_blocked n)" using assms(2) by (simp add: net_ok_def)
  from enqueue_all_honours [OF 1(1) this] have h: "nt_blocked n1 = nt_blocked n" "honours n1 outs1"
    by (simp_all add: honours_def)
  from 1(3) have b: "nt_blocked n2 = nt_blocked n" by (auto simp: h elim: transmit_spec)
  have "pk_pair p \<notin> set (nt_blocked n)" if "p \<in> set (nt_in_flight n2)" for p
    using that 1(4) unfolding net_ok_def pending_def b by simp
  then have "msg_pair (pk_message p) \<notin> set (nt_blocked n)" if "p \<in> set (due (tick + 1) (nt_in_flight n2))" for p
    using that by (auto simp: due_def msg_pair_def pk_pair_def)
  with h show ?thesis unfolding 1(6-8) honours_def by (auto simp: b)
qed

subsection \<open>Order of arrival at the emulator\<close>

lemma message_key_inj: "inj message_key"
  by (rule injI) (simp add: message_key_def)

lemma sort_key_permuted:
  assumes "inj key" and "mset xs = mset ys"
  shows "sort_key key xs = sort_key key ys"
proof (rule properties_for_sort_key)
  show "mset (sort_key key ys) = mset xs" using assms(2) by simp
  show "sorted (map key (sort_key key ys))" by simp
  fix k assume "k \<in> set (sort_key key ys)"
  have single: "filter (\<lambda>x. key k = key x) zs = replicate (count (mset zs) k) k" for zs
    using injD [OF assms(1)] by (induction zs) auto
  show "filter (\<lambda>x. key k = key x) (sort_key key ys) = filter (\<lambda>x. key k = key x) xs"
    unfolding single using assms(2) by simp
qed

subsection \<open>Properties\<close>

definition demo_profile :: net_profile where
  "demo_profile =
     \<lparr>np_id = ''p'', np_latency = 2, np_jitter = 1, np_loss = 100, np_bandwidth = 4, np_reorder = 0,
      np_window = 0\<rparr>"

definition demo_message :: "string \<Rightarrow> net_message" where
  "demo_message r = \<lparr>nm_sender = ''a'', nm_recipient = r, nm_version = 1, nm_payload = ''hi''\<rparr>"

definition demo_ops :: "net_op list" where
  "demo_ops = [Net_profile demo_profile, Net_step 0 [demo_message ''b'', demo_message ''c''], Net_step 1 [],
     Net_link ''a'' ''c'' True 2]"

definition demo_net :: net where
  "demo_net = (case net_run (\<lambda>_. ''123456'') 7 100 demo_ops of Inr (outs, n) \<Rightarrow> n)"

definition demo_outs :: "net_outcome list" where
  "demo_outs = (case net_run (\<lambda>_. ''123456'') 7 100 demo_ops of Inr (outs, n) \<Rightarrow> outs)"

lemma demo_run_evaluates:
  "(case net_run (\<lambda>_. ''123456'') 7 100 demo_ops of
      Inr (outs, n) \<Rightarrow> map no_disposition outs = [ND_Queued, ND_Queued, ND_Dropped_Partition]
        \<and> nt_blocked n = [(''a'', ''c'')] \<and> nt_profile n = demo_profile
    | Inl _ \<Rightarrow> False)"
  by code_simp

lemma demo_run:
  "net_run (\<lambda>_. ''123456'') 7 100 demo_ops = Inr (demo_outs, demo_net)"
  "map no_disposition demo_outs = [ND_Queued, ND_Queued, ND_Dropped_Partition]"
  "nt_blocked demo_net = [(''a'', ''c'')]"
  using demo_run_evaluates by (auto simp: demo_outs_def demo_net_def split: sum.splits)

text \<open>C28: every message is accounted for exactly once. After any run, the sequence numbers given out are
  those with one final outcome (delivered, lost or cut) together with those still under way, and the
  three message counters agree with the outcomes.\<close>

theorem network_accounting:
  assumes "net_run ser seed ms ops = Inr (outs, n)"
  shows "accounted outs (pending n) = mset (map of_nat [1..<Suc (sum_list (map op_messages ops))])
    \<and> nt_messages n = of_nat (sum_list (map op_messages ops))
    \<and> nt_delivered n = count_of {ND_Delivered} outs
    \<and> nt_dropped n = count_of {ND_Dropped_Loss, ND_Dropped_Partition} outs"
  using net_run_books [OF assms] by (simp add: books_def)

theorem network_accounting_witness:
  "accounted demo_outs (pending demo_net) = {#1, 2#} \<and> nt_messages demo_net = 2 \<and> nt_dropped demo_net = 1"
  using network_accounting [OF demo_run(1)] by (simp add: demo_ops_def upt_rec count_of_map demo_run(2))

text \<open>A partition holds. In a step after any run, every outcome on a blocked pair of vehicles is a
  partition drop, nothing is delivered across it, and the set of blocked pairs is unchanged.\<close>

theorem partition_holds:
  assumes "net_run ser seed ms ops = Inr (past, n)"
    and "net_step ser tick messages n = Inr (delivered, outs, n')"
  shows "(\<forall>r \<in> set outs. msg_pair (no_message r) \<in> set (nt_blocked n)
            \<longrightarrow> no_disposition r = ND_Dropped_Partition)
    \<and> (\<forall>m \<in> set delivered. msg_pair m \<notin> set (nt_blocked n)) \<and> nt_blocked n' = nt_blocked n"
  using net_step_honours [OF assms(2)] net_run_books [OF assms(1)] by (simp add: honours_def)

text \<open>Cutting a link drops exactly what is queued or in flight between the two vehicles, in either
  direction, reports each such packet once, leaves everything else where it was, and marks the pair as
  blocked; asking again changes nothing.\<close>

theorem cut_link_effect:
  assumes "net_run ser seed ms ops = Inr (past, n)"
    and "set_link_blocked a b True tick n = Inr (outs, n')"
  shows "mset outs = mset (map (\<lambda>p. outcome p ND_Dropped_Partition tick)
            (filter (\<lambda>p. msg_pair (pk_message p) = pair_of a b) (pending n)))
    \<and> pending n' = filter (\<lambda>p. msg_pair (pk_message p) \<noteq> pair_of a b) (pending n)
    \<and> link_blocked a b n' = Inr True
    \<and> set_link_blocked b a True tick n' = Inr ([], n')"
proof -
  have ok: "net_ok n" using net_run_books [OF assms(1)] by simp
  note e = block_effect [OF ok assms(2)]
  have sb: "strictly_sorted id (nt_blocked n')" using e(1) by (simp add: net_ok_def)
  have "proper a b" using assms(2) by (auto simp: set_link_blocked_def)
  then have ab: "link_pair a b = Inr (pair_of a b)" "link_pair b a = Inr (pair_of a b)"
    using pair_of_commute by (auto simp: proper_def)
  have "find_by id (nt_blocked n') (pair_of a b) \<noteq> None" using find_by_None [OF sb] e(2) by simp
  with ab e(4-6) show ?thesis
    by (auto simp: link_blocked_def set_link_blocked_def severed_def pk_pair_def msg_pair_def pending_def)
qed

lemma demo_step_evaluates:
  "(case net_step (\<lambda>_. ''123456'') 2 [demo_message ''c''] demo_net of
      Inr (delivered, outs, n) \<Rightarrow> map no_disposition outs = [ND_Dropped_Partition] | Inl _ \<Rightarrow> False)"
  by code_simp

lemma demo_step:
  "\<exists>delivered outs n. net_step (\<lambda>_. ''123456'') 2 [demo_message ''c''] demo_net = Inr (delivered, outs, n)"
  using demo_step_evaluates by (auto split: sum.splits)

theorem partition_holds_witness:
  "\<exists>delivered outs n. net_step (\<lambda>_. ''123456'') 2 [demo_message ''c''] demo_net = Inr (delivered, outs, n)
     \<and> nt_blocked n = [(''a'', ''c'')]"
  using demo_step partition_holds [OF demo_run(1)] demo_run(3) by metis

theorem cut_link_effect_witness:
  "\<exists>outs n. set_link_blocked ''a'' ''b'' True 2 demo_net = Inr (outs, n) \<and> link_blocked ''a'' ''b'' n = Inr True"
proof -
  have ok: "net_ok demo_net" using net_run_books [OF demo_run(1)] by simp
  have "proper ''a'' ''b''" "pair_of ''a'' ''b'' \<notin> set (nt_blocked demo_net)"
    by (simp_all add: proper_def pair_of_def demo_run(3))
  from block_parts [OF ok this] obtain outs n where r: "set_link_blocked ''a'' ''b'' True 2 demo_net = Inr (outs, n)"
    by metis
  with cut_link_effect [OF demo_run(1) r] show ?thesis by blast
qed

text \<open>Nothing is delivered before it was sent and transmitted. In a run whose steps do not go back in
  time, every delivery reports enqueueing, start and end of transmission and delivery in that order,
  the delivery strictly after the end of transmission and not after the tick it is observed at.\<close>

theorem delivery_causality:
  assumes "net_run ser seed ms ops = Inr (outs, n)" and "sorted (concat (map op_ticks ops))"
    and "r \<in> set outs" and "no_disposition r = ND_Delivered"
  shows "no_enqueue r \<le> no_start r \<and> no_start r \<le> no_end r \<and> no_end r < no_delivery r
    \<and> no_delivery r \<le> no_tick r \<and> no_enqueue r < no_tick r"
  using net_run_timed [OF assms(1,2)] assms(3,4) by (auto simp: timely_def)

definition late_ops :: "net_op list" where
  "late_ops = [Net_profile demo_profile, Net_step 0 [demo_message ''b''], Net_step 1 [], Net_step 3 []]"

lemma late_run_evaluates:
  "(case net_run (\<lambda>_. ''123456'') 7 100 late_ops of
      Inr (outs, n) \<Rightarrow> map no_disposition outs = [ND_Queued, ND_Delivered] | Inl _ \<Rightarrow> False)"
  by code_simp

theorem delivery_causality_witness:
  "\<exists>outs n. net_run (\<lambda>_. ''123456'') 7 100 late_ops = Inr (outs, n) \<and> no_disposition (last outs) = ND_Delivered
     \<and> no_enqueue (last outs) < no_tick (last outs)"
proof -
  obtain outs n where run: "net_run (\<lambda>_. ''123456'') 7 100 late_ops = Inr (outs, n)"
    and outs: "map no_disposition outs = [ND_Queued, ND_Delivered]"
    using late_run_evaluates by (auto split: sum.splits)
  then have "last outs \<in> set outs" "no_disposition (last outs) = ND_Delivered" by auto
  with delivery_causality [OF run _ this] run show ?thesis by (auto simp: late_ops_def)
qed

text \<open>A link is a FIFO with a byte budget. In one tick every link sends a prefix of its queue, unchanged
  but for the transmission times, and at most as many bytes as the packet at its head allows.\<close>

theorem link_fifo_budget:
  assumes "transmit tick n = Inr n'" and "i < length (nt_links n)"
  shows "\<exists>sent. map pk_core (ln_queue (nt_links n ! i)) = map pk_core sent @ map pk_core (ln_queue (nt_links n' ! i))
    \<and> set sent \<subseteq> set (nt_in_flight n')
    \<and> load (ln_queue (nt_links n ! i)) \<le> load (ln_queue (nt_links n' ! i)) + head_rate (ln_queue (nt_links n ! i))"
  using assms(1)
proof (cases rule: transmit_spec)
  case (1 rs)
  then have s: "sends tick (nt_links n ! i) (rs ! i)" and len: "length rs = length (nt_links n)"
    using assms(2) by (auto simp: list_all2_conv_all_nth)
  have "set (snd (rs ! i)) \<subseteq> set (nt_in_flight n')" using assms(2) len by (auto simp: 1(2))
  with s show ?thesis using assms(2) len by (auto simp: sends_def served_def 1(2))
qed

definition demo_packet :: "u64 \<Rightarrow> u64 \<Rightarrow> packet" where
  "demo_packet seq bytes =
     \<lparr>pk_message = demo_message ''b'', pk_profile = demo_profile, pk_sequence = seq, pk_serialized = bytes,
      pk_remaining = bytes, pk_enqueue = 0, pk_start = 0, pk_end = 0, pk_delivery = 0, pk_delay = 0,
      pk_jitter = 0, pk_started = False, pk_reordered = False\<rparr>"

definition busy_net :: net where
  "busy_net = \<lparr>nt_seed = 7, nt_step_ms = 100, nt_profile = demo_profile,
     nt_links = [\<lparr>ln_sender = ''a'', ln_recipient = ''b'', ln_queue = [demo_packet 1 3, demo_packet 2 5]\<rparr>],
     nt_in_flight = [], nt_blocked = [], nt_next = 3, nt_bytes = 8, nt_messages = 2, nt_delivered = 0,
     nt_dropped = 0, nt_reordered = 0\<rparr>"

lemma busy_evaluates:
  "(case transmit 5 busy_net of Inr n \<Rightarrow> map pk_sequence (queued (nt_links n)) = [2] | Inl _ \<Rightarrow> False)"
  by code_simp

theorem link_fifo_budget_witness:
  "\<exists>n. transmit 5 busy_net = Inr n \<and> 8 \<le> load (ln_queue (nt_links n ! 0)) + 4"
proof -
  obtain n where n: "transmit 5 busy_net = Inr n" using busy_evaluates by (auto split: sum.splits)
  have "load (ln_queue (nt_links busy_net ! 0)) = 8" "head_rate (ln_queue (nt_links busy_net ! 0)) = 4"
    by (simp_all add: busy_net_def demo_packet_def demo_profile_def load_def head_rate_def)
  with n link_fifo_budget [OF n, of 0] show ?thesis by (auto simp: busy_net_def)
qed

text \<open>C33: a step does not depend on the order in which its messages are handed over: any permutation gives
  the same deliveries, outcomes and state.\<close>

theorem net_step_order:
  assumes "mset messages = mset messages'"
  shows "net_step ser tick messages n = net_step ser tick messages' n"
proof -
  have "messages = [] \<longleftrightarrow> messages' = []" using assms by (metis mset_zero_iff)
  then show ?thesis by (simp add: net_step_def sort_key_permuted [OF message_key_inj assms])
qed

theorem net_step_order_witness:
  "net_step (\<lambda>_. ''123456'') 2 [demo_message ''b'', demo_message ''c''] demo_net
   = net_step (\<lambda>_. ''123456'') 2 [demo_message ''c'', demo_message ''b''] demo_net"
  by (rule net_step_order) simp

end
