(* ===== verification/Sim_Laws.thy ===== *)
theory Sim_Laws
  imports Sim_Observe Scenario_Laws Planner_Laws Network_Laws
begin

text \<open>
  The invariant of the simulator's state, kept by every phase of a step whatever the agents ask for: vehicles stay in
  the world with energy and payload that are not negative, reserved windows do not overlap, finished tasks are released
  ones, and none of the four run-time checks has ever counted a violation.
\<close>

named_theorems sim_intros \<open>an operation of the simulator keeps its invariant\<close>

subsection \<open>Lists searched by identifier\<close>

lemma map_key_update: "key v = k \<Longrightarrow> map key (update_by key k (\<lambda>_. v) xs) = map key xs"
  by (induction xs) auto

lemma list_all_update: "list_all P xs \<Longrightarrow> P v \<Longrightarrow> list_all P (update_by key k (\<lambda>_. v) xs)"
  by (induction xs) auto

lemma list_all_find: "list_all P xs \<Longrightarrow> find_by key xs k = Some x \<Longrightarrow> P x"
  by (metis find_by_SomeD list_all_iff)

lemma update_by_absent: "find_by key xs k = None \<Longrightarrow> update_by key k f xs = xs"
  by (induction xs) (auto split: if_splits)

subsection \<open>The invariant\<close>

definition world_ok :: "world \<Rightarrow> bool" where
  "world_ok w \<longleftrightarrow> strictly_sorted rg_id (wd_regions w) \<and> list_all (\<lambda>l. 0 \<le> lc_charge l) (wd_locations w)
     \<and> list_all (\<lambda>r. px (rg_min r) < px (rg_max r) \<and> py (rg_min r) < py (rg_max r)) (wd_regions w)"

definition vehicle_ok :: "world \<Rightarrow> vehicle \<Rightarrow> bool" where
  "vehicle_ok w v \<longleftrightarrow> 0 \<le> vh_energy v \<and> 1 \<le> vh_capacity v \<and> 1 \<le> vh_speed v \<and> 0 \<le> vh_payload v
     \<and> in_world w \<lparr>px = vh_x v, py = vh_y v\<rparr> \<and> 0 \<le> vp_energy (vh_spec v)
     \<and> sorted (map capability_num (vp_caps (vh_spec v))) \<and> list_all valid_capability (vp_caps (vh_spec v))
     \<and> distinct (vp_caps (vh_spec v))"

definition task_ok :: "task \<Rightarrow> bool" where
  "task_ok t \<longleftrightarrow> 0 \<le> tp_payload (tk_spec t) \<and> 0 \<le> tp_service_energy (tk_spec t) \<and> valid_capability (tp_cap (tk_spec t))
     \<and> (tk_status t \<noteq> TS_Pending \<longrightarrow> tk_released t)"

definition vehicles_ok :: "string list \<Rightarrow> world \<Rightarrow> vehicle list \<Rightarrow> bool" where
  "vehicles_ok ids w vs \<longleftrightarrow> ids = map vh_id vs \<and> strictly_sorted vh_id vs \<and> list_all (vehicle_ok w) vs"

definition tasks_ok :: "task list \<Rightarrow> bool" where
  "tasks_ok ts \<longleftrightarrow> strictly_sorted tk_id ts \<and> list_all task_ok ts"

text \<open>The four conditions the simulator counts violations of.\<close>

definition checks_clear :: "sim \<Rightarrow> bool" where
  "checks_clear s \<longleftrightarrow> si_bad_energy s = 0 \<and> si_bad_overlap s = 0 \<and> si_bad_completed s = 0 \<and> si_bad_capable s = 0"

definition sim_ok :: "string list \<Rightarrow> sim \<Rightarrow> bool" where
  "sim_ok ids s \<longleftrightarrow> world_ok (si_world s) \<and> vehicles_ok ids (si_world s) (si_vehicles s) \<and> tasks_ok (si_tasks s)
     \<and> table_ok (si_table s) \<and> checks_clear s"

lemma lookup_vehicle_ok:
  "sim_ok ids s \<Longrightarrow> lookup_vehicle s k = Inr v \<Longrightarrow> vehicle_ok (si_world s) v \<and> vh_id v = k"
  by (auto simp: sim_ok_def vehicles_ok_def lookup_vehicle_def split: option.splits
      dest: list_all_find find_by_SomeD)

lemma lookup_task_ok:
  "sim_ok ids s \<Longrightarrow> lookup_task s k = Inr t \<Longrightarrow> task_ok t \<and> tk_id t = k"
  by (auto simp: sim_ok_def tasks_ok_def lookup_task_def split: option.splits dest: list_all_find find_by_SomeD)

lemma vehicles_ok_update: "vehicles_ok ids w vs \<Longrightarrow> vehicle_ok w v \<Longrightarrow> vehicles_ok ids w (update_by vh_id (vh_id v) (\<lambda>_. v) vs)"
  by (simp add: vehicles_ok_def map_key_update list_all_update del: map_map)

lemma tasks_ok_update: "tasks_ok ts \<Longrightarrow> task_ok t \<Longrightarrow> tasks_ok (update_by tk_id (tk_id t) (\<lambda>_. t) ts)"
  by (simp add: tasks_ok_def map_key_update list_all_update del: map_map)

lemma set_vehicle_ok [sim_intros]: "sim_ok ids s \<Longrightarrow> vehicle_ok (si_world s) v \<Longrightarrow> sim_ok ids (set_vehicle v s)"
  by (simp add: sim_ok_def set_vehicle_def vehicles_ok_update checks_clear_def)

lemma set_task_ok [sim_intros]: "sim_ok ids s \<Longrightarrow> task_ok t \<Longrightarrow> sim_ok ids (set_task t s)"
  by (simp add: sim_ok_def set_task_def tasks_ok_update checks_clear_def)

lemma set_world [frame_simps]:
  "si_world (set_vehicle v s) = si_world s" "si_world (set_task t s) = si_world s"
  "si_world (record_energy v s) = si_world s" "si_world (begin_convergence s) = si_world s"
  "si_world (bump_epoch s) = si_world s"
  by (simp_all add: set_vehicle_def set_task_def record_energy_def begin_convergence_def bump_epoch_def)

lemma begin_convergence_ok [sim_intros]: "sim_ok ids s \<Longrightarrow> sim_ok ids (begin_convergence s)"
  by (simp add: sim_ok_def begin_convergence_def checks_clear_def)

lemma bump_epoch_ok [sim_intros]: "sim_ok ids s \<Longrightarrow> sim_ok ids (bump_epoch s)"
  by (simp add: sim_ok_def bump_epoch_def begin_convergence_def checks_clear_def)

lemma record_energy_ok [sim_intros]: "sim_ok ids s \<Longrightarrow> 0 \<le> vh_energy v \<Longrightarrow> sim_ok ids (record_energy v s)"
  by (simp add: sim_ok_def record_energy_def checks_clear_def)

lemma sim_ok_table [sim_intros]: "sim_ok ids s \<Longrightarrow> table_ok t \<Longrightarrow> sim_ok ids (s\<lparr>si_table := t\<rparr>)"
  by (simp add: sim_ok_def checks_clear_def)

lemma sim_ok_release [sim_intros]:
  assumes "sim_ok ids s"
  shows "sim_ok ids (s\<lparr>si_table := release_route k r (si_table s)\<rparr>)" "sim_ok ids (s\<lparr>si_table := release_agent k (si_table s)\<rparr>)"
    "sim_ok ids (s\<lparr>si_table := release_map m (si_table s)\<rparr>)" "sim_ok ids (s\<lparr>si_table := release_before n (si_table s)\<rparr>)"
  using assms by (simp_all add: sim_ok_def checks_clear_def releases_ok)

text \<open>The binary search over the capabilities of a valid vehicle finds exactly those it has.\<close>

lemma capability_inj: "inj_on capability_num (Collect valid_capability)"
  by (rule inj_onI) (auto simp: valid_capability_def)

lemma vh_capable_iff:
  assumes "vehicle_ok w v" and "valid_capability c"
  shows "vh_capable v c \<longleftrightarrow> c \<in> set (vp_caps (vh_spec v))"
proof -
  let ?cs = "vp_caps (vh_spec v)"
  have valid: "set ?cs \<subseteq> Collect valid_capability" using assms(1) by (auto simp: vehicle_ok_def list_all_iff)
  have "distinct (map capability_num ?cs)"
    using assms(1) inj_on_subset [OF capability_inj valid] by (simp add: vehicle_ok_def distinct_map)
  then have "strictly_sorted capability_num ?cs" using assms(1) by (simp add: vehicle_ok_def strict_sorted_iff)
  then have "vh_capable v c \<longleftrightarrow> capability_num c \<in> capability_num ` set ?cs"
    by (simp add: vh_capable_def find_by_None)
  also have "\<dots> \<longleftrightarrow> c \<in> set ?cs" using assms(2) valid by (intro inj_on_image_mem_iff [OF capability_inj]) auto
  finally show ?thesis .
qed

subsection \<open>Tape events\<close>

lemma apply_release_ok:
  assumes "sim_ok ids s" and "apply_release e s = Inr s'"
  shows "sim_ok ids s'"
proof -
  from assms(2) obtain t where t: "lookup_task s (ev_target e) = Inr t" and
    s': "s' = (if tk_released t then s
      else if tk_agent t = [] then bump_epoch (set_task (t\<lparr>tk_released := True\<rparr>) s)
      else set_task (t\<lparr>tk_released := True\<rparr>) s)"
    by (auto simp: apply_release_def Let_def split: if_splits)
  have "task_ok (t\<lparr>tk_released := True\<rparr>)" using lookup_task_ok [OF assms(1) t] by (simp add: task_ok_def)
  with assms(1) show ?thesis by (auto simp: s' intro: sim_intros)
qed

lemma sim_ok_books [simp]:
  "sim_ok ids (s\<lparr>si_monitors := ms\<rparr>) = sim_ok ids s" "sim_ok ids (s\<lparr>si_reassignments := rs\<rparr>) = sim_ok ids s"
  "sim_ok ids (s\<lparr>si_rng := g\<rparr>) = sim_ok ids s" "sim_ok ids (s\<lparr>si_net := n\<rparr>) = sim_ok ids s" "sim_ok ids (s\<lparr>si_profile := p\<rparr>) = sim_ok ids s"
  "sim_ok ids (s\<lparr>si_detections := ds\<rparr>) = sim_ok ids s" "sim_ok ids (s\<lparr>si_rejected := x\<rparr>) = sim_ok ids s"
  "sim_ok ids (s\<lparr>si_views := vs\<rparr>) = sim_ok ids s" "sim_ok ids (s\<lparr>si_samples := rss\<rparr>) = sim_ok ids s"
  "sim_ok ids (s\<lparr>si_wait := x\<rparr>) = sim_ok ids s" "sim_ok ids (s\<lparr>si_return := x\<rparr>) = sim_ok ids s" "sim_ok ids (s\<lparr>si_replan := x\<rparr>) = sim_ok ids s"
  "sim_ok ids (s\<lparr>si_recharge := x\<rparr>) = sim_ok ids s" "sim_ok ids (s\<lparr>si_distance := x\<rparr>) = sim_ok ids s"
  "sim_ok ids (s\<lparr>si_energy := x\<rparr>) = sim_ok ids s" "sim_ok ids (s\<lparr>si_delivered := dm\<rparr>) = sim_ok ids s"
  "sim_ok ids (s\<lparr>si_outcomes := os\<rparr>) = sim_ok ids s" "sim_ok ids (s\<lparr>si_tick := x\<rparr>) = sim_ok ids s" "sim_ok ids (s\<lparr>si_hash := h\<rparr>) = sim_ok ids s"
  "sim_ok ids (s\<lparr>si_tick_hashes := hs\<rparr>) = sim_ok ids s" "sim_ok ids (s\<lparr>si_next_event := i\<rparr>) = sim_ok ids s"
  "sim_ok ids (s\<lparr>si_epoch := x\<rparr>) = sim_ok ids s" "sim_ok ids (s\<lparr>si_cv_candidate := x\<rparr>) = sim_ok ids s"
  "sim_ok ids (s\<lparr>si_cv_stable := k\<rparr>) = sim_ok ids s" "sim_ok ids (s\<lparr>si_cv_signature := h\<rparr>) = sim_ok ids s"
  "sim_ok ids (s\<lparr>si_cv_open := b\<rparr>) = sim_ok ids s" "sim_ok ids (s\<lparr>si_convergence := cs\<rparr>) = sim_ok ids s"
  by (simp_all add: sim_ok_def checks_clear_def)

lemma disable_vehicle_ok:
  assumes "sim_ok ids s" and "vehicle_ok (si_world s) v"
  shows "sim_ok ids (disable_vehicle v s)"
proof -
  have "vehicle_ok (si_world s) (v\<lparr>vh_active := False, vh_vx := 0, vh_vy := 0, vh_failure := Some (si_tick s)\<rparr>)"
    using assms(2) by (simp add: vehicle_ok_def)
  from set_vehicle_ok [OF assms(1) this]
  show ?thesis by (simp add: disable_vehicle_def Let_def sim_ok_def releases_ok checks_clear_def)
qed

lemma apply_disable_ok: "sim_ok ids s \<Longrightarrow> apply_disable e s = Inr s' \<Longrightarrow> sim_ok ids s'"
  using disable_vehicle_ok lookup_vehicle_ok by (fastforce simp: apply_disable_def split: if_splits)

lemma void_route_ok [sim_intros]: "sim_ok ids s \<Longrightarrow> sim_ok ids (void_route v s)"
  unfolding void_route_def by (intro sim_intros)

lemma change_energy_ok:
  assumes "sim_ok ids s" and "vehicle_ok (si_world s) v"
  shows "sim_ok ids (change_energy x v s)"
proof -
  have "vehicle_ok (si_world s) (v\<lparr>vh_energy := max 0 (vh_energy v + x)\<rparr>)"
    using assms(2) by (simp add: vehicle_ok_def)
  then show ?thesis unfolding change_energy_def Let_def using assms(1) by (intro sim_intros) simp_all
qed

lemma change_speed_ok:
  assumes "sim_ok ids s" and "vehicle_ok (si_world s) v"
  shows "sim_ok ids (change_speed x v s)"
proof -
  have "vehicle_ok (si_world s) (v\<lparr>vh_speed := max 1 ((vp_speed (vh_spec v) * x) sdiv 1000)\<rparr>)"
    using assms(2) by (simp add: vehicle_ok_def)
  then show ?thesis unfolding change_speed_def using assms(1) by (intro sim_intros)
qed

lemma change_endurance_ok:
  assumes "sim_ok ids s" and "vehicle_ok (si_world s) v"
  shows "sim_ok ids (change_endurance x v s)"
proof -
  define c where "c = max 1 ((vp_energy (vh_spec v) * x) sdiv 1000)"
  have c: "1 \<le> c" by (simp add: c_def)
  then have v: "vehicle_ok (si_world s) (v\<lparr>vh_capacity := c, vh_energy := min (vh_energy v) c\<rparr>)"
    and e: "0 \<le> vh_energy (v\<lparr>vh_capacity := c, vh_energy := min (vh_energy v) c\<rparr>)"
    using assms(2) by (simp_all add: vehicle_ok_def)
  show ?thesis unfolding change_endurance_def Let_def c_def [symmetric] using assms(1) v e by (intro sim_intros)
qed

lemma apply_random_ok:
  assumes "sim_ok ids s" and "apply_random e x s = Inr s'"
  shows "sim_ok ids s'"
proof -
  from assms(2) obtain v where v: "lookup_vehicle s (ev_target e) = Inr v"
    and s': "s' = change_energy x v s \<or> s' = change_speed x v s \<or> s' = change_endurance x v s"
    by (auto simp: apply_random_def)
  from lookup_vehicle_ok [OF assms(1) v] have "vehicle_ok (si_world s) v" by blast
  with s' assms(1) change_energy_ok change_speed_ok change_endurance_ok show ?thesis by blast
qed

lemma close_region_ok:
  assumes "world_ok w"
  shows "world_ok (close_region b k w)" and "in_world (close_region b k w) = in_world w"
    and "vehicle_ok (close_region b k w) = vehicle_ok w"
proof -
  show "world_ok (close_region b k w)"
    using assms by (auto simp: world_ok_def close_region_def list_all_iff simp del: map_map
        dest!: set_update_by find_by_SomeD)
  show i: "in_world (close_region b k w) = in_world w" by (rule ext) (simp add: in_world_def close_region_def)
  show "vehicle_ok (close_region b k w) = vehicle_ok w" by (rule ext) (simp add: vehicle_ok_def i)
qed

lemma change_region_ok:
  assumes "sim_ok ids s"
  shows "sim_ok ids (change_region b k s)"
proof -
  let ?w = "close_region b k (si_world s)"
  have w: "world_ok (si_world s)" using assms by (simp add: sim_ok_def)
  have "sim_ok ids (s\<lparr>si_scenario := (si_scenario s)\<lparr>sc_world := ?w\<rparr>\<rparr>)"
    using assms close_region_ok [OF w] by (simp add: sim_ok_def vehicles_ok_def checks_clear_def)
  from sim_ok_release(3) [OF this, of "wd_map_version ?w"] show ?thesis
    unfolding change_region_def Let_def by (rule begin_convergence_ok)
qed

lemma apply_region_ok: "sim_ok ids s \<Longrightarrow> apply_region e s = Inr s' \<Longrightarrow> sim_ok ids s'"
  by (auto simp: apply_region_def intro: change_region_ok split: option.splits)

lemma apply_profile_ok: "sim_ok ids s \<Longrightarrow> apply_profile e s = Inr s' \<Longrightarrow> sim_ok ids s'"
  by (auto simp: apply_profile_def)

lemma apply_link_ok:
  assumes "sim_ok ids s" and "apply_link e (s, outs) = Inr (s', outs')"
  shows "sim_ok ids s'"
proof -
  from assms(2) obtain b n where "s' = (if b then begin_convergence (s\<lparr>si_net := n\<rparr>) else s\<lparr>si_net := n\<rparr>)"
    unfolding apply_link_def Let_def by auto
  with assms(1) show ?thesis by (simp add: begin_convergence_ok)
qed

lemma apply_event_ok:
  assumes "sim_ok ids s" and "apply_event r e (s, outs) = Inr (event, s', outs')"
  shows "sim_ok ids s'"
proof -
  consider "apply_release e s = Inr s'" | "apply_disable e s = Inr s'"
    | x g where "apply_random e x (s\<lparr>si_rng := g\<rparr>) = Inr s'"
    | "apply_profile e s = Inr s'" | "apply_region e s = Inr s'" | "apply_link e (s, outs) = Inr (s', outs')" | "s' = s"
    using assms(2) unfolding apply_event_def Let_def prod.case resolve_event_def
    by (auto split: if_splits option.splits)
  then show ?thesis
  proof cases
    case 3
    have "sim_ok ids (s\<lparr>si_rng := g\<rparr>)" using assms(1) by simp
    then show ?thesis using 3 by (rule apply_random_ok)
  qed (rule assms(1) [THEN apply_release_ok] assms(1) [THEN apply_disable_ok] assms(1) [THEN apply_profile_ok]
      assms(1) [THEN apply_region_ok] assms(1) [THEN apply_link_ok], assumption | simp add: assms(1))+
qed

lemma events_loop_ok:
  "events_loop ser recorded es applied (s, outs) = Inr (applied', s', outs') \<Longrightarrow> sim_ok ids s \<Longrightarrow> sim_ok ids s'"
proof (induction es arbitrary: applied s outs)
  case Nil
  then show ?case by simp
next
  case (Cons e es)
  show ?case
  proof (cases "ev_tick e = si_tick s")
    case False
    with Cons.prems show ?thesis by simp
  next
    case True
    with Cons.prems(1) obtain r event s1 outs1 where e: "apply_event r e (s, outs) = Inr (event, s1, outs1)"
      and rest: "events_loop ser recorded es (applied @ [event]) (s1\<lparr>si_next_event := si_next_event s1 + 1\<rparr>, outs1)
        = Inr (applied', s', outs')" by auto
    from apply_event_ok [OF Cons.prems(2) e] have "sim_ok ids (s1\<lparr>si_next_event := si_next_event s1 + 1\<rparr>)" by simp
    with Cons.IH [OF rest] show ?thesis .
  qed
qed

lemma apply_events_ok: "apply_events ser recorded s = Inr (applied, s', outs) \<Longrightarrow> sim_ok ids s \<Longrightarrow> sim_ok ids s'"
  unfolding apply_events_def by (auto dest: events_loop_ok split: option.splits if_splits)

subsection \<open>Failure detections\<close>

lemma unassign_ok: "task_ok t \<Longrightarrow> task_ok (unassign t)"
  by (simp add: task_ok_def unassign_def)

lemma unassign_id [simp]: "tk_id (unassign t) = tk_id t"
  by (simp add: tk_id_def unassign_def)

lemma tasks_ok_map:
  "tasks_ok ts \<Longrightarrow> (\<And>t. task_ok t \<Longrightarrow> task_ok (f t)) \<Longrightarrow> (\<And>t. tk_id (f t) = tk_id t) \<Longrightarrow> tasks_ok (map f ts)"
  by (auto simp: tasks_ok_def list_all_iff comp_def)

lemma note_detection_sim: "\<exists>ds. fst (note_detection (s, first) d) = s\<lparr>si_detections := ds\<rparr>"
proof -
  have "fst (note_detection (s, first) d) =
      (if list_ex (\<lambda>c. fd_failed c = fd_failed d \<and> fd_detector c = fd_detector d) (si_detections s) then s
       else s\<lparr>si_detections := si_detections s @ [d]\<rparr>)"
    by (simp add: note_detection_def Let_def split: option.split)
  moreover have "s = s\<lparr>si_detections := si_detections s\<rparr>" by simp
  ultimately show ?thesis by metis
qed

lemma note_detection_ok: "sim_ok ids (fst st) \<Longrightarrow> sim_ok ids (fst (note_detection st d))"
  using note_detection_sim [of "fst st" "snd st" d] by (metis prod.collapse sim_ok_books(6))

lemma note_detections_ok:
  assumes "sim_ok ids (fst st)" and "note_detections st e = Inr st'"
  shows "sim_ok ids (fst st')"
proof -
  have "sim_ok ids (fst (foldl note_detection st ds))" for ds
    by (induction ds rule: rev_induct) (simp_all add: assms(1) note_detection_ok)
  with assms show ?thesis by (auto simp: note_detections_def)
qed

lemma orphan_tasks_ok:
  assumes "sim_ok ids s" and "vehicle_ok (si_world s) v"
  shows "sim_ok ids (orphan_tasks d v s)"
proof -
  have v: "vehicle_ok (si_world s) (v\<lparr>vh_announced := True\<rparr>)" using assms(2) by (simp add: vehicle_ok_def)
  have "tasks_ok (map (\<lambda>t. if held_by (vh_id v) t then unassign t else t) (si_tasks s))"
    using assms(1) by (intro tasks_ok_map) (simp_all add: sim_ok_def unassign_ok)
  with set_vehicle_ok [OF assms(1) v] show ?thesis
    by (simp add: orphan_tasks_def Let_def sim_ok_def checks_clear_def set_vehicle_def)
qed

lemma announce_failure_ok:
  assumes "sim_ok ids (fst st)" and "announce_failure st kd = Inr st'"
  shows "sim_ok ids (fst st')"
proof -
  obtain s orphaned k d where st: "st = (s, orphaned)" "kd = (k, d)" by (cases st; cases kd)
  from assms(2) obtain v where v: "lookup_vehicle s k = Inr v" and s': "fst st' = s \<or> fst st' = orphan_tasks d v s"
    by (auto simp: st announce_failure_def split: if_splits)
  have s: "sim_ok ids s" using assms(1) by (simp add: st)
  with lookup_vehicle_ok [OF s v] s' orphan_tasks_ok [OF s, of v d] show ?thesis by auto
qed

lemma apply_failure_detections_ok:
  assumes "sim_ok ids s" and "apply_failure_detections acts s = Inr s'"
  shows "sim_ok ids s'"
proof -
  from assms(2) obtain st1 st2 where one: "foldR note_detections (s, []) (ab_actions acts) = Inr st1"
    and two: "foldR announce_failure (fst st1, False) (snd st1) = Inr st2"
    and s': "s' = (if snd st2 then bump_epoch (fst st2) else fst st2)"
    unfolding apply_failure_detections_def bindR_eq_Inr by (auto split: prod.splits)
  have "sim_ok ids (fst st1)"
    by (rule foldR_invariant [OF one, where P = "\<lambda>st. sim_ok ids (fst st)"]) (simp_all add: assms(1) note_detections_ok)
  then have "sim_ok ids (fst st2)"
    by (intro foldR_invariant [OF two, where P = "\<lambda>st. sim_ok ids (fst st)"]) (simp_all add: announce_failure_ok)
  then show ?thesis by (simp add: s' bump_epoch_ok)
qed

subsection \<open>Task commits\<close>

lemma lookup_vehicle_iff:
  "sim_ok ids s \<Longrightarrow> lookup_vehicle s k = Inr v \<longleftrightarrow> v \<in> set (si_vehicles s) \<and> vh_id v = k"
  using find_by_sorted [of vh_id "si_vehicles s" k v]
  by (auto simp: sim_ok_def vehicles_ok_def lookup_vehicle_def split: option.splits)

lemma lookup_task_iff:
  "sim_ok ids s \<Longrightarrow> lookup_task s k = Inr t \<longleftrightarrow> t \<in> set (si_tasks s) \<and> tk_id t = k"
  using find_by_sorted [of tk_id "si_tasks s" k t]
  by (auto simp: sim_ok_def tasks_ok_def lookup_task_def split: option.splits)

text \<open>The vehicle can carry out the task, as the simulator checks it.\<close>

definition fit_for :: "vehicle \<Rightarrow> task \<Rightarrow> bool" where
  "fit_for v t \<longleftrightarrow> vh_capable v (tp_cap (tk_spec t)) \<and> tp_payload (tk_spec t) \<le> vh_payload v"

lemma make_claim_fit:
  assumes "make_claim w (vehicle_view v) (task_view t) tick dt epoch version = Inr c" and "cl_feasible c"
    and "vehicle_ok u v" and "task_ok t"
  shows "fit_for v t"
proof -
  from assms(1,2) obtain r where "feasible_route w (vehicle_view v) (task_view t) tick dt = Inr (Some r)"
    by (auto simp: make_claim_def)
  from feasible_route_found [OF this] assms(3,4) show ?thesis
    by (simp add: fit_for_def vehicle_view_def task_view_def has_capability_def vh_capable_iff task_ok_def)
qed

lemma nearest_capable_claim:
  assumes "nearest_capable w vs t tick dt epoch version = Inr (Some c)"
  shows "cl_feasible c \<and> (\<exists>v \<in> set vs. vs_id v = cl_agent c \<and> make_claim w v t tick dt epoch version = Inr c)"
proof -
  from consider_vehicles_best [OF assms [unfolded nearest_capable_def] claims.best_of_empty]
  obtain cs where cs: "list_all2 (\<lambda>v c. make_claim w v t tick dt epoch version = Inr c) vs cs"
    and c: "c \<in> set cs" "cl_feasible c" by (auto simp: claims.best_of_def)
  from c(1) obtain i where i: "i < length cs" "cs ! i = c" by (auto simp: in_set_conv_nth)
  with cs have "make_claim w (vs ! i) t tick dt epoch version = Inr c" "vs ! i \<in> set vs"
    by (auto simp: list_all2_conv_all_nth)
  with c(2) make_claim_agent show ?thesis by metis
qed

text \<open>What \<open>valid_commit\<close> established is still true when the selected commit is applied: other commits of the same
  tick change neither the vehicles nor any task's status.\<close>

definition commit_fits :: "sim \<Rightarrow> string \<times> alloc_commit \<Rightarrow> bool" where
  "commit_fits s kc \<longleftrightarrow> (\<exists>t v. lookup_task s (fst kc) = Inr t \<and> lookup_vehicle s (cm_agent (snd kc)) = Inr v
     \<and> tk_status t = TS_Pending \<and> fit_for v t)"

lemma valid_commit_fits:
  assumes "sim_ok ids s" and "valid_commit s c e = Inr True"
  shows "commit_fits s (cm_task c, c)"
proof -
  have g: "\<not> ((sc_policy (si_scenario s) \<noteq> AP_Nearest_Capable \<and> sc_policy (si_scenario s) \<noteq> AP_Sentinel_Cbba)
         \<or> cm_agent c \<noteq> en_sender e \<or> cm_epoch c \<noteq> si_epoch s)"
    using assms(2) unfolding valid_commit_def by (metis Inr_inject)
  note run = assms(2) [unfolded valid_commit_def if_not_P [OF g] bindR_eq_Inr]
  from run obtain t where t: "lookup_task s (cm_task c) = Inr t"
    and run_t: "(if \<not> tk_released t \<or> tk_status t \<noteq> TS_Pending \<or> tk_agent t \<noteq> [] then Inr False
        else bindR (lookup_vehicle s (en_sender e)) (\<lambda>v.
          if \<not> vh_active v then Inr False
          else
            case aa_alloc (en_action e) of
              None \<Rightarrow>
                if sc_policy (si_scenario s) \<noteq> AP_Nearest_Capable \<or> sc_profiles (si_scenario s) \<noteq> [] then Inr False
                else bindR (nearest_capable (si_world s) (map vehicle_view (filter vh_active (si_vehicles s)))
                       (task_view t) (si_tick s) (sc_step_ms (si_scenario s)) (cm_epoch c) (cm_version c)) (\<lambda>winner.
                  Inr (case winner of None \<Rightarrow> False
                       | Some w \<Rightarrow> cl_agent w = en_sender e \<and> cl_distance w = cm_distance c))
            | Some st \<Rightarrow>
                case find_by bd_task (as_winners st) (cm_task c) of
                  None \<Rightarrow> Inr False
                | Some b \<Rightarrow>
                    if bd_bidder b \<noteq> en_sender e \<or> bd_version b \<noteq> cm_version c \<or> bd_score b \<noteq> cm_score c
                       \<or> bd_position b \<noteq> cm_position c
                    then Inr False
                    else bindR (make_claim (si_world s) (vehicle_view v) (task_view t) (si_tick s)
                           (sc_step_ms (si_scenario s)) (cm_epoch c) (cm_version c)) (\<lambda>claim.
                      Inr (cl_feasible claim \<and> cl_distance claim = cm_distance c)))) = Inr True"
    unfolding bindR_eq_Inr by (elim exE conjE) (rule that)
  have pending: "\<not> (\<not> tk_released t \<or> tk_status t \<noteq> TS_Pending \<or> tk_agent t \<noteq> [])"
    using run_t by (metis Inr_inject)
  from run_t [unfolded if_not_P [OF pending] bindR_eq_Inr] obtain v where v: "lookup_vehicle s (en_sender e) = Inr v"
    and claim: "(\<exists>w. nearest_capable (si_world s) (map vehicle_view (filter vh_active (si_vehicles s)))
          (task_view t) (si_tick s) (sc_step_ms (si_scenario s)) (cm_epoch c) (cm_version c) = Inr (Some w)
          \<and> cl_agent w = en_sender e)
      \<or> (\<exists>claim. make_claim (si_world s) (vehicle_view v) (task_view t) (si_tick s)
           (sc_step_ms (si_scenario s)) (cm_epoch c) (cm_version c) = Inr claim \<and> cl_feasible claim)"
    by (auto split: if_split_asm option.split_asm)
  have ok: "vehicle_ok (si_world s) v" "task_ok t" "vh_id v = en_sender e"
    using lookup_vehicle_ok [OF assms(1) v] lookup_task_ok [OF assms(1) t] by simp_all
  have "fit_for v t"
    using claim
  proof (elim disjE exE conjE)
    fix w
    assume w: "nearest_capable (si_world s) (map vehicle_view (filter vh_active (si_vehicles s)))
          (task_view t) (si_tick s) (sc_step_ms (si_scenario s)) (cm_epoch c) (cm_version c) = Inr (Some w)"
      and agent: "cl_agent w = en_sender e"
    from nearest_capable_claim [OF w] obtain u where u: "u \<in> set (si_vehicles s)" "vs_id (vehicle_view u) = cl_agent w"
      and c: "cl_feasible w" "make_claim (si_world s) (vehicle_view u) (task_view t) (si_tick s)
        (sc_step_ms (si_scenario s)) (cm_epoch c) (cm_version c) = Inr w" by auto
    have "lookup_vehicle s (en_sender e) = Inr u"
      using u agent by (simp add: lookup_vehicle_iff [OF assms(1)] vehicle_view_def)
    with v have "u = v" by simp
    with make_claim_fit [OF c(2,1)] ok show ?thesis by simp
  next
    fix claim
    assume "make_claim (si_world s) (vehicle_view v) (task_view t) (si_tick s)
        (sc_step_ms (si_scenario s)) (cm_epoch c) (cm_version c) = Inr claim" "cl_feasible claim"
    from make_claim_fit [OF this ok(1,2)] show ?thesis .
  qed
  with t v pending g show ?thesis by (auto simp: commit_fits_def)
qed

lemma find_by_put:
  "key v = k \<Longrightarrow> find_by key (update_by key k (\<lambda>_. v) xs) j =
     (if j = k then map_option (\<lambda>_. v) (find_by key xs k) else find_by key xs j)"
  by (induction xs) auto

lemma lookup_task_put:
  "lookup_task (set_task t s) k =
     (if k = tk_id t then bindR (lookup_task s k) (\<lambda>_. Inr t) else lookup_task s k)"
  by (simp add: lookup_task_def set_task_def find_by_put split: option.split)

lemma lookup_vehicle_put:
  "lookup_vehicle (set_vehicle v s) k =
     (if k = vh_id v then bindR (lookup_vehicle s k) (\<lambda>_. Inr v) else lookup_vehicle s k)"
  by (simp add: lookup_vehicle_def set_vehicle_def find_by_put split: option.split)

lemma lookup_frames [frame_simps]:
  "lookup_vehicle (set_task t s) k = lookup_vehicle s k" "lookup_task (set_vehicle v s) k = lookup_task s k"
  "lookup_vehicle (s\<lparr>si_rejected := n\<rparr>) k = lookup_vehicle s k" "lookup_task (s\<lparr>si_rejected := n\<rparr>) k = lookup_task s k"
  "lookup_vehicle (s\<lparr>si_reassignments := rs\<rparr>) k = lookup_vehicle s k"
  "lookup_task (s\<lparr>si_reassignments := rs\<rparr>) k = lookup_task s k"
  "lookup_vehicle (s\<lparr>si_table := tb\<rparr>) k = lookup_vehicle s k" "lookup_task (s\<lparr>si_table := tb\<rparr>) k = lookup_task s k"
  "lookup_vehicle (begin_convergence s) k = lookup_vehicle s k" "lookup_task (begin_convergence s) k = lookup_task s k"
  "lookup_vehicle (bump_epoch s) k = lookup_vehicle s k" "lookup_task (bump_epoch s) k = lookup_task s k"
  by (simp_all add: lookup_vehicle_def lookup_task_def set_task_def set_vehicle_def begin_convergence_def bump_epoch_def)

lemma record_commit_fit: "tk_status t = TS_Pending \<Longrightarrow> fit_for v t \<Longrightarrow> record_commit t v s = s"
  by (simp add: record_commit_def fit_for_def not_less)

definition assigned :: "alloc_commit \<Rightarrow> task \<Rightarrow> task" where
  "assigned c t = t\<lparr>tk_agent := cm_agent c, tk_epoch := cm_epoch c, tk_version := cm_version c,
     tk_score := cm_score c, tk_position := cm_position c\<rparr>"

lemma assigned_simps [simp]:
  "tk_id (assigned c t) = tk_id t" "tk_spec (assigned c t) = tk_spec t" "tk_status (assigned c t) = tk_status t"
  "tk_agent (assigned c t) = cm_agent c" "tk_released (assigned c t) = tk_released t"
  by (simp_all add: assigned_def tk_id_def)

lemma assign_task_fit:
  assumes "tk_status t = TS_Pending" and "fit_for v t"
  shows "\<exists>rs. assign_task c t v s = (set_task (assigned c t) s)\<lparr>si_reassignments := rs\<rparr>"
  unfolding assign_task_def Let_def record_commit_fit [OF assms] assigned_def by blast

lemma commit_task_step:
  assumes "sim_ok ids s" and "commit_fits s kc" and "commit_task s kc = Inr s'"
  shows "sim_ok ids s' \<and> (\<forall>kc'. commit_fits s kc' \<longrightarrow> commit_fits s' kc')"
proof -
  obtain k c where kc: "kc = (k, c)" by (cases kc)
  from assms(2) obtain t v where t: "lookup_task s k = Inr t" and v: "lookup_vehicle s (cm_agent c) = Inr v"
    and p: "tk_status t = TS_Pending" and fit: "fit_for v t" by (auto simp: commit_fits_def kc)
  from assms(3) t v have "s' = assign_task c t v s" by (simp add: commit_task_def kc)
  then obtain rs where s': "s' = (set_task (assigned c t) s)\<lparr>si_reassignments := rs\<rparr>"
    using assign_task_fit [OF p fit, of c s] by metis
  note ok = lookup_task_ok [OF assms(1) t]
  have "task_ok (assigned c t)" using ok by (simp add: task_ok_def)
  from set_task_ok [OF assms(1) this] have "sim_ok ids s'" by (simp add: s')
  moreover have "commit_fits s' kc'" if "commit_fits s kc'" for kc'
    using that t p ok by (auto simp: commit_fits_def s' frame_simps lookup_task_put fit_for_def)
  ultimately show ?thesis by blast
qed

lemma commit_tasks_ok:
  assumes "foldR commit_task s kcs = Inr s'" and "sim_ok ids s" and "\<forall>kc \<in> set kcs. commit_fits s kc"
  shows "sim_ok ids s'"
proof -
  have "sim_ok ids s' \<and> (\<forall>kc \<in> set kcs. commit_fits s' kc)"
    by (rule foldR_invariant [OF assms(1)]) (use assms(2,3) commit_task_step in blast)+
  then show ?thesis ..
qed

lemma commit_fits_rejected [simp]: "commit_fits (s\<lparr>si_rejected := n\<rparr>) = commit_fits s"
  by (rule ext) (simp add: commit_fits_def frame_simps)

lemma set_update_by_subset: "set (update_by key k (\<lambda>_. v) xs) \<subseteq> insert v (set xs)"
  using set_update_by by fastforce

lemma select_commit_ok:
  assumes "sim_ok ids (fst st)" and "\<forall>kc \<in> set (snd st). commit_fits (fst st) kc"
    and "select_commit e st c = Inr st'"
  shows "sim_ok ids (fst st') \<and> (\<forall>kc \<in> set (snd st'). commit_fits (fst st') kc)"
proof -
  obtain s sel where st: "st = (s, sel)" by (cases st)
  from assms(3) obtain ok where ok: "valid_commit s c e = Inr ok"
    and st': "st' = (if \<not> ok then (s\<lparr>si_rejected := si_rejected s + 1\<rparr>, sel)
      else case find_by fst sel (cm_task c) of
        None \<Rightarrow> (s, insert_by fst (cm_task c, c) sel)
      | Some (k, previous) \<Rightarrow> (s\<lparr>si_rejected := si_rejected s + 1\<rparr>,
          if better_commit (sc_policy (si_scenario s)) c previous
          then update_by fst (cm_task c) (\<lambda>_. (cm_task c, c)) sel else sel))"
    by (auto simp: st select_commit_def Let_def)
  have s: "sim_ok ids s" "\<forall>kc \<in> set sel. commit_fits s kc" using assms(1,2) by (simp_all add: st)
  show ?thesis
  proof (cases ok)
    case False
    with s show ?thesis by (simp add: st')
  next
    case True
    have fits: "commit_fits s (cm_task c, c)" using valid_commit_fits [OF s(1)] ok True by simp
    have upd: "\<forall>kc \<in> set (update_by fst (cm_task c) (\<lambda>_. (cm_task c, c)) sel). commit_fits s kc"
      using s(2) fits set_update_by_subset [of fst "cm_task c" "(cm_task c, c)" sel] by blast
    show ?thesis
    proof (cases "find_by fst sel (cm_task c)")
      case None
      with True s fits show ?thesis by (simp add: st')
    next
      case (Some kp)
      obtain k previous where "kp = (k, previous)" by (cases kp)
      with Some True s upd show ?thesis by (simp add: st')
    qed
  qed
qed

lemma apply_commits_ok:
  assumes "sim_ok ids s" and "apply_commits acts fence s = Inr s'"
  shows "sim_ok ids s'"
proof (cases fence)
  case True
  have ok: "sim_ok ids (foldl (\<lambda>s e. s\<lparr>si_rejected := si_rejected s + of_nat (length (aa_commits (en_action e)))\<rparr>) s es)" for es
    by (induction es rule: rev_induct) (simp_all add: assms(1))
  from assms(2) ok [of "ab_actions acts"] show ?thesis unfolding apply_commits_def if_P [OF True] by simp
next
  case False
  with assms(2) obtain st where run: "foldR (\<lambda>st e. foldR (select_commit e) st (aa_commits (en_action e))) (s, []) (ab_actions acts) = Inr st"
    and commits: "foldR commit_task (fst st) (snd st) = Inr s'"
    unfolding apply_commits_def by (auto split: prod.splits)
  let ?P = "\<lambda>st. sim_ok ids (fst st) \<and> (\<forall>kc \<in> set (snd st). commit_fits (fst st) kc)"
  have "?P st"
  proof (rule foldR_invariant [OF run, where P = ?P])
    show "?P (s, [])" using assms(1) by simp
    fix st e st' assume st: "?P st" and r: "foldR (select_commit e) st (aa_commits (en_action e)) = Inr st'"
    show "?P st'" by (rule foldR_invariant [OF r, where P = ?P, OF st]) (rule select_commit_ok, simp_all)
  qed
  with commit_tasks_ok [OF commits] show ?thesis by blast
qed

subsection \<open>Rejections\<close>

lemma reject_task_ok:
  assumes "sim_ok ids s" and "reject_task sender s r = Inr s'"
  shows "sim_ok ids s'"
proof -
  from assms(2) consider "s' = s"
    | t where "lookup_task s (tr_task r) = Inr t" "s' = bump_epoch (set_task (unassign t) s)"
    unfolding reject_task_def bindR_eq_Inr if_split [of "\<lambda>x. x = Inr s'"] sum.inject
      if_split [of "\<lambda>x. x = s'"] by metis
  then show ?thesis
  proof cases
    case 2
    from lookup_task_ok [OF assms(1) 2(1)] have "task_ok (unassign t)" by (simp add: unassign_ok)
    with assms(1) show ?thesis unfolding 2(2) by (intro sim_intros)
  qed (use assms(1) in simp)
qed

lemma apply_rejections_ok:
  assumes "sim_ok ids s" and "apply_rejections acts s = Inr s'"
  shows "sim_ok ids s'"
proof (rule foldR_invariant [OF assms(2) [unfolded apply_rejections_def], where P = "sim_ok ids"])
  fix s e s' assume s: "sim_ok ids s" and "bindR (lookup_vehicle s (en_sender e)) (\<lambda>v. if \<not> vh_active v then Inr s
     else foldR (reject_task (en_sender e)) s (aa_reports (en_action e))) = Inr s'"
  then consider "s' = s" | "foldR (reject_task (en_sender e)) s (aa_reports (en_action e)) = Inr s'"
    by (auto split: if_splits)
  then show "sim_ok ids s'"
  proof cases
    case 2
    show ?thesis by (rule foldR_invariant [OF 2, where P = "sim_ok ids", OF s]) (rule reject_task_ok)
  qed (simp add: s)
qed (rule assms(1))

subsection \<open>Reservations\<close>

lemma overlap_pairs_clear: "exclusive cs \<Longrightarrow> overlap_pairs cs = 0"
proof (induction cs)
  case (Cons c cs)
  then have "filter (overlaps c) cs = []" by (auto simp: exclusive_def filter_empty_conv)
  moreover have "exclusive cs" using Cons.prems by (simp add: exclusive_def)
  ultimately show ?case using Cons.IH by simp
qed simp

lemma record_overlap_ok: "sim_ok ids s \<Longrightarrow> record_overlap s = s"
  using tb.ok_exclusive [of "si_table s"] by (simp add: sim_ok_def record_overlap_def overlap_pairs_clear)

lemma adopt_route_ok:
  assumes "sim_ok ids s" and "adopt_route s e = Inr s'"
  shows "sim_ok ids s'"
proof -
  from assms(2) obtain v where v: "lookup_vehicle s (en_sender e) = Inr v"
    and s': "s' = s \<or> s' = set_vehicle (v\<lparr>vh_route := aa_route_version (en_action e)\<rparr>)
        (s\<lparr>si_table := release_route (vh_id v) (vh_route v) (si_table s)\<rparr>)"
    by (auto simp: adopt_route_def Let_def split: if_splits)
  have "vehicle_ok (si_world s) (v\<lparr>vh_route := aa_route_version (en_action e)\<rparr>)"
    using lookup_vehicle_ok [OF assms(1) v] by (simp add: vehicle_ok_def)
  then have "sim_ok ids (set_vehicle (v\<lparr>vh_route := aa_route_version (en_action e)\<rparr>)
        (s\<lparr>si_table := release_route (vh_id v) (vh_route v) (si_table s)\<rparr>))"
    by (intro set_vehicle_ok sim_ok_release assms(1)) simp
  with s' assms(1) show ?thesis by blast
qed

lemma propose_ok:
  assumes "sim_ok ids s" and "propose sender s p = Inr s'"
  shows "sim_ok ids s'"
proof -
  from assms(2) consider "s' = s" | r t where "reserve (as_reservation p) (si_table s) = Inr (r, t)"
      "s' = (if r = Res_committed then record_overlap (s\<lparr>si_table := t\<rparr>) else s\<lparr>si_table := t\<rparr>)"
    unfolding propose_def bindR_eq_Inr Let_def by (auto split: if_split_asm)
  then show ?thesis
  proof cases
    case 2
    have "table_ok (si_table s)" using assms(1) by (simp add: sim_ok_def)
    from reserve_ok [OF this 2(1)] assms(1) have "sim_ok ids (s\<lparr>si_table := t\<rparr>)" by (intro sim_ok_table)
    then show ?thesis by (simp add: 2(2) record_overlap_ok)
  qed (simp add: assms(1))
qed

lemma propose_all_ok:
  assumes "sim_ok ids s" and "propose_all s e = Inr s'"
  shows "sim_ok ids s'"
proof -
  from assms(2) consider "s' = s" | "foldR (propose (en_sender e)) s (aa_proposals (en_action e)) = Inr s'"
    by (auto simp: propose_all_def split: if_splits)
  then show ?thesis
  proof cases
    case 2
    show ?thesis by (rule foldR_invariant [OF 2, where P = "sim_ok ids", OF assms(1)]) (rule propose_ok)
  qed (simp add: assms(1))
qed

lemma apply_reservations_ok:
  assumes "sim_ok ids s" and "apply_reservations acts fence s = Inr s'"
  shows "sim_ok ids s'"
proof -
  from assms(2) obtain s1 where
    one: "foldR adopt_route (s\<lparr>si_table := release_before (si_tick s) (si_table s)\<rparr>) (ab_actions acts) = Inr s1"
    and two: "s' = s1 \<or> foldR propose_all s1 (ab_actions acts) = Inr s'"
    unfolding apply_reservations_def bindR_eq_Inr by (auto split: if_split_asm)
  have s1: "sim_ok ids s1"
    by (rule foldR_invariant [OF one, where P = "sim_ok ids"]) (simp_all add: sim_ok_release assms(1) adopt_route_ok)
  from two show ?thesis
  proof
    assume run: "foldR propose_all s1 (ab_actions acts) = Inr s'"
    show ?thesis by (rule foldR_invariant [OF run, where P = "sim_ok ids", OF s1]) (rule propose_all_ok)
  qed (simp add: s1)
qed

subsection \<open>Motion\<close>

lemma axis_velocity_bounds: "0 \<le> limit \<Longrightarrow> abs (axis_velocity x limit) \<le> limit"
  by (auto simp: axis_velocity_def)

lemma sdiv_abs: "0 < m \<Longrightarrow> abs (a sdiv m) = abs a div m" for a m :: int
  by (simp add: signed_divide_int_def abs_mult sgn_if abs_of_nonneg pos_imp_zdiv_nonneg_iff)

text \<open>The velocity never exceeds the vehicle's speed, measured along the axes.\<close>

lemma limit_velocity_bounds:
  assumes "0 \<le> speed" and "limit_velocity speed x y = (vx, vy)"
  shows "abs vx + abs vy \<le> speed"
proof (cases "abs (axis_velocity x speed) + abs (axis_velocity y speed) > speed")
  case False
  with assms(2) show ?thesis by (auto simp: limit_velocity_def Let_def)
next
  case True
  define a b where "a = abs (axis_velocity x speed)" and "b = abs (axis_velocity y speed)"
  have pos: "0 < a + b" using True assms(1) by (simp add: a_def b_def)
  have v: "abs vx = a * speed div (a + b)" "abs vy = b * speed div (a + b)"
    using assms(2) True pos by (auto simp: limit_velocity_def Let_def sdiv_abs abs_mult assms(1) a_def b_def)
  have "abs vx + abs vy \<le> (a * speed + b * speed) div (a + b)"
    unfolding v div_add1_eq [of "a * speed" "b * speed" "a + b"] using pos
    by (simp add: pos_imp_zdiv_nonneg_iff)
  also have "\<dots> = speed" using pos by (simp flip: distrib_right)
  finally show ?thesis .
qed

text \<open>What a move comes to: either the vehicle stays where it is and stops, or it goes the whole way, which is allowed,
  not blocked by a reservation, and paid for.\<close>

definition move_ends :: "sim \<Rightarrow> vehicle \<Rightarrow> action \<Rightarrow> point \<times> point" where
  "move_ends s v a =
     (let (vx, vy) = limit_velocity (vh_speed v) (aa_vx a) (aa_vy a)
      in (coordinate (vh_x v) (vh_y v), coordinate (vh_x v + step_delta s vx) (vh_y v + step_delta s vy)))"

definition stays :: "vehicle \<Rightarrow> vehicle \<Rightarrow> bool" where
  "stays v v' \<longleftrightarrow> v' = stop v \<or> v' = (stop v)\<lparr>vh_mode := BM_Waiting\<rparr>"

definition goes :: "sim \<Rightarrow> vehicle \<Rightarrow> action \<Rightarrow> vehicle \<Rightarrow> i64 \<Rightarrow> bool" where
  "goes s v a v' cost \<longleftrightarrow>
     (let (from, to) = move_ends s v a
      in \<not> (from \<noteq> to \<and> reservation_blocked s v from to)
         \<and> segment_allowed (si_world s) (vehicle_view v) from to
         \<and> motion_energy (vehicle_view v) (abs (px to - px from) + abs (py to - py from))
             (terrain_multiplier (si_world s) from to) = Inr cost
         \<and> cost \<le> vh_energy v
         \<and> v' = v\<lparr>vh_x := px to, vh_y := py to, vh_vx := fst (limit_velocity (vh_speed v) (aa_vx a) (aa_vy a)),
                   vh_vy := snd (limit_velocity (vh_speed v) (aa_vx a) (aa_vy a)), vh_energy := vh_energy v - cost\<rparr>)"

lemma move_vehicle_cases:
  assumes "move_vehicle s v a waited = Inr (s', v')"
  shows "(stays v v' \<and> (\<exists>n. s' = s\<lparr>si_wait := n\<rparr>))
    \<or> (\<exists>cost d e. goes s v a v' cost \<and> s' = (record_energy v' s)\<lparr>si_distance := d, si_energy := e\<rparr>)"
proof -
  obtain vx vy where lv: "limit_velocity (vh_speed v) (aa_vx a) (aa_vy a) = (vx, vy)" by force
  let ?from = "coordinate (vh_x v) (vh_y v)"
  let ?to = "coordinate (vh_x v + step_delta s vx) (vh_y v + step_delta s vy)"
  have ends: "move_ends s v a = (?from, ?to)" by (simp add: move_ends_def lv)
  have differ: "(step_delta s vx \<noteq> 0 \<or> step_delta s vy \<noteq> 0) \<longleftrightarrow> ?from \<noteq> ?to" by (auto simp: coordinate_def)
  have delta: "px ?to - px ?from = step_delta s vx" "py ?to - py ?from = step_delta s vy" by (simp_all add: coordinate_def)
  have same: "s = s\<lparr>si_wait := si_wait s\<rparr>" by simp
  note run = assms [unfolded move_vehicle_def lv prod.case Let_def differ]
  show ?thesis
  proof (cases "?from \<noteq> ?to \<and> reservation_blocked s v ?from ?to")
    case True
    from run [unfolded if_P [OF True]] have v': "v' = (stop v)\<lparr>vh_mode := BM_Waiting\<rparr>"
      and s': "s' = (if waited then s else s\<lparr>si_wait := si_wait s + 1\<rparr>)" by simp_all
    have "\<exists>n. s' = s\<lparr>si_wait := n\<rparr>" unfolding s' using same by (cases waited) (simp only: if_True if_False, blast)+
    then show ?thesis by (simp add: v' stays_def)
  next
    case go: False
    note run = run [unfolded if_not_P [OF go]]
    show ?thesis
    proof (cases "segment_allowed (si_world s) (vehicle_view v) ?from ?to")
      case False
      with run have "v' = stop v" "s' = s" by simp_all
      with same show ?thesis unfolding stays_def by blast
    next
      case allowed: True
      from run [unfolded if_not_P [OF not_not [THEN iffD2, OF allowed]] bindR_eq_Inr] obtain cost where
        cost: "motion_energy (vehicle_view v) (abs (step_delta s vx) + abs (step_delta s vy))
          (terrain_multiplier (si_world s) ?from ?to) = Inr cost" and
        rest: "(if vh_energy v < cost then Inr (s, stop v)
          else Inr ((record_energy (v\<lparr>vh_x := px ?to, vh_y := py ?to, vh_vx := vx, vh_vy := vy,
                vh_energy := vh_energy v - cost\<rparr>) s)
              \<lparr>si_distance := si_distance s + to_u64 (abs (step_delta s vx) + abs (step_delta s vy)),
               si_energy := si_energy s + to_u64 cost\<rparr>,
              v\<lparr>vh_x := px ?to, vh_y := py ?to, vh_vx := vx, vh_vy := vy, vh_energy := vh_energy v - cost\<rparr>))
          = (Inr (s', v') :: (sim \<times> vehicle) result)"
        by (elim exE conjE) (rule that)
      show ?thesis
      proof (cases "vh_energy v < cost")
        case True
        with rest have "v' = stop v" "s' = s" by simp_all
        with same show ?thesis unfolding stays_def by blast
      next
        case False
        let ?v = "v\<lparr>vh_x := px ?to, vh_y := py ?to, vh_vx := vx, vh_vy := vy, vh_energy := vh_energy v - cost\<rparr>"
        from rest False have v': "v' = ?v" and s': "\<exists>d e. s' = (record_energy v' s)\<lparr>si_distance := d, si_energy := e\<rparr>"
          by auto
        have "goes s v a v' cost"
          using go allowed cost False by (simp add: goes_def ends lv delta v')
        with s' show ?thesis by blast
      qed
    qed
  qed
qed

lemma stays_ok: "stays v v' \<Longrightarrow> vehicle_ok w v \<Longrightarrow> vehicle_ok w v'"
  by (auto simp: stays_def vehicle_ok_def stop_def)

lemma stays_id: "stays v v' \<Longrightarrow> vh_id v' = vh_id v"
  by (auto simp: stays_def stop_def vh_id_def)

lemma goes_id: "goes s v a v' cost \<Longrightarrow> vh_id v' = vh_id v"
  by (auto simp: goes_def Let_def vh_id_def split: prod.splits)

lemma goes_ok:
  assumes "goes s v a v' cost" and "vehicle_ok (si_world s) v"
  shows "vehicle_ok (si_world s) v'"
proof -
  obtain start to where ends: "move_ends s v a = (start, to)" by force
  from assms(1) have a: "segment_allowed (si_world s) (vehicle_view v) start to" "cost \<le> vh_energy v"
    and v': "v' = v\<lparr>vh_x := px to, vh_y := py to, vh_vx := fst (limit_velocity (vh_speed v) (aa_vx a) (aa_vy a)),
                   vh_vy := snd (limit_velocity (vh_speed v) (aa_vx a) (aa_vy a)), vh_energy := vh_energy v - cost\<rparr>"
    by (simp_all add: goes_def ends)
  from segment_allowed_bounds [OF a(1)] have "in_world (si_world s) \<lparr>px = px to, py = py to\<rparr>" by (simp add: in_world_def)
  with a(2) assms(2) show ?thesis by (simp add: v' vehicle_ok_def)
qed

lemma move_vehicle_ok:
  assumes "sim_ok ids s" and "vehicle_ok (si_world s) v" and "move_vehicle s v a waited = Inr (s', v')"
  shows "sim_ok ids s' \<and> vehicle_ok (si_world s') v' \<and> vh_id v' = vh_id v \<and> si_world s' = si_world s
    \<and> si_vehicles s' = si_vehicles s"
  using move_vehicle_cases [OF assms(3)]
proof (elim disjE exE conjE)
  fix n assume st: "stays v v'" and s': "s' = s\<lparr>si_wait := n\<rparr>"
  show ?thesis using assms(1) stays_ok [OF st assms(2)] stays_id [OF st] by (simp add: s')
next
  fix cost d e assume g: "goes s v a v' cost" and s': "s' = (record_energy v' s)\<lparr>si_distance := d, si_energy := e\<rparr>"
  have v': "vehicle_ok (si_world s) v'" by (rule goes_ok [OF g assms(2)])
  then have "0 \<le> vh_energy v'" by (simp add: vehicle_ok_def)
  from record_energy_ok [OF assms(1) this] v' goes_id [OF g] show ?thesis
    by (simp add: s' record_energy_def)
qed

lemma charge_vehicle_ok:
  assumes "sim_ok ids s" and "vehicle_ok (si_world s) v" and "charge_vehicle s v a = Inr (s', v')"
  shows "sim_ok ids s' \<and> vehicle_ok (si_world s') v' \<and> vh_id v' = vh_id v \<and> si_world s' = si_world s
    \<and> si_vehicles s' = si_vehicles s"
proof -
  consider "s' = s" "v' = v"
    | l n where "lookup_location s (aa_charge a) = Inr l" "v' = v\<lparr>vh_energy := min (vh_capacity v) (vh_energy v + lc_charge l)\<rparr>"
        "s' = (record_energy v' s)\<lparr>si_recharge := n\<rparr>"
  proof (cases "aa_charge a \<noteq> [] \<and> aa_vx a = 0 \<and> aa_vy a = 0")
    case False
    from assms(3) [unfolded charge_vehicle_def if_not_P [OF False]] that(1) show ?thesis by simp
  next
    case True
    from assms(3) [unfolded charge_vehicle_def if_P [OF True] bindR_eq_Inr Let_def] obtain l where
      l: "lookup_location s (aa_charge a) = Inr l" and
      rest: "(if inside \<lparr>px = vh_x v, py = vh_y v\<rparr> l
        then Inr ((record_energy (v\<lparr>vh_energy := min (vh_capacity v) (vh_energy v + lc_charge l)\<rparr>) s)
            \<lparr>si_recharge := si_recharge s + 1\<rparr>, v\<lparr>vh_energy := min (vh_capacity v) (vh_energy v + lc_charge l)\<rparr>)
        else Inr (s, v)) = (Inr (s', v') :: (sim \<times> vehicle) result)"
      by (elim exE conjE) (rule that)
    show ?thesis
    proof (cases "inside \<lparr>px = vh_x v, py = vh_y v\<rparr> l")
      case True
      from rest [unfolded if_P [OF True]] show ?thesis
        by (intro that(2) [OF l, of "si_recharge s + 1"]) auto
    next
      case False
      from rest [unfolded if_not_P [OF False]] that(1) show ?thesis by simp
    qed
  qed
  then show ?thesis
  proof cases
    case 1
    with assms(1,2) show ?thesis by simp
  next
    case 2
    have "0 \<le> lc_charge l"
      using assms(1) 2(1) by (auto simp: sim_ok_def world_ok_def lookup_location_def list_all_iff
          split: option.splits dest: find_by_SomeD)
    then have v': "vehicle_ok (si_world s) v'" using assms(2) by (simp add: 2(2) vehicle_ok_def)
    then have "0 \<le> vh_energy v'" by (simp add: vehicle_ok_def)
    from record_energy_ok [OF assms(1) this] v' show ?thesis
      by (simp add: 2(3) record_energy_def) (simp add: 2(2) vh_id_def)
  qed
qed

lemma put_vehicle_ok:
  assumes "sim_ok ids s" and "vehicle_ok (si_world s) v" and "vh_id v = vh_id (si_vehicles s ! index)"
    and "index < length (si_vehicles s)"
  shows "sim_ok ids (put_vehicle index v s)"
proof -
  have "map vh_id ((si_vehicles s)[index := v]) = map vh_id (si_vehicles s)"
    using assms(3,4) by (intro nth_equalityI) (auto simp: nth_list_update)
  moreover have "list_all (vehicle_ok (si_world s)) ((si_vehicles s)[index := v])"
    using assms(1,2) set_update_subset_insert [of "si_vehicles s" index v]
    by (auto simp: sim_ok_def vehicles_ok_def list_all_iff)
  ultimately show ?thesis using assms(1) by (simp add: sim_ok_def vehicles_ok_def put_vehicle_def checks_clear_def)
qed

text \<open>One vehicle's action, read as: prepare the counters, move, charge, write the vehicle back.\<close>

definition prepared :: "sim \<Rightarrow> nat \<Rightarrow> vehicle \<Rightarrow> action \<Rightarrow> sim" where
  "prepared s index v a =
     (let s0 = s\<lparr>si_views := (si_views s)[index := case aa_alloc a of None \<Rightarrow> empty_alloc_state | Some st \<Rightarrow> st]\<rparr>
      in if \<not> vh_active v then s0
         else s0\<lparr>si_wait := si_wait s0 + (if vh_mode v = BM_Waiting then 1 else 0),
                     si_return := si_return s0 + (if vh_mode v = BM_Returning then 1 else 0),
                     si_replan := si_replan s0 + (if aa_replanned a then 1 else 0),
                     si_samples := si_samples s0 @ aa_samples a\<rparr>)"

definition with_mode :: "vehicle \<Rightarrow> action \<Rightarrow> vehicle" where
  "with_mode v a = v\<lparr>vh_mode := (if aa_mode a = BM_Unspecified then BM_Idle else aa_mode a)\<rparr>"

lemma act_vehicle_prepared:
  "act_vehicle (s, messages) (index, e) =
     (let a = en_action e; v = with_mode (si_vehicles s ! index) a; s1 = prepared s index v a
      in if \<not> vh_active v then Inr (put_vehicle index (stop v) s1, messages)
         else bindR (move_vehicle s1 v a (vh_mode v = BM_Waiting)) (\<lambda>(s2, v2).
              bindR (charge_vehicle s2 v2 a) (\<lambda>(s3, v3). Inr (put_vehicle index v3 s3, messages @ aa_messages a))))"
  unfolding act_vehicle_def prepared_def with_mode_def Let_def prod.case
  by (cases "vh_active (si_vehicles s ! index)") simp_all

lemma prepared_frame:
  "sim_ok ids (prepared s index v a) = sim_ok ids s" "si_world (prepared s index v a) = si_world s"
  "si_vehicles (prepared s index v a) = si_vehicles s"
  by (simp_all add: prepared_def Let_def)

lemma with_mode_ok: "vehicle_ok w (with_mode v a) = vehicle_ok w v" "vh_id (with_mode v a) = vh_id v"
  by (simp_all add: with_mode_def vehicle_ok_def vh_id_def)

lemma act_vehicle_ok:
  assumes "sim_ok ids s" and "index < length ids" and "act_vehicle (s, messages) (index, e) = Inr (s', messages')"
  shows "sim_ok ids s'"
proof -
  let ?a = "en_action e"
  define v where "v = with_mode (si_vehicles s ! index) ?a"
  define s1 where "s1 = prepared s index v ?a"
  have len: "index < length (si_vehicles s)" using assms(1,2) by (simp add: sim_ok_def vehicles_ok_def)
  then have v: "vehicle_ok (si_world s) v" "vh_id v = vh_id (si_vehicles s ! index)"
    using assms(1) by (simp_all add: v_def with_mode_ok sim_ok_def vehicles_ok_def list_all_length)
  have s1: "sim_ok ids s1" "si_world s1 = si_world s" "si_vehicles s1 = si_vehicles s"
    using assms(1) by (simp_all add: s1_def prepared_frame)
  note run = assms(3) [unfolded act_vehicle_prepared Let_def, folded v_def, folded s1_def]
  show ?thesis
  proof (cases "vh_active v")
    case False
    have "vehicle_ok (si_world s1) (stop v)" "vh_id (stop v) = vh_id v"
      using v(1) s1(2) by (simp_all add: stop_def vehicle_ok_def vh_id_def)
    with put_vehicle_ok [OF s1(1)] run False v(2) len s1(3) show ?thesis by auto
  next
    case True
    with run obtain s2 v2 s3 v3 where m: "move_vehicle s1 v ?a (vh_mode v = BM_Waiting) = Inr (s2, v2)"
      and c: "charge_vehicle s2 v2 ?a = Inr (s3, v3)" and s': "s' = put_vehicle index v3 s3" by auto
    have v1: "vehicle_ok (si_world s1) v" using v(1) s1(2) by simp
    from move_vehicle_ok [OF s1(1) v1 m]
    have s2: "sim_ok ids s2" "vehicle_ok (si_world s2) v2" "vh_id v2 = vh_id v" "si_vehicles s2 = si_vehicles s1" by blast+
    from charge_vehicle_ok [OF s2(1,2) c]
    have s3: "sim_ok ids s3" "vehicle_ok (si_world s3) v3" "vh_id v3 = vh_id v2" "si_vehicles s3 = si_vehicles s2" by blast+
    show ?thesis unfolding s' by (rule put_vehicle_ok [OF s3(1,2)]) (simp_all add: s3 s2 v(2) s1(3) len)
  qed
qed

lemma act_all_ok:
  assumes "sim_ok ids s" and "length (ab_actions acts) = length ids" and "act_all acts s = Inr st"
  shows "sim_ok ids (fst st)"
proof (rule foldR_invariant [OF assms(3) [unfolded act_all_def], where P = "\<lambda>st. sim_ok ids (fst st)"])
  fix st ie st' assume ie: "ie \<in> set (enumerate 0 (ab_actions acts))" and ok: "sim_ok ids (fst st)"
    and run: "act_vehicle st ie = Inr st'"
  obtain index e where i: "ie = (index, e)" by force
  with ie assms(2) have "index < length ids" by (simp add: in_set_enumerate_eq)
  with i run ok act_vehicle_ok [of ids "fst st" index "snd st" e "fst st'" "snd st'"] show "sim_ok ids (fst st')" by simp
qed (simp add: assms(1))

lemma exchange_messages_ok:
  "sim_ok ids (fst st) \<Longrightarrow> exchange_messages ser st outs = Inr st' \<Longrightarrow> sim_ok ids (fst st')"
  by (cases st) (auto simp: exchange_messages_def)

lemma apply_actions_ok:
  assumes "sim_ok ids s" and "length (ab_actions acts) = length ids"
    and "apply_actions ser acts outs fence s = Inr st"
  shows "sim_ok ids (fst st)"
proof -
  from assms(3) [unfolded apply_actions_def bindR_eq_Inr] obtain s1 s2 s3 s4 st5 where
    runs: "apply_failure_detections acts s = Inr s1" "apply_commits acts fence s1 = Inr s2"
      "apply_rejections acts s2 = Inr s3" "apply_reservations acts fence s3 = Inr s4" "act_all acts s4 = Inr st5"
      "exchange_messages ser st5 outs = Inr st" by blast
  have "sim_ok ids s1" by (rule apply_failure_detections_ok [OF assms(1) runs(1)])
  then have "sim_ok ids s2" by (rule apply_commits_ok [OF _ runs(2)])
  then have "sim_ok ids s3" by (rule apply_rejections_ok [OF _ runs(3)])
  then have "sim_ok ids s4" by (rule apply_reservations_ok [OF _ runs(4)])
  then have "sim_ok ids (fst st5)" by (rule act_all_ok [OF _ assms(2) runs(5)])
  then show ?thesis by (rule exchange_messages_ok [OF _ runs(6)])
qed

subsection \<open>Monitors, task progress, convergence\<close>

lemma update_failure_monitors_ok:
  "sim_ok ids s \<Longrightarrow> update_failure_monitors s = Inr s' \<Longrightarrow> sim_ok ids s'"
  by (auto simp: update_failure_monitors_def)

lemma update_convergence_ok:
  assumes "sim_ok ids s" and "update_convergence ser s = Inr s'"
  shows "sim_ok ids s'"
proof -
  from assms(2) [unfolded update_convergence_def bindR_eq_Inr Let_def sum.inject] obtain agrees where
    s': "(if \<not> agrees then s\<lparr>si_cv_candidate := 0, si_cv_stable := 0, si_cv_signature := []\<rparr>
            else if allocation_signature ser s \<noteq> si_cv_signature s
                 then s\<lparr>si_cv_signature := allocation_signature ser s, si_cv_candidate := si_tick s, si_cv_stable := 1\<rparr>
                 else if si_cv_stable (s\<lparr>si_cv_stable := si_cv_stable s + 1\<rparr>) < 10
                   then s\<lparr>si_cv_stable := si_cv_stable s + 1\<rparr>
                   else (s\<lparr>si_cv_stable := si_cv_stable s + 1\<rparr>)\<lparr>si_convergence :=
                         si_convergence (s\<lparr>si_cv_stable := si_cv_stable s + 1\<rparr>)
                         @ [\<lparr>cv_epoch = si_epoch (s\<lparr>si_cv_stable := si_cv_stable s + 1\<rparr>),
                             cv_start = si_cv_start (s\<lparr>si_cv_stable := si_cv_stable s + 1\<rparr>),
                             cv_end = si_cv_candidate (s\<lparr>si_cv_stable := si_cv_stable s + 1\<rparr>), cv_complete = True\<rparr>],
                         si_cv_open := False\<rparr>) = s'" by (elim exE conjE) (rule that)
  show ?thesis unfolding s' [symmetric] using assms(1) by (simp split: if_split)
qed

lemma deliver_ok:
  "vehicle_ok w v \<Longrightarrow> tp_payload (tk_spec t) \<le> vh_payload v \<Longrightarrow> vehicle_ok w (deliver t v) \<and> vh_id (deliver t v) = vh_id v"
  by (simp add: deliver_def vehicle_ok_def vh_id_def)

lemma complete_ok: "task_ok t \<Longrightarrow> tk_released t \<Longrightarrow> task_ok (complete n t)"
  by (simp add: complete_def task_ok_def)

lemma work_task_ok:
  assumes s: "sim_ok ids s" and t: "task_ok t" "tk_released t" and v: "vehicle_ok (si_world s) v"
  shows "sim_ok ids (fst (work_task acts s t v))"
proof -
  let ?capable = "vh_active v \<and> vh_capable v (tp_cap (tk_spec t)) \<and> vh_payload v \<ge> tp_payload (tk_spec t)"
  let ?distance = "abs (vh_x v - px (tp_target (tk_spec t))) + abs (vh_y v - py (tp_target (tk_spec t)))"
  have finish: "sim_ok ids (set_vehicle (deliver t' v') (set_task (complete n t') s'))"
    if "sim_ok ids s'" "si_world s' = si_world s" "task_ok t'" "tk_released t'" "vehicle_ok (si_world s) v'"
      "tp_payload (tk_spec t') \<le> vh_payload v'" for s' t' v' n
    using that deliver_ok [of "si_world s" v' t'] complete_ok [of t' n]
    by (intro set_vehicle_ok set_task_ok) (simp_all add: frame_simps)
  show ?thesis
  proof (cases "tp_service (tk_spec t) = 0")
    case True
    then have "work_task acts s t v = (if ?capable \<and> ?distance \<le> tp_radius (tk_spec t)
        then (set_vehicle (deliver t v) (set_task (complete (si_tick s) t) s), True) else (s, False))"
      by (simp add: work_task_def Let_def)
    with finish [OF s refl t v] s show ?thesis by simp
  next
    case serve: False
    let ?stop = "\<not> ?capable \<or> ?distance > tp_radius (tk_spec t) \<or> \<not> reports_work acts t
                 \<or> vh_energy v < tp_service_energy (tk_spec t) + service_reserve v"
    show ?thesis
    proof (cases ?stop)
      case True
      then have "work_task acts s t v = (set_task (t\<lparr>tk_progress := 0\<rparr>) s, False)"
        using serve unfolding work_task_def Let_def by (simp only: if_True if_False)
      moreover have "task_ok (t\<lparr>tk_progress := 0\<rparr>)" using t(1) by (simp add: task_ok_def)
      ultimately show ?thesis using s by (simp add: set_task_ok)
    next
      case False
      define v1 where "v1 = v\<lparr>vh_energy := vh_energy v - tp_service_energy (tk_spec t)\<rparr>"
      define t1 where "t1 = t\<lparr>tk_progress := tk_progress t + 1\<rparr>"
      define s1 where "s1 = (record_energy v1 s)\<lparr>si_energy := si_energy s + to_u64 (tp_service_energy (tk_spec t))\<rparr>"
      have run: "work_task acts s t v = (if tk_progress t1 \<ge> tp_service (tk_spec t)
              then (set_vehicle (deliver t v1) (set_task (complete (si_tick s) t1) s1), True)
              else (set_vehicle v1 (set_task t1 s1), False))"
        using serve False unfolding work_task_def Let_def v1_def t1_def s1_def by (simp only: if_False)
      have "0 \<le> service_reserve v" using v by (simp add: service_reserve_def vehicle_ok_def)
      then have e: "0 \<le> vh_energy v1" using False by (simp add: v1_def)
      have v1: "vehicle_ok (si_world s) v1" using v e by (simp add: v1_def vehicle_ok_def)
      have t1: "task_ok t1" "tk_released t1" "tk_spec t1 = tk_spec t" using t by (simp_all add: t1_def task_ok_def)
      have s1: "sim_ok ids s1" "si_world s1 = si_world s"
        using record_energy_ok [OF s e] by (simp_all add: s1_def record_energy_def)
      have d: "deliver t v1 = deliver t1 v1" by (simp add: deliver_def t1(3))
      have "sim_ok ids (set_vehicle (deliver t v1) (set_task (complete (si_tick s) t1) s1))"
        unfolding d using False by (intro finish s1 t1(1,2) v1) (simp add: t1(3) v1_def)
      moreover have "sim_ok ids (set_vehicle v1 (set_task t1 s1))"
        using v1 s1(2) by (intro set_vehicle_ok set_task_ok s1(1) t1(1)) (simp add: frame_simps)
      ultimately show ?thesis by (simp add: run)
    qed
  qed
qed

lemma update_task_ok:
  assumes "sim_ok ids (fst st)" and "index < length (si_tasks (fst st))" and "update_task acts st index = Inr st'"
  shows "sim_ok ids (fst st') \<and> length (si_tasks (fst st')) = length (si_tasks (fst st))"
proof -
  obtain s changed where st: "st = (s, changed)" by (cases st)
  define t where "t = si_tasks s ! index"
  have s: "sim_ok ids s" using assms(1) by (simp add: st)
  have t: "task_ok t" using assms by (simp add: st t_def sim_ok_def tasks_ok_def list_all_length)
  have frame: "length (si_tasks (set_task u s')) = length (si_tasks s')" "si_tasks (set_vehicle v s') = si_tasks s'"
    "si_tasks (record_energy v s') = si_tasks s'" for u v s'
    by (simp_all add: set_task_def set_vehicle_def record_energy_def)
  note run = assms(3) [unfolded st update_task_def prod.case Let_def, folded t_def]
  show ?thesis
  proof (cases "\<not> tk_released t \<or> tk_status t \<noteq> TS_Pending")
    case True
    from run [unfolded if_P [OF True]] s show ?thesis by (auto simp: st)
  next
    case live: False
    note run = run [unfolded if_not_P [OF live]]
    show ?thesis
    proof (cases "si_tick s > tp_deadline (tk_spec t)")
      case True
      have "task_ok (t\<lparr>tk_status := TS_Missed, tk_progress := 0\<rparr>)" using t live by (simp add: task_ok_def)
      from set_task_ok [OF s this] run [unfolded if_P [OF True]] show ?thesis by (auto simp: st frame)
    next
      case False
      note run = run [unfolded if_not_P [OF False]]
      show ?thesis
      proof (cases "tk_agent t = []")
        case True
        from run [unfolded if_P [OF True]] s show ?thesis by (auto simp: st)
      next
        case False
        from run [unfolded if_not_P [OF False] bindR_eq_Inr] obtain v where v: "lookup_vehicle s (tk_agent t) = Inr v"
          and r: "(case work_task acts s t v of (s', c) \<Rightarrow> Inr (s', changed \<or> c)) = (Inr st' :: (sim \<times> bool) result)" by (elim exE conjE) (rule that)
        from r have st': "fst st' = fst (work_task acts s t v)" by (cases "work_task acts s t v") auto
        have "vehicle_ok (si_world s) v" using lookup_vehicle_ok [OF s v] by blast
        from work_task_ok [OF s t _ this] live have "sim_ok ids (fst st')" by (simp add: st')
        moreover have "length (si_tasks (fst st')) = length (si_tasks s)"
          unfolding st' work_task_def Let_def by (simp add: frame)
        ultimately show ?thesis by (simp add: st)
      qed
    qed
  qed
qed

lemma update_tasks_ok:
  assumes "sim_ok ids s" and "update_tasks acts s = Inr s'"
  shows "sim_ok ids s'"
proof -
  from assms(2) obtain st where run: "foldR (update_task acts) (s, False) [0..<length (si_tasks s)] = Inr st"
    and s': "s' = (if snd st then begin_convergence (fst st) else fst st)"
    unfolding update_tasks_def bindR_eq_Inr by (auto split: prod.splits)
  let ?P = "\<lambda>st. sim_ok ids (fst st) \<and> length (si_tasks (fst st)) = length (si_tasks s)"
  have "?P st"
  proof (rule foldR_invariant [OF run, where P = ?P])
    show "?P (s, False)" by (simp add: assms(1))
    fix st index st' assume "index \<in> set [0..<length (si_tasks s)]" and p: "?P st" and r: "update_task acts st index = Inr st'"
    then have "index < length (si_tasks (fst st))" by simp
    from update_task_ok [OF _ this r, of ids] p show "?P st'" by simp
  qed
  then show ?thesis by (simp add: s' begin_convergence_ok)
qed

subsection \<open>Steps and runs\<close>

lemma canonicalize_length:
  assumes "canonicalize_actions ser s acts = Inr acts'"
  shows "length (ab_actions acts') = length (si_vehicles s)"
proof -
  have len: "length ys = length xs" if "mapiR f i xs = Inr ys" for f :: "nat \<Rightarrow> envelope \<Rightarrow> envelope result" and i xs ys
    using that by (induction xs arbitrary: i ys) auto
  from assms show ?thesis by (auto simp: canonicalize_actions_def split: if_splits dest: len)
qed

lemma run_phases_ok:
  assumes "sim_ok ids (fst st)" and "length (ab_actions acts) = length ids" and "run_phases ser acts fence st = Inr st'"
  shows "sim_ok ids (fst st')"
proof -
  obtain s1 outs where st: "st = (s1, outs)" by (cases st)
  from assms(3) [unfolded st run_phases_def prod.case] obtain st2 s3 s5 s6 where
    two: "apply_actions ser acts outs fence s1 = Inr st2" and three: "update_failure_monitors (fst st2) = Inr s3" and
    five: "update_tasks acts (s3\<lparr>si_outcomes := sort_key outcome_key (snd st2), si_tick := si_tick s3 + 1\<rparr>) = Inr s5" and
    six: "update_convergence ser s5 = Inr s6" and s': "fst st' = s6"
    by (auto simp: Let_def split: prod.splits)
  have "sim_ok ids (fst st2)" by (rule apply_actions_ok [OF _ assms(2) two]) (use assms(1) st in simp)
  then have "sim_ok ids s3" using three by (rule update_failure_monitors_ok)
  then have "sim_ok ids (s3\<lparr>si_outcomes := sort_key outcome_key (snd st2), si_tick := si_tick s3 + 1\<rparr>)" by simp
  then have "sim_ok ids s5" using five by (rule update_tasks_ok)
  then show ?thesis unfolding s' using six by (rule update_convergence_ok)
qed

lemma step_internal_phases:
  assumes "step_internal ser actions recorded s = Inr (s', out)"
  obtains acts applied s1 outs s2 sorted_outs batch where
    "\<not> finished s" "canonicalize_actions ser s actions = Inr acts"
    "apply_events ser recorded s = Inr (applied, s1, outs)"
    "run_phases ser acts (fenced applied) (s1, outs) = Inr (s2, sorted_outs)"
    "s' = s2\<lparr>si_hash := compute_state_hash ser s2, si_tick_hashes := si_tick_hashes s2 @ [compute_state_hash ser s2]\<rparr>"
    "observe s' = Inr batch"
    "out = \<lparr>so_actions = acts, so_applied = applied, so_network = sorted_outs, so_observations = batch\<rparr>"
proof (cases "finished s")
  case True
  with assms show ?thesis by (simp add: step_internal_def)
next
  case False
  note run = assms [unfolded step_internal_def if_not_P [OF False] bindR_eq_Inr Let_def]
  from run obtain acts x y batch where runs: "canonicalize_actions ser s actions = Inr acts"
    "apply_events ser recorded s = Inr x" "run_phases ser acts (fenced (fst x)) (fst (snd x), snd (snd x)) = Inr y"
    "observe ((fst y)\<lparr>si_hash := compute_state_hash ser (fst y),
       si_tick_hashes := si_tick_hashes (fst y) @ [compute_state_hash ser (fst y)]\<rparr>) = Inr batch"
    "(s', out) = ((fst y)\<lparr>si_hash := compute_state_hash ser (fst y),
       si_tick_hashes := si_tick_hashes (fst y) @ [compute_state_hash ser (fst y)]\<rparr>,
       \<lparr>so_actions = acts, so_applied = fst x, so_network = snd y, so_observations = batch\<rparr>)"
    by (auto split: prod.splits)
  show ?thesis
    by (rule that [OF False runs(1), of "fst x" "fst (snd x)" "snd (snd x)" "fst y" "snd y" batch])
      (use runs in simp_all)
qed

lemma step_internal_ok:
  assumes "sim_ok ids s" and "step_internal ser actions recorded s = Inr (s', out)"
  shows "sim_ok ids s'"
  using assms(2)
proof (cases rule: step_internal_phases)
  case (1 acts applied s1 outs s2 sorted_outs batch)
  have ids: "length (si_vehicles s) = length ids" using assms(1) by (simp add: sim_ok_def vehicles_ok_def)
  have "sim_ok ids s1" by (rule apply_events_ok [OF 1(3) assms(1)])
  with run_phases_ok [OF _ _ 1(4), of ids] canonicalize_length [OF 1(2)] ids have "sim_ok ids s2" by simp
  then show ?thesis by (simp add: 1(5))
qed

subsection \<open>The initial state\<close>

lemma valid_caps_distinct:
  assumes "list_all valid_capability cs" and "sorted (map capability_num cs)" and "\<not> adjacent_dup id cs"
  shows "distinct cs"
proof -
  have "adjacent_dup capability_num cs = adjacent_dup id cs" if "set cs \<subseteq> Collect valid_capability" for cs
    using that
  proof (induction cs rule: induct_list012)
    case (3 x y zs)
    then show ?case using inj_on_eq_iff [OF capability_inj, of x y] by auto
  qed simp_all
  then have "strictly_sorted capability_num cs"
    using assms adjacent_dup_sorted [of capability_num cs] by (simp add: list_all_iff subset_iff)
  then show ?thesis by (metis distinct_map strictly_sorted_distinct)
qed

lemma new_vehicle_ok:
  assumes "check_vehicle sc v = Inr u" and "sorted (map capability_num (vp_caps v))"
  shows "vehicle_ok (sc_world sc) (new_vehicle v) \<and> vh_id (new_vehicle v) = vp_id v \<and> 0 \<le> vh_energy (new_vehicle v)"
  using assms valid_caps_distinct [of "vp_caps v"]
  by (simp add: check_vehicle_eq vehicle_ok_def new_vehicle_def vh_id_def in_world_def)

lemma new_task_ok: "check_task sc t = Inr u \<Longrightarrow> task_ok (new_task k t) \<and> tk_id (new_task k t) = tp_id t"
  unfolding check_task_def bindR_eq_Inr require_eq_Inr
  by (elim exE conjE) (simp add: task_ok_def new_task_def tk_id_def)

lemma normalize_caps: "v \<in> set (sc_vehicles (normalize_scenario raw)) \<Longrightarrow> sorted (map capability_num (vp_caps v))"
  by (auto simp: normalize_scenario_def sort_vehicle_lists_def)

lemma record_energy_noop: "0 \<le> vh_energy v \<Longrightarrow> record_energy v s = s"
  by (simp add: record_energy_def)

lemma add_vehicles:
  assumes "\<And>v. v \<in> set vs \<Longrightarrow> 0 \<le> vh_energy v"
  shows "foldl add_vehicle s vs = s\<lparr>si_vehicles := si_vehicles s @ vs\<rparr>"
  using assms by (induction vs rule: rev_induct) (simp_all add: add_vehicle_def record_energy_noop)

lemma populate_eq:
  assumes "validate_scenario (normalize_scenario raw) = Inr u"
  shows "populate (normalize_scenario raw) n = (blank_sim (normalize_scenario raw) n)
    \<lparr>si_vehicles := map new_vehicle (sc_vehicles (normalize_scenario raw)),
     si_tasks := map (new_task 1) (sc_tasks (normalize_scenario raw)),
     si_views := replicate (length (sc_vehicles (normalize_scenario raw))) empty_alloc_state\<rparr>"
proof -
  let ?sc = "normalize_scenario raw"
  let ?vs = "map new_vehicle (sc_vehicles ?sc)"
  have "0 \<le> vh_energy w" if "w \<in> set ?vs" for w
    using that validate_checks(10) [OF assms] normalize_caps new_vehicle_ok [of ?sc] by (auto simp: each_eq)
  then have "foldl add_vehicle (blank_sim ?sc n) ?vs = (blank_sim ?sc n)\<lparr>si_vehicles := ?vs\<rparr>"
    by (subst add_vehicles) (simp_all add: blank_sim_def)
  then show ?thesis by (simp add: populate_def blank_sim_def)
qed

lemma populate_ok:
  assumes "validate_scenario (normalize_scenario raw) = Inr u"
  shows "sim_ok (map vp_id (sc_vehicles (normalize_scenario raw))) (populate (normalize_scenario raw) n)"
proof -
  let ?sc = "normalize_scenario raw"
  let ?vs = "map new_vehicle (sc_vehicles ?sc)"
  note v = validate_checks [OF assms]
  have vs: "vehicle_ok (sc_world ?sc) (new_vehicle w) \<and> vh_id (new_vehicle w) = vp_id w \<and> 0 \<le> vh_energy (new_vehicle w)"
    if "w \<in> set (sc_vehicles ?sc)" for w
    using that v(10) normalize_caps by (intro new_vehicle_ok) (simp_all add: each_eq)
  have ts: "task_ok (new_task k t) \<and> tk_id (new_task k t) = tp_id t" if "t \<in> set (sc_tasks ?sc)" for t k
    using that v(11) by (intro new_task_ok [where sc = ?sc]) (simp_all add: each_eq)
  have ids: "map vh_id ?vs = map vp_id (sc_vehicles ?sc)" "map tk_id (map (new_task k) (sc_tasks ?sc)) = map tp_id (sc_tasks ?sc)" for k
    using vs ts by simp_all
  have ok: "scenario_ok ?sc" by (rule loaded_ok [OF assms])
  have fleet: "vehicles_ok (map vp_id (sc_vehicles ?sc)) (sc_world ?sc) ?vs"
    unfolding vehicles_ok_def ids using ok vs by (auto simp: scenario_ok_def canonical_def list_all_iff)
  have tasks: "tasks_ok (map (new_task k) (sc_tasks ?sc))" for k
    unfolding tasks_ok_def ids using ok ts by (auto simp: scenario_ok_def canonical_def list_all_iff)
  have world: "world_ok (sc_world ?sc)"
    using ok by (auto simp: world_ok_def scenario_ok_def canonical_def list_all_iff check_location_eq check_region_eq)
  show ?thesis
    unfolding populate_eq [OF assms] using fleet tasks [of 1] world by (simp add: sim_ok_def checks_clear_def blank_sim_def empty_table_ok)
qed

lemma build_sim_ok:
  assumes "build_sim raw = Inr s"
  shows "sim_ok (map vp_id (sc_vehicles (normalize_scenario raw))) s"
proof -
  from assms [unfolded build_sim_def bindR_eq_Inr Let_def] obtain n n' u where
    valid: "validate_scenario (normalize_scenario raw) = Inr u"
    and s: "s = begin_convergence ((populate (normalize_scenario raw) n)\<lparr>si_net := n'\<rparr>)
      \<or> s = (populate (normalize_scenario raw) n)\<lparr>si_net := n'\<rparr>"
    by (auto split: if_split_asm)
  from populate_ok [OF valid, of n] s show ?thesis by (auto intro: begin_convergence_ok)
qed

lemma new_simulator_ok:
  "new_simulator ser raw = Inr s \<Longrightarrow> sim_ok (map vp_id (sc_vehicles (normalize_scenario raw))) s"
  using build_sim_ok by (auto simp: new_simulator_def)

text \<open>Everything a run can reach: live steps and replayed ones, on any actions.\<close>

inductive reachable :: "serializer \<Rightarrow> scenario \<Rightarrow> sim \<Rightarrow> bool" for ser raw where
  start: "new_simulator ser raw = Inr s \<Longrightarrow> reachable ser raw s"
| another: "reachable ser raw s \<Longrightarrow> step_internal ser actions recorded s = Inr (s', out) \<Longrightarrow> reachable ser raw s'"

inductive_cases reachable_cases: "reachable ser raw s"

lemma reachable_ok: "reachable ser raw s \<Longrightarrow> sim_ok (map vp_id (sc_vehicles (normalize_scenario raw))) s"
  by (induction rule: reachable.induct) (auto intro: new_simulator_ok step_internal_ok)

end
