(* ===== verification/Sim_Frames.thy ===== *)
theory Sim_Frames
  imports Sim_Laws
begin

text \<open>
  What each phase of a step leaves alone: the identity of the run, the positions of the vehicles (all but the motion
  phase), the world and the vehicles' speeds (all but the tape events), the reservations (from the motion on), and the
  records of finished tasks (every phase).
\<close>

subsection \<open>What may stay the same\<close>

definition base :: "sim \<Rightarrow> u64 \<times> string list \<times> u64 \<times> u64 \<times> task_spec list \<times> vehicle_spec list" where
  "base s = (si_tick s, si_tick_hashes s, sc_max_ticks (si_scenario s), sc_step_ms (si_scenario s),
     map tk_spec (si_tasks s), map vh_spec (si_vehicles s))"

definition spots :: "sim \<Rightarrow> (i64 \<times> i64) list" where
  "spots s = map (\<lambda>v. (vh_x v, vh_y v)) (si_vehicles s)"

definition setup_of :: "sim \<Rightarrow> world \<times> (i64 \<times> bool) list" where
  "setup_of s = (si_world s, map (\<lambda>v. (vh_speed v, vh_active v)) (si_vehicles s))"

definition windows :: "sim \<Rightarrow> table \<times> u64 list" where
  "windows s = (si_table s, map vh_route (si_vehicles s))"

definition finished_kept :: "sim \<Rightarrow> sim \<Rightarrow> bool" where
  "finished_kept s s' \<longleftrightarrow> (\<forall>t \<in> set (si_tasks s). tk_status t \<noteq> TS_Pending \<longrightarrow> t \<in> set (si_tasks s'))"

lemmas frame_defs = base_def spots_def setup_of_def windows_def

lemma finished_kept_refl [simp]: "finished_kept s s"
  by (simp add: finished_kept_def)

lemma finished_kept_same: "si_tasks s' = si_tasks s \<Longrightarrow> finished_kept s s'"
  by (simp add: finished_kept_def)

lemma finished_kept_trans [trans]: "finished_kept a b \<Longrightarrow> finished_kept b c \<Longrightarrow> finished_kept a c"
  by (simp add: finished_kept_def)

text \<open>The phases, by what they leave alone: tape events; coordination; from the motion on; the motion itself.\<close>

definition eventful :: "sim \<Rightarrow> sim \<Rightarrow> bool" where
  "eventful s s' \<longleftrightarrow> base s' = base s \<and> spots s' = spots s \<and> finished_kept s s'"

definition parked :: "sim \<Rightarrow> sim \<Rightarrow> bool" where
  "parked s s' \<longleftrightarrow> eventful s s' \<and> setup_of s' = setup_of s"

definition quiet :: "sim \<Rightarrow> sim \<Rightarrow> bool" where
  "quiet s s' \<longleftrightarrow> parked s s' \<and> windows s' = windows s"

lemma frame_refl [simp]: "eventful s s" "parked s s" "quiet s s"
  by (simp_all add: eventful_def parked_def quiet_def)

lemma eventful_trans: "eventful a b \<Longrightarrow> eventful b c \<Longrightarrow> eventful a c"
  by (auto simp: eventful_def intro: finished_kept_trans)

lemma parked_trans: "parked a b \<Longrightarrow> parked b c \<Longrightarrow> parked a c"
  by (auto simp: parked_def intro: eventful_trans)

lemma quiet_trans: "quiet a b \<Longrightarrow> quiet b c \<Longrightarrow> quiet a c"
  by (auto simp: quiet_def intro: parked_trans)

lemma quiet_parked: "quiet s s' \<Longrightarrow> parked s s'" and parked_eventful: "parked s s' \<Longrightarrow> eventful s s'"
  by (simp_all add: quiet_def parked_def)

text \<open>Every update of a field that no frame mentions is quiet.\<close>

lemma quiet_same:
  assumes "base s' = base s" "si_vehicles s' = si_vehicles s" "si_tasks s' = si_tasks s" "si_world s' = si_world s"
    "si_table s' = si_table s"
  shows "quiet s s'"
  using assms by (auto simp: quiet_def parked_def eventful_def frame_defs intro: finished_kept_same)

lemma begin_convergence_quiet: "quiet s (begin_convergence s)"
  by (rule quiet_same) (simp_all add: begin_convergence_def base_def)

lemma bump_epoch_quiet: "quiet s (bump_epoch s)"
  by (rule quiet_same) (simp_all add: bump_epoch_def begin_convergence_def base_def)

lemma record_energy_quiet: "quiet s (record_energy v s)"
  by (rule quiet_same) (simp_all add: record_energy_def base_def)

lemma map_update_found:
  "find_by key xs k = Some x \<Longrightarrow> f y = f x \<Longrightarrow> map f (update_by key k (\<lambda>_. y) xs) = map f xs"
  by (induction xs) (auto split: if_splits)

lemma set_update_found: "find_by key xs k = Some x \<Longrightarrow> set xs \<subseteq> insert x (set (update_by key k (\<lambda>_. y) xs))"
  by (induction xs) (auto split: if_splits)

lemma set_task_quiet:
  assumes "lookup_task s (tk_id u) = Inr t" and "tk_spec u = tk_spec t" and "tk_status t = TS_Pending"
  shows "quiet s (set_task u s)"
proof -
  have f: "find_by tk_id (si_tasks s) (tk_id u) = Some t"
    using assms(1) by (auto simp: lookup_task_def split: option.splits)
  have "finished_kept s (set_task u s)"
    using set_update_found [OF f] assms(3) by (auto simp: finished_kept_def set_task_def)
  then show ?thesis
    using map_update_found [OF f, of tk_spec u] assms(2)
    by (simp add: quiet_def parked_def eventful_def frame_defs set_task_def)
qed

lemma lookup_found: "lookup_vehicle s k = Inr v \<Longrightarrow> find_by vh_id (si_vehicles s) k = Some v"
  by (auto simp: lookup_vehicle_def split: option.splits)

lemma set_vehicle_frame:
  assumes "lookup_vehicle s (vh_id u) = Inr v" and "vh_spec u = vh_spec v" "(vh_x u, vh_y u) = (vh_x v, vh_y v)"
  shows set_vehicle_eventful: "eventful s (set_vehicle u s)"
    and set_vehicle_parked: "(vh_speed u, vh_active u) = (vh_speed v, vh_active v) \<Longrightarrow> parked s (set_vehicle u s)"
    and set_vehicle_quiet: "(vh_speed u, vh_active u) = (vh_speed v, vh_active v) \<Longrightarrow> vh_route u = vh_route v
      \<Longrightarrow> quiet s (set_vehicle u s)"
proof -
  note f = map_update_found [OF lookup_found [OF assms(1)]]
  show e: "eventful s (set_vehicle u s)"
    using f [of vh_spec u] f [of "\<lambda>v. (vh_x v, vh_y v)" u] assms(2,3)
    by (simp add: eventful_def base_def spots_def set_vehicle_def finished_kept_same del: prod.inject)
  show p: "parked s (set_vehicle u s)" if "(vh_speed u, vh_active u) = (vh_speed v, vh_active v)"
    using that f [of "\<lambda>v. (vh_speed v, vh_active v)" u] e
    by (simp add: parked_def setup_of_def set_vehicle_def del: prod.inject)
  show "quiet s (set_vehicle u s)" if "(vh_speed u, vh_active u) = (vh_speed v, vh_active v)" "vh_route u = vh_route v"
    using that(2) f [of vh_route u] p [OF that(1)] by (simp add: quiet_def windows_def set_vehicle_def)
qed

subsection \<open>Tape events\<close>

lemma eventful_books [simp]:
  "eventful s0 (s\<lparr>si_table := tb\<rparr>) = eventful s0 s" "eventful s0 (s\<lparr>si_net := n\<rparr>) = eventful s0 s"
  "eventful s0 (s\<lparr>si_rng := g\<rparr>) = eventful s0 s" "eventful s0 (s\<lparr>si_profile := p\<rparr>) = eventful s0 s"
  "eventful s0 (s\<lparr>si_monitors := ms\<rparr>) = eventful s0 s" "eventful s0 (s\<lparr>si_reassignments := rs\<rparr>) = eventful s0 s"
  "eventful s0 (s\<lparr>si_next_event := i\<rparr>) = eventful s0 s"
  by (simp_all add: eventful_def base_def spots_def finished_kept_def)

lemma eventful_step: "eventful s0 s \<Longrightarrow> quiet s s' \<Longrightarrow> eventful s0 s'"
  using eventful_trans parked_eventful quiet_parked by blast

lemma lookup_id: "lookup_vehicle s k = Inr v \<Longrightarrow> vh_id v = k" "lookup_task s k = Inr t \<Longrightarrow> tk_id t = k"
  by (auto simp: lookup_vehicle_def lookup_task_def split: option.splits dest: find_by_SomeD)

lemma task_status_ok: "sim_ok ids s \<Longrightarrow> lookup_task s k = Inr t \<Longrightarrow> \<not> tk_released t \<Longrightarrow> tk_status t = TS_Pending"
  using lookup_task_ok task_ok_def by blast

lemma apply_release_eventful:
  assumes "sim_ok ids s" and "apply_release e s = Inr s'"
  shows "eventful s s'"
proof -
  from assms(2) obtain t where t: "lookup_task s (ev_target e) = Inr t" and
    s': "s' = s \<or> \<not> tk_released t \<and> (s' = bump_epoch (set_task (t\<lparr>tk_released := True\<rparr>) s)
      \<or> s' = set_task (t\<lparr>tk_released := True\<rparr>) s)"
    by (auto simp: apply_release_def Let_def split: if_splits)
  have "quiet s (set_task (t\<lparr>tk_released := True\<rparr>) s)" if "\<not> tk_released t"
    using t that task_status_ok [OF assms(1) t] lookup_id(2) [OF t] by (intro set_task_quiet) (simp_all add: tk_id_def)
  with s' show ?thesis by (metis frame_refl(1) eventful_step bump_epoch_quiet)
qed

lemma vehicle_change_eventful:
  assumes "lookup_vehicle s k = Inr v" and "vh_spec u = vh_spec v" and "vh_x u = vh_x v" and "vh_y u = vh_y v"
  shows "eventful s (set_vehicle u s)"
  using assms lookup_id(1) [OF assms(1)] by (intro set_vehicle_eventful) (simp_all add: vh_id_def)

lemma disable_vehicle_eventful:
  assumes "lookup_vehicle s k = Inr v"
  shows "eventful s (disable_vehicle v s)"
proof -
  have "eventful s (set_vehicle (v\<lparr>vh_active := False, vh_vx := 0, vh_vy := 0, vh_failure := Some (si_tick s)\<rparr>) s)"
    by (rule vehicle_change_eventful [OF assms]) simp_all
  then show ?thesis by (simp add: disable_vehicle_def Let_def)
qed

lemma apply_disable_eventful: "apply_disable e s = Inr s' \<Longrightarrow> eventful s s'"
  by (auto simp: apply_disable_def intro: disable_vehicle_eventful split: if_splits)

lemma void_route_eventful: "eventful s0 s \<Longrightarrow> eventful s0 (void_route v s)"
  unfolding void_route_def by (rule eventful_step [OF _ bump_epoch_quiet]) simp

lemma apply_random_eventful:
  assumes "apply_random e x s = Inr s'"
  shows "eventful s s'"
proof -
  from assms obtain v where v: "lookup_vehicle s (ev_target e) = Inr v"
    and s': "s' = change_energy x v s \<or> s' = change_speed x v s \<or> s' = change_endurance x v s"
    by (auto simp: apply_random_def)
  note put = vehicle_change_eventful [OF v]
  have "eventful s (change_energy x v s)" "eventful s (change_speed x v s)" "eventful s (change_endurance x v s)"
    unfolding change_energy_def change_speed_def change_endurance_def Let_def
    by (intro void_route_eventful eventful_step [OF put record_energy_quiet] put; simp)+
  with s' show ?thesis by blast
qed

lemma apply_region_eventful: "apply_region e s = Inr s' \<Longrightarrow> eventful s s'"
proof -
  have "eventful s (change_region b k s)" for b k
    unfolding change_region_def Let_def
    by (rule eventful_step [OF _ begin_convergence_quiet]) (simp add: eventful_def base_def spots_def finished_kept_def)
  then show "apply_region e s = Inr s' \<Longrightarrow> eventful s s'" by (auto simp: apply_region_def split: option.splits if_splits)
qed

lemma apply_link_eventful:
  assumes "apply_link e (s, outs) = Inr (s', outs')"
  shows "eventful s s'"
proof -
  from assms obtain b n where "s' = (if b then begin_convergence (s\<lparr>si_net := n\<rparr>) else s\<lparr>si_net := n\<rparr>)"
    unfolding apply_link_def Let_def by auto
  moreover have "eventful s (s\<lparr>si_net := n\<rparr>)" for n by simp
  ultimately show ?thesis using eventful_step begin_convergence_quiet by metis
qed

lemma apply_event_eventful:
  assumes "sim_ok ids s" and "apply_event r e (s, outs) = Inr (event, s', outs')"
  shows "eventful s s'"
proof -
  consider "apply_release e s = Inr s'" | "apply_disable e s = Inr s'"
    | x g where "apply_random e x (s\<lparr>si_rng := g\<rparr>) = Inr s'"
    | n p where "s' = s\<lparr>si_profile := p, si_net := n\<rparr>" | "apply_region e s = Inr s'" | "apply_link e (s, outs) = Inr (s', outs')" | "s' = s"
    using assms(2) unfolding apply_event_def Let_def prod.case resolve_event_def apply_profile_def
    by (auto split: if_splits option.splits)
  then show ?thesis
  proof cases
    case 3
    from apply_random_eventful [OF this] show ?thesis by (simp add: eventful_def base_def spots_def finished_kept_def)
  qed (simp_all add: apply_release_eventful [OF assms(1)] apply_disable_eventful apply_region_eventful apply_link_eventful)
qed

lemma events_loop_eventful:
  "events_loop ser recorded es applied (s, outs) = Inr (applied', s', outs') \<Longrightarrow> sim_ok ids s \<Longrightarrow> eventful s s'"
proof (induction es arbitrary: applied s outs)
  case Nil
  then show ?case by simp
next
  case (Cons e es)
  show ?case
  proof (cases "ev_tick e = si_tick s")
    case False
    with Cons.prems show ?thesis by simp
  next
    case True
    with Cons.prems(1) obtain r event s1 outs1 where e: "apply_event r e (s, outs) = Inr (event, s1, outs1)"
      and rest: "events_loop ser recorded es (applied @ [event]) (s1\<lparr>si_next_event := si_next_event s1 + 1\<rparr>, outs1)
        = Inr (applied', s', outs')" by auto
    have "sim_ok ids (s1\<lparr>si_next_event := si_next_event s1 + 1\<rparr>)"
      using apply_event_ok [OF Cons.prems(2) e] by simp
    from Cons.IH [OF rest this] apply_event_eventful [OF Cons.prems(2) e] show ?thesis
      by (auto intro: eventful_trans simp: eventful_def base_def spots_def finished_kept_def)
  qed
qed

lemma apply_events_eventful: "apply_events ser recorded s = Inr (applied, s', outs) \<Longrightarrow> sim_ok ids s \<Longrightarrow> eventful s s'"
  unfolding apply_events_def by (auto dest: events_loop_eventful split: option.splits if_splits)

subsection \<open>Coordination\<close>

lemma parked_step: "parked s0 s \<Longrightarrow> quiet s s' \<Longrightarrow> parked s0 s'"
  using parked_trans quiet_parked by blast

lemma parked_books [simp]:
  "parked s0 (s\<lparr>si_table := tb\<rparr>) = parked s0 s" "parked s0 (s\<lparr>si_detections := ds\<rparr>) = parked s0 s"
  "parked s0 (s\<lparr>si_reassignments := rs\<rparr>) = parked s0 s" "parked s0 (s\<lparr>si_rejected := n\<rparr>) = parked s0 s"
  "parked s0 (s\<lparr>si_bad_overlap := n\<rparr>) = parked s0 s"
  by (simp_all add: parked_def eventful_def base_def spots_def setup_of_def finished_kept_def)

lemma note_detections_parked:
  assumes "note_detections st e = Inr st'" and "parked s0 (fst st)"
  shows "parked s0 (fst st')"
proof -
  have "parked s0 (fst (note_detection st d))" if "parked s0 (fst st)" for st d
    using note_detection_sim [of "fst st" "snd st" d] that by auto
  then have "parked s0 (fst (foldl note_detection st ds))" for ds
    by (induction ds rule: rev_induct) (simp_all add: assms(2))
  with assms show ?thesis by (auto simp: note_detections_def)
qed

lemma release_tasks_parked:
  assumes "parked s0 s"
  shows "parked s0 (s\<lparr>si_reassignments := rs, si_tasks := map (\<lambda>t. if held_by k t then unassign t else t) (si_tasks s)\<rparr>)"
proof -
  define f where "f = (\<lambda>t. if held_by k t then unassign t else t)"
  let ?s = "s\<lparr>si_reassignments := rs, si_tasks := map f (si_tasks s)\<rparr>"
  have spec: "map tk_spec (map f ts) = map tk_spec ts" for ts by (simp add: f_def unassign_def)
  have "f t = t" if "tk_status t \<noteq> TS_Pending" for t using that by (simp add: f_def held_by_def)
  then have "finished_kept s ?s" by (force simp: finished_kept_def)
  moreover have "base ?s = base s" "spots ?s = spots s" "setup_of ?s = setup_of s"
    using spec by (simp_all add: base_def spots_def setup_of_def del: map_map)
  ultimately have "parked s ?s" by (simp add: parked_def eventful_def)
  with assms show ?thesis unfolding f_def by (rule parked_trans)
qed

lemma orphan_tasks_parked:
  assumes "lookup_vehicle s k = Inr v" and "parked s0 s"
  shows "parked s0 (orphan_tasks d v s)"
proof -
  have "quiet s (set_vehicle (v\<lparr>vh_announced := True\<rparr>) s)"
    using assms(1) lookup_id(1) [OF assms(1)] by (intro set_vehicle_quiet) (simp_all add: vh_id_def)
  from parked_step [OF assms(2) this] have p: "parked s0 (set_vehicle (v\<lparr>vh_announced := True\<rparr>) s)" .
  show ?thesis unfolding orphan_tasks_def Let_def by (rule release_tasks_parked [OF p])
qed

lemma announce_failure_parked:
  assumes "announce_failure st kd = Inr st'" and "parked s0 (fst st)"
  shows "parked s0 (fst st')"
proof -
  obtain s orphaned k d where st: "st = (s, orphaned)" "kd = (k, d)" by (cases st; cases kd)
  from assms(1) obtain v where "lookup_vehicle s k = Inr v" "fst st' = s \<or> fst st' = orphan_tasks d v s"
    by (auto simp: st announce_failure_def split: if_splits)
  with assms(2) orphan_tasks_parked show ?thesis by (auto simp: st)
qed

lemma apply_failure_detections_parked:
  assumes "apply_failure_detections acts s = Inr s'"
  shows "parked s s'"
proof -
  from assms obtain st1 st2 where one: "foldR note_detections (s, []) (ab_actions acts) = Inr st1"
    and two: "foldR announce_failure (fst st1, False) (snd st1) = Inr st2"
    and s': "s' = (if snd st2 then bump_epoch (fst st2) else fst st2)"
    unfolding apply_failure_detections_def bindR_eq_Inr by (auto split: prod.splits)
  have "parked s (fst st1)"
    by (rule foldR_invariant [OF one, where P = "\<lambda>st. parked s (fst st)"]) (simp, rule note_detections_parked)
  then have "parked s (fst st2)"
    by (intro foldR_invariant [OF two, where P = "\<lambda>st. parked s (fst st)"]) (simp, rule announce_failure_parked)
  then show ?thesis by (simp add: s' parked_step [OF _ bump_epoch_quiet])
qed

lemma commit_task_parked:
  assumes "sim_ok ids s" and "commit_fits s kc" and "commit_task s kc = Inr s'" and "parked s0 s"
  shows "parked s0 s'"
proof -
  obtain k c where kc: "kc = (k, c)" by (cases kc)
  from assms(2) obtain t v where t: "lookup_task s k = Inr t" and v: "lookup_vehicle s (cm_agent c) = Inr v"
    and p: "tk_status t = TS_Pending" and fit: "fit_for v t" by (auto simp: commit_fits_def kc)
  from assms(3) t v obtain rs where s': "s' = (set_task (assigned c t) s)\<lparr>si_reassignments := rs\<rparr>"
    using assign_task_fit [OF p fit, of c s] by (auto simp: commit_task_def kc)
  have "quiet s (set_task (assigned c t) s)"
    using t p lookup_id(2) [OF t] by (intro set_task_quiet) simp_all
  from parked_step [OF assms(4) this] show ?thesis by (simp add: s')
qed

lemma select_commit_parked: "select_commit e st c = Inr st' \<Longrightarrow> parked s0 (fst st) \<Longrightarrow> parked s0 (fst st')"
  by (cases st) (auto simp: select_commit_def Let_def split: if_splits option.splits)

lemma apply_commits_parked:
  assumes "sim_ok ids s" and "apply_commits acts fence s = Inr s'"
  shows "parked s s'"
proof (cases fence)
  case True
  have "parked s (foldl (\<lambda>s e. s\<lparr>si_rejected := si_rejected s + of_nat (length (aa_commits (en_action e)))\<rparr>) s es)" for es
    by (induction es rule: rev_induct) simp_all
  from assms(2) this [of "ab_actions acts"] show ?thesis unfolding apply_commits_def if_P [OF True] by simp
next
  case False
  with assms(2) obtain st where run: "foldR (\<lambda>st e. foldR (select_commit e) st (aa_commits (en_action e))) (s, []) (ab_actions acts) = Inr st"
    and commits: "foldR commit_task (fst st) (snd st) = Inr s'"
    unfolding apply_commits_def by (auto split: prod.splits)
  let ?P = "\<lambda>st. parked s (fst st) \<and> sim_ok ids (fst st) \<and> (\<forall>kc \<in> set (snd st). commit_fits (fst st) kc)"
  have "?P st"
  proof (rule foldR_invariant [OF run, where P = ?P])
    show "?P (s, [])" using assms(1) by simp
    fix st e st' assume st: "?P st" and r: "foldR (select_commit e) st (aa_commits (en_action e)) = Inr st'"
    show "?P st'"
      by (rule foldR_invariant [OF r, where P = ?P, OF st]) (metis select_commit_ok select_commit_parked)
  qed
  moreover have "parked s s' \<and> sim_ok ids s' \<and> (\<forall>kc \<in> set (snd st). commit_fits s' kc)"
    by (rule foldR_invariant [OF commits, where P = "\<lambda>u. parked s u \<and> sim_ok ids u \<and> (\<forall>kc \<in> set (snd st). commit_fits u kc)",
        OF calculation]) (use commit_task_step commit_task_parked in blast)
  ultimately show ?thesis by blast
qed

lemma unassign_quiet:
  assumes "lookup_task s k = Inr t" and "tk_status t = TS_Pending"
  shows "quiet s (set_task (unassign t) s)"
  using assms lookup_id(2) [OF assms(1)] by (intro set_task_quiet) (simp_all add: unassign_def tk_id_def)

lemma reject_task_parked:
  assumes "reject_task sender s r = Inr s'" and "parked s0 s"
  shows "parked s0 s'"
proof -
  from assms(1) consider "s' = s"
    | t where "lookup_task s (tr_task r) = Inr t" "tk_status t = TS_Pending" "s' = bump_epoch (set_task (unassign t) s)"
    unfolding reject_task_def bindR_eq_Inr if_split [of "\<lambda>x. x = Inr s'"] sum.inject
      if_split [of "\<lambda>x. x = s'"] by metis
  then show ?thesis
    by cases (use assms(2) parked_step unassign_quiet bump_epoch_quiet in metis)+
qed

lemma apply_rejections_parked:
  assumes "apply_rejections acts s = Inr s'"
  shows "parked s s'"
proof (rule foldR_invariant [OF assms [unfolded apply_rejections_def], where P = "parked s"])
  fix u e u' assume u: "parked s u" and "bindR (lookup_vehicle u (en_sender e)) (\<lambda>v. if \<not> vh_active v then Inr u
     else foldR (reject_task (en_sender e)) u (aa_reports (en_action e))) = Inr u'"
  then consider "u' = u" | "foldR (reject_task (en_sender e)) u (aa_reports (en_action e)) = Inr u'"
    by (auto split: if_splits)
  then show "parked s u'"
  proof cases
    case 2
    show ?thesis by (rule foldR_invariant [OF 2, where P = "parked s", OF u]) (rule reject_task_parked)
  qed (simp add: u)
qed simp

lemma adopt_route_parked:
  assumes "adopt_route s e = Inr s'" and "parked s0 s"
  shows "parked s0 s'"
proof -
  from assms(1) obtain v where v: "lookup_vehicle s (en_sender e) = Inr v"
    and s': "s' = s \<or> s' = set_vehicle (v\<lparr>vh_route := aa_route_version (en_action e)\<rparr>)
        (s\<lparr>si_table := release_route (vh_id v) (vh_route v) (si_table s)\<rparr>)"
    by (auto simp: adopt_route_def Let_def split: if_splits)
  let ?s = "s\<lparr>si_table := release_route (vh_id v) (vh_route v) (si_table s)\<rparr>"
  have "parked ?s (set_vehicle (v\<lparr>vh_route := aa_route_version (en_action e)\<rparr>) ?s)"
    using v lookup_id(1) [OF v] by (intro set_vehicle_parked) (simp_all add: vh_id_def frame_simps)
  moreover have "parked s0 ?s" using assms(2) by simp
  ultimately show ?thesis using s' assms(2) parked_trans by blast
qed

lemma propose_parked: "propose sender s p = Inr s' \<Longrightarrow> parked s0 s \<Longrightarrow> parked s0 s'"
  unfolding propose_def bindR_eq_Inr Let_def by (auto simp: record_overlap_def split: if_split_asm)

lemma propose_all_parked:
  assumes "propose_all s e = Inr s'" and "parked s0 s"
  shows "parked s0 s'"
proof -
  from assms(1) consider "s' = s" | "foldR (propose (en_sender e)) s (aa_proposals (en_action e)) = Inr s'"
    by (auto simp: propose_all_def split: if_splits)
  then show ?thesis
  proof cases
    case 2
    show ?thesis by (rule foldR_invariant [OF 2, where P = "parked s0", OF assms(2)]) (rule propose_parked)
  qed (simp add: assms(2))
qed

lemma apply_reservations_parked:
  assumes "apply_reservations acts fence s = Inr s'"
  shows "parked s s'"
proof -
  from assms obtain s1 where
    one: "foldR adopt_route (s\<lparr>si_table := release_before (si_tick s) (si_table s)\<rparr>) (ab_actions acts) = Inr s1"
    and two: "s' = s1 \<or> foldR propose_all s1 (ab_actions acts) = Inr s'"
    unfolding apply_reservations_def bindR_eq_Inr by (auto split: if_split_asm)
  have s1: "parked s s1"
    by (rule foldR_invariant [OF one, where P = "parked s"]) (simp, rule adopt_route_parked)
  from two show ?thesis
  proof
    assume run: "foldR propose_all s1 (ab_actions acts) = Inr s'"
    show ?thesis by (rule foldR_invariant [OF run, where P = "parked s", OF s1]) (rule propose_all_parked)
  qed (simp add: s1)
qed

end
