(* ===== verification/Sim_Motion.thy ===== *)
theory Sim_Motion
  imports Sim_Frames
begin

text \<open>
  The motion phase: what one vehicle's action does to its position, and the rest of the step around it, so that the
  moves of a whole step can be read off the states before and after it.
\<close>

definition spot :: "i64 \<times> i64 \<Rightarrow> point" where
  "spot xy = coordinate (fst xy) (snd xy)"

text \<open>A lawful move of the vehicle at \<open>i\<close>: it is active, its way is allowed on the map, no longer than its speed
  permits, and if it meets a chokepoint the vehicle holds the window of this tick there, and no active vehicle that
  stays in its place stands in it.\<close>

definition lawful_move :: "sim \<Rightarrow> (i64 \<times> i64) list \<Rightarrow> (i64 \<times> i64) list \<Rightarrow> nat \<Rightarrow> bool" where
  "lawful_move s before after i \<longleftrightarrow>
     (let v = si_vehicles s ! i; p = spot (before ! i); q = spot (after ! i)
      in vh_active v \<and> segment_allowed (si_world s) (vehicle_view v) p q
         \<and> abs (px q - px p) + abs (py q - py p) \<le> vh_speed v * to_i64 (sc_step_ms (si_scenario s)) div 1000
         \<and> (\<forall>R. contested_resource (si_world s) p q = Some R \<longrightarrow>
              has_reservation s (vh_id v) R (vh_route v)
              \<and> (\<forall>j < length (si_vehicles s). j \<noteq> i \<and> vh_active (si_vehicles s ! j) \<and> after ! j = before ! j
                   \<longrightarrow> contested_resource (si_world s) (spot (after ! j)) (spot (after ! j)) \<noteq> Some R)))"

subsection \<open>One vehicle\<close>

text \<open>What motion and charging leave alone of a vehicle, and of the state around the vehicles.\<close>

definition alike :: "vehicle \<Rightarrow> vehicle \<Rightarrow> bool" where
  "alike v v' \<longleftrightarrow> vh_spec v' = vh_spec v \<and> vh_speed v' = vh_speed v \<and> vh_active v' = vh_active v \<and> vh_route v' = vh_route v"

definition calm :: "sim \<Rightarrow> sim \<Rightarrow> bool" where
  "calm s s' \<longleftrightarrow> base s' = base s \<and> si_tasks s' = si_tasks s \<and> si_world s' = si_world s \<and> si_table s' = si_table s
     \<and> si_vehicles s' = si_vehicles s"

lemma calm_trans: "calm a b \<Longrightarrow> calm b c \<Longrightarrow> calm a c"
  by (simp add: calm_def)

lemma calm_record [simp]: "calm s ((record_energy v s)\<lparr>si_distance := d, si_energy := e\<rparr>)"
    "calm s (s\<lparr>si_wait := n\<rparr>)" "calm s ((record_energy v s)\<lparr>si_recharge := n\<rparr>)"
  by (simp_all add: calm_def record_energy_def base_def)

lemma calm_prepared: "calm s (prepared s index v a)"
  by (simp add: calm_def prepared_def Let_def base_def)

lemma alike_trans: "alike u v \<Longrightarrow> alike v w \<Longrightarrow> alike u w"
  by (simp add: alike_def)

lemma alike_stop: "alike v (stop v)" "alike v (with_mode v a)" "stays v v' \<Longrightarrow> alike v v'" "goes s v a v' cost \<Longrightarrow> alike v v'"
  by (auto simp: alike_def stop_def with_mode_def stays_def goes_def Let_def split: prod.splits)

lemma vehicle_spot: "coordinate (vh_x v) (vh_y v) = spot (vh_x v, vh_y v)"
  by (simp add: spot_def)

lemma charge_vehicle_frame:
  assumes "charge_vehicle s v a = Inr (s', v')"
  shows "calm s s' \<and> alike v v' \<and> vh_x v' = vh_x v \<and> vh_y v' = vh_y v"
proof -
  have here: "calm s s" "alike v v" by (simp_all add: calm_def alike_def)
  have energy: "alike v (v\<lparr>vh_energy := x\<rparr>)" for x by (simp add: alike_def)
  show ?thesis
  proof (cases "aa_charge a \<noteq> [] \<and> aa_vx a = 0 \<and> aa_vy a = 0")
    case False
    from assms [unfolded charge_vehicle_def if_not_P [OF False]] here show ?thesis by simp
  next
    case True
    from assms [unfolded charge_vehicle_def if_P [OF True] bindR_eq_Inr Let_def] obtain l where
      rest: "(if inside \<lparr>px = vh_x v, py = vh_y v\<rparr> l
        then Inr ((record_energy (v\<lparr>vh_energy := min (vh_capacity v) (vh_energy v + lc_charge l)\<rparr>) s)
            \<lparr>si_recharge := si_recharge s + 1\<rparr>, v\<lparr>vh_energy := min (vh_capacity v) (vh_energy v + lc_charge l)\<rparr>)
        else Inr (s, v)) = (Inr (s', v') :: (sim \<times> vehicle) result)"
      by (elim exE conjE) (rule that)
    show ?thesis
    proof (cases "inside \<lparr>px = vh_x v, py = vh_y v\<rparr> l")
      case True
      from rest [unfolded if_P [OF True]] energy show ?thesis by auto
    next
      case False
      from rest [unfolded if_not_P [OF False]] here show ?thesis by simp
    qed
  qed
qed

lemma move_vehicle_frame:
  assumes "move_vehicle s v a waited = Inr (s', v')"
  shows "calm s s' \<and> alike v v'"
  using move_vehicle_cases [OF assms] alike_stop(3,4) by auto

lemma limit_step:
  assumes "0 \<le> speed" and "limit_velocity speed x y = (vx, vy)" and "0 \<le> to_i64 (sc_step_ms (si_scenario s))"
  shows "abs (step_delta s vx) + abs (step_delta s vy) \<le> speed * to_i64 (sc_step_ms (si_scenario s)) div 1000"
proof -
  let ?m = "to_i64 (sc_step_ms (si_scenario s))"
  have "abs (step_delta s vx) + abs (step_delta s vy) = abs vx * ?m div 1000 + abs vy * ?m div 1000"
    using assms(3) by (simp add: step_delta_def sdiv_abs abs_mult)
  also have "\<dots> \<le> (abs vx * ?m + abs vy * ?m) div 1000"
    by (simp add: div_add1_eq [of "abs vx * ?m" "abs vy * ?m"])
  also have "\<dots> \<le> speed * ?m div 1000"
    using limit_velocity_bounds [OF assms(1,2)] assms(3)
    by (intro zdiv_mono1) (simp_all add: mult_right_mono flip: distrib_right)
  finally show ?thesis .
qed

lemma blocked_occupied:
  assumes "\<not> reservation_blocked s v p q" and "contested_resource (si_world s) p q = Some R"
  shows "has_reservation s (vh_id v) R (vh_route v) \<and> \<not> occupied s R (vh_id v)"
  using assms by (simp add: reservation_blocked_def)

lemma move_vehicle_spot:
  assumes "move_vehicle s v a waited = Inr (s', v')" and "vehicle_ok w v" and "0 \<le> to_i64 (sc_step_ms (si_scenario s))"
    and "(vh_x v', vh_y v') \<noteq> (vh_x v, vh_y v)"
  shows "let p = spot (vh_x v, vh_y v); q = spot (vh_x v', vh_y v')
    in segment_allowed (si_world s) (vehicle_view v) p q
      \<and> abs (px q - px p) + abs (py q - py p) \<le> vh_speed v * to_i64 (sc_step_ms (si_scenario s)) div 1000
      \<and> (\<forall>R. contested_resource (si_world s) p q = Some R \<longrightarrow>
           has_reservation s (vh_id v) R (vh_route v) \<and> \<not> occupied s R (vh_id v))"
proof -
  obtain vx vy where lv: "limit_velocity (vh_speed v) (aa_vx a) (aa_vy a) = (vx, vy)" by force
  have speed: "0 \<le> vh_speed v" using assms(2) by (simp add: vehicle_ok_def)
  have "\<not> stays v v'" using assms(4) by (auto simp: stays_def stop_def)
  with move_vehicle_cases [OF assms(1)] obtain cost where "goes s v a v' cost" by blast
  then have g: "\<not> (spot (vh_x v, vh_y v) \<noteq> spot (vh_x v', vh_y v')
        \<and> reservation_blocked s v (spot (vh_x v, vh_y v)) (spot (vh_x v', vh_y v')))"
      "segment_allowed (si_world s) (vehicle_view v) (spot (vh_x v, vh_y v)) (spot (vh_x v', vh_y v'))"
      "vh_x v' = vh_x v + step_delta s vx" "vh_y v' = vh_y v + step_delta s vy"
    by (auto simp: goes_def move_ends_def lv Let_def vehicle_spot coordinate_def spot_def)
  have "spot (vh_x v, vh_y v) \<noteq> spot (vh_x v', vh_y v')" using assms(4) by (auto simp: spot_def coordinate_def)
  with g(1) have free: "\<not> reservation_blocked s v (spot (vh_x v, vh_y v)) (spot (vh_x v', vh_y v'))" by blast
  show ?thesis
    using g(2) blocked_occupied [OF free] limit_step [OF speed lv assms(3)]
    by (simp add: Let_def) (simp add: spot_def coordinate_def g(3,4))
qed

subsection \<open>All vehicles\<close>

lemma segment_allowed_spec: "vh_spec u = vh_spec v \<Longrightarrow> segment_allowed w (vehicle_view u) = segment_allowed w (vehicle_view v)"
  by (intro ext) (simp add: segment_allowed_def region_stops_def has_terrain_def vehicle_view_def)

lemma has_reservation_same:
  "si_table s' = si_table s \<Longrightarrow> si_world s' = si_world s \<Longrightarrow> si_tick s' = si_tick s \<Longrightarrow> has_reservation s' = has_reservation s"
  by (intro ext) (simp add: has_reservation_def)

text \<open>The states during the motion phase differ only in positions and in what no frame mentions.\<close>

definition rolling :: "sim \<Rightarrow> sim \<Rightarrow> bool" where
  "rolling s s' \<longleftrightarrow> base s' = base s \<and> setup_of s' = setup_of s \<and> windows s' = windows s"

lemma rolling_trans: "rolling a b \<Longrightarrow> rolling b c \<Longrightarrow> rolling a c"
  by (simp add: rolling_def)

lemma rolling_nth:
  assumes "rolling s s'" and "i < length (si_vehicles s)"
  shows "i < length (si_vehicles s')" "alike (si_vehicles s ! i) (si_vehicles s' ! i)"
proof -
  have m: "map vh_spec (si_vehicles s') = map vh_spec (si_vehicles s)" "map vh_route (si_vehicles s') = map vh_route (si_vehicles s)"
    "map (\<lambda>v. (vh_speed v, vh_active v)) (si_vehicles s') = map (\<lambda>v. (vh_speed v, vh_active v)) (si_vehicles s)"
    using assms(1) by (simp_all add: rolling_def frame_defs)
  show l: "i < length (si_vehicles s')" using m(1) assms(2) by (metis length_map)
  from arg_cong [OF m(1), of "\<lambda>xs. xs ! i"] arg_cong [OF m(2), of "\<lambda>xs. xs ! i"] arg_cong [OF m(3), of "\<lambda>xs. xs ! i"]
  show "alike (si_vehicles s ! i) (si_vehicles s' ! i)" using l assms(2) by (simp add: alike_def)
qed

lemma lawful_move_rolling:
  assumes "rolling s s'" and "i < length (si_vehicles s)" and "lawful_move s' before after i"
  shows "lawful_move s before after i"
proof -
  have "map vh_spec (si_vehicles s') = map vh_spec (si_vehicles s)" using assms(1) by (simp add: rolling_def base_def)
  then have len: "length (si_vehicles s') = length (si_vehicles s)" by (rule map_eq_imp_length_eq)
  have same: "si_world s' = si_world s" "si_table s' = si_table s" "si_tick s' = si_tick s"
    "sc_step_ms (si_scenario s') = sc_step_ms (si_scenario s)"
    using assms(1) by (simp_all add: rolling_def frame_defs)
  let ?v = "si_vehicles s ! i" and ?v' = "si_vehicles s' ! i"
  have v: "vh_spec ?v' = vh_spec ?v" "vh_speed ?v' = vh_speed ?v" "vh_active ?v' = vh_active ?v" "vh_route ?v' = vh_route ?v"
    using rolling_nth(2) [OF assms(1,2)] by (simp_all add: alike_def)
  have "vh_id ?v' = vh_id ?v" using v(1) by (simp add: vh_id_def)
  note v = v this segment_allowed_spec [OF v(1)] has_reservation_same [OF same(2,1,3)]
  have active: "vh_active (si_vehicles s' ! j) = vh_active (si_vehicles s ! j)" if "j < length (si_vehicles s)" for j
    using rolling_nth(2) [OF assms(1) that] by (simp add: alike_def)
  show ?thesis
    using assms(3) unfolding lawful_move_def Let_def len same v by (auto simp: active)
qed

lemma put_vehicle_frame:
  assumes "calm s s'" and "index < length (si_vehicles s)" and "alike (si_vehicles s ! index) v"
  shows "rolling s (put_vehicle index v s')" "spots (put_vehicle index v s') = (spots s)[index := (vh_x v, vh_y v)]"
    "si_tasks (put_vehicle index v s') = si_tasks s"
proof -
  have same: "map f ((si_vehicles s)[index := v]) = map f (si_vehicles s)" if "f v = f (si_vehicles s ! index)" for f :: "vehicle \<Rightarrow> 'b"
    using that assms(2) by (simp add: map_update list_update_same_conv)
  have n: "si_vehicles s' = si_vehicles s" using assms(1) by (simp add: calm_def)
  show "spots (put_vehicle index v s') = (spots s)[index := (vh_x v, vh_y v)]"
    by (simp add: spots_def put_vehicle_def n map_update)
  show "si_tasks (put_vehicle index v s') = si_tasks s" using assms(1) by (simp add: put_vehicle_def calm_def)
  show "rolling s (put_vehicle index v s')"
    using assms(1,3) same [of vh_spec] same [of vh_route] same [of "\<lambda>v. (vh_speed v, vh_active v)"]
    by (simp add: rolling_def calm_def frame_defs put_vehicle_def alike_def)
qed

lemma occupied_spot:
  assumes "\<not> occupied s R (vh_id (si_vehicles s ! i))" and "sim_ok ids s" and "i < length ids"
    and "j < length ids" and "j \<noteq> i" and "vh_active (si_vehicles s ! j)"
  shows "contested_resource (si_world s) (spot (spots s ! j)) (spot (spots s ! j)) \<noteq> Some R"
proof -
  have len: "length (si_vehicles s) = length ids" and "strictly_sorted vh_id (si_vehicles s)"
    using assms(2) by (auto simp: sim_ok_def vehicles_ok_def)
  then have "vh_id (si_vehicles s ! j) \<noteq> vh_id (si_vehicles s ! i)"
    using assms(3-5) strictly_sorted_distinct [of vh_id "si_vehicles s"] by (auto simp: distinct_conv_nth)
  moreover have "si_vehicles s ! j \<in> set (si_vehicles s)" using assms(4) len by simp
  ultimately show ?thesis
    using assms(1,4,6) len by (auto simp: occupied_def list_ex_iff vehicle_spot spots_def)
qed

text \<open>The action of one vehicle moves no other, and moves its own lawfully.\<close>

lemma act_vehicle_motion:
  assumes "sim_ok ids s" and "index < length ids" and "act_vehicle (s, messages) (index, e) = Inr (s', messages')"
    and "0 \<le> to_i64 (sc_step_ms (si_scenario s))"
  shows "rolling s s' \<and> si_tasks s' = si_tasks s \<and> (\<forall>j. j \<noteq> index \<longrightarrow> spots s' ! j = spots s ! j)
    \<and> (spots s' ! index \<noteq> spots s ! index \<longrightarrow> lawful_move s (spots s) (spots s') index)"
proof -
  let ?a = "en_action e"
  define w where "w = si_vehicles s ! index"
  define v where "v = with_mode w ?a"
  define s1 where "s1 = prepared s index v ?a"
  have len: "index < length (si_vehicles s)" using assms(1,2) by (simp add: sim_ok_def vehicles_ok_def)
  have v: "alike w v" "vh_x v = vh_x w" "vh_y v = vh_y w" "vh_id v = vh_id w"
    by (simp_all add: v_def with_mode_def alike_def vh_id_def)
  have spot_w: "spots s ! index = (vh_x w, vh_y w)" using len by (simp add: spots_def w_def)
  have c1: "calm s s1" by (simp add: s1_def calm_prepared)
  have others: "spots t = (spots s)[index := p] \<Longrightarrow> \<forall>j. j \<noteq> index \<longrightarrow> spots t ! j = spots s ! j" for t p by simp
  note run = assms(3) [unfolded act_vehicle_prepared Let_def, folded w_def, folded v_def, folded s1_def]
  show ?thesis
  proof (cases "vh_active v")
    case False
    with run have s': "s' = put_vehicle index (stop v) s1" by simp
    have "alike w (stop v)" using v(1) alike_stop(1) alike_trans by blast
    from put_vehicle_frame [OF c1 len this [unfolded w_def]] s' others spot_w v(2,3) len show ?thesis
      by (simp add: stop_def spots_def)
  next
    case True
    with run obtain s2 v2 s3 v3 where m: "move_vehicle s1 v ?a (vh_mode v = BM_Waiting) = Inr (s2, v2)"
      and c: "charge_vehicle s2 v2 ?a = Inr (s3, v3)" and s': "s' = put_vehicle index v3 s3" by auto
    note fm = move_vehicle_frame [OF m] and fc = charge_vehicle_frame [OF c]
    have c3: "calm s s3" using c1 fm fc calm_trans by blast
    have a3: "alike w v3" using v(1) fm fc alike_trans by blast
    note put = put_vehicle_frame [OF c3 len a3 [unfolded w_def]]
    have s'_spot: "spots s' ! index = (vh_x v2, vh_y v2)" using put(2) fc len by (simp add: s' spots_def)
    have "lawful_move s (spots s) (spots s') index" if moved: "spots s' ! index \<noteq> spots s ! index"
    proof -
      have ok: "vehicle_ok (si_world s) v"
        using assms(1) len by (simp add: v_def w_def with_mode_ok sim_ok_def vehicles_ok_def list_all_length)
      have ms: "sc_step_ms (si_scenario s1) = sc_step_ms (si_scenario s)" using c1 by (simp add: calm_def base_def)
      have same: "si_world s1 = si_world s" "si_table s1 = si_table s" "si_tick s1 = si_tick s"
        using c1 by (simp_all add: calm_def base_def)
      have occ: "occupied s1 = occupied s"
        using c1 by (intro ext) (simp add: calm_def occupied_def)
      have "(vh_x v2, vh_y v2) \<noteq> (vh_x v, vh_y v)" using moved s'_spot spot_w v(2,3) by simp
      from move_vehicle_spot [OF m ok _ this, unfolded ms, OF assms(4)]
      have "segment_allowed (si_world s) (vehicle_view w) (spot (spots s ! index)) (spot (spots s' ! index))"
        "abs (px (spot (spots s' ! index)) - px (spot (spots s ! index))) + abs (py (spot (spots s' ! index)) - py (spot (spots s ! index)))
          \<le> vh_speed w * to_i64 (sc_step_ms (si_scenario s)) div 1000"
        "\<forall>R. contested_resource (si_world s) (spot (spots s ! index)) (spot (spots s' ! index)) = Some R \<longrightarrow>
           has_reservation s (vh_id w) R (vh_route w) \<and> \<not> occupied s R (vh_id w)"
        using v by (simp_all add: Let_def same occ has_reservation_same [OF same(2,1,3)] s'_spot spot_w alike_def
            segment_allowed_spec [of v w])
      moreover have "vh_active w" using True v(1) by (simp add: alike_def)
      moreover have "\<forall>j < length (si_vehicles s). j \<noteq> index \<and> vh_active (si_vehicles s ! j) \<and> spots s' ! j = spots s ! j
          \<longrightarrow> contested_resource (si_world s) (spot (spots s' ! j)) (spot (spots s' ! j)) \<noteq> Some R"
        if "\<not> occupied s R (vh_id w)" for R
        using occupied_spot [OF that [unfolded w_def] assms(1,2)] assms(1) by (auto simp: sim_ok_def vehicles_ok_def)
      ultimately show ?thesis by (simp add: lawful_move_def Let_def w_def [symmetric])
    qed
    with put others show ?thesis by (simp add: s')
  qed
qed

lemma spots_length: "rolling s s' \<Longrightarrow> length (spots s') = length (spots s)"
  unfolding rolling_def base_def spots_def using map_eq_imp_length_eq by fastforce

text \<open>A move that was lawful when it was made is lawful against the positions at the end of the phase: a vehicle that
  ends where it began has not moved in between.\<close>

lemma lawful_move_after:
  assumes "lawful_move s before after i" and "after' ! i = after ! i"
    and "\<And>j. j < length (si_vehicles s) \<Longrightarrow> j \<noteq> i \<Longrightarrow> after' ! j = before' ! j \<Longrightarrow> after ! j = before ! j \<and> after' ! j = after ! j"
    and "before' ! i = before ! i"
  shows "lawful_move s before' after' i"
proof -
  have "\<forall>j < length (si_vehicles s). j \<noteq> i \<and> vh_active (si_vehicles s ! j) \<and> after' ! j = before' ! j
      \<longrightarrow> contested_resource (si_world s) (spot (after' ! j)) (spot (after' ! j)) \<noteq> Some R"
    if "\<forall>j < length (si_vehicles s). j \<noteq> i \<and> vh_active (si_vehicles s ! j) \<and> after ! j = before ! j
      \<longrightarrow> contested_resource (si_world s) (spot (after ! j)) (spot (after ! j)) \<noteq> Some R" for R
    using that assms(3) by metis
  with assms(1) show ?thesis unfolding lawful_move_def Let_def assms(2,4) by blast
qed

lemma act_loop_motion:
  "foldR act_vehicle (s, messages) (enumerate k es) = Inr (s', messages') \<Longrightarrow> sim_ok ids s \<Longrightarrow> k + length es = length ids \<Longrightarrow>
   0 \<le> to_i64 (sc_step_ms (si_scenario s)) \<Longrightarrow>
   rolling s s' \<and> si_tasks s' = si_tasks s \<and> (\<forall>i < k. spots s' ! i = spots s ! i)
   \<and> (\<forall>i < length ids. spots s' ! i \<noteq> spots s ! i \<longrightarrow> lawful_move s (spots s) (spots s') i)"
proof (induction es arbitrary: s k messages)
  case Nil
  then show ?case by (simp add: rolling_def)
next
  case (Cons e es)
  from Cons.prems(1) obtain s1 messages1 where one: "act_vehicle (s, messages) (k, e) = Inr (s1, messages1)"
    and rest: "foldR act_vehicle (s1, messages1) (enumerate (Suc k) es) = Inr (s', messages')"
    by (auto simp: split_paired_all)
  have k: "k < length ids" using Cons.prems(3) by simp
  have s1: "sim_ok ids s1" by (rule act_vehicle_ok [OF Cons.prems(2) k one])
  from act_vehicle_motion [OF Cons.prems(2) k one Cons.prems(4)] have r1: "rolling s s1" and t1: "si_tasks s1 = si_tasks s"
    and other: "\<And>j. j \<noteq> k \<Longrightarrow> spots s1 ! j = spots s ! j"
    and own: "spots s1 ! k \<noteq> spots s ! k \<Longrightarrow> lawful_move s (spots s) (spots s1) k" by blast+
  have "0 \<le> to_i64 (sc_step_ms (si_scenario s1))" using Cons.prems(4) r1 by (simp add: rolling_def base_def)
  from Cons.IH [OF rest s1 _ this] Cons.prems(3) have r2: "rolling s1 s'" and t2: "si_tasks s' = si_tasks s1" and kept: "\<And>i. i \<le> k \<Longrightarrow> spots s' ! i = spots s1 ! i"
    and later: "\<And>i. i < length ids \<Longrightarrow> spots s' ! i \<noteq> spots s1 ! i \<Longrightarrow> lawful_move s1 (spots s1) (spots s') i" by auto
  have len: "length (si_vehicles s) = length ids" using Cons.prems(2) by (simp add: sim_ok_def vehicles_ok_def)
  have "lawful_move s (spots s) (spots s') i" if i: "i < length ids" and moved: "spots s' ! i \<noteq> spots s ! i" for i
  proof (cases "i = k")
    case True
    with moved kept own have own: "lawful_move s (spots s) (spots s1) k" by simp
    show ?thesis unfolding True
    proof (rule lawful_move_after [OF own])
      show "spots s' ! k = spots s1 ! k" by (simp add: kept)
      fix j assume "j \<noteq> k" "spots s' ! j = spots s ! j"
      then show "spots s1 ! j = spots s ! j \<and> spots s' ! j = spots s1 ! j" by (simp add: other)
    qed simp
  next
    case False
    with moved other have "spots s' ! i \<noteq> spots s1 ! i" by simp
    from later [OF i this] have l: "lawful_move s (spots s1) (spots s') i"
      using lawful_move_rolling [OF r1] i len by simp
    show ?thesis
    proof (rule lawful_move_after [OF l])
      show "spots s ! i = spots s1 ! i" using other [OF False] by simp
      fix j assume "j \<noteq> i" "spots s' ! j = spots s ! j"
      then show "spots s' ! j = spots s1 ! j \<and> spots s' ! j = spots s' ! j" using kept [of k] other by (cases "j = k") auto
    qed simp
  qed
  with r1 r2 t1 t2 kept other show ?case by (auto intro: rolling_trans)
qed

subsection \<open>The rest of a step\<close>

lemma mapR_map: "mapR f xs = Inr ys \<Longrightarrow> length ys = length xs"
  by (induction xs arbitrary: ys) auto

lemma exchange_messages_quiet: "exchange_messages ser st outs = Inr st' \<Longrightarrow> quiet (fst st) (fst st')"
  by (cases st) (auto simp: exchange_messages_def base_def intro!: quiet_same)

lemma update_failure_monitors_quiet: "update_failure_monitors s = Inr s' \<Longrightarrow> quiet s s'"
  by (auto simp: update_failure_monitors_def base_def intro!: quiet_same)

lemma update_convergence_quiet:
  assumes "update_convergence ser s = Inr s'"
  shows "quiet s s'"
proof -
  have "base s' = base s \<and> si_vehicles s' = si_vehicles s \<and> si_tasks s' = si_tasks s \<and> si_world s' = si_world s
    \<and> si_table s' = si_table s"
    using assms unfolding update_convergence_def Let_def bindR_eq_Inr sum.inject
    apply (elim exE conjE)
    apply (drule sym [of _ s'])
    apply (simp add: base_def split: if_split)
    done
  then show ?thesis by (intro quiet_same) simp_all
qed

lemma quiet_books [simp]: "quiet s0 (s\<lparr>si_energy := n\<rparr>) = quiet s0 s"
  by (simp add: quiet_def parked_def eventful_def finished_kept_def frame_defs)

lemma work_task_quiet:
  assumes "sim_ok ids s" and t: "lookup_task s (tk_id t) = Inr t" "tk_status t = TS_Pending" and v: "lookup_vehicle s (vh_id v) = Inr v"
  shows "quiet s (fst (work_task acts s t v))"
proof -
  have put: "quiet s (set_vehicle u (set_task w s'))"
    if "quiet s s'" "lookup_task s' (tk_id t) = Inr t" "lookup_vehicle s' (vh_id v) = Inr v" "tk_spec w = tk_spec t"
      "vh_spec u = vh_spec v" "vh_x u = vh_x v" "vh_y u = vh_y v" "vh_speed u = vh_speed v" "vh_active u = vh_active v"
      "vh_route u = vh_route v" for s' w u
  proof -
    have id: "tk_id w = tk_id t" "vh_id u = vh_id v" using that by (simp_all add: tk_id_def vh_id_def)
    have "quiet s' (set_task w s')" using that t(2) by (intro set_task_quiet) (simp_all add: id)
    moreover have "quiet (set_task w s') (set_vehicle u (set_task w s'))"
      using that by (intro set_vehicle_quiet) (simp_all add: id frame_simps)
    ultimately show ?thesis using that(1) quiet_trans by blast
  qed
  have progress: "quiet s (set_task (t\<lparr>tk_progress := n\<rparr>) s)" for n
    using t by (intro set_task_quiet) (simp_all add: tk_id_def)
  show ?thesis
  proof (cases "tp_service (tk_spec t) = 0")
    case True
    have "quiet s (set_vehicle (deliver t v) (set_task (complete (si_tick s) t) s))"
      by (rule put) (use t v in \<open>simp_all add: deliver_def complete_def\<close>)
    with True show ?thesis by (simp add: work_task_def Let_def)
  next
    case serve: False
    let ?capable = "vh_active v \<and> vh_capable v (tp_cap (tk_spec t)) \<and> vh_payload v \<ge> tp_payload (tk_spec t)"
    let ?distance = "abs (vh_x v - px (tp_target (tk_spec t))) + abs (vh_y v - py (tp_target (tk_spec t)))"
    let ?stop = "\<not> ?capable \<or> ?distance > tp_radius (tk_spec t) \<or> \<not> reports_work acts t
                 \<or> vh_energy v < tp_service_energy (tk_spec t) + service_reserve v"
    show ?thesis
    proof (cases ?stop)
      case True
      then have "work_task acts s t v = (set_task (t\<lparr>tk_progress := 0\<rparr>) s, False)"
        using serve unfolding work_task_def Let_def by (simp only: if_True if_False)
      with progress show ?thesis by simp
    next
      case False
      define v1 where "v1 = v\<lparr>vh_energy := vh_energy v - tp_service_energy (tk_spec t)\<rparr>"
      define t1 where "t1 = t\<lparr>tk_progress := tk_progress t + 1\<rparr>"
      define s1 where "s1 = (record_energy v1 s)\<lparr>si_energy := si_energy s + to_u64 (tp_service_energy (tk_spec t))\<rparr>"
      have run: "work_task acts s t v = (if tk_progress t1 \<ge> tp_service (tk_spec t)
              then (set_vehicle (deliver t v1) (set_task (complete (si_tick s) t1) s1), True)
              else (set_vehicle v1 (set_task t1 s1), False))"
        using serve False unfolding work_task_def Let_def v1_def t1_def s1_def by (simp only: if_False)
      have s1: "quiet s s1" "lookup_task s1 (tk_id t) = Inr t" "lookup_vehicle s1 (vh_id v) = Inr v"
        using record_energy_quiet [of s v1] t v by (simp_all add: s1_def lookup_task_def lookup_vehicle_def record_energy_def)
      have "quiet s (set_vehicle (deliver t v1) (set_task (complete (si_tick s) t1) s1))"
        "quiet s (set_vehicle v1 (set_task t1 s1))"
        by (rule put [OF s1]; simp add: deliver_def complete_def v1_def t1_def)+
      then show ?thesis by (simp add: run)
    qed
  qed
qed

lemma lookup_at: "sim_ok ids s \<Longrightarrow> t \<in> set (si_tasks s) \<Longrightarrow> lookup_task s (tk_id t) = Inr t"
  by (simp add: lookup_task_iff)

lemma update_task_quiet:
  assumes "sim_ok ids (fst st)" and "index < length (si_tasks (fst st))" and "update_task acts st index = Inr st'"
  shows "quiet (fst st) (fst st')"
proof -
  obtain s changed where st: "st = (s, changed)" by (cases st)
  define t where "t = si_tasks s ! index"
  have s: "sim_ok ids s" and t: "t \<in> set (si_tasks s)" using assms(1,2) by (simp_all add: st t_def)
  note look = lookup_at [OF s t]
  note run = assms(3) [unfolded st update_task_def prod.case Let_def, folded t_def]
  show ?thesis
  proof (cases "\<not> tk_released t \<or> tk_status t \<noteq> TS_Pending")
    case True
    from run [unfolded if_P [OF True]] show ?thesis by (auto simp: st)
  next
    case live: False
    then have pending: "tk_status t = TS_Pending" by simp
    note run = run [unfolded if_not_P [OF live]]
    show ?thesis
    proof (cases "si_tick s > tp_deadline (tk_spec t)")
      case True
      have "quiet s (set_task (t\<lparr>tk_status := TS_Missed, tk_progress := 0\<rparr>) s)"
        using look pending by (intro set_task_quiet) (simp_all add: tk_id_def)
      with run [unfolded if_P [OF True]] show ?thesis by (auto simp: st)
    next
      case False
      note run = run [unfolded if_not_P [OF False]]
      show ?thesis
      proof (cases "tk_agent t = []")
        case True
        from run [unfolded if_P [OF True]] show ?thesis by (auto simp: st)
      next
        case False
        from run [unfolded if_not_P [OF False] bindR_eq_Inr] obtain v where v: "lookup_vehicle s (tk_agent t) = Inr v"
          and r: "(case work_task acts s t v of (s', c) \<Rightarrow> Inr (s', changed \<or> c)) = (Inr st' :: (sim \<times> bool) result)" by (elim exE conjE) (rule that)
        from r have "fst st' = fst (work_task acts s t v)" by (cases "work_task acts s t v") auto
        with work_task_quiet [OF s look pending] v lookup_id(1) [OF v] show ?thesis by (simp add: st)
      qed
    qed
  qed
qed

lemma update_tasks_quiet:
  assumes "sim_ok ids s" and "update_tasks acts s = Inr s'"
  shows "quiet s s'"
proof -
  from assms(2) obtain st where run: "foldR (update_task acts) (s, False) [0..<length (si_tasks s)] = Inr st"
    and s': "s' = (if snd st then begin_convergence (fst st) else fst st)"
    unfolding update_tasks_def bindR_eq_Inr by (auto split: prod.splits)
  let ?P = "\<lambda>st. quiet s (fst st) \<and> sim_ok ids (fst st) \<and> length (si_tasks (fst st)) = length (si_tasks s)"
  have "?P st"
  proof (rule foldR_invariant [OF run, where P = ?P])
    show "?P (s, False)" by (simp add: assms(1))
    fix st index st' assume "index \<in> set [0..<length (si_tasks s)]" and p: "?P st" and r: "update_task acts st index = Inr st'"
    then have i: "index < length (si_tasks (fst st))" by simp
    from p have ok: "sim_ok ids (fst st)" and q: "quiet s (fst st)" by simp_all
    from update_task_ok [OF ok i r] quiet_trans [OF q update_task_quiet [OF ok i r]] p show "?P st'" by simp
  qed
  then show ?thesis using begin_convergence_quiet quiet_trans by (auto simp: s')
qed

text \<open>A whole step: what stays, and where the vehicles may go.\<close>

lemma apply_actions_motion:
  assumes ok: "sim_ok ids s" and len: "length (ab_actions acts) = length ids"
    and run: "apply_actions ser acts outs fence s = Inr st" and ms: "0 \<le> to_i64 (sc_step_ms (si_scenario s))"
  shows "base (fst st) = base s \<and> setup_of (fst st) = setup_of s \<and> finished_kept s (fst st)
    \<and> (\<forall>i < length ids. spots (fst st) ! i \<noteq> spots s ! i \<longrightarrow> lawful_move (fst st) (spots s) (spots (fst st)) i)"
proof -
  from run [unfolded apply_actions_def bindR_eq_Inr] obtain s1 s2 s3 s4 st5 where
    runs: "apply_failure_detections acts s = Inr s1" "apply_commits acts fence s1 = Inr s2"
      "apply_rejections acts s2 = Inr s3" "apply_reservations acts fence s3 = Inr s4" "act_all acts s4 = Inr st5"
      "exchange_messages ser st5 outs = Inr st" by blast
  have s1: "sim_ok ids s1" by (rule apply_failure_detections_ok [OF ok runs(1)])
  have s2: "sim_ok ids s2" by (rule apply_commits_ok [OF s1 runs(2)])
  have s3: "sim_ok ids s3" by (rule apply_rejections_ok [OF s2 runs(3)])
  have s4: "sim_ok ids s4" by (rule apply_reservations_ok [OF s3 runs(4)])
  have p: "parked s s4"
    using apply_failure_detections_parked [OF runs(1)] apply_commits_parked [OF s1 runs(2)]
      apply_rejections_parked [OF runs(3)] apply_reservations_parked [OF runs(4)] parked_trans by blast
  then have "0 \<le> to_i64 (sc_step_ms (si_scenario s4))" using ms by (simp add: parked_def eventful_def base_def)
  with act_loop_motion [of s4 "[]" 0 "ab_actions acts" "fst st5" "snd st5" ids] runs(5) s4 len
  have r: "rolling s4 (fst st5)" and t: "si_tasks (fst st5) = si_tasks s4"
    and m: "\<And>i. i < length ids \<Longrightarrow> spots (fst st5) ! i \<noteq> spots s4 ! i \<Longrightarrow> lawful_move s4 (spots s4) (spots (fst st5)) i"
    by (simp_all add: act_all_def)
  have q: "quiet (fst st5) (fst st)" by (rule exchange_messages_quiet [OF runs(6)])
  have undo: "rolling (fst st) s4"
    using r q by (simp add: rolling_def quiet_def parked_def eventful_def)
  have len4: "length (si_vehicles (fst st)) = length ids"
    using exchange_messages_ok [OF act_all_ok [OF s4 len runs(5)] runs(6)] by (simp add: sim_ok_def vehicles_ok_def)
  have same: "spots s4 = spots s" "spots (fst st) = spots (fst st5)"
    using p q by (simp_all add: quiet_def parked_def eventful_def)
  have "finished_kept s (fst st)"
    using p q finished_kept_same [OF t] by (auto simp: quiet_def parked_def eventful_def intro: finished_kept_trans)
  moreover have "lawful_move (fst st) (spots s) (spots (fst st)) i"
    if "i < length ids" "spots (fst st) ! i \<noteq> spots s ! i" for i
    using lawful_move_rolling [OF undo, of i] m [of i] that len4 by (simp add: same)
  moreover have "base (fst st) = base s" "setup_of (fst st) = setup_of s"
    using p q r by (simp_all add: quiet_def parked_def eventful_def rolling_def)
  ultimately show ?thesis by blast
qed

lemma lawful_move_hashes [simp]: "lawful_move (s\<lparr>si_tick_hashes := h\<rparr>) = lawful_move s"
  "lawful_move (s\<lparr>si_hash := x\<rparr>) = lawful_move s"
  by (intro ext, simp add: lawful_move_def has_reservation_def Let_def)+

text \<open>The whole step, but for the hashes it records at the end.\<close>

lemma run_phases_motion:
  assumes ok: "sim_ok ids s" and len: "length (ab_actions acts) = length ids"
    and run: "run_phases ser acts fence (s, outs) = Inr (s', outs')" and ms: "0 \<le> to_i64 (sc_step_ms (si_scenario s))"
  shows "base (s'\<lparr>si_tick := si_tick s\<rparr>) = base s \<and> si_tick s' = si_tick s + 1 \<and> finished_kept s s'
    \<and> (\<forall>i < length ids. spots s' ! i \<noteq> spots s ! i
         \<longrightarrow> lawful_move (s'\<lparr>si_tick := si_tick s\<rparr>) (spots s) (spots s') i)"
proof -
  from run [unfolded run_phases_def prod.case] obtain st2 s3 s5 where
    two: "apply_actions ser acts outs fence s = Inr st2" and three: "update_failure_monitors (fst st2) = Inr s3" and
    five: "update_tasks acts (s3\<lparr>si_outcomes := sort_key outcome_key (snd st2), si_tick := si_tick s3 + 1\<rparr>) = Inr s5" and
    six: "update_convergence ser s5 = Inr s'"
    by (auto simp: Let_def split: prod.splits)
  let ?s2 = "fst st2" and ?s4 = "s3\<lparr>si_outcomes := sort_key outcome_key (snd st2), si_tick := si_tick s3 + 1\<rparr>"
  note m = apply_actions_motion [OF ok len two ms]
  have s2: "sim_ok ids ?s2" by (rule apply_actions_ok [OF ok len two])
  then have s3: "sim_ok ids s3" using three by (rule update_failure_monitors_ok)
  have q3: "quiet ?s2 s3" by (rule update_failure_monitors_quiet [OF three])
  have q5: "quiet ?s4 s'"
    using update_tasks_quiet [OF _ five, of ids] update_convergence_quiet [OF six] s3 quiet_trans by simp
  have tick: "si_tick s' = si_tick s + 1"
    using q5 q3 m by (simp add: quiet_def parked_def eventful_def base_def)
  have spots: "spots s' = spots ?s2" "finished_kept ?s2 s'"
    using q5 q3 by (auto simp: quiet_def parked_def eventful_def spots_def intro: finished_kept_trans finished_kept_same)
      (auto simp: finished_kept_def)
  have undo: "rolling (s'\<lparr>si_tick := si_tick s\<rparr>) ?s2"
    using q5 q3 m by (simp add: rolling_def quiet_def parked_def eventful_def base_def setup_of_def windows_def)
  have len': "length (si_vehicles s') = length ids"
    using run_phases_ok [of ids "(s, outs)"] ok len run by (simp add: sim_ok_def vehicles_ok_def)
  have "lawful_move (s'\<lparr>si_tick := si_tick s\<rparr>) (spots s) (spots s') i"
    if "i < length ids" "spots s' ! i \<noteq> spots s ! i" for i
    using lawful_move_rolling [OF undo, of i] m that len' by (simp add: spots)
  moreover have "base (s'\<lparr>si_tick := si_tick s\<rparr>) = base s" using undo m by (simp add: rolling_def)
  ultimately show ?thesis using tick spots(2) m by (blast intro: finished_kept_trans)
qed

end
