(* ===== verification/Sim_Trace.thy ===== *)
theory Sim_Trace
  imports Sim_Motion
begin

text \<open>
  Whole steps and runs: what a step leaves alone and how a run counts its ticks, and the replay of a recorded step,
  for which canonical actions must be canonical again and recorded events must resolve as they did.
\<close>

subsection \<open>Steps and runs\<close>

lemma step_frame:
  assumes ok: "sim_ok ids s" and run: "step_internal ser actions recorded s = Inr (s', out)"
    and ms: "0 \<le> to_i64 (sc_step_ms (si_scenario s))"
  shows "base (s'\<lparr>si_tick := si_tick s, si_tick_hashes := si_tick_hashes s\<rparr>) = base s \<and> si_tick s' = si_tick s + 1
    \<and> si_tick_hashes s' = si_tick_hashes s @ [si_hash s'] \<and> finished_kept s s'
    \<and> (\<forall>i < length ids. spots s' ! i \<noteq> spots s ! i
         \<longrightarrow> lawful_move (s'\<lparr>si_tick := si_tick s\<rparr>) (spots s) (spots s') i)"
  using run
proof (cases rule: step_internal_phases)
  case (1 acts applied s1 outs s2 sorted_outs batch)
  have len: "length (ab_actions acts) = length ids"
    using canonicalize_length [OF 1(2)] ok by (simp add: sim_ok_def vehicles_ok_def)
  have s1: "sim_ok ids s1" by (rule apply_events_ok [OF 1(3) ok])
  have e: "eventful s s1" by (rule apply_events_eventful [OF 1(3) ok])
  then have ms1: "0 \<le> to_i64 (sc_step_ms (si_scenario s1))" using ms by (simp add: eventful_def base_def)
  note m = run_phases_motion [OF s1 len 1(4) ms1]
  have h: "si_tick s1 = si_tick s" "spots s1 = spots s" "base s1 = base s" "finished_kept s s1"
    using e by (simp_all add: eventful_def base_def)
  have s': "spots s' = spots s2" "finished_kept s2 s'" "si_tick s' = si_tick s2"
    by (simp_all add: 1(5) spots_def finished_kept_def)
  have b: "base (s'\<lparr>si_tick := si_tick s, si_tick_hashes := si_tick_hashes s\<rparr>) = base s"
    using m h by (simp add: 1(5) base_def)
  have t: "si_tick_hashes s' = si_tick_hashes s @ [si_hash s']"
    using m h by (simp add: 1(5) base_def)
  have l: "lawful_move (s'\<lparr>si_tick := si_tick s\<rparr>) = lawful_move (s2\<lparr>si_tick := si_tick s\<rparr>)"
    by (intro ext) (simp add: 1(5) lawful_move_def has_reservation_def Let_def)
  show ?thesis using b t m h s' by (auto simp: l intro: finished_kept_trans)
qed

text \<open>What a run never changes of the scenario, and how it counts its ticks.\<close>

definition run_ok :: "scenario \<Rightarrow> sim \<Rightarrow> bool" where
  "run_ok sc s \<longleftrightarrow> sc_step_ms (si_scenario s) = sc_step_ms sc \<and> sc_max_ticks (si_scenario s) = sc_max_ticks sc
     \<and> map vh_spec (si_vehicles s) = sc_vehicles sc \<and> map tk_spec (si_tasks s) = sc_tasks sc
     \<and> length (si_tick_hashes s) = unat (si_tick s) \<and> si_tick s \<le> sc_max_ticks sc"

lemma timing_ok:
  assumes "validate_scenario sc = Inr u"
  shows "0 \<le> to_i64 (sc_step_ms sc)" and "sc_max_ticks sc \<le> max_ticks"
proof -
  have "sc_step_ms sc \<le> max_step_ms" and m: "sc_max_ticks sc \<le> max_ticks"
    using validate_checks(1) [OF assms] by (auto simp: bad_world_def Let_def)
  then have "uint (sc_step_ms sc) \<le> 60000" by (simp add: max_step_ms_def word_le_def)
  then show "0 \<le> to_i64 (sc_step_ms sc)" by (simp add: to_i64_def sint_small)
  show "sc_max_ticks sc \<le> max_ticks" by (rule m)
qed

lemma new_simulator_run:
  assumes "new_simulator ser raw = Inr s"
  shows "run_ok (normalize_scenario raw) s" and "\<exists>u. validate_scenario (normalize_scenario raw) = Inr u"
proof -
  from assms [unfolded new_simulator_def build_sim_def bindR_eq_Inr Let_def] obtain n n' u s0 where
    valid: "validate_scenario (normalize_scenario raw) = Inr u"
    and s0: "s0 = begin_convergence ((populate (normalize_scenario raw) n)\<lparr>si_net := n'\<rparr>)
      \<or> s0 = (populate (normalize_scenario raw) n)\<lparr>si_net := n'\<rparr>"
    and s: "s = s0\<lparr>si_hash := compute_state_hash ser s0\<rparr>"
    by (auto split: if_split_asm)
  then show "\<exists>u. validate_scenario (normalize_scenario raw) = Inr u" by blast
  have "run_ok (normalize_scenario raw) s0"
    using s0 by (auto simp: populate_eq [OF valid] run_ok_def begin_convergence_def blank_sim_def comp_def
        new_vehicle_def new_task_def)
  then show "run_ok (normalize_scenario raw) s" by (simp add: s run_ok_def)
qed

lemma new_simulator_tick: "new_simulator ser raw = Inr s \<Longrightarrow> si_tick s = 0"
  by (auto simp: new_simulator_def build_sim_def populate_eq begin_convergence_def blank_sim_def Let_def split: if_split_asm)

lemma not_finished: "\<not> finished s \<Longrightarrow> si_tick s < sc_max_ticks (si_scenario s)"
  by (auto simp: finished_def)

lemma step_run:
  assumes "run_ok sc s" and "sim_ok ids s" and "step_internal ser actions recorded s = Inr (s', out)" and "0 \<le> to_i64 (sc_step_ms sc)"
  shows "run_ok sc s'"
proof -
  have ms: "0 \<le> to_i64 (sc_step_ms (si_scenario s))" using assms(1,4) by (simp add: run_ok_def)
  from assms(3) have "\<not> finished s" by (cases rule: step_internal_phases)
  then have less: "si_tick s < sc_max_ticks sc" using not_finished assms(1) by (metis run_ok_def)
  then have tick: "unat (si_tick s + 1) = unat (si_tick s) + 1"
    using unsigned_less [of "sc_max_ticks sc", where 'a = nat] by (simp add: unat_plus_if' word_less_nat_alt)
  with less have "si_tick s + 1 \<le> sc_max_ticks sc" by (simp add: word_le_nat_alt word_less_nat_alt)
  with tick step_frame [OF assms(2,3) ms] assms(1) show ?thesis by (auto simp: run_ok_def base_def)
qed

lemma reachable_run:
  "reachable ser raw s \<Longrightarrow> run_ok (normalize_scenario raw) s \<and> (\<exists>u. validate_scenario (normalize_scenario raw) = Inr u)"
proof (induction rule: reachable.induct)
  case (start s)
  then show ?case using new_simulator_run by blast
next
  case (another s actions recorded s' out)
  with step_run [OF _ reachable_ok] timing_ok(1) show ?case by blast
qed

text \<open>A run: one live step per batch of actions.\<close>

definition run_steps :: "serializer \<Rightarrow> action_batch list \<Rightarrow> sim \<Rightarrow> sim result" where
  "run_steps ser batches s = foldR (\<lambda>s acts. bindR (step ser acts s) (\<lambda>(s', out). Inr s')) s batches"

lemma run_steps_simps [simp]:
  "run_steps ser [] s = Inr s"
  "run_steps ser (acts # batches) s = bindR (step ser acts s) (\<lambda>(s', out). run_steps ser batches s')"
proof -
  have "bindR (bindR x (\<lambda>(s', out). Inr s')) f = bindR x (\<lambda>(s', out). f s')" for x :: "(sim \<times> step_outcome) result" and f
    by (cases x) auto
  then show "run_steps ser (acts # batches) s = bindR (step ser acts s) (\<lambda>(s', out). run_steps ser batches s')"
    by (simp add: run_steps_def)
qed (simp add: run_steps_def)

lemma run_steps_reachable:
  "run_steps ser batches s = Inr s' \<Longrightarrow> reachable ser raw s \<Longrightarrow> reachable ser raw s'"
  by (induction batches arbitrary: s) (auto simp: step_def dest: reachable.another)

lemma reachable_step:
  assumes "reachable ser raw s" and "step_internal ser actions recorded s = Inr (s', out)"
  shows "si_tick s' = si_tick s + 1" "finished_kept s s'" "unat (si_tick s') = unat (si_tick s) + 1"
proof -
  have ms: "0 \<le> to_i64 (sc_step_ms (si_scenario s))"
    using reachable_run [OF assms(1)] timing_ok(1) by (auto simp: run_ok_def)
  note f = step_frame [OF reachable_ok [OF assms(1)] assms(2) ms]
  then have h: "si_tick_hashes s' = si_tick_hashes s @ [si_hash s']" by blast
  from f show "si_tick s' = si_tick s + 1" "finished_kept s s'" by blast+
  show "unat (si_tick s') = unat (si_tick s) + 1"
    using reachable_run [OF assms(1)] reachable_run [OF reachable.another [OF assms]] h by (auto simp: run_ok_def)
qed

lemma run_steps_kept: "run_steps ser batches s = Inr s' \<Longrightarrow> reachable ser raw s \<Longrightarrow> finished_kept s s'"
proof (induction batches arbitrary: s)
  case (Cons acts batches)
  from Cons.prems(1) obtain s1 out where one: "step ser acts s = Inr (s1, out)" and rest: "run_steps ser batches s1 = Inr s'"
    by auto
  note r = Cons.prems(2) one [unfolded step_def]
  from reachable_step(2) [OF r] Cons.IH [OF rest reachable.another [OF r]] show ?case by (rule finished_kept_trans)
qed simp

lemma run_steps_ticks:
  "run_steps ser batches s = Inr s' \<Longrightarrow> reachable ser raw s \<Longrightarrow> unat (si_tick s') = unat (si_tick s) + length batches"
proof (induction batches arbitrary: s)
  case (Cons acts batches)
  from Cons.prems(1) obtain s1 out where one: "step ser acts s = Inr (s1, out)" and rest: "run_steps ser batches s1 = Inr s'"
    by auto
  note r = Cons.prems(2) one [unfolded step_def]
  from reachable_step(3) [OF r] Cons.IH [OF rest reachable.another [OF r]] show ?case by simp
qed simp

subsection \<open>Canonical actions are canonical again\<close>

lemma sort_action_idem: "sort_action (sort_action a) = sort_action a"
proof -
  have "sort_alloc_state (sort_alloc_state x) = sort_alloc_state x" for x
    by (simp add: sort_alloc_state_def sort_key_idem)
  then show ?thesis by (simp add: sort_action_def sort_key_idem option.map_comp comp_def)
qed

lemma sort_action_frame: "aa_tick (sort_action a) = aa_tick a" "aa_mode (sort_action a) = aa_mode a"
  by (simp_all add: sort_action_def)

lemma canonical_envelope_again:
  assumes "canonical_envelope ser s index e = Inr e'"
  shows "canonical_envelope ser s index e' = Inr e'" and "en_sender e' = en_sender e"
proof -
  let ?a = "sort_action (en_action e)"
  from assms have e': "e' = e\<lparr>en_body := Body_action ?a\<rparr>" and c: "check_envelope s index e = Inr ()"
    and st: "(case aa_alloc ?a of None \<Rightarrow> Inr () | Some st \<Rightarrow> check_alloc_state ser s (en_sender e) st) = Inr ()"
    and act: "check_action s (e\<lparr>en_body := Body_action ?a\<rparr>) ?a = Inr ()"
    by (auto simp: canonical_envelope_def Let_def)
  show "en_sender e' = en_sender e" by (simp add: e')
  have "check_envelope s index e' = Inr ()"
    using c by (simp add: check_envelope_def e' has_action_def en_action_def sort_action_frame)
  moreover have "en_action e' = ?a" by (simp add: e' en_action_def)
  ultimately show "canonical_envelope ser s index e' = Inr e'"
    using st act by (simp add: canonical_envelope_def Let_def sort_action_idem e' split: option.splits)
qed

lemma mapiR_again:
  assumes "\<And>i x y. f i x = Inr y \<Longrightarrow> f i y = Inr y"
  shows "mapiR f i xs = Inr ys \<Longrightarrow> mapiR f i ys = Inr ys"
  by (induction xs arbitrary: i ys) (auto dest: assms)

lemma mapiR_map: "mapiR f i xs = Inr ys \<Longrightarrow> (\<And>i x y. f i x = Inr y \<Longrightarrow> g y = g x) \<Longrightarrow> map g ys = map g xs"
  by (induction xs arbitrary: i ys) fastforce+

lemma canonicalize_again:
  assumes "canonicalize_actions ser s acts = Inr acts'"
  shows "canonicalize_actions ser s acts' = Inr acts'"
proof -
  let ?xs = "sort_key en_sender (ab_actions acts)"
  from assms obtain ys where guard: "\<not> (ab_tick acts \<noteq> si_tick s \<or> length (ab_actions acts) \<noteq> length (si_vehicles s))"
    and ys: "mapiR (canonical_envelope ser s) 0 ?xs = Inr ys" and acts': "acts' = acts\<lparr>ab_actions := ys\<rparr>"
    by (auto simp: canonicalize_actions_def split: if_split_asm)
  have senders: "map en_sender ys = map en_sender ?xs" by (rule mapiR_map [OF ys]) (rule canonical_envelope_again(2))
  then have sorted: "sort_key en_sender ys = ys" by (simp add: sort_key_id)
  have "length ys = length (ab_actions acts)" using map_eq_imp_length_eq [OF senders] by simp
  moreover have "mapiR (canonical_envelope ser s) 0 ys = Inr ys"
    by (rule mapiR_again [OF _ ys]) (rule canonical_envelope_again(1))
  ultimately show ?thesis using guard by (simp add: canonicalize_actions_def acts' sorted)
qed

subsection \<open>Recorded events resolve as they did\<close>

lemma resolve_again:
  assumes "resolve_event None e s = Inr (x, event, s')"
  shows "resolve_event (Some event) e s = Inr (x, event, s') \<and> ae_source event = e"
  using assms by (auto simp: resolve_event_def Let_def split_paired_all)

lemma apply_event_again:
  assumes "apply_event None e (s, outs) = Inr (event, s', outs')"
  shows "apply_event (Some event) e (s, outs) = Inr (event, s', outs') \<and> ae_source event = e"
proof (cases "random_event (ev_kind e)")
  case True
  then have k: "ev_kind e \<noteq> EK_Release_Task" "ev_kind e \<noteq> EK_Disable_Vehicle" by (auto simp: random_event_def)
  from assms obtain x s1 where r: "resolve_event None e s = Inr (x, event, s1)" and a: "apply_random e x s1 = Inr s'" "outs' = outs"
    by (auto simp: apply_event_def Let_def True k)
  from resolve_again [OF r] a show ?thesis by (simp add: apply_event_def Let_def True k)
next
  case False
  with assms have "event = plain_event e" by (auto simp: apply_event_def Let_def split: if_split_asm)
  with assms False show ?thesis
    by (auto simp: apply_event_def Let_def plain_event_def split: if_splits)
qed

lemma events_loop_prefix:
  "events_loop ser None es applied (s, outs) = Inr (applied', s', outs') \<Longrightarrow> \<exists>more. applied' = applied @ more"
proof (induction es arbitrary: applied s outs)
  case (Cons e es)
  show ?case
  proof (cases "ev_tick e = si_tick s")
    case True
    with Cons.prems obtain event s1 outs1 where "events_loop ser None es (applied @ [event]) (s1\<lparr>si_next_event := si_next_event s1 + 1\<rparr>, outs1)
      = Inr (applied', s', outs')" by auto
    from Cons.IH [OF this] show ?thesis by auto
  qed (use Cons.prems in simp)
qed simp

lemma events_loop_again:
  "events_loop ser None es applied (s, outs) = Inr (applied', s', outs') \<Longrightarrow>
   events_loop ser (Some applied') es applied (s, outs) = Inr (applied', s', outs')"
proof (induction es arbitrary: applied s outs)
  case (Cons e es)
  show ?case
  proof (cases "ev_tick e = si_tick s")
    case True
    with Cons.prems obtain event s1 outs1 where e: "apply_event None e (s, outs) = Inr (event, s1, outs1)"
      and rest: "events_loop ser None es (applied @ [event]) (s1\<lparr>si_next_event := si_next_event s1 + 1\<rparr>, outs1)
        = Inr (applied', s', outs')" by auto
    from events_loop_prefix [OF rest] have "length applied < length applied'" "applied' ! length applied = event" by auto
    with True apply_event_again [OF e] Cons.IH [OF rest] show ?thesis by simp
  qed (use Cons.prems in simp)
qed simp

lemma apply_events_again:
  assumes "apply_events ser None s = Inr (applied, s', outs)"
  shows "apply_events ser (Some applied) s = Inr (applied, s', outs)"
  using assms events_loop_again by (auto simp: apply_events_def)

lemma replay_again:
  assumes "step ser actions s = Inr (s', out)"
  shows "replay_step ser (so_actions out) (so_applied out) s = Inr (s', out)"
  using assms [unfolded step_def]
proof (cases rule: step_internal_phases)
  case (1 acts applied s1 outs s2 sorted_outs batch)
  show ?thesis
    using 1(1,4,6) canonicalize_again [OF 1(2)] apply_events_again [OF 1(3)]
    by (simp add: replay_step_def step_internal_def Let_def 1(7)) (simp add: 1(5))
qed

text \<open>A loop over indexed elements, element by element.\<close>

lemma mapiR_all2: "mapiR f i xs = Inr ys \<Longrightarrow> list_all2 (\<lambda>x y. \<exists>j. f j x = Inr y) xs ys"
  by (induction xs arbitrary: i ys) auto

end
