(* ===== verification/Sim_Demo.thy ===== *)
theory Sim_Demo
  imports Sim_Motion
begin

text \<open>
  Two steps of a small scenario, evaluated in the logic: the run that the witnesses of the simulator's properties
  look at. The hashes are left symbolic, since nothing in a step depends on their values.
\<close>

text \<open>A step without the hashes, which only record it.\<close>

definition dry_step :: "serializer \<Rightarrow> action_batch \<Rightarrow> applied_event list option \<Rightarrow> sim \<Rightarrow> sim result" where
  "dry_step ser actions recorded s =
     (if finished s then Inl (Logic_error [])
      else bindR (canonicalize_actions ser s actions) (\<lambda>acts.
        bindR (apply_events ser recorded s) (\<lambda>(applied, s1, outs).
        bindR (run_phases ser acts (fenced applied) (s1, outs)) (\<lambda>(s2, sorted_outs).
          bindR (observe s2) (\<lambda>_. Inr s2)))))"

lemma observe_hash:
  "(\<exists>b. observe (s\<lparr>si_hash := h, si_tick_hashes := hs\<rparr>) = Inr b) \<longleftrightarrow> (\<exists>b. observe s = Inr b)"
proof -
  let ?s = "s\<lparr>si_hash := h, si_tick_hashes := hs\<rparr>"
  have d: "detected ?s = detected s" by (intro ext) (simp add: detected_def)
  have o: "project_owner ?s = project_owner s" by (intro ext) (simp only: project_owner_def d Let_def, simp)
  have p: "project_task ?s = project_task s" by (intro ext) (simp only: project_task_def o, simp)
  have r: "reachable_peer ?s = reachable_peer s" by (intro ext) (simp only: reachable_peer_def d, simp)
  have "observe_vehicle ?s = observe_vehicle s" by (intro ext) (simp only: observe_vehicle_def p r Let_def, simp cong: if_cong)
  then show ?thesis by (simp add: observe_def)
qed

text \<open>The state after a step, from the state before the hashes are written.\<close>

definition hashed :: "serializer \<Rightarrow> sim \<Rightarrow> sim" where
  "hashed ser s = s\<lparr>si_hash := compute_state_hash ser s, si_tick_hashes := si_tick_hashes s @ [compute_state_hash ser s]\<rparr>"

lemma dry_step_step:
  assumes "dry_step ser actions recorded s = Inr s2"
  shows "\<exists>out. step_internal ser actions recorded s = Inr (hashed ser s2, out)"
proof -
  from assms obtain acts applied s1 outs sorted_outs where
    runs: "\<not> finished s" "canonicalize_actions ser s actions = Inr acts"
      "apply_events ser recorded s = Inr (applied, s1, outs)"
      "run_phases ser acts (fenced applied) (s1, outs) = Inr (s2, sorted_outs)"
    and "\<exists>b. observe s2 = Inr b"
    by (auto simp: dry_step_def split: if_split_asm prod.splits)
  then obtain batch where "observe (hashed ser s2) = Inr batch"
    using observe_hash [where s = s2]
    by (auto simp: hashed_def)
  with runs show ?thesis by (simp add: step_internal_def Let_def hashed_def)
qed

definition holds :: "('a \<Rightarrow> bool) \<Rightarrow> 'a result \<Rightarrow> bool" where
  "holds P x = (case x of Inr y \<Rightarrow> P y | Inl e \<Rightarrow> False)"

lemma holdsD: "holds P x \<Longrightarrow> \<exists>y. x = Inr y \<and> P y"
  by (auto simp: holds_def split: sum.splits)

text \<open>A second task is at hand: the vehicle \<open>a\<close> completes it in the first step, from where it stands.\<close>

definition demo_pair :: scenario where
  "demo_pair = demo_scenario\<lparr>sc_tasks := [demo_task_spec, demo_task_spec\<lparr>tp_id := ''n'', tp_target := \<lparr>px = 0, py = 0\<rparr>,
     tp_agent := ''a'', tp_service := 0, tp_service_energy := 0\<rparr>]\<rparr>"

text \<open>The vehicle \<open>b\<close> drives by one millimetre and asks for the gate; in the next step it drives into the gate.\<close>

definition demo_envelope :: "u64 \<Rightarrow> u64 \<Rightarrow> string \<Rightarrow> action \<Rightarrow> envelope" where
  "demo_envelope tick n k a = \<lparr>en_schema = 1, en_sequence = n, en_time_ms = tick * 100, en_sender = k, en_recipient = ''sim'',
     en_body = Body_action (a\<lparr>aa_tick := tick\<rparr>)\<rparr>"

definition demo_gate :: st_reservation where
  "demo_gate = \<lparr>sr_resource = ''gate'', sr_agent = ''b'', sr_start = 1, sr_end = 3, sr_version = 1, sr_route_version = 1,
     sr_map_version = 1\<rparr>"

definition demo_drive :: action where
  "demo_drive = empty_action\<lparr>aa_vx := 10, aa_route_version := 1\<rparr>"

definition demo_first :: action_batch where
  "demo_first = \<lparr>ab_tick = 0, ab_actions = [demo_envelope 0 3 ''c'' empty_action,
     demo_envelope 0 2 ''b'' (demo_drive\<lparr>aa_proposals := [demo_gate]\<rparr>), demo_envelope 0 1 ''a'' empty_action]\<rparr>"

definition demo_second :: action_batch where
  "demo_second = \<lparr>ab_tick = 1, ab_actions = [demo_envelope 1 4 ''a'' empty_action,
     demo_envelope 1 5 ''b'' demo_drive, demo_envelope 1 6 ''c'' empty_action]\<rparr>"

definition demo_at :: "i64 \<Rightarrow> u64 \<Rightarrow> task_status \<Rightarrow> sim \<Rightarrow> bool" where
  "demo_at x tick st s \<longleftrightarrow> spots s = [(0, 0), (x, 0), (0, 0)] \<and> si_tick s = tick \<and> map tk_status (si_tasks s) = [st, TS_Pending]
     \<and> map rg_id (wd_regions (si_world s)) = [''gate''] \<and> sc_max_ticks (si_scenario s) = 10
     \<and> contested_resource (si_world s) (spot (1, 0)) (spot (2, 0)) = Some ''gate''
     \<and> map (\<lambda>v. (vh_id v, vh_active v)) (si_vehicles s) = [(''a'', True), (''b'', True), (''c'', True)]"

lemma demo_dry:
  "holds (\<lambda>(s, a, b). demo_at 0 0 TS_Pending s \<and> demo_at 1 1 TS_Completed a \<and> demo_at 2 2 TS_Completed b)
     (bindR (build_sim demo_pair) (\<lambda>s.
      bindR (dry_step (\<lambda>_. []) demo_first None (s\<lparr>si_hash := h\<rparr>)) (\<lambda>a.
      bindR (dry_step (\<lambda>_. []) demo_second None (a\<lparr>si_hash := k, si_tick_hashes := ks\<rparr>)) (\<lambda>b. Inr (s, a, b)))))"
  by code_simp

lemma demo_at_hashes [simp]:
  "demo_at x n st (s\<lparr>si_hash := k\<rparr>) = demo_at x n st s" "demo_at x n st (s\<lparr>si_tick_hashes := ks\<rparr>) = demo_at x n st s"
  by (simp_all add: demo_at_def spots_def)

lemma demo_runs:
  obtains s a b out1 out2 where "new_simulator (\<lambda>_. []) demo_pair = Inr s" and "demo_at 0 0 TS_Pending s"
    and "step (\<lambda>_. []) demo_first s = Inr (a, out1)" and "demo_at 1 1 TS_Completed a"
    and "step (\<lambda>_. []) demo_second a = Inr (b, out2)" and "demo_at 2 2 TS_Completed b"
proof -
  let ?ser = "(\<lambda>_. []) :: serializer"
  from holdsD [OF demo_dry [where h = "[]" and k = "[]" and ks = "[]"]] obtain s0 where s0: "build_sim demo_pair = Inr s0" by auto
  define s where "s = s0\<lparr>si_hash := compute_state_hash ?ser s0\<rparr>"
  from holdsD [OF demo_dry [where h = "si_hash s" and k = "[]" and ks = "[]"]] obtain a0 where a0: "dry_step ?ser demo_first None s = Inr a0"
    by (auto simp: s0 s_def)
  from holdsD [OF demo_dry [where h = "si_hash s" and k = "compute_state_hash ?ser a0" and ks = "si_tick_hashes a0 @ [compute_state_hash ?ser a0]"]]
  obtain b0 where b0: "dry_step ?ser demo_second None (hashed ?ser a0) = Inr b0"
    and facts: "demo_at 0 0 TS_Pending s0" "demo_at 1 1 TS_Completed a0" "demo_at 2 2 TS_Completed b0"
    using a0 by (auto simp: s0 s_def hashed_def)
  from dry_step_step [OF a0] obtain out1 where "step ?ser demo_first s = Inr (hashed ?ser a0, out1)" by (auto simp: step_def)
  moreover from dry_step_step [OF b0] obtain out2 where "step ?ser demo_second (hashed ?ser a0) = Inr (hashed ?ser b0, out2)"
    by (auto simp: step_def)
  moreover have "new_simulator ?ser demo_pair = Inr s" by (simp add: new_simulator_def s0 s_def)
  ultimately show ?thesis using facts by (intro that [of s _ _ "hashed ?ser b0"]) (simp_all add: s_def hashed_def)
qed

end
