(* ===== verification/Sim_Props.thy ===== *)
theory Sim_Props
  imports Sim_Trace Sim_Demo
begin

text \<open>
  Properties of whole steps and runs of the simulator. Their witnesses are the two evaluated steps of \<open>Sim_Demo\<close>.
\<close>

lemma demo_lengths: "demo_at x n st s \<Longrightarrow> length (si_vehicles s) = 3"
  unfolding demo_at_def spots_def using map_eq_imp_length_eq by fastforce

lemma sim_ok_length: "sim_ok ids s \<Longrightarrow> length (si_vehicles s) = length ids"
  by (simp add: sim_ok_def vehicles_ok_def)

lemma run_ids:
  assumes "reachable ser raw s" and "step ser actions s = Inr (s', out)"
  shows "length (si_vehicles s') = length (si_vehicles s)"
    "length (si_vehicles s) = length (map vp_id (sc_vehicles (normalize_scenario raw)))"
  using sim_ok_length [OF reachable_ok [OF assms(1)]]
    sim_ok_length [OF reachable_ok [OF reachable.another [OF assms(1) assms(2) [unfolded step_def]]]] by simp_all

lemma step_lawful:
  assumes "reachable ser raw s" and "step ser actions s = Inr (s', out)" and "i < length (si_vehicles s)"
    and "spots s' ! i \<noteq> spots s ! i"
  shows "lawful_move (s'\<lparr>si_tick := si_tick s\<rparr>) (spots s) (spots s') i"
proof -
  have ms: "0 \<le> to_i64 (sc_step_ms (si_scenario s))"
    using reachable_run [OF assms(1)] timing_ok(1) by (auto simp: run_ok_def)
  from step_frame [OF reachable_ok [OF assms(1)] assms(2) [unfolded step_def] ms] assms(3,4) run_ids [OF assms(1,2)]
  show ?thesis by simp
qed

subsection \<open>What holds in every state\<close>

text \<open>C1: safety of every run. Whatever the agents send, live or replayed, in every state that a run reaches each
  vehicle is inside the world with energy and payload that are not negative, no two agents hold overlapping windows of
  a chokepoint, and none of the simulator's four run-time checks has fired, so the summary reports all of them kept.\<close>

theorem run_safe:
  assumes "reachable ser raw s"
  shows "(\<forall>v \<in> set (si_vehicles s). 0 \<le> vh_energy v \<and> 0 \<le> vh_payload v \<and> 1 \<le> vh_capacity v \<and> 1 \<le> vh_speed v
      \<and> in_world (si_world s) \<lparr>px = vh_x v, py = vh_y v\<rparr>)
    \<and> exclusive (tb_committed (si_table s))
    \<and> sm_energy_ok (summarize s) \<and> sm_overlap_ok (summarize s) \<and> sm_completed_ok (summarize s) \<and> sm_capable_ok (summarize s)"
  using reachable_ok [OF assms] tb.ok_exclusive
  by (auto simp: sim_ok_def vehicles_ok_def vehicle_ok_def list_all_iff checks_clear_def summarize_def Let_def)

theorem run_safe_witness:
  "\<exists>s. spots s = [(0, 0), (2, 0), (0, 0)] \<and> (\<forall>v \<in> set (si_vehicles s). in_world (si_world s) \<lparr>px = vh_x v, py = vh_y v\<rparr>)
     \<and> sm_energy_ok (summarize s) \<and> sm_capable_ok (summarize s)"
proof -
  obtain s a b out1 out2 where run: "new_simulator (\<lambda>_. []) demo_pair = Inr s" "step (\<lambda>_. []) demo_first s = Inr (a, out1)"
    "step (\<lambda>_. []) demo_second a = Inr (b, out2)" and b: "demo_at 2 2 TS_Completed b" by (rule demo_runs)
  then have "reachable (\<lambda>_. []) demo_pair b" by (metis reachable.intros step_def)
  from run_safe [OF this] b show ?thesis unfolding demo_at_def by (intro exI [of _ b]) blast
qed

subsection \<open>Motion\<close>

text \<open>A chokepoint that a straight way meets, and one that a point lies in. Nothing keeps chokepoints of a scenario from
  overlapping; the simulator checks a way only against the chokepoint with the least identifier among those it meets,
  and a vehicle counts as standing only in the one with the least identifier at its place.\<close>

definition meets :: "world \<Rightarrow> region \<Rightarrow> point \<Rightarrow> point \<Rightarrow> bool" where
  "meets w g a b \<longleftrightarrow> g \<in> set (wd_regions w) \<and> rg_kind g = RK_Chokepoint \<and> intersects g a b"

definition stands_in :: "world \<Rightarrow> region \<Rightarrow> point \<Rightarrow> bool" where
  "stands_in w g a \<longleftrightarrow> g \<in> set (wd_regions w) \<and> rg_kind g = RK_Chokepoint \<and> rg_contains g a"

lemma contested_first:
  assumes "meets w g a b" and "\<And>h. meets w h a b \<Longrightarrow> \<not> rg_id h < rg_id g"
  shows "contested_resource w a b = Some (rg_id g)"
proof (cases "contested_resource w a b")
  case None
  with contested_resource_spec [of w a b] assms(1) show ?thesis by (auto simp: meets_def)
next
  case (Some k)
  with contested_resource_spec [of w a b] obtain h where h: "meets w h a b" "rg_id h = k"
    and "\<forall>r \<in> set (wd_regions w). rg_kind r = RK_Chokepoint \<and> intersects r a b \<longrightarrow> k \<le> rg_id r"
    by (auto simp: meets_def)
  with assms(1) have "rg_id h \<le> rg_id g" by (simp add: meets_def)
  with assms(2) [OF h(1)] have "rg_id g = rg_id h" by simp
  with Some h(2) show ?thesis by simp
qed

lemma meets_point:
  assumes "world_ok w"
  shows "meets w g a a \<longleftrightarrow> stands_in w g a"
  using assms intersects_point by (auto simp: meets_def stands_in_def world_ok_def list_all_iff)

lemma lawful_move_first:
  assumes "lawful_move t before after i" and "meets (si_world t) g (spot (before ! i)) (spot (after ! i))"
    and "\<And>h. meets (si_world t) h (spot (before ! i)) (spot (after ! i)) \<Longrightarrow> \<not> rg_id h < rg_id g"
  shows "has_reservation t (vh_id (si_vehicles t ! i)) (rg_id g) (vh_route (si_vehicles t ! i))"
    and "j < length (si_vehicles t) \<Longrightarrow> j \<noteq> i \<Longrightarrow> vh_active (si_vehicles t ! j) \<Longrightarrow> after ! j = before ! j
      \<Longrightarrow> contested_resource (si_world t) (spot (after ! j)) (spot (after ! j)) \<noteq> Some (rg_id g)"
  using assms(1) contested_first [OF assms(2,3)] unfolding lawful_move_def Let_def by blast+

text \<open>C2: every move of a step is lawful. A vehicle whose position differs after the step is active; its straight way
  stays inside the world and off every closed or forbidden region and off terrain it may not use; it is no longer than
  its speed allows in one tick. Of the chokepoints the way meets, the one with the least identifier is guarded: the
  vehicle holds the committed window of this tick there, for this route and map, and an active vehicle that stays in its
  place stands in that chokepoint only where it also stands in one with a smaller identifier. A way that meets just one
  chokepoint is therefore always covered by a window; a further chokepoint on the way is not checked at all, and
  the run \<open>gates_shared\<close> below shows what comes of it.\<close>

theorem step_moves_lawful:
  assumes "reachable ser raw s" and "step ser actions s = Inr (s', out)" and "i < length (si_vehicles s)"
    and "spots s' ! i \<noteq> spots s ! i"
  shows "let w = si_world s'; v = si_vehicles s' ! i; p = spot (spots s ! i); q = spot (spots s' ! i)
    in vh_active v \<and> segment_allowed w (vehicle_view v) p q
      \<and> abs (px q - px p) + abs (py q - py p) \<le> vh_speed v * to_i64 (sc_step_ms (si_scenario s')) div 1000
      \<and> (\<forall>g. meets w g p q \<longrightarrow> (\<exists>h. meets w h p q \<and> rg_id h < rg_id g)
          \<or> has_reservation (s'\<lparr>si_tick := si_tick s\<rparr>) (vh_id v) (rg_id g) (vh_route v)
            \<and> (\<forall>j < length (si_vehicles s'). j \<noteq> i \<and> vh_active (si_vehicles s' ! j) \<and> spots s' ! j = spots s ! j
                 \<and> stands_in w g (spot (spots s' ! j))
                 \<longrightarrow> (\<exists>h. stands_in w h (spot (spots s' ! j)) \<and> rg_id h < rg_id g)))"
proof -
  let ?w = "si_world s'" and ?p = "spot (spots s ! i)" and ?q = "spot (spots s' ! i)"
  note lawful = step_lawful [OF assms]
  have "sim_ok (map vp_id (sc_vehicles (normalize_scenario raw))) s'"
    by (rule reachable_ok [OF reachable.another [OF assms(1) assms(2) [unfolded step_def]]])
  then have w: "world_ok ?w" by (simp add: sim_ok_def)
  have free: "\<exists>h. stands_in ?w h (spot (spots s' ! j)) \<and> rg_id h < rg_id g"
    if g: "meets ?w g ?p ?q" "\<nexists>h. meets ?w h ?p ?q \<and> rg_id h < rg_id g"
      and j: "j < length (si_vehicles s')" "j \<noteq> i" "vh_active (si_vehicles s' ! j)" "spots s' ! j = spots s ! j"
      and here: "stands_in ?w g (spot (spots s' ! j))" for g j
  proof (rule ccontr)
    assume "\<not> ?thesis"
    with here have "contested_resource ?w (spot (spots s' ! j)) (spot (spots s' ! j)) = Some (rg_id g)"
      by (intro contested_first) (simp_all add: meets_point [OF w])
    with lawful_move_first(2) [OF lawful, of g j] g j show False by simp
  qed
  show ?thesis
    using lawful lawful_move_first(1) [OF lawful] free
    unfolding Let_def by (auto simp: lawful_move_def Let_def)
qed

theorem step_moves_lawful_witness:
  "\<exists>s s'. spots s = [(0, 0), (1, 0), (0, 0)] \<and> spots s' = [(0, 0), (2, 0), (0, 0)]
     \<and> segment_allowed (si_world s') (vehicle_view (si_vehicles s' ! 1)) (spot (1, 0)) (spot (2, 0))
     \<and> (\<forall>g. meets (si_world s') g (spot (1, 0)) (spot (2, 0)) \<longrightarrow> (\<exists>h. meets (si_world s') h (spot (1, 0)) (spot (2, 0)) \<and> rg_id h < rg_id g)
          \<or> has_reservation (s'\<lparr>si_tick := si_tick s\<rparr>) (vh_id (si_vehicles s' ! 1)) (rg_id g) (vh_route (si_vehicles s' ! 1)))"
proof -
  obtain s a b out1 out2 where s: "new_simulator (\<lambda>_. []) demo_pair = Inr s"
    and one: "step (\<lambda>_. []) demo_first s = Inr (a, out1)" and a: "demo_at 1 1 TS_Completed a"
    and two: "step (\<lambda>_. []) demo_second a = Inr (b, out2)" and b: "demo_at 2 2 TS_Completed b" by (rule demo_runs)
  have "reachable (\<lambda>_. []) demo_pair a" using s one by (metis reachable.intros step_def)
  note facts = step_moves_lawful [OF this two, of 1]
  have "spots a = [(0, 0), (1, 0), (0, 0)]" "spots b = [(0, 0), (2, 0), (0, 0)]" using a b by (simp_all add: demo_at_def)
  with facts demo_lengths [OF a] show ?thesis unfolding Let_def by (intro exI [of _ a] exI [of _ b]) auto
qed

text \<open>C15: no two vehicles cross the same chokepoint in one tick, where it is the one their ways are checked against.
  If the ways of two different vehicles in a step both meet a chokepoint, then one of the two ways meets another
  chokepoint with a smaller identifier, and was checked against that one instead. In particular, chokepoints that no
  way meets together are each crossed by one vehicle in a tick at most.\<close>

theorem chokepoint_exclusive:
  assumes "reachable ser raw s" and "step ser actions s = Inr (s', out)"
    and "i < length (si_vehicles s)" and "j < length (si_vehicles s)" and "i \<noteq> j"
    and "spots s' ! i \<noteq> spots s ! i" and "spots s' ! j \<noteq> spots s ! j"
    and "meets (si_world s') g (spot (spots s ! i)) (spot (spots s' ! i))"
    and "meets (si_world s') g (spot (spots s ! j)) (spot (spots s' ! j))"
  shows "\<exists>h. rg_id h < rg_id g \<and> (meets (si_world s') h (spot (spots s ! i)) (spot (spots s' ! i))
      \<or> meets (si_world s') h (spot (spots s ! j)) (spot (spots s' ! j)))"
proof (rule ccontr)
  assume c: "\<not> ?thesis"
  have ok: "sim_ok (map vp_id (sc_vehicles (normalize_scenario raw))) s'"
    by (rule reachable_ok [OF reachable.another [OF assms(1) assms(2) [unfolded step_def]]])
  have window: "\<exists>r \<in> set (tb_committed (si_table s')). rv_agent r = vh_id (si_vehicles s' ! k) \<and> covers r (rg_id g) (si_tick s)"
    if "k < length (si_vehicles s)" "spots s' ! k \<noteq> spots s ! k"
      "meets (si_world s') g (spot (spots s ! k)) (spot (spots s' ! k))"
      "\<And>h. meets (si_world s') h (spot (spots s ! k)) (spot (spots s' ! k)) \<Longrightarrow> \<not> rg_id h < rg_id g" for k
    using lawful_move_first(1) [OF step_lawful [OF assms(1,2) that(1,2)], of g] that(3,4)
    by (auto simp: has_reservation_def list_ex_iff covers_def)
  from window [OF assms(3,6,8)] window [OF assms(4,7,9)] c obtain x y where
    xy: "x \<in> set (tb_committed (si_table s'))" "y \<in> set (tb_committed (si_table s'))"
      "covers x (rg_id g) (si_tick s)" "covers y (rg_id g) (si_tick s)"
      "rv_agent x = vh_id (si_vehicles s' ! i)" "rv_agent y = vh_id (si_vehicles s' ! j)" by blast
  have "table_ok (si_table s')" using ok by (simp add: sim_ok_def)
  from tb.one_holder [OF this xy(1-4)] xy(5,6) have "vh_id (si_vehicles s' ! i) = vh_id (si_vehicles s' ! j)" by simp
  moreover have "distinct (map vh_id (si_vehicles s'))"
    using ok strictly_sorted_distinct by (auto simp: sim_ok_def vehicles_ok_def)
  ultimately show False using assms(3-5) run_ids(1) [OF assms(1,2)] by (simp add: distinct_conv_nth)
qed

subsection \<open>Overlapping chokepoints\<close>

text \<open>Two chokepoints that overlap: a small one, \<open>g1\<close>, inside a large one, \<open>g2\<close>. The vehicle \<open>b\<close> asks for a window
  of the small one, \<open>c\<close> for the same ticks of the large one, and in the next step both drive.\<close>

definition gates_scenario :: scenario where
  "gates_scenario = demo_pair\<lparr>sc_world := (sc_world demo_pair)\<lparr>wd_regions :=
       [\<lparr>rg_id = ''g1'', rg_kind = RK_Chokepoint, rg_min = \<lparr>px = 1, py = 0\<rparr>, rg_max = \<lparr>px = 2, py = 1\<rparr>,
          rg_terrain = [], rg_mult = 1000, rg_closed = False\<rparr>,
        \<lparr>rg_id = ''g2'', rg_kind = RK_Chokepoint, rg_min = \<lparr>px = 1, py = 0\<rparr>, rg_max = \<lparr>px = 5, py = 3\<rparr>,
          rg_terrain = [], rg_mult = 1000, rg_closed = False\<rparr>]\<rparr>,
     sc_vehicles := [(demo_spec ''c'' ''rover'')\<lparr>vp_pos := \<lparr>px = 4, py = 4\<rparr>\<rparr>, demo_spec ''a'' ''drone'', demo_spec ''b'' ''rover'']\<rparr>"

definition gates_ask :: "string \<Rightarrow> string \<Rightarrow> action" where
  "gates_ask g k = empty_action\<lparr>aa_route_version := 1, aa_proposals := [demo_gate\<lparr>sr_resource := g, sr_agent := k\<rparr>]\<rparr>"

definition gates_first :: action_batch where
  "gates_first = \<lparr>ab_tick = 0, ab_actions = [demo_envelope 0 1 ''a'' empty_action,
     demo_envelope 0 2 ''b'' (gates_ask ''g1'' ''b''), demo_envelope 0 3 ''c'' (gates_ask ''g2'' ''c'')]\<rparr>"

definition gates_second :: action_batch where
  "gates_second = \<lparr>ab_tick = 1, ab_actions = [demo_envelope 1 4 ''a'' empty_action, demo_envelope 1 5 ''b'' demo_drive,
     demo_envelope 1 6 ''c'' (demo_drive\<lparr>aa_vx := 0, aa_vy := - 10\<rparr>)]\<rparr>"

text \<open>What is looked at after the second step: both vehicles have moved into the large chokepoint, which only one holds.\<close>

definition gates_crossed :: "sim \<Rightarrow> bool" where
  "gates_crossed s \<longleftrightarrow> spots s = [(0, 0), (1, 0), (4, 3)] \<and> length (wd_regions (si_world s)) = 2
     \<and> vh_id (si_vehicles s ! 1) = ''b'' \<and> vh_id (si_vehicles s ! 2) = ''c''
     \<and> (let g = wd_regions (si_world s) ! 1; t = s\<lparr>si_tick := 1\<rparr>
        in rg_id g = ''g2'' \<and> rg_kind g = RK_Chokepoint \<and> rg_contains g (spot (1, 0)) \<and> rg_contains g (spot (4, 3))
          \<and> \<not> has_reservation t ''b'' ''g2'' (vh_route (si_vehicles s ! 1)) \<and> has_reservation t ''c'' ''g2'' (vh_route (si_vehicles s ! 2)))"

lemma gates_crossed_hashes [simp]:
  "gates_crossed (s\<lparr>si_hash := k\<rparr>) = gates_crossed s" "gates_crossed (s\<lparr>si_tick_hashes := ks\<rparr>) = gates_crossed s"
  by (simp_all add: gates_crossed_def spots_def has_reservation_def Let_def)

lemma gates_dry:
  "holds (\<lambda>(s, a, b). spots a = [(0, 0), (0, 0), (4, 4)] \<and> si_tick a = 1 \<and> gates_crossed b)
     (bindR (build_sim gates_scenario) (\<lambda>s.
      bindR (dry_step (\<lambda>_. []) gates_first None (s\<lparr>si_hash := h\<rparr>)) (\<lambda>a.
      bindR (dry_step (\<lambda>_. []) gates_second None (a\<lparr>si_hash := k, si_tick_hashes := ks\<rparr>)) (\<lambda>b. Inr (s, a, b)))))"
  by code_simp

text \<open>The second step of this run, from a reachable state.\<close>

lemma gates_run:
  obtains s s' out where "reachable (\<lambda>_. []) gates_scenario s" "step (\<lambda>_. []) gates_second s = Inr (s', out)"
    "spots s = [(0, 0), (0, 0), (4, 4)]" "si_tick s = 1" "gates_crossed s'"
proof -
  let ?ser = "(\<lambda>_. []) :: serializer"
  from holdsD [OF gates_dry [where h = "[]" and k = "[]" and ks = "[]"]] obtain s0 where s0: "build_sim gates_scenario = Inr s0" by auto
  define s where "s = s0\<lparr>si_hash := compute_state_hash ?ser s0\<rparr>"
  from holdsD [OF gates_dry [where h = "si_hash s" and k = "[]" and ks = "[]"]] obtain a0 where
    a0: "dry_step ?ser gates_first None s = Inr a0" by (auto simp: s0 s_def)
  from holdsD [OF gates_dry [where h = "si_hash s" and k = "compute_state_hash ?ser a0"
        and ks = "si_tick_hashes a0 @ [compute_state_hash ?ser a0]"]]
  obtain b0 where b0: "dry_step ?ser gates_second None (hashed ?ser a0) = Inr b0"
    and facts: "spots a0 = [(0, 0), (0, 0), (4, 4)]" "si_tick a0 = 1" "gates_crossed b0"
    using a0 by (auto simp: s0 s_def hashed_def)
  from dry_step_step [OF a0] obtain out1 where one: "step_internal ?ser gates_first None s = Inr (hashed ?ser a0, out1)" by auto
  from dry_step_step [OF b0] obtain out2 where two: "step ?ser gates_second (hashed ?ser a0) = Inr (hashed ?ser b0, out2)"
    by (auto simp: step_def)
  have "new_simulator ?ser gates_scenario = Inr s" by (simp add: new_simulator_def s0 s_def)
  with one have "reachable ?ser gates_scenario (hashed ?ser a0)" by (metis reachable.intros)
  then show thesis
    by (rule that [OF _ two]) (use facts in \<open>simp_all add: hashed_def spots_def\<close>)
qed

lemma gates_crossed_ways:
  assumes "gates_crossed s" and "g = wd_regions (si_world s) ! 1"
  shows "rg_id g = ''g2''" and "meets (si_world s) g (spot (0, 0)) (spot (1, 0))" and "meets (si_world s) g (spot (4, 4)) (spot (4, 3))"
    and "stands_in (si_world s) g (spot (1, 0))" and "stands_in (si_world s) g (spot (4, 3))"
  using assms by (simp_all add: gates_crossed_def Let_def meets_def stands_in_def intersects_ends)

theorem chokepoint_exclusive_witness:
  "\<exists>s h. spots s = [(0, 0), (1, 0), (4, 3)] \<and> rg_id h < ''g2''
     \<and> (meets (si_world s) h (spot (0, 0)) (spot (1, 0)) \<or> meets (si_world s) h (spot (4, 4)) (spot (4, 3)))"
proof -
  obtain s s' out where run: "reachable (\<lambda>_. []) gates_scenario s" "step (\<lambda>_. []) gates_second s = Inr (s', out)"
    and before: "spots s = [(0, 0), (0, 0), (4, 4)]" and b: "gates_crossed s'" by (rule gates_run)
  have after: "spots s' = [(0, 0), (1, 0), (4, 3)]" using b by (simp add: gates_crossed_def)
  have len: "length (si_vehicles s) = 3" using before by (auto dest: arg_cong [where f = length] simp: spots_def)
  note ways = gates_crossed_ways [OF b refl]
  have "\<exists>h. rg_id h < ''g2'' \<and> (meets (si_world s') h (spot (0, 0)) (spot (1, 0)) \<or> meets (si_world s') h (spot (4, 4)) (spot (4, 3)))"
    using chokepoint_exclusive [OF run, of 1 2 "wd_regions (si_world s') ! 1"] ways(1-3) by (simp add: len before after)
  with after show ?thesis by blast
qed

text \<open>C16: overlapping chokepoints are not kept apart. A scenario with a chokepoint inside another is accepted, and it has
  a run in which two vehicles drive into the larger one in the same tick and stand there together, although only the
  second of them holds a window of it: the way of the first also meets the smaller chokepoint, whose identifier is
  less, and the window of that one is all that is asked for. The documentation says that the grant is checked again when
  a vehicle enters a chokepoint.\<close>

theorem gates_shared:
  "\<exists>s s' out g. reachable (\<lambda>_. []) gates_scenario s \<and> step (\<lambda>_. []) gates_second s = Inr (s', out)
     \<and> spots s = [(0, 0), (0, 0), (4, 4)] \<and> spots s' = [(0, 0), (1, 0), (4, 3)]
     \<and> meets (si_world s') g (spot (0, 0)) (spot (1, 0)) \<and> meets (si_world s') g (spot (4, 4)) (spot (4, 3))
     \<and> stands_in (si_world s') g (spot (1, 0)) \<and> stands_in (si_world s') g (spot (4, 3))
     \<and> vh_id (si_vehicles s' ! 1) = ''b'' \<and> vh_id (si_vehicles s' ! 2) = ''c''
     \<and> \<not> has_reservation (s'\<lparr>si_tick := si_tick s\<rparr>) ''b'' (rg_id g) (vh_route (si_vehicles s' ! 1))
     \<and> has_reservation (s'\<lparr>si_tick := si_tick s\<rparr>) ''c'' (rg_id g) (vh_route (si_vehicles s' ! 2))"
proof -
  obtain s s' out where run: "reachable (\<lambda>_. []) gates_scenario s" "step (\<lambda>_. []) gates_second s = Inr (s', out)"
    "spots s = [(0, 0), (0, 0), (4, 4)]" "si_tick s = 1" and b: "gates_crossed s'" by (rule gates_run)
  show ?thesis
    using run b gates_crossed_ways [OF b refl]
    by (intro exI [of _ s] exI [of _ s'] exI [of _ out] exI [of _ "wd_regions (si_world s') ! 1"]) (simp add: gates_crossed_def Let_def)
qed

subsection \<open>Runs\<close>

text \<open>C14: a finished task is never touched again. The record of a task that is completed or missed, with its agent,
  its completion tick and everything else, is the same in every later state of the run.\<close>

theorem finished_tasks_final:
  assumes "reachable ser raw s" and "run_steps ser batches s = Inr s'" and "t \<in> set (si_tasks s)" and "tk_status t \<noteq> TS_Pending"
  shows "t \<in> set (si_tasks s')"
  using run_steps_kept [OF assms(2,1)] assms(3,4) by (simp add: finished_kept_def)

theorem finished_tasks_final_witness:
  "\<exists>a b t. run_steps (\<lambda>_. []) [demo_second] a = Inr b \<and> tk_status t = TS_Completed \<and> t \<in> set (si_tasks a) \<and> t \<in> set (si_tasks b)"
proof -
  obtain s a b out1 out2 where s: "new_simulator (\<lambda>_. []) demo_pair = Inr s"
    and one: "step (\<lambda>_. []) demo_first s = Inr (a, out1)" and a: "demo_at 1 1 TS_Completed a"
    and two: "step (\<lambda>_. []) demo_second a = Inr (b, out2)" by (rule demo_runs)
  have r: "reachable (\<lambda>_. []) demo_pair a" using s one by (metis reachable.intros step_def)
  have run: "run_steps (\<lambda>_. []) [demo_second] a = Inr b" using two by simp
  from a obtain t u where "si_tasks a = [t, u]" and t: "tk_status t = TS_Completed" by (auto simp: demo_at_def)
  then have "t \<in> set (si_tasks a)" by simp
  from finished_tasks_final [OF r run this] t this run show ?thesis by auto
qed

text \<open>C17: every run ends. A run that has taken a step per batch stands at the tick that counts them, with one hash per
  tick; it never takes more steps than the scenario's limit, and once it is finished every further step is refused.\<close>

theorem run_bounded:
  assumes "new_simulator ser raw = Inr s" and "run_steps ser batches s = Inr s'"
  shows "length batches = unat (si_tick s') \<and> length (si_tick_hashes s') = length batches
    \<and> length batches \<le> unat (sc_max_ticks (normalize_scenario raw))
    \<and> (length batches = unat (sc_max_ticks (normalize_scenario raw)) \<longrightarrow>
         step ser actions s' = Inl (Logic_error ''simulation has already finished''))"
proof -
  have r: "reachable ser raw s" by (rule reachable.start [OF assms(1)])
  have t: "unat (si_tick s') = length batches"
    using run_steps_ticks [OF assms(2) r] new_simulator_tick [OF assms(1)] by simp
  have ok: "run_ok (normalize_scenario raw) s'" using reachable_run [OF run_steps_reachable [OF assms(2) r]] by blast
  have "finished s'" if "length batches = unat (sc_max_ticks (normalize_scenario raw))"
    using that t ok by (simp add: finished_def run_ok_def word_le_nat_alt)
  with t ok show ?thesis by (auto simp: run_ok_def word_le_nat_alt step_def step_internal_def)
qed

theorem run_bounded_witness:
  "\<exists>s s'. new_simulator (\<lambda>_. []) demo_pair = Inr s \<and> run_steps (\<lambda>_. []) [demo_first, demo_second] s = Inr s'
     \<and> unat (si_tick s') = 2 \<and> length (si_tick_hashes s') = 2"
proof -
  obtain s a b out1 out2 where s: "new_simulator (\<lambda>_. []) demo_pair = Inr s"
    and steps: "step (\<lambda>_. []) demo_first s = Inr (a, out1)" "step (\<lambda>_. []) demo_second a = Inr (b, out2)" by (rule demo_runs)
  then have run: "run_steps (\<lambda>_. []) [demo_first, demo_second] s = Inr b" by simp
  have "unat (si_tick b) = 2 \<and> length (si_tick_hashes b) = 2"
    using run_bounded [OF s run, of demo_first] by (simp add: numeral_2_eq_2)
  with s run show ?thesis by blast
qed

text \<open>C3: replay is exact. Replaying a step from the same state with what it recorded, its actions in canonical order
  and its events with the values drawn, succeeds and gives the same state, the same hash and the same outcome.\<close>

theorem replay_reproduces:
  assumes "step ser actions s = Inr (s', out)"
  shows "replay_step ser (so_actions out) (so_applied out) s = Inr (s', out)"
  using assms by (rule replay_again)

theorem replay_reproduces_witness:
  "\<exists>s a out. new_simulator (\<lambda>_. []) demo_pair = Inr s \<and> spots a = [(0, 0), (1, 0), (0, 0)]
     \<and> replay_step (\<lambda>_. []) (so_actions out) (so_applied out) s = Inr (a, out)"
proof -
  obtain s a b out1 out2 where s: "new_simulator (\<lambda>_. []) demo_pair = Inr s"
    and one: "step (\<lambda>_. []) demo_first s = Inr (a, out1)" and a: "demo_at 1 1 TS_Completed a" by (rule demo_runs)
  from s replay_reproduces [OF one] a show ?thesis by (intro exI [of _ s] exI [of _ a] exI [of _ out1]) (simp add: demo_at_def)
qed

end
