(* ===== verification/Framing.thy ===== *)
theory Framing
  imports Prelude
begin

text \<open>
  The frames the processes exchange over their standard streams (\<^verbatim>\<open>proto/src/framing.cpp\<close>): a 32-bit
  big-endian size, then that many bytes of a serialized message. An input stream is the bytes still
  to be read, an output stream the bytes written so far. \<open>ser\<close> and \<open>parse\<close> are the protobuf library's
  \<open>SerializeToCodedStream\<close> and \<open>ParseFromArray\<close>.
\<close>

unbundle bit_operations_syntax

subsection \<open>Model\<close>

definition max_frame :: nat where
  "max_frame = 16 * 1024 * 1024"

definition frame_header :: "u32 \<Rightarrow> bytes" where
  "frame_header sz =
     [char_of (unat (drop_bit 24 sz AND 0xff)), char_of (unat (drop_bit 16 sz AND 0xff)),
      char_of (unat (drop_bit 8 sz AND 0xff)), char_of (unat (sz AND 0xff))]"

definition header_size :: "bytes \<Rightarrow> u32" where
  "header_size header =
     push_bit 24 (of_char (header ! 0)) OR push_bit 16 (of_char (header ! 1))
     OR push_bit 8 (of_char (header ! 2)) OR of_char (header ! 3)"

text \<open>\<open>sink\<close> is the state of the output stream after the writes: true while it is good.\<close>

definition write_frame :: "('m \<Rightarrow> bytes) \<Rightarrow> bool \<Rightarrow> 'm \<Rightarrow> bytes \<Rightarrow> bytes result" where
  "write_frame ser sink m out =
     (let payload = ser m
      in if length payload > max_frame then Inl (Runtime_error ''protobuf frame is too large'')
         else
           let sz = of_nat (length payload)
           in if \<not> sink then Inl (Runtime_error ''failed to write protobuf frame'')
              else Inr (out @ frame_header sz @ payload))"

text \<open>No message at the end of the stream; otherwise the message and the bytes behind it.\<close>

definition read_frame :: "(bytes \<Rightarrow> 'm option) \<Rightarrow> bytes \<Rightarrow> ('m \<times> bytes) option result" where
  "read_frame parse stream =
     (let header = take 4 stream; stream1 = drop 4 stream
      in if header = [] then Inr None
         else if length header \<noteq> 4 then Inl (Runtime_error ''truncated frame header'')
         else
           let sz = header_size header
           in if unat sz > max_frame then Inl (Runtime_error ''protobuf frame is too large'')
              else
                let payload = take (unat sz) stream1
                in if length payload \<noteq> unat sz
                   then Inl (Runtime_error ''truncated protobuf frame'')
                   else case parse payload of
                          None \<Rightarrow> Inl (Runtime_error ''invalid protobuf frame'')
                        | Some m \<Rightarrow> Inr (Some (m, drop (unat sz) stream1)))"

text \<open>A reader's loop \<open>while (read_frame(..))\<close>, and a writer's.\<close>

lemma read_frame_shorter:
  "read_frame parse stream = Inr (Some (m, rest)) \<Longrightarrow> length rest < length stream"
  by (auto simp: read_frame_def Let_def split: if_splits option.splits)

function read_frames :: "(bytes \<Rightarrow> 'm option) \<Rightarrow> bytes \<Rightarrow> 'm list result" where
  "read_frames parse stream =
     (case read_frame parse stream of
        Inl e \<Rightarrow> Inl e
      | Inr None \<Rightarrow> Inr []
      | Inr (Some (m, rest)) \<Rightarrow> bindR (read_frames parse rest) (\<lambda>ms. Inr (m # ms)))"
  by pat_completeness auto
termination
  by (relation "measure (length \<circ> snd)") (auto dest: read_frame_shorter)

declare read_frames.simps [simp del]

definition write_frames :: "('m \<Rightarrow> bytes) \<Rightarrow> 'm list \<Rightarrow> bytes \<Rightarrow> bytes result" where
  "write_frames ser ms out = foldR (\<lambda>out m. write_frame ser True m out) out ms"

subsection \<open>The size prefix\<close>

lemma of_char_byte: "(of_char (char_of (unat (x AND 0xff))) :: u32) = x AND 0xff" for x :: u32
proof -
  have "x AND 0xff \<le> 0xff" by (rule word_and_le1)
  then have "unat (x AND 0xff) < 256" by (simp add: word_le_nat_alt)
  then have "of_char (char_of (unat (x AND 0xff))) = unat (x AND 0xff)" by (simp add: of_char_of)
  then show ?thesis using of_nat_of_char [of "char_of (unat (x AND 0xff))", where 'a = "32 word"] by simp
qed

lemma header_size_frame_header: "header_size (frame_header sz) = sz"
proof (rule bit_word_eqI)
  have mask: "(0xff :: u32) = mask 8" by (simp add: mask_eq_exp_minus_1)
  have bytes: "header_size (frame_header sz) =
      push_bit 24 (drop_bit 24 sz AND 0xff) OR push_bit 16 (drop_bit 16 sz AND 0xff)
      OR push_bit 8 (drop_bit 8 sz AND 0xff) OR (sz AND 0xff)"
    by (simp add: header_size_def frame_header_def of_char_byte)
  fix n assume n: "n < LENGTH(32)"
  show "bit (header_size (frame_header sz)) n = bit sz n"
    unfolding bytes mask using n
    by (cases "n < 8"; cases "n < 16"; cases "n < 24")
      (auto simp: bit_or_iff bit_push_bit_iff bit_and_iff bit_drop_bit_eq bit_mask_iff not_less)
qed

lemma length_frame_header [simp]: "length (frame_header sz) = 4"
  by (simp add: frame_header_def)

lemma frame_header_not_Nil [simp]: "frame_header sz \<noteq> []"
  by (simp add: frame_header_def)

subsection \<open>Reading what was written\<close>

lemma read_written:
  assumes "parse (ser m) = Some m" and "length (ser m) \<le> max_frame"
  shows "read_frame parse (frame_header (of_nat (length (ser m))) @ ser m @ rest) = Inr (Some (m, rest))"
proof -
  have "unat (of_nat (length (ser m)) :: u32) = length (ser m)"
    using assms(2) by (simp add: unat_of_nat max_frame_def)
  then show ?thesis
    using assms by (simp add: read_frame_def Let_def header_size_frame_header)
qed

subsection \<open>Frames of one message\<close>

definition frame_of :: "('m \<Rightarrow> bytes) \<Rightarrow> 'm \<Rightarrow> bytes" where
  "frame_of ser m = frame_header (of_nat (length (ser m))) @ ser m"

lemma write_frame_eq: "write_frame ser sink m out = Inr out' \<longleftrightarrow>
    length (ser m) \<le> max_frame \<and> sink \<and> out' = out @ frame_of ser m"
  by (auto simp: write_frame_def frame_of_def Let_def)

text \<open>What fits into a frame is parsed back, as the protobuf library promises.\<close>

definition parses_back :: "('m \<Rightarrow> bytes) \<Rightarrow> (bytes \<Rightarrow> 'm option) \<Rightarrow> bool" where
  "parses_back ser parse \<longleftrightarrow> (\<forall>m. length (ser m) \<le> max_frame \<longrightarrow> parse (ser m) = Some m)"

lemma read_frame_of:
  "parses_back ser parse \<Longrightarrow> length (ser m) \<le> max_frame \<Longrightarrow> read_frame parse (frame_of ser m @ rest) = Inr (Some (m, rest))"
  by (simp add: frame_of_def parses_back_def read_written)

lemma read_nothing: "read_frame parse [] = Inr None"
  by (simp add: read_frame_def)

subsection \<open>Sequences of frames\<close>

lemma write_frames_bytes:
  assumes "\<forall>m \<in> set ms. length (ser m) \<le> max_frame"
  shows "write_frames ser ms out
    = Inr (out @ concat (map (\<lambda>m. frame_header (of_nat (length (ser m))) @ ser m) ms))"
  using assms by (induction ms arbitrary: out) (auto simp: write_frames_def write_frame_def Let_def)

lemma read_frames_written:
  assumes "\<forall>m \<in> set ms. length (ser m) \<le> max_frame \<and> parse (ser m) = Some m"
  shows "read_frames parse (concat (map (\<lambda>m. frame_header (of_nat (length (ser m))) @ ser m) ms)) = Inr ms"
  using assms
proof (induction ms)
  case Nil
  then show ?case by (simp add: read_frames.simps read_frame_def)
next
  case (Cons m ms)
  let ?rest = "concat (map (\<lambda>m. frame_header (of_nat (length (ser m))) @ ser m) ms)"
  have "read_frame parse (frame_header (of_nat (length (ser m))) @ ser m @ ?rest)
      = Inr (Some (m, ?rest))"
    using Cons.prems by (intro read_written) auto
  then show ?case using Cons by (simp add: read_frames.simps [of parse "_ @ _"])
qed

subsection \<open>Properties\<close>

text \<open>What one process writes the other reads: a sequence of messages, each within the frame limit,
  comes back as the same sequence, and the reader then sees the end of the stream.\<close>

theorem frames_roundtrip:
  assumes "\<forall>m. parse (ser m) = Some m" and "\<forall>m \<in> set ms. length (ser m) \<le> max_frame"
  shows "bindR (write_frames ser ms []) (read_frames parse) = Inr ms"
  using assms by (simp add: write_frames_bytes read_frames_written)

theorem frames_roundtrip_witness:
  "bindR (write_frames id [''hello'', '''', ''x''] []) (read_frames Some) = Inr [''hello'', '''', ''x'']"
  by (rule frames_roundtrip) (simp_all add: max_frame_def)

text \<open>A cut stream is never mistaken for a message. Every non-empty proper prefix of a frame is
  reported as truncated, only the empty one as the end of the stream, and a size above the limit is
  refused before its payload is read.\<close>

theorem truncated_frame:
  assumes "write_frame ser sink m [] = Inr frame" and "0 < k" and "k < length frame"
  shows "read_frame parse [] = Inr None
    \<and> read_frame parse (take k frame)
        = Inl (Runtime_error (if k < 4 then ''truncated frame header'' else ''truncated protobuf frame''))"
proof -
  have frame: "frame = frame_header (of_nat (length (ser m))) @ ser m" and len: "length (ser m) \<le> max_frame"
    using assms(1) by (auto simp: write_frame_def Let_def split: if_splits)
  have sz: "unat (of_nat (length (ser m)) :: u32) = length (ser m)"
    using len by (simp add: unat_of_nat max_frame_def)
  have "read_frame parse (take k frame) = Inl (Runtime_error ''truncated frame header'')" if "k < 4"
    using that assms(2,3) by (auto simp: read_frame_def Let_def min_def)
  moreover have "read_frame parse (take k frame) = Inl (Runtime_error ''truncated protobuf frame'')"
    if "4 \<le> k"
  proof -
    have t: "take 4 (take k frame) = frame_header (of_nat (length (ser m)))"
      using that by (simp add: frame min_def)
    have "drop 4 (take k frame) = take (k - 4) (ser m)" using that by (simp add: frame)
    moreover have "k - 4 < length (ser m)" using that assms(3) by (simp add: frame)
    ultimately show ?thesis using len unfolding read_frame_def t Let_def header_size_frame_header sz
      by simp
  qed
  ultimately show ?thesis by (simp add: read_frame_def not_less)
qed

theorem truncated_frame_witness:
  "read_frame Some (take 6 (frame_header 5 @ ''hello'')) = Inl (Runtime_error ''truncated protobuf frame'')"
proof -
  have "write_frame id True ''hello'' [] = Inr (frame_header 5 @ ''hello'')"
    by (simp add: write_frame_def max_frame_def)
  from truncated_frame [OF this, of 6 Some] show ?thesis by simp
qed

end
