(* ===== verification/Event_Log.thy ===== *)
theory Event_Log
  imports Sim_Observe Framing
begin

text \<open>
  The event log of a run (\<^verbatim>\<open>core/src/event_log.cpp\<close>) and the live run that writes it (\<^verbatim>\<open>sim/src/main.cpp\<close>,
  \<open>run\<close>). Files and standard streams are byte strings: what is still to be read, or what has been written. Opening,
  closing and renaming files is outside; \<open>sink\<close> says whether the output file takes what is written. \<open>ser_entry\<close>,
  \<open>parse_entry\<close>, \<open>ser_frame\<close> and \<open>parse_frame\<close> are the protobuf library on log entries and on the frames of the
  simulator's standard streams.
\<close>

subsection \<open>Entries\<close>

record log_header =
  lh_schema :: u32
  lh_name :: string
  lh_seed :: u64
  lh_hash :: string

record event_record =
  er_sequence :: u64
  er_tick :: u64
  er_actions :: action_batch
  er_applied :: "applied_event list"
  er_hash :: string
  er_network :: "net_outcome list"

datatype log_entry =
    Empty_entry
  | Header_entry log_header
  | Record_entry event_record
  | Footer_entry summary

datatype sim_frame =
    Empty_frame
  | Observations_frame observation_batch
  | Actions_frame action_batch

subsection \<open>Writing\<close>

record log_writer =
  lw_output :: bytes
  lw_sequence :: u64
  lw_finished :: bool

definition open_log ::
    "serializer \<Rightarrow> (log_entry \<Rightarrow> bytes) \<Rightarrow> bool \<Rightarrow> scenario \<Rightarrow> log_writer result" where
  "open_log ser ser_entry sink sc =
     (if \<not> sink then Inl (Runtime_error ''failed to open event log'')
      else bindR (write_frame ser_entry sink
             (Header_entry \<lparr>lh_schema = 1, lh_name = sc_name sc, lh_seed = sc_seed sc, lh_hash = scenario_hash ser sc\<rparr>) [])
             (\<lambda>out. Inr \<lparr>lw_output = out, lw_sequence = 0, lw_finished = False\<rparr>))"

definition append_log ::
    "(log_entry \<Rightarrow> bytes) \<Rightarrow> bool \<Rightarrow> u64 \<Rightarrow> action_batch \<Rightarrow> applied_event list \<Rightarrow> net_outcome list \<Rightarrow> string
     \<Rightarrow> log_writer \<Rightarrow> log_writer result" where
  "append_log ser_entry sink tick actions applied network hash w =
     (if lw_finished w then Inl (Logic_error ''event log is finalized'')
      else
        let n = lw_sequence w + 1
        in bindR (write_frame ser_entry sink
             (Record_entry \<lparr>er_sequence = n, er_tick = tick, er_actions = actions, er_applied = applied,
                er_hash = hash, er_network = network\<rparr>) (lw_output w))
             (\<lambda>out. Inr (w\<lparr>lw_sequence := n, lw_output := out\<rparr>)))"

definition finish_log :: "(log_entry \<Rightarrow> bytes) \<Rightarrow> bool \<Rightarrow> summary \<Rightarrow> log_writer \<Rightarrow> log_writer result" where
  "finish_log ser_entry sink sm w =
     (if lw_finished w then Inl (Logic_error ''event log is finalized'')
      else bindR (write_frame ser_entry sink (Footer_entry sm) (lw_output w))
             (\<lambda>out. Inr (w\<lparr>lw_output := out, lw_finished := True\<rparr>)))"

subsection \<open>Replaying\<close>

text \<open>The two loops that compare what was recorded with what the replay gave, element by element.\<close>

definition same_items :: "('a \<Rightarrow> bytes) \<Rightarrow> 'a list \<Rightarrow> 'a list \<Rightarrow> bool" where
  "same_items f xs ys \<longleftrightarrow> list_all (\<lambda>i. f (xs ! i) = f (ys ! i)) [0..<length xs]"

definition replay_record :: "serializer \<Rightarrow> event_record \<Rightarrow> sim \<Rightarrow> (sim \<times> observation_batch) result" where
  "replay_record ser r s =
     bindR (replay_step ser (er_actions r) (er_applied r) s) (\<lambda>(s', out).
       if er_tick r \<noteq> si_tick s' \<or> er_hash r \<noteq> si_hash s' \<or> length (er_applied r) \<noteq> length (so_applied out)
          \<or> length (er_network r) \<noteq> length (so_network out)
       then Inl (Runtime_error ''event log replay diverged'')
       else if \<not> same_items (\<lambda>x. ser (P_Outcome x)) (er_network r) (so_network out)
       then Inl (Runtime_error ''event log network replay diverged'')
       else if \<not> same_items (\<lambda>x. ser (P_Applied x)) (er_applied r) (so_applied out)
       then Inl (Runtime_error ''event log event replay diverged'')
       else Inr (s', so_observations out))"

text \<open>The variables of the loop over the entries.\<close>

record replay_state =
  rp_sequence :: u64
  rp_footer :: "summary option"
  rp_sim :: sim
  rp_observations :: "observation_batch list"

definition replay_entry :: "serializer \<Rightarrow> replay_state \<Rightarrow> log_entry \<Rightarrow> replay_state result" where
  "replay_entry ser st e =
     (case e of
        Footer_entry sm \<Rightarrow>
          if rp_footer st \<noteq> None then Inl (Runtime_error ''event log contains duplicate terminal events'')
          else Inr (st\<lparr>rp_footer := Some sm\<rparr>)
      | Record_entry r \<Rightarrow>
          if rp_footer st \<noteq> None \<or> er_sequence r \<noteq> rp_sequence st + 1
          then Inl (Runtime_error ''invalid event log sequence'')
          else bindR (replay_record ser r (rp_sim st)) (\<lambda>(s', obs).
                 Inr (st\<lparr>rp_sequence := rp_sequence st + 1, rp_sim := s',
                         rp_observations := rp_observations st @ [obs]\<rparr>))
      | _ \<Rightarrow> Inl (Runtime_error ''invalid event log sequence''))"

function replay_loop ::
    "serializer \<Rightarrow> (bytes \<Rightarrow> log_entry option) \<Rightarrow> replay_state \<Rightarrow> bytes \<Rightarrow> replay_state result" where
  "replay_loop ser parse_entry st input =
     (case read_frame parse_entry input of
        Inl e \<Rightarrow> Inl e
      | Inr None \<Rightarrow> Inr st
      | Inr (Some (e, rest)) \<Rightarrow>
          (case replay_entry ser st e of Inl x \<Rightarrow> Inl x | Inr st' \<Rightarrow> replay_loop ser parse_entry st' rest))"
  by pat_completeness auto
termination
  by (relation "measure (\<lambda>(ser, parse_entry, st, input). length input)") (auto dest: read_frame_shorter)

declare replay_loop.simps [simp del]

definition header_matches :: "serializer \<Rightarrow> scenario \<Rightarrow> log_header \<Rightarrow> bool" where
  "header_matches ser sc h \<longleftrightarrow> lh_schema h = 1 \<and> lh_name h = sc_name sc \<and> lh_seed h = sc_seed sc
     \<and> lh_hash h = scenario_hash ser sc"

definition read_header :: "serializer \<Rightarrow> (bytes \<Rightarrow> log_entry option) \<Rightarrow> scenario \<Rightarrow> bytes \<Rightarrow> bytes result" where
  "read_header ser parse_entry sc input =
     bindR (read_frame parse_entry input) (\<lambda>found.
       case found of
         Some (Header_entry h, rest) \<Rightarrow>
           if header_matches ser sc h then Inr rest else Inl (Runtime_error ''event log scenario mismatch'')
       | _ \<Rightarrow> Inl (Runtime_error ''event log header is missing''))"

text \<open>The summary, and the observations the caller may ask for. \<open>None\<close> is a file that does not open.\<close>

definition replay_event_log ::
    "serializer \<Rightarrow> (bytes \<Rightarrow> log_entry option) \<Rightarrow> scenario \<Rightarrow> bytes option
     \<Rightarrow> (summary \<times> observation_batch list) result" where
  "replay_event_log ser parse_entry sc file =
     (case file of
        None \<Rightarrow> Inl (Runtime_error ''failed to open event log'')
      | Some input \<Rightarrow>
          bindR (read_header ser parse_entry sc input) (\<lambda>rest.
          bindR (new_simulator ser sc) (\<lambda>s.
          bindR (observe s) (\<lambda>first.
          bindR (replay_loop ser parse_entry \<lparr>rp_sequence = 0, rp_footer = None, rp_sim = s, rp_observations = [first]\<rparr>
                   rest) (\<lambda>st.
            let sm = summarize (rp_sim st)
            in case rp_footer st of
                 None \<Rightarrow> Inl (Runtime_error ''event log terminal event is invalid'')
               | Some footer \<Rightarrow>
                   if \<not> finished (rp_sim st) \<or> ser (P_Summary footer) \<noteq> ser (P_Summary sm)
                   then Inl (Runtime_error ''event log terminal event is invalid'')
                   else Inr (sm, rp_observations st))))))"

text \<open>The bytes of the trace file.\<close>

definition export_replay_trace ::
    "serializer \<Rightarrow> (bytes \<Rightarrow> log_entry option) \<Rightarrow> (sim_frame \<Rightarrow> bytes) \<Rightarrow> scenario \<Rightarrow> bytes option
     \<Rightarrow> (summary \<times> bytes) result" where
  "export_replay_trace ser parse_entry ser_frame sc file =
     bindR (replay_event_log ser parse_entry sc file) (\<lambda>(sm, observations).
     bindR (write_frames ser_frame (map Observations_frame observations) []) (\<lambda>trace. Inr (sm, trace)))"

subsection \<open>The live run\<close>

text \<open>One exchange: an action batch is read, the step taken and logged, its observations written.\<close>

definition live_turn ::
    "serializer \<Rightarrow> (log_entry \<Rightarrow> bytes) \<Rightarrow> (sim_frame \<Rightarrow> bytes) \<Rightarrow> bool \<Rightarrow> action_batch \<Rightarrow> sim \<times> log_writer \<times> bytes
     \<Rightarrow> (sim \<times> log_writer \<times> bytes) result" where
  "live_turn ser ser_entry ser_frame sink actions = (\<lambda>(s, w, output).
     bindR (step ser actions s) (\<lambda>(s', out).
     bindR (append_log ser_entry sink (si_tick s') (so_actions out) (so_applied out) (so_network out) (si_hash s') w) (\<lambda>w'.
     bindR (write_frame ser_frame True (Observations_frame (so_observations out)) output) (\<lambda>output'.
       Inr (s', w', output')))))"

function live_loop ::
    "serializer \<Rightarrow> (log_entry \<Rightarrow> bytes) \<Rightarrow> (sim_frame \<Rightarrow> bytes) \<Rightarrow> (bytes \<Rightarrow> sim_frame option) \<Rightarrow> bool
     \<Rightarrow> sim \<times> log_writer \<times> bytes \<Rightarrow> bytes \<Rightarrow> (sim \<times> log_writer \<times> bytes) result" where
  "live_loop ser ser_entry ser_frame parse_frame sink st input =
     (if finished (fst st) then Inr st
      else
        (case read_frame parse_frame input of
           Inl e \<Rightarrow> Inl e
         | Inr (Some (Actions_frame actions, rest)) \<Rightarrow>
             (case live_turn ser ser_entry ser_frame sink actions st of
                Inl e \<Rightarrow> Inl e
              | Inr st' \<Rightarrow> live_loop ser ser_entry ser_frame parse_frame sink st' rest)
         | _ \<Rightarrow> Inl (Runtime_error ''simulation action stream ended early'')))"
  by pat_completeness auto
termination
  by (relation "measure (\<lambda>(ser, ser_entry, ser_frame, parse_frame, sink, st, input). length input)")
    (auto dest: read_frame_shorter)

declare live_loop.simps [simp del]

text \<open>The summary, what went to the standard output, and the log file.\<close>

definition run_simulation ::
    "serializer \<Rightarrow> (log_entry \<Rightarrow> bytes) \<Rightarrow> (sim_frame \<Rightarrow> bytes) \<Rightarrow> (bytes \<Rightarrow> sim_frame option) \<Rightarrow> bool
     \<Rightarrow> scenario \<Rightarrow> bytes \<Rightarrow> (summary \<times> bytes \<times> bytes) result" where
  "run_simulation ser ser_entry ser_frame parse_frame sink sc input =
     bindR (new_simulator ser sc) (\<lambda>s.
     bindR (open_log ser ser_entry sink sc) (\<lambda>w.
     bindR (observe s) (\<lambda>first.
     bindR (write_frame ser_frame True (Observations_frame first) []) (\<lambda>output.
     bindR (live_loop ser ser_entry ser_frame parse_frame sink (s, w, output) input) (\<lambda>(s', w', output').
     bindR (finish_log ser_entry sink (summarize s') w') (\<lambda>w''.
       Inr (summarize s', output', lw_output w'')))))))"

end
