(* ===== verification/Ordered_Map.thy ===== *)
theory Ordered_Map
  imports Prelude
begin

text \<open>
  \<open>std::map\<close> where the sources iterate over it: an association list in strictly increasing order of
  its keys, which is the order of a range-\<open>for\<close>. \<open>map_find\<close> is \<open>find\<close>, \<open>map_put\<close> assignment through
  \<open>operator[]\<close>, \<open>map_emplace\<close> is \<open>emplace\<close> (an existing entry stays), \<open>map_adjust\<close> a write through
  the reference that \<open>operator[]\<close> returns, with the default the missing entry starts from, and
  \<open>map_erase\<close> is \<open>erase\<close> by key. \<open>binary_search\<close> is the algorithm on a sorted vector.
\<close>

type_synonym ('k, 'v) ordered_map = "('k \<times> 'v) list"

definition map_find :: "('k::linorder, 'v) ordered_map \<Rightarrow> 'k \<Rightarrow> 'v option" where
  "map_find m k = map_option snd (find_by fst m k)"

definition map_put :: "'k::linorder \<Rightarrow> 'v \<Rightarrow> ('k, 'v) ordered_map \<Rightarrow> ('k, 'v) ordered_map" where
  "map_put k v m =
     (if find_by fst m k = None then insert_by fst (k, v) m else update_by fst k (\<lambda>p. (k, v)) m)"

definition map_emplace :: "'k::linorder \<Rightarrow> 'v \<Rightarrow> ('k, 'v) ordered_map \<Rightarrow> ('k, 'v) ordered_map" where
  "map_emplace k v m = (if find_by fst m k = None then insert_by fst (k, v) m else m)"

definition map_adjust ::
    "'k::linorder \<Rightarrow> 'v \<Rightarrow> ('v \<Rightarrow> 'v) \<Rightarrow> ('k, 'v) ordered_map \<Rightarrow> ('k, 'v) ordered_map" where
  "map_adjust k init f m =
     (case map_find m k of None \<Rightarrow> map_put k (f init) m | Some v \<Rightarrow> map_put k (f v) m)"

definition map_erase :: "'k::linorder \<Rightarrow> ('k, 'v) ordered_map \<Rightarrow> ('k, 'v) ordered_map" where
  "map_erase k m = (if find_by fst m k = None then m else erase_by fst k m)"

text \<open>\<open>at\<close> throws \<open>std::out_of_range\<close> where there is no entry.\<close>

definition map_at :: "('k::linorder, 'v) ordered_map \<Rightarrow> 'k \<Rightarrow> 'v result" where
  "map_at m k = (case map_find m k of None \<Rightarrow> Inl Out_of_range | Some v \<Rightarrow> Inr v)"

definition binary_search :: "'k::linorder list \<Rightarrow> 'k \<Rightarrow> bool" where
  "binary_search xs k \<longleftrightarrow> find_by (\<lambda>x. x) xs k \<noteq> None"

text \<open>The well-formedness of the representation, and the map it stands for.\<close>

abbreviation map_ok :: "('k::linorder, 'v) ordered_map \<Rightarrow> bool" where
  "map_ok m \<equiv> strictly_sorted fst m"

text \<open>One step of each operation, from the least key on.\<close>

lemma map_find_simps [simp]:
  "map_find [] k = None"
  "map_find ((j, w) # m) k = (if j < k then map_find m k else if j = k then Some w else None)"
  by (simp_all add: map_find_def)

lemma map_put_simps [simp]:
  "map_put k v [] = [(k, v)]"
  "map_put k v ((j, w) # m) =
     (if j < k then (j, w) # map_put k v m else if j = k then (k, v) # m else (k, v) # (j, w) # m)"
  by (auto simp: map_put_def)

lemma map_emplace_simps [simp]:
  "map_emplace k v [] = [(k, v)]"
  "map_emplace k v ((j, w) # m) =
     (if j < k then (j, w) # map_emplace k v m else if j = k then (j, w) # m else (k, v) # (j, w) # m)"
  by (auto simp: map_emplace_def)

lemma map_erase_simps [simp]:
  "map_erase k [] = []"
  "map_erase k ((j, w) # m) =
     (if j < k then (j, w) # map_erase k m else if j = k then m else (j, w) # m)"
  by (auto simp: map_erase_def)

lemma map_find_below: "\<forall>p \<in> set m. k < fst p \<Longrightarrow> map_find m k = None"
  by (induction m) auto

lemma map_find_mem: "map_find m k = Some v \<Longrightarrow> (k, v) \<in> set m"
  by (induction m) (auto split: if_splits)

lemma map_find_iff: "map_ok m \<Longrightarrow> map_find m k = Some v \<longleftrightarrow> (k, v) \<in> set m"
  by (induction m) (auto dest: map_find_mem)

lemma map_find_None: "map_ok m \<Longrightarrow> map_find m k = None \<longleftrightarrow> k \<notin> fst ` set m"
  by (simp add: map_find_def find_by_None)

lemma map_find_map_of: "map_ok m \<Longrightarrow> map_find m k = map_of m k"
proof (induction m)
  case (Cons p m)
  then show ?case
    using map_of_eq_None_iff [of m k] map_find_below [of m k] by (cases p) auto
qed simp

lemma set_map_put: "p \<in> set (map_put k v m) \<Longrightarrow> p = (k, v) \<or> p \<in> set m"
  by (induction m) (auto split: if_splits)

lemma set_map_emplace: "p \<in> set (map_emplace k v m) \<Longrightarrow> p = (k, v) \<or> p \<in> set m"
  by (induction m) (auto split: if_splits)

lemma set_map_erase: "p \<in> set (map_erase k m) \<Longrightarrow> p \<in> set m"
  by (induction m) (auto split: if_splits)

lemma keys_map_put [simp]: "fst ` set (map_put k v m) = insert k (fst ` set m)"
  by (induction m) (auto simp only: split_paired_all map_put_simps list.set image_insert image_empty fst_conv
    insert_commute split: if_split)

lemma keys_map_emplace [simp]: "fst ` set (map_emplace k v m) = insert k (fst ` set m)"
  by (induction m) (auto simp only: split_paired_all map_emplace_simps list.set image_insert image_empty fst_conv
    insert_commute split: if_split)

lemma map_ok_Cons:
  "map_ok ((j, w) # m) \<longleftrightarrow> map_ok m \<and> (\<forall>i \<in> fst ` set m. j < i)"
  by auto

lemma map_put_ok: "map_ok m \<Longrightarrow> map_ok (map_put k v m)"
proof (induction m)
  case (Cons p m)
  obtain j w where p: "p = (j, w)" by (cases p)
  from Cons have "map_ok (map_put k v m)" "\<forall>i \<in> fst ` set m. j < i" by (auto simp: p)
  with Cons.prems show ?case unfolding p map_put_simps
    by (auto simp only: map_ok_Cons keys_map_put split: if_split) (auto intro: less_trans)
qed simp

lemma map_emplace_ok: "map_ok m \<Longrightarrow> map_ok (map_emplace k v m)"
  unfolding map_emplace_def using strictly_sorted_insert_by [of fst m "(k, v)"] by simp

lemma map_adjust_ok: "map_ok m \<Longrightarrow> map_ok (map_adjust k init f m)"
  unfolding map_adjust_def by (simp add: map_put_ok split: option.split)

lemma map_erase_ok: "map_ok m \<Longrightarrow> map_ok (map_erase k m)"
  unfolding map_erase_def by (simp add: erase_by_filter strictly_sorted_filter)

lemmas map_ok_intros = map_put_ok map_emplace_ok map_adjust_ok map_erase_ok

lemma map_find_put [simp]:
  "map_find (map_put k v m) j = (if j = k then Some v else map_find m j)"
  by (induction m) auto

lemma map_find_emplace [simp]:
  "map_find (map_emplace k v m) j = (if j = k \<and> map_find m k = None then Some v else map_find m j)"
  by (induction m) auto

lemma map_find_adjust [simp]:
  "map_find (map_adjust k init f m) j =
     (if j = k then Some (case map_find m k of None \<Rightarrow> f init | Some v \<Rightarrow> f v) else map_find m j)"
  by (simp add: map_adjust_def split: option.split)

lemma map_find_erase:
  "map_ok m \<Longrightarrow> map_find (map_erase k m) j = (if j = k then None else map_find m j)"
proof (induction m)
  case (Cons p m)
  then show ?case
    using map_find_below [of m j] map_find_below [of m k] by (cases p) (auto dest: less_trans)
qed simp

lemma map_at_eq_Inr [simp]: "map_at m k = Inr v \<longleftrightarrow> map_find m k = Some v"
  by (simp add: map_at_def split: option.split)

lemma binary_search_iff: "sorted xs \<Longrightarrow> binary_search xs k \<longleftrightarrow> k \<in> set xs"
  by (induction xs) (auto simp: binary_search_def)

end
