(* ===== verification/Allocation.thy ===== *)
theory Allocation
  imports Planner Proto Ordered_Map
begin

text \<open>
  The decentralised allocator (\<^verbatim>\<open>agent/src/allocation.cpp\<close>). Each agent bids for the tasks nobody
  owns, hears the states its peers broadcast, selects the best known claim on every task, and commits
  a task it wins once every reachable peer reports the very same winner.

  A \<open>std::map\<close> is an ordered association list (\<open>Ordered_Map\<close>), \<open>Allocator::Impl\<close> the record
  \<open>allocator\<close>, and an exception a value of \<open>result\<close>. The protobuf library is two parameters:
  \<open>ser\<close> for \<open>deterministic_bytes\<close> and \<open>parse\<close> for \<open>AllocationState::ParseFromString\<close>.
\<close>

type_synonym bid_map = "(string, alloc_bid) ordered_map"
type_synonym task_table = "(string, task_state) ordered_map"
type_synonym peer_map = "(string, alloc_state) ordered_map"

subsection \<open>Comparisons\<close>

definition same_bid :: "alloc_bid \<Rightarrow> alloc_bid \<Rightarrow> bool" where
  "same_bid l r \<longleftrightarrow>
     (bd_epoch l, bd_version l, bd_task l, bd_bidder l, bd_score l, bd_distance l, bd_energy l,
      bd_completion l, bd_position l)
     = (bd_epoch r, bd_version r, bd_task r, bd_bidder r, bd_score r, bd_distance r, bd_energy r,
        bd_completion r, bd_position r)"

definition same_relay :: "alloc_relay \<Rightarrow> alloc_relay \<Rightarrow> bool" where
  "same_relay l r \<longleftrightarrow> same_bid (rl_bid l) (rl_bid r) \<and> rl_path l = rl_path r"

definition same_bid_content :: "alloc_bid \<Rightarrow> alloc_bid \<Rightarrow> bool" where
  "same_bid_content l r \<longleftrightarrow>
     (bd_task l, bd_bidder l, bd_score l, bd_distance l, bd_energy l, bd_completion l, bd_position l)
     = (bd_task r, bd_bidder r, bd_score r, bd_distance r, bd_energy r, bd_completion r, bd_position r)"

definition same_owner :: "alloc_commit \<Rightarrow> alloc_commit \<Rightarrow> bool" where
  "same_owner l r \<longleftrightarrow>
     (cm_epoch l, cm_version l, cm_task l, cm_agent l, cm_distance l, cm_score l, cm_position l)
     = (cm_epoch r, cm_version r, cm_task r, cm_agent r, cm_distance r, cm_score r, cm_position r)"

definition better :: "policy \<Rightarrow> alloc_bid \<Rightarrow> alloc_bid \<Rightarrow> bool" where
  "better pol l r =
     (if pol = AP_Sentinel_Cbba
      then (if bd_score l \<noteq> bd_score r then bd_score l > bd_score r else bd_bidder l < bd_bidder r)
      else (bd_distance l, bd_bidder l) < (bd_distance r, bd_bidder r))"

definition same_state :: "alloc_state \<Rightarrow> alloc_state \<Rightarrow> bool" where
  "same_state l r =
     (if as_epoch l \<noteq> as_epoch r \<or> as_sender l \<noteq> as_sender r \<or> as_map_version l \<noteq> as_map_version r
         \<or> length (as_bids l) \<noteq> length (as_bids r) \<or> length (as_winners l) \<noteq> length (as_winners r)
         \<or> length (as_relays l) \<noteq> length (as_relays r) \<or> length (as_bundle l) \<noteq> length (as_bundle r)
         \<or> length (as_owners l) \<noteq> length (as_owners r)
      then False
      else list_all2 same_bid (as_bids l) (as_bids r) \<and> list_all2 same_bid (as_winners l) (as_winners r)
        \<and> list_all2 same_relay (as_relays l) (as_relays r)
        \<and> list_all2 same_owner (as_owners l) (as_owners r) \<and> as_bundle l = as_bundle r)"

subsection \<open>The winner of a task\<close>

text \<open>What is known of one bidder's claim on the task.\<close>

record claims =
  cs_origin :: "alloc_bid option"
  cs_watermark :: u64
  cs_direct :: bool
  cs_relays :: "alloc_bid list"

definition no_claims :: claims where
  "no_claims = \<lparr>cs_origin = None, cs_watermark = 0, cs_direct = False, cs_relays = []\<rparr>"

type_synonym claim_map = "(string, claims) ordered_map"

text \<open>A relayed winner counts as a claim of its bidder, unless that bidder is this agent or this agent
  is already on the relay's path.\<close>

definition add_relay :: "string \<Rightarrow> string \<Rightarrow> alloc_bid \<times> alloc_relay \<Rightarrow> claim_map \<Rightarrow> claim_map" where
  "add_relay task_id agent = (\<lambda>(bid, relay) m.
     if bd_task bid = task_id \<and> bd_bidder bid \<noteq> agent \<and> agent \<notin> set (rl_path relay)
     then map_adjust (bd_bidder bid) no_claims (\<lambda>c. c\<lparr>cs_relays := cs_relays c @ [bid]\<rparr>) m
     else m)"

text \<open>The body of the loop over the peers. Winners and relays are walked with one index; a stored peer
  state has as many of one as of the other.\<close>

definition add_peer :: "string \<Rightarrow> string \<Rightarrow> claim_map \<Rightarrow> string \<times> alloc_state \<Rightarrow> claim_map" where
  "add_peer task_id agent m = (\<lambda>(peer, st).
     let m1 = map_adjust peer no_claims
                (\<lambda>c. fold (\<lambda>bid c. if bd_task bid = task_id then c\<lparr>cs_origin := Some bid\<rparr> else c) (as_bids st)
                       (c\<lparr>cs_watermark := as_version st, cs_direct := True\<rparr>)) m
     in fold (add_relay task_id agent) (zip (as_winners st) (as_relays st)) m1)"

definition gather_claims :: "string \<Rightarrow> string \<Rightarrow> bid_map \<Rightarrow> peer_map \<Rightarrow> claim_map" where
  "gather_claims task_id agent own peers =
     (let m0 = (case map_find own task_id of
                  None \<Rightarrow> []
                | Some bid \<Rightarrow> map_adjust agent no_claims (\<lambda>c. c\<lparr>cs_origin := Some bid\<rparr>) [])
      in foldl (add_peer task_id agent) m0 peers)"

definition newest_relay :: "claims \<Rightarrow> u64" where
  "newest_relay c =
     foldl (\<lambda>newest relay.
        if \<not> cs_direct c \<or> bd_version relay > cs_watermark c then max newest (bd_version relay) else newest)
       0 (cs_relays c)"

text \<open>The relays of the newest version must agree; the loop stops at the first that does not.\<close>

fun agreed_relay :: "u64 \<Rightarrow> alloc_bid option \<Rightarrow> alloc_bid list \<Rightarrow> alloc_bid option" where
  "agreed_relay newest candidate [] = candidate"
| "agreed_relay newest candidate (relay # relays) =
     (if bd_version relay \<noteq> newest then agreed_relay newest candidate relays
      else case candidate of
             None \<Rightarrow> agreed_relay newest (Some relay) relays
           | Some c \<Rightarrow> if \<not> same_bid c relay then None else agreed_relay newest candidate relays)"

definition claim_of :: "string \<Rightarrow> string \<Rightarrow> claims \<Rightarrow> alloc_bid option" where
  "claim_of agent bidder c =
     (if bidder = agent then cs_origin c
      else let newest = newest_relay c
           in if newest \<noteq> 0 then agreed_relay newest None (cs_relays c) else cs_origin c)"

definition best_claim ::
    "string \<Rightarrow> policy \<Rightarrow> alloc_bid option \<Rightarrow> string \<times> claims \<Rightarrow> alloc_bid option" where
  "best_claim agent pol winner = (\<lambda>(bidder, c).
     case claim_of agent bidder c of
       None \<Rightarrow> winner
     | Some candidate \<Rightarrow> keep_best (better pol) winner candidate)"

definition winner_for ::
    "string \<Rightarrow> string \<Rightarrow> bid_map \<Rightarrow> peer_map \<Rightarrow> policy \<Rightarrow> alloc_bid option" where
  "winner_for task_id agent own peers pol =
     foldl (best_claim agent pol) None (gather_claims task_id agent own peers)"

definition winners_for :: "task_table \<Rightarrow> string \<Rightarrow> bid_map \<Rightarrow> peer_map \<Rightarrow> policy \<Rightarrow> bid_map" where
  "winners_for tasks agent own peers pol =
     foldl (\<lambda>winners (task_id, task).
        case winner_for task_id agent own peers pol of
          None \<Rightarrow> winners
        | Some winner \<Rightarrow> map_emplace task_id winner winners) [] tasks"

definition winner_in :: "alloc_state \<Rightarrow> string \<Rightarrow> alloc_bid option" where
  "winner_in st task_id = find_by bd_task (as_winners st) task_id"

text \<open>The shortest path by which the winner can have come here, the least one among those.\<close>

definition shorter_path :: "string list \<Rightarrow> string list \<Rightarrow> bool" where
  "shorter_path path selected \<longleftrightarrow>
     selected = [] \<or> length path < length selected \<or> (length path = length selected \<and> path < selected)"

definition try_path :: "alloc_bid \<Rightarrow> string \<Rightarrow> string list \<Rightarrow> alloc_relay \<Rightarrow> string list" where
  "try_path winner agent selected relay =
     (if \<not> same_bid (rl_bid relay) winner \<or> agent \<in> set (rl_path relay) then selected
      else let path = rl_path relay @ [agent]
           in if shorter_path path selected then path else selected)"

definition winner_path :: "alloc_bid \<Rightarrow> string \<Rightarrow> peer_map \<Rightarrow> string list result" where
  "winner_path winner agent peers =
     (let direct = (case map_find peers (bd_bidder winner) of
                      None \<Rightarrow> False
                    | Some origin \<Rightarrow>
                        (case find_by bd_task (as_bids origin) (bd_task winner) of
                           None \<Rightarrow> False
                         | Some bid \<Rightarrow> same_bid bid winner))
      in if bd_bidder winner = agent then Inr [agent]
         else if direct then Inr [bd_bidder winner, agent]
         else let selected = foldl (\<lambda>selected (peer, st). foldl (try_path winner agent) selected (as_relays st))
                               [] peers
              in if selected = [] then Inl (Logic_error ''winner path missing'') else Inr selected)"

subsection \<open>Bundles in order\<close>

definition ordered_tasks :: "string list \<Rightarrow> task_table \<Rightarrow> task_state list result" where
  "ordered_tasks bundle tasks = mapR (map_at tasks) bundle"

text \<open>\<open>std::sort\<close> calls its comparator, which may throw, only where there are two elements to compare.\<close>

definition ordered_path :: "string list \<Rightarrow> bid_map \<Rightarrow> string list result" where
  "ordered_path build bids =
     (if length build < 2 then Inr build
      else bindR (mapR (\<lambda>i. bindR (map_at bids i) (\<lambda>b. Inr (bd_position b, i))) build)
             (\<lambda>keys. Inr (map snd (sort keys))))"

definition set_positions :: "bid_map \<Rightarrow> string list \<Rightarrow> bid_map result" where
  "set_positions bids bundle =
     foldR (\<lambda>m i. bindR (map_at m (bundle ! i))
                (\<lambda>b. Inr (map_put (bundle ! i) (b\<lparr>bd_position := of_nat i\<rparr>) m)))
       bids [0..<length bundle]"

definition allocator_policy_ok :: "policy \<Rightarrow> bool" where
  "allocator_policy_ok pol \<longleftrightarrow> pol = AP_Nearest_Capable \<or> pol = AP_Sentinel_Cbba"

subsection \<open>The allocator\<close>

text \<open>\<open>al_routes\<close> is the cache of the evaluator that \<open>synchronize\<close> makes for the current basis, empty
  where the policy has no evaluator. \<open>evaluator_\<close> keeps copies of the basis, which no other code
  changes.\<close>

record allocator =
  al_agent :: string
  al_epoch :: u64
  al_map_version :: u64
  al_basis_tick :: u64
  al_step_ms :: u64
  al_policy :: policy
  al_self :: vehicle_state
  al_world :: world
  al_routes :: route_cache
  al_state :: alloc_state
  al_serialized :: bytes
  al_serialized_version :: u64
  al_broadcast_version :: u64
  al_own_bids :: bid_map
  al_peers :: peer_map
  al_build :: "string list"

record allocation_result =
  ar_state :: alloc_state
  ar_messages :: "net_message list"
  ar_commits :: "alloc_commit list"
  ar_pending :: bool
  ar_coordinated :: bool

text \<open>The default messages behind a new allocator; \<open>synchronize\<close> replaces both before their first use.\<close>

definition empty_vehicle :: vehicle_state where
  "empty_vehicle =
     \<lparr>vs_id = [], vs_kind = [], vs_pos = \<lparr>px = 0, py = 0\<rparr>, vs_vx = 0, vs_vy = 0, vs_speed = 0, vs_energy = 0,
      vs_payload = 0, vs_caps = [], vs_terrain = [], vs_active = False, vs_initial = 0, vs_cost = 0,
      vs_return = [], vs_capacity = 0\<rparr>"

definition empty_world :: world where
  "empty_world =
     \<lparr>wd_width = 0, wd_height = 0, wd_regions = [], wd_cell = 0, wd_map_version = 0, wd_locations = []\<rparr>"

definition new_allocator :: "string \<Rightarrow> allocator result" where
  "new_allocator agent =
     (if agent = [] then Inl (Invalid_argument ''empty allocator agent ID'')
      else Inr \<lparr>al_agent = agent, al_epoch = 0, al_map_version = 0, al_basis_tick = 0, al_step_ms = 0,
                al_policy = AP_Unspecified, al_self = empty_vehicle, al_world = empty_world,
                al_routes = Map.empty, al_state = empty_alloc_state, al_serialized = [],
                al_serialized_version = 0, al_broadcast_version = 0, al_own_bids = [], al_peers = [],
                al_build = []\<rparr>)"

definition validate_observation :: "allocator \<Rightarrow> observation \<Rightarrow> unit result" where
  "validate_observation al ob =
     require (\<not> (vs_id (ob_self ob) \<noteq> al_agent al \<or> ob_epoch ob = 0 \<or> wd_map_version (ob_world ob) = 0
                 \<or> ob_step_ms ob = 0 \<or> \<not> allocator_policy_ok (ob_policy ob)))
       (Invalid_argument ''invalid allocator observation'')"

definition synchronize :: "observation \<Rightarrow> allocator \<Rightarrow> allocator" where
  "synchronize ob al =
     (if al_epoch al = ob_epoch ob \<and> al_map_version al = wd_map_version (ob_world ob)
         \<and> al_policy al = ob_policy ob
      then al
      else al\<lparr>al_epoch := ob_epoch ob, al_map_version := wd_map_version (ob_world ob),
              al_policy := ob_policy ob, al_basis_tick := ob_tick ob, al_step_ms := ob_step_ms ob,
              al_self := ob_self ob, al_world := ob_world ob, al_routes := Map.empty,
              al_state := empty_alloc_state, al_serialized := [], al_serialized_version := 0,
              al_broadcast_version := 0, al_own_bids := [], al_peers := [], al_build := []\<rparr>)"

definition task_map :: "observation \<Rightarrow> task_table" where
  "task_map ob =
     foldl (\<lambda>m t. if ts_status t = TS_Pending then map_emplace (ts_id t) t m else m) [] (ob_known ob)"

definition unassigned_tasks :: "task_table \<Rightarrow> task_table" where
  "unassigned_tasks tasks =
     foldl (\<lambda>m (i, t). if ts_agent t = [] then map_emplace i t m else m) [] tasks"

definition committed_tasks :: "allocator \<Rightarrow> task_table \<Rightarrow> task_state list" where
  "committed_tasks al source =
     sort_key (\<lambda>t. (ts_epoch t, ts_position t, ts_deadline t, ts_id t))
       (map snd (filter (\<lambda>(i, t). ts_status t = TS_Pending \<and> ts_agent t = al_agent al) source))"

text \<open>Sorted and made unique, as every list of agents below is.\<close>

definition peer_ids :: "allocator \<Rightarrow> string list \<Rightarrow> string list" where
  "peer_ids al ids = remdups_adj (sort (filter (\<lambda>p. p \<noteq> al_agent al) ids))"

subsection \<open>Validation of what peers send\<close>

definition validate_bid :: "allocator \<Rightarrow> task_table \<Rightarrow> string list \<Rightarrow> alloc_bid \<Rightarrow> bool" where
  "validate_bid al tasks bidders b =
     (case map_find tasks (bd_task b) of
        None \<Rightarrow> False
      | Some t \<Rightarrow> bd_epoch b = al_epoch al \<and> bd_version b \<noteq> 0 \<and> binary_search bidders (bd_bidder b)
          \<and> bd_distance b \<ge> 0 \<and> bd_energy b \<ge> 0 \<and> bd_completion b \<le> ts_deadline t
          \<and> unat (bd_position b) < length tasks)"

definition plain_bid :: "allocator \<Rightarrow> alloc_bid \<Rightarrow> bool" where
  "plain_bid al b \<longleftrightarrow> \<not> (al_policy al = AP_Nearest_Capable \<and> (bd_score b \<noteq> 0 \<or> bd_position b \<noteq> 0))"

text \<open>The loop over the bids.\<close>

definition valid_bids :: "allocator \<Rightarrow> task_table \<Rightarrow> string list \<Rightarrow> alloc_state \<Rightarrow> bool" where
  "valid_bids al tasks bidders st \<longleftrightarrow>
     (\<forall>b \<in> set (as_bids st). validate_bid al tasks bidders b \<and> bd_bidder b = as_sender st
        \<and> bd_version b \<le> as_version st \<and> plain_bid al b)
     \<and> \<not> adjacent_dup bd_task (as_bids st)"

text \<open>The body of the loop over the winners, with the relay of the same index.\<close>

definition valid_winner ::
    "allocator \<Rightarrow> task_table \<Rightarrow> string list \<Rightarrow> alloc_state \<Rightarrow> alloc_bid \<times> alloc_relay \<Rightarrow> bool" where
  "valid_winner al tasks bidders st = (\<lambda>(b, relay).
     validate_bid al tasks bidders b \<and> same_bid (rl_bid relay) b \<and> rl_path relay \<noteq> []
     \<and> hd (rl_path relay) = bd_bidder b \<and> last (rl_path relay) = as_sender st \<and> plain_bid al b
     \<and> \<not> adjacent_dup (\<lambda>a. a) (sort (rl_path relay)) \<and> (\<forall>a \<in> set (rl_path relay). binary_search bidders a)
     \<and> (bd_bidder b = as_sender st \<longrightarrow>
          (case find_by bd_task (as_bids st) (bd_task b) of
             None \<Rightarrow> False
           | Some origin \<Rightarrow> same_bid origin b \<and> length (rl_path relay) = 1)))"

definition valid_owners :: "allocator \<Rightarrow> task_table \<Rightarrow> string list \<Rightarrow> alloc_state \<Rightarrow> bool" where
  "valid_owners al tasks members st \<longleftrightarrow>
     (let owners = sort (members @ [al_agent al])
      in (\<forall>c \<in> set (as_owners st).
            map_find tasks (cm_task c) \<noteq> None \<and> binary_search owners (cm_agent c) \<and> cm_epoch c \<noteq> 0
            \<and> cm_epoch c \<le> al_epoch al \<and> cm_version c \<noteq> 0 \<and> cm_distance c = 0)
         \<and> \<not> adjacent_dup cm_task (as_owners st))"

text \<open>The bundle names the bids, and their positions are those of the bundle in some order.\<close>

definition valid_bundle :: "allocator \<Rightarrow> alloc_state \<Rightarrow> bool" where
  "valid_bundle al st \<longleftrightarrow>
     \<not> adjacent_dup (\<lambda>i. i) (sort (as_bundle st))
     \<and> \<not> (al_policy al = AP_Nearest_Capable \<and> as_bundle st \<noteq> [])
     \<and> \<not> (al_policy al = AP_Sentinel_Cbba \<and> length (as_bundle st) \<noteq> length (as_bids st))
     \<and> (let bids = map (find_by bd_task (as_bids st)) (as_bundle st)
        in list_all (\<lambda>b. case b of None \<Rightarrow> False
                         | Some b \<Rightarrow> unat (bd_position b) < length (as_bundle st)) bids
           \<and> map unat (sort (map (\<lambda>b. bd_position (the b)) bids)) = [0..<length (as_bundle st)])"

definition sort_state :: "alloc_state \<Rightarrow> alloc_state" where
  "sort_state st =
     st\<lparr>as_bids := sort_key bd_task (as_bids st), as_winners := sort_key bd_task (as_winners st),
        as_relays := sort_key (\<lambda>r. bd_task (rl_bid r)) (as_relays st),
        as_owners := sort_key cm_task (as_owners st)\<rparr>"

text \<open>\<open>validate_state\<close> sorts the state in place; both callers drop a state it refuses.\<close>

definition validate_state ::
    "allocator \<Rightarrow> task_table \<Rightarrow> string list \<Rightarrow> string list \<Rightarrow> string list \<Rightarrow> alloc_state \<Rightarrow> alloc_state option" where
  "validate_state al tasks peers bidders members st =
     (if as_epoch st \<noteq> al_epoch al \<or> as_version st = 0 \<or> as_map_version st \<noteq> al_map_version al
         \<or> as_sender st = al_agent al \<or> \<not> binary_search peers (as_sender st)
         \<or> \<not> binary_search bidders (as_sender st)
      then None
      else
        let s = sort_state st
        in if valid_bids al tasks bidders s \<and> length (as_relays s) = length (as_winners s)
              \<and> list_all (valid_winner al tasks bidders s) (zip (as_winners s) (as_relays s))
              \<and> \<not> adjacent_dup bd_task (as_winners s)
              \<and> valid_owners al tasks members s \<and> valid_bundle al s
           then Some s else None)"

text \<open>One sender's newest report of this tick.\<close>

record peer_candidate =
  pc_state :: alloc_state
  pc_bytes :: bytes
  pc_conflict :: bool

definition consider_message ::
    "serializer \<Rightarrow> (bytes \<Rightarrow> alloc_state option) \<Rightarrow> allocator \<Rightarrow> task_table \<Rightarrow> string list \<Rightarrow> string list
     \<Rightarrow> string list \<Rightarrow> (string, peer_candidate) ordered_map \<Rightarrow> net_message
     \<Rightarrow> (string, peer_candidate) ordered_map" where
  "consider_message ser parse al tasks peers bidders members candidates msg =
     (if nm_recipient msg \<noteq> al_agent al \<or> nm_sender msg = al_agent al \<or> \<not> binary_search peers (nm_sender msg)
      then candidates
      else case parse (nm_payload msg) of
             None \<Rightarrow> candidates
           | Some incoming \<Rightarrow>
               if as_sender incoming \<noteq> nm_sender msg \<or> as_version incoming \<noteq> nm_version msg then candidates
               else case validate_state al tasks peers bidders members incoming of
                      None \<Rightarrow> candidates
                    | Some st \<Rightarrow>
                        let bytes = ser (P_State st);
                            fresh = map_put (nm_sender msg)
                              \<lparr>pc_state = st, pc_bytes = bytes, pc_conflict = False\<rparr> candidates
                        in case map_find candidates (nm_sender msg) of
                             None \<Rightarrow> fresh
                           | Some c \<Rightarrow>
                               if as_version st > as_version (pc_state c) then fresh
                               else if as_version st = as_version (pc_state c) \<and> bytes \<noteq> pc_bytes c
                               then map_put (nm_sender msg) (c\<lparr>pc_conflict := True\<rparr>) candidates
                               else candidates)"

definition adopt_candidate :: "peer_map \<Rightarrow> string \<times> peer_candidate \<Rightarrow> peer_map" where
  "adopt_candidate known = (\<lambda>(sender, c).
     if pc_conflict c then known
     else case map_find known sender of
            None \<Rightarrow> map_put sender (pc_state c) known
          | Some current \<Rightarrow>
              if as_version (pc_state c) > as_version current then map_put sender (pc_state c) known
              else known)"

definition accept_messages ::
    "serializer \<Rightarrow> (bytes \<Rightarrow> alloc_state option) \<Rightarrow> observation \<Rightarrow> task_table \<Rightarrow> string list \<Rightarrow> string list
     \<Rightarrow> string list \<Rightarrow> allocator \<Rightarrow> allocator" where
  "accept_messages ser parse ob tasks peers bidders members al =
     (let candidates = foldl (consider_message ser parse al tasks peers bidders members) [] (ob_delivered ob)
      in al\<lparr>al_peers := foldl adopt_candidate (al_peers al) candidates\<rparr>)"

text \<open>The loop of \<open>update\<close> that drops the peers out of reach and the states no longer valid.\<close>

fun keep_peers ::
    "allocator \<Rightarrow> task_table \<Rightarrow> string list \<Rightarrow> string list \<Rightarrow> string list \<Rightarrow> peer_map \<Rightarrow> peer_map" where
  "keep_peers al tasks peers bidders members [] = []"
| "keep_peers al tasks peers bidders members ((peer, st) # known) =
     (if \<not> binary_search peers peer then keep_peers al tasks peers bidders members known
      else case validate_state al tasks peers bidders members st of
             None \<Rightarrow> keep_peers al tasks peers bidders members known
           | Some s \<Rightarrow> (peer, s) # keep_peers al tasks peers bidders members known)"

subsection \<open>Who owns a task\<close>

record owner_candidate =
  oc_owner :: alloc_commit
  oc_direct :: bool

definition task_owner :: "string \<Rightarrow> task_state \<Rightarrow> alloc_commit" where
  "task_owner i t =
     \<lparr>cm_epoch = ts_epoch t, cm_version = ts_version t, cm_task = i, cm_agent = ts_agent t, cm_distance = 0,
      cm_score = ts_score t, cm_position = ts_position t\<rparr>"

definition owner_candidates :: "allocator \<Rightarrow> task_table \<Rightarrow> owner_candidate list" where
  "owner_candidates al tasks =
     map (\<lambda>(i, t). \<lparr>oc_owner = task_owner i t, oc_direct = (ts_agent t = al_agent al)\<rparr>)
       (filter (\<lambda>(i, t). ts_agent t \<noteq> []) tasks)
     @ concat (map (\<lambda>(peer, st). map (\<lambda>c. \<lparr>oc_owner = c, oc_direct = (cm_agent c = peer)\<rparr>) (as_owners st))
         (al_peers al))"

text \<open>A pair of a task and an agent that cannot be its owner: this agent, where the observation does not
  say so; an agent detected as failed; a peer whose own state does not claim the task.\<close>

definition unavailable :: "allocator \<Rightarrow> observation \<Rightarrow> task_table \<Rightarrow> (string \<times> string) list" where
  "unavailable al ob tasks =
     map (\<lambda>(i, t). (i, al_agent al)) (filter (\<lambda>(i, t). ts_agent t = [] \<or> ts_agent t \<noteq> al_agent al) tasks)
     @ concat (map (\<lambda>d. map (\<lambda>(i, t). (i, fd_failed d)) tasks) (ob_detections ob))
     @ concat (map (\<lambda>(peer, st).
         map (\<lambda>(i, t). (i, peer))
           (filter (\<lambda>(i, t). \<not> list_ex (\<lambda>c. cm_task c = i \<and> cm_agent c = peer) (as_owners st)) tasks))
         (al_peers al))"

definition replaces :: "owner_candidate \<Rightarrow> owner_candidate \<Rightarrow> bool" where
  "replaces a b =
     (let p = oc_owner a; q = oc_owner b
      in if oc_direct a \<noteq> oc_direct b then oc_direct a
         else if cm_epoch p \<noteq> cm_epoch q then cm_epoch p > cm_epoch q
         else if cm_version p \<noteq> cm_version q then cm_version p > cm_version q
         else if cm_score p \<noteq> cm_score q then cm_score p > cm_score q
         else if cm_agent p \<noteq> cm_agent q then cm_agent p < cm_agent q
         else cm_position p < cm_position q)"

definition select_owner ::
    "(string \<times> string) list \<Rightarrow> (string, owner_candidate) ordered_map \<Rightarrow> owner_candidate
     \<Rightarrow> (string, owner_candidate) ordered_map" where
  "select_owner closed selected c =
     (let task_id = cm_task (oc_owner c)
      in if (task_id, cm_agent (oc_owner c)) \<in> set closed then selected
         else case map_find selected task_id of
                None \<Rightarrow> map_emplace task_id c selected
              | Some current \<Rightarrow> if replaces c current then map_put task_id c selected else selected)"

definition assign_owner :: "allocator \<Rightarrow> owner_candidate option \<Rightarrow> task_state \<Rightarrow> task_state" where
  "assign_owner al owner t =
     (let progress = (if ts_agent t = al_agent al then ts_progress t else 0)
      in case owner of
           None \<Rightarrow> t\<lparr>ts_agent := [], ts_epoch := 0, ts_version := 0, ts_score := 0, ts_position := 0,
                     ts_progress := 0\<rparr>
         | Some c \<Rightarrow>
             let w = oc_owner c
             in t\<lparr>ts_agent := cm_agent w, ts_epoch := cm_epoch w, ts_version := cm_version w,
                  ts_score := cm_score w, ts_position := cm_position w,
                  ts_progress := (if cm_agent w = al_agent al then progress else 0)\<rparr>)"

definition merge_owners :: "allocator \<Rightarrow> observation \<Rightarrow> task_table \<Rightarrow> task_table" where
  "merge_owners al ob tasks =
     (let selected = foldl (select_owner (unavailable al ob tasks)) [] (owner_candidates al tasks)
      in map (\<lambda>(i, t). (i, assign_owner al (map_find selected i) t)) tasks)"

subsection \<open>Bidding\<close>

definition nearest_bid :: "allocator \<Rightarrow> string \<Rightarrow> task_state \<Rightarrow> route \<Rightarrow> alloc_bid" where
  "nearest_bid al i t r =
     \<lparr>bd_epoch = 0, bd_version = 0, bd_task = i, bd_bidder = al_agent al, bd_score = 0,
      bd_distance = ro_distance r,
      bd_energy = ro_energy r + to_i64 (ts_service t) * ts_service_energy t,
      bd_completion = al_basis_tick al + ro_ticks r + ts_service t, bd_position = 0\<rparr>"

definition nearest_bids :: "allocator \<Rightarrow> task_table \<Rightarrow> bid_map result" where
  "nearest_bids al tasks =
     foldR (\<lambda>bids (i, t).
        bindR (feasible_route (al_world al) (al_self al) t (al_basis_tick al) (al_step_ms al)) (\<lambda>found.
          Inr (case found of
                 None \<Rightarrow> bids
               | Some r \<Rightarrow> map_emplace i (nearest_bid al i t r) bids)))
       [] tasks"

text \<open>The prefix of the last bundle whose tasks are still open, with its bids.\<close>

fun standing_bundle :: "task_table \<Rightarrow> bid_map \<Rightarrow> string list \<Rightarrow> string list \<Rightarrow> bid_map \<Rightarrow> string list \<times> bid_map" where
  "standing_bundle tasks own [] build bids = (build, bids)"
| "standing_bundle tasks own (i # is) build bids =
     (case (map_find tasks i, map_find own i) of
        (Some t, Some b) \<Rightarrow> standing_bundle tasks own is (build @ [i]) (map_emplace i b bids)
      | _ \<Rightarrow> (build, bids))"

definition still_wins :: "allocator \<Rightarrow> bid_map \<Rightarrow> string \<Rightarrow> bool" where
  "still_wins al winners i =
     (case map_find winners i of None \<Rightarrow> False | Some w \<Rightarrow> bd_bidder w = al_agent al)"

text \<open>A candidate of this round: the task, and where it enters the path at what cost.\<close>

record bundle_choice =
  bc_task :: string
  bc_insertion :: bundle_insertion

definition insertion_bid :: "allocator \<Rightarrow> nat \<Rightarrow> bundle_choice \<Rightarrow> alloc_bid" where
  "insertion_bid al base c =
     \<lparr>bd_epoch = 0, bd_version = 0, bd_task = bc_task c, bd_bidder = al_agent al,
      bd_score = bi_score (bc_insertion c), bd_distance = bi_distance (bc_insertion c),
      bd_energy = bi_energy (bc_insertion c), bd_completion = bi_completion (bc_insertion c),
      bd_position = of_nat (bi_index (bc_insertion c) - base)\<rparr>"

definition better_choice :: "bundle_choice \<Rightarrow> bundle_choice \<Rightarrow> bool" where
  "better_choice a b \<longleftrightarrow>
     (let x = bc_insertion a; y = bc_insertion b
      in bi_score x > bi_score y
         \<or> (bi_score x = bi_score y
            \<and> (bi_distance x, bi_energy x, bi_completion x, bc_task a, bi_index x)
              < (bi_distance y, bi_energy y, bi_completion y, bc_task b, bi_index y)))"

text \<open>The body of the loop over the tasks: the best choice so far with the evaluator's cache.\<close>

definition try_task ::
    "allocator \<Rightarrow> bid_map \<Rightarrow> task_state list \<Rightarrow> nat \<Rightarrow> bundle_choice option \<times> route_cache
     \<Rightarrow> string \<times> task_state \<Rightarrow> (bundle_choice option \<times> route_cache) result" where
  "try_task al bids ordered base = (\<lambda>(choice, cache) (i, t).
     if map_find bids i \<noteq> None then Inr (choice, cache)
     else
       bindR (best_insertion (al_world al) (al_self al) (al_basis_tick al) (al_step_ms al) ordered t base cache)
         (\<lambda>(found, cache').
            case found of
              None \<Rightarrow> Inr (choice, cache')
            | Some insertion \<Rightarrow>
                let c = \<lparr>bc_task = i, bc_insertion = insertion\<rparr>;
                    beaten = (case winner_for i (al_agent al) [] (al_peers al) (al_policy al) of
                                None \<Rightarrow> False
                              | Some remote \<Rightarrow> \<not> better (al_policy al) (insertion_bid al base c) remote)
                in Inr (if beaten then choice else keep_best better_choice choice c, cache')))"

text \<open>The loop that grows the bundle by one task per round.\<close>

function grow_bundle ::
    "allocator \<Rightarrow> task_table \<Rightarrow> task_state list \<Rightarrow> string list \<Rightarrow> bid_map \<Rightarrow> string list \<Rightarrow> route_cache
     \<Rightarrow> (string list \<times> bid_map \<times> route_cache) result" where
  "grow_bundle al tasks committed build bids path cache =
     (if length build < length tasks then
        bindR (ordered_tasks path tasks) (\<lambda>auction.
          bindR (foldR (try_task al bids (committed @ auction) (length committed)) (None, cache) tasks)
            (\<lambda>(choice, cache').
               case choice of
                 None \<Rightarrow> Inr (build, bids, cache')
               | Some c \<Rightarrow>
                   let index = bi_index (bc_insertion c) - length committed;
                       path' = take index path @ bc_task c # drop index path
                   in bindR (set_positions (map_emplace (bc_task c) (insertion_bid al (length committed) c) bids)
                               path')
                        (\<lambda>bids'. grow_bundle al tasks committed (build @ [bc_task c]) bids' path' cache')))
      else Inr (build, bids, cache))"
  by pat_completeness auto

termination grow_bundle
  by (relation "measure (\<lambda>(al, tasks, committed, build, bids, path, cache). length tasks - length build)") auto

declare grow_bundle.simps [simp del]

definition cbba_bids :: "task_table \<Rightarrow> task_state list \<Rightarrow> allocator \<Rightarrow> (bid_map \<times> allocator) result" where
  "cbba_bids tasks committed al =
     (let (build, bids) = standing_bundle tasks (al_own_bids al) (al_build al) [] [];
          winners = winners_for tasks (al_agent al) bids (al_peers al) (al_policy al);
          kept = takeWhile (still_wins al winners) build;
          bids1 = fold map_erase (rev (drop (length kept) build)) bids
      in bindR (ordered_path kept bids1) (\<lambda>path.
           bindR (set_positions bids1 path) (\<lambda>bids2.
             bindR (grow_bundle al tasks committed kept bids2 path (al_routes al)) (\<lambda>(build', bids', cache).
               Inr (bids', al\<lparr>al_build := build', al_routes := cache\<rparr>)))))"

subsection \<open>The published state\<close>

definition relay_of :: "allocator \<Rightarrow> string \<times> alloc_bid \<Rightarrow> alloc_relay result" where
  "relay_of al = (\<lambda>(i, b).
     bindR (winner_path b (al_agent al) (al_peers al)) (\<lambda>path. Inr \<lparr>rl_bid = b, rl_path = path\<rparr>))"

text \<open>\<open>task.id()\<close> is the key of the task's entry.\<close>

definition owners_of :: "task_table \<Rightarrow> alloc_commit list" where
  "owners_of tasks = map (\<lambda>(i, t). task_owner (ts_id t) t) (filter (\<lambda>(i, t). ts_agent t \<noteq> []) tasks)"

definition revise_state :: "bid_map \<Rightarrow> task_table \<Rightarrow> allocator \<Rightarrow> allocator result" where
  "revise_state winners tasks al =
     bindR (mapR (relay_of al) winners) (\<lambda>relays.
       let new = \<lparr>as_epoch = al_epoch al, as_version = 0, as_sender = al_agent al,
                  as_bids = map snd (al_own_bids al), as_winners = map snd winners, as_bundle = al_build al,
                  as_map_version = al_map_version al, as_owners = owners_of tasks, as_relays = relays\<rparr>;
           version = (if same_state new (al_state al) then as_version (al_state al)
                      else as_version (al_state al) + 1)
       in Inr (al\<lparr>al_state := new\<lparr>as_version := version\<rparr>\<rparr>))"

definition peers_agree :: "allocator \<Rightarrow> string \<Rightarrow> alloc_bid \<Rightarrow> string list \<Rightarrow> bool" where
  "peers_agree al task_id winner peers =
     list_all (\<lambda>peer.
        case map_find (al_peers al) peer of
          None \<Rightarrow> False
        | Some st \<Rightarrow> (case winner_in st task_id of None \<Rightarrow> False | Some w \<Rightarrow> same_bid w winner)) peers"

subsection \<open>One update\<close>

text \<open>The version of a bid changes only with its content.\<close>

definition stamp_bid :: "allocator \<Rightarrow> string \<times> alloc_bid \<Rightarrow> string \<times> alloc_bid" where
  "stamp_bid al = (\<lambda>(i, b).
     let b' = b\<lparr>bd_epoch := al_epoch al\<rparr>
     in (i, b'\<lparr>bd_version :=
          (case map_find (al_own_bids al) i of
             Some previous \<Rightarrow> if same_bid_content b' previous then bd_version previous
                             else as_version (al_state al) + 1
           | None \<Rightarrow> as_version (al_state al) + 1)\<rparr>))"

definition serialize_state :: "serializer \<Rightarrow> allocator \<Rightarrow> allocator" where
  "serialize_state ser al =
     (if al_serialized_version al \<noteq> as_version (al_state al)
      then al\<lparr>al_serialized := ser (P_State (al_state al)), al_serialized_version := as_version (al_state al)\<rparr>
      else al)"

text \<open>A broadcast to every member, when the state is new and again every interval.\<close>

definition broadcast_interval :: "u64 \<Rightarrow> u64" where
  "broadcast_interval step_ms = max 1 (500 div step_ms + (if 500 mod step_ms \<noteq> 0 then 1 else 0))"

definition broadcast_due :: "allocator \<Rightarrow> u64 \<Rightarrow> bool" where
  "broadcast_due al tick \<longleftrightarrow>
     al_broadcast_version al \<noteq> as_version (al_state al) \<or> tick mod broadcast_interval (al_step_ms al) = 0"

definition broadcast_to :: "allocator \<Rightarrow> string \<Rightarrow> net_message" where
  "broadcast_to al peer =
     \<lparr>nm_sender = al_agent al, nm_recipient = peer, nm_version = as_version (al_state al),
      nm_payload = al_serialized al\<rparr>"

definition broadcast_state :: "u64 \<Rightarrow> string list \<Rightarrow> allocator \<Rightarrow> net_message list \<times> allocator" where
  "broadcast_state tick members al =
     (if broadcast_due al tick
      then (map (broadcast_to al) members, al\<lparr>al_broadcast_version := as_version (al_state al)\<rparr>)
      else ([], al))"

text \<open>The body of the last loop: the commits so far and whether anything is pending.\<close>

definition commit_winner ::
    "allocator \<Rightarrow> observation \<Rightarrow> bid_map \<Rightarrow> string list \<Rightarrow> alloc_commit list \<times> bool \<Rightarrow> string \<times> task_state
     \<Rightarrow> (alloc_commit list \<times> bool) result" where
  "commit_winner al ob winners peers = (\<lambda>(commits, pending) (i, t).
     case map_find winners i of
       None \<Rightarrow> Inr (commits, True)
     | Some winner \<Rightarrow>
         if \<not> peers_agree al i winner peers then Inr (commits, True)
         else if bd_bidder winner \<noteq> al_agent al then Inr (commits, pending)
         else
           bindR (make_claim (ob_world ob) (ob_self ob) t (ob_tick ob) (ob_step_ms ob) (al_epoch al)
                    (bd_version winner)) (\<lambda>claim.
             Inr (if \<not> cl_feasible claim then (commits, True)
                  else (commits @
                    [\<lparr>cm_epoch = al_epoch al, cm_version = bd_version winner, cm_task = i,
                      cm_agent = al_agent al, cm_distance = cl_distance claim, cm_score = bd_score winner,
                      cm_position = bd_position winner\<rparr>], pending))))"

text \<open>\<open>update\<close> is cut where its data flow has waists: what an observation says about agents, the hearing
  of messages, the bids and the published state, the broadcast and the commits.\<close>

record audience =
  au_members :: "string list"
  au_peers :: "string list"
  au_bidders :: "string list"

definition audience_of :: "allocator \<Rightarrow> observation \<Rightarrow> audience" where
  "audience_of al ob =
     (let members = peer_ids al (ob_peers ob);
          peers = (if ob_reachable ob = [] then members else peer_ids al (ob_reachable ob));
          bidders = foldl (\<lambda>xs d. filter (\<lambda>x. x \<noteq> fd_failed d) xs) (members @ [al_agent al]) (ob_detections ob)
      in \<lparr>au_members = members, au_peers = peers, au_bidders = remdups_adj (sort bidders)\<rparr>)"

definition hear_peers ::
    "serializer \<Rightarrow> (bytes \<Rightarrow> alloc_state option) \<Rightarrow> observation \<Rightarrow> task_table \<Rightarrow> audience \<Rightarrow> allocator \<Rightarrow> allocator" where
  "hear_peers ser parse ob tasks au al =
     (let al1 = accept_messages ser parse ob tasks (au_peers au) (au_bidders au) (au_members au) al
      in al1\<lparr>al_peers := keep_peers al1 tasks (au_peers au) (au_bidders au) (au_members au) (al_peers al1)\<rparr>)"

definition make_bids :: "task_table \<Rightarrow> task_state list \<Rightarrow> allocator \<Rightarrow> allocator result" where
  "make_bids active committed al =
     bindR (if al_policy al = AP_Nearest_Capable
            then bindR (nearest_bids al active) (\<lambda>bids. Inr (bids, al))
            else cbba_bids active committed al)
       (\<lambda>(generated, al1). Inr (al1\<lparr>al_own_bids := map (stamp_bid al1) generated\<rparr>))"

definition update_allocator ::
    "serializer \<Rightarrow> (bytes \<Rightarrow> alloc_state option) \<Rightarrow> observation \<Rightarrow> allocator
     \<Rightarrow> (allocation_result \<times> allocator) result" where
  "update_allocator ser parse ob al =
     bindR (validate_observation al ob) (\<lambda>_.
       let al1 = synchronize ob al;
           au = audience_of al1 ob;
           known = task_map ob;
           al2 = hear_peers ser parse ob known au al1;
           tasks = merge_owners al2 ob known;
           active = unassigned_tasks tasks
       in bindR (make_bids active (committed_tasks al2 tasks) al2) (\<lambda>al3.
            let winners = winners_for active (al_agent al3) (al_own_bids al3) (al_peers al3) (al_policy al3)
            in bindR (revise_state winners tasks al3) (\<lambda>al4.
                 let (messages, al5) = broadcast_state (ob_tick ob) (au_members au) (serialize_state ser al4)
                 in bindR (foldR (commit_winner al5 ob winners (au_peers au)) ([], False) active)
                      (\<lambda>(commits, pending).
                         Inr (\<lparr>ar_state = al_state al5, ar_messages = messages, ar_commits = commits,
                               ar_pending = pending,
                               ar_coordinated = (length (al_peers al5) = length (au_peers au))\<rparr>, al5)))))"

end
