(* ===== verification/Autonomy.thy ===== *)
theory Autonomy
  imports Allocation
begin

text \<open>
  The controller of one agent (\<^verbatim>\<open>agent/src/autonomy.cpp\<close>): every tick it reads an observation, updates its
  allocator, validates the task at hand, and moves, charges, works or waits.

  \<open>Controller::Impl\<close> is the record \<open>controller\<close>; the action under construction (\<open>output_\<close>) is its field
  \<open>ct_out\<close> and the observation (\<open>observation_\<close>) the parameter \<open>ob\<close>. The two maps to \<open>bool\<close> only ever hold
  \<open>true\<close> and are lists of their keys. The behaviour tree's engine belongs to a library: \<open>sequence\<close> and
  \<open>fallback\<close> are parameters of the tree, and \<open>tree_engine\<close> states the documented behaviour of the two
  control nodes for children that return success (\<open>True\<close>) or failure (\<open>False\<close>).
\<close>

subsection \<open>State\<close>

record controller =
  ct_agent :: string
  ct_allocator :: allocator
  ct_rejections :: "string list"
  ct_reported :: "string list"
  ct_cache :: route_cache
  ct_route :: "route option"
  ct_candidate :: "route option"
  ct_pending :: "st_reservation option"
  ct_goal :: string
  ct_waypoint :: nat
  ct_route_version :: u64
  ct_route_map :: u64
  ct_map :: u64
  ct_reservation_version :: u64
  ct_speed :: i64
  ct_capacity :: i64
  ct_cost :: i64
  ct_step_ms :: u64
  ct_terrain :: "string list"
  ct_reason :: replan_reason
  ct_map_changed :: bool
  ct_handled :: bool
  ct_energy_short :: bool
  ct_allocation_pending :: bool
  ct_coordinated :: bool
  ct_task :: "task_state option"
  ct_out :: action

definition new_controller :: "string \<Rightarrow> controller result" where
  "new_controller agent =
     bindR (new_allocator agent) (\<lambda>al.
       Inr \<lparr>ct_agent = agent, ct_allocator = al, ct_rejections = [], ct_reported = [], ct_cache = Map.empty,
            ct_route = None, ct_candidate = None, ct_pending = None, ct_goal = [], ct_waypoint = 0,
            ct_route_version = 0, ct_route_map = 0, ct_map = 0, ct_reservation_version = 0, ct_speed = 0,
            ct_capacity = 0, ct_cost = 0, ct_step_ms = 0, ct_terrain = [], ct_reason = RR_Unspecified,
            ct_map_changed = False, ct_handled = False, ct_energy_short = False,
            ct_allocation_pending = False, ct_coordinated = False, ct_task = None, ct_out = empty_action\<rparr>)"

definition set_mode :: "behavior_mode \<Rightarrow> controller \<Rightarrow> controller" where
  "set_mode m c = c\<lparr>ct_out := (ct_out c)\<lparr>aa_mode := m\<rparr>\<rparr>"

subsection \<open>Arithmetic\<close>

definition manhattan :: "point \<Rightarrow> point \<Rightarrow> i64" where
  "manhattan a b = abs (px a - px b) + abs (py a - py b)"

definition capable :: "vehicle_state \<Rightarrow> capability \<Rightarrow> bool" where
  "capable v c \<longleftrightarrow> c \<in> set (vs_caps v)"

definition velocity :: "i64 \<Rightarrow> i64 \<Rightarrow> u64 \<Rightarrow> i64" where
  "velocity delta maximum step_ms =
     (let magnitude = abs delta
      in if magnitude = 0 then 0
         else
           let required = (magnitude * 1000 + to_i64 step_ms - 1) sdiv to_i64 step_ms;
               speed = min maximum required
           in if delta < 0 then - speed else speed)"

definition travel_ticks :: "i64 \<Rightarrow> vehicle_state \<Rightarrow> u64 \<Rightarrow> u64" where
  "travel_ticks distance v step_ms =
     (let numerator = to_u64 distance * 1000;
          denominator = to_u64 (vs_speed v) * step_ms
      in numerator div denominator + (if numerator mod denominator \<noteq> 0 then 1 else 0))"

subsection \<open>Routes\<close>

definition clear_route :: "controller \<Rightarrow> controller" where
  "clear_route c =
     c\<lparr>ct_route_version := (if ct_route c \<noteq> None then ct_route_version c + 1 else ct_route_version c),
       ct_route := None, ct_goal := [], ct_waypoint := 0, ct_pending := None\<rparr>"

definition invalidate :: "replan_reason \<Rightarrow> bool \<Rightarrow> controller \<Rightarrow> controller" where
  "invalidate reason clear c =
     (let c1 = (if ct_reason c = RR_Unspecified then c\<lparr>ct_reason := reason\<rparr> else c)
      in if clear then clear_route c1 else c1)"

definition set_route :: "route \<Rightarrow> string \<Rightarrow> controller \<Rightarrow> controller" where
  "set_route r goal c =
     (let replacing = ct_route c \<noteq> None;
          version = ct_route_version c + 1;
          plan = \<lparr>rp_version = version, rp_map_version = ct_map c, rp_goal = goal, rp_waypoints = ro_points r\<rparr>;
          out = (ct_out c)\<lparr>aa_plan := Some plan\<rparr>
      in c\<lparr>ct_route := Some r, ct_goal := goal, ct_route_map := ct_map c, ct_waypoint := 0,
           ct_route_version := version,
           ct_out := (if replacing \<or> ct_map_changed c then out\<lparr>aa_replanned := True\<rparr> else out)\<rparr>)"

definition aligned_route ::
    "observation \<Rightarrow> point \<times> point \<Rightarrow> controller \<Rightarrow> (route option \<times> controller) result" where
  "aligned_route ob key c =
     (case ct_cache c key of
        Some found \<Rightarrow> Inr (found, c)
      | None \<Rightarrow> bindR (astar (ob_world ob) (ob_self ob) (fst key) (snd key) (ob_step_ms ob)) (\<lambda>found.
                  Inr (found, c\<lparr>ct_cache := (ct_cache c)(key \<mapsto> found)\<rparr>)))"

text \<open>The body of the loop over the anchors.\<close>

definition try_start_anchor ::
    "observation \<Rightarrow> point \<Rightarrow> point \<Rightarrow> (route \<times> point) option \<times> controller \<Rightarrow> point
     \<Rightarrow> ((route \<times> point) option \<times> controller) result" where
  "try_start_anchor ob start goal = (\<lambda>(best, c) anchor.
     if \<not> segment_allowed (ob_world ob) (ob_self ob) start anchor then Inr (best, c)
     else
       bindR (aligned_route ob (anchor, goal) c) (\<lambda>(planned, c').
         case planned of
           None \<Rightarrow> Inr (best, c')
         | Some r \<Rightarrow>
             let partial = abs (px start - px anchor) + abs (py start - py anchor)
             in bindR (motion_energy (ob_self ob) partial (terrain_multiplier (ob_world ob) start anchor)) (\<lambda>energy.
                  let r' = r\<lparr>ro_distance := ro_distance r + partial, ro_energy := ro_energy r + energy,
                             ro_ticks := ro_ticks r + travel_ticks partial (ob_self ob) (ob_step_ms ob),
                             ro_points := start # ro_points r\<rparr>
                  in Inr (keep_best (\<lambda>a b. anchor_key a < anchor_key b) best (r', anchor), c'))))"

definition route_to_goal :: "observation \<Rightarrow> point \<Rightarrow> controller \<Rightarrow> (route option \<times> controller) result" where
  "route_to_goal ob goal c =
     (let start = vs_pos (ob_self ob); cell = wd_cell (ob_world ob)
      in if cell \<le> 0 then Inr (None, c)
         else if px start smod cell = 0 \<and> py start smod cell = 0 then aligned_route ob (start, goal) c
         else bindR (foldR (try_start_anchor ob start goal) (None, c) (route_anchors cell start))
                (\<lambda>(best, c'). Inr (map_option fst best, c')))"

subsection \<open>Synchronize\<close>

definition failure_key :: "failure_detection \<Rightarrow> string" where
  "failure_key d = fd_failed d @ '':'' @ to_string (fd_detection_tick d)"

definition report_failure :: "controller \<Rightarrow> failure_detection \<Rightarrow> controller" where
  "report_failure c d =
     (if failure_key d \<in> set (ct_reported c) then c
      else c\<lparr>ct_out := (ct_out c)\<lparr>aa_detections := aa_detections (ct_out c) @ [d]\<rparr>,
             ct_reported := failure_key d # ct_reported c\<rparr>)"

definition dynamics_changed :: "observation \<Rightarrow> controller \<Rightarrow> bool" where
  "dynamics_changed ob c \<longleftrightarrow>
     (let v = ob_self ob
      in ct_speed c \<noteq> 0
         \<and> (ct_speed c \<noteq> vs_speed v \<or> ct_capacity c \<noteq> vs_capacity v \<or> ct_cost c \<noteq> vs_cost v
            \<or> ct_step_ms c \<noteq> ob_step_ms ob \<or> ct_terrain c \<noteq> vs_terrain v))"

text \<open>The first of this agent's pending tasks.\<close>

definition current_task :: "observation \<Rightarrow> string \<Rightarrow> task_state option" where
  "current_task ob agent =
     (case sort_key (\<lambda>t. (ts_epoch t, ts_position t, ts_deadline t, ts_id t))
             (filter (\<lambda>t. ts_status t = TS_Pending \<and> ts_agent t = agent) (ob_assigned ob)) of
        [] \<Rightarrow> None
      | t # ts \<Rightarrow> Some t)"

text \<open>Why the route at hand is no longer good, if it is not.\<close>

definition route_trouble :: "observation \<Rightarrow> bool \<Rightarrow> controller \<Rightarrow> replan_reason" where
  "route_trouble ob dynamics c =
     (if ct_map_changed c then RR_Blockage
      else if dynamics then RR_Endurance
      else if take 5 (ct_goal c) = ''task:'' then
        (let i = drop 5 (ct_goal c)
         in if (case ct_task c of None \<Rightarrow> True | Some t \<Rightarrow> ts_id t \<noteq> i) then
              (case find (\<lambda>t. ts_id t = i) (ob_known ob) of
                 None \<Rightarrow> RR_Task
               | Some known \<Rightarrow> if ts_agent known \<noteq> [] then RR_Owner else RR_Task)
            else RR_Unspecified)
      else RR_Unspecified)"

text \<open>A request for a reservation expires at its proposed start.\<close>

definition expire_request :: "observation \<Rightarrow> controller \<Rightarrow> controller" where
  "expire_request ob c =
     (case ct_pending c of
        None \<Rightarrow> c
      | Some p \<Rightarrow>
          if sr_start p \<le> ob_tick ob then
            (let committed = list_ex (\<lambda>r. sr_agent r = ct_agent c \<and> sr_version r = sr_version p) (ob_reservations ob);
                 c1 = (if committed then c else invalidate RR_Reservation False c)
             in c1\<lparr>ct_pending := None\<rparr>)
          else c)"

definition synchronize_controller :: "observation \<Rightarrow> controller \<Rightarrow> (bool \<times> controller) result" where
  "synchronize_controller ob c0 =
     (let c1 = set_mode BM_Idle (c0\<lparr>ct_task := None, ct_handled := False, ct_energy_short := False,
                   ct_allocation_pending := False, ct_candidate := None\<rparr>)\<lparr>ct_reason := RR_Unspecified\<rparr>;
          c2 = foldl report_failure c1 (ob_detections ob);
          v = ob_self ob;
          map_changed = (ct_map c2 \<noteq> 0 \<and> ct_map c2 \<noteq> wd_map_version (ob_world ob));
          dynamics = dynamics_changed ob c2;
          c3 = c2\<lparr>ct_map_changed := map_changed,
                  ct_cache := (if map_changed \<or> dynamics then Map.empty else ct_cache c2),
                  ct_speed := vs_speed v, ct_capacity := vs_capacity v, ct_cost := vs_cost v,
                  ct_step_ms := ob_step_ms ob, ct_terrain := vs_terrain v, ct_map := wd_map_version (ob_world ob),
                  ct_task := current_task ob (ct_agent c2)\<rparr>;
          reason = route_trouble ob dynamics c3;
          c4 = (if ct_route c3 \<noteq> None \<and> reason \<noteq> RR_Unspecified then invalidate reason True c3 else c3)
      in Inr (True, expire_request ob c4))"

subsection \<open>Allocate\<close>

definition allocate ::
    "serializer \<Rightarrow> (bytes \<Rightarrow> alloc_state option) \<Rightarrow> observation \<Rightarrow> controller \<Rightarrow> (bool \<times> controller) result" where
  "allocate ser parse ob c =
     (if ob_policy ob \<noteq> AP_Nearest_Capable \<and> ob_policy ob \<noteq> AP_Sentinel_Cbba then Inr (True, c)
      else
        bindR (update_allocator ser parse ob (ct_allocator c)) (\<lambda>(res, al).
          let out = ct_out c
          in Inr (True, c\<lparr>ct_allocator := al, ct_coordinated := ar_coordinated res,
                ct_out := out\<lparr>aa_alloc := Some (ar_state res), aa_messages := aa_messages out @ ar_messages res,
                              aa_commits := aa_commits out @ ar_commits res\<rparr>,
                ct_allocation_pending := (ar_pending res \<and> ct_task c = None)\<rparr>)))"

subsection \<open>Rejecting a task\<close>

definition rejection_key :: "task_state \<Rightarrow> u64 \<Rightarrow> string" where
  "rejection_key t map_version = ts_id t @ '':'' @ to_string (ts_version t) @ '':'' @ to_string map_version"

definition reject :: "controller \<Rightarrow> controller" where
  "reject c0 =
     (let c = set_mode BM_Waiting (clear_route (c0\<lparr>ct_handled := True\<rparr>))
      in case ct_task c of
           None \<Rightarrow> c
         | Some t \<Rightarrow>
             if rejection_key t (ct_map c) \<in> set (ct_rejections c) then c
             else c\<lparr>ct_out := (ct_out c)\<lparr>aa_reports := aa_reports (ct_out c) @ [\<lparr>tr_task = ts_id t, tr_kind = TR_Rejected\<rparr>]\<rparr>,
                    ct_rejections := rejection_key t (ct_map c) # ct_rejections c\<rparr>)"

subsection \<open>Validate\<close>

definition validate_controller :: "observation \<Rightarrow> controller \<Rightarrow> (bool \<times> controller) result" where
  "validate_controller ob c =
     (let v = ob_self ob
      in if ct_allocation_pending c then Inr (True, set_mode BM_Waiting (c\<lparr>ct_handled := True\<rparr>))
         else if \<not> vs_active v then Inr (True, (clear_route c)\<lparr>ct_handled := True\<rparr>)
         else case ct_task c of
           None \<Rightarrow> Inr (True, c)
         | Some t \<Rightarrow>
             if ts_status t \<noteq> TS_Pending \<or> ts_agent t \<noteq> ct_agent c \<or> \<not> capable v (ts_cap t)
                \<or> vs_payload v < ts_payload t \<or> ob_tick ob > ts_deadline t
             then Inr (True, reject c)
             else
               bindR (route_to_goal ob (coordinate (px (ts_target t)) (py (ts_target t))) c) (\<lambda>(found, c').
                 let c1 = c'\<lparr>ct_candidate := found\<rparr>
                 in case found of
                      None \<Rightarrow> Inr (True, reject c1)
                    | Some r \<Rightarrow>
                        if ro_ticks r + remaining_service t > ts_deadline t - ob_tick ob then Inr (True, reject c1)
                        else
                          let service_energy = to_i64 (remaining_service t) * ts_service_energy t;
                              required = ro_energy r + service_energy + reserve_energy v
                          in Inr (True, c1\<lparr>ct_energy_short := (vs_energy v < required)\<rparr>)))"

subsection \<open>Reservations\<close>

definition waits_allocation :: "observation \<Rightarrow> controller \<Rightarrow> bool" where
  "waits_allocation ob c \<longleftrightarrow>
     \<not> (if ob_policy ob \<noteq> AP_Nearest_Capable \<and> ob_policy ob \<noteq> AP_Sentinel_Cbba then True else ct_coordinated c)"

text \<open>The loop of \<open>passage_ticks\<close> over the waypoints ahead.\<close>

fun passage_loop :: "observation \<Rightarrow> string \<Rightarrow> point \<Rightarrow> point list \<Rightarrow> u64 \<Rightarrow> u64" where
  "passage_loop ob resource current [] ticks = ticks"
| "passage_loop ob resource current (nxt # ps) ticks =
     (if contested_resource (ob_world ob) current nxt \<noteq> Some resource then ticks
      else
        let denominator = to_u64 (vs_speed (ob_self ob)) * ob_step_ms ob;
            length = to_u64 (abs (px nxt - px current) + abs (py nxt - py current));
            numerator = length * 1000
        in passage_loop ob resource nxt ps
             (ticks + (numerator div denominator + (if numerator mod denominator \<noteq> 0 then 1 else 0))))"

definition passage_ticks :: "observation \<Rightarrow> string \<Rightarrow> point \<Rightarrow> point list \<Rightarrow> u64" where
  "passage_ticks ob resource current ahead = max 1 (passage_loop ob resource current ahead 0)"

definition own_window :: "controller \<Rightarrow> string \<Rightarrow> st_reservation \<Rightarrow> bool" where
  "own_window c resource r \<longleftrightarrow>
     sr_resource r = resource \<and> sr_agent r = ct_agent c \<and> sr_route_version r = ct_route_version c
     \<and> sr_map_version r = ct_map c"

definition next_slot :: "observation \<Rightarrow> string \<Rightarrow> u64" where
  "next_slot ob resource =
     foldl (\<lambda>start r. if sr_resource r = resource \<and> sr_end r \<ge> start then sr_end r + 1 else start)
       (ob_tick ob + 1) (ob_reservations ob)"

text \<open>\<open>reserve\<close>: may the vehicle drive on? If not, it may request a window; \<open>ahead\<close> are the waypoints from
  \<open>waypoint_\<close> on.\<close>

definition reserve_way :: "observation \<Rightarrow> point \<Rightarrow> point \<Rightarrow> point list \<Rightarrow> controller \<Rightarrow> bool \<times> controller" where
  "reserve_way ob current nxt ahead c =
     (case contested_resource (ob_world ob) current nxt of
        None \<Rightarrow> (True, c)
      | Some resource \<Rightarrow>
          if list_ex (\<lambda>r. own_window c resource r \<and> sr_start r \<le> ob_tick ob \<and> ob_tick ob \<le> sr_end r) (ob_reservations ob)
          then (True, c)
          else if waits_allocation ob c then (False, c)
          else if list_ex (\<lambda>r. own_window c resource r \<and> sr_start r > ob_tick ob) (ob_reservations ob)
                  \<or> ct_pending c \<noteq> None
          then (False, c)
          else
            let start = next_slot ob resource;
                version = ct_reservation_version c + 1;
                proposal = \<lparr>sr_resource = resource, sr_agent = ct_agent c, sr_start = start,
                            sr_end = start + passage_ticks ob resource current ahead - 1, sr_version = version,
                            sr_route_version = ct_route_version c, sr_map_version = ct_map c\<rparr>
            in (False, c\<lparr>ct_reservation_version := version, ct_pending := Some proposal,
                         ct_out := (ct_out c)\<lparr>aa_proposals := aa_proposals (ct_out c) @ [proposal]\<rparr>\<rparr>))"

subsection \<open>Following a route\<close>

definition drive :: "observation \<Rightarrow> point \<Rightarrow> point \<Rightarrow> behavior_mode \<Rightarrow> action \<Rightarrow> action" where
  "drive ob current nxt mode a =
     (let dx = px nxt - px current; dy = py nxt - py current; speed = vs_speed (ob_self ob)
      in (if dx \<noteq> 0 then a\<lparr>aa_vx := velocity dx speed (ob_step_ms ob)\<rparr>
          else a\<lparr>aa_vy := velocity dy speed (ob_step_ms ob)\<rparr>)\<lparr>aa_mode := mode\<rparr>)"

definition follow :: "observation \<Rightarrow> behavior_mode \<Rightarrow> controller \<Rightarrow> bool \<times> controller" where
  "follow ob mode c =
     (case ct_route c of
        None \<Rightarrow> (False, c)
      | Some r \<Rightarrow>
          let current = vs_pos (ob_self ob);
              waypoint = ct_waypoint c + length (takeWhile (\<lambda>p. p = current) (drop (ct_waypoint c) (ro_points r)));
              c1 = c\<lparr>ct_waypoint := waypoint\<rparr>
          in if waypoint \<ge> length (ro_points r) then (False, c1)
             else
               let nxt = ro_points r ! waypoint;
                   (free, c2) = reserve_way ob current nxt (drop waypoint (ro_points r)) c1
               in if \<not> free then (False, set_mode BM_Waiting c2)
                  else (True, c2\<lparr>ct_out := drive ob current nxt mode (ct_out c2)\<rparr>))"

subsection \<open>Recover\<close>

text \<open>A charger with the route to it.\<close>

record charger =
  cg_location :: location
  cg_route :: route

definition charger_key :: "charger \<Rightarrow> i64 \<times> string" where
  "charger_key g = (ro_distance (cg_route g), lc_id (cg_location g))"

text \<open>The task after a full charge at the location: energy needed, and ticks of charging before it.\<close>

definition task_energy :: "vehicle_state \<Rightarrow> task_state \<Rightarrow> route \<Rightarrow> i64" where
  "task_energy v t leg = ro_energy leg + reserve_energy v + to_i64 (remaining_service t) * ts_service_energy t"

definition charge_ticks :: "vehicle_state \<Rightarrow> location \<Rightarrow> route \<Rightarrow> i64 \<Rightarrow> u64" where
  "charge_ticks v l r required =
     (let needed = max 0 (required - (vs_energy v - ro_energy r))
      in to_u64 (needed sdiv lc_charge l + (if needed smod lc_charge l \<noteq> 0 then 1 else 0)))"

text \<open>The body of the loop over the locations.\<close>

definition try_charger ::
    "observation \<Rightarrow> task_state \<Rightarrow> charger option \<times> controller \<Rightarrow> location \<Rightarrow> (charger option \<times> controller) result" where
  "try_charger ob t = (\<lambda>(selected, c) l.
     let v = ob_self ob; here = coordinate (px (lc_pos l)) (py (lc_pos l))
     in if lc_kind l \<noteq> LK_Charging \<or> lc_charge l \<le> 0 then Inr (selected, c)
        else
          bindR (route_to_goal ob here c) (\<lambda>(found, c1).
            case found of
              None \<Rightarrow> Inr (selected, c1)
            | Some r \<Rightarrow>
                if ro_energy r > vs_energy v then Inr (selected, c1)
                else
                  bindR (aligned_route ob (here, coordinate (px (ts_target t)) (py (ts_target t))) c1) (\<lambda>(leg, c2).
                    case leg of
                      None \<Rightarrow> Inr (selected, c2)
                    | Some leg \<Rightarrow>
                        let required = task_energy v t leg
                        in if required > vs_capacity v then Inr (selected, c2)
                           else if ro_ticks r + charge_ticks v l r required + ro_ticks leg + remaining_service t
                                   > ts_deadline t - ob_tick ob
                           then Inr (selected, c2)
                           else Inr (keep_best (\<lambda>a b. charger_key a < charger_key b) selected
                                       \<lparr>cg_location = l, cg_route = r\<rparr>, c2))))"

definition select_charger :: "observation \<Rightarrow> task_state \<Rightarrow> controller \<Rightarrow> (location option \<times> controller) result" where
  "select_charger ob t c =
     bindR (foldR (try_charger ob t) (None, c) (wd_locations (ob_world ob)))
       (\<lambda>(selected, c'). Inr (map_option cg_location selected, c'))"

definition needs_route :: "string \<Rightarrow> controller \<Rightarrow> bool" where
  "needs_route goal c \<longleftrightarrow> ct_route c = None \<or> ct_goal c \<noteq> goal \<or> ct_route_map c \<noteq> ct_map c"

definition return_home :: "observation \<Rightarrow> controller \<Rightarrow> (bool \<times> controller) result" where
  "return_home ob c =
     (let i = vs_return (ob_self ob);
          home = find (\<lambda>l. lc_id l = i \<and> lc_kind l = LK_Return) (wd_locations (ob_world ob));
          travel = (\<lambda>c. let (moving, c') = follow ob BM_Returning c
                        in Inr (True, if moving then c' else set_mode BM_Waiting c'))
      in case (if i = [] then None else home) of
           None \<Rightarrow> Inr (True, set_mode BM_Idle (clear_route c))
         | Some l \<Rightarrow>
             if manhattan (vs_pos (ob_self ob)) (lc_pos l) \<le> lc_radius l
             then Inr (True, set_mode BM_Idle (clear_route c))
             else if needs_route (''return:'' @ i) c then
               bindR (route_to_goal ob (coordinate (px (lc_pos l)) (py (lc_pos l))) c) (\<lambda>(found, c1).
                 case found of
                   None \<Rightarrow> Inr (True, set_mode BM_Waiting (clear_route c1))
                 | Some r \<Rightarrow> travel (set_route r (''return:'' @ i) c1))
             else travel c)"

definition go_charging :: "observation \<Rightarrow> location \<Rightarrow> controller \<Rightarrow> (bool \<times> controller) result" where
  "go_charging ob l c =
     (let goal = ''charge:'' @ lc_id l
      in if manhattan (vs_pos (ob_self ob)) (lc_pos l) \<le> lc_radius l
         then let c1 = clear_route c
              in Inr (True, set_mode BM_Charging (c1\<lparr>ct_out := (ct_out c1)\<lparr>aa_charge := lc_id l\<rparr>\<rparr>))
         else if needs_route goal c then
           bindR (route_to_goal ob (coordinate (px (lc_pos l)) (py (lc_pos l))) c) (\<lambda>(found, c1).
             case found of
               None \<Rightarrow> Inr (True, reject c1)
             | Some r \<Rightarrow> if ro_energy r > vs_energy (ob_self ob) then Inr (True, reject c1)
                         else Inr (True, snd (follow ob BM_Navigating (set_route r goal c1))))
         else Inr (True, snd (follow ob BM_Navigating c)))"

definition recover :: "observation \<Rightarrow> controller \<Rightarrow> (bool \<times> controller) result" where
  "recover ob c =
     (if ct_handled c then Inr (True, c)
      else case ct_task c of
        None \<Rightarrow> return_home ob c
      | Some t \<Rightarrow>
          if \<not> ct_energy_short c then Inr (False, c)
          else
            bindR (select_charger ob t c) (\<lambda>(found, c1).
              case found of
                None \<Rightarrow> Inr (True, reject c1)
              | Some l \<Rightarrow> go_charging ob l c1))"

subsection \<open>Plan, navigate, execute, report\<close>

text \<open>
  The leaves behind a failed \<open>Recover\<close> dereference \<open>task_\<close>. Without a task that is undefined in C++; the model
  answers with an exception of its own, and \<open>Autonomy_Laws\<close> shows that the tree never gets there.
\<close>

definition plan :: "controller \<Rightarrow> (bool \<times> controller) result" where
  "plan c =
     (case ct_task c of
        None \<Rightarrow> Inl (Logic_error ''no task'')
      | Some t \<Rightarrow>
          if needs_route (''task:'' @ ts_id t) c then
            (case ct_candidate c of
               None \<Rightarrow> Inr (False, reject c)
             | Some r \<Rightarrow> Inr (True, set_route r (''task:'' @ ts_id t) c))
          else Inr (True, c))"

definition execute :: "observation \<Rightarrow> controller \<Rightarrow> (bool \<times> controller) result" where
  "execute ob c =
     (case ct_task c of
        None \<Rightarrow> Inl (Logic_error ''no task'')
      | Some t \<Rightarrow>
          if manhattan (vs_pos (ob_self ob)) (ts_target t) > ts_radius t then Inr (False, c)
          else Inr (True, set_mode BM_Executing c))"

definition report :: "controller \<Rightarrow> (bool \<times> controller) result" where
  "report c =
     (case ct_task c of
        None \<Rightarrow> Inl (Logic_error ''no task'')
      | Some t \<Rightarrow> Inr (True, c\<lparr>ct_out := (ct_out c)\<lparr>aa_reports := aa_reports (ct_out c)
                    @ [\<lparr>tr_task = ts_id t, tr_kind = TR_Working\<rparr>]\<rparr>\<rparr>))"

definition navigate :: "observation \<Rightarrow> controller \<Rightarrow> (bool \<times> controller) result" where
  "navigate ob c =
     (let (moving, c') = follow ob BM_Navigating c
      in Inr (if moving then (True, c') else (False, set_mode BM_Waiting c')))"

subsection \<open>The tree and one tick\<close>

type_synonym node = "controller \<Rightarrow> (bool \<times> controller) result"

definition tree_engine :: "(node list \<Rightarrow> node) \<Rightarrow> (node list \<Rightarrow> node) \<Rightarrow> bool" where
  "tree_engine sequence fallback \<longleftrightarrow>
     (\<forall>c. sequence [] c = Inr (True, c) \<and> fallback [] c = Inr (False, c))
     \<and> (\<forall>n ns c. sequence (n # ns) c = bindR (n c) (\<lambda>(ok, c'). if ok then sequence ns c' else Inr (False, c')))
     \<and> (\<forall>n ns c. fallback (n # ns) c = bindR (n c) (\<lambda>(ok, c'). if ok then Inr (True, c') else fallback ns c'))"

definition autonomy_tree ::
    "(node list \<Rightarrow> node) \<Rightarrow> (node list \<Rightarrow> node) \<Rightarrow> serializer \<Rightarrow> (bytes \<Rightarrow> alloc_state option) \<Rightarrow> observation \<Rightarrow> node" where
  "autonomy_tree sequence fallback ser parse ob =
     sequence
       [synchronize_controller ob, allocate ser parse ob, validate_controller ob,
        fallback
          [recover ob,
           sequence
             [plan,
              fallback [sequence [execute ob, report], navigate ob]]]]"

text \<open>What \<open>act\<close> adds to the action after the tree has run.\<close>

definition finish_action :: "observation \<Rightarrow> controller \<Rightarrow> action" where
  "finish_action ob c =
     (let a = (ct_out c)\<lparr>aa_route_version := ct_route_version c\<rparr>
      in if ct_reason c = RR_Unspecified then a
         else a\<lparr>aa_samples := aa_samples a @
                  [\<lparr>rs_agent = ct_agent c, rs_reason = ct_reason c, rs_start = ob_tick ob, rs_end = ob_tick ob,
                    rs_wait = (aa_mode a = BM_Waiting), rs_complete = True\<rparr>],
                aa_replanned := True\<rparr>)"

definition controller_act ::
    "(node list \<Rightarrow> node) \<Rightarrow> (node list \<Rightarrow> node) \<Rightarrow> serializer \<Rightarrow> (bytes \<Rightarrow> alloc_state option) \<Rightarrow> envelope
     \<Rightarrow> controller \<Rightarrow> (envelope \<times> controller) result" where
  "controller_act sequence fallback ser parse input c =
     (case en_body input of
        Body_observation ob \<Rightarrow>
          if en_schema input \<noteq> 1 \<or> en_sender input \<noteq> ''sim'' \<or> en_recipient input \<noteq> ct_agent c
             \<or> vs_id (ob_self ob) \<noteq> ct_agent c
          then Inl (Invalid_argument ''invalid observation envelope'')
          else
            bindR (autonomy_tree sequence fallback ser parse ob (c\<lparr>ct_out := empty_action\<lparr>aa_tick := ob_tick ob\<rparr>\<rparr>))
              (\<lambda>(status, c').
                 Inr (\<lparr>en_schema = 1, en_sequence = en_sequence input, en_time_ms = en_time_ms input,
                       en_sender = ct_agent c, en_recipient = ''sim'', en_body = Body_action (finish_action ob c')\<rparr>,
                      c'\<lparr>ct_task := None\<rparr>))
      | _ \<Rightarrow> Inl (Invalid_argument ''invalid observation envelope''))"

end
