(* ===== verification/Agent_Process.thy ===== *)
theory Agent_Process
  imports Autonomy Framing
begin

text \<open>
  The process of one agent (\<^verbatim>\<open>agent/src/main.cpp\<close>): it answers every envelope on its standard input with one on
  its standard output, until the input ends. \<open>agent_replies\<close> is what the loop computes on the messages themselves;
  \<open>agent_loop_frames\<close> shows that the process on byte streams does just that.
\<close>

subsection \<open>Command lines\<close>

text \<open>\<open>protocol::required_option\<close>: the word behind the first occurrence of the name.\<close>

definition required_option :: "string list \<Rightarrow> string \<Rightarrow> nat \<Rightarrow> string result" where
  "required_option argv name first =
     (case find (\<lambda>i. argv ! i = name) [first ..< length argv - 1] of
        None \<Rightarrow> Inl (Invalid_argument ''missing required option'')
      | Some i \<Rightarrow> Inr (argv ! (i + 1)))"

subsection \<open>The loop\<close>

function agent_loop ::
    "(envelope \<Rightarrow> 'c \<Rightarrow> (envelope \<times> 'c) result) \<Rightarrow> (envelope \<Rightarrow> bytes) \<Rightarrow> (bytes \<Rightarrow> envelope option) \<Rightarrow> bool
     \<Rightarrow> 'c \<Rightarrow> bytes \<Rightarrow> bytes \<Rightarrow> bytes result" where
  "agent_loop act ser parse sink c input written =
     (case read_frame parse input of
        Inl e \<Rightarrow> Inl e
      | Inr None \<Rightarrow> Inr written
      | Inr (Some (m, rest)) \<Rightarrow>
          (case act m c of
             Inl e \<Rightarrow> Inl e
           | Inr (reply, c') \<Rightarrow>
               (case write_frame ser sink reply written of
                  Inl e \<Rightarrow> Inl e
                | Inr written' \<Rightarrow> agent_loop act ser parse sink c' rest written')))"
  by pat_completeness auto
termination
  by (relation "measure (\<lambda>(act, ser, parse, sink, c, input, written). length input)") (auto dest: read_frame_shorter)

declare agent_loop.simps [simp del]

definition agent_main ::
    "(node list \<Rightarrow> node) \<Rightarrow> (node list \<Rightarrow> node) \<Rightarrow> serializer \<Rightarrow> (bytes \<Rightarrow> alloc_state option)
     \<Rightarrow> (envelope \<Rightarrow> bytes) \<Rightarrow> (bytes \<Rightarrow> envelope option) \<Rightarrow> bool \<Rightarrow> string list \<Rightarrow> bytes \<Rightarrow> bytes result" where
  "agent_main sequence fallback ser parse ser_envelope parse_envelope sink argv input =
     bindR (required_option argv ''--id'' 1) (\<lambda>id.
     bindR (new_controller id) (\<lambda>c.
       agent_loop (controller_act sequence fallback ser parse) ser_envelope parse_envelope sink c input []))"

subsection \<open>The loop on messages\<close>

fun agent_replies ::
    "(envelope \<Rightarrow> 'c \<Rightarrow> (envelope \<times> 'c) result) \<Rightarrow> 'c \<Rightarrow> envelope list \<Rightarrow> (envelope list \<times> 'c) result" where
  "agent_replies act c [] = Inr ([], c)"
| "agent_replies act c (m # ms) =
     bindR (act m c) (\<lambda>(reply, c').
     bindR (agent_replies act c' ms) (\<lambda>(replies, c''). Inr (reply # replies, c'')))"

text \<open>The frames of a sequence of messages.\<close>

definition frames :: "('m \<Rightarrow> bytes) \<Rightarrow> 'm list \<Rightarrow> bytes" where
  "frames ser ms = concat (map (frame_of ser) ms)"

lemma frames_simps [simp]:
  "frames ser [] = []" "frames ser (m # ms) = frame_of ser m @ frames ser ms" "frames ser (ms @ ns) = frames ser ms @ frames ser ns"
  by (simp_all add: frames_def)

lemma write_framed: "write_frame ser True m written =
    (if length (ser m) > max_frame then Inl (Runtime_error ''protobuf frame is too large'') else Inr (written @ frame_of ser m))"
  by (simp add: write_frame_def frame_of_def Let_def)

lemma agent_loop_frames:
  assumes "parses_back ser parse" and "\<forall>m \<in> set ms. length (ser m) \<le> max_frame"
  shows "agent_loop act ser parse True c (frames ser ms) written = Inr result \<longleftrightarrow>
     (\<exists>replies c'. agent_replies act c ms = Inr (replies, c') \<and> (\<forall>r \<in> set replies. length (ser r) \<le> max_frame)
        \<and> result = written @ frames ser replies)"
  using assms(2)
proof (induction ms arbitrary: c written)
  case Nil
  show ?case by (subst agent_loop.simps) (auto simp: read_nothing)
next
  case (Cons m ms)
  have r: "read_frame parse (frames ser (m # ms)) = Inr (Some (m, frames ser ms))"
    using Cons.prems by (simp add: read_frame_of [OF assms(1)])
  show ?case
  proof (cases "act m c")
    case (Inl e)
    then show ?thesis using r by (subst agent_loop.simps) (simp del: frames_simps)
  next
    case (Inr p)
    obtain reply c' where p: "p = (reply, c')" by (cases p)
    have act: "act m c = Inr (reply, c')" using Inr p by simp
    have step: "agent_loop act ser parse True c (frames ser (m # ms)) written =
        (if length (ser reply) > max_frame then Inl (Runtime_error ''protobuf frame is too large'')
         else agent_loop act ser parse True c' (frames ser ms) (written @ frame_of ser reply))"
      using act r by (subst agent_loop.simps) (simp add: write_framed del: frames_simps)
    have IH: "agent_loop act ser parse True c' (frames ser ms) (written @ frame_of ser reply) = Inr result \<longleftrightarrow>
       (\<exists>replies c''. agent_replies act c' ms = Inr (replies, c'') \<and> (\<forall>r \<in> set replies. length (ser r) \<le> max_frame)
          \<and> result = (written @ frame_of ser reply) @ frames ser replies)"
      by (rule Cons.IH) (use Cons.prems in simp)
    show ?thesis
    proof (cases "length (ser reply) > max_frame")
      case True
      then show ?thesis unfolding step by (auto simp: act)
    next
      case False
      have split: "agent_replies act c (m # ms) = Inr (rs, c'') \<longleftrightarrow>
          (\<exists>replies. agent_replies act c' ms = Inr (replies, c'') \<and> rs = reply # replies)" for rs c''
        by (auto simp: act)
      have next_turn: "agent_loop act ser parse True c (frames ser (m # ms)) written
          = agent_loop act ser parse True c' (frames ser ms) (written @ frame_of ser reply)"
        unfolding step using False by simp
      show ?thesis unfolding next_turn split IH using False by fastforce
    qed
  qed
qed

end
