(* ===== verification/Sim_Files.thy ===== *)
theory Sim_Files
  imports Event_Log Agent_Process
begin

text \<open>
  The commands of the simulator on files (\<^verbatim>\<open>sim/src/main.cpp\<close>) and the summary it writes
  (\<^verbatim>\<open>core/src/event_log.cpp\<close>, \<open>write_summary_json\<close>, \<open>export_replay_trace\<close>). The file system is a map from paths to
  contents; what it refuses is the record \<open>device\<close>, a parameter. A command that fails leaves the files it has written so
  far, which only \<open>export_trace_file\<close> tells.
\<close>

subsection \<open>The summary as text\<close>

definition quoted :: "string \<Rightarrow> string" where
  "quoted s = CHR 0x22 # s @ [CHR 0x22]"

definition flag :: "bool \<Rightarrow> string" where
  "flag b = (if b then ''true'' else ''false'')"

definition small :: "u32 \<Rightarrow> string" where
  "small n = to_string (ucast n)"

text \<open>An enumeration is written as its number.\<close>

definition int_text :: "int \<Rightarrow> string" where
  "int_text n = (if n < 0 then CHR ''-'' # to_string (of_int (- n)) else to_string (of_int n))"

text \<open>The parts of a list, with a comma before each but the first.\<close>

fun listed :: "string list \<Rightarrow> string" where
  "listed [] = []"
| "listed [x] = x"
| "listed (x # xs) = x @ '', '' @ listed xs"

text \<open>The members of one sample, and a line of the summary.\<close>

definition sample_text :: "(string \<times> string) list \<Rightarrow> string" where
  "sample_text members = ''{'' @ listed (map (\<lambda>(k, v). quoted k @ '': '' @ v) members) @ ''}''"

definition summary_line :: "string \<times> string \<Rightarrow> string" where
  "summary_line = (\<lambda>(k, v). ''  '' @ quoted k @ '': '' @ v @ '','' @ [CHR 0x0A])"

definition convergence_text :: "convergence_sample \<Rightarrow> string" where
  "convergence_text c = sample_text
     [(''epoch'', to_string (cv_epoch c)), (''start_tick'', to_string (cv_start c)), (''end_tick'', to_string (cv_end c)),
      (''complete'', flag (cv_complete c))]"

definition detection_text :: "failure_detection \<Rightarrow> string" where
  "detection_text d = sample_text
     [(''failed_agent_id'', quoted (fd_failed d)), (''detector_agent_id'', quoted (fd_detector d)),
      (''failure_tick'', to_string (fd_failure_tick d)), (''detection_tick'', to_string (fd_detection_tick d))]"

definition reassignment_text :: "reassignment \<Rightarrow> string" where
  "reassignment_text r = sample_text
     [(''task_id'', quoted (ra_task r)), (''failed_agent_id'', quoted (ra_failed r)),
      (''detector_agent_id'', quoted (ra_detector r)), (''failure_tick'', to_string (ra_failure_tick r)),
      (''detection_tick'', to_string (ra_detection_tick r)), (''previous_epoch'', to_string (ra_prev_epoch r)),
      (''previous_version'', to_string (ra_prev_version r)), (''new_agent_id'', quoted (ra_new_agent r)),
      (''new_epoch'', to_string (ra_new_epoch r)), (''new_version'', to_string (ra_new_version r)),
      (''commit_tick'', to_string (ra_commit_tick r)), (''complete'', flag (ra_complete r))]"

definition sample_line :: "replan_sample \<Rightarrow> string" where
  "sample_line r = sample_text
     [(''agent_id'', quoted (rs_agent r)), (''reason'', int_text (reason_num (rs_reason r))),
      (''start_tick'', to_string (rs_start r)), (''end_tick'', to_string (rs_end r)), (''wait_plan'', flag (rs_wait r)),
      (''complete'', flag (rs_complete r))]"

definition bracketed :: "('a \<Rightarrow> string) \<Rightarrow> 'a list \<Rightarrow> string" where
  "bracketed f xs = ''['' @ listed (map f xs) @ '']''"

definition summary_json :: "summary \<Rightarrow> string" where
  "summary_json sm =
     ''{'' @ [CHR 0x0A]
     @ concat (map summary_line
       [(''success'', flag (sm_success sm)), (''ticks'', to_string (sm_ticks sm)), (''terminal_hash'', quoted (sm_hash sm)),
        (''completed_tasks'', small (sm_completed sm)), (''total_tasks'', small (sm_total sm)),
        (''active_agents'', small (sm_active sm)), (''wait_ticks'', to_string (sm_wait sm)),
        (''replan_count'', to_string (sm_replan sm)), (''recharge_ticks'', to_string (sm_recharge sm)),
        (''return_ticks'', to_string (sm_return sm)), (''route_conflicts'', to_string (sm_conflicts sm)),
        (''travel_distance_mm'', to_string (sm_distance sm)), (''energy_consumed_mj'', to_string (sm_energy sm)),
        (''rejected_commits'', to_string (sm_rejected sm)), (''communication_bytes'', to_string (sm_bytes sm)),
        (''communication_messages'', to_string (sm_messages sm)), (''delivered_messages'', to_string (sm_delivered sm)),
        (''dropped_messages'', to_string (sm_dropped sm)), (''reordered_messages'', to_string (sm_reordered sm)),
        (''maximum_reassignment_delay_ms'', to_string (sm_max_delay sm)), (''missing_reassignments'', small (sm_missing sm)),
        (''agent_energy_never_drops_below_zero'', flag (sm_energy_ok sm)),
        (''agent_energy_below_zero_violations'', to_string (sm_energy_violations sm)),
        (''committed_reservations_never_overlap'', flag (sm_overlap_ok sm)),
        (''committed_reservation_overlap_violations'', to_string (sm_overlap_violations sm)),
        (''completed_tasks_are_never_reassigned'', flag (sm_completed_ok sm)),
        (''completed_task_reassignment_violations'', to_string (sm_completed_violations sm)),
        (''incapable_agents_never_commit_tasks'', flag (sm_capable_ok sm)),
        (''incapable_agent_commit_violations'', to_string (sm_capable_violations sm)),
        (''allocation_convergence'', bracketed convergence_text (sm_convergence sm)),
        (''failure_detections'', bracketed detection_text (sm_detections sm)),
        (''task_reassignments'', bracketed reassignment_text (sm_reassignments sm)),
        (''replanning_samples'', bracketed sample_line (sm_samples sm))])
     @ ''  '' @ quoted ''tick_hashes'' @ '': '' @ bracketed quoted (sm_tick_hashes sm) @ [CHR 0x0A] @ ''}'' @ [CHR 0x0A]"

subsection \<open>Files\<close>

type_synonym files = "string \<rightharpoonup> string"

text \<open>\<open>dv_prepares\<close>: the directory of a path is there or could be made; \<open>dv_opens\<close>: the file could be opened for writing;
  \<open>dv_takes\<close>: what was written has reached it.\<close>

record device =
  dv_prepares :: "string \<Rightarrow> bool"
  dv_opens :: "string \<Rightarrow> bool"
  dv_takes :: "string \<Rightarrow> bool"
  dv_renames :: "string \<Rightarrow> string \<Rightarrow> bool"

definition write_summary_json :: "device \<Rightarrow> string \<Rightarrow> summary \<Rightarrow> files \<Rightarrow> files result" where
  "write_summary_json dv path sm files =
     (if \<not> dv_prepares dv path then Inl (Runtime_error ''filesystem error'')
      else if \<not> dv_opens dv path then Inl (Runtime_error ''failed to open summary output'')
      else if \<not> dv_takes dv path then Inl (Runtime_error ''failed to write summary output'')
      else Inr (files(path \<mapsto> summary_json sm)))"

text \<open>The trace is written beside its place and moved there when it is complete; otherwise what was written is removed.\<close>

definition export_trace_file ::
    "serializer \<Rightarrow> (bytes \<Rightarrow> log_entry option) \<Rightarrow> (sim_frame \<Rightarrow> bytes) \<Rightarrow> device \<Rightarrow> scenario \<Rightarrow> string \<Rightarrow> string \<Rightarrow> files
     \<Rightarrow> summary result \<times> files" where
  "export_trace_file ser parse_entry ser_frame dv sc log_path trace_path files =
     (case replay_event_log ser parse_entry sc (files log_path) of
        Inl e \<Rightarrow> (Inl e, files)
      | Inr (sm, observations) \<Rightarrow>
          if \<not> dv_prepares dv trace_path then (Inl (Runtime_error ''filesystem error''), files)
          else
            let tmp = trace_path @ ''.tmp'';
                written =
                  (if \<not> dv_opens dv tmp then Inl (Runtime_error ''failed to open trace output'')
                   else bindR (write_frames ser_frame (map Observations_frame observations) []) (\<lambda>film.
                     if \<not> dv_takes dv tmp then Inl (Runtime_error ''failed to write trace output'')
                     else if \<not> dv_renames dv tmp trace_path then Inl (Runtime_error ''filesystem error'')
                     else Inr film))
            in case written of
                 Inl e \<Rightarrow> (Inl e, files(tmp := None))
               | Inr film \<Rightarrow> (Inr sm, (files(tmp := None))(trace_path \<mapsto> film)))"

subsection \<open>Commands\<close>

text \<open>What the commands need of the protobuf library and of the outside.\<close>

record codec =
  co_ser :: serializer
  co_parse_scenario :: "string \<Rightarrow> scenario option"
  co_ser_entry :: "log_entry \<Rightarrow> bytes"
  co_parse_entry :: "bytes \<Rightarrow> log_entry option"
  co_ser_frame :: "sim_frame \<Rightarrow> bytes"
  co_parse_frame :: "bytes \<Rightarrow> sim_frame option"

definition sim_option :: "string list \<Rightarrow> string \<Rightarrow> string result" where
  "sim_option argv name = required_option argv name 2"

text \<open>The standard output and the files after a command that succeeds.\<close>

definition run_command :: "codec \<Rightarrow> device \<Rightarrow> string list \<Rightarrow> bytes \<Rightarrow> files \<Rightarrow> (bytes \<times> files) result" where
  "run_command co dv argv input files =
     bindR (sim_option argv ''--scenario'') (\<lambda>scenario_path.
     bindR (sim_option argv ''--log'') (\<lambda>log_path.
     bindR (sim_option argv ''--summary'') (\<lambda>summary_path.
     bindR (require (dv_prepares dv log_path) (Runtime_error ''filesystem error'')) (\<lambda>_.
     bindR (load_scenario (co_parse_scenario co) (files scenario_path)) (\<lambda>sc.
     bindR (run_simulation (co_ser co) (co_ser_entry co) (co_ser_frame co) (co_parse_frame co)
              (dv_opens dv log_path \<and> dv_takes dv log_path) sc input) (\<lambda>(sm, shown, log).
     bindR (write_summary_json dv summary_path sm (files(log_path \<mapsto> log))) (\<lambda>files'. Inr (shown, files'))))))))"

definition replay_command :: "codec \<Rightarrow> device \<Rightarrow> string list \<Rightarrow> files \<Rightarrow> (bytes \<times> files) result" where
  "replay_command co dv argv files =
     bindR (sim_option argv ''--scenario'') (\<lambda>scenario_path.
     bindR (load_scenario (co_parse_scenario co) (files scenario_path)) (\<lambda>sc.
     bindR (sim_option argv ''--log'') (\<lambda>log_path.
     bindR (replay_event_log (co_ser co) (co_parse_entry co) sc (files log_path)) (\<lambda>(sm, observations).
     bindR (sim_option argv ''--summary'') (\<lambda>summary_path.
     bindR (write_summary_json dv summary_path sm files) (\<lambda>files'. Inr (sm_hash sm @ [CHR 0x0A], files')))))))"

definition export_command :: "codec \<Rightarrow> device \<Rightarrow> string list \<Rightarrow> files \<Rightarrow> (bytes \<times> files) result" where
  "export_command co dv argv files =
     bindR (sim_option argv ''--scenario'') (\<lambda>scenario_path.
     bindR (load_scenario (co_parse_scenario co) (files scenario_path)) (\<lambda>sc.
     bindR (sim_option argv ''--log'') (\<lambda>log_path.
     bindR (sim_option argv ''--trace'') (\<lambda>trace_path.
       case export_trace_file (co_ser co) (co_parse_entry co) (co_ser_frame co) dv sc log_path trace_path files of
         (Inl e, files') \<Rightarrow> Inl e
       | (Inr sm, files') \<Rightarrow> Inr (sm_hash sm @ [CHR 0x0A], files')))))"

definition sim_main :: "codec \<Rightarrow> device \<Rightarrow> string list \<Rightarrow> bytes \<Rightarrow> files \<Rightarrow> (bytes \<times> files) result" where
  "sim_main co dv argv input files =
     (if length argv < 2 then Inl (Invalid_argument ''missing command'')
      else if argv ! 1 = ''run'' then run_command co dv argv input files
      else if argv ! 1 = ''replay'' then replay_command co dv argv files
      else if argv ! 1 = ''export'' then export_command co dv argv files
      else Inl (Invalid_argument ''unknown command''))"

end
