(* ===== verification/Supervisor.thy ===== *)
theory Supervisor
  imports Event_Log Ordered_Map Agent_Process
begin

text \<open>
  The supervisor of a mission (\<^verbatim>\<open>runner/src/main.cpp\<close>, \<open>run\<close>): it starts the simulation process, then one agent process
  per vehicle, and moves frames between them in lockstep until the simulation sends its terminal frame.

  A process is a state of its own, \<open>'s\<close> for the simulation and \<open>'a\<close> for an agent; what the operating system and the
  process do with a frame written or read is the record \<open>channels\<close>, a parameter of the loop. Timeouts, closed pipes and
  a request to stop that arrives while a frame is awaited are exceptions of these operations; \<open>Pipes\<close> models how a frame
  is read and written below them. \<open>ch_check_stop\<close> is \<open>check_stop\<close>, the look at the signal flag at the beginning of each
  turn and at the very end. The agents are the \<open>std::map\<close> from identifiers to processes.
\<close>

record ('s, 'a) channels =
  ch_check_stop :: "'s \<Rightarrow> unit result"
  ch_read_sim :: "'s \<Rightarrow> (sim_frame \<times> 's) result"
  ch_write_sim :: "sim_frame \<Rightarrow> 's \<Rightarrow> 's result"
  ch_finish_sim :: "'s \<Rightarrow> (int \<times> 's) result"
  ch_spawn :: "string \<Rightarrow> 'a result"
  ch_read_agent :: "'a \<Rightarrow> (envelope \<times> 'a) result"
  ch_write_agent :: "envelope \<Rightarrow> 'a \<Rightarrow> 'a result"
  ch_finish_agent :: "'a \<Rightarrow> int result"

subsection \<open>Checks of envelopes\<close>

definition sent_observation :: "envelope \<Rightarrow> observation option" where
  "sent_observation e = (case en_body e of Body_observation ob \<Rightarrow> Some ob | _ \<Rightarrow> None)"

definition check_observation :: "u64 \<Rightarrow> envelope \<Rightarrow> unit result" where
  "check_observation tick e =
     require (en_recipient e \<noteq> [] \<and> en_schema e = 1 \<and> en_sender e = ''sim''
        \<and> (case sent_observation e of
             None \<Rightarrow> False
           | Some ob \<Rightarrow> vs_id (ob_self ob) = en_recipient e \<and> ob_tick ob = tick
               \<and> (\<forall>t \<in> set (ob_assigned ob). ts_agent t = en_recipient e)))
       (Runtime_error ''observation crossed an agent boundary'')"

definition check_reply :: "envelope \<Rightarrow> envelope \<Rightarrow> unit result" where
  "check_reply e observed =
     require (en_schema e = 1 \<and> has_action e \<and> en_sender e = en_recipient observed \<and> en_recipient e = ''sim''
        \<and> en_sequence e = en_sequence observed \<and> en_time_ms e = en_time_ms observed
        \<and> aa_tick (en_action e) = (case sent_observation observed of None \<Rightarrow> 0 | Some ob \<Rightarrow> ob_tick ob))
       (Runtime_error ''agent returned an invalid action envelope'')"

subsection \<open>One exchange\<close>

text \<open>The checked envelopes in the order of the agents.\<close>

definition order_observations :: "observation_batch \<Rightarrow> envelope list result" where
  "order_observations b =
     bindR (require (3 \<le> length (bt_observations b) \<and> length (bt_observations b) \<le> 5)
       (Runtime_error ''mission does not contain three to five agents'')) (\<lambda>_.
     bindR (foldR (\<lambda>_ e. check_observation (bt_tick b) e) () (bt_observations b)) (\<lambda>_.
       let ordered = sort_key en_recipient (bt_observations b)
       in if adjacent_dup en_recipient ordered then Inl (Runtime_error ''duplicate agent observation'') else Inr ordered))"

text \<open>The agents are started at the first exchange and must be the same ones ever after.\<close>

definition enlist :: "('s, 'a) channels \<Rightarrow> bool \<Rightarrow> (string, 'a) ordered_map \<Rightarrow> envelope \<Rightarrow> (string, 'a) ordered_map result" where
  "enlist ch initialize agents e =
     (if initialize then bindR (ch_spawn ch (en_recipient e)) (\<lambda>p. Inr (map_emplace (en_recipient e) p agents))
      else if map_find agents (en_recipient e) = None then Inl (Runtime_error ''observed vehicle set changed'')
      else Inr agents)"

definition enlist_all :: "('s, 'a) channels \<Rightarrow> envelope list \<Rightarrow> (string, 'a) ordered_map \<Rightarrow> (string, 'a) ordered_map result" where
  "enlist_all ch ordered agents =
     bindR (foldR (enlist ch (agents = [])) agents ordered) (\<lambda>agents'.
       if length agents' \<noteq> length ordered then Inl (Runtime_error ''observed vehicle set changed'') else Inr agents')"

definition tell :: "('s, 'a) channels \<Rightarrow> (string, 'a) ordered_map \<Rightarrow> envelope \<Rightarrow> (string, 'a) ordered_map result" where
  "tell ch agents e =
     bindR (map_at agents (en_recipient e)) (\<lambda>p.
     bindR (ch_write_agent ch e p) (\<lambda>p'. Inr (map_put (en_recipient e) p' agents)))"

definition hear ::
    "('s, 'a) channels \<Rightarrow> (string, 'a) ordered_map \<times> envelope list \<Rightarrow> envelope
     \<Rightarrow> ((string, 'a) ordered_map \<times> envelope list) result" where
  "hear ch = (\<lambda>(agents, replies) e.
     bindR (map_at agents (en_recipient e)) (\<lambda>p.
     bindR (ch_read_agent ch p) (\<lambda>(reply, p').
     bindR (check_reply reply e) (\<lambda>_. Inr (map_put (en_recipient e) p' agents, replies @ [reply])))))"

text \<open>The agents get their observations and answer.\<close>

definition answers ::
    "('s, 'a) channels \<Rightarrow> observation_batch \<Rightarrow> (string, 'a) ordered_map \<Rightarrow> ((string, 'a) ordered_map \<times> action_batch) result" where
  "answers ch b agents =
     bindR (order_observations b) (\<lambda>ordered.
     bindR (enlist_all ch ordered agents) (\<lambda>agents1.
     bindR (foldR (tell ch) agents1 ordered) (\<lambda>agents2.
     bindR (foldR (hear ch) (agents2, []) ordered) (\<lambda>(agents3, replies).
       Inr (agents3, \<lparr>ab_tick = bt_tick b, ab_actions = replies\<rparr>)))))"

definition exchange ::
    "('s, 'a) channels \<Rightarrow> observation_batch \<Rightarrow> (string, 'a) ordered_map \<times> 's \<Rightarrow> ((string, 'a) ordered_map \<times> 's) result" where
  "exchange ch b = (\<lambda>(agents, s).
     bindR (answers ch b agents) (\<lambda>(agents', actions).
     bindR (ch_write_sim ch (Actions_frame actions) s) (\<lambda>s'. Inr (agents', s'))))"

subsection \<open>The mission\<close>

text \<open>One turn of \<open>while (true)\<close>: the terminal frame, or the processes after one exchange.\<close>

definition mission_turn ::
    "('s, 'a) channels \<Rightarrow> (string, 'a) ordered_map \<times> 's
     \<Rightarrow> (sim_frame option \<times> (string, 'a) ordered_map \<times> 's) result" where
  "mission_turn ch = (\<lambda>(agents, s).
     bindR (ch_check_stop ch s) (\<lambda>_.
     bindR (ch_read_sim ch s) (\<lambda>(frame, s1).
       case frame of
         Observations_frame b \<Rightarrow>
           if bt_finished b then
             (if bt_summary b = None then Inl (Runtime_error ''simulator returned an invalid terminal frame'')
              else Inr (Some frame, agents, s1))
           else bindR (exchange ch b (agents, s1)) (\<lambda>st. Inr (None, st))
       | _ \<Rightarrow> Inl (Runtime_error ''simulator returned an invalid frame''))))"

text \<open>\<open>None\<close>: the simulation never sends a terminal frame.\<close>

partial_function (option) mission_loop ::
    "('s, 'a) channels \<Rightarrow> (string, 'a) ordered_map \<times> 's
     \<Rightarrow> (sim_frame \<times> (string, 'a) ordered_map \<times> 's) result option" where
  "mission_loop ch st =
     (case mission_turn ch st of
        Inl e \<Rightarrow> Some (Inl e)
      | Inr (Some terminal, st') \<Rightarrow> Some (Inr (terminal, st'))
      | Inr (None, st') \<Rightarrow> mission_loop ch st')"

declare mission_loop.simps [code]

text \<open>Every process has to end with exit code zero.\<close>

definition dismiss :: "('s, 'a) channels \<Rightarrow> string \<times> 'a \<Rightarrow> unit result" where
  "dismiss ch = (\<lambda>(i, p). bindR (ch_finish_agent ch p) (\<lambda>code. require (code = 0) (Runtime_error (''agent process failed: '' @ i))))"

definition run_mission :: "('s, 'a) channels \<Rightarrow> 's \<Rightarrow> sim_frame result option" where
  "run_mission ch s =
     (case mission_loop ch ([], s) of
        None \<Rightarrow> None
      | Some r \<Rightarrow> Some
          (bindR r (\<lambda>(terminal, agents, s').
           bindR (foldR (\<lambda>_ p. dismiss ch p) () agents) (\<lambda>_.
           bindR (ch_finish_sim ch s') (\<lambda>(code, s'').
           bindR (require (code = 0) (Runtime_error ''simulator process failed'')) (\<lambda>_.
           bindR (ch_check_stop ch s'') (\<lambda>_. Inr terminal)))))))"

subsection \<open>Command lines\<close>

text \<open>\<open>std::stoi\<close>: white space, a sign, and digits as far as they go.\<close>

definition is_space :: "char \<Rightarrow> bool" where
  "is_space c \<longleftrightarrow> c = CHR '' '' \<or> (9 \<le> (of_char c :: nat) \<and> (of_char c :: nat) \<le> 13)"

definition is_digit :: "char \<Rightarrow> bool" where
  "is_digit c \<longleftrightarrow> 48 \<le> (of_char c :: nat) \<and> (of_char c :: nat) \<le> 57"

definition stoi :: "string \<Rightarrow> int result" where
  "stoi text =
     (let s = dropWhile is_space text;
          signed = (s \<noteq> [] \<and> (hd s = CHR ''-'' \<or> hd s = CHR ''+''));
          digits = takeWhile is_digit (if signed then tl s else s);
          n = foldl (\<lambda>m c. 10 * m + (of_char c - 48)) 0 digits;
          v = (if signed \<and> hd s = CHR ''-'' then - n else n)
      in if digits = [] then Inl (Invalid_argument ''stoi'')
         else if v < - (2 ^ 31) \<or> v \<ge> 2 ^ 31 then Inl Out_of_range else Inr v)"

definition numeric_option :: "string list \<Rightarrow> string \<Rightarrow> int \<Rightarrow> int result" where
  "numeric_option argv name fallback =
     (case find (\<lambda>i. argv ! i = name) [1 ..< length argv - 1] of
        None \<Rightarrow> Inr fallback
      | Some i \<Rightarrow> bindR (stoi (argv ! (i + 1))) (\<lambda>v. if v < 1 then Inl (Invalid_argument ''invalid timeout'') else Inr v))"

record options =
  op_sim :: string
  op_agent :: string
  op_scenario :: string
  op_log :: string
  op_summary :: string
  op_timeout :: int
  op_shutdown :: int

definition read_options :: "string list \<Rightarrow> options result" where
  "read_options argv =
     bindR (required_option argv ''--sim'' 1) (\<lambda>simulator.
     bindR (required_option argv ''--agent'' 1) (\<lambda>agent.
     bindR (required_option argv ''--scenario'' 1) (\<lambda>scenario.
     bindR (required_option argv ''--log'' 1) (\<lambda>log.
     bindR (required_option argv ''--summary'' 1) (\<lambda>summary.
     bindR (numeric_option argv ''--timeout-ms'' 60000) (\<lambda>timeout.
     bindR (numeric_option argv ''--shutdown-timeout-ms'' 5000) (\<lambda>shutdown.
       Inr \<lparr>op_sim = simulator, op_agent = agent, op_scenario = scenario, op_log = log, op_summary = summary,
            op_timeout = timeout, op_shutdown = shutdown\<rparr>)))))))"

definition sim_command :: "options \<Rightarrow> string list" where
  "sim_command p =
     [op_sim p, ''run'', ''--scenario'', op_scenario p, ''--log'', op_log p, ''--summary'', op_summary p]"

definition agent_command :: "options \<Rightarrow> string \<Rightarrow> string list" where
  "agent_command p i = [op_agent p, ''--id'', i]"

text \<open>\<open>run\<close> as a whole. \<open>start\<close> starts a simulation process, \<open>channels\<close> is the system with the agent's command line and
  the two timeouts.\<close>

definition supervise ::
    "(string list \<Rightarrow> 's result) \<Rightarrow> ((string \<Rightarrow> string list) \<Rightarrow> int \<Rightarrow> int \<Rightarrow> ('s, 'a) channels) \<Rightarrow> string list
     \<Rightarrow> sim_frame result option" where
  "supervise start channels argv =
     (case bindR (read_options argv) (\<lambda>p. bindR (start (sim_command p)) (\<lambda>s. Inr (p, s))) of
        Inl e \<Rightarrow> Some (Inl e)
      | Inr (p, s) \<Rightarrow> run_mission (channels (agent_command p) (op_timeout p) (op_shutdown p)) s)"

end
