(* ===== verification/Event_Log_Laws.thy ===== *)
theory Event_Log_Laws
  imports Event_Log Sim_Trace Sim_Demo
begin

text \<open>
  Recording and replaying are inverse: the log of a finished live run replays to the same summary and to the same
  observations, and a log that replays is the record of such a run.
\<close>

subsection \<open>A recorded turn replays\<close>

lemma same_items_refl [simp]: "same_items f xs xs"
  by (simp add: same_items_def list_all_iff)

lemma live_turn_parts:
  assumes "live_turn ser ser_entry ser_frame sink actions (s, w, shown) = Inr (s', w', shown')"
  obtains out where "step ser actions s = Inr (s', out)" and "\<not> lw_finished w"
    and "lw_output w' = lw_output w @ frame_of ser_entry (Record_entry \<lparr>er_sequence = lw_sequence w + 1, er_tick = si_tick s',
       er_actions = so_actions out, er_applied = so_applied out, er_hash = si_hash s', er_network = so_network out\<rparr>)"
    and "length (ser_entry (Record_entry \<lparr>er_sequence = lw_sequence w + 1, er_tick = si_tick s',
       er_actions = so_actions out, er_applied = so_applied out, er_hash = si_hash s', er_network = so_network out\<rparr>)) \<le> max_frame"
    and "lw_sequence w' = lw_sequence w + 1" and "\<not> lw_finished w'"
    and "write_frame ser_frame True (Observations_frame (so_observations out)) shown = Inr shown'"
  using assms by (auto simp: live_turn_def append_log_def Let_def write_frame_eq split: if_split_asm)

lemma replay_record_live:
  assumes "step ser actions s = Inr (s', out)"
  shows "replay_record ser \<lparr>er_sequence = n, er_tick = si_tick s', er_actions = so_actions out,
      er_applied = so_applied out, er_hash = si_hash s', er_network = so_network out\<rparr> s = Inr (s', so_observations out)"
  using replay_again [OF assms] by (simp add: replay_record_def)

lemma write_frames_simps [simp]:
  "write_frames ser [] out = Inr out"
  "write_frames ser (m # ms) out = bindR (write_frame ser True m out) (write_frames ser ms)"
  by (simp_all add: write_frames_def [abs_def])

text \<open>Whatever the live loop appends to the log, the replay loop turns back into the same states and observations.\<close>

lemma live_loop_replays:
  assumes pb: "parses_back ser_entry parse_entry"
  shows "live_loop ser ser_entry ser_frame parse_frame sink (s, w, shown) input = Inr (s', w', shown') \<Longrightarrow> \<not> lw_finished w \<Longrightarrow>
    \<exists>bytes obs. lw_output w' = lw_output w @ bytes \<and> \<not> lw_finished w' \<and> finished s'
      \<and> write_frames ser_frame (map Observations_frame obs) shown = Inr shown'
      \<and> (\<forall>st rest. rp_footer st = None \<and> rp_sim st = s \<and> rp_sequence st = lw_sequence w \<longrightarrow>
           replay_loop ser parse_entry st (bytes @ rest)
           = replay_loop ser parse_entry (st\<lparr>rp_sequence := lw_sequence w', rp_sim := s',
               rp_observations := rp_observations st @ obs\<rparr>) rest)"
proof (induction "length input" arbitrary: input s w shown rule: less_induct)
  case less
  note loop = less.prems(1) [unfolded live_loop.simps [of ser ser_entry ser_frame parse_frame sink "(s, w, shown)"] fst_conv]
  show ?case
  proof (cases "finished s")
    case True
    with loop have "s' = s" "w' = w" "shown' = shown" by simp_all
    with True less.prems(2) show ?thesis
      by (intro exI [of _ "[]"]) (auto intro!: arg_cong [where f = "\<lambda>st. replay_loop ser parse_entry st _"])
  next
    case False
    with loop obtain actions rest where read: "read_frame parse_frame input = Inr (Some (Actions_frame actions, rest))"
      by (auto split: sum.splits option.splits sim_frame.splits)
    with loop False obtain s1 w1 shown1 where turn: "live_turn ser ser_entry ser_frame sink actions (s, w, shown) = Inr (s1, w1, shown1)"
      and more: "live_loop ser ser_entry ser_frame parse_frame sink (s1, w1, shown1) rest = Inr (s', w', shown')"
      by (auto split: sum.splits)
    from turn obtain out where one: "step ser actions s = Inr (s1, out)"
      and log: "lw_output w1 = lw_output w @ frame_of ser_entry (Record_entry \<lparr>er_sequence = lw_sequence w + 1, er_tick = si_tick s1,
       er_actions = so_actions out, er_applied = so_applied out, er_hash = si_hash s1, er_network = so_network out\<rparr>)"
      and fits: "length (ser_entry (Record_entry \<lparr>er_sequence = lw_sequence w + 1, er_tick = si_tick s1,
       er_actions = so_actions out, er_applied = so_applied out, er_hash = si_hash s1, er_network = so_network out\<rparr>)) \<le> max_frame"
      and w1: "lw_sequence w1 = lw_sequence w + 1" "\<not> lw_finished w1"
      and wrote: "write_frame ser_frame True (Observations_frame (so_observations out)) shown = Inr shown1"
      by (rule live_turn_parts)
    from less.hyps [OF read_frame_shorter [OF read] more w1(2)] obtain bytes obs where
      w': "lw_output w' = lw_output w1 @ bytes" "\<not> lw_finished w'" "finished s'"
      and shown': "write_frames ser_frame (map Observations_frame obs) shown1 = Inr shown'"
      and replays: "\<And>st rest. rp_footer st = None \<Longrightarrow> rp_sim st = s1 \<Longrightarrow> rp_sequence st = lw_sequence w1 \<Longrightarrow>
           replay_loop ser parse_entry st (bytes @ rest)
           = replay_loop ser parse_entry (st\<lparr>rp_sequence := lw_sequence w', rp_sim := s',
               rp_observations := rp_observations st @ obs\<rparr>) rest" by blast
    let ?r = "\<lparr>er_sequence = lw_sequence w + 1, er_tick = si_tick s1, er_actions = so_actions out,
       er_applied = so_applied out, er_hash = si_hash s1, er_network = so_network out\<rparr>"
    let ?bytes = "frame_of ser_entry (Record_entry ?r) @ bytes"
    have "replay_loop ser parse_entry st (?bytes @ rest)
        = replay_loop ser parse_entry (st\<lparr>rp_sequence := lw_sequence w', rp_sim := s',
               rp_observations := rp_observations st @ (so_observations out # obs)\<rparr>) rest"
      if st: "rp_footer st = None" "rp_sim st = s" "rp_sequence st = lw_sequence w" for st rest
    proof -
      let ?st = "st\<lparr>rp_sequence := lw_sequence w1, rp_sim := s1, rp_observations := rp_observations st @ [so_observations out]\<rparr>"
      have "replay_entry ser st (Record_entry ?r) = Inr ?st"
        using st replay_record_live [OF one] w1(1) by (simp add: replay_entry_def)
      then have "replay_loop ser parse_entry st (?bytes @ rest) = replay_loop ser parse_entry ?st (bytes @ rest)"
        unfolding append_assoc replay_loop.simps [of ser parse_entry st] read_frame_of [OF pb fits] by simp
      also have "\<dots> = replay_loop ser parse_entry (?st\<lparr>rp_sequence := lw_sequence w', rp_sim := s',
               rp_observations := rp_observations ?st @ obs\<rparr>) rest"
        by (rule replays) (simp_all add: st)
      finally show ?thesis by simp
    qed
    with w' log shown' wrote show ?thesis
      by (intro exI [of _ ?bytes] exI [of _ "so_observations out # obs"]) simp
  qed
qed

text \<open>The whole log of a live run.\<close>

lemma run_simulation_replays:
  assumes pb: "parses_back ser_entry parse_entry"
    and run: "run_simulation ser ser_entry ser_frame parse_frame sink sc input = Inr (sm, shown, log)"
  shows "\<exists>obs. replay_event_log ser parse_entry sc (Some log) = Inr (sm, obs)
    \<and> write_frames ser_frame (map Observations_frame obs) [] = Inr shown"
proof -
  let ?h = "Header_entry \<lparr>lh_schema = 1, lh_name = sc_name sc, lh_seed = sc_seed sc, lh_hash = scenario_hash ser sc\<rparr>"
  let ?w = "\<lparr>lw_output = frame_of ser_entry ?h, lw_sequence = 0, lw_finished = False\<rparr>"
  from run [unfolded run_simulation_def open_log_def] obtain s first shown0 s' w' w'' where
    s: "new_simulator ser sc = Inr s" and first: "observe s = Inr first"
    and fits: "length (ser_entry ?h) \<le> max_frame"
    and shown0: "write_frame ser_frame True (Observations_frame first) [] = Inr shown0"
    and loop: "live_loop ser ser_entry ser_frame parse_frame sink (s, ?w, shown0) input = Inr (s', w', shown)"
    and close: "finish_log ser_entry sink (summarize s') w' = Inr w''"
    and sm: "sm = summarize s'" "log = lw_output w''"
    by (auto simp: write_frame_eq split: if_split_asm)
  from live_loop_replays [OF pb loop] obtain bytes obs where
    w': "lw_output w' = frame_of ser_entry ?h @ bytes" "\<not> lw_finished w'" "finished s'"
    and shown: "write_frames ser_frame (map Observations_frame obs) shown0 = Inr shown"
    and replays: "\<And>st rest. rp_footer st = None \<Longrightarrow> rp_sim st = s \<Longrightarrow> rp_sequence st = 0 \<Longrightarrow>
           replay_loop ser parse_entry st (bytes @ rest)
           = replay_loop ser parse_entry (st\<lparr>rp_sequence := lw_sequence w', rp_sim := s',
               rp_observations := rp_observations st @ obs\<rparr>) rest" by auto
  from close have end_fits: "length (ser_entry (Footer_entry (summarize s'))) \<le> max_frame"
    and log: "log = frame_of ser_entry ?h @ bytes @ frame_of ser_entry (Footer_entry (summarize s'))"
    using w' sm by (auto simp: finish_log_def write_frame_eq)
  let ?st = "\<lparr>rp_sequence = 0, rp_footer = None, rp_sim = s, rp_observations = [first]\<rparr>"
  let ?tail = "\<lparr>rp_sequence = lw_sequence w', rp_footer = None, rp_sim = s', rp_observations = first # obs\<rparr>"
  have "replay_loop ser parse_entry ?st (bytes @ frame_of ser_entry (Footer_entry (summarize s')))
      = replay_loop ser parse_entry ?tail (frame_of ser_entry (Footer_entry (summarize s')))"
    using replays [of ?st] by simp
  also have "\<dots> = Inr (?tail\<lparr>rp_footer := Some (summarize s')\<rparr>)"
    using read_frame_of [OF pb end_fits, of "[]"]
    by (simp add: replay_loop.simps replay_entry_def read_nothing)
  finally have "replay_event_log ser parse_entry sc (Some log) = Inr (sm, first # obs)"
    using s first w'(3) unfolding replay_event_log_def read_header_def log
    by (simp add: read_frame_of [OF pb fits] header_matches_def Let_def sm(1))
  moreover have "write_frames ser_frame (map Observations_frame (first # obs)) [] = Inr shown"
    using shown0 shown by simp
  ultimately show ?thesis by blast
qed

subsection \<open>A log that replays is a record of a run\<close>

lemma replay_loop_step:
  assumes "replay_loop ser parse_entry st input = Inr st'"
  shows "read_frame parse_entry input = Inr None \<and> st' = st
    \<or> (\<exists>e rest st1. read_frame parse_entry input = Inr (Some (e, rest)) \<and> replay_entry ser st e = Inr st1
         \<and> replay_loop ser parse_entry st1 rest = Inr st' \<and> length rest < length input)"
  using assms by (auto simp: replay_loop.simps [of ser parse_entry st] split: sum.splits option.splits dest: read_frame_shorter)

lemma replay_after_footer:
  assumes "replay_loop ser parse_entry st input = Inr st'" and "rp_footer st \<noteq> None"
  shows "read_frames parse_entry input = Inr [] \<and> st' = st"
proof -
  have refused: "replay_entry ser st e \<noteq> Inr st1" for e st1
    using assms(2) by (cases e) (auto simp: replay_entry_def)
  from replay_loop_step [OF assms(1)] refused show ?thesis by (auto simp: read_frames.simps [of parse_entry input])
qed

lemma replay_record_sound:
  assumes "replay_record ser r s = Inr (s', obs)" and "reachable ser sc s"
  shows "reachable ser sc s'" and "si_tick_hashes s' = si_tick_hashes s @ [er_hash r]" and "er_tick r = si_tick s'"
proof -
  from assms(1) obtain out where step: "step_internal ser (er_actions r) (Some (er_applied r)) s = Inr (s', out)"
    and h: "er_hash r = si_hash s'" "er_tick r = si_tick s'"
    by (auto simp: replay_record_def replay_step_def split: if_split_asm)
  show "reachable ser sc s'" by (rule reachable.another [OF assms(2) step])
  have ms: "0 \<le> to_i64 (sc_step_ms (si_scenario s))"
    using reachable_run [OF assms(2)] timing_ok(1) by (auto simp: run_ok_def)
  from step_frame [OF reachable_ok [OF assms(2)] step ms] h
  show "si_tick_hashes s' = si_tick_hashes s @ [er_hash r]" "er_tick r = si_tick s'" by simp_all
qed

lemma replay_loop_sound:
  "replay_loop ser parse_entry st input = Inr st' \<Longrightarrow> rp_footer st = None \<Longrightarrow> reachable ser sc (rp_sim st) \<Longrightarrow>
   \<exists>rs more. read_frames parse_entry input = Inr (map Record_entry rs @ more)
     \<and> more = (case rp_footer st' of None \<Rightarrow> [] | Some sm \<Rightarrow> [Footer_entry sm])
     \<and> (\<forall>i < length rs. er_sequence (rs ! i) = rp_sequence st + of_nat i + 1)
     \<and> si_tick_hashes (rp_sim st') = si_tick_hashes (rp_sim st) @ map er_hash rs \<and> reachable ser sc (rp_sim st')"
proof (induction "length input" arbitrary: input st rule: less_induct)
  case less
  from replay_loop_step [OF less.prems(1)] consider "read_frame parse_entry input = Inr None" "st' = st"
    | e rest st1 where "read_frame parse_entry input = Inr (Some (e, rest))" "replay_entry ser st e = Inr st1"
        "replay_loop ser parse_entry st1 rest = Inr st'" "length rest < length input" by blast
  then show ?case
  proof cases
    case 1
    then show ?thesis using less.prems by (intro exI [of _ "[]"]) (simp add: read_frames.simps [of parse_entry input])
  next
    case 2
    note frames = read_frames.simps [of parse_entry input]
    from 2(2) consider sm where "e = Footer_entry sm" "st1 = st\<lparr>rp_footer := Some sm\<rparr>"
      | r s1 obs where "e = Record_entry r" "er_sequence r = rp_sequence st + 1" "replay_record ser r (rp_sim st) = Inr (s1, obs)"
          "st1 = st\<lparr>rp_sequence := rp_sequence st + 1, rp_sim := s1, rp_observations := rp_observations st @ [obs]\<rparr>"
      by (auto simp: replay_entry_def less.prems(2) split: log_entry.splits if_split_asm)
    then show ?thesis
    proof cases
      case (1 sm)
      have "read_frames parse_entry rest = Inr [] \<and> st' = st1"
        by (rule replay_after_footer [OF 2(3)]) (simp add: 1)
      then show ?thesis
        using 1 2(1) less.prems(3) by (intro exI [of _ "[]"] exI [of _ "[Footer_entry sm]"]) (simp add: frames)
    next
      case r: (2 r s1 obs)
      note sound = replay_record_sound [OF r(3) less.prems(3)]
      from less.hyps [OF 2(4,3)] r(4) less.prems(2) sound(1) obtain rs more where
        rest: "read_frames parse_entry rest = Inr (map Record_entry rs @ more)"
          "more = (case rp_footer st' of None \<Rightarrow> [] | Some sm \<Rightarrow> [Footer_entry sm])"
          "\<forall>i < length rs. er_sequence (rs ! i) = rp_sequence st + 1 + of_nat i + 1"
          "si_tick_hashes (rp_sim st') = si_tick_hashes s1 @ map er_hash rs" "reachable ser sc (rp_sim st')" by auto
      have "er_sequence ((r # rs) ! i) = rp_sequence st + of_nat i + 1" if "i < length (r # rs)" for i
        using that rest(3) r(2) by (cases i) (simp_all add: ac_simps)
      then show ?thesis
        using rest sound(2) r(1) 2(1) by (intro exI [of _ "r # rs"] exI [of _ more]) (simp add: frames)
    qed
  qed
qed

lemma read_header_found:
  assumes "read_header ser parse_entry sc log = Inr rest"
  obtains h where "read_frame parse_entry log = Inr (Some (Header_entry h, rest))" and "header_matches ser sc h"
proof -
  from assms obtain found where r: "read_frame parse_entry log = Inr found" and c: "(case found of
         Some (Header_entry h, rest) \<Rightarrow>
           if header_matches ser sc h then Inr rest else Inl (Runtime_error ''event log scenario mismatch'')
       | _ \<Rightarrow> Inl (Runtime_error ''event log header is missing'')) = (Inr rest :: bytes result)"
    unfolding read_header_def bindR_eq_Inr by (elim exE conjE) (rule that)
  from c obtain e tail where "found = Some (e, tail)" by (cases found) auto
  with r c that show ?thesis by (cases e) (auto split: if_split_asm)
qed

lemma replay_event_log_sound:
  assumes "replay_event_log ser parse_entry sc (Some log) = Inr (sm, obs)"
  shows "\<exists>h rs footer s. read_frames parse_entry log = Inr (Header_entry h # map Record_entry rs @ [Footer_entry footer])
    \<and> header_matches ser sc h \<and> (\<forall>i < length rs. er_sequence (rs ! i) = of_nat i + 1)
    \<and> reachable ser sc s \<and> finished s \<and> si_tick_hashes s = map er_hash rs \<and> sm = summarize s
    \<and> ser (P_Summary footer) = ser (P_Summary sm)"
proof -
  from assms obtain rest s first st where head: "read_header ser parse_entry sc log = Inr rest" and s: "new_simulator ser sc = Inr s"
    and loop: "replay_loop ser parse_entry \<lparr>rp_sequence = 0, rp_footer = None, rp_sim = s, rp_observations = [first]\<rparr> rest = Inr st"
    and foot: "finished (rp_sim st)" "sm = summarize (rp_sim st)"
      "\<exists>footer. rp_footer st = Some footer \<and> ser (P_Summary footer) = ser (P_Summary sm)"
    by (auto simp: replay_event_log_def Let_def split: option.splits if_split_asm)
  from head obtain h where h: "read_frame parse_entry log = Inr (Some (Header_entry h, rest))" "header_matches ser sc h"
    by (rule read_header_found)
  have r: "reachable ser sc s" by (rule reachable.start [OF s])
  have "si_tick_hashes s = []"
    using reachable_run [OF r] new_simulator_tick [OF s] by (simp add: run_ok_def)
  with replay_loop_sound [OF loop, of sc] r obtain rs more where
    "read_frames parse_entry rest = Inr (map Record_entry rs @ more)"
    "more = (case rp_footer st of None \<Rightarrow> [] | Some sm \<Rightarrow> [Footer_entry sm])"
    "\<forall>i < length rs. er_sequence (rs ! i) = of_nat i + 1" "si_tick_hashes (rp_sim st) = map er_hash rs"
    "reachable ser sc (rp_sim st)" by auto
  with h foot show ?thesis
    by (intro exI [of _ h] exI [of _ rs]) (auto simp: read_frames.simps [of parse_entry log])
qed

subsection \<open>Properties\<close>

text \<open>C4: record and replay are inverse, from end to end. If a live run ends well, exporting its log with the same
  scenario gives the same summary, and a trace file equal to what the live run wrote to its standard output.\<close>

theorem record_replay:
  assumes "parses_back ser_entry parse_entry"
    and "run_simulation ser ser_entry ser_frame parse_frame sink sc input = Inr (sm, shown, log)"
  shows "export_replay_trace ser parse_entry ser_frame sc (Some log) = Inr (sm, shown)"
  using run_simulation_replays [OF assms] by (auto simp: export_replay_trace_def)

text \<open>C5: a log that replays is the record of a finished run. It is a matching header, records numbered from one, and
  one footer; from the scenario's initial state the simulator reaches a finished state whose hashes, tick by tick, are
  the recorded ones, and the footer is the summary of that state.\<close>

theorem replay_sound:
  assumes "replay_event_log ser parse_entry sc (Some log) = Inr (sm, obs)"
  shows "\<exists>h rs footer s. read_frames parse_entry log = Inr (Header_entry h # map Record_entry rs @ [Footer_entry footer])
    \<and> header_matches ser sc h \<and> (\<forall>i < length rs. er_sequence (rs ! i) = of_nat i + 1)
    \<and> reachable ser sc s \<and> finished s \<and> si_tick_hashes s = map er_hash rs \<and> sm = summarize s
    \<and> ser (P_Summary footer) = ser (P_Summary sm)"
  using assms by (rule replay_event_log_sound)

text \<open>A run of one step, for the witnesses: the vehicle \<open>a\<close> completes the only task at once.\<close>

definition demo_short :: scenario where
  "demo_short = demo_pair\<lparr>sc_tasks := tl (sc_tasks demo_pair)\<rparr>"

lemma short_dry:
  "holds (\<lambda>(s, a). \<not> finished s \<and> finished a)
     (bindR (build_sim demo_short) (\<lambda>s. bindR (observe s) (\<lambda>_.
      bindR (dry_step (\<lambda>_. []) demo_first None (s\<lparr>si_hash := h\<rparr>)) (\<lambda>a. Inr (s, a)))))"
  by code_simp

lemma short_run:
  obtains s first a out where "new_simulator (\<lambda>_. []) demo_short = Inr s" and "observe s = Inr first" and "\<not> finished s"
    and "step (\<lambda>_. []) demo_first s = Inr (a, out)" and "finished a"
proof -
  let ?ser = "(\<lambda>_. []) :: serializer"
  from holdsD [OF short_dry [where h = "[]"]] obtain s0 where s0: "build_sim demo_short = Inr s0" by auto
  define s where "s = s0\<lparr>si_hash := compute_state_hash ?ser s0\<rparr>"
  from holdsD [OF short_dry [where h = "si_hash s"]] obtain first0 a0 where "observe s0 = Inr first0" and n: "\<not> finished s0"
    and a0: "dry_step ?ser demo_first None s = Inr a0" "finished a0" by (auto simp: s0 s_def)
  then obtain first where "observe s = Inr first"
    using observe_hash [where s = s0 and h = "si_hash s" and hs = "si_tick_hashes s0"] by (auto simp: s_def)
  moreover from dry_step_step [OF a0(1)] obtain out where "step ?ser demo_first s = Inr (hashed ?ser a0, out)"
    by (auto simp: step_def)
  moreover have "\<not> finished s" "finished (hashed ?ser a0)" using n a0(2) by (simp_all add: finished_def s_def hashed_def)
  moreover have "new_simulator ?ser demo_short = Inr s" by (simp add: new_simulator_def s0 s_def)
  ultimately show ?thesis by (intro that)
qed

text \<open>A serializer for a list of messages: the position in a list is the length of the code.\<close>

definition demo_encode :: "'m list \<Rightarrow> 'm \<Rightarrow> bytes" where
  "demo_encode es e = (case filter (\<lambda>i. es ! i = e) [0..<length es] of
     [] \<Rightarrow> replicate (Suc max_frame) (CHR ''x'') | i # _ \<Rightarrow> replicate i (CHR ''x''))"

definition demo_decode :: "'m list \<Rightarrow> bytes \<Rightarrow> 'm option" where
  "demo_decode es bs = (if length bs < length es then Some (es ! length bs) else None)"

lemma demo_codec: "parses_back (demo_encode es) (demo_decode es)"
proof -
  have "demo_decode es (demo_encode es e) = Some e" if fits: "length (demo_encode es e) \<le> max_frame" for e
  proof (cases "filter (\<lambda>i. es ! i = e) [0..<length es]")
    case Nil
    with fits show ?thesis by (simp add: demo_encode_def)
  next
    case (Cons i js)
    then have "i \<in> set (filter (\<lambda>i. es ! i = e) [0..<length es])" by simp
    then have "i < length es" "es ! i = e" by simp_all
    with Cons show ?thesis by (simp add: demo_encode_def demo_decode_def)
  qed
  then show ?thesis by (simp add: parses_back_def)
qed

lemma demo_encode_short: "e \<in> set es \<Longrightarrow> length es \<le> max_frame \<Longrightarrow> length (demo_encode es e) \<le> max_frame"
proof (cases "filter (\<lambda>i. es ! i = e) [0..<length es]")
  case Nil
  assume "e \<in> set es"
  then obtain i where "i < length es" "es ! i = e" by (auto simp: in_set_conv_nth)
  then have "i \<in> set (filter (\<lambda>i. es ! i = e) [0..<length es])" by simp
  with Nil show ?thesis by simp
next
  case (Cons i js)
  assume "length es \<le> max_frame"
  moreover have "i \<in> set (filter (\<lambda>i. es ! i = e) [0..<length es])" using Cons by simp
  then have "i < length es" by simp
  ultimately show ?thesis using Cons by (simp add: demo_encode_def)
qed

lemma short_recorded:
  obtains es sm shown log where
    "run_simulation (\<lambda>_. []) (demo_encode es) (\<lambda>_. []) (\<lambda>_. Some (Actions_frame demo_first)) True demo_short
       (frame_header 1 @ ''x'') = Inr (sm, shown, log)"
proof -
  let ?ser = "(\<lambda>_. []) :: serializer"
  obtain s first a out where run: "new_simulator ?ser demo_short = Inr s" "observe s = Inr first" "\<not> finished s"
    "step ?ser demo_first s = Inr (a, out)" "finished a" by (rule short_run)
  let ?h = "Header_entry \<lparr>lh_schema = 1, lh_name = sc_name demo_short, lh_seed = sc_seed demo_short, lh_hash = scenario_hash ?ser demo_short\<rparr>"
  let ?r = "Record_entry \<lparr>er_sequence = 1, er_tick = si_tick a, er_actions = so_actions out, er_applied = so_applied out,
    er_hash = si_hash a, er_network = so_network out\<rparr>"
  let ?es = "[?h, ?r, Footer_entry (summarize a)]"
  have fits: "length (demo_encode ?es e) \<le> max_frame" if "e \<in> set ?es" for e
    using that by (rule demo_encode_short) (simp add: max_frame_def)
  have w: "write_frame (demo_encode ?es) True e out = Inr (out @ frame_of (demo_encode ?es) e)" if "e \<in> set ?es" for e out
    using fits [OF that] by (simp add: write_frame_eq)
  have v: "write_frame (\<lambda>_. []) True m out = Inr (out @ frame_of (\<lambda>_. []) m)" for m :: sim_frame and out
    by (simp add: write_frame_eq)
  have read: "read_frame (\<lambda>_. Some (Actions_frame demo_first)) (frame_header 1 @ ''x'') = Inr (Some (Actions_frame demo_first, []))"
    by (simp add: read_frame_def Let_def header_size_frame_header max_frame_def)
  have "\<exists>sm shown log. run_simulation ?ser (demo_encode ?es) (\<lambda>_. []) (\<lambda>_. Some (Actions_frame demo_first)) True demo_short
       (frame_header 1 @ ''x'') = Inr (sm, shown, log)"
    using run by (simp add: run_simulation_def open_log_def live_loop.simps read live_turn_def append_log_def finish_log_def w v Let_def)
  then show ?thesis using that by blast
qed

theorem record_replay_witness:
  "\<exists>es sm shown log. export_replay_trace (\<lambda>_. []) (demo_decode es) (\<lambda>_. []) demo_short (Some log) = Inr (sm, shown)"
  using record_replay [OF demo_codec] short_recorded by metis

theorem replay_sound_witness:
  "\<exists>es sm log s. reachable (\<lambda>_. []) demo_short s \<and> finished s \<and> sm = summarize s
     \<and> (\<exists>obs. replay_event_log (\<lambda>_. []) (demo_decode es) demo_short (Some log) = Inr (sm, obs))"
proof -
  obtain es sm shown log where run: "run_simulation (\<lambda>_. []) (demo_encode es) (\<lambda>_. []) (\<lambda>_. Some (Actions_frame demo_first)) True demo_short
       (frame_header 1 @ ''x'') = Inr (sm, shown, log)" by (rule short_recorded)
  from run_simulation_replays [OF demo_codec run] obtain obs where
    r: "replay_event_log (\<lambda>_. []) (demo_decode es) demo_short (Some log) = Inr (sm, obs)" by blast
  from replay_sound [OF r] r show ?thesis by metis
qed

end
