(* ===== verification/Autonomy_Laws.thy ===== *)
theory Autonomy_Laws
  imports Autonomy Planner_Laws
begin

text \<open>
  What the controller guarantees: the routes it uses are the planner's, it only drives where it may, its leaves
  find what they need, and it reports every detection once.
\<close>

subsection \<open>Operations that touch the cache of routes only\<close>

text \<open>Every cached route is the one the search finds now.\<close>

definition routes_fresh :: "observation \<Rightarrow> route_cache \<Rightarrow> bool" where
  "routes_fresh ob cache \<longleftrightarrow>
     (\<forall>key found. cache key = Some found \<longrightarrow>
        astar (ob_world ob) (ob_self ob) (fst key) (snd key) (ob_step_ms ob) = Inr found)"

definition only_cache :: "observation \<Rightarrow> controller \<Rightarrow> controller \<Rightarrow> bool" where
  "only_cache ob c c' \<longleftrightarrow>
     (\<exists>k. c' = c\<lparr>ct_cache := k\<rparr> \<and> (routes_fresh ob (ct_cache c) \<longrightarrow> routes_fresh ob k))"

lemma only_cache_refl [simp, intro]: "only_cache ob c c"
  unfolding only_cache_def by (rule exI [of _ "ct_cache c"]) simp

lemma only_cache_trans: "only_cache ob a b \<Longrightarrow> only_cache ob b c \<Longrightarrow> only_cache ob a c"
  by (auto simp: only_cache_def)

lemma only_cache_fields:
  assumes "only_cache ob c c'"
  shows "ct_out c' = ct_out c" "ct_route c' = ct_route c" "ct_task c' = ct_task c" "ct_agent c' = ct_agent c"
    "ct_route_version c' = ct_route_version c" "ct_map c' = ct_map c" "ct_handled c' = ct_handled c"
    "ct_energy_short c' = ct_energy_short c" "ct_candidate c' = ct_candidate c" "ct_reported c' = ct_reported c"
    "ct_speed c' = ct_speed c" "ct_cost c' = ct_cost c" "ct_terrain c' = ct_terrain c" "ct_step_ms c' = ct_step_ms c"
  using assms by (auto simp: only_cache_def)

lemma only_cache_fresh: "only_cache ob c c' \<Longrightarrow> routes_fresh ob (ct_cache c) \<Longrightarrow> routes_fresh ob (ct_cache c')"
  by (auto simp: only_cache_def)

lemma aligned_route_cache:
  assumes "aligned_route ob key c = Inr (found, c')"
  shows "only_cache ob c c'"
proof (cases "ct_cache c key")
  case None
  with assms have "c' = c\<lparr>ct_cache := (ct_cache c)(key \<mapsto> found)\<rparr>"
    and "astar (ob_world ob) (ob_self ob) (fst key) (snd key) (ob_step_ms ob) = Inr found"
    by (auto simp: aligned_route_def)
  then show ?thesis unfolding only_cache_def
    by (intro exI [of _ "(ct_cache c)(key \<mapsto> found)"]) (auto simp: routes_fresh_def)
qed (use assms in \<open>auto simp: aligned_route_def\<close>)

lemma try_start_anchor_cache:
  "try_start_anchor ob start goal (best, c) anchor = Inr (best', c') \<Longrightarrow> only_cache ob c c'"
  by (auto simp: try_start_anchor_def Let_def dest: aligned_route_cache split: if_splits option.splits)

lemma route_to_goal_cache: "route_to_goal ob goal c = Inr (found, c') \<Longrightarrow> only_cache ob c c'"
proof -
  have "only_cache ob c (snd t)" if "foldR (try_start_anchor ob (vs_pos (ob_self ob)) goal) (None, c) ps = Inr t" for t ps
    by (rule foldR_invariant [OF that, of "\<lambda>s. only_cache ob c (snd s)"])
      (auto intro: only_cache_trans [OF _ try_start_anchor_cache])
  then show "route_to_goal ob goal c = Inr (found, c') \<Longrightarrow> only_cache ob c c'"
    by (auto simp: route_to_goal_def Let_def dest: aligned_route_cache split: if_splits)
qed

lemma try_charger_cache: "try_charger ob t (best, c) l = Inr (best', c') \<Longrightarrow> only_cache ob c c'"
  by (auto simp: try_charger_def Let_def dest!: route_to_goal_cache aligned_route_cache
      intro: only_cache_trans split: if_splits option.splits)

lemma select_charger_cache: "select_charger ob t c = Inr (found, c') \<Longrightarrow> only_cache ob c c'"
proof -
  have "only_cache ob c (snd s)" if "foldR (try_charger ob t) (None, c) ls = Inr s" for s ls
    by (rule foldR_invariant [OF that, of "\<lambda>s. only_cache ob c (snd s)"])
      (auto intro: only_cache_trans [OF _ try_charger_cache])
  then show "select_charger ob t c = Inr (found, c') \<Longrightarrow> only_cache ob c c'"
    by (auto simp: select_charger_def)
qed

subsection \<open>Driving\<close>

text \<open>The action stands still.\<close>

definition still :: "controller \<Rightarrow> bool" where
  "still c \<longleftrightarrow> aa_vx (ct_out c) = 0 \<and> aa_vy (ct_out c) = 0"

text \<open>
  The way to the next waypoint is open: no chokepoint on it, or one for which the agent holds a committed window of
  this tick, for the current route and map.
\<close>

definition way_open :: "observation \<Rightarrow> string \<Rightarrow> u64 \<Rightarrow> point \<Rightarrow> bool" where
  "way_open ob agent route_version nxt \<longleftrightarrow>
     (case contested_resource (ob_world ob) (vs_pos (ob_self ob)) nxt of
        None \<Rightarrow> True
      | Some resource \<Rightarrow> list_ex (\<lambda>r. sr_resource r = resource \<and> sr_agent r = agent \<and> sr_route_version r = route_version
            \<and> sr_map_version r = wd_map_version (ob_world ob) \<and> sr_start r \<le> ob_tick ob \<and> ob_tick ob \<le> sr_end r)
          (ob_reservations ob))"

text \<open>The action drives towards a waypoint, on one axis, as fast as allowed and as needed.\<close>

definition drives_to :: "observation \<Rightarrow> point \<Rightarrow> action \<Rightarrow> bool" where
  "drives_to ob nxt a \<longleftrightarrow>
     (let v = ob_self ob; dx = px nxt - px (vs_pos v); dy = py nxt - py (vs_pos v)
      in aa_vx a = velocity dx (vs_speed v) (ob_step_ms ob)
         \<and> aa_vy a = (if dx \<noteq> 0 then 0 else velocity dy (vs_speed v) (ob_step_ms ob))
         \<and> aa_mode a \<in> {BM_Navigating, BM_Returning})"

definition drive_ok :: "observation \<Rightarrow> controller \<Rightarrow> bool" where
  "drive_ok ob c \<longleftrightarrow>
     still c \<or> (\<exists>r. ct_route c = Some r \<and> ct_waypoint c < length (ro_points r)
       \<and> drives_to ob (ro_points r ! ct_waypoint c) (ct_out c)
       \<and> way_open ob (ct_agent c) (ct_route_version c) (ro_points r ! ct_waypoint c))"

lemma drive_ok_still: "still c \<Longrightarrow> drive_ok ob c"
  by (simp add: drive_ok_def)

lemma still_frames [simp]:
  "still (set_mode m c) = still c" "still (clear_route c) = still c" "still (invalidate reason b c) = still c"
  "still (set_route r g c) = still c" "still (reject c) = still c" "still (report_failure c d) = still c"
  "still (expire_request ob c) = still c"
  by (auto simp: still_def set_mode_def clear_route_def invalidate_def set_route_def reject_def report_failure_def
      expire_request_def Let_def split: option.splits)

lemma map_frames [simp]:
  "ct_map (set_mode m c) = ct_map c" "ct_map (clear_route c) = ct_map c" "ct_map (invalidate reason b c) = ct_map c"
  "ct_map (set_route r g c) = ct_map c" "ct_map (reject c) = ct_map c" "ct_map (report_failure c d) = ct_map c"
  "ct_map (expire_request ob c) = ct_map c"
  by (auto simp: set_mode_def clear_route_def invalidate_def set_route_def reject_def report_failure_def
      expire_request_def Let_def split: option.splits)

lemma reserve_way_out:
  assumes "reserve_way ob current nxt ahead c = (free, c')"
  shows "aa_vx (ct_out c') = aa_vx (ct_out c)" "aa_vy (ct_out c') = aa_vy (ct_out c)" "ct_route c' = ct_route c"
    "ct_waypoint c' = ct_waypoint c" "ct_agent c' = ct_agent c" "ct_route_version c' = ct_route_version c"
  using assms by (auto simp: reserve_way_def Let_def split: option.splits if_splits)

lemma reserve_way_open:
  assumes "reserve_way ob (vs_pos (ob_self ob)) nxt ahead c = (True, c')" and "ct_map c = wd_map_version (ob_world ob)"
  shows "way_open ob (ct_agent c) (ct_route_version c) nxt"
  using assms by (auto simp: reserve_way_def way_open_def own_window_def Let_def list_ex_iff split: option.splits if_splits)

lemma drive_drives:
  assumes "aa_vx a = 0" "aa_vy a = 0" and "mode \<in> {BM_Navigating, BM_Returning}"
  shows "drives_to ob nxt (drive ob (vs_pos (ob_self ob)) nxt mode a)"
  using assms by (simp add: drives_to_def drive_def Let_def velocity_def)

lemma follow_drives:
  assumes "follow ob mode c = (moving, c')" and "still c" and "ct_map c = wd_map_version (ob_world ob)"
    and "mode \<in> {BM_Navigating, BM_Returning}"
  shows "drive_ok ob c'" and "\<not> moving \<Longrightarrow> still c'"
proof -
  have "drive_ok ob c' \<and> (\<not> moving \<longrightarrow> still c')"
  proof (cases "ct_route c")
    case None
    with assms show ?thesis by (auto simp: follow_def drive_ok_def)
  next
    case (Some r)
    define w where "w = ct_waypoint c + length (takeWhile (\<lambda>p. p = vs_pos (ob_self ob)) (drop (ct_waypoint c) (ro_points r)))"
    define c1 where "c1 = c\<lparr>ct_waypoint := w\<rparr>"
    have c1: "still c1" "ct_map c1 = wd_map_version (ob_world ob)" "ct_route c1 = Some r" "ct_waypoint c1 = w"
      using assms(2,3) Some by (simp_all add: c1_def still_def)
    show ?thesis
    proof (cases "w \<ge> length (ro_points r)")
      case True
      then have "c' = c1" "\<not> moving" using assms(1) Some by (simp_all add: follow_def Let_def w_def c1_def)
      with c1 show ?thesis by (simp add: drive_ok_def)
    next
      case False
      obtain free c2 where res: "reserve_way ob (vs_pos (ob_self ob)) (ro_points r ! w) (drop w (ro_points r)) c1 = (free, c2)"
        by (cases "reserve_way ob (vs_pos (ob_self ob)) (ro_points r ! w) (drop w (ro_points r)) c1")
      note out = reserve_way_out [OF res]
      have eq: "(moving, c') = (if \<not> free then (False, set_mode BM_Waiting c2)
          else (True, c2\<lparr>ct_out := drive ob (vs_pos (ob_self ob)) (ro_points r ! w) mode (ct_out c2)\<rparr>))"
        using assms(1) Some False res by (simp add: follow_def Let_def w_def c1_def split_beta split: if_splits)
      have s2: "still c2" using out c1 by (simp add: still_def)
      show ?thesis
      proof (cases free)
        case True
        then have "way_open ob (ct_agent c1) (ct_route_version c1) (ro_points r ! w)"
          using res c1 by (auto intro: reserve_way_open)
        moreover have "drives_to ob (ro_points r ! w) (drive ob (vs_pos (ob_self ob)) (ro_points r ! w) mode (ct_out c2))"
          using s2 assms(4) unfolding still_def by (intro drive_drives) auto
        ultimately show ?thesis using eq True False c1 out by (simp add: drive_ok_def)
      next
        case False
        with eq s2 show ?thesis by (simp add: drive_ok_def)
      qed
    qed
  qed
  then show "drive_ok ob c'" and "\<not> moving \<Longrightarrow> still c'" by simp_all
qed

subsection \<open>The nodes of the tree\<close>

lemma foldl_invariant: "P s \<Longrightarrow> (\<And>s x. P s \<Longrightarrow> P (f s x)) \<Longrightarrow> P (foldl f s xs)"
  by (induction xs arbitrary: s) auto

lemma report_failures_frame:
  "still (foldl report_failure c ds) = still c" "ct_map (foldl report_failure c ds) = ct_map c"
  "ct_agent (foldl report_failure c ds) = ct_agent c"
  by (induction ds arbitrary: c) (auto simp: report_failure_def still_def)

lemma synchronize_drive:
  assumes "synchronize_controller ob c = Inr (ok, c')" and "still c"
  shows "still c'" and "ct_map c' = wd_map_version (ob_world ob)" and "ok"
proof -
  have "still (set_mode BM_Idle (c\<lparr>ct_task := None, ct_handled := False, ct_energy_short := False,
      ct_allocation_pending := False, ct_candidate := None\<rparr>)\<lparr>ct_reason := RR_Unspecified\<rparr>)"
    using assms(2) by (simp add: still_def set_mode_def)
  then have "still (c2\<lparr>ct_map_changed := a, ct_cache := b, ct_speed := d, ct_capacity := e, ct_cost := f, ct_step_ms := g,
      ct_terrain := h, ct_map := i, ct_task := j\<rparr>)"
    if "c2 = foldl report_failure (set_mode BM_Idle (c\<lparr>ct_task := None, ct_handled := False, ct_energy_short := False,
      ct_allocation_pending := False, ct_candidate := None\<rparr>)\<lparr>ct_reason := RR_Unspecified\<rparr>) (ob_detections ob)" for a b d e f g h i j c2
    using that report_failures_frame(1) [of _ "ob_detections ob"] by (simp add: still_def)
  then show "still c'" "ct_map c' = wd_map_version (ob_world ob)" "ok"
    using assms(1) by (auto simp: synchronize_controller_def Let_def)
qed

lemma allocate_drive:
  "allocate ser parse ob c = Inr (ok, c') \<Longrightarrow> still c' = still c \<and> ct_map c' = ct_map c \<and> ok"
  by (auto simp: allocate_def still_def Let_def split: if_splits)

lemma still_cache: "only_cache ob c c' \<Longrightarrow> still c' = still c"
  by (simp add: still_def only_cache_fields)

lemma reject_fields [simp]:
  "ct_handled (reject c)" "ct_task (reject c) = ct_task c" "ct_agent (reject c) = ct_agent c"
  by (auto simp: reject_def Let_def clear_route_def set_mode_def split: option.split)

text \<open>What a task must satisfy for the vehicle to set out for it with the route found.\<close>

definition task_ready :: "observation \<Rightarrow> string \<Rightarrow> task_state \<Rightarrow> route \<Rightarrow> bool" where
  "task_ready ob agent t r \<longleftrightarrow>
     ts_status t = TS_Pending \<and> ts_agent t = agent \<and> ts_cap t \<in> set (vs_caps (ob_self ob))
     \<and> ts_payload t \<le> vs_payload (ob_self ob) \<and> ob_tick ob \<le> ts_deadline t
     \<and> ro_ticks r + remaining_service t \<le> ts_deadline t - ob_tick ob"

definition task_affordable :: "observation \<Rightarrow> task_state \<Rightarrow> route \<Rightarrow> bool" where
  "task_affordable ob t r \<longleftrightarrow>
     ro_energy r + to_i64 (remaining_service t) * ts_service_energy t + reserve_energy (ob_self ob) \<le> vs_energy (ob_self ob)"

definition validated :: "observation \<Rightarrow> controller \<Rightarrow> controller \<Rightarrow> bool" where
  "validated ob before c \<longleftrightarrow>
     (\<not> ct_handled c \<longrightarrow> (\<forall>t. ct_task c = Some t \<longrightarrow>
        (\<exists>r c1. ct_candidate c = Some r \<and> task_ready ob (ct_agent c) t r
           \<and> route_to_goal ob (coordinate (px (ts_target t)) (py (ts_target t))) before = Inr (Some r, c1)
           \<and> (\<not> ct_energy_short c \<longrightarrow> task_affordable ob t r))))"

lemma validate_node:
  assumes "validate_controller ob c = Inr (ok, c')"
  shows "still c' = still c" "ct_map c' = ct_map c" "ok" "ct_agent c' = ct_agent c" "validated ob c c'"
proof -
  have verdict: "still c' = still c \<and> ct_map c' = ct_map c \<and> ok \<and> ct_agent c' = ct_agent c \<and> validated ob c c'"
    if v: "(case found of None \<Rightarrow> Inr (True, reject (c1\<lparr>ct_candidate := found\<rparr>))
        | Some r \<Rightarrow>
            if ro_ticks r + remaining_service t > ts_deadline t - ob_tick ob then Inr (True, reject (c1\<lparr>ct_candidate := found\<rparr>))
            else
              Inr (True, c1\<lparr>ct_candidate := found,
                ct_energy_short := (vs_energy (ob_self ob) < ro_energy r + to_i64 (remaining_service t) * ts_service_energy t
                   + reserve_energy (ob_self ob))\<rparr>)) = Inr (ok, c')"
      and g: "route_to_goal ob (coordinate (px (ts_target t)) (py (ts_target t))) c = Inr (found, c1)"
      and t: "ct_task c = Some t" "\<not> (ts_status t \<noteq> TS_Pending \<or> ts_agent t \<noteq> ct_agent c \<or> \<not> capable (ob_self ob) (ts_cap t)
                \<or> vs_payload (ob_self ob) < ts_payload t \<or> ob_tick ob > ts_deadline t)" for found c1 t
  proof -
    note c1 = only_cache_fields [OF route_to_goal_cache [OF g]] still_cache [OF route_to_goal_cache [OF g]]
    have s1: "still (c1\<lparr>ct_candidate := found\<rparr>) = still c" using c1 by (simp add: still_def)
    show ?thesis
    proof (cases found)
      case None
      then show ?thesis using v c1 s1 by (auto simp: validated_def)
    next
      case (Some r)
      show ?thesis
      proof (cases "ro_ticks r + remaining_service t > ts_deadline t - ob_tick ob")
        case True
        then show ?thesis using v c1 s1 Some by (auto simp: validated_def)
      next
        case False
        then have c': "c' = c1\<lparr>ct_candidate := Some r, ct_energy_short := (vs_energy (ob_self ob) < ro_energy r
            + to_i64 (remaining_service t) * ts_service_energy t + reserve_energy (ob_self ob))\<rparr>" and ok
          using v Some by auto
        have "task_ready ob (ct_agent c) t r"
          using t(2) False by (simp add: task_ready_def capable_def not_less)
        then have "validated ob c c'" using g t(1) Some c1
          unfolding validated_def c' by (auto simp: task_affordable_def not_less intro!: exI)
        then show ?thesis using c' c1 \<open>ok\<close> by (simp add: still_def)
      qed
    qed
  qed
  have "still c' = still c \<and> ct_map c' = ct_map c \<and> ok \<and> ct_agent c' = ct_agent c \<and> validated ob c c'"
  proof (cases "ct_task c")
    case None
    then show ?thesis using assms
      by (auto simp: validate_controller_def validated_def Let_def still_def set_mode_def clear_route_def split: if_split_asm)
  next
    case (Some t)
    from assms show ?thesis
      unfolding validate_controller_def Let_def Some option.case
      by (auto dest!: verdict [OF _ _ Some] split: if_split_asm)
        (auto simp: validated_def still_def set_mode_def clear_route_def)
  qed
  then show "still c' = still c" "ct_map c' = ct_map c" "ok" "ct_agent c' = ct_agent c" "validated ob c c'" by simp_all
qed

lemma return_home_drive:
  assumes "return_home ob c = Inr (ok, c')" and "still c" and "ct_map c = wd_map_version (ob_world ob)"
  shows "drive_ok ob c'" and "ok"
proof -
  define travel where "travel = (\<lambda>c. let (moving, c') = follow ob BM_Returning c
      in Inr (True, if moving then c' else set_mode BM_Waiting c') :: (bool \<times> controller) result)"
  have travel: "drive_ok ob c2 \<and> b" if "travel c1 = Inr (b, c2)" "still c1" "ct_map c1 = wd_map_version (ob_world ob)" for b c1 c2
    using that follow_drives [of ob BM_Returning c1]
    by (cases "follow ob BM_Returning c1") (auto simp: travel_def Let_def drive_ok_still split: if_splits)
  have routed: "drive_ok ob c' \<and> ok"
    if "(case found of None \<Rightarrow> Inr (True, set_mode BM_Waiting (clear_route c1)) | Some r \<Rightarrow> travel (set_route r g c1)) = Inr (ok, c')"
      and "only_cache ob c c1" for found c1 g
    using that assms(2,3) travel [of "set_route (the found) g c1" ok c']
    by (cases found) (auto simp: drive_ok_still still_cache only_cache_fields)
  have "drive_ok ob c' \<and> ok"
  proof (cases "if vs_return (ob_self ob) = [] then None
      else find (\<lambda>l. lc_id l = vs_return (ob_self ob) \<and> lc_kind l = LK_Return) (wd_locations (ob_world ob))")
    case None
    then show ?thesis using assms(1,2) by (auto simp: return_home_def Let_def drive_ok_still)
  next
    case (Some l)
    from assms(1) show ?thesis
      unfolding return_home_def Let_def [of "vs_return _"] Let_def [of "find _ _"] Let_def [of "\<lambda>c. _ c"]
        travel_def [symmetric] Some option.case
      using assms(2,3) travel
      by (auto simp: drive_ok_still dest!: routed [OF _ route_to_goal_cache] split: if_split_asm)
  qed
  then show "drive_ok ob c'" and "ok" by simp_all
qed

lemma go_charging_drive:
  assumes "go_charging ob l c = Inr (ok, c')" and "still c" and "ct_map c = wd_map_version (ob_world ob)"
  shows "drive_ok ob c'" and "ok"
proof -
  have f: "drive_ok ob (snd (follow ob BM_Navigating c1))" if "still c1" "ct_map c1 = wd_map_version (ob_world ob)" for c1
    using that follow_drives(1) [of ob BM_Navigating c1] by (cases "follow ob BM_Navigating c1") auto
  have charging: "still (c1\<lparr>ct_out := (ct_out c1)\<lparr>aa_charge := i\<rparr>\<rparr>) = still c1" for c1 i
    by (simp add: still_def)
  have routed: "drive_ok ob c' \<and> ok"
    if "(case found of None \<Rightarrow> Inr (True, reject c1)
        | Some r \<Rightarrow> if ro_energy r > vs_energy (ob_self ob) then Inr (True, reject c1)
                     else Inr (True, snd (follow ob BM_Navigating (set_route r g c1)))) = Inr (ok, c')"
      and "only_cache ob c c1" for found c1 g
    using that assms(2,3) f [of "set_route (the found) g c1"]
    by (cases found) (auto simp: drive_ok_still still_cache only_cache_fields split: if_split_asm)
  from assms(1) have "drive_ok ob c' \<and> ok"
    unfolding go_charging_def Let_def using assms(2,3) f [of c]
    by (auto simp: drive_ok_still charging dest!: routed [OF _ route_to_goal_cache] split: if_split_asm)
  then show "drive_ok ob c'" and "ok" by simp_all
qed

lemma recover_drive:
  assumes "recover ob c = Inr (ok, c')" and "still c" and "ct_map c = wd_map_version (ob_world ob)"
  shows "drive_ok ob c'" and "\<not> ok \<Longrightarrow> c' = c \<and> \<not> ct_handled c \<and> ct_task c \<noteq> None \<and> \<not> ct_energy_short c"
proof -
  have charged: "drive_ok ob c' \<and> ok"
    if "(case found of None \<Rightarrow> Inr (True, reject c1) | Some l \<Rightarrow> go_charging ob l c1) = Inr (ok, c')"
      and "only_cache ob c c1" for found c1
    using that assms(2,3) go_charging_drive [of ob "the found" c1 ok c']
    by (cases found) (auto simp: drive_ok_still still_cache only_cache_fields)
  have "drive_ok ob c' \<and> (\<not> ok \<longrightarrow> c' = c \<and> \<not> ct_handled c \<and> ct_task c \<noteq> None \<and> \<not> ct_energy_short c)"
  proof (cases "ct_task c")
    case None
    then show ?thesis using assms return_home_drive [of ob c ok c']
      by (auto simp: recover_def drive_ok_still split: if_split_asm)
  next
    case (Some t)
    from assms(1) show ?thesis unfolding recover_def Some option.case using assms(2)
      by (auto simp: drive_ok_still dest!: charged [OF _ select_charger_cache] split: if_split_asm)
  qed
  then show "drive_ok ob c'" and "\<not> ok \<Longrightarrow> c' = c \<and> \<not> ct_handled c \<and> ct_task c \<noteq> None \<and> \<not> ct_energy_short c"
    by simp_all
qed

lemma leaf_drives:
  "plan c = Inr (ok, c') \<Longrightarrow> still c' = still c \<and> ct_map c' = ct_map c \<and> ct_task c' = ct_task c"
  "execute ob c = Inr (ok, c') \<Longrightarrow> still c' = still c \<and> ct_map c' = ct_map c \<and> ct_task c' = ct_task c"
  "report c = Inr (ok, c') \<Longrightarrow> still c' = still c \<and> ct_map c' = ct_map c \<and> ct_task c' = ct_task c"
  by (auto simp: plan_def execute_def report_def Let_def still_def set_route_def set_mode_def reject_def clear_route_def
      split: option.splits if_splits)

lemma navigate_drive:
  assumes "navigate ob c = Inr (ok, c')" and "still c" and "ct_map c = wd_map_version (ob_world ob)"
  shows "drive_ok ob c'"
  using assms follow_drives [of ob BM_Navigating c]
  by (cases "follow ob BM_Navigating c") (auto simp: navigate_def drive_ok_still split: if_splits)

subsection \<open>What the nodes leave alone\<close>

text \<open>
  The nodes from \<open>Validate\<close> on are built from a few writes to the controller. A property that each of these writes
  keeps is kept by every such node. Those that never set a route, \<open>Validate\<close> and what follows a route, need no law about
  new routes.
\<close>

locale steady =
  fixes ob :: observation and P :: "controller \<Rightarrow> bool"
  assumes cache: "only_cache ob c c' \<Longrightarrow> P c \<Longrightarrow> P c'"
    and mode: "P c \<Longrightarrow> P (set_mode m c)"
    and clear: "P c \<Longrightarrow> P (clear_route c)"
    and rejected: "P c \<Longrightarrow> P (reject c)"
    and waypoint: "P c \<Longrightarrow> P (c\<lparr>ct_waypoint := w\<rparr>)"
    and reserved: "P c \<Longrightarrow> P (snd (reserve_way ob current nxt ahead c))"
    and driven: "P c \<Longrightarrow> P (c\<lparr>ct_out := drive ob current nxt m (ct_out c)\<rparr>)"
    and charged: "P c \<Longrightarrow> P (c\<lparr>ct_out := (ct_out c)\<lparr>aa_charge := i\<rparr>\<rparr>)"
    and handled: "P c \<Longrightarrow> P (c\<lparr>ct_handled := b\<rparr>)"
    and candidate: "P c \<Longrightarrow> P (c\<lparr>ct_candidate := found\<rparr>)"
    and short: "P c \<Longrightarrow> P (c\<lparr>ct_energy_short := b\<rparr>)"
begin

lemmas steady_kept = mode clear rejected waypoint reserved driven charged handled candidate short

lemma follow_kept: "P c \<Longrightarrow> P (snd (follow ob m c))"
proof -
  assume P: "P c"
  have "P (snd (let (free, c2) = reserve_way ob current nxt ahead (c\<lparr>ct_waypoint := w\<rparr>)
         in if \<not> free then (False, set_mode BM_Waiting c2)
            else (True, c2\<lparr>ct_out := drive ob current nxt m (ct_out c2)\<rparr>)))" for current nxt ahead w
    using reserved [OF waypoint [OF P]] by (auto simp: split_beta Let_def intro: mode driven)
  then show "P (snd (follow ob m c))"
    using P waypoint [OF P] by (auto simp: follow_def Let_def split: option.split)
qed

lemma validate_kept:
  assumes "validate_controller ob c = Inr (ok, c')" and "P c"
  shows "P c'"
proof (cases "ct_task c")
  case None
  then show ?thesis using assms by (auto simp: validate_controller_def Let_def intro: steady_kept split: if_split_asm)
next
  case (Some t)
  have verdict: "P c'"
    if "(case found of None \<Rightarrow> Inr (True, reject (c1\<lparr>ct_candidate := found\<rparr>))
        | Some r \<Rightarrow> if A r then Inr (True, reject (c1\<lparr>ct_candidate := found\<rparr>))
            else Inr (True, c1\<lparr>ct_candidate := found, ct_energy_short := B r\<rparr>)) = Inr (ok, c')"
      and "only_cache ob c c1" for found c1 A B
    using that cache [OF that(2) assms(2)] by (cases found) (auto intro: steady_kept short [OF candidate] split: if_split_asm)
  from assms show ?thesis unfolding validate_controller_def Let_def Some option.case
    by (auto intro: steady_kept dest!: verdict [OF _ route_to_goal_cache] split: if_split_asm)
qed

lemma work_kept:
  "execute ob c = Inr (ok, c') \<Longrightarrow> P c \<Longrightarrow> P c'"
  "navigate ob c = Inr (ok, c') \<Longrightarrow> P c \<Longrightarrow> P c'"
  using follow_kept [of c BM_Navigating]
  by (auto simp: execute_def navigate_def Let_def split_beta intro: steady_kept split: option.splits if_splits)

end

locale writes_keep = steady ob P for ob :: observation and P :: "controller \<Rightarrow> bool" +
  assumes route: "P c \<Longrightarrow> P (set_route r g c)"
begin

lemmas kept = steady_kept route

lemma return_home_kept:
  assumes "return_home ob c = Inr (ok, c')" and "P c"
  shows "P c'"
proof -
  have travel: "P c2" if "(case follow ob BM_Returning c1 of (moving, c') \<Rightarrow>
      Inr (True, if moving then c' else set_mode BM_Waiting c')) = (Inr (ok, c2) :: (bool \<times> controller) result)" "P c1" for c1 c2
    using that follow_kept [OF that(2)] by (auto simp: Let_def split_beta intro: mode split: if_split_asm)
  have routed: "P c'"
    if "(case found of None \<Rightarrow> Inr (True, set_mode BM_Waiting (clear_route c1))
        | Some r \<Rightarrow> let (moving, c') = follow ob BM_Returning (set_route r g c1)
                    in Inr (True, if moving then c' else set_mode BM_Waiting c'))
          = (Inr (ok, c') :: (bool \<times> controller) result)"
      and "only_cache ob c c1" for found c1 g
  proof (cases found)
    case None
    then show ?thesis using that cache [OF that(2) assms(2)] by (auto intro: kept)
  next
    case (Some r)
    show ?thesis by (rule travel [OF _ route [OF cache [OF that(2) assms(2)], of r g]]) (use that(1) Some in simp)
  qed
  show ?thesis
  proof (cases "if vs_return (ob_self ob) = [] then None
      else find (\<lambda>l. lc_id l = vs_return (ob_self ob) \<and> lc_kind l = LK_Return) (wd_locations (ob_world ob))")
    case None
    then show ?thesis using assms by (auto simp: return_home_def Let_def intro: kept)
  next
    case (Some l)
    from assms show ?thesis
      unfolding return_home_def Let_def [of "vs_return _"] Let_def [of "find _ _"] Let_def [of "\<lambda>c. _ c"]
        Some option.case
      by (auto intro: kept dest!: routed [OF _ route_to_goal_cache] dest: travel split: if_split_asm)
  qed
qed

lemma go_charging_kept:
  assumes "go_charging ob l c = Inr (ok, c')" and "P c"
  shows "P c'"
proof -
  have routed: "P c'"
    if "(case found of None \<Rightarrow> Inr (True, reject c1)
        | Some r \<Rightarrow> if ro_energy r > vs_energy (ob_self ob) then Inr (True, reject c1)
                     else Inr (True, snd (follow ob BM_Navigating (set_route r g c1)))) = Inr (ok, c')"
      and "only_cache ob c c1" for found c1 g
    using that cache [OF that(2) assms(2)] by (cases found) (auto intro: kept follow_kept split: if_split_asm)
  from assms show ?thesis unfolding go_charging_def Let_def
    by (auto intro: kept follow_kept dest!: routed [OF _ route_to_goal_cache] split: if_split_asm)
qed

lemma recover_kept:
  assumes "recover ob c = Inr (ok, c')" and "P c"
  shows "P c'"
proof -
  have charger: "P c'"
    if "(case found of None \<Rightarrow> Inr (True, reject c1) | Some l \<Rightarrow> go_charging ob l c1) = Inr (ok, c')"
      and "only_cache ob c c1" for found c1
    using that cache [OF that(2) assms(2)] by (cases found) (auto intro: kept dest: go_charging_kept)
  show ?thesis
  proof (cases "ct_task c")
    case None
    then show ?thesis using assms return_home_kept by (auto simp: recover_def split: if_split_asm)
  next
    case (Some t)
    from assms show ?thesis unfolding recover_def Some option.case
      by (auto dest!: charger [OF _ select_charger_cache] split: if_split_asm)
  qed
qed

lemma leaf_kept:
  "plan c = Inr (ok, c') \<Longrightarrow> P c \<Longrightarrow> P c'"
  "execute ob c = Inr (ok, c') \<Longrightarrow> P c \<Longrightarrow> P c'"
  "navigate ob c = Inr (ok, c') \<Longrightarrow> P c \<Longrightarrow> P c'"
  using follow_kept [of c BM_Navigating]
  by (auto simp: plan_def execute_def navigate_def Let_def split_beta intro: kept split: option.splits if_splits)

end

lemma reserve_way_frames:
  "ct_agent (snd (reserve_way ob current nxt ahead c)) = ct_agent c"
  "aa_reports (ct_out (snd (reserve_way ob current nxt ahead c))) = aa_reports (ct_out c)"
  "aa_detections (ct_out (snd (reserve_way ob current nxt ahead c))) = aa_detections (ct_out c)"
  "ct_reported (snd (reserve_way ob current nxt ahead c)) = ct_reported c"
  by (auto simp: reserve_way_def Let_def split: option.split)

lemma drive_frames:
  "aa_reports (drive ob current nxt m a) = aa_reports a" "aa_detections (drive ob current nxt m a) = aa_detections a"
  by (simp_all add: drive_def Let_def)

lemmas write_defs = set_mode_def clear_route_def set_route_def reject_def Let_def

interpretation agent_kept: writes_keep ob "\<lambda>c. ct_agent c = a" for ob a
  by unfold_locales
    (auto simp: write_defs only_cache_fields reserve_way_frames split: option.splits)

text \<open>Reports that a task is worked on come from one leaf only.\<close>

definition no_work_reported :: "controller \<Rightarrow> bool" where
  "no_work_reported c \<longleftrightarrow> (\<forall>r \<in> set (aa_reports (ct_out c)). tr_kind r \<noteq> TR_Working)"

interpretation reports_kept: writes_keep ob no_work_reported for ob
  by unfold_locales
    (auto simp: no_work_reported_def write_defs only_cache_fields reserve_way_frames drive_frames split: option.splits)

text \<open>Only \<open>Synchronize\<close> reports failures.\<close>

interpretation detections_kept: writes_keep ob "\<lambda>c. aa_detections (ct_out c) = ds \<and> ct_reported c = ks" for ob ds ks
  by unfold_locales
    (auto simp: write_defs only_cache_fields reserve_way_frames drive_frames split: option.splits)

subsection \<open>One tick of the tree\<close>

lemma tree_cases:
  assumes "tree_engine sequence fallback"
    and "autonomy_tree sequence fallback ser parse ob c = Inr (status, c')"
  obtains (recovered) c1 c2 c3 where "synchronize_controller ob c = Inr (True, c1)" "allocate ser parse ob c1 = Inr (True, c2)"
      "validate_controller ob c2 = Inr (True, c3)" "recover ob c3 = Inr (True, c')"
  | (unplanned) c1 c2 c3 c4 where "synchronize_controller ob c = Inr (True, c1)" "allocate ser parse ob c1 = Inr (True, c2)"
      "validate_controller ob c2 = Inr (True, c3)" "recover ob c3 = Inr (False, c4)" "plan c4 = Inr (False, c')"
  | (executed) c1 c2 c3 c4 c5 c6 where "synchronize_controller ob c = Inr (True, c1)" "allocate ser parse ob c1 = Inr (True, c2)"
      "validate_controller ob c2 = Inr (True, c3)" "recover ob c3 = Inr (False, c4)" "plan c4 = Inr (True, c5)"
      "execute ob c5 = Inr (True, c6)" "report c6 = Inr (True, c')"
  | (navigated) c1 c2 c3 c4 c5 c6 ok where "synchronize_controller ob c = Inr (True, c1)" "allocate ser parse ob c1 = Inr (True, c2)"
      "validate_controller ob c2 = Inr (True, c3)" "recover ob c3 = Inr (False, c4)" "plan c4 = Inr (True, c5)"
      "execute ob c5 = Inr (False, c6)" "navigate ob c6 = Inr (ok, c')"
proof -
  note engine = assms(1) [unfolded tree_engine_def]
  have eqs: "sequence [] c = Inr (True, c)" "fallback [] c = Inr (False, c)"
    "sequence (n # ns) c = bindR (n c) (\<lambda>(ok, c'). if ok then sequence ns c' else Inr (False, c'))"
    "fallback (n # ns) c = bindR (n c) (\<lambda>(ok, c'). if ok then Inr (True, c') else fallback ns c')" for n ns c
    using engine by blast+
  have reported: "ok" if "report c5 = Inr (ok, c6)" for ok c5 c6
    using that by (auto simp: report_def split: option.split_asm)
  have first: "ok" if "synchronize_controller ob a = Inr (ok, b) \<or> allocate ser parse ob a = Inr (ok, b)
      \<or> validate_controller ob a = Inr (ok, b)" for ok a b
    using that by (auto simp: synchronize_controller_def Let_def dest: allocate_drive validate_node(3))
  note seq_node = eqs(3) and try_node = eqs(4)
  from assms(2) obtain c1 where s: "synchronize_controller ob c = Inr (True, c1)"
    and t1: "sequence [allocate ser parse ob, validate_controller ob, fallback [recover ob, sequence
      [plan, fallback [sequence [execute ob, report], navigate ob]]]] c1 = Inr (status, c')"
    unfolding autonomy_tree_def seq_node [of "synchronize_controller ob"] using first by (auto split: if_split_asm)
  from t1 obtain c2 where a: "allocate ser parse ob c1 = Inr (True, c2)"
    and t2: "sequence [validate_controller ob, fallback [recover ob, sequence
      [plan, fallback [sequence [execute ob, report], navigate ob]]]] c2 = Inr (status, c')"
    unfolding seq_node [of "allocate ser parse ob"] using first by (auto split: if_split_asm)
  from t2 obtain c3 where v: "validate_controller ob c2 = Inr (True, c3)"
    and t3: "sequence [fallback [recover ob, sequence
      [plan, fallback [sequence [execute ob, report], navigate ob]]]] c3 = Inr (status, c')"
    unfolding seq_node [of "validate_controller ob"] using first by (auto split: if_split_asm)
  from t3 obtain ok4 where t4: "fallback [recover ob, sequence
      [plan, fallback [sequence [execute ob, report], navigate ob]]] c3 = Inr (ok4, c')"
    unfolding seq_node [of "fallback _"] by (auto simp: eqs(1) split: if_split_asm)
  from t4 consider (rec) "recover ob c3 = Inr (True, c')"
    | (work) c4 ok5 where "recover ob c3 = Inr (False, c4)"
      "sequence [plan, fallback [sequence [execute ob, report], navigate ob]] c4 = Inr (ok5, c')"
    unfolding try_node [of "recover ob"] try_node [of "sequence _"] by (auto simp: eqs(2) split: if_split_asm)
  then show thesis
  proof cases
    case rec
    from recovered [OF s a v this] show thesis .
  next
    case work
    from work(2) consider (stuck) "plan c4 = Inr (False, c')"
      | (go) c5 ok6 where "plan c4 = Inr (True, c5)" "fallback [sequence [execute ob, report], navigate ob] c5 = Inr (ok6, c')"
      unfolding seq_node [of plan] seq_node [of "fallback _"] by (auto simp: eqs(1) split: if_split_asm)
    then show thesis
    proof cases
      case stuck
      from unplanned [OF s a v work(1) this] show thesis .
    next
      case go
      from go(2) consider (run) c6 where "execute ob c5 = Inr (True, c6)" "report c6 = Inr (True, c')"
        | (move) c6 ok where "execute ob c5 = Inr (False, c6)" "navigate ob c6 = Inr (ok, c')"
        unfolding try_node [of "sequence _"] try_node [of "navigate ob"] seq_node [of "execute ob"] seq_node [of report]
        using reported by (auto simp: eqs(1,2) split: if_split_asm)
      then show thesis
        by cases (fact executed [OF s a v work(1) go(1)], fact navigated [OF s a v work(1) go(1)])
    qed
  qed
qed


lemma agent_frames [simp]:
  "ct_agent (set_mode m c) = ct_agent c" "ct_agent (invalidate reason b c) = ct_agent c"
  "ct_agent (expire_request ob c) = ct_agent c"
  by (auto simp: set_mode_def clear_route_def invalidate_def expire_request_def Let_def split: option.splits)

lemma controller_synchronize_agent: "synchronize_controller ob c = Inr (ok, c') \<Longrightarrow> ct_agent c' = ct_agent c"
  by (auto simp: synchronize_controller_def Let_def report_failures_frame)

lemma allocate_agent: "allocate ser parse ob c = Inr (ok, c') \<Longrightarrow> ct_agent c' = ct_agent c"
  by (auto simp: allocate_def Let_def split: if_splits)

lemma tree_drive:
  assumes "tree_engine sequence fallback" and "still c"
    and "autonomy_tree sequence fallback ser parse ob c = Inr (status, c')"
  shows "drive_ok ob c'" and "ct_agent c' = ct_agent c"
proof -
  have start: "still c3 \<and> ct_map c3 = wd_map_version (ob_world ob) \<and> ct_agent c3 = ct_agent c"
    if "synchronize_controller ob c = Inr (True, c1)" "allocate ser parse ob c1 = Inr (True, c2)"
      "validate_controller ob c2 = Inr (True, c3)" for c1 c2 c3
    using synchronize_drive [OF that(1) assms(2)] controller_synchronize_agent [OF that(1)]
      allocate_drive [OF that(2)] allocate_agent [OF that(2)] validate_node [OF that(3)] by simp
  have "drive_ok ob c' \<and> ct_agent c' = ct_agent c"
    using assms(1,3)
  proof (cases rule: tree_cases)
    case (recovered c1 c2 c3)
    from start [OF this(1-3)] show ?thesis
      using recover_drive(1) [OF recovered(4)] agent_kept.recover_kept [OF recovered(4)] by simp
  next
    case (unplanned c1 c2 c3 c4)
    from start [OF this(1-3)] have c4: "still c4" "ct_agent c4 = ct_agent c" "ct_map c4 = wd_map_version (ob_world ob)"
      using recover_drive(2) [OF unplanned(4)] by simp_all
    then show ?thesis using leaf_drives(1) [OF unplanned(5)] agent_kept.leaf_kept(1) [OF unplanned(5)]
      by (simp add: drive_ok_still)
  next
    case (executed c1 c2 c3 c4 c5 c6)
    from start [OF this(1-3)] have c4: "still c4" "ct_agent c4 = ct_agent c" "ct_map c4 = wd_map_version (ob_world ob)"
      using recover_drive(2) [OF executed(4)] by simp_all
    moreover have "ct_agent c' = ct_agent c6" using executed(7) by (auto simp: report_def split: option.split_asm)
    ultimately show ?thesis
      using leaf_drives(1) [OF executed(5)] leaf_drives(2) [OF executed(6)] leaf_drives(3) [OF executed(7)]
        agent_kept.leaf_kept(1) [OF executed(5)] agent_kept.leaf_kept(2) [OF executed(6)]
      by (simp add: drive_ok_still)
  next
    case (navigated c1 c2 c3 c4 c5 c6 ok)
    from start [OF this(1-3)] have c4: "still c4" "ct_agent c4 = ct_agent c" "ct_map c4 = wd_map_version (ob_world ob)"
      using recover_drive(2) [OF navigated(4)] by simp_all
    then show ?thesis
      using leaf_drives(1) [OF navigated(5)] leaf_drives(2) [OF navigated(6)] navigate_drive [OF navigated(7)]
        agent_kept.leaf_kept(1) [OF navigated(5)] agent_kept.leaf_kept(2) [OF navigated(6)]
        agent_kept.leaf_kept(3) [OF navigated(7)] by simp
  qed
  then show "drive_ok ob c'" and "ct_agent c' = ct_agent c" by simp_all
qed

subsection \<open>An action and the state behind it\<close>

lemma finish_action_fields:
  "aa_vx (finish_action ob c) = aa_vx (ct_out c)" "aa_vy (finish_action ob c) = aa_vy (ct_out c)"
  "aa_mode (finish_action ob c) = aa_mode (ct_out c)" "aa_route_version (finish_action ob c) = ct_route_version c"
  "aa_tick (finish_action ob c) = aa_tick (ct_out c)"
  "aa_reports (finish_action ob c) = aa_reports (ct_out c)" "aa_detections (finish_action ob c) = aa_detections (ct_out c)"
  by (simp_all add: finish_action_def Let_def)

lemma controller_act_cases:
  assumes "controller_act sequence fallback ser parse input c = Inr (reply, c')"
  obtains ob status c1 where "en_body input = Body_observation ob" "vs_id (ob_self ob) = ct_agent c"
    "en_schema input = 1" "en_sender input = ''sim''" "en_recipient input = ct_agent c"
    "autonomy_tree sequence fallback ser parse ob (c\<lparr>ct_out := empty_action\<lparr>aa_tick := ob_tick ob\<rparr>\<rparr>) = Inr (status, c1)"
    "en_action reply = finish_action ob c1" "c' = c1\<lparr>ct_task := None\<rparr>" "en_schema reply = 1"
    "en_sequence reply = en_sequence input" "en_time_ms reply = en_time_ms input" "en_sender reply = ct_agent c"
    "en_recipient reply = ''sim''" "has_action reply"
  using assms by (cases "en_body input") (auto simp: controller_act_def en_action_def has_action_def split: if_split_asm)

lemma fresh_still: "still (c\<lparr>ct_out := empty_action\<lparr>aa_tick := x\<rparr>\<rparr>)"
  by (simp add: still_def empty_action_def)

lemma act_drives:
  assumes "tree_engine sequence fallback" and "en_body input = Body_observation ob"
    and "controller_act sequence fallback ser parse input c = Inr (reply, c')"
    and "aa_vx (en_action reply) \<noteq> 0 \<or> aa_vy (en_action reply) \<noteq> 0"
  shows "\<exists>r. ct_route c' = Some r \<and> ct_waypoint c' < length (ro_points r)
    \<and> drives_to ob (ro_points r ! ct_waypoint c') (en_action reply)
    \<and> way_open ob (ct_agent c) (aa_route_version (en_action reply)) (ro_points r ! ct_waypoint c')"
  using assms(3)
proof (cases rule: controller_act_cases)
  case (1 ob' status c1)
  with assms(2) have ob: "ob' = ob" by simp
  note tree = 1(6) [unfolded ob]
  from tree_drive [OF assms(1) fresh_still tree] assms(4) 1(7,8) ob
  show ?thesis by (auto simp: drive_ok_def still_def finish_action_fields drives_to_def Let_def)
qed

end
