(* ===== verification/Mission.thy ===== *)
theory Mission
  imports Supervisor Event_Log_Laws Autonomy_Laws
begin

text \<open>
  The processes of a mission together: the supervisor's loop over the simulation process and the agent processes of
  this repository, connected by queues of frames. A process that has thrown is dead: it reads nothing more, and what it
  wrote before is still delivered. Nobody asks the supervisor to stop.
\<close>

subsection \<open>The processes behind the pipes\<close>

type_synonym live = "sim \<times> log_writer \<times> bytes"

text \<open>The simulation process (\<^verbatim>\<open>sim/src/main.cpp\<close>) on frames: it answers a batch of actions with its next observations.\<close>

definition sim_receive ::
    "serializer \<Rightarrow> (log_entry \<Rightarrow> bytes) \<Rightarrow> (sim_frame \<Rightarrow> bytes) \<Rightarrow> sim_frame \<Rightarrow> live option \<times> sim_frame list
     \<Rightarrow> live option \<times> sim_frame list" where
  "sim_receive ser ser_entry ser_frame frame = (\<lambda>(p, sent).
     case p of
       None \<Rightarrow> (None, sent)
     | Some st \<Rightarrow>
         if finished (fst st) then (p, sent)
         else case frame of
           Actions_frame actions \<Rightarrow>
             (case bindR (step ser actions (fst st)) (\<lambda>(s', out).
                   bindR (live_turn ser ser_entry ser_frame True actions st) (\<lambda>st'.
                     Inr (st', Observations_frame (so_observations out)))) of
                Inl e \<Rightarrow> (None, sent)
              | Inr (st', answer) \<Rightarrow> (Some st', sent @ [answer]))
         | _ \<Rightarrow> (None, sent))"

definition sim_start ::
    "serializer \<Rightarrow> (log_entry \<Rightarrow> bytes) \<Rightarrow> (sim_frame \<Rightarrow> bytes) \<Rightarrow> scenario \<Rightarrow> live option \<times> sim_frame list" where
  "sim_start ser ser_entry ser_frame sc =
     (case bindR (new_simulator ser sc) (\<lambda>s.
           bindR (open_log ser ser_entry True sc) (\<lambda>w.
           bindR (observe s) (\<lambda>first.
           bindR (write_frame ser_frame True (Observations_frame first) []) (\<lambda>shown.
             Inr ((s, w, shown), Observations_frame first))))) of
        Inl e \<Rightarrow> (None, [])
      | Inr (st, first) \<Rightarrow> (Some st, [first]))"

text \<open>Its exit code when its input is closed.\<close>

definition sim_exit :: "(log_entry \<Rightarrow> bytes) \<Rightarrow> live option \<times> sim_frame list \<Rightarrow> int" where
  "sim_exit ser_entry = (\<lambda>(p, sent).
     case p of
       None \<Rightarrow> 1
     | Some (s, w, shown) \<Rightarrow>
         if \<not> finished s then 1
         else (case finish_log ser_entry True (summarize s) w of Inl e \<Rightarrow> 1 | Inr w' \<Rightarrow> 0))"

text \<open>An agent process (\<open>Agent_Process\<close>) on envelopes.\<close>

definition agent_receive ::
    "(envelope \<Rightarrow> bytes) \<Rightarrow> (envelope \<Rightarrow> 'c \<Rightarrow> (envelope \<times> 'c) result) \<Rightarrow> envelope \<Rightarrow> 'c option \<times> envelope list
     \<Rightarrow> 'c option \<times> envelope list" where
  "agent_receive ser act e = (\<lambda>(p, sent).
     case p of
       None \<Rightarrow> (None, sent)
     | Some c \<Rightarrow>
         (case act e c of
            Inl x \<Rightarrow> (None, sent)
          | Inr (reply, c') \<Rightarrow> if length (ser reply) > max_frame then (None, sent) else (Some c', sent @ [reply])))"

definition take_frame :: "string \<Rightarrow> 'p option \<times> 'm list \<Rightarrow> ('m \<times> 'p option \<times> 'm list) result" where
  "take_frame gone = (\<lambda>(p, sent).
     case sent of
       [] \<Rightarrow> Inl (Runtime_error gone)
     | m # ms \<Rightarrow> Inr (m, p, ms))"

definition put_frame :: "('m \<Rightarrow> bytes) \<Rightarrow> ('m \<Rightarrow> 'q \<Rightarrow> 'q) \<Rightarrow> 'm \<Rightarrow> 'q \<Rightarrow> 'q result" where
  "put_frame ser receive m q =
     (if length (ser m) > max_frame then Inl (Runtime_error ''protocol frame is too large'') else Inr (receive m q))"

definition processes ::
    "string \<Rightarrow> serializer \<Rightarrow> (log_entry \<Rightarrow> bytes) \<Rightarrow> (sim_frame \<Rightarrow> bytes) \<Rightarrow> (envelope \<Rightarrow> bytes) \<Rightarrow> (string \<Rightarrow> 'c result)
     \<Rightarrow> (envelope \<Rightarrow> 'c \<Rightarrow> (envelope \<times> 'c) result)
     \<Rightarrow> (live option \<times> sim_frame list, 'c option \<times> envelope list) channels" where
  "processes gone ser ser_entry ser_frame ser_envelope begin_agent act =
     \<lparr>ch_check_stop = (\<lambda>_. Inr ()),
      ch_read_sim = take_frame gone, ch_write_sim = put_frame ser_frame (sim_receive ser ser_entry ser_frame),
      ch_finish_sim = (\<lambda>q. Inr (sim_exit ser_entry q, q)),
      ch_spawn = (\<lambda>i. Inr (case begin_agent i of Inl e \<Rightarrow> (None, []) | Inr c \<Rightarrow> (Some c, []))),
      ch_read_agent = take_frame gone, ch_write_agent = put_frame ser_envelope (agent_receive ser_envelope act),
      ch_finish_agent = (\<lambda>(p, sent). Inr (if p = None then 1 else 0))\<rparr>"

subsection \<open>The simulation side of an exchange\<close>

lemma exchange_sim:
  assumes "exchange ch b (agents, s) = Inr (agents', s')"
  obtains actions where "answers ch b agents = Inr (agents', actions)" "ch_write_sim ch (Actions_frame actions) s = Inr s'"
  using assms by (auto simp: exchange_def)

lemma sim_receive_answers:
  assumes "sim_receive ser ser_entry ser_frame (Actions_frame actions) (Some (s, w, shown), []) = (p, sent)"
    and "\<not> finished s"
  shows "(p = None \<and> sent = []) \<or> (\<exists>s' w' shown' out. p = Some (s', w', shown') \<and> sent = [Observations_frame (so_observations out)]
     \<and> step ser actions s = Inr (s', out) \<and> live_turn ser ser_entry ser_frame True actions (s, w, shown) = Inr (s', w', shown'))"
proof (cases "live_turn ser ser_entry ser_frame True actions (s, w, shown)")
  case (Inl e)
  then show ?thesis using assms by (auto simp: sim_receive_def split: sum.splits)
next
  case (Inr st')
  obtain s' w' shown' where st': "st' = (s', w', shown')" by (cases st')
  from Inr st' obtain out where "step ser actions s = Inr (s', out)" by (auto elim: live_turn_parts)
  with Inr st' assms show ?thesis by (auto simp: sim_receive_def)
qed

text \<open>A successful exchange with a running simulation: the simulation has died of it, or has made its step.\<close>

lemma exchange_live:
  assumes "exchange (processes gone ser ser_entry ser_frame ser_envelope begin_agent act) b (agents, Some (s, w, shown), []) = Inr (agents', q)"
    and "\<not> finished s"
  obtains (died) "q = (None, [])"
  | (went) acts s' w' shown' out where
      "answers (processes gone ser ser_entry ser_frame ser_envelope begin_agent act) b agents = Inr (agents', acts)"
      "length (ser_frame (Actions_frame acts)) \<le> max_frame"
      "q = (Some (s', w', shown'), [Observations_frame (so_observations out)])" "step ser acts s = Inr (s', out)"
      "live_turn ser ser_entry ser_frame True acts (s, w, shown) = Inr (s', w', shown')"
proof -
  let ?ch = "processes gone ser ser_entry ser_frame ser_envelope begin_agent act"
  from assms(1) obtain acts where a: "answers ?ch b agents = Inr (agents', acts)"
    and "ch_write_sim ?ch (Actions_frame acts) (Some (s, w, shown), []) = Inr q"
    by (rule exchange_sim)
  then have fits: "length (ser_frame (Actions_frame acts)) \<le> max_frame"
    and q: "sim_receive ser ser_entry ser_frame (Actions_frame acts) (Some (s, w, shown), []) = q"
    by (auto simp: processes_def put_frame_def split: if_split_asm)
  obtain p sent where "q = (p, sent)" by (cases q)
  with sim_receive_answers [OF q [unfolded this] assms(2)] a fits that show thesis by blast
qed

lemma step_observes: "step ser actions s = Inr (s', out) \<Longrightarrow> observe s' = Inr (so_observations out)"
  unfolding step_def by (erule step_internal_phases) auto

lemma observe_batch:
  "observe s = Inr b \<Longrightarrow> bt_finished b = finished s \<and> bt_summary b = (if finished s then Some (summarize s) else None) \<and> bt_tick b = si_tick s"
  by (auto simp: observe_def)

subsection \<open>The whole mission\<close>

definition requests :: "(sim_frame \<Rightarrow> bytes) \<Rightarrow> action_batch list \<Rightarrow> bytes" where
  "requests ser_frame batches = concat (map (\<lambda>b. frame_of ser_frame (Actions_frame b)) batches)"

lemma requests_simps [simp]:
  "requests ser_frame [] = []"
  "requests ser_frame (b # bs) = frame_of ser_frame (Actions_frame b) @ requests ser_frame bs"
  by (simp_all add: requests_def)

lemma live_loop_request:
  assumes "parses_back ser_frame parse_frame" and "length (ser_frame (Actions_frame actions)) \<le> max_frame" and "\<not> finished s"
    and "live_turn ser ser_entry ser_frame True actions (s, w, shown) = Inr st"
  shows "live_loop ser ser_entry ser_frame parse_frame True (s, w, shown) (requests ser_frame (actions # rest))
    = live_loop ser ser_entry ser_frame parse_frame True st (requests ser_frame rest)"
  by (subst live_loop.simps) (simp add: assms read_frame_of [OF assms(1,2)])

lemma mission_turn_dead:
  "mission_turn (processes gone ser ser_entry ser_frame ser_envelope begin_agent act) (agents, None, [])
   = Inl (Runtime_error gone)"
  by (simp add: mission_turn_def processes_def take_frame_def)

lemma mission_loop_dead:
  "\<exists>e. mission_loop (processes gone ser ser_entry ser_frame ser_envelope begin_agent act) (agents, None, []) = Some (Inl e)"
  by (subst mission_loop.simps) (simp add: mission_turn_dead)

lemma mission_turn_live:
  assumes "observe s = Inr b"
  shows "mission_turn (processes gone ser ser_entry ser_frame ser_envelope begin_agent act) (agents, Some (s, w, shown), [Observations_frame b])
    = (if finished s then Inr (Some (Observations_frame b), agents, Some (s, w, shown), [])
       else bindR (exchange (processes gone ser ser_entry ser_frame ser_envelope begin_agent act) b (agents, Some (s, w, shown), []))
              (\<lambda>st. Inr (None, st)))"
  using observe_batch [OF assms] by (simp add: mission_turn_def processes_def take_frame_def)

text \<open>The loop comes to an end from every state of the simulation.\<close>

lemma mission_loop_ends:
  "reachable ser sc s \<Longrightarrow> observe s = Inr b \<Longrightarrow>
    \<exists>r. mission_loop (processes gone ser ser_entry ser_frame ser_envelope begin_agent act) (agents, Some (s, w, shown), [Observations_frame b]) = Some r"
proof (induction "unat (sc_max_ticks (normalize_scenario sc)) - unat (si_tick s)" arbitrary: s b w shown agents rule: less_induct)
  case less
  let ?ch = "processes gone ser ser_entry ser_frame ser_envelope begin_agent act"
  note loop = mission_loop.simps [of ?ch "(agents, Some (s, w, shown), [Observations_frame b])"]
  note turn = mission_turn_live [OF less.prems(2), of gone ser ser_entry ser_frame ser_envelope begin_agent act agents w shown]
  show ?case
  proof (cases "finished s")
    case True
    then show ?thesis unfolding loop turn by simp
  next
    case False
    show ?thesis
    proof (cases "exchange ?ch b (agents, Some (s, w, shown), [])")
      case (Inl e)
      then show ?thesis unfolding loop turn using False by simp
    next
      case (Inr st)
      obtain agents1 q1 where st: "st = (agents1, q1)" by (cases st)
      have go: "mission_loop ?ch (agents, Some (s, w, shown), [Observations_frame b]) = mission_loop ?ch (agents1, q1)"
        unfolding loop turn using False Inr st by simp
      from Inr [unfolded st] False show ?thesis
      proof (cases rule: exchange_live)
        case died
        then show ?thesis unfolding go using mission_loop_dead by blast
      next
        case (went acts s' w' shown' out)
        have r: "reachable ser sc s'" by (rule reachable.another [OF less.prems(1) went(4) [unfolded step_def]])
        have tick: "unat (si_tick s') = unat (si_tick s) + 1"
          by (rule reachable_step(3) [OF less.prems(1) went(4) [unfolded step_def]])
        have "unat (si_tick s') \<le> unat (sc_max_ticks (normalize_scenario sc))"
          using reachable_run [OF r] by (simp add: run_ok_def word_le_nat_alt)
        then have "unat (sc_max_ticks (normalize_scenario sc)) - unat (si_tick s')
            < unat (sc_max_ticks (normalize_scenario sc)) - unat (si_tick s)" using tick by linarith
        from less.hyps [OF this r step_observes [OF went(4)]] show ?thesis unfolding go went(3) .
      qed
    qed
  qed
qed

lemma sim_start_cases:
  obtains (dead) "sim_start ser ser_entry ser_frame sc = (None, [])"
  | (up) s w first shown where "new_simulator ser sc = Inr s" "open_log ser ser_entry True sc = Inr w" "observe s = Inr first"
      "write_frame ser_frame True (Observations_frame first) [] = Inr shown"
      "sim_start ser ser_entry ser_frame sc = (Some (s, w, shown), [Observations_frame first])"
proof (cases "bindR (new_simulator ser sc) (\<lambda>s.
           bindR (open_log ser ser_entry True sc) (\<lambda>w.
           bindR (observe s) (\<lambda>first.
           bindR (write_frame ser_frame True (Observations_frame first) []) (\<lambda>shown.
             Inr ((s, w, shown), Observations_frame first)))))")
  case (Inl e)
  then show thesis by (intro dead) (simp add: sim_start_def)
next
  case (Inr x)
  then show thesis by (auto intro: up simp: sim_start_def)
qed

lemma run_mission_ends:
  "\<exists>r. run_mission (processes gone ser ser_entry ser_frame ser_envelope begin_agent act) (sim_start ser ser_entry ser_frame sc) = Some r"
proof (cases rule: sim_start_cases [of ser ser_entry ser_frame sc])
  case dead
  then show ?thesis
    using mission_loop_dead [of gone ser ser_entry ser_frame ser_envelope begin_agent act "[]"] by (auto simp: run_mission_def)
next
  case (up s w first shown)
  then show ?thesis
    using mission_loop_ends [OF reachable.start [OF up(1)] up(3), of gone ser_entry ser_frame ser_envelope begin_agent act "[]" w shown]
    by (auto simp: run_mission_def)
qed

end
