(* ===== verification/Mission_Conduct.thy ===== *)
theory Mission_Conduct
  imports Mission
begin

text \<open>
  What a mission amounts to when the processes and the pipes between them are left out: the simulation shows its
  observations, every agent is called on the one addressed to it, and the simulation makes a step with their replies
  (\<open>conducted\<close>). A mission that succeeds has done exactly this.
\<close>

subsection \<open>The observations of a reachable state\<close>

lemma observed_vehicle:
  assumes "observe_vehicle s i v = Inr e" and "vh_id v \<noteq> []"
  shows "en_recipient e = vh_id v" and "check_observation (si_tick s) e = Inr ()"
  using assms by (auto simp: observe_vehicle_def Let_def check_observation_def sent_observation_def vehicle_view_def task_view_def)

lemma reachable_ids:
  assumes "reachable ser sc s"
  shows "3 \<le> length (si_vehicles s)" "length (si_vehicles s) \<le> 5" "strictly_sorted vh_id (si_vehicles s)"
    "v \<in> set (si_vehicles s) \<Longrightarrow> vh_id v \<noteq> []"
proof -
  from reachable_run [OF assms] obtain u where run: "map vh_spec (si_vehicles s) = sc_vehicles (normalize_scenario sc)"
    and valid: "validate_scenario (normalize_scenario sc) = Inr u" by (auto simp: run_ok_def)
  have len: "length (si_vehicles s) = length (sc_vehicles (normalize_scenario sc))" by (simp flip: run)
  then show "3 \<le> length (si_vehicles s)" "length (si_vehicles s) \<le> 5" using validate_checks(2) [OF valid] by auto
  show "strictly_sorted vh_id (si_vehicles s)" using reachable_ok [OF assms] by (simp add: sim_ok_def vehicles_ok_def)
  show "vh_id v \<noteq> []" if "v \<in> set (si_vehicles s)"
  proof -
    have "vh_spec v \<in> set (sc_vehicles (normalize_scenario sc))" using that by (auto simp flip: run)
    with validate_checks(10) [OF valid] show ?thesis
      by (auto simp: each_eq check_vehicle_def valid_id_def vh_id_def)
  qed
qed

lemma all_checked:
  "\<forall>e \<in> set es. check_observation tick e = Inr () \<Longrightarrow> foldR (\<lambda>_ e. check_observation tick e) () es = Inr ()"
  by (induction es) auto

lemma observations_ordered:
  assumes "reachable ser sc s" and "observe s = Inr b"
  shows "order_observations b = Inr (bt_observations b)"
    and "map en_recipient (bt_observations b) = map vh_id (si_vehicles s)"
proof -
  note ids = reachable_ids [OF assms(1)]
  from assms(2) obtain es where es: "mapiR (observe_vehicle s) 0 (si_vehicles s) = Inr es" "bt_observations b = es" "bt_tick b = si_tick s"
    by (auto simp: observe_def)
  note each = mapiR_all2 [OF es(1)]
  have who: "map en_recipient es = map vh_id (si_vehicles s)"
    using each ids(4) by (induction rule: list_all2_induct) (auto dest: observed_vehicle(1))
  have "\<forall>e \<in> set es. check_observation (si_tick s) e = Inr ()"
    using each ids(4) by (induction rule: list_all2_induct) (auto dest: observed_vehicle(2))
  then have "foldR (\<lambda>_ e. check_observation (si_tick s) e) () es = Inr ()" by (rule all_checked)
  moreover have sorted: "strictly_sorted en_recipient es" using ids(3) by (simp add: who)
  moreover have "length es = length (si_vehicles s)" using each by (simp add: list_all2_lengthD)
  ultimately show "order_observations b = Inr (bt_observations b)"
    using ids(1,2) by (simp add: order_observations_def es sort_key_id strictly_sorted_imp_sorted adjacent_dup_sorted Let_def)
  show "map en_recipient (bt_observations b) = map vh_id (si_vehicles s)" by (simp add: es who)
qed

subsection \<open>A mission as calls\<close>

text \<open>The agents that are alive, by identifier. Each agent is called on its observation and goes on from where this
  leaves it; the batch carries the tick of the observations and the replies in their order.\<close>

definition replied ::
    "(envelope \<Rightarrow> 'c \<Rightarrow> (envelope \<times> 'c) result) \<Rightarrow> (string \<Rightarrow> 'c option) \<Rightarrow> observation_batch \<Rightarrow> action_batch
     \<Rightarrow> (string \<Rightarrow> 'c option) \<Rightarrow> bool" where
  "replied act team b acts team' \<longleftrightarrow> ab_tick acts = bt_tick b
     \<and> list_all2 (\<lambda>e reply. \<exists>c c'. team (en_recipient e) = Some c \<and> act e c = Inr (reply, c') \<and> team' (en_recipient e) = Some c')
         (bt_observations b) (ab_actions acts)
     \<and> (\<forall>i. i \<notin> en_recipient ` set (bt_observations b) \<longrightarrow> team' i = team i)"

inductive conducted ::
    "serializer \<Rightarrow> (envelope \<Rightarrow> 'c \<Rightarrow> (envelope \<times> 'c) result) \<Rightarrow> sim \<Rightarrow> (string \<Rightarrow> 'c option)
     \<Rightarrow> action_batch list \<Rightarrow> observation_batch list \<Rightarrow> sim \<Rightarrow> bool" for ser act where
  over: "conducted ser act s team [] [b] s" if "finished s" and "observe s = Inr b"
| turn: "conducted ser act s team (acts # batches) (b # shown) s''"
    if "\<not> finished s" and "observe s = Inr b" and "replied act team b acts team'" and "step ser acts s = Inr (s', out)"
      and "conducted ser act s' team' batches shown s''"

lemma conducted_shown: "conducted ser act s team batches shown s' \<Longrightarrow> shown \<noteq> [] \<and> observe s' = Inr (List.last shown) \<and> finished s'"
  by (induction rule: conducted.induct) auto

subsection \<open>The agents in their processes\<close>

lemma keys_put: "map_find m k \<noteq> None \<Longrightarrow> map fst (map_put k v m) = map fst m"
  by (induction m) (auto split: if_split_asm)

lemma map_emplace_above: "\<forall>i \<in> fst ` set m. i < k \<Longrightarrow> map_emplace k v m = m @ [(k, v)]"
  by (induction m) auto

lemma enlist_fresh:
  assumes "\<And>i. ch_spawn ch i = Inr (boot i)"
  shows "strictly_sorted en_recipient es \<Longrightarrow> \<forall>e \<in> set es. \<forall>i \<in> fst ` set agents. i < en_recipient e \<Longrightarrow>
    foldR (enlist ch True) agents es = Inr (agents @ map (\<lambda>e. (en_recipient e, boot (en_recipient e))) es)"
proof (induction es arbitrary: agents)
  case (Cons e es)
  have "enlist ch True agents e = Inr (agents @ [(en_recipient e, boot (en_recipient e))])"
    using Cons.prems(2) by (simp add: enlist_def assms map_emplace_above)
  then show ?case using Cons by auto
qed simp

lemma enlist_again:
  "\<forall>e \<in> set es. map_find agents (en_recipient e) \<noteq> None \<Longrightarrow> foldR (enlist ch False) agents es = Inr agents"
  by (induction es) (auto simp: enlist_def)

lemma map_find_fresh:
  "distinct (map f es) \<Longrightarrow> strictly_sorted f es \<Longrightarrow> e \<in> set es \<Longrightarrow> map_find (map (\<lambda>e. (f e, g e)) es) (f e) = Some (g e)"
  by (induction es) auto

text \<open>The process of each agent of the team, with nothing left to be read.\<close>

definition manned :: "(string \<Rightarrow> 'c option) \<Rightarrow> string list \<Rightarrow> (string, 'c option \<times> envelope list) ordered_map \<Rightarrow> bool" where
  "manned team ids agents \<longleftrightarrow> map fst agents = ids \<and> (\<forall>i \<in> set ids. map_find agents i = Some (team i, []))"

definition at_start :: "(string \<Rightarrow> 'c result) \<Rightarrow> string \<Rightarrow> 'c option" where
  "at_start begin_agent i = (case begin_agent i of Inl e \<Rightarrow> None | Inr c \<Rightarrow> Some c)"

lemma enlist_mans:
  assumes "(agents = [] \<and> team = at_start begin_agent) \<or> manned team (map en_recipient es) agents" and "strictly_sorted en_recipient es"
    and "enlist_all (processes gone ser ser_entry ser_frame ser_envelope begin_agent act) es agents = Inr agents1"
  shows "manned team (map en_recipient es) agents1"
proof -
  let ?ch = "processes gone ser ser_entry ser_frame ser_envelope begin_agent act"
  have d: "distinct (map en_recipient es)" using assms(2) by (rule strictly_sorted_distinct)
  show ?thesis
  proof (cases "agents = []")
    case True
    show ?thesis
    proof (cases "es = []")
      case True
      then show ?thesis using assms(3) \<open>agents = []\<close> by (auto simp: enlist_all_def manned_def split: if_split_asm)
    next
      case False
      with assms(1) True have t: "team = at_start begin_agent" by (auto simp: manned_def)
      have "foldR (enlist ?ch True) [] es = Inr ([] @ map (\<lambda>e. (en_recipient e, (at_start begin_agent (en_recipient e), []))) es)"
        by (rule enlist_fresh) (use assms(2) in \<open>auto simp: processes_def at_start_def split: sum.split\<close>)
      with True assms(3) have "agents1 = map (\<lambda>e. (en_recipient e, (at_start begin_agent (en_recipient e), []))) es"
        by (simp add: enlist_all_def)
      then show ?thesis by (simp add: manned_def t comp_def map_find_fresh [OF d assms(2)])
    qed
  next
    case False
    with assms(1) have m: "manned team (map en_recipient es) agents" by simp
    then have "foldR (enlist ?ch False) agents es = Inr agents"
      by (intro enlist_again) (simp add: manned_def)
    with False assms(3) m show ?thesis by (simp add: enlist_all_def split: if_split_asm)
  qed
qed

text \<open>Each agent is given its observation, and its process has done what it does with it.\<close>

lemma tell_each:
  assumes "foldR (tell (processes gone ser ser_entry ser_frame ser_envelope begin_agent act)) agents es = Inr agents'"
    and "distinct (map en_recipient es)" and "\<forall>e \<in> set es. map_find agents (en_recipient e) = Some (before e)"
  shows "map fst agents' = map fst agents \<and> (\<forall>e \<in> set es. map_find agents' (en_recipient e) = Some (agent_receive ser_envelope act e (before e)))
    \<and> (\<forall>i. i \<notin> en_recipient ` set es \<longrightarrow> map_find agents' i = map_find agents i)"
  using assms
proof (induction es arbitrary: agents)
  case (Cons e es)
  let ?ch = "processes gone ser ser_entry ser_frame ser_envelope begin_agent act"
  let ?agents = "map_put (en_recipient e) (agent_receive ser_envelope act e (before e)) agents"
  have here: "map_find agents (en_recipient e) = Some (before e)" using Cons.prems(3) by simp
  from Cons.prems(1) obtain agents1 where one: "tell ?ch agents e = Inr agents1" and rest: "foldR (tell ?ch) agents1 es = Inr agents'"
    by auto
  from one have agents1: "agents1 = ?agents"
    by (auto simp: tell_def map_at_def here processes_def put_frame_def split: if_split_asm)
  have other: "en_recipient d \<noteq> en_recipient e" if "d \<in> set es" for d using Cons.prems(2) that by (metis distinct.simps(2) image_eqI list.set_map list.simps(9))
  have keys: "map fst ?agents = map fst agents" using here by (intro keys_put) simp
  have "\<forall>d \<in> set es. map_find ?agents (en_recipient d) = Some (before d)" using Cons.prems(3) other by simp
  from Cons.IH [OF rest [unfolded agents1] _ this] Cons.prems(2) keys show ?case by auto
qed simp

text \<open>The replies are what the processes had sent, in the order of the observations.\<close>

lemma hear_each:
  assumes "foldR (hear (processes gone ser ser_entry ser_frame ser_envelope begin_agent act)) (agents, replies) es = Inr (agents', replies')"
    and "distinct (map en_recipient es)" and "\<forall>e \<in> set es. map_find agents (en_recipient e) = Some (before e)"
  shows "\<exists>heard. replies' = replies @ heard \<and> map fst agents' = map fst agents
    \<and> list_all2 (\<lambda>e reply. \<exists>p sent. before e = (p, reply # sent) \<and> map_find agents' (en_recipient e) = Some (p, sent)) es heard
    \<and> (\<forall>i. i \<notin> en_recipient ` set es \<longrightarrow> map_find agents' i = map_find agents i)"
  using assms
proof (induction es arbitrary: agents replies)
  case (Cons e es)
  let ?ch = "processes gone ser ser_entry ser_frame ser_envelope begin_agent act"
  have here: "map_find agents (en_recipient e) = Some (before e)" using Cons.prems(3) by simp
  from Cons.prems(1) obtain agents1 replies1 where one: "hear ?ch (agents, replies) e = Inr (agents1, replies1)"
    and rest: "foldR (hear ?ch) (agents1, replies1) es = Inr (agents', replies')" by auto
  from one obtain p reply sent where b: "before e = (p, reply # sent)" and r1: "replies1 = replies @ [reply]"
    and agents1: "agents1 = map_put (en_recipient e) (p, sent) agents"
    by (cases "before e") (auto simp: hear_def map_at_def here processes_def take_frame_def split: list.split_asm)
  have other: "en_recipient d \<noteq> en_recipient e" if "d \<in> set es" for d using Cons.prems(2) that by (metis distinct.simps(2) image_eqI list.set_map list.simps(9))
  have keys: "map fst agents1 = map fst agents" using here unfolding agents1 by (intro keys_put) simp
  have "\<forall>d \<in> set es. map_find agents1 (en_recipient d) = Some (before d)" using Cons.prems(3) other by (simp add: agents1)
  from Cons.IH [OF rest _ this] Cons.prems(2) obtain heard where heard: "replies' = replies1 @ heard" "map fst agents' = map fst agents1"
    "list_all2 (\<lambda>e reply. \<exists>p sent. before e = (p, reply # sent) \<and> map_find agents' (en_recipient e) = Some (p, sent)) es heard"
    "\<forall>i. i \<notin> en_recipient ` set es \<longrightarrow> map_find agents' i = map_find agents1 i" by auto
  have "map_find agents' (en_recipient e) = Some (p, sent)" using heard(4) Cons.prems(2) by (simp add: agents1)
  then show ?case using heard b r1 keys by (intro exI [of _ "reply # heard"]) (auto simp: agents1)
qed simp

lemma agent_receive_reply:
  "agent_receive ser_envelope act e (x, []) = (p, reply # sent) \<Longrightarrow>
     sent = [] \<and> (\<exists>c c'. x = Some c \<and> act e c = Inr (reply, c') \<and> p = Some c')"
  by (auto simp: agent_receive_def split: option.split_asm sum.split_asm if_split_asm)

text \<open>So one exchange is one call of every agent.\<close>

lemma answers_replied:
  fixes act :: "envelope \<Rightarrow> 'c \<Rightarrow> (envelope \<times> 'c) result"
  assumes "answers (processes gone ser ser_entry ser_frame ser_envelope begin_agent act) b agents = Inr (agents', acts)"
    and "(agents = [] \<and> team = at_start begin_agent) \<or> manned team (map en_recipient (bt_observations b)) agents"
    and "order_observations b = Inr (bt_observations b)" and "strictly_sorted en_recipient (bt_observations b)"
  obtains team' where "replied act team b acts team'" and "manned team' (map en_recipient (bt_observations b)) agents'"
proof -
  let ?ch = "processes gone ser ser_entry ser_frame ser_envelope begin_agent act" and ?es = "bt_observations b"
  have d: "distinct (map en_recipient ?es)" using assms(4) by (rule strictly_sorted_distinct)
  from assms(1) obtain agents1 agents2 replies where e: "enlist_all ?ch ?es agents = Inr agents1"
    and t: "foldR (tell ?ch) agents1 ?es = Inr agents2" and h: "foldR (hear ?ch) (agents2, []) ?es = Inr (agents', replies)"
    and acts: "acts = \<lparr>ab_tick = bt_tick b, ab_actions = replies\<rparr>"
    by (auto simp: answers_def assms(3))
  have m: "manned team (map en_recipient ?es) agents1" by (rule enlist_mans [OF assms(2,4) e])
  then have "\<forall>e \<in> set ?es. map_find agents1 (en_recipient e) = Some (team (en_recipient e), [])" by (simp add: manned_def)
  note told = tell_each [OF t d this]
  then have "\<forall>e \<in> set ?es. map_find agents2 (en_recipient e) = Some (agent_receive ser_envelope act e (team (en_recipient e), []))" by blast
  from hear_each [OF h d this] have keys: "map fst agents' = map fst agents2"
    and each: "list_all2 (\<lambda>e reply. \<exists>p sent. agent_receive ser_envelope act e (team (en_recipient e), []) = (p, reply # sent)
        \<and> map_find agents' (en_recipient e) = Some (p, sent)) ?es replies" by auto
  define team' where "team' i = (if i \<in> en_recipient ` set ?es then fst (the (map_find agents' i)) else team i)" for i
  have "list_all2 (\<lambda>e reply. (\<exists>c c'. team (en_recipient e) = Some c \<and> act e c = Inr (reply, c') \<and> team' (en_recipient e) = Some c')
      \<and> map_find agents' (en_recipient e) = Some (team' (en_recipient e), [])) ?es replies"
    by (rule list.rel_mono_strong [OF each]) (auto simp: team'_def dest!: agent_receive_reply)
  then have r: "replied act team b acts team'" and found: "list_all2 (\<lambda>e reply. map_find agents' (en_recipient e) = Some (team' (en_recipient e), [])) ?es replies"
    by (auto simp: replied_def acts team'_def elim: list.rel_mono_strong)
  from found have "\<forall>e \<in> set ?es. map_find agents' (en_recipient e) = Some (team' (en_recipient e), [])"
    by (induction rule: list_all2_induct) simp_all
  with keys told m have "manned team' (map en_recipient ?es) agents'" by (simp add: manned_def)
  with r show thesis by (rule that)
qed

subsection \<open>The mission\<close>

lemma mission_loop_conducted:
  fixes act :: "envelope \<Rightarrow> 'c \<Rightarrow> (envelope \<times> 'c) result"
  assumes pb: "parses_back ser_frame parse_frame"
  shows "reachable ser sc s \<Longrightarrow> observe s = Inr b \<Longrightarrow>
    (agents = [] \<and> team = at_start begin_agent) \<or> manned team (map en_recipient (bt_observations b)) agents \<Longrightarrow>
    mission_loop (processes gone ser ser_entry ser_frame ser_envelope begin_agent act) (agents, Some (s, w, shown), [Observations_frame b])
      = Some (Inr (terminal, agents', q)) \<Longrightarrow>
    \<exists>batches obs s' w' shown'. conducted ser act s team batches obs s' \<and> q = (Some (s', w', shown'), []) \<and> terminal = Observations_frame (List.last obs)
      \<and> live_loop ser ser_entry ser_frame parse_frame True (s, w, shown) (requests ser_frame batches) = Inr (s', w', shown')
      \<and> write_frames ser_frame (map Observations_frame (tl obs)) shown = Inr shown'"
proof (induction "unat (sc_max_ticks (normalize_scenario sc)) - unat (si_tick s)" arbitrary: s b w shown agents team rule: less_induct)
  case less
  let ?ch = "processes gone ser ser_entry ser_frame ser_envelope begin_agent act"
  note loop = mission_loop.simps [of ?ch "(agents, Some (s, w, shown), [Observations_frame b])"]
  note turn = mission_turn_live [OF less.prems(2), of gone ser ser_entry ser_frame ser_envelope begin_agent act agents w shown]
  show ?case
  proof (cases "finished s")
    case True
    then have "terminal = Observations_frame b" "q = (Some (s, w, shown), [])" using less.prems(4) unfolding loop turn by simp_all
    with conducted.over [OF True less.prems(2), of ser act team] True show ?thesis
      by (intro exI [of _ "[]"] exI [of _ "[b]"]) (simp add: live_loop.simps write_frames_def)
  next
    case False
    show ?thesis
    proof (cases "exchange ?ch b (agents, Some (s, w, shown), [])")
      case (Inl e)
      then show ?thesis using less.prems(4) unfolding loop turn using False by simp
    next
      case (Inr st)
      obtain agents1 q1 where st: "st = (agents1, q1)" by (cases st)
      have go: "mission_loop ?ch (agents1, q1) = Some (Inr (terminal, agents', q))"
        using less.prems(4) unfolding loop turn using False Inr st by simp
      from Inr [unfolded st] False show ?thesis
      proof (cases rule: exchange_live)
        case died
        then show ?thesis using go mission_loop_dead [of gone ser ser_entry ser_frame ser_envelope begin_agent act agents1] by auto
      next
        case (went acts s1 w1 shown1 out)
        note order = observations_ordered [OF less.prems(1,2)]
        have sorted: "strictly_sorted en_recipient (bt_observations b)" using reachable_ids(3) [OF less.prems(1)] by (simp add: order(2))
        obtain team1 where called: "replied act team b acts team1" and m: "manned team1 (map en_recipient (bt_observations b)) agents1"
          by (rule answers_replied [OF went(1) less.prems(3) order(1) sorted])
        have r: "reachable ser sc s1" by (rule reachable.another [OF less.prems(1) went(4) [unfolded step_def]])
        have tick: "unat (si_tick s1) = unat (si_tick s) + 1"
          by (rule reachable_step(3) [OF less.prems(1) went(4) [unfolded step_def]])
        have "unat (si_tick s1) \<le> unat (sc_max_ticks (normalize_scenario sc))"
          using reachable_run [OF r] by (simp add: run_ok_def word_le_nat_alt)
        then have shorter: "unat (sc_max_ticks (normalize_scenario sc)) - unat (si_tick s1)
            < unat (sc_max_ticks (normalize_scenario sc)) - unat (si_tick s)" using tick by linarith
        have "map en_recipient (bt_observations (so_observations out)) = map en_recipient (bt_observations b)"
          using order(2) observations_ordered(2) [OF r step_observes [OF went(4)]] reachable_ok [OF r] reachable_ok [OF less.prems(1)]
          by (simp add: sim_ok_def vehicles_ok_def)
        with m have "manned team1 (map en_recipient (bt_observations (so_observations out))) agents1" by simp
        from less.hyps [OF shorter r step_observes [OF went(4)] disjI2 [OF this] go [unfolded went(3)]]
        obtain batches obs s' w' shown' where rest: "conducted ser act s1 team1 batches obs s'" "q = (Some (s', w', shown'), [])"
            "terminal = Observations_frame (List.last obs)"
            "live_loop ser ser_entry ser_frame parse_frame True (s1, w1, shown1) (requests ser_frame batches) = Inr (s', w', shown')"
            "write_frames ser_frame (map Observations_frame (tl obs)) shown1 = Inr shown'" by blast
        have c: "conducted ser act s team (acts # batches) (b # obs) s'"
          by (rule conducted.turn [OF False less.prems(2) called went(4) rest(1)])
        have first: "obs = so_observations out # tl obs"
          using rest(1) step_observes [OF went(4)] by (cases rule: conducted.cases) auto
        have wrote: "write_frame ser_frame True (Observations_frame (so_observations out)) shown = Inr shown1"
          using went(5) live_turn_parts went(4) by (metis Inr_inject prod.inject)
        have "write_frames ser_frame (map Observations_frame (tl (b # obs))) shown = Inr shown'"
          using wrote rest(5) by (subst first) (simp add: write_frames_def)
        then show ?thesis
          using c rest(2,3) live_loop_request [OF pb went(2) False went(5)] rest(4) conducted_shown [OF rest(1)]
          by (intro exI [of _ "acts # batches"] exI [of _ "b # obs"] exI [of _ s'] exI [of _ w'] exI [of _ shown']) simp
      qed
    qed
  qed
qed

lemma run_mission_conducted:
  fixes act :: "envelope \<Rightarrow> 'c \<Rightarrow> (envelope \<times> 'c) result"
  assumes pb: "parses_back ser_frame parse_frame"
    and "run_mission (processes gone ser ser_entry ser_frame ser_envelope begin_agent act) (sim_start ser ser_entry ser_frame sc)
      = Some (Inr terminal)"
  obtains s batches obs s' shown log where "new_simulator ser sc = Inr s" and "conducted ser act s (at_start begin_agent) batches obs s'"
    and "terminal = Observations_frame (List.last obs)"
    and "run_simulation ser ser_entry ser_frame parse_frame True sc (requests ser_frame batches) = Inr (summarize s', shown, log)"
    and "write_frames ser_frame (map Observations_frame obs) [] = Inr shown"
proof (cases rule: sim_start_cases [of ser ser_entry ser_frame sc])
  case dead
  then show ?thesis
    using assms(2) mission_loop_dead [of gone ser ser_entry ser_frame ser_envelope begin_agent act "[]"] by (auto simp: run_mission_def)
next
  case boot: (up s w first shown)
  let ?ch = "processes gone ser ser_entry ser_frame ser_envelope begin_agent act"
  from assms(2) obtain agents' q where l: "mission_loop ?ch ([], Some (s, w, shown), [Observations_frame first]) = Some (Inr (terminal, agents', q))"
    and code: "sim_exit ser_entry q = 0"
    by (auto simp: run_mission_def boot(5) bindR_def require_def processes_def split: option.split_asm sum.split_asm if_split_asm)
  from mission_loop_conducted [OF pb reachable.start [OF boot(1)] boot(3) disjI1 l]
  obtain batches obs s' w' shown' where c: "conducted ser act s (at_start begin_agent) batches obs s'" and q: "q = (Some (s', w', shown'), [])"
    and t: "terminal = Observations_frame (List.last obs)"
    and run: "live_loop ser ser_entry ser_frame parse_frame True (s, w, shown) (requests ser_frame batches) = Inr (s', w', shown')"
    and wrote: "write_frames ser_frame (map Observations_frame (tl obs)) shown = Inr shown'" by blast
  have "finished s'" using conducted_shown [OF c] by simp
  with code obtain w'' where "finish_log ser_entry True (summarize s') w' = Inr w''"
    by (auto simp: sim_exit_def q split: sum.split_asm)
  with boot run have "run_simulation ser ser_entry ser_frame parse_frame True sc (requests ser_frame batches)
      = Inr (summarize s', shown', lw_output w'')"
    by (simp add: run_simulation_def)
  moreover have "obs = first # tl obs" using c boot(3) by (cases rule: conducted.cases) auto
  then have "write_frames ser_frame (map Observations_frame obs) [] = Inr shown'"
    using boot(4) wrote by (metis (no_types, lifting) bindR_simps(2) foldR.simps(2) list.simps(9) write_frames_def)
  ultimately show ?thesis using that [OF boot(1) c t] by blast
qed

end
