(* ===== verification/Mission_Demo.thy ===== *)
theory Mission_Demo
  imports Mission
begin

text \<open>
  A whole mission, evaluated in the logic: the scenario of one step of \<open>Event_Log_Laws\<close> with three agents that answer
  every observation with an idle action. Hashes stay symbolic; the messages of the run are coded by their position.
\<close>

definition idle_reply :: "envelope \<Rightarrow> envelope" where
  "idle_reply e = \<lparr>en_schema = 1, en_sequence = en_sequence e, en_time_ms = en_time_ms e, en_sender = en_recipient e,
     en_recipient = ''sim'', en_body = Body_action empty_action\<rparr>"

definition idle_mission :: "(log_entry \<Rightarrow> bytes) \<Rightarrow> (sim_frame \<Rightarrow> bytes)
    \<Rightarrow> (live option \<times> sim_frame list, unit option \<times> envelope list) channels" where
  "idle_mission ser_entry ser_frame = processes ''process closed its protocol stream'' (\<lambda>_. []) ser_entry ser_frame (\<lambda>_. []) (\<lambda>_. Inr ()) (\<lambda>e c. Inr (idle_reply e, c))"

lemma idle_dry:
  "holds (\<lambda>(s, b, es, a). \<not> finished s \<and> finished a \<and> order_observations b = Inr es \<and> map en_recipient es = [''a'', ''b'', ''c'']
       \<and> list_all (\<lambda>e. check_reply (idle_reply e) e = Inr ()) es)
     (bindR (build_sim demo_short) (\<lambda>s0. let s = s0\<lparr>si_hash := h\<rparr> in bindR (observe s) (\<lambda>b.
      bindR (order_observations b) (\<lambda>es.
      bindR (dry_step (\<lambda>_. []) \<lparr>ab_tick = bt_tick b, ab_actions = map idle_reply es\<rparr> None s) (\<lambda>a. Inr (s, b, es, a))))))"
  by code_simp

lemma idle_answers:
  assumes "order_observations b = Inr [e1, e2, e3]"
    and "en_recipient e1 = ''a''" "en_recipient e2 = ''b''" "en_recipient e3 = ''c''"
    and "check_reply (idle_reply e1) e1 = Inr ()" "check_reply (idle_reply e2) e2 = Inr ()" "check_reply (idle_reply e3) e3 = Inr ()"
  shows "answers (idle_mission ser_entry ser_frame) b []
    = Inr (map (\<lambda>i. (i, Some (), [])) [''a'', ''b'', ''c''], \<lparr>ab_tick = bt_tick b, ab_actions = map idle_reply [e1, e2, e3]\<rparr>)"
proof -
  let ?ch = "idle_mission ser_entry ser_frame"
  have ch: "ch_spawn ?ch i = Inr (Some (), [])" "ch_write_agent ?ch e (Some (), []) = Inr (Some (), [idle_reply e])"
    "ch_read_agent ?ch (Some (), [m]) = Inr (m, Some (), [])" for i e m
    by (simp_all add: idle_mission_def processes_def put_frame_def agent_receive_def take_frame_def)
  have ids: "''a'' < ''b''" "''a'' < ''c''" "''b'' < ''c''" by code_simp+
  note [simp] = ids ids [THEN less_not_sym] ids [THEN less_imp_neq] ids [THEN less_imp_neq, symmetric]
  have e: "enlist_all ?ch [e1, e2, e3] [] = Inr (map (\<lambda>i. (i, Some (), [])) [''a'', ''b'', ''c''])"
    by (simp add: enlist_all_def enlist_def assms(2-4) ch)
  have t: "foldR (tell ?ch) (map (\<lambda>i. (i, Some (), [])) [''a'', ''b'', ''c'']) [e1, e2, e3]
      = Inr [(''a'', Some (), [idle_reply e1]), (''b'', Some (), [idle_reply e2]), (''c'', Some (), [idle_reply e3])]"
    by (simp add: tell_def assms(2-4) ch map_at_def)
  have h: "foldR (hear ?ch) ([(''a'', Some (), [idle_reply e1]), (''b'', Some (), [idle_reply e2]), (''c'', Some (), [idle_reply e3])], []) [e1, e2, e3]
      = Inr (map (\<lambda>i. (i, Some (), [])) [''a'', ''b'', ''c''], map idle_reply [e1, e2, e3])"
    by (simp add: hear_def assms(2-7) ch map_at_def)
  show ?thesis by (simp only: answers_def assms(1) e t h bindR_simps prod.case)
qed

lemma idle_run:
  obtains s b acts a out agents where "new_simulator (\<lambda>_. []) demo_short = Inr s" and "observe s = Inr b" and "\<not> finished s"
    and "\<forall>ser_entry ser_frame. answers (idle_mission ser_entry ser_frame) b [] = Inr (agents, acts)"
    and "list_all (\<lambda>(i, p). p = (Some (), [])) agents"
    and "step (\<lambda>_. []) acts s = Inr (a, out)" and "finished a"
proof -
  let ?ser = "(\<lambda>_. []) :: serializer"
  from holdsD [OF idle_dry [where h = "[]"]] obtain s0 where s0: "build_sim demo_short = Inr s0" by (auto simp: Let_def)
  define s where "s = s0\<lparr>si_hash := compute_state_hash ?ser s0\<rparr>"
  from holdsD [OF idle_dry [where h = "si_hash s"]] obtain b es a where n: "\<not> finished s" "finished a" and b: "observe s = Inr b"
    and es: "order_observations b = Inr es" "map en_recipient es = [''a'', ''b'', ''c'']"
      "list_all (\<lambda>e. check_reply (idle_reply e) e = Inr ()) es"
    and a: "dry_step ?ser \<lparr>ab_tick = bt_tick b, ab_actions = map idle_reply es\<rparr> None s = Inr a"
    by (auto simp: s0 s_def Let_def)
  from es(2) obtain e1 e2 e3 where e: "es = [e1, e2, e3]" "en_recipient e1 = ''a''" "en_recipient e2 = ''b''" "en_recipient e3 = ''c''"
    by (auto simp: map_eq_Cons_conv)
  have ans: "answers (idle_mission ser_entry ser_frame) b []
      = Inr (map (\<lambda>i. (i, Some (), [])) [''a'', ''b'', ''c''], \<lparr>ab_tick = bt_tick b, ab_actions = map idle_reply es\<rparr>)" for ser_entry ser_frame
    unfolding e(1) by (rule idle_answers) (use es e in simp_all)
  from dry_step_step [OF a] obtain out where "step ?ser \<lparr>ab_tick = bt_tick b, ab_actions = map idle_reply es\<rparr> s = Inr (hashed ?ser a, out)"
    by (auto simp: step_def)
  moreover have "finished (hashed ?ser a)" using n(2) by (simp add: finished_def hashed_def)
  moreover have "new_simulator ?ser demo_short = Inr s" by (simp add: new_simulator_def s0 s_def)
  ultimately show ?thesis using b n(1) ans by (intro that) (assumption | simp)+
qed

lemma one_exchange:
  assumes "observe s = Inr b" "\<not> finished s" and "observe a = Inr b'" "finished a"
    and "exchange (idle_mission ser_entry ser_frame) b ([], Some (s, w, shown), [])
      = Inr (agents, Some (a, w', shown'), [Observations_frame b'])"
  shows "mission_loop (idle_mission ser_entry ser_frame) ([], Some (s, w, shown), [Observations_frame b])
    = Some (Inr (Observations_frame b', agents, Some (a, w', shown'), []))"
proof -
  note fold = assms(5) [unfolded idle_mission_def]
  have "mission_turn (idle_mission ser_entry ser_frame) ([], Some (s, w, shown), [Observations_frame b])
      = Inr (None, agents, Some (a, w', shown'), [Observations_frame b'])"
    unfolding idle_mission_def mission_turn_live [OF assms(1)] fold using assms(2) by simp
  moreover have "mission_turn (idle_mission ser_entry ser_frame) (agents, Some (a, w', shown'), [Observations_frame b'])
      = Inr (Some (Observations_frame b'), agents, Some (a, w', shown'), [])"
    unfolding idle_mission_def mission_turn_live [OF assms(3)] using assms(4) by simp
  ultimately show ?thesis by (simp add: mission_loop.simps)
qed

lemma idle_mission_succeeds:
  obtains es fs terminal where
    "run_mission (idle_mission (demo_encode es) (demo_encode fs)) (sim_start (\<lambda>_. []) (demo_encode es) (demo_encode fs) demo_short)
       = Some (Inr terminal)"
proof -
  let ?ser = "(\<lambda>_. []) :: serializer"
  obtain s b acts a out agents where run: "new_simulator ?ser demo_short = Inr s" "observe s = Inr b" "\<not> finished s"
    and ans: "\<forall>ser_entry ser_frame. answers (idle_mission ser_entry ser_frame) b [] = Inr (agents, acts)"
    and idle: "list_all (\<lambda>(i, p). p = (Some (), [])) agents"
    and one: "step ?ser acts s = Inr (a, out)" "finished a" by (rule idle_run)
  let ?h = "Header_entry \<lparr>lh_schema = 1, lh_name = sc_name demo_short, lh_seed = sc_seed demo_short, lh_hash = scenario_hash ?ser demo_short\<rparr>"
  let ?r = "Record_entry \<lparr>er_sequence = 1, er_tick = si_tick a, er_actions = so_actions out, er_applied = so_applied out,
    er_hash = si_hash a, er_network = so_network out\<rparr>"
  let ?es = "[?h, ?r, Footer_entry (summarize a)]"
  let ?fs = "[Observations_frame b, Actions_frame acts, Observations_frame (so_observations out)]"
  let ?ch = "idle_mission (demo_encode ?es) (demo_encode ?fs)"
  have fits: "length (demo_encode ?es e) \<le> max_frame" if "e \<in> set ?es" for e
    using that by (rule demo_encode_short) (simp add: max_frame_def)
  have frame_fits: "length (demo_encode ?fs m) \<le> max_frame" if "m \<in> set ?fs" for m
    using that by (rule demo_encode_short) (simp add: max_frame_def)
  have w: "write_frame (demo_encode ?es) True e out = Inr (out @ frame_of (demo_encode ?es) e)" if "e \<in> set ?es" for e out
    using fits [OF that] by (simp add: write_frame_eq)
  have v: "write_frame (demo_encode ?fs) True m out = Inr (out @ frame_of (demo_encode ?fs) m)" if "m \<in> set ?fs" for m out
    using frame_fits [OF that] by (simp add: write_frame_eq)
  obtain w0 shown where up: "sim_start ?ser (demo_encode ?es) (demo_encode ?fs) demo_short = (Some (s, w0, shown), [Observations_frame b])"
    and w0: "lw_sequence w0 = 0" "\<not> lw_finished w0"
    by (simp add: sim_start_def open_log_def run(1,2) w v)
  obtain w1 shown1 where go: "sim_receive ?ser (demo_encode ?es) (demo_encode ?fs) (Actions_frame acts) (Some (s, w0, shown), [])
      = (Some (a, w1, shown1), [Observations_frame (so_observations out)])" and w1: "\<not> lw_finished w1"
    by (simp add: sim_receive_def run(3) one(1) live_turn_def append_log_def w0 w v Let_def)
  have sends: "put_frame (demo_encode ?fs) (sim_receive ?ser (demo_encode ?es) (demo_encode ?fs)) (Actions_frame acts) (Some (s, w0, shown), [])
      = Inr (Some (a, w1, shown1), [Observations_frame (so_observations out)])"
    using frame_fits [of "Actions_frame acts"] by (simp add: put_frame_def go)
  have "exchange ?ch b ([], Some (s, w0, shown), []) = Inr (agents, Some (a, w1, shown1), [Observations_frame (so_observations out)])"
    using sends by (simp add: exchange_def ans) (simp add: idle_mission_def processes_def)
  then have loop: "mission_loop ?ch ([], Some (s, w0, shown), [Observations_frame b])
      = Some (Inr (Observations_frame (so_observations out), agents, Some (a, w1, shown1), []))"
    by (rule one_exchange [OF run(2,3) step_observes [OF one(1)] one(2)])
  have dismissed: "foldR (\<lambda>_ p. dismiss ?ch p) () agents = Inr ()"
    using idle by (induction agents) (auto simp: dismiss_def idle_mission_def processes_def)
  have "finish_log (demo_encode ?es) True (summarize a) w1 \<noteq> Inl e" for e
    using w1 by (simp add: finish_log_def w)
  then have "ch_finish_sim ?ch (Some (a, w1, shown1), []) = Inr (0, Some (a, w1, shown1), [])" "ch_check_stop ?ch q = Inr ()" for q
    using one(2) by (auto simp: idle_mission_def processes_def sim_exit_def split: sum.split)
  then have "run_mission ?ch (sim_start ?ser (demo_encode ?es) (demo_encode ?fs) demo_short)
      = Some (Inr (Observations_frame (so_observations out)))"
    by (simp add: up run_mission_def loop dismissed)
  then show ?thesis by (rule that)
qed

end
