(* ===== verification/Sim_Files_Laws.thy ===== *)
theory Sim_Files_Laws
  imports Sim_Files Mission_Conduct Mission_Demo
begin

text \<open>
  On disk: what a run has written can be replayed and exported from the files alone, and an export that fails leaves no
  trace of itself.
\<close>

text \<open>A command line names a command and the values of some options.\<close>

definition names :: "string list \<Rightarrow> string \<Rightarrow> (string \<times> string) list \<Rightarrow> bool" where
  "names argv cmd opts \<longleftrightarrow> 2 \<le> length argv \<and> argv ! 1 = cmd \<and> list_all (\<lambda>(k, v). sim_option argv k = Inr v) opts"

definition accessible :: "device \<Rightarrow> string \<Rightarrow> bool" where
  "accessible dv path \<longleftrightarrow> dv_prepares dv path \<and> dv_opens dv path \<and> dv_takes dv path"

lemma write_summary: "write_summary_json dv path sm files = Inr files' \<longleftrightarrow> accessible dv path \<and> files' = files(path \<mapsto> summary_json sm)"
  by (auto simp: write_summary_json_def accessible_def)

text \<open>An export that fails changes nothing but the temporary file, which is gone; one that succeeds puts the whole trace
  in its place.\<close>

lemma export_atomic:
  "export_trace_file ser parse_entry ser_frame dv sc log_path trace_path files = (res, files') \<Longrightarrow>
    (\<exists>e. res = Inl e \<and> (files' = files \<or> files' = files(trace_path @ ''.tmp'' := None)))
    \<or> (\<exists>sm film. res = Inr sm \<and> export_replay_trace ser parse_entry ser_frame sc (files log_path) = Inr (sm, film)
         \<and> files' = (files(trace_path @ ''.tmp'' := None))(trace_path \<mapsto> film))"
  by (auto simp: export_trace_file_def export_replay_trace_def Let_def split: sum.splits if_split_asm)

lemma export_success:
  assumes "export_replay_trace ser parse_entry ser_frame sc (files log_path) = Inr (sm, film)"
    and "dv_prepares dv trace_path" "dv_opens dv (trace_path @ ''.tmp'')" "dv_takes dv (trace_path @ ''.tmp'')"
      "dv_renames dv (trace_path @ ''.tmp'') trace_path"
  shows "export_trace_file ser parse_entry ser_frame dv sc log_path trace_path files
    = (Inr sm, (files(trace_path @ ''.tmp'' := None))(trace_path \<mapsto> film))"
  using assms by (auto simp: export_trace_file_def export_replay_trace_def Let_def split: sum.splits)

text \<open>A run is on disk. If the run command ends well, then from the scenario and the log that it leaves the replay command
  prints the terminal hash of the summary that the run has written, and writes the same summary again; and the export
  command writes as a trace exactly what the run has sent to its standard output.\<close>

theorem replay_on_disk:
  assumes "parses_back (co_ser_entry co) (co_parse_entry co)"
    and "sim_main co dv run input files = Inr (shown, files')"
    and "names run ''run'' [(''--scenario'', scenario), (''--log'', log), (''--summary'', summary)]"
    and "log \<noteq> scenario" "summary \<noteq> scenario" "summary \<noteq> log"
    and "names replay ''replay'' [(''--scenario'', scenario), (''--log'', log), (''--summary'', again)]" and "accessible dv again"
    and "names export ''export'' [(''--scenario'', scenario), (''--log'', log), (''--trace'', film)]"
    and "accessible dv film" "accessible dv (film @ ''.tmp'')" "dv_renames dv (film @ ''.tmp'') film"
  shows "\<exists>sm. files' summary = Some (summary_json sm)
    \<and> sim_main co dv replay input' files' = Inr (sm_hash sm @ [CHR 0x0A], files'(again \<mapsto> summary_json sm))
    \<and> sim_main co dv export input' files' = Inr (sm_hash sm @ [CHR 0x0A], (files'(film @ ''.tmp'' := None))(film \<mapsto> shown))"
proof -
  from assms(2,3) obtain sc sm bytes where sc: "load_scenario (co_parse_scenario co) (files scenario) = Inr sc"
    and go: "run_simulation (co_ser co) (co_ser_entry co) (co_ser_frame co) (co_parse_frame co) (dv_opens dv log \<and> dv_takes dv log)
      sc input = Inr (sm, shown, bytes)"
    and files': "files' = files(log \<mapsto> bytes, summary \<mapsto> summary_json sm)"
    by (auto simp: sim_main_def names_def run_command_def write_summary)
  have disk: "files' scenario = files scenario" "files' log = Some bytes" using assms(4-6) by (simp_all add: files')
  from run_simulation_replays [OF assms(1) go] obtain obs where
    replays: "replay_event_log (co_ser co) (co_parse_entry co) sc (Some bytes) = Inr (sm, obs)"
    and wrote: "write_frames (co_ser_frame co) (map Observations_frame obs) [] = Inr shown" by blast
  have "sim_main co dv replay input' files' = Inr (sm_hash sm @ [CHR 0x0A], files'(again \<mapsto> summary_json sm))"
    using assms(7,8) replays
    by (simp add: sim_main_def names_def replay_command_def disk sc write_summary)
  moreover have "export_trace_file (co_ser co) (co_parse_entry co) (co_ser_frame co) dv sc log film files'
      = (Inr sm, (files'(film @ ''.tmp'' := None))(film \<mapsto> shown))"
    by (rule export_success) (use replays wrote disk(2) assms(10-12) in \<open>simp_all add: export_replay_trace_def accessible_def\<close>)
  then have "sim_main co dv export input' files' = Inr (sm_hash sm @ [CHR 0x0A], (files'(film @ ''.tmp'' := None))(film \<mapsto> shown))"
    using assms(9) by (simp add: sim_main_def names_def export_command_def disk sc)
  ultimately show ?thesis by (auto simp: files')
qed

text \<open>A run of the file's scenario is a run of its normal form, which is what is loaded.\<close>

lemma run_simulation_normal:
  "run_simulation ser ser_entry ser_frame parse_frame sink (normalize_scenario sc) input
    = run_simulation ser ser_entry ser_frame parse_frame sink sc input"
proof -
  have same: "sc_seed (normalize_scenario sc) = sc_seed sc" "sc_step_ms (normalize_scenario sc) = sc_step_ms sc"
    "sc_name (normalize_scenario sc) = sc_name sc" by (simp_all add: normalize_scenario_def Let_def)
  have "new_simulator ser (normalize_scenario sc) = new_simulator ser sc"
    by (simp add: new_simulator_def build_sim_def normalize_idem same)
  moreover have "open_log ser ser_entry sink (normalize_scenario sc) = open_log ser ser_entry sink sc"
    by (simp add: open_log_def scenario_hash_def normalize_idem same)
  ultimately show ?thesis by (simp add: run_simulation_def)
qed

lemma short_loads: "load_scenario (\<lambda>_. Some demo_short) (Some text) = Inr (normalize_scenario demo_short)"
proof -
  have "validate_scenario (normalize_scenario demo_short) = Inr ()" by code_simp
  then show ?thesis by (simp add: load_scenario_def Let_def)
qed

theorem replay_on_disk_witness:
  "\<exists>co dv input files shown files' sm. sim_main co dv [''sim'', ''run'', ''--scenario'', ''s'', ''--log'', ''l'', ''--summary'', ''u''] input files
        = Inr (shown, files')
     \<and> sim_main co dv [''sim'', ''replay'', ''--scenario'', ''s'', ''--log'', ''l'', ''--summary'', ''v''] [] files'
        = Inr (sm_hash sm @ [CHR 0x0A], files'(''v'' \<mapsto> summary_json sm))
     \<and> sim_main co dv [''sim'', ''export'', ''--scenario'', ''s'', ''--log'', ''l'', ''--trace'', ''t''] [] files'
        = Inr (sm_hash sm @ [CHR 0x0A], (files'(''t.tmp'' := None))(''t'' \<mapsto> shown))"
proof -
  obtain es fs terminal where run: "run_mission (idle_mission (demo_encode es) (demo_encode fs))
      (sim_start (\<lambda>_. []) (demo_encode es) (demo_encode fs) demo_short) = Some (Inr terminal)" by (rule idle_mission_succeeds)
  have codec: "parses_back (demo_encode fs) (demo_decode fs)" by (rule demo_codec)
  obtain batches shown log s' where "run_simulation (\<lambda>_. []) (demo_encode es) (demo_encode fs) (demo_decode fs) True demo_short
      (requests (demo_encode fs) batches) = Inr (summarize s', shown, log)"
    by (rule run_mission_conducted [OF codec run [unfolded idle_mission_def]])
  note go = this [folded run_simulation_normal [where sc = demo_short]]
  let ?co = "\<lparr>co_ser = (\<lambda>_. []), co_parse_scenario = (\<lambda>_. Some demo_short), co_ser_entry = demo_encode es,
    co_parse_entry = demo_decode es, co_ser_frame = demo_encode fs, co_parse_frame = demo_decode fs\<rparr>"
  let ?dv = "\<lparr>dv_prepares = (\<lambda>_. True), dv_opens = (\<lambda>_. True), dv_takes = (\<lambda>_. True), dv_renames = (\<lambda>_ _. True)\<rparr>"
  let ?run = "[''sim'', ''run'', ''--scenario'', ''s'', ''--log'', ''l'', ''--summary'', ''u'']"
  have options: "names ?run ''run'' [(''--scenario'', ''s''), (''--log'', ''l''), (''--summary'', ''u'')]"
    "names [''sim'', ''replay'', ''--scenario'', ''s'', ''--log'', ''l'', ''--summary'', ''v''] ''replay''
       [(''--scenario'', ''s''), (''--log'', ''l''), (''--summary'', ''v'')]"
    "names [''sim'', ''export'', ''--scenario'', ''s'', ''--log'', ''l'', ''--trace'', ''t''] ''export''
       [(''--scenario'', ''s''), (''--log'', ''l''), (''--trace'', ''t'')]"
    by (simp_all add: names_def sim_option_def required_option_def upt_rec)
  have all: "accessible ?dv path" for path by (simp add: accessible_def)
  have one: "sim_main ?co ?dv ?run (requests (demo_encode fs) batches) [''s'' \<mapsto> []]
      = Inr (shown, [''s'' \<mapsto> [], ''l'' \<mapsto> log, ''u'' \<mapsto> summary_json (summarize s')])"
    using options(1) by (simp add: sim_main_def names_def run_command_def short_loads go write_summary all)
  let ?files = "[''s'' \<mapsto> [], ''l'' \<mapsto> log, ''u'' \<mapsto> summary_json (summarize s')]"
  have "\<exists>sm. ?files ''u'' = Some (summary_json sm)
     \<and> sim_main ?co ?dv [''sim'', ''replay'', ''--scenario'', ''s'', ''--log'', ''l'', ''--summary'', ''v''] [] ?files
        = Inr (sm_hash sm @ [CHR 0x0A], ?files(''v'' \<mapsto> summary_json sm))
     \<and> sim_main ?co ?dv [''sim'', ''export'', ''--scenario'', ''s'', ''--log'', ''l'', ''--trace'', ''t''] [] ?files
        = Inr (sm_hash sm @ [CHR 0x0A], (?files(''t'' @ ''.tmp'' := None))(''t'' \<mapsto> shown))"
    by (rule replay_on_disk [of ?co, OF _ one options(1) _ _ _ options(2) all options(3) all all]) (simp_all add: demo_codec)
  then obtain sm' where again: "sim_main ?co ?dv [''sim'', ''replay'', ''--scenario'', ''s'', ''--log'', ''l'', ''--summary'', ''v''] [] ?files
        = Inr (sm_hash sm' @ [CHR 0x0A], ?files(''v'' \<mapsto> summary_json sm'))"
     "sim_main ?co ?dv [''sim'', ''export'', ''--scenario'', ''s'', ''--log'', ''l'', ''--trace'', ''t''] [] ?files
        = Inr (sm_hash sm' @ [CHR 0x0A], (?files(''t.tmp'' := None))(''t'' \<mapsto> shown))" by (auto simp del: fun_upd_apply)
  show ?thesis by (intro exI conjI, rule one, rule again(1), rule again(2))
qed

end
