(* ===== verification/Allocation_Claims.thy ===== *)
theory Allocation_Claims
  imports Allocation
begin

text \<open>
  Which bid wins a task. \<open>standing_claim\<close> states, without the map of claims and its loops, what a
  bidder's claim is in the eyes of an agent; \<open>winner_for\<close> is shown to pick the best standing claim.
\<close>

subsection \<open>The comparisons are equality and a total preorder\<close>

lemma same_bid_eq [simp]: "same_bid l r \<longleftrightarrow> l = r"
  by (auto simp: same_bid_def intro: alloc_bid.equality)

lemma same_relay_eq [simp]: "same_relay l r \<longleftrightarrow> l = r"
  by (auto simp: same_relay_def intro: alloc_relay.equality)

lemma same_owner_eq [simp]: "same_owner l r \<longleftrightarrow> l = r"
  by (auto simp: same_owner_def intro: alloc_commit.equality)

lemma list_all2_same [simp]:
  "list_all2 same_bid xs ys \<longleftrightarrow> xs = ys"
  "list_all2 same_relay rs ss \<longleftrightarrow> rs = ss"
  "list_all2 same_owner cs ds \<longleftrightarrow> cs = ds"
  by (simp_all add: list.rel_eq [unfolded fun_eq_iff] list_all2_conv_all_nth list_eq_iff_nth_eq)

lemma same_state_eq: "same_state l r \<longleftrightarrow> l\<lparr>as_version := 0\<rparr> = r\<lparr>as_version := 0\<rparr>"
  by (cases l; cases r) (auto simp: same_state_def)

definition worth_key :: "policy \<Rightarrow> alloc_bid \<Rightarrow> i64 \<times> string" where
  "worth_key pol b = (if pol = AP_Sentinel_Cbba then - bd_score b else bd_distance b, bd_bidder b)"

lemma better_worth: "better pol = (\<lambda>l r. worth_key pol l < worth_key pol r)"
  by (intro ext) (auto simp: better_def worth_key_def)

interpretation bids: least_key "worth_key pol" for pol .

subsection \<open>Standing claims\<close>

text \<open>The bids for the task that peers relay from the bidder by a path that has not been here.\<close>

definition relays_in :: "string \<Rightarrow> string \<Rightarrow> string \<Rightarrow> alloc_state \<Rightarrow> alloc_bid list" where
  "relays_in task_id agent bidder st =
     map fst (filter (\<lambda>(b, r). bd_task b = task_id \<and> bd_bidder b = bidder \<and> bidder \<noteq> agent \<and> agent \<notin> set (rl_path r))
       (zip (as_winners st) (as_relays st)))"

definition relayed :: "string \<Rightarrow> string \<Rightarrow> string \<Rightarrow> peer_map \<Rightarrow> alloc_bid list" where
  "relayed task_id agent bidder peers = concat (map (\<lambda>(p, st). relays_in task_id agent bidder st) peers)"

text \<open>What a peer's own state bids for the task.\<close>

definition reported :: "string \<Rightarrow> alloc_state \<Rightarrow> alloc_bid option" where
  "reported task_id st =
     (let bs = filter (\<lambda>b. bd_task b = task_id) (as_bids st) in if bs = [] then None else Some (last bs))"

definition known_version :: "peer_map \<Rightarrow> string \<Rightarrow> u64" where
  "known_version peers bidder = (case map_find peers bidder of None \<Rightarrow> 0 | Some st \<Rightarrow> as_version st)"

text \<open>
  The agent's own bid; for another bidder the newest bid relayed since its last direct report, unless the
  relays disagree about it; without a newer relay, the direct report.
\<close>

definition standing_claim :: "string \<Rightarrow> string \<Rightarrow> bid_map \<Rightarrow> peer_map \<Rightarrow> string \<Rightarrow> alloc_bid option" where
  "standing_claim task_id agent own peers bidder =
     (if bidder = agent then map_find own task_id
      else
        let fresh = filter (\<lambda>b. bd_version b > known_version peers bidder) (relayed task_id agent bidder peers);
            newest = filter (\<lambda>b. \<forall>c \<in> set fresh. bd_version c \<le> bd_version b) fresh
        in if fresh = [] then Option.bind (map_find peers bidder) (reported task_id)
           else if \<forall>b \<in> set newest. b = hd newest then Some (hd newest) else None)"

subsection \<open>The map of claims\<close>

definition claims_at :: "claim_map \<Rightarrow> string \<Rightarrow> claims" where
  "claims_at m bidder = (case map_find m bidder of None \<Rightarrow> no_claims | Some c \<Rightarrow> c)"

lemma claims_at_Nil [simp]: "claims_at [] b = no_claims"
  by (simp add: claims_at_def)

lemma claims_at_adjust [simp]:
  "claims_at (map_adjust k no_claims f m) b = (if b = k then f (claims_at m k) else claims_at m b)"
  by (simp add: claims_at_def split: option.split)

lemma add_relays_ok: "map_ok m \<Longrightarrow> map_ok (fold (add_relay task_id agent) brs m)"
  by (induction brs arbitrary: m) (auto simp: add_relay_def map_adjust_ok split: prod.split)

lemma add_relays_at:
  "claims_at (fold (add_relay task_id agent) brs m) b =
     (claims_at m b)\<lparr>cs_relays := cs_relays (claims_at m b) @
        map fst (filter (\<lambda>(x, r). bd_task x = task_id \<and> bd_bidder x = b \<and> b \<noteq> agent \<and> agent \<notin> set (rl_path r)) brs)\<rparr>"
  by (induction brs arbitrary: m) (auto simp: add_relay_def split: prod.split)

lemma report_fold:
  "fold (\<lambda>bid c. if bd_task bid = task_id then c\<lparr>cs_origin := Some bid\<rparr> else c) bs c =
     (let fs = filter (\<lambda>b. bd_task b = task_id) bs
      in if fs = [] then c else c\<lparr>cs_origin := Some (last fs)\<rparr>)"
  by (induction bs arbitrary: c) (auto simp: Let_def)

lemma add_peer_at:
  "claims_at (add_peer task_id agent m (p, st)) b =
     (let c = claims_at m b;
          d = (if b = p
               then (case reported task_id st of None \<Rightarrow> c | Some x \<Rightarrow> c\<lparr>cs_origin := Some x\<rparr>)
                      \<lparr>cs_watermark := as_version st, cs_direct := True\<rparr>
               else c)
      in d\<lparr>cs_relays := cs_relays c @ relays_in task_id agent b st\<rparr>)"
  by (auto simp: add_peer_def Let_def add_relays_at report_fold reported_def relays_in_def)

lemma add_peer_ok: "map_ok m \<Longrightarrow> map_ok (add_peer task_id agent m q)"
  by (cases q) (simp add: add_peer_def Let_def add_relays_ok map_adjust_ok)

lemma gather_claims_ok: "map_ok (gather_claims task_id agent own peers)"
proof -
  have "map_ok m \<Longrightarrow> map_ok (foldl (add_peer task_id agent) m peers)" for m
    by (induction peers arbitrary: m) (simp_all add: add_peer_ok)
  then show ?thesis
    unfolding gather_claims_def Let_def by (simp add: map_adjust_ok split: option.split)
qed

lemma add_peers_at:
  assumes "map_ok peers" and "\<And>p. p \<in> fst ` set peers \<Longrightarrow> cs_origin (claims_at m p) = None"
  shows "claims_at (foldl (add_peer task_id agent) m peers) b =
     (let c = claims_at m b
      in (case map_find peers b of
            None \<Rightarrow> c
          | Some st \<Rightarrow> c\<lparr>cs_origin := reported task_id st, cs_watermark := as_version st, cs_direct := True\<rparr>)
         \<lparr>cs_relays := cs_relays c @ relayed task_id agent b peers\<rparr>)"
  using assms
proof (induction peers arbitrary: m)
  case Nil
  then show ?case by (simp add: relayed_def)
next
  case (Cons q peers)
  obtain p st where q: "q = (p, st)" by (cases q)
  from Cons.prems(1) have ok: "map_ok peers" and above: "\<forall>r \<in> set peers. p < fst r"
    by (auto simp: q)
  have fresh: "map_find peers p = None" by (rule map_find_below [OF above])
  have "cs_origin (claims_at (add_peer task_id agent m (p, st)) r) = None" if "r \<in> fst ` set peers" for r
  proof -
    from that above have "r \<noteq> p" by auto
    then show ?thesis using Cons.prems(2) [of r] that by (simp add: add_peer_at Let_def)
  qed
  note ih = Cons.IH [OF ok this]
  have "map_find peers b = None" if "\<not> p < b"
    using that above by (intro map_find_below) auto
  with ih fresh Cons.prems(2) [of p]
  show ?case
    by (auto simp: q add_peer_at Let_def relayed_def split: option.splits)
qed

lemma gather_claims_at:
  assumes "map_ok peers" and "agent \<notin> fst ` set peers"
  shows "claims_at (gather_claims task_id agent own peers) b =
     \<lparr>cs_origin = (if b = agent then map_find own task_id else Option.bind (map_find peers b) (reported task_id)),
      cs_watermark = known_version peers b, cs_direct = (map_find peers b \<noteq> None),
      cs_relays = relayed task_id agent b peers\<rparr>"
proof -
  have none: "map_find peers agent = None" using assms by (simp add: map_find_None)
  let ?m = "case map_find own task_id of None \<Rightarrow> []
    | Some bid \<Rightarrow> map_adjust agent no_claims (\<lambda>c. c\<lparr>cs_origin := Some bid\<rparr>) []"
  have m: "claims_at ?m p = no_claims\<lparr>cs_origin := if p = agent then map_find own task_id else None\<rparr>" for p
    by (auto simp: no_claims_def [THEN arg_cong, of cs_origin] split: option.split)
  have "cs_origin (claims_at ?m p) = None" if "p \<in> fst ` set peers" for p
    using that assms(2) by (auto simp: m no_claims_def)
  from add_peers_at [OF assms(1) this] show ?thesis
    unfolding gather_claims_def Let_def m
    using none by (auto simp: no_claims_def known_version_def split: option.splits)
qed

lemma relayed_self [simp]: "relayed task_id agent agent peers = []"
  by (auto simp: relayed_def relays_in_def filter_empty_conv)

subsection \<open>The claim of one bidder\<close>

lemma Max_insert_max:
  "finite A \<Longrightarrow> Max (insert (max n v) A) = Max (insert n (insert v A))"
  by (cases "A = {}") (simp_all add: max.assoc)

lemma newest_relay_fresh:
  assumes "cs_watermark c = (if cs_direct c then cs_watermark c else 0)"
  shows "newest_relay c = Max (insert 0 (bd_version ` {b \<in> set (cs_relays c). bd_version b > cs_watermark c}))"
proof -
  have step: "foldl (\<lambda>n r. if \<not> cs_direct c \<or> bd_version r > cs_watermark c then max n (bd_version r) else n) n rs
      = Max (insert n (bd_version ` {b \<in> set rs. bd_version b > cs_watermark c}))" for n rs
  proof (induction rs arbitrary: n)
    case Nil
    then show ?case by simp
  next
    case (Cons r rs)
    have set: "{b \<in> set (r # rs). bd_version b > cs_watermark c}
        = (if bd_version r > cs_watermark c then insert r else id) {b \<in> set rs. bd_version b > cs_watermark c}"
      by auto
    show ?case
    proof (cases "bd_version r > cs_watermark c")
      case True
      then show ?thesis
        unfolding set foldl_Cons by (simp only: Cons.IH simp_thms if_True image_insert) (rule Max_insert_max, simp)
    next
      case False
      then have "\<not> cs_direct c \<Longrightarrow> bd_version r = 0" using assms by (simp add: not_less)
      with False have "foldl (\<lambda>n r. if \<not> cs_direct c \<or> bd_version r > cs_watermark c then max n (bd_version r) else n) n (r # rs)
          = foldl (\<lambda>n r. if \<not> cs_direct c \<or> bd_version r > cs_watermark c then max n (bd_version r) else n) n rs"
        by (cases "cs_direct c") auto
      with False show ?thesis unfolding set by (simp only: Cons.IH if_False id_apply)
    qed
  qed
  show ?thesis unfolding newest_relay_def by (rule step)
qed

lemma agreed_relay_Some:
  "agreed_relay n (Some c) rs = (if \<forall>r \<in> set (filter (\<lambda>r. bd_version r = n) rs). r = c then Some c else None)"
  by (induction rs) auto

lemma agreed_relay_spec:
  "agreed_relay n None rs =
     (let ns = filter (\<lambda>r. bd_version r = n) rs
      in if ns = [] then None else if \<forall>r \<in> set ns. r = hd ns then Some (hd ns) else None)"
  by (induction rs) (simp_all add: agreed_relay_Some Let_def)

lemma newest_of:
  fixes f :: "'a \<Rightarrow> 'b :: linorder"
  assumes "\<exists>b \<in> set bs. w < f b"
  shows "filter (\<lambda>b. f b = Max (f ` {b \<in> set bs. w < f b})) bs
    = filter (\<lambda>b. \<forall>c \<in> set (filter (\<lambda>b. w < f b) bs). f c \<le> f b) (filter (\<lambda>b. w < f b) bs)"
proof -
  let ?S = "f ` {b \<in> set bs. w < f b}"
  have fin: "finite ?S" and ne: "?S \<noteq> {}" using assms by auto
  have top: "Max ?S \<in> ?S" using fin ne by (rule Max_in)
  have "f b = Max ?S \<longleftrightarrow> w < f b \<and> (\<forall>c \<in> set bs. w < f c \<longrightarrow> f c \<le> f b)" if "b \<in> set bs" for b
  proof
    assume b: "f b = Max ?S"
    with top have "w < f b" by auto
    moreover have "f c \<le> f b" if "c \<in> set bs" "w < f c" for c
      unfolding b using fin that by (intro Max_ge) auto
    ultimately show "w < f b \<and> (\<forall>c \<in> set bs. w < f c \<longrightarrow> f c \<le> f b)" by blast
  next
    assume "w < f b \<and> (\<forall>c \<in> set bs. w < f c \<longrightarrow> f c \<le> f b)"
    with that show "f b = Max ?S" by (intro Max_eqI [symmetric] fin) auto
  qed
  then show ?thesis unfolding filter_filter by (intro filter_cong refl) auto
qed

lemma claim_of_standing:
  assumes "map_ok peers" and "agent \<notin> fst ` set peers"
  shows "claim_of agent b (claims_at (gather_claims task_id agent own peers) b) = standing_claim task_id agent own peers b"
proof (cases "b = agent")
  case True
  then show ?thesis unfolding gather_claims_at [OF assms] claim_of_def standing_claim_def by simp
next
  case False
  let ?c = "claims_at (gather_claims task_id agent own peers) b"
  let ?rs = "relayed task_id agent b peers"
  let ?w = "known_version peers b"
  note at = gather_claims_at [OF assms, of task_id own b]
  have n: "newest_relay ?c = Max (insert 0 (bd_version ` {r \<in> set ?rs. bd_version r > ?w}))"
    by (subst newest_relay_fresh) (simp_all add: at known_version_def)
  show ?thesis
  proof (cases "\<exists>r \<in> set ?rs. bd_version r > ?w")
    case True
    let ?S = "bd_version ` {r \<in> set ?rs. bd_version r > ?w}"
    have "finite ?S" "?S \<noteq> {}" using True by auto
    then have m: "Max (insert 0 ?S) = Max ?S" by simp
    have "Max ?S \<in> ?S" using \<open>finite ?S\<close> \<open>?S \<noteq> {}\<close> by (rule Max_in)
    then have pos: "Max ?S \<noteq> 0" by auto
    have ne: "filter (\<lambda>b. bd_version b > ?w) ?rs \<noteq> []" using True by (simp add: filter_empty_conv)
    have "filter (\<lambda>r. bd_version r = Max ?S) ?rs \<noteq> []" using \<open>Max ?S \<in> ?S\<close> by (auto simp: filter_empty_conv)
    then show ?thesis
      using False True ne
      unfolding claim_of_def standing_claim_def n m Let_def agreed_relay_spec
      by (simp add: at pos newest_of [OF True]) blast
  next
    case none: False
    then have e: "{r \<in> set ?rs. bd_version r > ?w} = {}" "filter (\<lambda>b. bd_version b > ?w) ?rs = []"
      by (auto simp: filter_empty_conv)
    show ?thesis using False unfolding claim_of_def standing_claim_def n e Let_def by (simp add: at)
  qed
qed

subsection \<open>The winner\<close>

lemma claim_of_no_claims [simp]: "claim_of agent b no_claims = None"
  by (simp add: claim_of_def no_claims_def newest_relay_def)

lemma best_claims:
  "bids.best_of pol w S \<Longrightarrow>
   bids.best_of pol (foldl (best_claim agent pol) w m) (S \<union> {c. \<exists>(b, k) \<in> set m. claim_of agent b k = Some c})"
proof (induction m arbitrary: w S)
  case Nil
  then show ?case by simp
next
  case (Cons q m)
  obtain b k where q: "q = (b, k)" by (cases q)
  let ?S = "case claim_of agent b k of None \<Rightarrow> S | Some c \<Rightarrow> insert c S"
  have "bids.best_of pol (best_claim agent pol w q) ?S"
    using Cons.prems bids.best_of_keep [OF Cons.prems]
    by (simp add: best_claim_def q better_worth split: option.split)
  note ih = Cons.IH [OF this]
  have "?S \<union> {c. \<exists>(b, k) \<in> set m. claim_of agent b k = Some c}
      = S \<union> {c. \<exists>(b, k) \<in> set (q # m). claim_of agent b k = Some c}"
    by (auto simp: q split: option.split)
  with ih show ?case by simp
qed

lemma winner_for_best_of:
  assumes "map_ok peers" and "agent \<notin> fst ` set peers"
  shows "bids.best_of pol (winner_for task_id agent own peers pol)
    {c. \<exists>b. standing_claim task_id agent own peers b = Some c}"
proof -
  let ?m = "gather_claims task_id agent own peers"
  have "{c. \<exists>(b, k) \<in> set ?m. claim_of agent b k = Some c} = {c. \<exists>b. standing_claim task_id agent own peers b = Some c}"
  proof (intro equalityI subsetI; clarify)
    fix c b k
    assume "(b, k) \<in> set ?m" and c: "claim_of agent b k = Some c"
    then have "claims_at ?m b = k"
      using map_find_iff [OF gather_claims_ok, of task_id agent own peers b k] by (simp add: claims_at_def)
    with c claim_of_standing [OF assms] show "\<exists>b. standing_claim task_id agent own peers b = Some c" by metis
  next
    fix c b
    assume "standing_claim task_id agent own peers b = Some c"
    then have c: "claim_of agent b (claims_at ?m b) = Some c" by (simp add: claim_of_standing [OF assms])
    then obtain k where "map_find ?m b = Some k" by (cases "map_find ?m b") (simp_all add: claims_at_def)
    with c have "(b, k) \<in> set ?m" "claim_of agent b k = Some c"
      by (simp_all add: claims_at_def map_find_mem)
    then show "\<exists>(b, k) \<in> set ?m. claim_of agent b k = Some c" by blast
  qed
  with best_claims [OF bids.best_of_empty, of pol agent ?m] show ?thesis
    by (simp add: winner_for_def)
qed

subsection \<open>Property\<close>

text \<open>C20: among the standing claims on a task (the agent's own bid; for another bidder the newest bid that peers relay
  since its last direct report, if they agree, else that report) \<open>winner_for\<close> returns one that no other beats under
  the policy, and none exactly when nobody claims the task.\<close>

theorem winner_for_best:
  assumes "map_ok peers" and "agent \<notin> fst ` set peers"
  shows "case winner_for task_id agent own peers pol of
      None \<Rightarrow> \<forall>bidder. standing_claim task_id agent own peers bidder = None
    | Some w \<Rightarrow> (\<exists>bidder. standing_claim task_id agent own peers bidder = Some w)
        \<and> (\<forall>bidder c. standing_claim task_id agent own peers bidder = Some c \<longrightarrow> \<not> better pol c w)"
  using winner_for_best_of [OF assms, of pol task_id own]
  by (auto simp: bids.best_of_def better_worth split: option.splits) (metis not_None_eq)

definition sample_bid :: "string \<Rightarrow> u64 \<Rightarrow> i64 \<Rightarrow> alloc_bid" where
  "sample_bid bidder version score =
     \<lparr>bd_epoch = 1, bd_version = version, bd_task = ''t'', bd_bidder = bidder, bd_score = score, bd_distance = 0,
      bd_energy = 0, bd_completion = 5, bd_position = 0\<rparr>"

text \<open>The state of \<open>c\<close> says 10 at its version 2, which \<open>b\<close> has seen replaced by 30 at version 3.\<close>

definition sample_peers :: peer_map where
  "sample_peers =
     [(''b'', empty_alloc_state\<lparr>as_version := 4, as_sender := ''b'', as_winners := [sample_bid ''c'' 3 30],
         as_relays := [\<lparr>rl_bid = sample_bid ''c'' 3 30, rl_path = [''c'', ''b'']\<rparr>]\<rparr>),
      (''c'', empty_alloc_state\<lparr>as_version := 2, as_sender := ''c'', as_bids := [sample_bid ''c'' 2 10]\<rparr>)]"

lemma sample_evaluates:
  "winner_for ''t'' ''a'' [(''t'', sample_bid ''a'' 1 20)] sample_peers AP_Sentinel_Cbba = Some (sample_bid ''c'' 3 30)"
  "standing_claim ''t'' ''a'' [(''t'', sample_bid ''a'' 1 20)] sample_peers ''a'' = Some (sample_bid ''a'' 1 20)"
  "map_ok sample_peers" "''a'' \<notin> fst ` set sample_peers"
  by code_simp+

theorem winner_for_best_witness:
  "winner_for ''t'' ''a'' [(''t'', sample_bid ''a'' 1 20)] sample_peers AP_Sentinel_Cbba = Some (sample_bid ''c'' 3 30)
   \<and> \<not> better AP_Sentinel_Cbba (sample_bid ''a'' 1 20) (sample_bid ''c'' 3 30)"
  using winner_for_best [OF sample_evaluates(3,4), of "''t''" "[(''t'', sample_bid ''a'' 1 20)]" AP_Sentinel_Cbba]
    sample_evaluates(2)
  unfolding sample_evaluates(1) option.case by blast

end
