(* ===== verification/Allocation_Bundle.thy ===== *)
theory Allocation_Bundle
  imports Allocation_Claims Planner_Laws "HOL-Library.Multiset"
begin

text \<open>
  The bundle a CBBA agent builds: its bids and their positions, the tasks it keeps from the last
  round, and when it stops adding tasks.
\<close>

subsection \<open>Loops that collect\<close>

lemma mapR_total:
  "(\<And>x. x \<in> set xs \<Longrightarrow> \<exists>y. f x = Inr y) \<Longrightarrow> \<exists>ys. mapR f xs = Inr ys"
proof (induction xs)
  case (Cons x xs)
  then obtain y ys where "f x = Inr y" "mapR f xs = Inr ys" by (metis list.set_intros(1,2))
  then show ?case by simp
qed simp

lemma mapR_Inr: "mapR f xs = Inr ys \<longleftrightarrow> list_all2 (\<lambda>x y. f x = Inr y) xs ys"
  by (induction xs arbitrary: ys) (auto simp: list_all2_Cons1)

subsection \<open>Positions\<close>

text \<open>The bids of one agent, by task.\<close>

definition bids_of :: "string \<Rightarrow> bid_map \<Rightarrow> bool" where
  "bids_of agent bids \<longleftrightarrow> map_ok bids \<and> (\<forall>(i, b) \<in> set bids. bd_task b = i \<and> bd_bidder b = agent)"

text \<open>Up to their positions.\<close>

definition same_but_position :: "bid_map \<Rightarrow> bid_map \<Rightarrow> bool" where
  "same_but_position m n \<longleftrightarrow>
     (\<forall>i. map_option (\<lambda>b. b\<lparr>bd_position := 0\<rparr>) (map_find m i) = map_option (\<lambda>b. b\<lparr>bd_position := 0\<rparr>) (map_find n i))"

definition positions_ok :: "bid_map \<Rightarrow> string list \<Rightarrow> bool" where
  "positions_ok bids path \<longleftrightarrow>
     (\<forall>k < length path. \<exists>b. map_find bids (path ! k) = Some b \<and> bd_position b = of_nat k)"

lemma map_put_same_key:
  "map_find m k = Some w \<Longrightarrow> map_ok m \<Longrightarrow> fst ` set (map_put k v m) = fst ` set m"
  by (auto simp: map_find_iff) force

lemma bids_of_find: "bids_of agent bids \<Longrightarrow> map_find bids i = Some b \<Longrightarrow> bd_task b = i \<and> bd_bidder b = agent"
  by (auto simp: bids_of_def dest!: map_find_mem)

lemma bids_of_put:
  "bids_of agent bids \<Longrightarrow> bd_task b = i \<Longrightarrow> bd_bidder b = agent \<Longrightarrow> bids_of agent (map_put i b bids)"
  by (auto simp: bids_of_def map_put_ok dest!: set_map_put)

lemma bids_of_emplace:
  "bids_of agent bids \<Longrightarrow> bd_task b = i \<Longrightarrow> bd_bidder b = agent \<Longrightarrow> bids_of agent (map_emplace i b bids)"
  by (auto simp: bids_of_def map_emplace_ok dest!: set_map_emplace)

lemma bids_of_erase: "bids_of agent bids \<Longrightarrow> bids_of agent (map_erase i bids)"
  by (auto simp: bids_of_def map_erase_ok dest!: set_map_erase)

lemma bids_keys: "bids_of agent bids \<Longrightarrow> i \<in> fst ` set bids \<longleftrightarrow> map_find bids i \<noteq> None"
  using map_find_None [of bids i] by (auto simp: bids_of_def)

lemma set_positions_spec:
  assumes "distinct path" and "set path \<subseteq> fst ` set bids" and "bids_of agent bids"
  shows "\<exists>bids'. set_positions bids path = Inr bids' \<and> bids_of agent bids' \<and> fst ` set bids' = fst ` set bids
    \<and> same_but_position bids' bids \<and> positions_ok bids' path"
proof -
  let ?f = "\<lambda>m i. bindR (map_at m (path ! i)) (\<lambda>b. Inr (map_put (path ! i) (b\<lparr>bd_position := of_nat i\<rparr>) m))"
  have "\<exists>m. foldR ?f bids [0..<n] = Inr m \<and> bids_of agent m \<and> fst ` set m = fst ` set bids
      \<and> same_but_position m bids
      \<and> (\<forall>k < n. \<exists>b. map_find m (path ! k) = Some b \<and> bd_position b = of_nat k)"
    if "n \<le> length path" for n
    using that
  proof (induction n)
    case 0
    then show ?case using assms(3) by (simp add: same_but_position_def)
  next
    case (Suc n)
    then obtain m where m: "foldR ?f bids [0..<n] = Inr m" "bids_of agent m" "fst ` set m = fst ` set bids"
      "same_but_position m bids"
      "\<And>k. k < n \<Longrightarrow> \<exists>b. map_find m (path ! k) = Some b \<and> bd_position b = of_nat k" by auto
    have "path ! n \<in> fst ` set m" using Suc.prems assms(2) m(3) by auto
    then obtain b where b: "map_find m (path ! n) = Some b" using bids_keys [OF m(2)] by auto
    let ?m = "map_put (path ! n) (b\<lparr>bd_position := of_nat n\<rparr>) m"
    have eq: "foldR ?f bids [0..<Suc n] = Inr ?m" using m(1) b by (simp add: foldR_append map_at_def)
    have other: "path ! k \<noteq> path ! n" if "k < n" for k
      using that Suc.prems assms(1) by (simp add: nth_eq_iff_index_eq)
    show ?case
    proof (intro exI [of _ ?m] conjI eq allI impI)
      show "bids_of agent ?m" using bids_of_find [OF m(2) b] by (intro bids_of_put [OF m(2)]) simp_all
      show "fst ` set ?m = fst ` set bids" using map_put_same_key [OF b] m(2,3) by (simp add: bids_of_def)
      show "same_but_position ?m bids" 
        using m(4) m(4) [unfolded same_but_position_def, THEN spec, of "path ! n"] b
        by (simp add: same_but_position_def)
      show "\<exists>c. map_find ?m (path ! k) = Some c \<and> bd_position c = of_nat k" if "k < Suc n" for k
        using that m(5) [of k] other [of k] by (cases "k = n") simp_all
    qed
  qed
  from this [of "length path"] show ?thesis by (auto simp: set_positions_def positions_ok_def)
qed

lemma ordered_path_spec:
  assumes "set build \<subseteq> fst ` set bids" and "bids_of agent bids"
  shows "\<exists>path. ordered_path build bids = Inr path \<and> mset path = mset build"
proof (cases "length build < 2")
  case True
  then show ?thesis by (simp add: ordered_path_def)
next
  case False
  let ?f = "\<lambda>i. bindR (map_at bids i) (\<lambda>b. Inr (bd_position b, i))"
  have "\<exists>y. ?f i = Inr y" if "i \<in> set build" for i
    using that assms bids_keys [OF assms(2), of i] by (auto simp: map_at_def)
  from mapR_total [of build ?f, OF this] obtain keys where keys: "mapR ?f build = Inr keys" by blast
  then have "map snd keys = build"
    unfolding mapR_Inr by (induction rule: list_all2_induct) auto
  then have "mset (map snd (sort keys)) = mset build" by (metis mset_map mset_sort)
  with False keys show ?thesis by (simp add: ordered_path_def)
qed

text \<open>Tasks whose positions a path gave them come out in the order of that path.\<close>

lemma positions_sorted:
  assumes "positions_ok bids path" and "length path < 2 ^ 32"
  shows "sorted (map (\<lambda>i. (bd_position (the (map_find bids i)), i)) path)"
proof -
  have pos: "bd_position (the (map_find bids (path ! k))) = of_nat k" if "k < length path" for k
    using assms(1) that by (auto simp: positions_ok_def)
  have "(of_nat j :: u32) < of_nat k" if "j < k" "k < length path" for j k
    using that assms(2) by (simp add: of_nat_word_less_iff take_bit_nat_eq_self)
  then show ?thesis by (auto simp: sorted_iff_nth_mono_less pos)
qed

lemma mset_short:
  assumes "mset xs = mset ys" and "length xs < 2"
  shows "xs = ys"
proof (cases xs)
  case (Cons x zs)
  with assms(2) have "xs = [x]" by simp
  with assms(1) show ?thesis by (metis mset_single_iff_right mset.simps)
qed (use assms in simp)

lemma ordered_path_order:
  assumes "positions_ok own path" and "length path < 2 ^ 32" and "distinct path" and "set build \<subseteq> set path" and "distinct build"
    and "\<And>i. i \<in> set build \<Longrightarrow> map_find bids i = map_find own i"
  shows "ordered_path build bids = Inr (filter (\<lambda>i. i \<in> set build) path)"
proof -
  let ?order = "filter (\<lambda>i. i \<in> set build) path"
  have ms: "mset build = mset ?order"
    using assms(3-5) by (intro set_eq_iff_mset_eq_distinct [THEN iffD1]) auto
  show ?thesis
  proof (cases "length build < 2")
    case True
    then have "build = ?order" by (rule mset_short [OF ms])
    then show ?thesis using True by (simp add: ordered_path_def)
  next
    case False
    let ?f = "\<lambda>i. (bd_position (the (map_find own i)), i)"
    have found: "\<exists>b. map_find own i = Some b" if i: "i \<in> set build" for i
    proof -
      from i assms(4) have "i \<in> set path" by blast
      then obtain k where "k < length path" "path ! k = i" by (auto simp: in_set_conv_nth)
      with assms(1) show ?thesis by (auto simp: positions_ok_def)
    qed
    have "mapR (\<lambda>i. bindR (map_at bids i) (\<lambda>b. Inr (bd_position b, i))) build = Inr (map ?f build)"
      unfolding mapR_Inr list.rel_map
      by (rule list.rel_refl_strong) (use found assms(6) in \<open>fastforce simp: map_at_def\<close>)
    moreover have "sorted (map ?f ?order)"
      using sorted_filter [of ?f path "\<lambda>i. i \<in> set build"] positions_sorted [OF assms(1,2)] by simp
    then have "sort (map ?f build) = map ?f ?order"
      using ms by (intro properties_for_sort) simp_all
    ultimately show ?thesis using False by (simp add: ordered_path_def comp_def)
  qed
qed

subsection \<open>Insertions\<close>

lemma try_insertions_agree:
  assumes "foldR (try_insertion w v tick step tasks t current) (best, c) is = Inr (best', c')"
    and "routes.sound w v step c" and "routes.sound w v step d"
  shows "routes.sound w v step c' \<and>
    (\<exists>d'. foldR (try_insertion w v tick step tasks t current) (best, d) is = Inr (best', d'))"
  using assms
proof (induction "is" arbitrary: best c d)
  case Nil
  then show ?case by simp
next
  case (Cons k ks)
  from Cons.prems(1) obtain b1 c1 where one: "try_insertion w v tick step tasks t current (best, c) k = Inr (b1, c1)"
    and rest: "foldR (try_insertion w v tick step tasks t current) (b1, c1) ks = Inr (best', c')" by auto
  from one obtain e where e: "evaluate w v tick step (insert_task k t tasks) c = Inr (e, c1)"
    by (auto simp: try_insertion_def split: option.splits)
  from evaluate_agrees [OF Cons.prems(2), of tick "insert_task k t tasks"] e
  have plain: "evaluate_plain w v tick step (insert_task k t tasks) = Inr e" and c1: "routes.sound w v step c1"
    by simp_all
  from evaluate_agrees [OF Cons.prems(3), of tick "insert_task k t tasks"] plain
  obtain d1 where d: "evaluate w v tick step (insert_task k t tasks) d = Inr (e, d1)" and d1: "routes.sound w v step d1"
    by (auto split: sum.splits)
  from one e d have "try_insertion w v tick step tasks t current (best, d) k = Inr (b1, d1)"
    by (auto simp: try_insertion_def split: option.splits)
  with Cons.IH [OF rest c1 d1] show ?case by auto
qed

text \<open>An evaluator in use answers as a fresh one, and stays fit for use.\<close>

lemma best_insertion_agrees:
  assumes "best_insertion w v tick step tasks t minimum c = Inr (r, c')" and "routes.sound w v step c"
  shows "routes.sound w v step c' \<and> best_insertion_once w v tasks t tick step minimum = Inr r"
proof (cases "minimum > length tasks \<or> (\<exists>u \<in> set tasks. ts_id u = ts_id t)")
  case True
  with assms show ?thesis by (auto simp: best_insertion_once_def best_insertion_def)
next
  case False
  from assms(1) obtain e c1 where e: "evaluate w v tick step tasks c = Inr (e, c1)"
    by (auto simp: best_insertion_def False)
  from evaluate_agrees [OF assms(2), of tick tasks] e have plain: "evaluate_plain w v tick step tasks = Inr e"
    and c1: "routes.sound w v step c1" by simp_all
  from evaluate_agrees [OF routes.sound_empty, where w = w and v = v and step = step and tick = tick and tasks = tasks] plain
  obtain d1 where d: "evaluate w v tick step tasks Map.empty = Inr (e, d1)" and d1: "routes.sound w v step d1"
    by (auto split: sum.splits)
  show ?thesis
  proof (cases e)
    case None
    with assms(1) e d c1 show ?thesis by (simp add: best_insertion_once_def best_insertion_def False)
  next
    case (Some current)
    with assms(1) e have "foldR (try_insertion w v tick step tasks t current) (None, c1)
        [minimum..<Suc (length tasks)] = Inr (r, c')"
      by (simp only: best_insertion_def False if_False bindR_simps prod.case option.case)
    from try_insertions_agree [OF this c1 d1] Some d show ?thesis
      by (auto simp only: best_insertion_once_def best_insertion_def False if_False bindR_simps prod.case option.case)
  qed
qed

lemma best_insertion_found:
  assumes "best_insertion_once w v tasks t tick step minimum = Inr (Some b)"
  shows "minimum \<le> bi_index b \<and> bi_index b \<le> length tasks
    \<and> (\<exists>e. evaluate_bundle w v (insert_task (bi_index b) t tasks) tick step = Inr (Some e))"
proof -
  from assms have ids: "minimum \<le> length tasks" "ts_id t \<notin> ts_id ` set tasks"
    by (auto simp: best_insertion_once_def best_insertion_def split: if_splits)
  from assms obtain current cache where e: "evaluate w v tick step tasks Map.empty = Inr (Some current, cache)"
    by (auto simp: best_insertion_once_def best_insertion_def split: if_splits option.splits)
  with evaluate_agrees [OF routes.sound_empty, where w = w and v = v and step = step and tick = tick and tasks = tasks]
  have sound: "routes.sound w v step cache" by simp
  have "\<not> (minimum > length tasks \<or> (\<exists>u \<in> set tasks. ts_id u = ts_id t))" using ids by (auto simp: image_iff)
  with assms e obtain cache' where "foldR (try_insertion w v tick step tasks t current) (None, cache)
      [minimum..<Suc (length tasks)] = Inr (Some b, cache')"
    unfolding best_insertion_once_def best_insertion_def by auto
  from try_insertions_best [OF this sound insertions.best_of_empty]
  obtain k where "k \<in> set [minimum..<Suc (length tasks)]" and "insertion_at w v tick step tasks t current k = Some b"
    by (auto simp: insertions.best_of_def)
  moreover from this(2) have "bi_index b = k"
    by (auto simp: insertion_at_def insertion_of_def Let_def split: sum.splits option.splits)
  ultimately show ?thesis
    by (auto simp: insertion_at_def evaluate_bundle_plain split: sum.splits option.splits)
qed

subsection \<open>One round\<close>

text \<open>The tasks of a path, and the insertion of a task into the committed tasks followed by the path.\<close>

definition auction :: "task_table \<Rightarrow> string list \<Rightarrow> task_state list" where
  "auction tasks path = map (\<lambda>i. the (map_find tasks i)) path"

definition insertion_for :: "allocator \<Rightarrow> task_state list \<Rightarrow> task_state list \<Rightarrow> task_state \<Rightarrow> bundle_insertion option result" where
  "insertion_for al committed ts t =
     best_insertion_once (al_world al) (al_self al) (committed @ ts) t (al_basis_tick al) (al_step_ms al) (length committed)"

text \<open>No remote claim on the task is as good as the bid of the insertion.\<close>

definition beats_remote :: "allocator \<Rightarrow> nat \<Rightarrow> string \<Rightarrow> bundle_insertion \<Rightarrow> bool" where
  "beats_remote al base i ins \<longleftrightarrow>
     (case winner_for i (al_agent al) [] (al_peers al) (al_policy al) of
        None \<Rightarrow> True
      | Some remote \<Rightarrow> better (al_policy al) (insertion_bid al base \<lparr>bc_task = i, bc_insertion = ins\<rparr>) remote)"

definition no_gain :: "allocator \<Rightarrow> task_state list \<Rightarrow> task_state list \<Rightarrow> string \<Rightarrow> task_state \<Rightarrow> bool" where
  "no_gain al committed ts i t \<longleftrightarrow>
     (case insertion_for al committed ts t of
        Inl e \<Rightarrow> False
      | Inr None \<Rightarrow> True
      | Inr (Some ins) \<Rightarrow> \<not> beats_remote al (length committed) i ins)"

abbreviation routes_ok :: "allocator \<Rightarrow> route_cache \<Rightarrow> bool" where
  "routes_ok al \<equiv> routes.sound (al_world al) (al_self al) (al_step_ms al)"

lemma ordered_tasks_eq:
  "map_ok tasks \<Longrightarrow> set path \<subseteq> fst ` set tasks \<Longrightarrow> ordered_tasks path tasks = Inr (auction tasks path)"
proof (induction path)
  case (Cons i path)
  then have "map_find tasks i \<noteq> None" by (simp add: map_find_None)
  with Cons show ?case by (auto simp: ordered_tasks_def auction_def map_at_def)
qed (simp add: ordered_tasks_def auction_def)

lemma try_task_cases:
  assumes "try_task al bids (committed @ ts) (length committed) (choice, c) (i, t) = Inr (choice1, c1)"
    and "routes_ok al c"
  shows "routes_ok al c1
    \<and> ((map_find bids i \<noteq> None \<or> no_gain al committed ts i t) \<and> choice1 = choice
       \<or> (\<exists>ins. map_find bids i = None \<and> insertion_for al committed ts t = Inr (Some ins)
            \<and> beats_remote al (length committed) i ins
            \<and> choice1 = keep_best better_choice choice \<lparr>bc_task = i, bc_insertion = ins\<rparr>))"
proof (cases "map_find bids i")
  case (Some b)
  with assms show ?thesis by (simp add: try_task_def)
next
  case None
  with assms(1) obtain r where r: "best_insertion (al_world al) (al_self al) (al_basis_tick al) (al_step_ms al)
      (committed @ ts) t (length committed) c = Inr (r, c1)"
    by (auto simp: try_task_def Let_def split: option.splits)
  from best_insertion_agrees [OF this assms(2)] have c1: "routes_ok al c1"
    and once: "insertion_for al committed ts t = Inr r" by (simp_all add: insertion_for_def)
  show ?thesis
  proof (cases r)
    case None
    with assms(1) \<open>map_find bids i = None\<close> r c1 once show ?thesis by (simp add: try_task_def no_gain_def)
  next
    case (Some ins)
    with assms(1) \<open>map_find bids i = None\<close> r c1 once show ?thesis
      by (cases "beats_remote al (length committed) i ins")
         (auto simp: try_task_def no_gain_def beats_remote_def Let_def split: option.splits)
  qed
qed

lemma keep_best_cases: "keep_best f best x = Some x \<or> (keep_best f best x = best \<and> best \<noteq> None)"
  by (auto simp: keep_best_def split: option.split)

lemma try_tasks_spec:
  assumes "foldR (try_task al bids (committed @ ts) (length committed)) (choice, c) xs = Inr (choice', c')"
    and "routes_ok al c"
  shows "routes_ok al c'
    \<and> (choice' = None \<longrightarrow> choice = None
         \<and> (\<forall>(i, t) \<in> set xs. map_find bids i = None \<longrightarrow> no_gain al committed ts i t))
    \<and> (\<forall>ch. choice' = Some ch \<longrightarrow> choice = Some ch
         \<or> (\<exists>(i, t) \<in> set xs. bc_task ch = i \<and> map_find bids i = None
              \<and> insertion_for al committed ts t = Inr (Some (bc_insertion ch))
              \<and> beats_remote al (length committed) i (bc_insertion ch)))"
  using assms
proof (induction xs arbitrary: choice c)
  case Nil
  then show ?case by simp
next
  case (Cons x xs)
  obtain i t where x: "x = (i, t)" by (cases x)
  from Cons.prems(1) obtain choice1 c1
    where one: "try_task al bids (committed @ ts) (length committed) (choice, c) (i, t) = Inr (choice1, c1)"
      and rest: "foldR (try_task al bids (committed @ ts) (length committed)) (choice1, c1) xs = Inr (choice', c')"
    by (auto simp: x)
  note step = try_task_cases [OF one Cons.prems(2)]
  then have "routes_ok al c1" by blast
  note ih = Cons.IH [OF rest this]
  from step consider
      "map_find bids i \<noteq> None \<or> no_gain al committed ts i t" "choice1 = choice"
    | ins where "map_find bids i = None" "insertion_for al committed ts t = Inr (Some ins)"
      "beats_remote al (length committed) i ins"
      "choice1 = keep_best better_choice choice \<lparr>bc_task = i, bc_insertion = ins\<rparr>" by blast
  then show ?case
  proof cases
    case 1
    with ih show ?thesis by (auto simp: x)
  next
    case *: (2 ins)
    from keep_best_cases [of better_choice choice "\<lparr>bc_task = i, bc_insertion = ins\<rparr>"]
    have "choice1 = Some \<lparr>bc_task = i, bc_insertion = ins\<rparr> \<or> choice1 = choice \<and> choice \<noteq> None"
      by (simp add: *(4))
    with ih *(1-3) show ?thesis by (auto simp: x)
  qed
qed

subsection \<open>The growing bundle\<close>

definition bundle_ok :: "string \<Rightarrow> task_table \<Rightarrow> string list \<Rightarrow> bid_map \<Rightarrow> string list \<Rightarrow> bool" where
  "bundle_ok agent tasks build bids path \<longleftrightarrow>
     bids_of agent bids \<and> distinct build \<and> set build = fst ` set bids \<and> set build \<subseteq> fst ` set tasks
     \<and> mset path = mset build \<and> positions_ok bids path"

definition bundle_feasible :: "allocator \<Rightarrow> task_state list \<Rightarrow> task_state list \<Rightarrow> bool" where
  "bundle_feasible al committed ts \<longleftrightarrow>
     (\<exists>e. evaluate_bundle (al_world al) (al_self al) (committed @ ts) (al_basis_tick al) (al_step_ms al) = Inr (Some e))"

text \<open>The bid stands against every remote claim on its task.\<close>

definition stands :: "allocator \<Rightarrow> bid_map \<Rightarrow> string \<Rightarrow> bool" where
  "stands al bids i \<longleftrightarrow>
     (\<exists>b. map_find bids i = Some b
        \<and> (\<forall>remote. winner_for i (al_agent al) [] (al_peers al) (al_policy al) = Some remote
              \<longrightarrow> better (al_policy al) b remote))"

lemma better_position [simp]: "better pol (b\<lparr>bd_position := k\<rparr>) r = better pol b r"
  by (simp add: better_def)

lemma stands_same:
  assumes "same_but_position m n"
  shows "stands al m i \<longleftrightarrow> stands al n i"
proof -
  have eq: "map_option (\<lambda>b. b\<lparr>bd_position := 0\<rparr>) (map_find m i) = map_option (\<lambda>b. b\<lparr>bd_position := 0\<rparr>) (map_find n i)"
    using assms by (simp add: same_but_position_def)
  have same: "better pol b r = better pol c r" if "b\<lparr>bd_position := 0\<rparr> = c\<lparr>bd_position := 0\<rparr>" for pol b c r
  proof -
    have "better pol b r = better pol (b\<lparr>bd_position := 0\<rparr>) r" by simp
    also have "\<dots> = better pol (c\<lparr>bd_position := 0\<rparr>) r" by (simp only: that)
    finally show ?thesis by simp
  qed
  show ?thesis
  proof (cases "map_find m i")
    case None
    with eq show ?thesis by (simp add: stands_def)
  next
    case (Some b)
    with eq obtain c where c: "map_find n i = Some c" "b\<lparr>bd_position := 0\<rparr> = c\<lparr>bd_position := 0\<rparr>"
      by (cases "map_find n i") simp_all
    show ?thesis by (simp add: stands_def Some c(1) same [OF c(2)])
  qed
qed

lemma same_but_position_trans:
  "same_but_position l m \<Longrightarrow> same_but_position m n \<Longrightarrow> same_but_position l n"
  by (simp add: same_but_position_def)

lemma bundle_ok_path:
  "bundle_ok agent tasks build bids path \<Longrightarrow>
     distinct path \<and> set path = set build \<and> set path = fst ` set bids \<and> set path \<subseteq> fst ` set tasks"
  unfolding bundle_ok_def by (metis mset_eq_imp_distinct_iff set_mset_mset)

lemma grow_step:
  assumes ok: "bundle_ok (al_agent al) tasks build bids path"
    and new: "i \<in> fst ` set tasks" "map_find bids i = None"
    and index: "index \<le> length path"
    and bid: "bd_task b = i" "bd_bidder b = al_agent al"
  shows "\<exists>bids'. set_positions (map_emplace i b bids) (take index path @ i # drop index path) = Inr bids'
    \<and> bundle_ok (al_agent al) tasks (build @ [i]) bids' (take index path @ i # drop index path)
    \<and> same_but_position bids' (map_emplace i b bids)"
proof -
  let ?path = "take index path @ i # drop index path"
  let ?bids = "map_emplace i b bids"
  from ok have of: "bids_of (al_agent al) bids" by (simp add: bundle_ok_def)
  from of new(2) have fresh: "i \<notin> fst ` set bids" using bids_keys by blast
  note path = bundle_ok_path [OF ok]
  have ms: "mset ?path = add_mset i (mset path)"
    by (metis append_take_drop_id mset.simps(2) mset_append union_mset_add_mset_right)
  then have set: "set ?path = insert i (set path)" by (metis set_mset_mset set_mset_add_mset_insert)
  have "distinct ?path"
    using path fresh ms by (metis distinct.simps(2) mset.simps(2) mset_eq_imp_distinct_iff)
  moreover have "set ?path \<subseteq> fst ` set ?bids" using set path by auto
  ultimately obtain bids' where bids': "set_positions ?bids ?path = Inr bids'" "bids_of (al_agent al) bids'"
    "fst ` set bids' = fst ` set ?bids" "same_but_position bids' ?bids" "positions_ok bids' ?path"
    using set_positions_spec [of ?path ?bids, OF _ _ bids_of_emplace [OF of bid]] by blast
  have "bundle_ok (al_agent al) tasks (build @ [i]) bids' ?path"
    using ok bids'(2,3,5) ms new(1) path fresh by (auto simp: bundle_ok_def)
  with bids' show ?thesis by blast
qed

lemma insert_auction:
  assumes "map_ok tasks" and "(i, t) \<in> set tasks"
  shows "insert_task (length committed + index) t (committed @ auction tasks path)
    = committed @ auction tasks (take index path @ i # drop index path)"
proof -
  from assms have "map_find tasks i = Some t" by (simp add: map_find_iff)
  then show ?thesis by (simp add: insert_task_def auction_def take_map drop_map)
qed

lemma all_in_bundle:
  assumes "map_ok tasks" and "bundle_ok agent tasks build bids path" and "\<not> length build < length tasks"
  shows "fst ` set tasks = set build"
proof -
  have "card (fst ` set tasks) = length tasks"
    using strictly_sorted_distinct [OF assms(1)] by (metis distinct_card length_map set_map)
  moreover have "card (set build) = length build" 
    using assms(2) unfolding bundle_ok_def by (blast intro: distinct_card)
  ultimately show ?thesis
    using assms(2,3) card_seteq [of "fst ` set tasks" "set build"] unfolding bundle_ok_def by (auto simp: not_less)
qed

lemma grow_bundle_spec:
  assumes "grow_bundle al tasks committed build bids path c = Inr (build', bids', c')"
    and "map_ok tasks" and "routes_ok al c" and "bundle_ok (al_agent al) tasks build bids path"
  shows "routes_ok al c' \<and> (\<exists>path' added.
      build' = build @ added \<and> filter (\<lambda>i. i \<in> set build) path' = path \<and> (added = [] \<longrightarrow> path' = path)
    \<and> bundle_ok (al_agent al) tasks build' bids' path'
    \<and> (added \<noteq> [] \<longrightarrow> bundle_feasible al committed (auction tasks path'))
    \<and> (\<forall>(i, t) \<in> set tasks. i \<notin> set build' \<longrightarrow> no_gain al committed (auction tasks path') i t)
    \<and> (\<forall>i. i \<in> set added \<or> stands al bids i \<longrightarrow> stands al bids' i))"
  using assms
proof (induction al tasks committed build bids path c arbitrary: build' bids' c' rule: grow_bundle.induct)
  case (1 al tasks committed build bids path c)
  note ok = 1(5) and tasks_ok = 1(3)
  note path = bundle_ok_path [OF ok]
  then have own: "filter (\<lambda>i. i \<in> set build) path = path" by simp
  show ?case
  proof (cases "length build < length tasks")
    case False
    with 1(2) have eq: "build' = build" "bids' = bids" "c' = c" by (simp_all add: grow_bundle.simps [of al])
    have "\<forall>(i, t) \<in> set tasks. i \<in> set build" using all_in_bundle [OF tasks_ok ok False] by force
    then show ?thesis unfolding eq using ok own 1(4) by (intro conjI exI [of _ path] exI [of _ "[]"]) auto
  next
    case True
    let ?ts = "auction tasks path"
    have auction: "ordered_tasks path tasks = Inr ?ts" using path by (intro ordered_tasks_eq tasks_ok) metis
    from 1(2) True auction obtain choice c1
      where loop: "foldR (try_task al bids (committed @ ?ts) (length committed)) (None, c) tasks = Inr (choice, c1)"
        and rest: "(case choice of None \<Rightarrow> Inr (build, bids, c1)
          | Some ch \<Rightarrow>
             let index = bi_index (bc_insertion ch) - length committed;
                 path' = take index path @ bc_task ch # drop index path
             in bindR (set_positions (map_emplace (bc_task ch) (insertion_bid al (length committed) ch) bids) path')
                  (\<lambda>bids'. grow_bundle al tasks committed (build @ [bc_task ch]) bids' path' c1)) = Inr (build', bids', c')"
      by (subst (asm) grow_bundle.simps) auto
    note tried = try_tasks_spec [OF loop 1(4)]
    show ?thesis
    proof (cases choice)
      case None
      with rest have eq: "build' = build" "bids' = bids" "c' = c1" by simp_all
      have "map_find bids i = None" if "i \<notin> set build" for i
        using that ok by (simp add: bundle_ok_def bids_of_def map_find_None)
      with tried None ok own show ?thesis unfolding eq by (intro conjI exI [of _ path] exI [of _ "[]"]) auto
    next
      case (Some ch)
      let ?i = "bc_task ch"
      let ?index = "bi_index (bc_insertion ch) - length committed"
      let ?path = "take ?index path @ ?i # drop ?index path"
      let ?bid = "insertion_bid al (length committed) ch"
      from tried Some obtain t where t: "(?i, t) \<in> set tasks" "map_find bids ?i = None"
        "insertion_for al committed ?ts t = Inr (Some (bc_insertion ch))"
        "beats_remote al (length committed) ?i (bc_insertion ch)" by auto
      from best_insertion_found [OF t(3) [unfolded insertion_for_def]]
      have index: "length committed \<le> bi_index (bc_insertion ch)" "?index \<le> length path"
        and feasible: "bundle_feasible al committed (auction tasks ?path)"
        using insert_auction [OF tasks_ok t(1), of committed ?index path]
        by (auto simp: auction_def bundle_feasible_def)
      have "?i \<in> fst ` set tasks" using t(1) by force
      from grow_step [OF ok this t(2) index(2), of ?bid]
      obtain bids1 where set: "set_positions (map_emplace ?i ?bid bids) ?path = Inr bids1"
        and ok1: "bundle_ok (al_agent al) tasks (build @ [?i]) bids1 ?path"
        and same: "same_but_position bids1 (map_emplace ?i ?bid bids)"
        by (auto simp: insertion_bid_def)
      from rest Some set
      have grow: "grow_bundle al tasks committed (build @ [?i]) bids1 ?path c1 = Inr (build', bids', c')"
        by (simp add: Let_def)
      have c1: "routes_ok al c1" using tried by blast
      from 1(1) [OF True auction loop refl Some refl refl set grow tasks_ok c1 ok1]
      obtain path' added where ih: "routes_ok al c'" "build' = (build @ [?i]) @ added"
          "filter (\<lambda>j. j \<in> set (build @ [?i])) path' = ?path" "added = [] \<longrightarrow> path' = ?path" "bundle_ok (al_agent al) tasks build' bids' path'"
          "added \<noteq> [] \<longrightarrow> bundle_feasible al committed (auction tasks path')"
          "\<forall>(i, t) \<in> set tasks. i \<notin> set build' \<longrightarrow> no_gain al committed (auction tasks path') i t"
          "\<forall>i. i \<in> set added \<or> stands al bids1 i \<longrightarrow> stands al bids' i"
        by blast
      have eta: "\<lparr>bc_task = ?i, bc_insertion = bc_insertion ch\<rparr> = ch" by simp
      have stands: "stands al bids1 j" if "j = ?i \<or> stands al bids j" for j
        unfolding stands_same [OF same]
        using that t(2) t(4) [unfolded beats_remote_def eta] by (auto simp: stands_def split: option.splits)
      have "bundle_feasible al committed (auction tasks path')"
        using ih(4,6) feasible by (cases added) auto
      moreover have "\<forall>j. j \<in> set (?i # added) \<or> stands al bids j \<longrightarrow> stands al bids' j"
        using ih(8) stands by auto
      moreover have "build' = build @ (?i # added)" using ih(2) by simp
      moreover have "filter (\<lambda>j. j \<in> set build) path' = path"
      proof -
        have "?i \<notin> fst ` set bids" using t(2) ok bids_keys [of "al_agent al" bids ?i] by (simp add: bundle_ok_def)
        then have new: "?i \<notin> set build" using ok by (simp add: bundle_ok_def)
        have "filter (\<lambda>j. j \<in> set build) path' = filter (\<lambda>j. j \<in> set build) (filter (\<lambda>j. j \<in> set (build @ [?i])) path')"
          by (auto intro: filter_cong)
        also have "\<dots> = filter (\<lambda>j. j \<in> set build) (take ?index path) @ filter (\<lambda>j. j \<in> set build) (drop ?index path)"
          unfolding ih(3) using new by simp
        also have "\<dots> = path" by (simp only: filter_append [symmetric] append_take_drop_id own)
        finally show ?thesis .
      qed
      ultimately show ?thesis using ih(1,5,7) by (intro conjI exI [of _ path'] exI [of _ "?i # added"]) simp_all
    qed
  qed
qed

subsection \<open>What is kept of the last bundle\<close>

lemma winner_for_cong:
  "map_find m i = map_find n i \<Longrightarrow> winner_for i agent m peers pol = winner_for i agent n peers pol"
  by (simp add: winner_for_def gather_claims_def)

lemma winners_for_spec:
  assumes "map_ok tasks"
  shows "map_ok (winners_for tasks agent own peers pol)
    \<and> (\<forall>i. map_find (winners_for tasks agent own peers pol) i =
          (if map_find tasks i = None then None else winner_for i agent own peers pol))"
proof -
  let ?f = "\<lambda>ws (i, t). case winner_for i agent own peers pol of None \<Rightarrow> ws | Some w \<Rightarrow> map_emplace i w ws"
  have "map_ok (foldl ?f ws tasks) \<and> (\<forall>i. map_find (foldl ?f ws tasks) i =
      (case map_find ws i of Some w \<Rightarrow> Some w
       | None \<Rightarrow> if map_find tasks i = None then None else winner_for i agent own peers pol))"
    if "map_ok ws" for ws
    using that assms
  proof (induction tasks arbitrary: ws)
    case Nil
    then show ?case by (simp split: option.split)
  next
    case (Cons x tasks)
    obtain i t where x: "x = (i, t)" by (cases x)
    from Cons.prems(2) have ok: "map_ok tasks" and below: "\<forall>p \<in> set tasks. i < fst p" by (auto simp: x)
    have "map_find tasks j = None" if "\<not> i < j" for j
      using that below by (intro map_find_below) auto
    then have cons: "map_find (x # tasks) j = (if j = i then Some t else map_find tasks j)" for j
      by (auto simp: x)
    have step: "map_ok (?f ws x)" using Cons.prems(1) by (auto simp: x map_emplace_ok split: option.split)
    from Cons.IH [OF step ok] show ?case
      unfolding cons foldl_Cons by (auto simp: x split: option.splits)
  qed
  from this [of "[]"] show ?thesis by (simp add: winners_for_def)
qed

text \<open>The item of the last bundle is still open and this agent's own bid still wins it.\<close>

definition held :: "allocator \<Rightarrow> task_table \<Rightarrow> string \<Rightarrow> bool" where
  "held al tasks i \<longleftrightarrow>
     map_find tasks i \<noteq> None \<and> map_find (al_own_bids al) i \<noteq> None
     \<and> (\<exists>w. winner_for i (al_agent al) (al_own_bids al) (al_peers al) (al_policy al) = Some w
           \<and> bd_bidder w = al_agent al)"

text \<open>The items that are kept: a prefix of the last bundle.\<close>

definition held_now :: "allocator \<Rightarrow> task_table \<Rightarrow> string \<Rightarrow> bool" where
  "held_now al tasks i \<longleftrightarrow> i \<in> set (takeWhile (held al tasks) (al_build al))"

lemma standing_bundle_spec:
  assumes "standing_bundle tasks own is build bids = (build', bids')"
    and "bids_of agent own" and "bids_of agent bids"
    and "set build = fst ` set bids" and "\<And>i. i \<in> set build \<Longrightarrow> map_find bids i = map_find own i"
    and "distinct (build @ is)"
  shows "bids_of agent bids' \<and> set build' = fst ` set bids'
    \<and> (\<forall>i \<in> set build'. map_find bids' i = map_find own i)
    \<and> build' = build @ takeWhile (\<lambda>i. map_find tasks i \<noteq> None \<and> map_find own i \<noteq> None) is"
  using assms
proof (induction tasks own "is" build bids rule: standing_bundle.induct)
  case (1 tasks own build bids)
  then show ?case by simp
next
  case (2 tasks own i "is" build bids)
  show ?case
  proof (cases "map_find tasks i = None \<or> map_find own i = None")
    case True
    with 2 show ?thesis by (auto split: option.splits)
  next
    case False
    then obtain t b where t: "map_find tasks i = Some t" and b: "map_find own i = Some b" by auto
    from bids_of_find [OF 2(3) b] have of: "bids_of agent (map_emplace i b bids)"
      by (intro bids_of_emplace [OF 2(4)]) simp_all
    have fresh: "map_find bids i = None" using bids_keys [OF 2(4), of i] 2(5,7) by auto
    have "standing_bundle tasks own is (build @ [i]) (map_emplace i b bids) = (build', bids')"
      using 2(2) t b by simp
    moreover have "set (build @ [i]) = fst ` set (map_emplace i b bids)" using 2(5) by simp
    moreover have "map_find (map_emplace i b bids) j = map_find own j" if "j \<in> set (build @ [i])" for j
      using that 2(6) [of j] b fresh by (cases "j = i") auto
    moreover have "distinct ((build @ [i]) @ is)" using 2(7) by simp
    moreover have tw: "build @ takeWhile (\<lambda>i. map_find tasks i \<noteq> None \<and> map_find own i \<noteq> None) (i # is)
        = (build @ [i]) @ takeWhile (\<lambda>i. map_find tasks i \<noteq> None \<and> map_find own i \<noteq> None) is"
      using t b by simp
    ultimately show ?thesis unfolding tw by (intro 2(1) [OF refl t b _ 2(3) of])
  qed
qed

lemma erase_all:
  assumes "bids_of agent bids"
  shows "bids_of agent (fold map_erase is bids)
    \<and> (\<forall>i. map_find (fold map_erase is bids) i = (if i \<in> set is then None else map_find bids i))"
  using assms
proof (induction "is" arbitrary: bids)
  case (Cons j js)
  have "map_ok bids" using Cons.prems by (simp add: bids_of_def)
  with Cons.IH [OF bids_of_erase [OF Cons.prems, of j]] show ?case by (auto simp: map_find_erase)
qed simp

lemma takeWhile_takeWhile: "takeWhile P (takeWhile Q xs) = takeWhile (\<lambda>x. Q x \<and> P x) xs"
  by (induction xs) auto

lemma cbba_bids_spec:
  assumes "cbba_bids tasks committed al = Inr (bids', al')"
    and "map_ok tasks" and "routes_ok al (al_routes al)"
    and "bids_of (al_agent al) (al_own_bids al)" and "distinct (al_build al)"
  shows "(\<exists>build cache. al' = al\<lparr>al_build := build, al_routes := cache\<rparr>) \<and> routes_ok al (al_routes al')
    \<and> (\<exists>path added. al_build al' = takeWhile (held al tasks) (al_build al) @ added
      \<and> (\<forall>old. mset old = mset (al_build al) \<and> positions_ok (al_own_bids al) old \<and> length old < 2 ^ 32
           \<longrightarrow> filter (held_now al tasks) path = filter (held_now al tasks) old)
      \<and> bundle_ok (al_agent al) tasks (al_build al') bids' path
      \<and> (added \<noteq> [] \<longrightarrow> bundle_feasible al committed (auction tasks path))
      \<and> (\<forall>(i, t) \<in> set tasks. i \<notin> set (al_build al') \<longrightarrow> no_gain al committed (auction tasks path) i t)
      \<and> (\<forall>i \<in> set added. stands al bids' i))"
proof -
  obtain build bids where standing: "standing_bundle tasks (al_own_bids al) (al_build al) [] [] = (build, bids)"
    by (cases "standing_bundle tasks (al_own_bids al) (al_build al) [] []")
  have "bids_of (al_agent al) []" by (simp add: bids_of_def)
  from standing_bundle_spec [OF standing assms(4) this] assms(5)
  have of: "bids_of (al_agent al) bids" and keys: "set build = fst ` set bids"
    and same: "\<And>i. i \<in> set build \<Longrightarrow> map_find bids i = map_find (al_own_bids al) i"
    and build: "build = takeWhile (\<lambda>i. map_find tasks i \<noteq> None \<and> map_find (al_own_bids al) i \<noteq> None) (al_build al)"
    by auto
  define winners where "winners = winners_for tasks (al_agent al) bids (al_peers al) (al_policy al)"
  define kept where "kept = takeWhile (still_wins al winners) build"
  define bids1 where "bids1 = fold map_erase (rev (drop (length kept) build)) bids"
  have open_tasks: "map_find tasks i \<noteq> None" "map_find (al_own_bids al) i \<noteq> None" if "i \<in> set build" for i
    using that set_takeWhileD unfolding build by fastforce+
  have wins: "still_wins al winners i \<longleftrightarrow> held al tasks i" if "i \<in> set build" for i
    using open_tasks [OF that] winners_for_spec [OF assms(2), of "al_agent al" bids "al_peers al" "al_policy al"]
      winner_for_cong [OF same [OF that], of "al_agent al" "al_peers al" "al_policy al"]
    by (auto simp: still_wins_def held_def winners_def split: option.split)
  have "kept = takeWhile (held al tasks) build"
    unfolding kept_def by (rule takeWhile_cong) (simp_all add: wins)
  then have kept: "kept = takeWhile (held al tasks) (al_build al)"
    unfolding build takeWhile_takeWhile by (simp only:, intro takeWhile_cong refl) (auto simp: held_def)
  have split: "build = kept @ drop (length kept) build"
    unfolding kept_def by (metis takeWhile_eq_take append_take_drop_id)
  have dist: "distinct build" using assms(5) unfolding build by simp
  have bids1: "bids_of (al_agent al) bids1"
      "\<And>i. map_find bids1 i = (if i \<in> set (drop (length kept) build) then None else map_find bids i)"
    using erase_all [OF of, of "rev (drop (length kept) build)"] by (simp_all add: bids1_def)
  have keys1: "fst ` set bids1 = set kept"
  proof (rule set_eqI)
    fix i
    have "i \<in> set kept \<longleftrightarrow> i \<in> set build \<and> i \<notin> set (drop (length kept) build)"
      using split dist by (metis Un_iff disjoint_iff distinct_append set_append)
    then show "i \<in> fst ` set bids1 \<longleftrightarrow> i \<in> set kept"
      unfolding bids_keys [OF bids1(1)] bids1(2) keys bids_keys [OF of] by auto
  qed
  from ordered_path_spec [OF equalityD2 [OF keys1] bids1(1)]
  obtain path where path: "ordered_path kept bids1 = Inr path" "mset path = mset kept" by blast
  have "distinct kept" using dist split by (metis distinct_append)
  then have dp: "distinct path" "set path = set kept"
    using path(2) by (metis mset_eq_imp_distinct_iff, metis set_mset_mset)
  from set_positions_spec [OF dp(1) _ bids1(1)] dp(2) keys1
  obtain bids2 where bids2: "set_positions bids1 path = Inr bids2" "bids_of (al_agent al) bids2"
    "fst ` set bids2 = set kept" "positions_ok bids2 path" by auto
  have "set kept \<subseteq> fst ` set tasks"
    using open_tasks(1) split map_find_None [OF assms(2)] by (metis Un_iff set_append subsetI)
  then have ok: "bundle_ok (al_agent al) tasks kept bids2 path"
    using bids2 path(2) \<open>distinct kept\<close> by (simp add: bundle_ok_def)
  from assms(1) standing path bids2 obtain build' cache
    where grow: "grow_bundle al tasks committed kept bids2 path (al_routes al) = Inr (build', bids', cache)"
      and al': "al' = al\<lparr>al_build := build', al_routes := cache\<rparr>"
    by (auto simp: cbba_bids_def Let_def winners_def [symmetric] kept_def [symmetric] bids1_def [symmetric])
  have order: "path = filter (\<lambda>i. i \<in> set kept) old"
    if old: "mset old = mset (al_build al)" "positions_ok (al_own_bids al) old" "length old < 2 ^ 32" for old
  proof -
    have "distinct old" "set kept \<subseteq> set old"
      using mset_eq_imp_distinct_iff [OF old(1)] assms(5) mset_eq_setD [OF old(1)] set_takeWhileD unfolding kept by fastforce+
    moreover have "map_find bids1 i = map_find (al_own_bids al) i" if "i \<in> set kept" for i
      using that keys1 bids_keys [OF bids1(1), of i] bids1(2) [of i] same [of i] arg_cong [OF split, of set] by (auto split: if_split_asm)
    ultimately have "ordered_path kept bids1 = Inr (filter (\<lambda>i. i \<in> set kept) old)"
      by (intro ordered_path_order [OF old(2,3)] \<open>distinct kept\<close>)
    with path(1) show ?thesis by simp
  qed
  have now: "held_now al tasks = (\<lambda>i. i \<in> set kept)" by (rule ext) (simp add: held_now_def kept)
  from grow_bundle_spec [OF grow assms(2,3) ok] obtain path' added where grown: "routes_ok al cache" "build' = kept @ added"
    "filter (\<lambda>i. i \<in> set kept) path' = path" "bundle_ok (al_agent al) tasks build' bids' path'"
    "added \<noteq> [] \<longrightarrow> bundle_feasible al committed (auction tasks path')"
    "\<forall>(i, t) \<in> set tasks. i \<notin> set build' \<longrightarrow> no_gain al committed (auction tasks path') i t"
    "\<forall>i. i \<in> set added \<or> stands al bids2 i \<longrightarrow> stands al bids' i" by blast
  have "\<forall>i \<in> set added. stands al bids' i" using grown(7) by blast
  moreover have "filter (\<lambda>i. i \<in> set kept) path' = filter (\<lambda>i. i \<in> set kept) old"
    if "mset old = mset (al_build al) \<and> positions_ok (al_own_bids al) old \<and> length old < 2 ^ 32" for old
    using order that unfolding grown(3) by blast
  ultimately have "\<exists>path added. al_build al' = kept @ added
      \<and> (\<forall>old. mset old = mset (al_build al) \<and> positions_ok (al_own_bids al) old \<and> length old < 2 ^ 32
           \<longrightarrow> filter (\<lambda>i. i \<in> set kept) path = filter (\<lambda>i. i \<in> set kept) old)
      \<and> bundle_ok (al_agent al) tasks (al_build al') bids' path
      \<and> (added \<noteq> [] \<longrightarrow> bundle_feasible al committed (auction tasks path))
      \<and> (\<forall>(i, t) \<in> set tasks. i \<notin> set (al_build al') \<longrightarrow> no_gain al committed (auction tasks path) i t)
      \<and> (\<forall>i \<in> set added. stands al bids' i)"
    using grown(2,4,5,6) by (intro exI [of _ path'] exI [of _ added] conjI allI impI) (simp_all add: al')
  moreover have "\<exists>build cache. al' = al\<lparr>al_build := build, al_routes := cache\<rparr>" using al' by blast
  moreover have "routes_ok al (al_routes al')" using grown(1) by (simp add: al')
  ultimately show ?thesis unfolding kept [symmetric] now by (intro conjI)
qed

subsection \<open>Property\<close>

text \<open>C18: the bundle a CBBA agent bids with. It keeps the longest prefix of its last bundle all of whose tasks are open
  and still won by its own bids, drops everything after the first one that is not, and may add tasks. The bids are exactly those of the
  bundle, all on open tasks, and their positions are those of one path through the bundle. The kept tasks stand in that path in the
  order that their positions gave them before, and a bundle that is kept whole without an addition keeps its path. If a
  task was added in this update, the tasks already committed followed by the whole path can be carried out in time and
  within the energy reserve, and every added bid beats every remote claim; a bundle of kept tasks alone is not
  evaluated again, so it is feasible only as far as its path and the committed tasks are the ones it was last evaluated with.
  No open task left out has an insertion into the path that is both feasible and better than the remote claim.\<close>

theorem cbba_bundle_built:
  assumes "cbba_bids tasks committed al = Inr (bids, al')"
    and "map_ok tasks" and "routes_ok al (al_routes al)"
    and "bids_of (al_agent al) (al_own_bids al)" and "distinct (al_build al)"
  shows "\<exists>path added. al_build al' = takeWhile (held al tasks) (al_build al) @ added
    \<and> distinct (al_build al') \<and> set (al_build al') = fst ` set bids \<and> set (al_build al') \<subseteq> fst ` set tasks
    \<and> mset path = mset (al_build al')
    \<and> (\<forall>k < length path. \<exists>b. map_find bids (path ! k) = Some b \<and> bd_task b = path ! k
          \<and> bd_bidder b = al_agent al \<and> bd_position b = of_nat k)
    \<and> (\<forall>old. mset old = mset (al_build al) \<and> positions_ok (al_own_bids al) old \<and> length old < 2 ^ 32 \<longrightarrow>
          filter (held_now al tasks) path = filter (held_now al tasks) old
          \<and> (added = [] \<and> list_all (held al tasks) (al_build al) \<longrightarrow> path = old))
    \<and> (added \<noteq> [] \<longrightarrow> bundle_feasible al committed (auction tasks path))
    \<and> (\<forall>i \<in> set added. stands al bids i)
    \<and> (\<forall>(i, t) \<in> set tasks. i \<notin> set (al_build al') \<longrightarrow> no_gain al committed (auction tasks path) i t)"
proof -
  from cbba_bids_spec [OF assms] obtain path added
    where *: "al_build al' = takeWhile (held al tasks) (al_build al) @ added"
      "\<And>old. mset old = mset (al_build al) \<Longrightarrow> positions_ok (al_own_bids al) old \<Longrightarrow> length old < 2 ^ 32 \<Longrightarrow>
         filter (held_now al tasks) path = filter (held_now al tasks) old"
      "bundle_ok (al_agent al) tasks (al_build al') bids path"
      "added \<noteq> [] \<longrightarrow> bundle_feasible al committed (auction tasks path)"
      "\<forall>(i, t) \<in> set tasks. i \<notin> set (al_build al') \<longrightarrow> no_gain al committed (auction tasks path) i t"
      "\<forall>i \<in> set added. stands al bids i" by blast
  from *(3) have ok: "bids_of (al_agent al) bids" "distinct (al_build al')" "set (al_build al') = fst ` set bids"
      "set (al_build al') \<subseteq> fst ` set tasks" "mset path = mset (al_build al')" "positions_ok bids path"
    unfolding bundle_ok_def by blast+
  have whole: "path = old" if "added = [] \<and> list_all (held al tasks) (al_build al)" "mset old = mset (al_build al)"
      "filter (held_now al tasks) path = filter (held_now al tasks) old" for old
  proof -
    have kept: "takeWhile (held al tasks) (al_build al) = al_build al" using that(1) by (simp add: list_all_iff)
    have "set path = set (al_build al)" "set old = set (al_build al)"
      using mset_eq_setD [OF ok(5)] mset_eq_setD [OF that(2)] *(1) that(1) kept by simp_all
    then have "filter (held_now al tasks) path = path" "filter (held_now al tasks) old = old" by (simp_all add: held_now_def kept)
    with that(3) show ?thesis by simp
  qed
  have "\<exists>b. map_find bids (path ! k) = Some b \<and> bd_task b = path ! k
      \<and> bd_bidder b = al_agent al \<and> bd_position b = of_nat k" if "k < length path" for k
    using ok(6) that bids_of_find [OF ok(1), of "path ! k"] unfolding positions_ok_def by fastforce
  then show ?thesis
    by (intro exI [of _ path] exI [of _ added] conjI allI impI * ok)
      (assumption | (elim conjE, assumption) | (elim conjE, rule whole, intro conjI, assumption+, rule *(2), assumption+))+
qed

definition bundle_agent :: allocator where
  "bundle_agent =
     \<lparr>al_agent = vs_id demo_vehicle, al_epoch = 1, al_map_version = 1, al_basis_tick = 1, al_step_ms = 1000,
      al_policy = AP_Sentinel_Cbba, al_self = demo_vehicle, al_world = demo_world, al_routes = Map.empty,
      al_state = empty_alloc_state, al_serialized = [], al_serialized_version = 0, al_broadcast_version = 0,
      al_own_bids = [], al_peers = [], al_build = []\<rparr>"

definition bundle_tasks :: task_table where
  "bundle_tasks = [(''t'', demo_task), (''u'', second_task)]"

lemma bundle_evaluates:
  "(case cbba_bids bundle_tasks [] bundle_agent of
      Inr (bids, al) \<Rightarrow> al_build al = [''t'', ''u''] \<and> map (\<lambda>(i, b). bd_position b) bids = [0, 1] | _ \<Rightarrow> False)"
  by code_simp

theorem cbba_bundle_built_witness:
  "\<exists>bids al. cbba_bids bundle_tasks [] bundle_agent = Inr (bids, al) \<and> al_build al = [''t'', ''u'']
     \<and> (\<exists>path. mset path = mset [''t'', ''u''] \<and> bundle_feasible bundle_agent [] (auction bundle_tasks path))"
proof -
  obtain bids al where run: "cbba_bids bundle_tasks [] bundle_agent = Inr (bids, al)" "al_build al = [''t'', ''u'']"
    using bundle_evaluates by (auto split: sum.splits prod.splits)
  have "map_ok bundle_tasks" "routes_ok bundle_agent (al_routes bundle_agent)"
    "bids_of (al_agent bundle_agent) (al_own_bids bundle_agent)" "distinct (al_build bundle_agent)"
    using routes.sound_empty by (simp_all add: bundle_tasks_def bundle_agent_def bids_of_def)
  from cbba_bundle_built [OF run(1) this] obtain path added where
    "al_build al = takeWhile (held bundle_agent bundle_tasks) (al_build bundle_agent) @ added"
    "mset path = mset (al_build al)"
    "added \<noteq> [] \<longrightarrow> bundle_feasible bundle_agent [] (auction bundle_tasks path)" by blast
  with run(2) have "mset path = mset [''t'', ''u'']" "bundle_feasible bundle_agent [] (auction bundle_tasks path)"
    by (simp_all add: bundle_agent_def)
  with run show ?thesis by blast
qed

end
