(* ===== verification/Allocation_Reports.thy ===== *)
theory Allocation_Reports
  imports Allocation_Claims
begin

text \<open>
  What an allocator hears: which agents it listens to, when it takes over a report of a peer, and what
  holds of every report it keeps.
\<close>

subsection \<open>Lists of agents\<close>

lemma set_peer_ids [simp]: "set (peer_ids al ids) = set ids - {al_agent al}"
  by (auto simp: peer_ids_def)

lemma sorted_peer_ids: "sorted (peer_ids al ids)"
  by (simp add: peer_ids_def sorted_remdups_adj)

lemma audience_spec:
  "set (au_members (audience_of al ob)) = set (ob_peers ob) - {al_agent al}"
  "set (au_peers (audience_of al ob)) = set (if ob_reachable ob = [] then ob_peers ob else ob_reachable ob) - {al_agent al}"
  "sorted (au_peers (audience_of al ob))" "sorted (au_members (audience_of al ob))"
  "sorted (au_bidders (audience_of al ob))"
  by (simp_all add: audience_of_def Let_def sorted_peer_ids sorted_remdups_adj)

subsection \<open>Reports that validate\<close>

text \<open>What the allocator relies on in a report it keeps under the name of its sender.\<close>

definition report_ok :: "allocator \<Rightarrow> string \<Rightarrow> alloc_state \<Rightarrow> bool" where
  "report_ok al p st \<longleftrightarrow>
     as_sender st = p \<and> p \<noteq> al_agent al \<and> as_epoch st = al_epoch al \<and> as_map_version st = al_map_version al
     \<and> as_version st \<noteq> 0
     \<and> strictly_sorted bd_task (as_bids st) \<and> (\<forall>b \<in> set (as_bids st). bd_bidder b = p \<and> bd_epoch b = al_epoch al)
     \<and> strictly_sorted bd_task (as_winners st) \<and> length (as_relays st) = length (as_winners st)
     \<and> (\<forall>(b, r) \<in> set (zip (as_winners st) (as_relays st)).
          rl_bid r = b \<and> rl_path r \<noteq> [] \<and> hd (rl_path r) = bd_bidder b \<and> last (rl_path r) = p
          \<and> distinct (rl_path r))"

definition peers_ok :: "allocator \<Rightarrow> bool" where
  "peers_ok al \<longleftrightarrow> map_ok (al_peers al) \<and> (\<forall>(p, st) \<in> set (al_peers al). report_ok al p st)"

lemma peers_okD:
  assumes "peers_ok al"
  shows "map_ok (al_peers al)" "al_agent al \<notin> fst ` set (al_peers al)"
    "map_find (al_peers al) p = Some st \<Longrightarrow> report_ok al p st"
  using assms by (auto simp: peers_ok_def report_ok_def dest!: map_find_mem)

lemma no_adjacent_dup: "\<not> adjacent_dup f (sort_key f xs) \<Longrightarrow> strictly_sorted f (sort_key f xs)"
  by (simp add: adjacent_dup_sorted)

lemma distinct_path: "\<not> adjacent_dup (\<lambda>a. a) (sort xs) \<Longrightarrow> distinct xs" for xs :: "'a::linorder list"
  using adjacent_dup_sorted [of "\<lambda>a. a" "sort xs"] strictly_sorted_distinct [of "\<lambda>a. a" "sort xs"] by simp

lemma validate_state_ok:
  assumes "validate_state al tasks peers bidders members st = Some s"
  shows "report_ok al (as_sender st) s \<and> as_version s = as_version st \<and> as_sender s = as_sender st"
proof -
  from assms have *: "as_epoch st = al_epoch al" "as_version st \<noteq> 0" "as_map_version st = al_map_version al"
      "as_sender st \<noteq> al_agent al" and s: "s = sort_state st"
    and bids: "valid_bids al tasks bidders s" and len: "length (as_relays s) = length (as_winners s)"
    and winners: "list_all (valid_winner al tasks bidders s) (zip (as_winners s) (as_relays s))"
    and dup: "\<not> adjacent_dup bd_task (as_winners s)"
    by (auto simp: validate_state_def Let_def split: if_splits)
  have fields: "as_epoch s = as_epoch st" "as_version s = as_version st" "as_map_version s = as_map_version st"
    "as_sender s = as_sender st" by (simp_all add: s sort_state_def)
  have "strictly_sorted bd_task (as_bids s)"
    using bids no_adjacent_dup [of bd_task "as_bids st"] by (simp add: valid_bids_def s sort_state_def)
  moreover have "bd_bidder b = as_sender st \<and> bd_epoch b = al_epoch al" if "b \<in> set (as_bids s)" for b
    using bids that by (auto simp: valid_bids_def validate_bid_def fields split: option.splits)
  moreover have "strictly_sorted bd_task (as_winners s)"
    using dup no_adjacent_dup [of bd_task "as_winners st"] by (simp add: s sort_state_def)
  moreover have "rl_bid r = b \<and> rl_path r \<noteq> [] \<and> hd (rl_path r) = bd_bidder b \<and> last (rl_path r) = as_sender st
      \<and> distinct (rl_path r)" if "(b, r) \<in> set (zip (as_winners s) (as_relays s))" for b r
    using winners that distinct_path [of "rl_path r"]
    by (auto simp: list_all_iff valid_winner_def fields dest!: bspec)
  ultimately show ?thesis using * fields len by (auto simp: report_ok_def)
qed

subsection \<open>Hearing reports\<close>

text \<open>The report a message carries, where it is addressed to this agent, comes from a reachable peer in
  its own name, and validates.\<close>

definition heard ::
    "(bytes \<Rightarrow> alloc_state option) \<Rightarrow> allocator \<Rightarrow> task_table \<Rightarrow> string list \<Rightarrow> string list \<Rightarrow> string list
     \<Rightarrow> net_message \<Rightarrow> alloc_state option" where
  "heard parse al tasks peers bidders members msg =
     (if nm_recipient msg \<noteq> al_agent al \<or> nm_sender msg = al_agent al \<or> \<not> binary_search peers (nm_sender msg) then None
      else Option.bind (parse (nm_payload msg)) (\<lambda>incoming.
        if as_sender incoming \<noteq> nm_sender msg \<or> as_version incoming \<noteq> nm_version msg then None
        else validate_state al tasks peers bidders members incoming))"

lemma heard_sender:
  "heard parse al tasks peers bidders members msg = Some st \<Longrightarrow>
     as_sender st = nm_sender msg \<and> report_ok al (nm_sender msg) st"
  by (auto simp: heard_def bind_eq_Some_conv split: if_splits dest: validate_state_ok)

text \<open>The reports of one peer among a list of messages.\<close>

definition reports_of ::
    "(bytes \<Rightarrow> alloc_state option) \<Rightarrow> allocator \<Rightarrow> task_table \<Rightarrow> string list \<Rightarrow> string list \<Rightarrow> string list
     \<Rightarrow> net_message list \<Rightarrow> string \<Rightarrow> alloc_state set" where
  "reports_of parse al tasks peers bidders members msgs p =
     {st. \<exists>msg \<in> set msgs. nm_sender msg = p \<and> heard parse al tasks peers bidders members msg = Some st}"

definition newest_of_reports :: "alloc_state set \<Rightarrow> alloc_state set" where
  "newest_of_reports S = {st \<in> S. \<forall>other \<in> S. as_version other \<le> as_version st}"

text \<open>One candidate stands for the reports heard so far.\<close>

definition stands_for :: "serializer \<Rightarrow> alloc_state set \<Rightarrow> peer_candidate option \<Rightarrow> bool" where
  "stands_for ser S c \<longleftrightarrow>
     (case c of
        None \<Rightarrow> S = {}
      | Some c \<Rightarrow> pc_state c \<in> newest_of_reports S \<and> pc_bytes c = ser (P_State (pc_state c))
          \<and> (pc_conflict c \<longleftrightarrow> (\<exists>st \<in> newest_of_reports S. ser (P_State st) \<noteq> pc_bytes c)))"

lemma consider_message_heard:
  "consider_message ser parse al tasks peers bidders members m msg =
     (case heard parse al tasks peers bidders members msg of
        None \<Rightarrow> m
      | Some st \<Rightarrow>
          let fresh = \<lparr>pc_state = st, pc_bytes = ser (P_State st), pc_conflict = False\<rparr>
          in case map_find m (nm_sender msg) of
               None \<Rightarrow> map_put (nm_sender msg) fresh m
             | Some c \<Rightarrow>
                 if as_version st > as_version (pc_state c) then map_put (nm_sender msg) fresh m
                 else if as_version st = as_version (pc_state c) \<and> ser (P_State st) \<noteq> pc_bytes c
                 then map_put (nm_sender msg) (c\<lparr>pc_conflict := True\<rparr>) m
                 else m)"
  by (auto simp: consider_message_def heard_def Let_def split: option.split)

lemma stands_for_insert:
  assumes "stands_for ser S (Some c)"
  shows "stands_for ser (insert st S)
    (Some (if as_version st > as_version (pc_state c)
           then \<lparr>pc_state = st, pc_bytes = ser (P_State st), pc_conflict = False\<rparr>
           else if as_version st = as_version (pc_state c) \<and> ser (P_State st) \<noteq> pc_bytes c
           then c\<lparr>pc_conflict := True\<rparr> else c))"
proof -
  from assms have c: "pc_state c \<in> newest_of_reports S" "pc_bytes c = ser (P_State (pc_state c))"
    and flag: "pc_conflict c \<longleftrightarrow> (\<exists>s \<in> newest_of_reports S. ser (P_State s) \<noteq> pc_bytes c)"
    by (simp_all add: stands_for_def)
  consider (newer) "as_version st > as_version (pc_state c)" | (same) "as_version st = as_version (pc_state c)"
    | (older) "as_version st < as_version (pc_state c)" by fastforce
  then show ?thesis
  proof cases
    case newer
    then have "newest_of_reports (insert st S) = {st}"
      using c(1) by (fastforce simp: newest_of_reports_def)
    with newer show ?thesis by (simp add: stands_for_def)
  next
    case same
    then have "newest_of_reports (insert st S) = insert st (newest_of_reports S)"
      using c(1) by (auto simp: newest_of_reports_def) 
    with same c flag show ?thesis by (auto simp: stands_for_def)
  next
    case older
    then have "newest_of_reports (insert st S) = newest_of_reports S"
      using c(1) by (fastforce simp: newest_of_reports_def)
    moreover have "\<not> as_version st > as_version (pc_state c)" "as_version st \<noteq> as_version (pc_state c)"
      using older by auto
    ultimately show ?thesis using c flag by (simp add: stands_for_def)
  qed
qed

lemma consider_message_stands:
  assumes "\<And>p. stands_for ser (S p) (map_find m p)"
  shows "stands_for ser
      (if nm_sender msg = p \<and> heard parse al tasks peers bidders members msg \<noteq> None
       then insert (the (heard parse al tasks peers bidders members msg)) (S p) else S p)
    (map_find (consider_message ser parse al tasks peers bidders members m msg) p)"
proof (cases "heard parse al tasks peers bidders members msg")
  case None
  with assms show ?thesis by (simp add: consider_message_heard)
next
  case (Some st)
  show ?thesis
  proof (cases "nm_sender msg = p")
    case False
    with assms [of p] show ?thesis
      by (auto simp: consider_message_heard Some Let_def split: option.split)
  next
    case True
    show ?thesis
    proof (cases "map_find m p")
      case None
      with assms [of p] True Some show ?thesis
        by (simp add: consider_message_heard stands_for_def newest_of_reports_def)
    next
      case c: (Some c)
      with assms [of p] have "stands_for ser (S p) (Some c)" by simp
      from stands_for_insert [OF this, of st] c True Some show ?thesis
        by (auto simp: consider_message_heard Let_def)
    qed
  qed
qed

lemma consider_messages_stand:
  "stands_for ser (reports_of parse al tasks peers bidders members msgs p)
     (map_find (foldl (consider_message ser parse al tasks peers bidders members) [] msgs) p)"
proof (induction msgs arbitrary: p rule: rev_induct)
  case Nil
  then show ?case by (simp add: reports_of_def stands_for_def)
next
  case (snoc msg msgs)
  have "reports_of parse al tasks peers bidders members (msgs @ [msg]) p =
      (if nm_sender msg = p \<and> heard parse al tasks peers bidders members msg \<noteq> None
       then insert (the (heard parse al tasks peers bidders members msg)) (reports_of parse al tasks peers bidders members msgs p)
       else reports_of parse al tasks peers bidders members msgs p)"
    by (auto simp: reports_of_def)
  with consider_message_stands [OF snoc, where msg = msg and p = p] show ?case by simp
qed

lemma consider_messages_ok:
  "map_ok (foldl (consider_message ser parse al tasks peers bidders members) [] msgs)"
proof -
  have "map_ok m \<Longrightarrow> map_ok (consider_message ser parse al tasks peers bidders members m msg)" for m msg
    by (auto simp: consider_message_heard Let_def map_put_ok split: option.split)
  then have "map_ok m \<Longrightarrow> map_ok (foldl (consider_message ser parse al tasks peers bidders members) m msgs)" for m
    by (induction msgs arbitrary: m) auto
  then show ?thesis by simp
qed

text \<open>Adopting the candidates.\<close>

definition adopted :: "alloc_state option \<Rightarrow> peer_candidate option \<Rightarrow> alloc_state option" where
  "adopted old c =
     (case c of
        None \<Rightarrow> old
      | Some c \<Rightarrow>
          if pc_conflict c then old
          else case old of
                 None \<Rightarrow> Some (pc_state c)
               | Some st \<Rightarrow> if as_version (pc_state c) > as_version st then Some (pc_state c) else old)"

lemma adopt_candidate_find:
  "map_find (adopt_candidate known (p, c)) q = (if q = p then adopted (map_find known p) (Some c) else map_find known q)"
  by (auto simp: adopt_candidate_def adopted_def split: option.split)

lemma adopt_candidate_ok: "map_ok known \<Longrightarrow> map_ok (adopt_candidate known x)"
  by (auto simp: adopt_candidate_def map_put_ok split: prod.split option.split)

lemma adopt_candidates:
  assumes "map_ok m" and "map_ok known"
  shows "map_ok (foldl adopt_candidate known m)
    \<and> map_find (foldl adopt_candidate known m) p = adopted (map_find known p) (map_find m p)"
  using assms
proof (induction m arbitrary: known)
  case Nil
  then show ?case by (simp add: adopted_def)
next
  case (Cons x m)
  obtain q c where x: "x = (q, c)" by (cases x)
  from Cons.prems(1) have ok: "map_ok m" and below: "\<forall>r \<in> set m. q < fst r" by (auto simp: x)
  have none: "map_find m j = None" if "\<not> q < j" for j
    using that below by (intro map_find_below) auto
  have cons: "map_find (x # m) p = (if p = q then Some c else map_find m p)"
    using none [of p] by (auto simp: x)
  from Cons.IH [OF ok adopt_candidate_ok [OF Cons.prems(2)], of x] none [of q] show ?case
    unfolding cons foldl_Cons by (simp add: x adopt_candidate_find) (simp add: adopted_def)
qed

lemma keep_peers_mem:
  "(p, s) \<in> set (keep_peers al tasks peers bidders members known) \<Longrightarrow>
     \<exists>st. (p, st) \<in> set known \<and> binary_search peers p \<and> validate_state al tasks peers bidders members st = Some s"
proof (induction known)
  case (Cons x known)
  then show ?case by (cases x) (fastforce split: if_splits option.splits)
qed simp

lemma keep_peers_spec:
  assumes "map_ok known"
  shows "map_ok (keep_peers al tasks peers bidders members known)
    \<and> map_find (keep_peers al tasks peers bidders members known) p =
       (if binary_search peers p then Option.bind (map_find known p) (validate_state al tasks peers bidders members) else None)"
  using assms
proof (induction known)
  case Nil
  then show ?case by simp
next
  case (Cons x known)
  obtain q st where x: "x = (q, st)" by (cases x)
  from Cons.prems have ok: "map_ok known" and below: "\<forall>r \<in> set known. q < fst r" by (auto simp: x)
  have none: "map_find known j = None" if "\<not> q < j" for j
    using that below by (intro map_find_below) auto
  from below have "\<forall>r \<in> set (keep_peers al tasks peers bidders members known). q < fst r"
    by (fastforce dest!: keep_peers_mem)
  with Cons.IH [OF ok] none [of p] show ?case
    by (auto simp: x split: option.splits)
qed

lemma map_ok_ext:
  assumes "map_ok m" and "map_ok n" and "\<And>k. map_find m k = map_find n k"
  shows "m = n"
proof -
  have "set m = set n" using assms by (metis map_find_iff surj_pair subsetI subset_antisym)
  then have "set (map fst m) = set (map fst n)" by simp
  with assms(1,2) have keys: "map fst m = map fst n" by (metis strict_sorted_equal)
  have "map snd m = map snd n"
  proof (rule nth_equalityI)
    show len: "length (map snd m) = length (map snd n)" using keys by (metis length_map)
    fix i assume i: "i < length (map snd m)"
    have "m ! i \<in> set n" using i \<open>set m = set n\<close> by auto
    then have "map_find n (fst (m ! i)) = Some (snd (m ! i))" by (simp add: map_find_iff [OF assms(2)])
    moreover have "fst (m ! i) = fst (n ! i)" using keys i len by (metis length_map nth_map)
    moreover have "map_find n (fst (n ! i)) = Some (snd (n ! i))"
      using i len by (simp add: map_find_iff [OF assms(2)])
    ultimately show "map snd m ! i = map snd n ! i" using i len by simp
  qed
  with keys show ?thesis by (metis zip_map_fst_snd)
qed

lemma accept_messages_spec:
  fixes parse tasks peers bidders members and ob :: observation
  assumes "map_ok (al_peers al)"
    and inj: "inj_on (\<lambda>st. ser (P_State st)) (reports_of parse al tasks peers bidders members (ob_delivered ob) p)"
  defines "newest \<equiv> \<lambda>p. newest_of_reports (reports_of parse al tasks peers bidders members (ob_delivered ob) p)"
  shows "map_ok (al_peers (accept_messages ser parse ob tasks peers bidders members al))
    \<and> map_find (al_peers (accept_messages ser parse ob tasks peers bidders members al)) p =
       (if \<exists>st. newest p = {st} \<and> (\<forall>old. map_find (al_peers al) p = Some old \<longrightarrow> as_version st > as_version old)
        then Some (the_elem (newest p)) else map_find (al_peers al) p)"
proof -
  let ?m = "foldl (consider_message ser parse al tasks peers bidders members) [] (ob_delivered ob)"
  let ?S = "reports_of parse al tasks peers bidders members (ob_delivered ob) p"
  have run: "map_ok (al_peers (accept_messages ser parse ob tasks peers bidders members al))
    \<and> map_find (al_peers (accept_messages ser parse ob tasks peers bidders members al)) p
      = adopted (map_find (al_peers al) p) (map_find ?m p)"
    using adopt_candidates [OF consider_messages_ok assms(1)] by (simp add: accept_messages_def)
  have stands: "stands_for ser ?S (map_find ?m p)" by (rule consider_messages_stand)
  show ?thesis
  proof (cases "map_find ?m p")
    case None
    with stands have "newest p = {}" by (simp add: stands_for_def newest_def newest_of_reports_def)
    with run None show ?thesis by (simp add: adopted_def)
  next
    case (Some c)
    with stands have c: "pc_state c \<in> newest p"
      and flag: "pc_conflict c \<longleftrightarrow> (\<exists>st \<in> newest p. st \<noteq> pc_state c)"
      using inj_onD [OF inj] by (auto simp: stands_for_def newest_def newest_of_reports_def)
    then have "\<not> pc_conflict c \<longleftrightarrow> newest p = {pc_state c}" by auto
    with c run Some show ?thesis
      by (cases "pc_conflict c"; cases "map_find (al_peers al) p") (auto simp: adopted_def)
  qed
qed

subsection \<open>Property\<close>

text \<open>C21: what an allocator believes of a peer after hearing its messages, where the serializer tells those reports apart. It
  depends on the set of valid reports the peer sent, not on their order or number: the one with the highest version is
  taken over if it is the only one of that version and newer than what was known; two different reports of one version
  leave the old belief; and a belief is kept only for a reachable peer and while it validates against the open tasks.\<close>

theorem heard_reports:
  assumes "map_ok (al_peers al)" and "sorted (au_peers au)"
    and "inj_on (\<lambda>st. ser (P_State st))
      (reports_of parse al tasks (au_peers au) (au_bidders au) (au_members au) (ob_delivered ob) p)"
  shows "let newest = newest_of_reports
        (reports_of parse al tasks (au_peers au) (au_bidders au) (au_members au) (ob_delivered ob) p);
      old = map_find (al_peers al) p;
      taken = (if \<exists>st. newest = {st} \<and> (\<forall>st'. old = Some st' \<longrightarrow> as_version st > as_version st')
               then Some (the_elem newest) else old)
    in map_find (al_peers (hear_peers ser parse ob tasks au al)) p =
       (if p \<in> set (au_peers au)
        then Option.bind taken (validate_state al tasks (au_peers au) (au_bidders au) (au_members au)) else None)"
proof -
  let ?al = "accept_messages ser parse ob tasks (au_peers au) (au_bidders au) (au_members au) al"
  have same: "validate_state ?al tasks (au_peers au) (au_bidders au) (au_members au)
      = validate_state al tasks (au_peers au) (au_bidders au) (au_members au)"
    by (intro ext) (simp add: accept_messages_def Let_def validate_state_def valid_bids_def validate_bid_def
      plain_bid_def valid_winner_def valid_owners_def valid_bundle_def cong: option.case_cong)
  note accepted = accept_messages_spec [OF assms(1,3)]
  from keep_peers_spec [OF conjunct1 [OF accepted], of ?al tasks "au_peers au" "au_bidders au" "au_members au" p]
  show ?thesis
    unfolding Let_def hear_peers_def same binary_search_iff [OF assms(2)] using accepted by simp
qed

definition listener :: allocator where
  "listener =
     \<lparr>al_agent = ''a'', al_epoch = 1, al_map_version = 1, al_basis_tick = 1, al_step_ms = 1000,
      al_policy = AP_Nearest_Capable, al_self = empty_vehicle, al_world = empty_world, al_routes = Map.empty,
      al_state = empty_alloc_state, al_serialized = [], al_serialized_version = 0, al_broadcast_version = 0,
      al_own_bids = [], al_peers = [], al_build = []\<rparr>"

definition quiet_report :: "string \<Rightarrow> u64 \<Rightarrow> alloc_state" where
  "quiet_report p version =
     empty_alloc_state\<lparr>as_epoch := 1, as_version := version, as_sender := p, as_map_version := 1\<rparr>"

definition owner_report :: "string \<Rightarrow> u64 \<Rightarrow> alloc_state" where
  "owner_report p version = (quiet_report p version)\<lparr>as_owners :=
     [\<lparr>cm_epoch = 1, cm_version = 1, cm_task = ''t'', cm_agent = p, cm_distance = 0, cm_score = 0, cm_position = 0\<rparr>]\<rparr>"

definition listener_tasks :: task_table where
  "listener_tasks =
     [(''t'', \<lparr>ts_id = ''t'', ts_kind = [], ts_target = \<lparr>px = 0, py = 0\<rparr>, ts_cap = Cap_Search, ts_payload = 0,
        ts_deadline = 9, ts_radius = 0, ts_agent = [], ts_status = TS_Pending, ts_service = 0, ts_service_energy = 0,
        ts_progress = 0, ts_epoch = 0, ts_version = 0, ts_priority = 0, ts_score = 0, ts_position = 0\<rparr>)]"

definition listener_audience :: audience where
  "listener_audience =
     \<lparr>au_members = [''b'', ''c''], au_peers = [''b'', ''c''], au_bidders = [''a'', ''b'', ''c'']\<rparr>"

text \<open>A serializer that writes the version and the number of owners, and the parser for the three reports below.\<close>

definition tally :: serializer where
  "tally m = (case m of
     P_State st \<Rightarrow> replicate (unat (as_version st)) CHR ''v'' @ replicate (length (as_owners st)) CHR ''o'' | _ \<Rightarrow> [])"

definition untally :: "bytes \<Rightarrow> alloc_state option" where
  "untally bs =
     (if bs = ''vv'' then Some (quiet_report ''b'' 2) else if bs = ''vvo'' then Some (owner_report ''b'' 2)
      else if bs = ''vvv'' then Some (quiet_report ''c'' 3) else None)"

definition mail :: "string \<Rightarrow> u64 \<Rightarrow> bytes \<Rightarrow> net_message" where
  "mail sender version bs =
     \<lparr>nm_sender = sender, nm_recipient = ''a'', nm_version = version, nm_payload = bs\<rparr>"

definition listener_mail :: "net_message list" where
  "listener_mail = [mail ''b'' 2 ''vv'', mail ''c'' 3 ''vvv'', mail ''b'' 2 ''vvo'']"

definition listener_observation :: observation where
  "listener_observation =
     \<lparr>ob_tick = 1, ob_step_ms = 1000, ob_self = empty_vehicle, ob_assigned = [], ob_delivered = listener_mail,
      ob_world = empty_world, ob_available = [], ob_peers = [], ob_epoch = 1, ob_policy = AP_Nearest_Capable,
      ob_known = [], ob_profile = [], ob_detections = [], ob_reservations = [], ob_reachable = []\<rparr>"

abbreviation listener_heard :: "net_message \<Rightarrow> alloc_state option" where
  "listener_heard \<equiv> heard untally listener listener_tasks [''b'', ''c''] [''a'', ''b'', ''c''] [''b'', ''c'']"

lemma listener_hears:
  "map (\<lambda>m. (nm_sender m, listener_heard m)) listener_mail =
     [(''b'', Some (quiet_report ''b'' 2)), (''c'', Some (quiet_report ''c'' 3)), (''b'', Some (owner_report ''b'' 2))]"
  by code_simp

lemma listener_reports:
  "reports_of untally listener listener_tasks [''b'', ''c''] [''a'', ''b'', ''c''] [''b'', ''c''] listener_mail p =
     (if p = ''b'' then {quiet_report ''b'' 2, owner_report ''b'' 2} else if p = ''c'' then {quiet_report ''c'' 3} else {})"
  using listener_hears by (auto simp: reports_of_def listener_mail_def mail_def)

theorem heard_reports_witness:
  "map_find (al_peers (hear_peers tally untally listener_observation listener_tasks listener_audience listener)) ''b'' = None
   \<and> map_find (al_peers (hear_peers tally untally listener_observation listener_tasks listener_audience listener)) ''c''
      = Some (quiet_report ''c'' 3)"
proof -
  have fields: "au_peers listener_audience = [''b'', ''c'']" "au_bidders listener_audience = [''a'', ''b'', ''c'']"
    "au_members listener_audience = [''b'', ''c'']" "ob_delivered listener_observation = listener_mail"
    "al_peers listener = []"
    by (simp_all add: listener_audience_def listener_observation_def listener_def)
  have differ: "quiet_report ''b'' 2 \<noteq> owner_report ''b'' 2"
    "tally (P_State (quiet_report ''b'' 2)) \<noteq> tally (P_State (owner_report ''b'' 2))"
    by code_simp+
  have inj: "inj_on (\<lambda>st. tally (P_State st)) (reports_of untally listener listener_tasks (au_peers listener_audience)
      (au_bidders listener_audience) (au_members listener_audience) (ob_delivered listener_observation) p)" for p
    unfolding fields listener_reports using differ by auto
  have "sorted (au_peers listener_audience)" "map_ok (al_peers listener)" by (simp_all add: fields)
  note heard = heard_reports [OF this(2,1) inj, unfolded fields listener_reports]
  have valid: "validate_state listener listener_tasks [''b'', ''c''] [''a'', ''b'', ''c''] [''b'', ''c''] (quiet_report ''c'' 3)
      = Some (quiet_report ''c'' 3)" by code_simp
  have newest: "newest_of_reports {quiet_report ''b'' 2, owner_report ''b'' 2} = {quiet_report ''b'' 2, owner_report ''b'' 2}"
    "newest_of_reports {quiet_report ''c'' 3} = {quiet_report ''c'' 3}"
    by (auto simp: newest_of_reports_def quiet_report_def owner_report_def)
  show ?thesis
    using heard [of "''b''"] heard [of "''c''"] differ(1) valid by (auto simp: newest Let_def)
qed

end
