(* ===== verification/Allocation_Laws.thy ===== *)
theory Allocation_Laws
  imports Allocation_Bundle Allocation_Reports
begin

text \<open>
  The allocator over its whole life: the invariant every update keeps, what a commit means, and what an
  allocator publishes.
\<close>

subsection \<open>A property of all entries\<close>

definition map_all :: "('k \<Rightarrow> 'v \<Rightarrow> bool) \<Rightarrow> ('k, 'v) ordered_map \<Rightarrow> bool" where
  "map_all P m \<longleftrightarrow> (\<forall>(k, v) \<in> set m. P k v)"

lemma map_all_Nil [simp]: "map_all P []"
  by (simp add: map_all_def)

lemma map_all_Cons [simp]: "map_all P ((k, v) # m) \<longleftrightarrow> P k v \<and> map_all P m"
  by (simp add: map_all_def)

lemma map_all_put [intro]: "map_all P m \<Longrightarrow> P k v \<Longrightarrow> map_all P (map_put k v m)"
  unfolding map_all_def using set_map_put by fast

lemma map_all_emplace [intro]: "map_all P m \<Longrightarrow> P k v \<Longrightarrow> map_all P (map_emplace k v m)"
  unfolding map_all_def using set_map_emplace by fast

lemma map_all_find: "map_all P m \<Longrightarrow> map_find m k = Some v \<Longrightarrow> P k v"
  by (auto simp: map_all_def dest!: map_find_mem)

lemma map_all_memD: "map_all P m \<Longrightarrow> (k, v) \<in> set m \<Longrightarrow> P k v"
  by (auto simp: map_all_def)

subsection \<open>The invariant\<close>

text \<open>The published state goes with the bids behind it and with its serialized form.\<close>

definition published_ok :: "serializer \<Rightarrow> allocator \<Rightarrow> bool" where
  "published_ok ser al \<longleftrightarrow>
     al_serialized_version al = as_version (al_state al)
     \<and> (al_state al = empty_alloc_state \<or>
        al_serialized al = ser (P_State (al_state al)) \<and> as_sender (al_state al) = al_agent al
        \<and> as_epoch (al_state al) = al_epoch al \<and> as_map_version (al_state al) = al_map_version al
        \<and> as_bids (al_state al) = map snd (al_own_bids al) \<and> as_bundle (al_state al) = al_build al)"

definition allocator_ok :: "serializer \<Rightarrow> allocator \<Rightarrow> bool" where
  "allocator_ok ser al \<longleftrightarrow>
     al_agent al \<noteq> [] \<and> peers_ok al \<and> bids_of (al_agent al) (al_own_bids al) \<and> distinct (al_build al)
     \<and> (al_policy al = AP_Nearest_Capable \<longrightarrow> al_build al = [])
     \<and> routes_ok al (al_routes al) \<and> published_ok ser al"

inductive reachable_allocator :: "serializer \<Rightarrow> (bytes \<Rightarrow> alloc_state option) \<Rightarrow> string \<Rightarrow> allocator \<Rightarrow> bool"
  for ser parse agent where
  made: "new_allocator agent = Inr al \<Longrightarrow> reachable_allocator ser parse agent al"
| updated: "reachable_allocator ser parse agent al \<Longrightarrow> update_allocator ser parse ob al = Inr (res, al') \<Longrightarrow>
     reachable_allocator ser parse agent al'"

lemma new_allocator_ok: "new_allocator agent = Inr al \<Longrightarrow> allocator_ok ser al \<and> al_agent al = agent"
  using routes.sound_empty
  by (auto simp: new_allocator_def allocator_ok_def peers_ok_def bids_of_def published_ok_def empty_alloc_state_def
      split: if_splits)

subsection \<open>The stages of an update\<close>

lemma synchronize_cases:
  obtains "synchronize ob al = al"
  | "al_own_bids (synchronize ob al) = []" "al_peers (synchronize ob al) = []" "al_build (synchronize ob al) = []"
    "al_routes (synchronize ob al) = Map.empty" "al_state (synchronize ob al) = empty_alloc_state"
    "al_serialized_version (synchronize ob al) = 0" "al_agent (synchronize ob al) = al_agent al"
  unfolding synchronize_def by (cases "al_epoch al = ob_epoch ob \<and> al_map_version al = wd_map_version (ob_world ob)
         \<and> al_policy al = ob_policy ob") simp_all

lemma synchronize_agent [simp]: "al_agent (synchronize ob al) = al_agent al"
  by (simp add: synchronize_def)

lemma synchronize_ok: "allocator_ok ser al \<Longrightarrow> allocator_ok ser (synchronize ob al)"
proof (cases rule: synchronize_cases [of ob al])
  case 2
  assume "allocator_ok ser al"
  then have "al_agent al \<noteq> []" by (simp add: allocator_ok_def)
  with 2 routes.sound_empty show ?thesis
    by (simp add: allocator_ok_def peers_ok_def bids_of_def published_ok_def empty_alloc_state_def)
qed simp

lemma synchronize_basis:
  "al_epoch (synchronize ob al) = ob_epoch ob" "al_map_version (synchronize ob al) = wd_map_version (ob_world ob)"
  "al_policy (synchronize ob al) = ob_policy ob"
  by (simp_all add: synchronize_def)

text \<open>A task without its owner. The allocator's table of tasks holds the pending tasks of the observation, with owners of
  its own making.\<close>

definition vacant :: "task_state \<Rightarrow> task_state" where
  "vacant t = t\<lparr>ts_agent := [], ts_epoch := 0, ts_version := 0, ts_score := 0, ts_position := 0, ts_progress := 0\<rparr>"

definition tasks_ok :: "observation \<Rightarrow> task_table \<Rightarrow> bool" where
  "tasks_ok ob tasks \<longleftrightarrow>
     map_ok tasks
     \<and> map_all (\<lambda>i t. ts_id t = i \<and> (\<exists>u \<in> set (ob_known ob). ts_id u = i \<and> ts_status u = TS_Pending \<and> vacant t = vacant u)) tasks"

lemma task_map_ok: "tasks_ok ob (task_map ob)"
proof -
  let ?f = "\<lambda>m t. if ts_status t = TS_Pending then map_emplace (ts_id t) t m else m"
  have step: "tasks_ok ob (?f m t)" if "tasks_ok ob m" "t \<in> set (ob_known ob)" for m t
    using that by (auto simp: tasks_ok_def map_emplace_ok simp del: map_emplace_simps)
  have "tasks_ok ob m \<Longrightarrow> set ts \<subseteq> set (ob_known ob) \<Longrightarrow> tasks_ok ob (foldl ?f m ts)" for m ts
    by (induction ts arbitrary: m) (simp_all add: step)
  moreover have "tasks_ok ob []" by (simp add: tasks_ok_def)
  ultimately show ?thesis unfolding task_map_def by blast
qed

lemma map_ok_map: "map_ok (map (\<lambda>(i, t). (i, f i t)) m) \<longleftrightarrow> map_ok m"
  by (simp add: comp_def case_prod_beta)

lemma merge_owners_ok: "tasks_ok ob (merge_owners al ob (task_map ob))"
proof -
  have same: "ts_id (assign_owner al owner t) = ts_id t" "vacant (assign_owner al owner t) = vacant t" for owner t
    by (simp_all add: assign_owner_def vacant_def Let_def split: option.split)
  have "tasks_ok ob (map (\<lambda>(i, t). (i, assign_owner al (f i) t)) tasks)" if "tasks_ok ob tasks" for f tasks
    using that unfolding tasks_ok_def map_ok_map by (auto simp: map_all_def same)
  from this [OF task_map_ok] show ?thesis unfolding merge_owners_def Let_def .
qed

lemma merge_owners_progress:
  "al_agent al \<noteq> [] \<Longrightarrow> map_all (\<lambda>i t. ts_agent t = [] \<longrightarrow> ts_progress t = 0) (merge_owners al ob tasks)"
  by (auto simp: merge_owners_def map_all_def assign_owner_def Let_def split: option.splits)

lemma foldl_emplace_filter:
  assumes "map_ok (acc @ m)"
  shows "foldl (\<lambda>m (i, t). if P t then map_emplace i t m else m) acc m = acc @ filter (\<lambda>(i, t). P t) m"
  using assms
proof (induction m arbitrary: acc)
  case (Cons x m)
  obtain i t where x: "x = (i, t)" by (cases x)
  have emplace: "map_emplace i t acc = acc @ [(i, t)]"
    using Cons.prems by (induction acc) (auto simp: x)
  have "map_ok ((acc @ [(i, t)]) @ m)" "map_ok (acc @ m)" using Cons.prems by (auto simp: x sorted_wrt_append)
  with Cons.IH emplace show ?case by (simp add: x)
qed simp

lemma unassigned_tasks_eq: "map_ok tasks \<Longrightarrow> unassigned_tasks tasks = filter (\<lambda>(i, t). ts_agent t = []) tasks"
  using foldl_emplace_filter [of "[]" tasks "\<lambda>t. ts_agent t = []"] by (simp add: unassigned_tasks_def)

lemma unassigned_tasks_ok:
  assumes "tasks_ok ob tasks"
  shows "tasks_ok ob (unassigned_tasks tasks)" "set (unassigned_tasks tasks) \<subseteq> set tasks"
    "map_all (\<lambda>i t. ts_agent t = []) (unassigned_tasks tasks)"
proof -
  from assms have ok: "map_ok tasks" by (simp add: tasks_ok_def)
  note eq = unassigned_tasks_eq [OF ok]
  have "map_ok (filter (\<lambda>(i, t). ts_agent t = []) tasks)" by (rule strictly_sorted_filter [OF ok])
  with assms show "tasks_ok ob (unassigned_tasks tasks)" by (auto simp: eq tasks_ok_def map_all_def)
  show "set (unassigned_tasks tasks) \<subseteq> set tasks" "map_all (\<lambda>i t. ts_agent t = []) (unassigned_tasks tasks)"
    by (auto simp: eq map_all_def)
qed

lemma hear_peers_frame:
  "hear_peers ser parse ob tasks au al = al\<lparr>al_peers := al_peers (hear_peers ser parse ob tasks au al)\<rparr>"
  by (simp add: hear_peers_def accept_messages_def Let_def)

lemma report_ok_peers [simp]: "report_ok (al\<lparr>al_peers := m\<rparr>) = report_ok al"
  by (intro ext) (simp add: report_ok_def)

lemma validate_report_ok:
  "validate_state al tasks peers bidders members st = Some s \<Longrightarrow> as_sender st = p \<Longrightarrow> report_ok al p s"
  using validate_state_ok by blast

lemma adopt_senders:
  assumes "map_all (\<lambda>p c. as_sender (pc_state c) = p) m" and "map_all (\<lambda>p st. as_sender st = p) known"
  shows "map_all (\<lambda>p st. as_sender st = p) (foldl adopt_candidate known m)"
  using assms
proof (induction m arbitrary: known)
  case (Cons x m)
  have "map_all (\<lambda>p st. as_sender st = p) (adopt_candidate known x)"
    using Cons.prems by (cases x) (auto simp: adopt_candidate_def split: option.split)
  with Cons show ?case by (cases x) simp
qed simp

lemma candidates_senders:
  "map_all (\<lambda>p c. as_sender (pc_state c) = p)
     (foldl (consider_message ser parse al tasks peers bidders members) [] msgs)"
proof -
  let ?P = "\<lambda>p c. as_sender (pc_state c) = p"
  have "map_all ?P (consider_message ser parse al tasks peers bidders members m msg)" if m: "map_all ?P m" for m msg
    using m map_all_find [OF m] heard_sender [of parse al tasks peers bidders members msg]
    by (auto simp: consider_message_heard Let_def split: option.split)
  then have "map_all ?P m \<Longrightarrow>
      map_all ?P (foldl (consider_message ser parse al tasks peers bidders members) m msgs)" for m
    by (induction msgs arbitrary: m) simp_all
  then show ?thesis by simp
qed

lemma hear_peers_ok:
  assumes "peers_ok al" and "sorted (au_peers au)"
  shows "peers_ok (hear_peers ser parse ob tasks au al)
    \<and> fst ` set (al_peers (hear_peers ser parse ob tasks au al)) \<subseteq> set (au_peers au)"
proof -
  let ?al = "accept_messages ser parse ob tasks (au_peers au) (au_bidders au) (au_members au) al"
  have "map_ok (al_peers al)" "map_all (\<lambda>p st. as_sender st = p) (al_peers al)"
    using assms(1) by (auto simp: peers_ok_def report_ok_def map_all_def)
  then have ok: "map_ok (al_peers ?al)" and senders: "map_all (\<lambda>p st. as_sender st = p) (al_peers ?al)"
    using adopt_candidates [OF consider_messages_ok] adopt_senders [OF candidates_senders]
    by (simp_all add: accept_messages_def)
  let ?kept = "keep_peers ?al tasks (au_peers au) (au_bidders au) (au_members au) (al_peers ?al)"
  have eq: "hear_peers ser parse ob tasks au al = ?al\<lparr>al_peers := ?kept\<rparr>" by (simp only: hear_peers_def Let_def)
  have "map_ok ?kept" using keep_peers_spec [OF ok] by blast
  moreover have "report_ok ?al p s \<and> p \<in> set (au_peers au)" if "(p, s) \<in> set ?kept" for p s
    
    using keep_peers_mem [OF that] map_all_memD [OF senders] validate_report_ok binary_search_iff [OF assms(2)] by blast
  ultimately show ?thesis by (auto simp: peers_ok_def eq)
qed

lemma nearest_bids_ok:
  assumes "nearest_bids al tasks = Inr bids"
  shows "bids_of (al_agent al) bids \<and> fst ` set bids \<subseteq> fst ` set tasks"
proof (rule foldR_invariant [OF assms [unfolded nearest_bids_def],
    where P = "\<lambda>bids. bids_of (al_agent al) bids \<and> fst ` set bids \<subseteq> fst ` set tasks"])
  show "bids_of (al_agent al) [] \<and> fst ` set [] \<subseteq> fst ` set tasks" by (simp add: bids_of_def)
  fix m x n
  assume x: "x \<in> set tasks" and m: "bids_of (al_agent al) m \<and> fst ` set m \<subseteq> fst ` set tasks"
    and step: "(case x of (i, t) \<Rightarrow>
      bindR (feasible_route (al_world al) (al_self al) t (al_basis_tick al) (al_step_ms al)) (\<lambda>found.
        Inr (case found of None \<Rightarrow> m | Some r \<Rightarrow> map_emplace i (nearest_bid al i t r) m))) = Inr n"
  obtain i t where i: "x = (i, t)" by (cases x)
  from step obtain found where n: "n = (case found of None \<Rightarrow> m | Some r \<Rightarrow> map_emplace i (nearest_bid al i t r) m)"
    by (auto simp: i)
  have "i \<in> fst ` set tasks" using x by (force simp: i)
  show "bids_of (al_agent al) n \<and> fst ` set n \<subseteq> fst ` set tasks"
  proof (cases found)
    case None
    with m show ?thesis by (simp add: n)
  next
    case (Some r)
    have "bids_of (al_agent al) (map_emplace i (nearest_bid al i t r) m)"
      using m by (intro bids_of_emplace) (simp_all add: nearest_bid_def)
    with m \<open>i \<in> fst ` set tasks\<close> show ?thesis by (simp add: n Some del: map_emplace_simps)
  qed
qed

lemma stamp_bids:
  assumes "bids_of agent bids"
  shows "bids_of agent (map (stamp_bid al) bids) \<and> fst ` set (map (stamp_bid al) bids) = fst ` set bids"
proof -
  have stamp: "stamp_bid al = (\<lambda>(i, b). (i, b\<lparr>bd_epoch := al_epoch al, bd_version := bd_version (snd (stamp_bid al (i, b)))\<rparr>))"
    by (intro ext) (auto simp: stamp_bid_def Let_def)
  have keys: "map fst (map (stamp_bid al) bids) = map fst bids" by (subst stamp) (simp add: comp_def case_prod_beta)
  have "\<forall>(i, b) \<in> set (map (stamp_bid al) bids). bd_task b = i \<and> bd_bidder b = agent"
    using assms by (subst stamp) (auto simp: bids_of_def)
  moreover have "map_ok (map (stamp_bid al) bids)" using assms unfolding keys bids_of_def by blast
  ultimately show ?thesis using arg_cong [OF keys, of set] unfolding bids_of_def set_map by blast
qed

lemma make_bids_ok:
  assumes "make_bids tasks committed al = Inr al'"
    and "map_ok tasks" and "bids_of (al_agent al) (al_own_bids al)" and "distinct (al_build al)"
    and "al_policy al = AP_Nearest_Capable \<longrightarrow> al_build al = []" and "routes_ok al (al_routes al)"
  shows "al' = al\<lparr>al_own_bids := al_own_bids al', al_build := al_build al', al_routes := al_routes al'\<rparr>
    \<and> bids_of (al_agent al) (al_own_bids al') \<and> fst ` set (al_own_bids al') \<subseteq> fst ` set tasks
    \<and> distinct (al_build al') \<and> (al_policy al = AP_Nearest_Capable \<longrightarrow> al_build al' = [])
    \<and> routes_ok al (al_routes al')"
proof (cases "al_policy al = AP_Nearest_Capable")
  case True
  with assms(1) obtain bids where "nearest_bids al tasks = Inr bids" and al': "al' = al\<lparr>al_own_bids := map (stamp_bid al) bids\<rparr>"
    by (auto simp: make_bids_def)
  from nearest_bids_ok [OF this(1)] stamp_bids [of "al_agent al" bids al] assms(4-6) show ?thesis
    by (simp add: al')
next
  case False
  with assms(1) obtain bids al1 where run: "cbba_bids tasks committed al = Inr (bids, al1)"
    and al': "al' = al1\<lparr>al_own_bids := map (stamp_bid al1) bids\<rparr>"
    by (auto simp: make_bids_def)
  from cbba_bids_spec [OF run assms(2,6,3,4)] obtain build cache path where
    al1: "al1 = al\<lparr>al_build := build, al_routes := cache\<rparr>" and routes: "routes_ok al (al_routes al1)"
    and ok: "bundle_ok (al_agent al) tasks (al_build al1) bids path" by blast
  from ok have of: "bids_of (al_agent al) bids" and sub: "fst ` set bids \<subseteq> fst ` set tasks"
    and dist: "distinct (al_build al1)" unfolding bundle_ok_def by auto
  from stamp_bids [OF of, of al1] sub dist routes False show ?thesis
    by (simp add: al' al1)
qed

subsection \<open>Winners\<close>

lemma top_exists:
  fixes f :: "'a \<Rightarrow> 'b :: linorder"
  assumes "xs \<noteq> []"
  shows "filter (\<lambda>b. \<forall>c \<in> set xs. f c \<le> f b) xs \<noteq> []"
proof -
  have "Max (f ` set xs) \<in> f ` set xs" using assms by (intro Max_in) simp_all
  then obtain b where b: "b \<in> set xs" "f b = Max (f ` set xs)" by auto
  then have "\<forall>c \<in> set xs. f c \<le> f b" by simp
  with b(1) show ?thesis by (auto simp: filter_empty_conv)
qed

lemma if_Some: "(if P then Some x else None) = Some c \<Longrightarrow> c = x"
  by (simp split: if_splits)

lemma standing_claim_about:
  assumes "peers_ok al" and "bids_of (al_agent al) own"
    and "standing_claim i (al_agent al) own (al_peers al) bidder = Some c"
  shows "bd_task c = i \<and> bd_bidder c = bidder"
proof (cases "bidder = al_agent al")
  case True
  with assms(3) bids_of_find [OF assms(2)] show ?thesis by (simp add: standing_claim_def)
next
  case False
  let ?rs = "relayed i (al_agent al) bidder (al_peers al)"
  have relayed: "bd_task b = i \<and> bd_bidder b = bidder" if "b \<in> set ?rs" for b
    using that by (auto simp: relayed_def relays_in_def)
  let ?fresh = "filter (\<lambda>b. bd_version b > known_version (al_peers al) bidder) ?rs"
  let ?newest = "filter (\<lambda>b. \<forall>c \<in> set ?fresh. bd_version c \<le> bd_version b) ?fresh"
  show ?thesis
  proof (cases "?fresh = []")
    case True
    with assms(3) False obtain st where st: "map_find (al_peers al) bidder = Some st" and c: "reported i st = Some c"
      by (auto simp: standing_claim_def bind_eq_Some_conv)
    from c have "c \<in> set (filter (\<lambda>b. bd_task b = i) (as_bids st))"
      unfolding reported_def Let_def by (metis last_in_set option.distinct(1) option.inject)
    moreover from peers_okD(3) [OF assms(1) st] have "\<forall>b \<in> set (as_bids st). bd_bidder b = bidder"
      by (simp add: report_ok_def)
    ultimately show ?thesis by simp
  next
    case fresh: False
    have "?newest \<noteq> []" by (rule top_exists [OF fresh])
    moreover have "c = hd ?newest"
    proof -
      have "(if \<forall>b \<in> set ?newest. b = hd ?newest then Some (hd ?newest) else None) = Some c"
        using assms(3) unfolding standing_claim_def Let_def if_not_P [OF False] if_not_P [OF fresh] .
      then show ?thesis by (rule if_Some)
    qed
    ultimately have "c \<in> set ?newest" using hd_in_set by blast
    then have "c \<in> set ?rs" by simp
    then show ?thesis by (rule relayed)
  qed
qed

lemma winner_about:
  assumes "peers_ok al" and "bids_of (al_agent al) own"
    and "winner_for i (al_agent al) own (al_peers al) pol = Some w"
  shows "bd_task w = i \<and> (bd_bidder w = al_agent al \<longrightarrow> map_find own i = Some w)"
proof -
  from winner_for_best_of [OF peers_okD(1,2) [OF assms(1)], of pol i own] assms(3)
  obtain b where b: "standing_claim i (al_agent al) own (al_peers al) b = Some w"
    by (auto simp: bids.best_of_def)
  from standing_claim_about [OF assms(1,2) b] b show ?thesis by (auto simp: standing_claim_def)
qed

subsection \<open>Commits\<close>

text \<open>What stands behind one commit: an agreed winner of this agent and a feasible claim.\<close>

definition backed ::
    "allocator \<Rightarrow> observation \<Rightarrow> bid_map \<Rightarrow> string list \<Rightarrow> task_state \<Rightarrow> alloc_commit \<Rightarrow> bool" where
  "backed al ob winners peers t c \<longleftrightarrow>
     (\<exists>w claim. map_find winners (cm_task c) = Some w \<and> peers_agree al (cm_task c) w peers \<and> bd_bidder w = al_agent al
        \<and> make_claim (ob_world ob) (ob_self ob) t (ob_tick ob) (ob_step_ms ob) (al_epoch al) (bd_version w) = Inr claim
        \<and> cl_feasible claim
        \<and> c = \<lparr>cm_epoch = al_epoch al, cm_version = bd_version w, cm_task = cm_task c, cm_agent = al_agent al,
                cm_distance = cl_distance claim, cm_score = bd_score w, cm_position = bd_position w\<rparr>)"

text \<open>The task has an agreed winner, and it is committed if that winner is this agent.\<close>

definition decided :: "allocator \<Rightarrow> bid_map \<Rightarrow> string list \<Rightarrow> alloc_commit list \<Rightarrow> string \<Rightarrow> bool" where
  "decided al winners peers commits i \<longleftrightarrow>
     (\<exists>w. map_find winners i = Some w \<and> peers_agree al i w peers
        \<and> (bd_bidder w = al_agent al \<longrightarrow> i \<in> cm_task ` set commits))"

lemma commit_winner_cases:
  assumes "commit_winner al ob winners peers (commits, pending) (i, t) = Inr (commits1, pending1)"
  shows "(\<exists>c. cm_task c = i \<and> backed al ob winners peers t c \<and> commits1 = commits @ [c] \<and> pending1 = pending
            \<and> decided al winners peers [c] i)
    \<or> (commits1 = commits \<and> (pending1 \<or> pending1 = pending \<and> decided al winners peers [] i))"
proof (cases "map_find winners i")
  case None
  with assms show ?thesis by (simp add: commit_winner_def)
next
  case (Some w)
  show ?thesis
  proof (cases "\<not> peers_agree al i w peers \<or> bd_bidder w \<noteq> al_agent al")
    case True
    with assms Some show ?thesis by (auto simp: commit_winner_def decided_def split: if_splits)
  next
    case False
    with assms Some obtain claim where claim: "make_claim (ob_world ob) (ob_self ob) t (ob_tick ob) (ob_step_ms ob)
        (al_epoch al) (bd_version w) = Inr claim"
      and r: "(commits1, pending1) = (if \<not> cl_feasible claim then (commits, True)
          else (commits @ [\<lparr>cm_epoch = al_epoch al, cm_version = bd_version w, cm_task = i, cm_agent = al_agent al,
                  cm_distance = cl_distance claim, cm_score = bd_score w, cm_position = bd_position w\<rparr>], pending))"
      unfolding commit_winner_def by auto
    with False Some show ?thesis
      by (cases "cl_feasible claim") (auto simp: backed_def decided_def)
  qed
qed

lemma decided_more: "decided al winners peers cs i \<Longrightarrow> set cs \<subseteq> set ds \<Longrightarrow> decided al winners peers ds i"
  by (auto simp: decided_def)

lemma commit_winners_spec:
  assumes "foldR (commit_winner al ob winners peers) (commits, pending) tasks = Inr (commits', pending')"
    and "distinct (map fst tasks)"
  shows "\<exists>new. commits' = commits @ new \<and> distinct (map cm_task new)
    \<and> (\<forall>c \<in> set new. \<exists>t. (cm_task c, t) \<in> set tasks \<and> backed al ob winners peers t c)
    \<and> (\<not> pending' \<longrightarrow> \<not> pending \<and> (\<forall>i \<in> fst ` set tasks. decided al winners peers new i))"
  using assms
proof (induction tasks arbitrary: commits pending)
  case Nil
  then show ?case by simp
next
  case (Cons x tasks)
  obtain i t where x: "x = (i, t)" by (cases x)
  from Cons.prems(1) obtain commits1 pending1
    where one: "commit_winner al ob winners peers (commits, pending) (i, t) = Inr (commits1, pending1)"
      and rest: "foldR (commit_winner al ob winners peers) (commits1, pending1) tasks = Inr (commits', pending')"
    by (auto simp: x)
  from Cons.prems(2) have d: "distinct (map fst tasks)" and i: "i \<notin> fst ` set tasks" by (auto simp: x)
  from Cons.IH [OF rest d] obtain new where new: "commits' = commits1 @ new" "distinct (map cm_task new)"
    "\<forall>c \<in> set new. \<exists>t. (cm_task c, t) \<in> set tasks \<and> backed al ob winners peers t c"
    "\<not> pending' \<longrightarrow> \<not> pending1 \<and> (\<forall>i \<in> fst ` set tasks. decided al winners peers new i)" by blast
  from commit_winner_cases [OF one] show ?case
  proof (elim disjE exE conjE)
    fix c
    assume c: "cm_task c = i" "backed al ob winners peers t c" "commits1 = commits @ [c]" "pending1 = pending"
      "decided al winners peers [c] i"
    have "i \<notin> cm_task ` set new" using new(3) i by force
    moreover have "decided al winners peers (c # new) j" if "\<not> pending'" "j \<in> fst ` set (x # tasks)" for j
      using that new(4) c(5) decided_more [of al winners peers _ j "c # new"] by (auto simp: x)
    ultimately show ?thesis using c new by (intro exI [of _ "c # new"]) (auto simp: x)
  next
    assume "commits1 = commits" pending1
    with new show ?thesis by (intro exI [of _ new]) (auto simp: x)
  next
    assume c: "commits1 = commits" "pending1 = pending" "decided al winners peers [] i"
    with new decided_more [OF c(3), of new] show ?thesis by (intro exI [of _ new]) (auto simp: x)
  qed
qed

subsection \<open>The published state\<close>

lemma revise_state_ok:
  assumes "revise_state winners tasks al = Inr al'"
  shows "al' = al\<lparr>al_state := al_state al'\<rparr>
    \<and> as_sender (al_state al') = al_agent al \<and> as_epoch (al_state al') = al_epoch al
    \<and> as_map_version (al_state al') = al_map_version al
    \<and> as_bids (al_state al') = map snd (al_own_bids al) \<and> as_bundle (al_state al') = al_build al
    \<and> as_winners (al_state al') = map snd winners
    \<and> (al_state al' = al_state al
        \<or> \<not> same_state (al_state al') (al_state al) \<and> as_version (al_state al') = as_version (al_state al) + 1)"
proof -
  from assms obtain new version where al': "al' = al\<lparr>al_state := new\<lparr>as_version := version\<rparr>\<rparr>"
    and version: "version = (if same_state new (al_state al) then as_version (al_state al) else as_version (al_state al) + 1)"
    and new: "as_sender new = al_agent al" "as_epoch new = al_epoch al" "as_map_version new = al_map_version al"
      "as_bids new = map snd (al_own_bids al)" "as_bundle new = al_build al" "as_winners new = map snd winners"
  proof -
    from assms obtain relays where "mapR (relay_of al) winners = Inr relays" by (auto simp: revise_state_def)
    with assms show ?thesis
      by (intro that [where new = "\<lparr>as_epoch = al_epoch al, as_version = 0, as_sender = al_agent al,
          as_bids = map snd (al_own_bids al), as_winners = map snd winners, as_bundle = al_build al,
          as_map_version = al_map_version al, as_owners = owners_of tasks, as_relays = relays\<rparr>", OF _ refl])
        (simp_all add: revise_state_def Let_def)
  qed
  have "new\<lparr>as_version := version\<rparr> = al_state al" if "same_state new (al_state al)"
    using that version unfolding same_state_eq by (cases new; cases "al_state al") simp
  moreover have "same_state (new\<lparr>as_version := version\<rparr>) (al_state al) \<longleftrightarrow> same_state new (al_state al)"
    by (simp add: same_state_eq)
  ultimately have "al_state al' = al_state al
      \<or> \<not> same_state (al_state al') (al_state al) \<and> as_version (al_state al') = as_version (al_state al) + 1"
    using version by (auto simp: al')
  then show ?thesis by (intro conjI) (simp_all add: al' new)
qed

text \<open>The stages of an update, as the equations they satisfy.\<close>

lemma update_stages:
  assumes "update_allocator ser parse ob al = Inr (res, al')"
  obtains al1 au al2 tasks active al3 winners al4 commits pending where
    "vs_id (ob_self ob) = al_agent al" "ob_epoch ob \<noteq> 0" "ob_step_ms ob \<noteq> 0" "allocator_policy_ok (ob_policy ob)"
    "al1 = synchronize ob al" "au = audience_of al1 ob" "al2 = hear_peers ser parse ob (task_map ob) au al1"
    "tasks = merge_owners al2 ob (task_map ob)" "active = unassigned_tasks tasks"
    "make_bids active (committed_tasks al2 tasks) al2 = Inr al3"
    "winners = winners_for active (al_agent al3) (al_own_bids al3) (al_peers al3) (al_policy al3)"
    "revise_state winners tasks al3 = Inr al4"
    "al' = snd (broadcast_state (ob_tick ob) (au_members au) (serialize_state ser al4))"
    "foldR (commit_winner al' ob winners (au_peers au)) ([], False) active = Inr (commits, pending)"
    "res = \<lparr>ar_state = al_state al', ar_messages = fst (broadcast_state (ob_tick ob) (au_members au) (serialize_state ser al4)),
       ar_commits = commits, ar_pending = pending, ar_coordinated = (length (al_peers al') = length (au_peers au))\<rparr>"
  using assms unfolding update_allocator_def Let_def validate_observation_def
  by (auto simp: case_prod_beta)

lemma broadcast_frame:
  "snd (broadcast_state tick members al) = al\<lparr>al_broadcast_version := al_broadcast_version (snd (broadcast_state tick members al))\<rparr>"
  by (simp add: broadcast_state_def)

lemma audience_agent: "al_agent al = al_agent bl \<Longrightarrow> audience_of al ob = audience_of bl ob"
proof -
  assume agent: "al_agent al = al_agent bl"
  then have "peer_ids al = peer_ids bl" by (intro ext) (simp add: peer_ids_def)
  with agent show ?thesis by (simp add: audience_of_def Let_def)
qed

lemma peers_ok_cong:
  "al_peers al = al_peers bl \<Longrightarrow> al_agent al = al_agent bl \<Longrightarrow> al_epoch al = al_epoch bl \<Longrightarrow>
     al_map_version al = al_map_version bl \<Longrightarrow> peers_ok al = peers_ok bl"
  by (simp add: peers_ok_def report_ok_def)

text \<open>The allocator after its bids: the bookkeeping of the published state is still that of the last update.\<close>

lemma bidding_ok:
  assumes "allocator_ok ser al1" and "sorted (au_peers au)" and "map_ok active"
    and "make_bids active committed (hear_peers ser parse ob tasks au al1) = Inr al3"
  shows "\<exists>peers own build cache. al3 = al1\<lparr>al_peers := peers, al_own_bids := own, al_build := build, al_routes := cache\<rparr>
      \<and> fst ` set peers \<subseteq> set (au_peers au)"
    "peers_ok al3" "bids_of (al_agent al3) (al_own_bids al3)" "fst ` set (al_own_bids al3) \<subseteq> fst ` set active"
    "distinct (al_build al3)" "al_policy al3 = AP_Nearest_Capable \<longrightarrow> al_build al3 = []" "routes_ok al3 (al_routes al3)"
proof -
  let ?al2 = "hear_peers ser parse ob tasks au al1"
  from assms(1) have al1: "peers_ok al1" "bids_of (al_agent al1) (al_own_bids al1)" "distinct (al_build al1)"
    "al_policy al1 = AP_Nearest_Capable \<longrightarrow> al_build al1 = []" "routes_ok al1 (al_routes al1)"
    unfolding allocator_ok_def by blast+
  obtain peers where al2: "?al2 = al1\<lparr>al_peers := peers\<rparr>" using hear_peers_frame by blast
  note heard = hear_peers_ok [OF al1(1) assms(2), of ser parse ob tasks]
  define own where "own = al_own_bids al3"
  define build where "build = al_build al3"
  define cache where "cache = al_routes al3"
  have "bids_of (al_agent ?al2) (al_own_bids ?al2)" "distinct (al_build ?al2)"
    "al_policy ?al2 = AP_Nearest_Capable \<longrightarrow> al_build ?al2 = []" "routes_ok ?al2 (al_routes ?al2)"
    using al1(2-5) by (simp_all add: al2)
  note made = make_bids_ok [OF assms(4,3) this, folded own_def build_def cache_def]
  then have al3: "al3 = al1\<lparr>al_peers := peers, al_own_bids := own, al_build := build, al_routes := cache\<rparr>"
    unfolding al2 by simp
  from made have *: "bids_of (al_agent al1) own" "fst ` set own \<subseteq> fst ` set active" "distinct build"
      "al_policy al1 = AP_Nearest_Capable \<longrightarrow> build = []" "routes_ok al1 cache"
    by (simp_all add: al2)
  show "peers_ok al3"
    using heard peers_ok_cong [of al3 ?al2] by (simp add: al2 al3)
  show "\<exists>peers own build cache. al3 = al1\<lparr>al_peers := peers, al_own_bids := own, al_build := build, al_routes := cache\<rparr>
      \<and> fst ` set peers \<subseteq> set (au_peers au)"
    using heard unfolding al2 by (intro exI [of _ peers] exI [of _ own] exI [of _ build] exI [of _ cache]) (simp add: al3)
  show "bids_of (al_agent al3) (al_own_bids al3)" "fst ` set (al_own_bids al3) \<subseteq> fst ` set active"
    "distinct (al_build al3)" "al_policy al3 = AP_Nearest_Capable \<longrightarrow> al_build al3 = []" "routes_ok al3 (al_routes al3)"
    using * by (simp_all add: al3)
qed

lemma serialized:
  assumes "published_ok ser al1" and "al4 = al3\<lparr>al_state := s\<rparr>"
    and "al_state al3 = al_state al1" "al_serialized al3 = al_serialized al1"
      "al_serialized_version al3 = al_serialized_version al1"
    and "s \<noteq> empty_alloc_state"
    and "s = al_state al1 \<or> \<not> same_state s (al_state al1) \<and> as_version s = as_version (al_state al1) + 1"
  shows "serialize_state ser al4 = al4\<lparr>al_serialized := ser (P_State s), al_serialized_version := as_version s\<rparr>"
proof (cases "s = al_state al1")
  case True
  with assms(1,6) have "al_serialized_version al1 = as_version s" "al_serialized al1 = ser (P_State s)"
    by (simp_all add: published_ok_def)
  with assms(2,4,5) show ?thesis by (cases al3) (simp add: serialize_state_def)
next
  case False
  with assms(7) have "as_version s = as_version (al_state al1) + 1" by blast
  moreover have "al_serialized_version al1 = as_version (al_state al1)" using assms(1) by (simp add: published_ok_def)
  ultimately show ?thesis using assms(2,5) by (simp add: serialize_state_def)
qed

text \<open>Everything an update establishes. \<open>previous\<close> is the published state it started from: the last one, or the
  empty one of a new epoch, map or policy.\<close>

definition previous_state :: "observation \<Rightarrow> allocator \<Rightarrow> alloc_state" where
  "previous_state ob al = al_state (synchronize ob al)"

lemma update_facts:
  assumes ok: "allocator_ok ser al" and run: "update_allocator ser parse ob al = Inr (res, al')"
  obtains au active winners pending where
    "allocator_ok ser al'" "al_agent al' = al_agent al" "al_epoch al' = ob_epoch ob" "al_policy al' = ob_policy ob"
    "au = audience_of al' ob" "fst ` set (al_peers al') \<subseteq> set (au_peers au)"
    "tasks_ok ob active" "map_all (\<lambda>i t. ts_agent t = [] \<and> ts_progress t = 0) active" "fst ` set (al_own_bids al') \<subseteq> fst ` set active"
    "winners = winners_for active (al_agent al') (al_own_bids al') (al_peers al') (al_policy al')"
    "foldR (commit_winner al' ob winners (au_peers au)) ([], False) active = Inr (ar_commits res, ar_pending res)"
    "ar_state res = al_state al'" "as_winners (al_state al') = map snd winners"
    "al_state al' \<noteq> empty_alloc_state"
    "al_state al' = previous_state ob al
     \<or> \<not> same_state (al_state al') (previous_state ob al) \<and> as_version (al_state al') = as_version (previous_state ob al) + 1"
    "ar_messages res =
       (if al_broadcast_version (synchronize ob al) \<noteq> as_version (al_state al')
          \<or> ob_tick ob mod broadcast_interval (al_step_ms al') = 0
        then map (broadcast_to al') (au_members au) else [])"
proof (rule update_stages [OF run])
  fix al1 au al2 tasks active al3 winners al4 commits pending
  assume al1: "al1 = synchronize ob al" and au: "au = audience_of al1 ob"
    and al2: "al2 = hear_peers ser parse ob (task_map ob) au al1" and tasks: "tasks = merge_owners al2 ob (task_map ob)"
    and active: "active = unassigned_tasks tasks" and bids: "make_bids active (committed_tasks al2 tasks) al2 = Inr al3"
    and winners: "winners = winners_for active (al_agent al3) (al_own_bids al3) (al_peers al3) (al_policy al3)"
    and revise: "revise_state winners tasks al3 = Inr al4"
    and al': "al' = snd (broadcast_state (ob_tick ob) (au_members au) (serialize_state ser al4))"
    and commits: "foldR (commit_winner al' ob winners (au_peers au)) ([], False) active = Inr (commits, pending)"
    and res: "res = \<lparr>ar_state = al_state al', ar_messages = fst (broadcast_state (ob_tick ob) (au_members au) (serialize_state ser al4)),
       ar_commits = commits, ar_pending = pending, ar_coordinated = (length (al_peers al') = length (au_peers au))\<rparr>"
  have ok1: "allocator_ok ser al1" unfolding al1 by (rule synchronize_ok [OF ok])
  have sorted: "sorted (au_peers au)" unfolding au by (rule audience_spec)
  have tasks_ok: "tasks_ok ob tasks" unfolding tasks by (rule merge_owners_ok)
  note active_ok = unassigned_tasks_ok [OF tasks_ok, folded active]
  then have "map_ok active" by (simp add: tasks_ok_def)
  note bidding = bidding_ok [OF ok1 sorted this bids [unfolded al2]]
  obtain peers own build cache where al3: "al3 = al1\<lparr>al_peers := peers, al_own_bids := own, al_build := build, al_routes := cache\<rparr>"
    and reach: "fst ` set peers \<subseteq> set (au_peers au)" using bidding(1) by blast
  define s where "s = al_state al4"
  note revised = revise_state_ok [OF revise, folded s_def]
  then have al4: "al4 = al3\<lparr>al_state := s\<rparr>" by blast
  from ok1 have agent2: "al_agent al2 \<noteq> []" unfolding al2 by (subst hear_peers_frame) (simp add: allocator_ok_def)
  from ok1 have agent: "al_agent al1 \<noteq> []" and pub: "published_ok ser al1" by (simp_all add: allocator_ok_def)
  from revised have sender: "as_sender s = al_agent al1" by (simp add: al3)
  with agent have ne: "s \<noteq> empty_alloc_state" by (auto simp: empty_alloc_state_def)
  from revised have change: "s = al_state al1 \<or> \<not> same_state s (al_state al1) \<and> as_version s = as_version (al_state al1) + 1"
    by (simp add: al3)
  have ser: "serialize_state ser al4 = al4\<lparr>al_serialized := ser (P_State s), al_serialized_version := as_version s\<rparr>"
    by (rule serialized [OF pub al4 _ _ _ ne change]) (simp_all add: al3)
  define v where "v = al_broadcast_version al'"
  have al'_eq: "al' = al3\<lparr>al_state := s, al_serialized := ser (P_State s), al_serialized_version := as_version s,
      al_broadcast_version := v\<rparr>"
  proof -
    have "al' = (serialize_state ser al4)\<lparr>al_broadcast_version := v\<rparr>" unfolding v_def al' by (rule broadcast_frame)
    then show ?thesis unfolding ser by (simp add: al4)
  qed
  have basis: "al_agent al' = al_agent al" "al_epoch al' = ob_epoch ob" "al_policy al' = ob_policy ob"
    by (simp_all add: al'_eq al3 al1 synchronize_basis)
  have peers_ok: "peers_ok al'" using bidding(2) peers_ok_cong [of al' al3] by (simp add: al'_eq)
  have pub': "published_ok ser al'" using revised by (simp add: published_ok_def al'_eq)
  have ok': "allocator_ok ser al'"
    unfolding allocator_ok_def using agent peers_ok pub' bidding(3,5-7) by (simp add: al'_eq al3)
  show thesis
  proof (rule that [of au active winners, OF ok' basis])
    show "au = audience_of al' ob" unfolding au by (rule audience_agent) (simp add: al'_eq al3)
    show "fst ` set (al_peers al') \<subseteq> set (au_peers au)" using reach by (simp add: al'_eq al3)
    show "tasks_ok ob active" by (rule active_ok)
    show "map_all (\<lambda>i t. ts_agent t = [] \<and> ts_progress t = 0) active"
      using merge_owners_progress [OF agent2, of ob "task_map ob", folded tasks] active_ok(2,3)
      unfolding map_all_def by (fastforce split: prod.splits)
    show "fst ` set (al_own_bids al') \<subseteq> fst ` set active" using bidding(4) by (simp add: al'_eq)
    show "winners = winners_for active (al_agent al') (al_own_bids al') (al_peers al') (al_policy al')"
      by (simp add: winners al'_eq)
    show "foldR (commit_winner al' ob winners (au_peers au)) ([], False) active = Inr (ar_commits res, ar_pending res)"
      using commits by (simp add: res)
    show "ar_state res = al_state al'" by (simp add: res)
    show "as_winners (al_state al') = map snd winners" "al_state al' \<noteq> empty_alloc_state"
      using revised ne by (simp_all add: al'_eq)
    show "al_state al' = previous_state ob al
     \<or> \<not> same_state (al_state al') (previous_state ob al) \<and> as_version (al_state al') = as_version (previous_state ob al) + 1"
      using change by (simp add: al'_eq previous_state_def al1 [symmetric])
    show "ar_messages res =
       (if al_broadcast_version (synchronize ob al) \<noteq> as_version (al_state al')
          \<or> ob_tick ob mod broadcast_interval (al_step_ms al') = 0
        then map (broadcast_to al') (au_members au) else [])"
      unfolding res allocation_result.simps ser al1 [symmetric]
      by (simp add: al4 al3 al'_eq broadcast_state_def broadcast_due_def broadcast_to_def)
  qed
qed

lemma reachable_allocator_ok:
  "reachable_allocator ser parse agent al \<Longrightarrow> allocator_ok ser al \<and> al_agent al = agent"
proof (induction rule: reachable_allocator.induct)
  case (made al)
  then show ?case by (rule new_allocator_ok)
next
  case (updated al ob res al')
  then have "allocator_ok ser al" "al_agent al = agent" by auto
  from update_facts [OF this(1) updated.hyps(2)] this(2) show ?case by metis
qed

subsection \<open>Properties\<close>

lemma map_find_values: "map_find m i = Some v \<Longrightarrow> v \<in> set (map snd m)"
  by (force dest: map_find_mem)

lemma peers_agreeD:
  assumes "peers_agree al i w peers" and "p \<in> set peers"
  shows "\<exists>st. map_find (al_peers al) p = Some st \<and> w \<in> set (as_winners st)"
  using assms
  by (auto simp: peers_agree_def list_all_iff winner_in_def split: option.splits dest!: bspec dest: find_by_SomeD)

lemma make_claim_feasible:
  assumes "make_claim w v t tick step epoch version = Inr c" and "cl_feasible c"
  shows "\<exists>r. feasible_route w v t tick step = Inr (Some r) \<and> cl_distance c = ro_distance r"
  using assms by (auto simp: make_claim_def split: option.splits)

lemma feasible_route_vacant:
  assumes "vacant t = vacant u" and "ts_progress t = 0"
  shows "feasible_route w v t tick step = feasible_route w v (u\<lparr>ts_progress := 0\<rparr>) tick step"
proof -
  have "ts_status t = ts_status u" "ts_cap t = ts_cap u" "ts_payload t = ts_payload u" "ts_deadline t = ts_deadline u"
    "ts_target t = ts_target u" "ts_service t = ts_service u" "ts_service_energy t = ts_service_energy u"
    using assms(1) by (cases t, cases u, simp add: vacant_def)+
  with assms(2) show ?thesis by (simp add: feasible_route_def remaining_service_def)
qed

lemma commit_backed:
  assumes peers_ok: "peers_ok al" and own: "bids_of (al_agent al) (al_own_bids al)"
    and won: "\<And>i w. map_find winners i = Some w \<Longrightarrow>
      winner_for i (al_agent al) (al_own_bids al) (al_peers al) (al_policy al) = Some w"
    and active: "tasks_ok ob active" "map_all (\<lambda>i t. ts_agent t = [] \<and> ts_progress t = 0) active"
    and ex: "\<exists>t. (cm_task c, t) \<in> set active \<and> backed al ob winners ps t c"
  shows "cm_agent c = al_agent al \<and> cm_epoch c = al_epoch al
    \<and> (\<exists>t \<in> set (ob_known ob). ts_id t = cm_task c \<and> ts_status t = TS_Pending
         \<and> (\<exists>r. feasible_route (ob_world ob) (ob_self ob) (t\<lparr>ts_progress := 0\<rparr>) (ob_tick ob) (ob_step_ms ob) = Inr (Some r)
              \<and> cm_distance c = ro_distance r))
    \<and> (\<exists>b. map_find (al_own_bids al) (cm_task c) = Some b
         \<and> cm_version c = bd_version b \<and> cm_score c = bd_score b \<and> cm_position c = bd_position b
         \<and> b \<in> set (map snd winners) \<and> (\<forall>p \<in> set ps. \<exists>st. map_find (al_peers al) p = Some st \<and> b \<in> set (as_winners st))
         \<and> (\<forall>bidder other. standing_claim (cm_task c) (al_agent al) (al_own_bids al) (al_peers al) bidder = Some other
               \<longrightarrow> \<not> better (al_policy al) other b))"
proof -
  from ex obtain t where t: "(cm_task c, t) \<in> set active" and backed: "backed al ob winners ps t c" by blast
  from active t obtain u where u: "u \<in> set (ob_known ob)" "ts_id u = cm_task c" "ts_status u = TS_Pending" "vacant t = vacant u"
    and fresh: "ts_progress t = 0"
    by (fastforce simp: tasks_ok_def map_all_def)
  from backed obtain w claim where w: "map_find winners (cm_task c) = Some w" "peers_agree al (cm_task c) w ps"
      "bd_bidder w = al_agent al"
    and claim: "make_claim (ob_world ob) (ob_self ob) t (ob_tick ob) (ob_step_ms ob) (al_epoch al) (bd_version w) = Inr claim"
      "cl_feasible claim"
    and c: "c = \<lparr>cm_epoch = al_epoch al, cm_version = bd_version w, cm_task = cm_task c, cm_agent = al_agent al,
                cm_distance = cl_distance claim, cm_score = bd_score w, cm_position = bd_position w\<rparr>"
    unfolding backed_def by blast
  have fields: "cm_agent c = al_agent al" "cm_epoch c = al_epoch al" "cm_version c = bd_version w"
    "cm_score c = bd_score w" "cm_position c = bd_position w" "cm_distance c = cl_distance claim"
    by (subst c, simp)+
  note winner = won [OF w(1)]
  have "map_find (al_own_bids al) (cm_task c) = Some w" using winner_about [OF peers_ok own winner] w(3) by blast
  moreover have "\<not> better (al_policy al) other w"
    if "standing_claim (cm_task c) (al_agent al) (al_own_bids al) (al_peers al) bidder = Some other" for bidder other
    using winner_for_best_of [OF peers_okD(1,2) [OF peers_ok], of "al_policy al" "cm_task c" "al_own_bids al"] that
    unfolding winner better_worth by (auto simp: bids.best_of_def)
  ultimately show ?thesis
    unfolding fields using u(1-3) peers_agreeD [OF w(2)] make_claim_feasible [OF claim, unfolded feasible_route_vacant [OF u(4) fresh]]
      map_find_values [OF w(1)] by blast
qed

lemma winner_settled:
  assumes peers_ok: "peers_ok al" and own: "bids_of (al_agent al) (al_own_bids al)" and map_ok: "map_ok active"
    and winners: "winners = winners_for active (al_agent al) (al_own_bids al) (al_peers al) (al_policy al)"
    and rest: "\<forall>i \<in> fst ` set active. decided al winners ps commits i"
    and w: "w \<in> set (map snd winners)"
  shows "(\<forall>p \<in> set ps. \<exists>st. map_find (al_peers al) p = Some st \<and> w \<in> set (as_winners st))
    \<and> (bd_bidder w = al_agent al \<longrightarrow> bd_task w \<in> cm_task ` set commits)"
proof -
  note spec = winners_for_spec [OF map_ok, of "al_agent al" "al_own_bids al" "al_peers al" "al_policy al", folded winners]
  from w obtain i where i: "(i, w) \<in> set winners" by auto
  then have found: "map_find winners i = Some w" using map_find_iff [OF conjunct1 [OF spec]] by blast
  then have won: "winner_for i (al_agent al) (al_own_bids al) (al_peers al) (al_policy al) = Some w"
    and "i \<in> fst ` set active"
    using spec map_find_None [OF map_ok, of i] by (auto split: if_splits)
  from winner_about [OF peers_ok own won] have task: "bd_task w = i" by blast
  from rest \<open>i \<in> fst ` set active\<close> found have "peers_agree al i w ps" "bd_bidder w = al_agent al \<longrightarrow> i \<in> cm_task ` set commits"
    by (auto simp: decided_def)
  with peers_agreeD show ?thesis unfolding task by blast
qed

text \<open>C6: what a commit of an allocator means. Each task is committed at most once; it is one the observation reports as
  pending, and nobody is known to own it. The commit carries this agent's own bid, which every reachable peer reports as
  the winner of the task and which no standing claim beats. With the target, the deadline, the payload and the service
  that the observation gives for the task, and with all of the service still to be done, there is a feasible route to
  it from where the vehicle is now, and the commit states its length. When nothing is pending, every winner is agreed upon by all reachable
  peers, and those of this agent are committed.\<close>

theorem commits_agreed:
  assumes "reachable_allocator ser parse agent al" and "update_allocator ser parse ob al = Inr (res, al')"
  shows "let peers = set (if ob_reachable ob = [] then ob_peers ob else ob_reachable ob) - {agent};
      reported = \<lambda>b. \<forall>p \<in> peers. \<exists>st. map_find (al_peers al') p = Some st \<and> b \<in> set (as_winners st)
    in distinct (map cm_task (ar_commits res))
    \<and> (\<forall>c \<in> set (ar_commits res). cm_agent c = agent \<and> cm_epoch c = ob_epoch ob
         \<and> (\<exists>t \<in> set (ob_known ob). ts_id t = cm_task c \<and> ts_status t = TS_Pending
              \<and> (\<exists>r. feasible_route (ob_world ob) (ob_self ob) (t\<lparr>ts_progress := 0\<rparr>) (ob_tick ob) (ob_step_ms ob) = Inr (Some r)
                   \<and> cm_distance c = ro_distance r))
         \<and> (\<exists>b. map_find (al_own_bids al') (cm_task c) = Some b
              \<and> cm_version c = bd_version b \<and> cm_score c = bd_score b \<and> cm_position c = bd_position b
              \<and> b \<in> set (as_winners (ar_state res)) \<and> reported b
              \<and> (\<forall>bidder other. standing_claim (cm_task c) agent (al_own_bids al') (al_peers al') bidder = Some other
                    \<longrightarrow> \<not> better (ob_policy ob) other b)))
    \<and> (\<not> ar_pending res \<longrightarrow> (\<forall>w \<in> set (as_winners (ar_state res)).
         reported w \<and> (bd_bidder w = agent \<longrightarrow> bd_task w \<in> cm_task ` set (ar_commits res))))"
proof -
  from reachable_allocator_ok [OF assms(1)] have ok: "allocator_ok ser al" and agent: "al_agent al = agent" by auto
  show ?thesis
  proof (rule update_facts [OF ok assms(2)])
    fix au active winners
    assume ok': "allocator_ok ser al'" and basis: "al_agent al' = al_agent al" "al_epoch al' = ob_epoch ob"
        "al_policy al' = ob_policy ob" and au: "au = audience_of al' ob"
      and active: "tasks_ok ob active" "map_all (\<lambda>i t. ts_agent t = [] \<and> ts_progress t = 0) active"
      and winners: "winners = winners_for active (al_agent al') (al_own_bids al') (al_peers al') (al_policy al')"
      and commits: "foldR (commit_winner al' ob winners (au_peers au)) ([], False) active = Inr (ar_commits res, ar_pending res)"
      and published: "ar_state res = al_state al'" "as_winners (al_state al') = map snd winners"
    have agent': "al_agent al' = agent" using basis(1) agent by simp
    from ok' have peers_ok: "peers_ok al'" and own: "bids_of (al_agent al') (al_own_bids al')"
      by (simp_all add: allocator_ok_def)
    have map_ok: "map_ok active" using active(1) by (simp add: tasks_ok_def)
    have peers: "set (au_peers au) = set (if ob_reachable ob = [] then ob_peers ob else ob_reachable ob) - {agent}"
      unfolding au audience_spec agent' ..
    have spec: "map_ok winners" "\<And>i. map_find winners i = (if map_find active i = None then None
        else winner_for i (al_agent al') (al_own_bids al') (al_peers al') (al_policy al'))"
      using winners_for_spec [OF map_ok, of "al_agent al'" "al_own_bids al'" "al_peers al'" "al_policy al'"]
      unfolding winners by blast+
    have won: "winner_for i (al_agent al') (al_own_bids al') (al_peers al') (al_policy al') = Some w"
      if "map_find winners i = Some w" for i w using that unfolding spec by (simp split: if_splits)
    have "distinct (map fst active)" using strictly_sorted_distinct [OF map_ok] .
    from commit_winners_spec [OF commits this]
    have dist: "distinct (map cm_task (ar_commits res))"
      and backed: "\<And>c. c \<in> set (ar_commits res) \<Longrightarrow> \<exists>t. (cm_task c, t) \<in> set active \<and> backed al' ob winners (au_peers au) t c"
      and rest: "\<not> ar_pending res \<Longrightarrow> \<forall>i \<in> fst ` set active. decided al' winners (au_peers au) (ar_commits res) i"
      by auto
    note each = commit_backed [OF peers_ok own won active backed, unfolded basis(2,3) agent', folded published(2), folded published(1)]
    note all = winner_settled [OF peers_ok own map_ok winners rest, unfolded agent', folded published(2), folded published(1)]
    show ?thesis
      unfolding Let_def peers [symmetric]
      by (rule conjI [OF dist conjI [OF ballI [OF each] impI [OF ballI [OF all]]]])
  qed
qed

text \<open>A vehicle on its own, for the witnesses: it commits the only task at once.\<close>

definition alone :: observation where
  "alone =
     \<lparr>ob_tick = 1, ob_step_ms = 1000, ob_self = demo_vehicle, ob_assigned = [], ob_delivered = [],
      ob_world = demo_world, ob_available = [], ob_peers = [''w''], ob_epoch = 1, ob_policy = AP_Nearest_Capable,
      ob_known = [demo_task], ob_profile = [], ob_detections = [], ob_reservations = [], ob_reachable = [''v'']\<rparr>"

lemma alone_evaluates:
  "(case bindR (new_allocator ''v'') (update_allocator (\<lambda>_. ''s'') (\<lambda>_. None) alone) of
      Inr (res, al) \<Rightarrow> map cm_task (ar_commits res) = [''t''] \<and> length (ar_messages res) = 1 | _ \<Rightarrow> False)"
  by code_simp

lemma alone_run:
  obtains al res al' where "reachable_allocator (\<lambda>_. ''s'') (\<lambda>_. None) ''v'' al"
    "update_allocator (\<lambda>_. ''s'') (\<lambda>_. None) alone al = Inr (res, al')"
    "map cm_task (ar_commits res) = [''t'']" "length (ar_messages res) = 1"
proof -
  obtain al where al: "new_allocator ''v'' = Inr al" by (simp add: new_allocator_def)
  with alone_evaluates obtain res al' where "update_allocator (\<lambda>_. ''s'') (\<lambda>_. None) alone al = Inr (res, al')"
    "map cm_task (ar_commits res) = [''t'']" "length (ar_messages res) = 1"
    by (auto split: sum.splits)
  then show ?thesis using made [OF al] by (rule that [rotated])
qed

theorem commits_agreed_witness:
  "\<exists>al res al'. update_allocator (\<lambda>_. ''s'') (\<lambda>_. None) alone al = Inr (res, al') \<and> map cm_task (ar_commits res) = [''t'']
     \<and> (\<forall>c \<in> set (ar_commits res). cm_agent c = ''v'' \<and> map_find (al_own_bids al') (cm_task c) \<noteq> None)"
proof -
  obtain al res al' where run: "reachable_allocator (\<lambda>_. ''s'') (\<lambda>_. None) ''v'' al"
    "update_allocator (\<lambda>_. ''s'') (\<lambda>_. None) alone al = Inr (res, al')" "map cm_task (ar_commits res) = [''t'']"
    by (rule alone_run)
  from commits_agreed [OF run(1,2)]
  have "\<forall>c \<in> set (ar_commits res). cm_agent c = ''v'' \<and> map_find (al_own_bids al') (cm_task c) \<noteq> None"
    unfolding Let_def by fastforce
  with run show ?thesis by (intro exI conjI)
qed

text \<open>C19: what an allocator publishes. Its state is unchanged since the last update, or since the start of its epoch, map
  version and policy, or it differs and its version is one higher, so that within a basis two published states of one version are
  equal. Every message it sends goes to another member, under the version of that state and with exactly that state as
  its payload, whenever it was serialized. All members are sent the state when the version is not the one last broadcast,
  and at every multiple of the retransmission interval.\<close>

theorem published_state_versioned:
  assumes "reachable_allocator ser parse agent al" and "update_allocator ser parse ob al = Inr (res, al')"
  shows "let same_basis = al_epoch al = ob_epoch ob \<and> al_map_version al = wd_map_version (ob_world ob) \<and> al_policy al = ob_policy ob;
      last = (if same_basis then al_state al else empty_alloc_state);
      sent = (if same_basis then al_broadcast_version al else 0)
    in as_sender (ar_state res) = agent \<and> as_epoch (ar_state res) = ob_epoch ob
    \<and> as_bids (ar_state res) = map snd (al_own_bids al')
    \<and> (ar_state res = last
       \<or> \<not> same_state (ar_state res) last \<and> as_version (ar_state res) = as_version last + 1)
    \<and> (\<forall>m \<in> set (ar_messages res). nm_sender m = agent \<and> nm_recipient m \<in> set (ob_peers ob) - {agent}
         \<and> nm_version m = as_version (ar_state res) \<and> nm_payload m = ser (P_State (ar_state res)))
    \<and> (sent \<noteq> as_version (ar_state res) \<or> ob_tick ob mod broadcast_interval (al_step_ms al') = 0
        \<longrightarrow> nm_recipient ` set (ar_messages res) = set (ob_peers ob) - {agent})"
proof -
  from reachable_allocator_ok [OF assms(1)] have ok: "allocator_ok ser al" and agent: "al_agent al = agent" by auto
  show ?thesis
  proof (rule update_facts [OF ok assms(2)])
    fix au
    assume ok': "allocator_ok ser al'" and basis: "al_agent al' = al_agent al" "al_epoch al' = ob_epoch ob"
      and au: "au = audience_of al' ob" and state: "ar_state res = al_state al'" "al_state al' \<noteq> empty_alloc_state"
      and change: "al_state al' = previous_state ob al
        \<or> \<not> same_state (al_state al') (previous_state ob al) \<and> as_version (al_state al') = as_version (previous_state ob al) + 1"
      and messages: "ar_messages res = (if al_broadcast_version (synchronize ob al) \<noteq> as_version (al_state al')
          \<or> ob_tick ob mod broadcast_interval (al_step_ms al') = 0 then map (broadcast_to al') (au_members au) else [])"
    have members: "set (au_members au) = set (ob_peers ob) - {agent}" using basis(1) agent by (simp add: au audience_spec)
    from ok' state(2) have published: "al_serialized al' = ser (P_State (al_state al'))"
        "as_sender (al_state al') = agent" "as_epoch (al_state al') = ob_epoch ob"
        "as_bids (al_state al') = map snd (al_own_bids al')"
      using basis agent by (simp_all add: allocator_ok_def published_ok_def)
    have last: "previous_state ob al = (if al_epoch al = ob_epoch ob \<and> al_map_version al = wd_map_version (ob_world ob)
        \<and> al_policy al = ob_policy ob then al_state al else empty_alloc_state)"
      "al_broadcast_version (synchronize ob al) = (if al_epoch al = ob_epoch ob
        \<and> al_map_version al = wd_map_version (ob_world ob) \<and> al_policy al = ob_policy ob then al_broadcast_version al else 0)"
      by (simp_all add: previous_state_def synchronize_def)
    have sent: "\<forall>m \<in> set (ar_messages res). nm_sender m = agent \<and> nm_recipient m \<in> set (ob_peers ob) - {agent}
        \<and> nm_version m = as_version (al_state al') \<and> nm_payload m = ser (P_State (al_state al'))"
    proof
      fix m
      assume "m \<in> set (ar_messages res)"
      then obtain p where p: "p \<in> set (au_members au)" "m = broadcast_to al' p"
        unfolding messages by (auto split: if_splits)
      from p(1) show "nm_sender m = agent \<and> nm_recipient m \<in> set (ob_peers ob) - {agent}
          \<and> nm_version m = as_version (al_state al') \<and> nm_payload m = ser (P_State (al_state al'))"
        unfolding members p(2) broadcast_to_def using basis(1) agent published(1) by simp
    qed
    have due: "nm_recipient ` set (ar_messages res) = set (ob_peers ob) - {agent}"
      if "al_broadcast_version (synchronize ob al) \<noteq> as_version (al_state al')
          \<or> ob_tick ob mod broadcast_interval (al_step_ms al') = 0"
      using that members unfolding messages by (simp add: broadcast_to_def image_image)
    show ?thesis
      unfolding Let_def last [symmetric] state(1) by (intro conjI impI published change sent due)
  qed
qed

theorem published_state_versioned_witness:
  "\<exists>al res al'. update_allocator (\<lambda>_. ''s'') (\<lambda>_. None) alone al = Inr (res, al')
     \<and> length (ar_messages res) = 1
     \<and> (\<forall>m \<in> set (ar_messages res). nm_recipient m = ''w'' \<and> nm_version m = as_version (ar_state res))"
proof -
  obtain al res al' where run: "reachable_allocator (\<lambda>_. ''s'') (\<lambda>_. None) ''v'' al"
    "update_allocator (\<lambda>_. ''s'') (\<lambda>_. None) alone al = Inr (res, al')" "length (ar_messages res) = 1"
    by (rule alone_run)
  from published_state_versioned [OF run(1,2)]
  have "\<forall>m \<in> set (ar_messages res). nm_recipient m = ''w'' \<and> nm_version m = as_version (ar_state res)"
    unfolding Let_def by (auto simp: alone_def)
  with run show ?thesis by (intro exI conjI)
qed

end
