(* ===== verification/Allocation_Detour.thy ===== *)
theory Allocation_Detour
  imports Allocation_Laws Sim_Actions
begin

text \<open>
  Two components that disagree. \<open>best_insertion\<close> reports the distance an inserted task adds to the
  bundle. \<open>astar\<close> minimises the distance weighted by terrain, so the way to a task may lead around
  difficult terrain, and a second task inside that terrain shortens the bundle: the bid then carries a
  negative distance. Both the simulator's admission of actions (\<^verbatim>\<open>core/src/simulator.cpp\<close>, line 542)
  and the peers' \<open>validate_bid\<close> (\<^verbatim>\<open>agent/src/allocation.cpp\<close>, line 441) refuse such a bid, and the
  former ends the run.
\<close>

subsection \<open>Admission refuses negative distances\<close>

lemma valid_bid_distance: "valid_bid s a b = Inr True \<Longrightarrow> 0 \<le> bd_distance b"
  by (auto simp: valid_bid_def split: if_splits)

lemma check_bids_distance:
  assumes "check_bids s sender a = Inr u"
  shows "\<forall>b \<in> set (as_bids a). 0 \<le> bd_distance b"
proof -
  let ?p = "\<lambda>b. bindR (valid_bid s a b) (\<lambda>ok. Inr (ok \<and> bd_bidder b = sender))"
  from assms have "allR ?p (as_bids a) = Inr True"
    by (cases "allR ?p (as_bids a)") (auto simp: check_bids_def split: if_splits)
  then show ?thesis by (auto simp: allR_eq_True dest!: bspec intro!: valid_bid_distance)
qed

lemma mapiR_each: "mapiR f i xs = Inr ys \<Longrightarrow> x \<in> set xs \<Longrightarrow> \<exists>j y. f j x = Inr y"
  by (induction xs arbitrary: i ys) auto

lemma canonicalize_distance:
  assumes "canonicalize_actions ser s acts = Inr acts'" and "e \<in> set (ab_actions acts)"
    and "aa_alloc (en_action e) = Some st"
  shows "\<forall>b \<in> set (as_bids st). 0 \<le> bd_distance b"
proof -
  from assms(1) obtain es where "mapiR (canonical_envelope ser s) 0 (sort_key en_sender (ab_actions acts)) = Inr es"
    by (auto simp: canonicalize_actions_def split: if_splits)
  from mapiR_each [OF this, of e] assms(2) obtain j y where "canonical_envelope ser s j e = Inr y" by auto
  moreover have "aa_alloc (sort_action (en_action e)) = Some (sort_alloc_state st)"
    using assms(3) by (simp add: sort_action_def)
  ultimately have "\<exists>u. check_bids s (en_sender e) (sort_alloc_state st) = Inr u"
    by (auto simp: canonical_envelope_def check_alloc_state_def Let_def)
  then show ?thesis using check_bids_distance by (force simp: sort_alloc_state_def)
qed

subsection \<open>A world with a detour\<close>

text \<open>A patch of mud between the vehicle and the task \<open>z\<close>, and the task \<open>a\<close> in the mud.\<close>

definition mud_world :: world where
  "mud_world = \<lparr>wd_width = 2, wd_height = 1,
     wd_regions = [\<lparr>rg_id = ''mud'', rg_kind = RK_Terrain, rg_min = \<lparr>px = 1, py = 0\<rparr>,
                    rg_max = \<lparr>px = 1, py = 0\<rparr>, rg_terrain = ''mud'', rg_mult = 9000, rg_closed = False\<rparr>],
     wd_cell = 1, wd_map_version = 1, wd_locations = []\<rparr>"

definition mud_vehicle :: vehicle_state where
  "mud_vehicle = demo_vehicle\<lparr>vs_terrain := [''mud'']\<rparr>"

definition mud_task :: "string \<Rightarrow> i64 \<Rightarrow> u32 \<Rightarrow> task_state" where
  "mud_task i x priority = demo_task\<lparr>ts_id := i, ts_target := \<lparr>px = x, py = 0\<rparr>, ts_priority := priority,
     ts_deadline := 60, ts_service := 0\<rparr>"

definition mud_observation :: observation where
  "mud_observation = alone\<lparr>ob_self := mud_vehicle, ob_world := mud_world, ob_policy := AP_Sentinel_Cbba,
     ob_known := [mud_task ''a'' 1 1, mud_task ''z'' 2 2]\<rparr>"

lemma mud_evaluates:
  "(case bindR (new_allocator ''v'') (update_allocator (\<lambda>_. ''s'') (\<lambda>_. None) mud_observation) of
      Inr (res, al) \<Rightarrow> map (\<lambda>b. (bd_task b, bd_distance b)) (as_bids (ar_state res)) = [(''a'', -2), (''z'', 4)]
    | _ \<Rightarrow> False)"
  by code_simp

subsection \<open>Property\<close>

text \<open>C22: an allocator can bid a negative distance, and that ends the run. In a small world with one patch of difficult
  terrain, the first update of an allocator publishes a bid of distance -2; whatever the state of the simulator, a batch
  in which some agent reports that allocation state is answered with an exception, and no allocator accepts the state
  as a report.\<close>

theorem detour_bid_refused:
  "\<exists>al res al'. reachable_allocator (\<lambda>_. ''s'') (\<lambda>_. None) ''v'' al
     \<and> update_allocator (\<lambda>_. ''s'') (\<lambda>_. None) mud_observation al = Inr (res, al')
     \<and> (\<exists>b \<in> set (as_bids (ar_state res)). bd_distance b = - 2)
     \<and> (\<forall>ser s tick before after e a. \<exists>x. canonicalize_actions ser s
           \<lparr>ab_tick = tick, ab_actions = before @ e\<lparr>en_body := Body_action (a\<lparr>aa_alloc := Some (ar_state res)\<rparr>)\<rparr> # after\<rparr>
         = Inl x)
     \<and> (\<forall>peer tasks peers bidders members. validate_state peer tasks peers bidders members (ar_state res) = None)"
proof -
  obtain al where al: "new_allocator ''v'' = Inr al" by (simp add: new_allocator_def)
  with mud_evaluates obtain res al' where run: "update_allocator (\<lambda>_. ''s'') (\<lambda>_. None) mud_observation al = Inr (res, al')"
    and bids: "map (\<lambda>b. (bd_task b, bd_distance b)) (as_bids (ar_state res)) = [(''a'', -2), (''z'', 4)]"
    by (auto split: sum.splits)
  from bids have "\<exists>b \<in> set (as_bids (ar_state res)). bd_distance b = - 2" by auto
  then obtain b where b: "b \<in> set (as_bids (ar_state res))" "bd_distance b = - 2" by blast
  have "\<exists>x. canonicalize_actions ser s \<lparr>ab_tick = tick,
      ab_actions = before @ e\<lparr>en_body := Body_action (a\<lparr>aa_alloc := Some (ar_state res)\<rparr>)\<rparr> # after\<rparr> = Inl x"
    (is "\<exists>x. ?run = Inl x") for ser s tick before after e a
  proof (cases ?run)
    case (Inr acts')
    have "\<forall>c \<in> set (as_bids (ar_state res)). 0 \<le> bd_distance c"
      by (rule canonicalize_distance [OF Inr, of "e\<lparr>en_body := Body_action (a\<lparr>aa_alloc := Some (ar_state res)\<rparr>)\<rparr>"])
         (simp_all add: en_action_def)
    with b show ?thesis by force
  qed simp
  moreover have "validate_state peer tasks peers bidders members (ar_state res) = None" for peer tasks peers bidders members
  proof -
    have "\<not> valid_bids peer tasks bidders (sort_state (ar_state res))"
      using b by (force simp: valid_bids_def validate_bid_def sort_state_def split: option.splits)
    then show ?thesis by (simp add: validate_state_def Let_def)
  qed
  ultimately show ?thesis using made [OF al] run b by blast
qed

end
