(* ===== verification/Autonomy_Motion.thy ===== *)
theory Autonomy_Motion
  imports Autonomy Astar_Laws Sim_Trace Sim_Demo
begin

text \<open>
  The controller's velocity and the simulator's motion together: the distance to a waypoint on one axis, tick by tick.
  The controller asks for the least whole speed that covers what is left, the simulator limits it and rounds the way of
  a tick to whole millimetres. With ticks of at most a second the vehicle arrives, with longer ones it may swing around
  the waypoint for ever.
\<close>

subsection \<open>One tick\<close>

text \<open>What is left of the distance \<open>d\<close> after a tick in which the simulator carries the controller's velocity out.\<close>

definition left_after :: "sim \<Rightarrow> i64 \<Rightarrow> i64 \<Rightarrow> i64" where
  "left_after s speed d =
     d - step_delta s (fst (limit_velocity speed (velocity d speed (sc_step_ms (si_scenario s))) 0))"

lemma sdiv_neg: "(- a) sdiv b = - (a sdiv b)" for a b :: int
  by (simp add: signed_divide_int_def sgn_minus)

lemma velocity_neg: "velocity (- d) speed ms = - velocity d speed ms"
  by (simp add: velocity_def Let_def)

lemma velocity_nonneg:
  assumes "0 \<le> d" and "0 \<le> speed" and "0 < to_i64 ms"
  shows "velocity d speed ms = min speed ((d * 1000 + to_i64 ms - 1) div to_i64 ms)"
proof (cases "d = 0")
  case True
  have "(to_i64 ms - 1) div to_i64 ms = 0" using assms(3) by (intro div_pos_pos_trivial) simp_all
  with True assms(2) show ?thesis by (simp add: velocity_def)
next
  case False
  with assms show ?thesis by (simp add: velocity_def sdiv_div)
qed

lemma velocity_bounds:
  assumes "0 \<le> d" and "0 \<le> speed" and "0 < to_i64 ms"
  shows "0 \<le> velocity d speed ms" and "velocity d speed ms \<le> speed"
  using assms by (simp_all add: velocity_nonneg pos_imp_zdiv_nonneg_iff)

lemma limit_velocity_within:
  "abs v \<le> speed \<Longrightarrow> limit_velocity speed v 0 = (v, 0)"
  by (auto simp: limit_velocity_def axis_velocity_def Let_def)

lemma velocity_abs:
  assumes "0 \<le> speed" and "0 < to_i64 ms"
  shows "abs (velocity d speed ms) \<le> speed"
proof (cases "0 \<le> d")
  case True
  then show ?thesis using velocity_bounds [OF True assms] by simp
next
  case False
  then show ?thesis using velocity_bounds [of "- d", OF _ assms] velocity_neg [of d speed ms] by simp
qed

lemma left_after_delta:
  assumes "0 \<le> speed" and "0 < to_i64 (sc_step_ms (si_scenario s))"
  shows "left_after s speed d = d - step_delta s (velocity d speed (sc_step_ms (si_scenario s)))"
  using velocity_abs [OF assms, of d] by (simp add: left_after_def limit_velocity_within)

lemma left_after_neg:
  assumes "0 \<le> speed" and "0 < to_i64 (sc_step_ms (si_scenario s))"
  shows "left_after s speed (- d) = - left_after s speed d"
  by (simp add: left_after_delta [OF assms] velocity_neg step_delta_def sdiv_neg)

text \<open>The way of a tick at full speed, in whole millimetres.\<close>

definition stride :: "sim \<Rightarrow> i64 \<Rightarrow> i64" where
  "stride s speed = (speed * to_i64 (sc_step_ms (si_scenario s))) div 1000"

lemma int_div_less:
  fixes x y q :: int
  assumes "0 < q"
  shows "x div q < y \<longleftrightarrow> x < y * q"
proof -
  have x: "x = x div q * q + x mod q" "0 \<le> x mod q" "x mod q < q" using assms by simp_all
  show ?thesis
  proof
    assume "x div q < y"
    then have "(x div q + 1) * q \<le> y * q" using assms by (intro mult_right_mono) simp_all
    then have "x div q * q + q \<le> y * q" by (simp add: algebra_simps)
    then show "x < y * q" using x by linarith
  next
    assume "x < y * q"
    then have "x div q * q < y * q" using x(1,2) by linarith
    then show "x div q < y" using assms by simp
  qed
qed

lemma div_between: "1000 * d \<le> x \<Longrightarrow> x < 1000 * d + 1000 \<Longrightarrow> x div 1000 = d" for x d :: int
  using int_div_less [of 1000 x "d + 1"] int_div_less [of 1000 x d] by simp

lemma left_after_nonneg:
  assumes "0 \<le> d" and "0 \<le> speed" and "0 < to_i64 (sc_step_ms (si_scenario s))" and "to_i64 (sc_step_ms (si_scenario s)) \<le> 1000"
  shows "left_after s speed d = max 0 (d - stride s speed)"
proof -
  define m where "m = to_i64 (sc_step_ms (si_scenario s))"
  define need where "need = (d * 1000 + m - 1) div m"
  have m: "0 < m" "m \<le> 1000" using assms(3,4) by (simp_all add: m_def)
  have "m * need + (d * 1000 + m - 1) mod m = d * 1000 + m - 1" unfolding need_def by (rule mult_div_mod_eq)
  moreover have "0 \<le> (d * 1000 + m - 1) mod m" "(d * 1000 + m - 1) mod m < m" using m by simp_all
  ultimately have need: "d * 1000 \<le> m * need" "m * need < d * 1000 + m" by linarith+
  have v: "velocity d speed (sc_step_ms (si_scenario s)) = min speed need"
    using velocity_nonneg [OF assms(1-3)] by (simp add: need_def m_def)
  have n0: "0 \<le> need" using need(1) assms(1) m by (metis mult_nonneg_nonneg order_trans zero_le_mult_iff zero_le_numeral not_less)
  have delta: "step_delta s v = (v * m) div 1000" if "0 \<le> v" for v
    using that m by (simp add: step_delta_def m_def sdiv_div)
  show ?thesis
  proof (cases "need \<le> speed")
    case True
    have "(need * m) div 1000 = d"
      by (rule div_between) (use need m in \<open>simp_all add: mult.commute\<close>)
    moreover from this have "d \<le> stride s speed"
      using True m by (metis m_def mult_right_mono order_less_imp_le stride_def zdiv_mono1 zero_less_numeral)
    ultimately show ?thesis using True n0 v by (simp add: left_after_delta [OF assms(2,3)] delta)
  next
    case False
    then have "speed + 1 \<le> need" by simp
    then have "m * (speed + 1) \<le> m * need" using m by simp
    then have "speed * m < d * 1000" using need(2) by (simp add: algebra_simps)
    then have "(speed * m) div 1000 < d" by (simp add: int_div_less)
    then show ?thesis using False assms(2) v
      by (simp add: left_after_delta [OF assms(2,3)] delta stride_def m_def [symmetric])
  qed
qed

subsection \<open>Many ticks\<close>

lemma left_after_either:
  assumes "0 \<le> speed" and "0 < to_i64 (sc_step_ms (si_scenario s))" and "to_i64 (sc_step_ms (si_scenario s)) \<le> 1000"
  shows "left_after s speed d = sgn d * max 0 (abs d - stride s speed)"
proof (cases "0 \<le> d")
  case True
  have "0 \<le> stride s speed" using assms by (simp add: stride_def pos_imp_zdiv_nonneg_iff)
  with True show ?thesis using left_after_nonneg [OF True assms] by (auto simp: sgn_if)
next
  case False
  then show ?thesis using left_after_nonneg [of "- d", OF _ assms] left_after_neg [OF assms(1,2), of d] by simp
qed

lemma left_after_ticks:
  assumes "0 \<le> speed" and "0 < to_i64 (sc_step_ms (si_scenario s))" and "to_i64 (sc_step_ms (si_scenario s)) \<le> 1000"
  shows "(left_after s speed ^^ k) d = sgn d * max 0 (abs d - int k * stride s speed)"
proof (induction k)
  case 0
  then show ?case by (simp add: sgn_mult_abs)
next
  case (Suc k)
  have "0 \<le> stride s speed" using assms by (simp add: stride_def pos_imp_zdiv_nonneg_iff)
  then show ?case using Suc by (auto simp: left_after_either [OF assms] sgn_if max_def algebra_simps)
qed

lemma ceiling_steps:
  fixes d q :: int
  assumes "1 \<le> q" and "0 \<le> d"
  shows "d - int k * q \<le> 0 \<longleftrightarrow> nat ((d + q - 1) div q) \<le> k"
proof -
  have "nat ((d + q - 1) div q) \<le> k \<longleftrightarrow> (d + q - 1) div q < int k + 1" by linarith
  also have "\<dots> \<longleftrightarrow> d + q - 1 < (int k + 1) * q" by (rule int_div_less) (use assms(1) in simp)
  also have "\<dots> \<longleftrightarrow> d - int k * q \<le> 0" by (auto simp: algebra_simps)
  finally show ?thesis ..
qed

lemma arrival:
  assumes "0 < to_i64 (sc_step_ms (si_scenario s))" and "to_i64 (sc_step_ms (si_scenario s)) \<le> 1000"
    and "1000 \<le> speed * to_i64 (sc_step_ms (si_scenario s))"
  shows "(left_after s speed ^^ k) d = 0 \<longleftrightarrow> nat ((abs d + stride s speed - 1) div stride s speed) \<le> k"
proof -
  have "0 \<le> speed" using assms(1,3) by (metis less_le_trans mult_less_0_iff not_le not_less_iff_gr_or_eq zero_less_numeral)
  note left = left_after_ticks [OF this assms(1,2)]
  have q: "1 \<le> stride s speed" using zdiv_mono1 [OF assms(3), of 1000] by (simp add: stride_def)
  have "(left_after s speed ^^ k) d = 0 \<longleftrightarrow> abs d - int k * stride s speed \<le> 0"
    unfolding left using q by (cases "d = 0") (auto simp: sgn_0_0 max_def)
  then show ?thesis using ceiling_steps [OF q abs_ge_zero, of d k] by simp
qed

lemma word_to_u64: "0 \<le> x \<Longrightarrow> x < 2 ^ 64 \<Longrightarrow> uint (to_u64 x) = x"
  by (simp add: to_u64_def uint_word_of_int take_bit_int_eq_self)

text \<open>The planner's estimate without wrap-around.\<close>

lemma edge_ticks_exact:
  assumes "0 \<le> d" and "d * 1000 < 2 ^ 63" and "0 < vs_speed v" and "0 < uint ms" and "vs_speed v * uint ms < 2 ^ 64"
  shows "uint (edge_ticks d v ms) = (d * 1000 + vs_speed v * uint ms - 1) div (vs_speed v * uint ms)"
proof -
  define n where "n = d * 1000"
  define q where "q = vs_speed v * uint ms"
  have q: "0 < q" "q < 2 ^ 64" using assms by (simp_all add: q_def)
  have n: "0 \<le> n" "n < 2 ^ 63" using assms by (simp_all add: n_def)
  have "uint (to_u64 d) = d" using assms by (intro word_to_u64) simp_all
  then have un: "uint (to_u64 d * 1000) = n"
    using n by (simp add: uint_mult_lem [THEN iffD1] n_def uint_word_ariths take_bit_eq_mod)
  have "vs_speed v \<le> vs_speed v * uint ms" using assms(3,4) by simp
  then have "vs_speed v < 2 ^ 64" using assms(5) by linarith
  then have "uint (to_u64 (vs_speed v)) = vs_speed v" using assms(3) by (intro word_to_u64) simp_all
  then have uq: "uint (to_u64 (vs_speed v) * ms) = q"
    using q by (simp add: q_def uint_word_ariths take_bit_eq_mod)
  have quot: "uint ((to_u64 d * 1000) div (to_u64 (vs_speed v) * ms)) = n div q" by (simp add: uint_div un uq)
  have "uint ((to_u64 d * 1000) mod (to_u64 (vs_speed v) * ms)) = n mod q" by (simp add: uint_mod un uq)
  then have rest: "(to_u64 d * 1000) mod (to_u64 (vs_speed v) * ms) = 0 \<longleftrightarrow> n mod q = 0" by (simp flip: uint_0_iff)
  have "n div q \<le> n" using zdiv_mono2 [of n 1 q] n q by simp
  moreover have "0 \<le> n div q" using n q by (simp add: pos_imp_zdiv_nonneg_iff)
  ultimately have "uint ((to_u64 d * 1000) div (to_u64 (vs_speed v) * ms) + (if (to_u64 d * 1000) mod (to_u64 (vs_speed v) * ms) \<noteq> 0 then 1 else 0))
      = n div q + (if n mod q \<noteq> 0 then 1 else 0)"
    using n unfolding rest by (simp add: uint_word_ariths take_bit_eq_mod quot)
  then have "uint (edge_ticks d v ms) = n div q + (if n mod q \<noteq> 0 then 1 else 0)"
    by (simp add: edge_ticks_def Let_def)
  also have "\<dots> = (n + q - 1) div q"
  proof -
    have split: "n = n mod q + n div q * q" by simp
    have "(n + q - 1) div q = (n mod q + q - 1 + n div q * q) div q" using split by (simp add: algebra_simps)
    also have "\<dots> = n div q + (n mod q + q - 1) div q" using q by simp
    finally have e: "(n + q - 1) div q = n div q + (n mod q + q - 1) div q" .
    show ?thesis
    proof (cases "n mod q = 0")
      case True
      then show ?thesis using e q by (simp add: div_pos_pos_trivial)
    next
      case False
      then have "0 < n mod q" "n mod q < q" using q pos_mod_sign [of q n] pos_mod_bound [of q n] by linarith+
      then have "(n mod q - 1) div q = 0" by (intro div_pos_pos_trivial) simp_all
      then have "(n mod q - 1 + 1 * q) div q = 1" using q by (subst div_mult_self1) simp_all
      then show ?thesis using e False by (simp add: algebra_simps)
    qed
  qed
  finally show ?thesis by (simp add: n_def q_def)
qed

lemma short_tick:
  assumes "1 \<le> ms" and "ms \<le> 1000"
  shows "to_i64 ms = uint ms" and "0 < uint ms" and "uint ms \<le> 1000"
proof -
  from assms show "0 < uint ms" and small: "uint ms \<le> 1000" by (simp_all add: word_le_def)
  show "to_i64 ms = uint ms" unfolding to_i64_def by (rule sint_small) (use small in simp)
qed

subsection \<open>Arrival\<close>

text \<open>C25: with ticks of at most a second a vehicle arrives at its waypoint. A vehicle that can move at least a
  millimetre in a tick, driven by the controller's velocity and not held up, comes nearer by its stride in every tick,
  never passes the waypoint, stands exactly on it after the number of strides the distance takes, rounded up, and not
  before, and stays there.\<close>

theorem waypoint_reached:
  assumes "1 \<le> sc_step_ms (si_scenario s)" and "sc_step_ms (si_scenario s) \<le> 1000"
    and "1000 \<le> speed * to_i64 (sc_step_ms (si_scenario s))"
  shows "(left_after s speed ^^ k) d = sgn d * max 0 (abs d - int k * stride s speed)
     \<and> ((left_after s speed ^^ k) d = 0 \<longleftrightarrow> nat ((abs d + stride s speed - 1) div stride s speed) \<le> k)"
proof -
  note ms = short_tick [OF assms(1,2)]
  have "0 < to_i64 (sc_step_ms (si_scenario s))" "to_i64 (sc_step_ms (si_scenario s)) \<le> 1000" using ms by simp_all
  moreover from this(1) have "0 \<le> speed"
    using assms(3) by (metis less_le_trans mult_less_0_iff not_le not_less_iff_gr_or_eq zero_less_numeral)
  ultimately show ?thesis using left_after_ticks arrival assms(3) by blast
qed

lemma demo_step_ms:
  assumes "new_simulator (\<lambda>_. []) demo_pair = Inr s"
  shows "sc_step_ms (si_scenario s) = 100"
proof -
  have "run_ok (normalize_scenario demo_pair) s" using reachable_run [OF reachable.start [OF assms]] by blast
  moreover have "sc_step_ms (normalize_scenario demo_pair) = 100" by code_simp
  ultimately show ?thesis by (simp add: run_ok_def)
qed

theorem waypoint_reached_witness:
  "\<exists>s. new_simulator (\<lambda>_. []) demo_pair = Inr s \<and> (left_after s 30 ^^ 3) (-10) = -1 \<and> (left_after s 30 ^^ 4) (-10) = 0"
proof -
  obtain s where s: "new_simulator (\<lambda>_. []) demo_pair = Inr s" by (rule demo_runs)
  have ms: "to_i64 (sc_step_ms (si_scenario s)) = 100" by (simp add: demo_step_ms [OF s] to_i64_def)
  then have q: "stride s 30 = 3" by (simp add: stride_def)
  from waypoint_reached [of s 30 3 "-10"] waypoint_reached [of s 30 4 "-10"] s show ?thesis
    by (intro exI [of _ s]) (simp add: demo_step_ms [OF s] q to_i64_def)
qed

text \<open>When ticks are no longer than a second and the stride of a vehicle is a whole number of millimetres, the planner's
  estimate is exact: the vehicle stands on a waypoint at distance \<open>d\<close> after \<open>edge_ticks\<close> ticks and not before.\<close>

theorem arrival_as_planned:
  assumes "1 \<le> sc_step_ms (si_scenario s)" and "sc_step_ms (si_scenario s) \<le> 1000"
    and "0 < vs_speed v" and "vs_speed v \<le> max_speed_mm_s" and "1000 dvd vs_speed v * to_i64 (sc_step_ms (si_scenario s))"
    and "0 \<le> d" and "d \<le> max_world_mm"
  shows "(left_after s (vs_speed v) ^^ k) d = 0 \<longleftrightarrow> unat (edge_ticks d v (sc_step_ms (si_scenario s))) \<le> k"
proof -
  note ms = short_tick [OF assms(1,2)]
  define q where "q = vs_speed v * uint (sc_step_ms (si_scenario s))"
  have q0: "0 < q" using assms(3) ms by (simp add: q_def)
  have whole: "q = stride s (vs_speed v) * 1000" using assms(5) ms by (simp add: stride_def q_def)
  have "q \<le> max_speed_mm_s * 1000" unfolding q_def using assms(3,4) ms by (intro mult_mono) simp_all
  then have q64: "q < 2 ^ 64" by (simp add: max_speed_mm_s_def)
  have d63: "d * 1000 < 2 ^ 63" using assms(7) by (simp add: max_world_mm_def)
  have "uint (edge_ticks d v (sc_step_ms (si_scenario s))) = (d * 1000 + q - 1) div q"
    using edge_ticks_exact [OF assms(6) d63 assms(3) ms(2)] q64 by (simp add: q_def)
  then have "unat (edge_ticks d v (sc_step_ms (si_scenario s))) \<le> k \<longleftrightarrow> d * 1000 - int k * q \<le> 0"
    using ceiling_steps [of q "d * 1000" k] q0 assms(6) by (simp flip: nat_uint_eq)
  also have "\<dots> \<longleftrightarrow> d - int k * stride s (vs_speed v) \<le> 0" unfolding whole by (simp add: algebra_simps)
  also have "\<dots> \<longleftrightarrow> nat ((d + stride s (vs_speed v) - 1) div stride s (vs_speed v)) \<le> k"
    by (rule ceiling_steps) (use whole q0 assms(6) in simp_all)
  finally show ?thesis
    using arrival [of s "vs_speed v" k d] ms whole q0 assms(6) by (simp add: q_def)
qed

theorem arrival_as_planned_witness:
  "\<exists>s. new_simulator (\<lambda>_. []) demo_pair = Inr s \<and> (left_after s 30 ^^ 4) 10 = 0
     \<and> unat (edge_ticks 10 (demo_vehicle\<lparr>vs_speed := 30\<rparr>) 100) = 4"
proof -
  obtain s where s: "new_simulator (\<lambda>_. []) demo_pair = Inr s" by (rule demo_runs)
  let ?v = "demo_vehicle\<lparr>vs_speed := 30\<rparr>"
  have ms: "sc_step_ms (si_scenario s) = 100" by (rule demo_step_ms [OF s])
  have e: "unat (edge_ticks 10 ?v 100) = 4" by (simp add: edge_ticks_def to_u64_def Let_def)
  from arrival_as_planned [of s ?v 10 4] e s show ?thesis
    by (intro exI [of _ s]) (simp add: ms to_i64_def max_speed_mm_s_def max_world_mm_def)
qed

text \<open>C26: two ways in which accepted scenarios miss it. With ticks of three seconds, which the scenario check accepts,
  the least whole speed that covers the rest carries the vehicle past the waypoint: from one millimetre away, whatever
  its speed, and from a metre away at two metres a second it swings around the waypoint for ever. And where the stride is
  not whole the planner counts the fraction that the simulator drops: at 15 mm/s and ticks of 100 ms it allows 667 ticks
  for a metre, after which a third of the way is left.\<close>

theorem waypoint_missed:
  "(\<exists>s. new_simulator (\<lambda>_. []) (demo_pair\<lparr>sc_step_ms := 3000\<rparr>) = Inr s
       \<and> (\<forall>n k. (left_after s (1 + int n) ^^ k) 1 \<noteq> 0) \<and> (\<forall>k. (left_after s 2000 ^^ k) 1000 \<noteq> 0))
   \<and> (\<exists>s. new_simulator (\<lambda>_. []) demo_pair = Inr s
       \<and> unat (edge_ticks 1000 (demo_vehicle\<lparr>vs_speed := 15\<rparr>) (sc_step_ms (si_scenario s))) = 667
       \<and> (left_after s 15 ^^ 667) 1000 = 333)"
proof -
  have build: "holds (\<lambda>s. True) (build_sim (demo_pair\<lparr>sc_step_ms := 3000\<rparr>))" by code_simp
  then obtain s where s: "new_simulator (\<lambda>_. []) (demo_pair\<lparr>sc_step_ms := 3000\<rparr>) = Inr s"
    by (auto dest!: holdsD simp: new_simulator_def)
  have "run_ok (normalize_scenario (demo_pair\<lparr>sc_step_ms := 3000\<rparr>)) s" using reachable_run [OF reachable.start [OF s]] by blast
  moreover have "sc_step_ms (normalize_scenario (demo_pair\<lparr>sc_step_ms := 3000\<rparr>)) = 3000" by code_simp
  ultimately have ms: "to_i64 (sc_step_ms (si_scenario s)) = 3000" by (simp add: run_ok_def to_i64_def)
  have one: "left_after s speed 1 = -2" "left_after s speed (-2) = 1" if "1 \<le> speed" for speed
    using that left_after_neg [of speed s 2] ms
    by (simp_all add: left_after_delta velocity_nonneg step_delta_def sdiv_div)
  have swing: "(left_after s (1 + int n) ^^ k) 1 \<in> {1, -2}" for n k
    by (induction k) (use one [of "1 + int n"] in auto)
  have "left_after s 2000 1000 = -2"
    using ms by (simp add: left_after_delta velocity_nonneg step_delta_def sdiv_div)
  then have "(left_after s 2000 ^^ k) 1000 \<in> {1000, 1, -2}" for k
    by (induction k) (use one [of 2000] in auto)
  with swing have wide: "(\<forall>n k. (left_after s (1 + int n) ^^ k) 1 \<noteq> 0) \<and> (\<forall>k. (left_after s 2000 ^^ k) 1000 \<noteq> 0)"
    by (metis insertE empty_iff neg_equal_0_iff_equal zero_neq_numeral zero_neq_one)
  obtain t where t: "new_simulator (\<lambda>_. []) demo_pair = Inr t" by (rule demo_runs)
  have tms: "sc_step_ms (si_scenario t) = 100" by (rule demo_step_ms [OF t])
  have "unat (edge_ticks 1000 (demo_vehicle\<lparr>vs_speed := 15\<rparr>) 100) = 667"
    by (simp add: edge_ticks_def to_u64_def Let_def)
  moreover have "(left_after t 15 ^^ 667) 1000 = 333"
    by (subst left_after_ticks) (simp_all add: tms to_i64_def stride_def)
  ultimately show ?thesis using s wide t tms by auto
qed

subsection \<open>The queue at a chokepoint\<close>

lemma next_slot_absent:
  assumes "\<forall>r \<in> set (ob_reservations ob). sr_resource r \<noteq> resource"
  shows "next_slot ob resource = ob_tick ob + 1"
proof -
  have "foldl (\<lambda>start r. if sr_resource r = resource \<and> sr_end r \<ge> start then sr_end r + 1 else start) x rs = x"
    if "\<forall>r \<in> set rs. sr_resource r \<noteq> resource" for x rs
    using that by (induction rs) auto
  then show ?thesis using assms by (simp add: next_slot_def)
qed

text \<open>C35: the slot a controller asks for is not behind the committed queue. The observation shows an agent its own
  windows only, so with none of its own at a chokepoint it always asks for the next tick, however far the windows of
  other agents reach.\<close>

theorem slot_ignores_others:
  assumes "observe_vehicle s index v = Inr e" and "en_body e = Body_observation ob"
    and "\<forall>r \<in> set (tb_committed (si_table s)). rv_agent r = vh_id v \<longrightarrow> rv_resource r \<noteq> resource"
  shows "next_slot ob resource = si_tick s + 1"
proof -
  have "ob_reservations ob = map copy_reservation (filter (\<lambda>r. rv_agent r = vh_id v) (tb_committed (si_table s)))"
    and tick: "ob_tick ob = si_tick s"
    using assms(1,2) by (auto simp: observe_vehicle_def Let_def)
  then have "\<forall>r \<in> set (ob_reservations ob). sr_resource r \<noteq> resource" using assms(3) by (auto simp: copy_reservation_def)
  from next_slot_absent [OF this] tick show ?thesis by simp
qed

definition far_window :: reservation where
  "far_window = \<lparr>rv_resource = ''gate'', rv_agent = ''b'', rv_start = 0, rv_end = 50, rv_version = 1, rv_route = 1, rv_map = 1\<rparr>"

definition far_queue :: "sim \<Rightarrow> sim" where
  "far_queue s = s\<lparr>si_table := (si_table s)\<lparr>tb_committed := [far_window]\<rparr>\<rparr>"

lemma far_queue_observes:
  "holds (\<lambda>s. vh_id (si_vehicles s ! 0) = ''a'' \<and>
     holds (\<lambda>e. case en_body e of Body_observation ob \<Rightarrow> True | _ \<Rightarrow> False) (observe_vehicle (far_queue s) 0 (si_vehicles s ! 0)))
     (build_sim demo_pair)"
  by code_simp

theorem slot_ignores_others_witness:
  "\<exists>s e ob. build_sim demo_pair = Inr s \<and> observe_vehicle (far_queue s) 0 (si_vehicles s ! 0) = Inr e \<and> en_body e = Body_observation ob
     \<and> far_window \<in> set (tb_committed (si_table (far_queue s))) \<and> next_slot ob ''gate'' = si_tick s + 1"
proof -
  from holdsD [OF far_queue_observes] obtain s where s: "build_sim demo_pair = Inr s" "vh_id (si_vehicles s ! 0) = ''a''"
    and shown: "holds (\<lambda>e. case en_body e of Body_observation ob \<Rightarrow> True | _ \<Rightarrow> False) (observe_vehicle (far_queue s) 0 (si_vehicles s ! 0))"
    by blast
  from holdsD [OF shown] obtain e where e1: "observe_vehicle (far_queue s) 0 (si_vehicles s ! 0) = Inr e"
    and body: "case en_body e of Body_observation ob \<Rightarrow> True | _ \<Rightarrow> False" by blast
  from body obtain ob where "en_body e = Body_observation ob" by (cases "en_body e") simp_all
  note e = e1 this
  have "next_slot ob ''gate'' = si_tick (far_queue s) + 1"
    by (rule slot_ignores_others [OF e]) (simp add: far_queue_def far_window_def s(2))
  with s e show ?thesis by (auto simp: far_queue_def)
qed

end
