(* ===== verification/Autonomy_Routes.thy ===== *)
theory Autonomy_Routes
  imports Autonomy_Laws
begin

text \<open>
  The route cache of a controller: what \<open>Synchronize\<close> throws away is enough. A cached route depends on the world, on
  the vehicle's speed, cost and terrain, and on the length of a tick, and on nothing else; as long as the version of
  the map tells worlds apart, every route the controller uses is the one the planner finds at that moment.
\<close>

subsection \<open>What a route depends on\<close>

definition same_dynamics :: "vehicle_state \<Rightarrow> vehicle_state \<Rightarrow> bool" where
  "same_dynamics v v' \<longleftrightarrow> vs_speed v = vs_speed v' \<and> vs_cost v = vs_cost v' \<and> vs_terrain v = vs_terrain v'"

lemma same_dynamics_segment: "same_dynamics v v' \<Longrightarrow> segment_allowed w v = segment_allowed w v'"
  by (intro ext) (simp add: same_dynamics_def segment_allowed_def region_stops_def has_terrain_def)

lemma same_dynamics_energy: "same_dynamics v v' \<Longrightarrow> motion_energy v = motion_energy v'"
  by (intro ext) (simp add: same_dynamics_def motion_energy_def)

lemma same_dynamics_ticks: "same_dynamics v v' \<Longrightarrow> edge_ticks d v = edge_ticks d v'"
  by (intro ext) (simp add: same_dynamics_def edge_ticks_def)

lemma same_dynamics_grid:
  "same_dynamics v v' \<Longrightarrow> astar_grid w v' start goal = (astar_grid w v start goal)\<lparr>gr_vehicle := v'\<rparr>"
  by (simp add: astar_grid_def Let_def)

lemma search_vehicle:
  assumes "same_dynamics (gr_vehicle g) v'"
  shows "search (g\<lparr>gr_vehicle := v'\<rparr>) = search g"
proof -
  have n: "neighbour (g\<lparr>gr_vehicle := v'\<rparr>) = neighbour g"
    by (intro ext) (simp add: neighbour_def Let_def same_dynamics_segment [OF assms])
  have h: "heuristic (g\<lparr>gr_vehicle := v'\<rparr>) = heuristic g"
    by (intro ext) (simp add: heuristic_def)
  have "relax (g\<lparr>gr_vehicle := v'\<rparr>) = relax g"
    by (intro ext) (simp add: relax_def n h Let_def split: option.split)
  then have "search_turn (g\<lparr>gr_vehicle := v'\<rparr>) = search_turn g"
    by (intro ext) (simp add: search_turn_def Let_def split: list.split)
  moreover have "search_init (g\<lparr>gr_vehicle := v'\<rparr>) = search_init g"
    by (simp add: search_init_def h)
  ultimately show ?thesis by (simp add: search_def)
qed

lemma astar_vehicle:
  assumes "same_dynamics v v'"
  shows "astar w v start goal step_ms = astar w v' start goal step_ms"
proof -
  have leg: "add_leg w v step_ms = add_leg w v' step_ms"
    by (intro ext) (simp add: add_leg_def same_dynamics_energy [OF assms] same_dynamics_ticks [OF assms])
  have speed: "vs_speed v = vs_speed v'" using assms by (simp add: same_dynamics_def)
  have found: "search ((astar_grid w v start goal)\<lparr>gr_vehicle := v'\<rparr>) = search (astar_grid w v start goal)"
    by (rule search_vehicle) (use assms in \<open>simp add: astar_grid_def Let_def\<close>)
  show ?thesis
    unfolding astar_def speed same_dynamics_segment [OF assms] build_route_def leg same_dynamics_grid [OF assms]
    by (simp add: Let_def found)
qed

subsection \<open>One tick\<close>

text \<open>The controller knows the world and the vehicle of an observation, and its cache is fresh there.\<close>

definition remembers :: "observation \<Rightarrow> controller \<Rightarrow> bool" where
  "remembers ob c \<longleftrightarrow>
     ct_map c = wd_map_version (ob_world ob) \<and> ct_speed c = vs_speed (ob_self ob) \<and> ct_cost c = vs_cost (ob_self ob)
     \<and> ct_terrain c = vs_terrain (ob_self ob) \<and> ct_step_ms c = ob_step_ms ob \<and> routes_fresh ob (ct_cache c)"

lemma remembers_reserve: "remembers ob (snd (reserve_way ob' current nxt ahead c)) = remembers ob c"
  by (auto simp: remembers_def reserve_way_def Let_def split: option.split)

interpretation remembers_kept: writes_keep ob "remembers ob" for ob
  by unfold_locales
    (auto simp: remembers_def only_cache_fields only_cache_fresh remembers_reserve [unfolded remembers_def] write_defs
      split: option.splits)

lemma routes_fresh_empty [simp]: "routes_fresh ob Map.empty"
  by (simp add: routes_fresh_def)

text \<open>The controller before its first tick, or after one that saw the given observation.\<close>

definition informed :: "observation option \<Rightarrow> controller \<Rightarrow> bool" where
  "informed prev c \<longleftrightarrow>
     (case prev of None \<Rightarrow> ct_map c = 0 \<and> ct_speed c = 0 \<and> ct_cache c = Map.empty
      | Some ob \<Rightarrow> remembers ob c \<and> wd_map_version (ob_world ob) \<noteq> 0 \<and> vs_speed (ob_self ob) \<noteq> 0)"

lemma report_failures_knowledge:
  "remembers ob (foldl report_failure c ds) = remembers ob c" "ct_cache (foldl report_failure c ds) = ct_cache c"
  "ct_speed (foldl report_failure c ds) = ct_speed c" "ct_cost (foldl report_failure c ds) = ct_cost c"
  "ct_terrain (foldl report_failure c ds) = ct_terrain c" "ct_step_ms (foldl report_failure c ds) = ct_step_ms c"
  by (induction ds arbitrary: c) (auto simp: report_failure_def remembers_def)

lemma knowledge_frames:
  "remembers ob (invalidate reason b c) = remembers ob c" "remembers ob (expire_request ob' c) = remembers ob c"
  by (auto simp: remembers_def invalidate_def clear_route_def expire_request_def Let_def split: option.splits)

lemma synchronize_informed:
  assumes "synchronize_controller ob c = Inr (ok, c')" and "informed prev c"
    and "\<And>p. prev = Some p \<Longrightarrow> wd_map_version (ob_world p) = wd_map_version (ob_world ob) \<Longrightarrow> ob_world p = ob_world ob"
  shows "remembers ob c'"
proof -
  define c2 where "c2 = foldl report_failure (set_mode BM_Idle (c\<lparr>ct_task := None, ct_handled := False,
    ct_energy_short := False, ct_allocation_pending := False, ct_candidate := None\<rparr>)\<lparr>ct_reason := RR_Unspecified\<rparr>) (ob_detections ob)"
  define stale where "stale \<longleftrightarrow> (ct_map c2 \<noteq> 0 \<and> ct_map c2 \<noteq> wd_map_version (ob_world ob)) \<or> dynamics_changed ob c2"
  have same: "ct_map c2 = ct_map c" "ct_speed c2 = ct_speed c" "ct_cost c2 = ct_cost c" "ct_terrain c2 = ct_terrain c"
    "ct_step_ms c2 = ct_step_ms c" "ct_cache c2 = ct_cache c"
    unfolding c2_def by (simp_all add: report_failures_frame report_failures_knowledge set_mode_def)
  have fresh: "routes_fresh ob (if stale then Map.empty else ct_cache c2)"
  proof (cases "stale \<or> prev = None")
    case True
    then show ?thesis using assms(2) same by (auto simp: informed_def)
  next
    case False
    then obtain p where p: "prev = Some p" by blast
    with assms(2) have r: "remembers p c" and nz: "wd_map_version (ob_world p) \<noteq> 0" "vs_speed (ob_self p) \<noteq> 0"
      by (auto simp: informed_def)
    have version: "wd_map_version (ob_world p) = wd_map_version (ob_world ob)"
      and dyn: "\<not> dynamics_changed ob c2"
      using False r nz same by (auto simp: stale_def remembers_def)
    have v: "same_dynamics (ob_self p) (ob_self ob)" and ms: "ob_step_ms p = ob_step_ms ob"
      using dyn r nz same by (auto simp: dynamics_changed_def same_dynamics_def remembers_def Let_def)
    have "routes_fresh ob (ct_cache c)"
      using r assms(3) [OF p version] ms unfolding remembers_def routes_fresh_def astar_vehicle [OF v] by simp
    then show ?thesis using False same by simp
  qed
  define c3 where "c3 = c2\<lparr>ct_map_changed := (ct_map c2 \<noteq> 0 \<and> ct_map c2 \<noteq> wd_map_version (ob_world ob)),
      ct_cache := (if stale then Map.empty else ct_cache c2),
      ct_speed := vs_speed (ob_self ob), ct_capacity := vs_capacity (ob_self ob), ct_cost := vs_cost (ob_self ob),
      ct_step_ms := ob_step_ms ob, ct_terrain := vs_terrain (ob_self ob), ct_map := wd_map_version (ob_world ob),
      ct_task := current_task ob (ct_agent c2)\<rparr>"
  have "remembers ob c3" using fresh by (simp add: c3_def remembers_def)
  moreover have "c' = expire_request ob
      (if ct_route c3 \<noteq> None \<and> route_trouble ob (dynamics_changed ob c2) c3 \<noteq> RR_Unspecified
       then invalidate (route_trouble ob (dynamics_changed ob c2) c3) True c3 else c3)"
    using assms(1) unfolding synchronize_controller_def Let_def c2_def [symmetric] stale_def [symmetric] c3_def [symmetric]
    by simp
  ultimately show ?thesis by (simp add: knowledge_frames)
qed

subsection \<open>The routes are the planner's\<close>

lemma travel_ticks_edge: "travel_ticks d v step_ms = edge_ticks d v step_ms"
  by (simp add: travel_ticks_def edge_ticks_def)

lemma aligned_route_planner:
  assumes "aligned_route ob key c = Inr (found, c')" and "routes_fresh ob (ct_cache c)"
  shows "astar (ob_world ob) (ob_self ob) (fst key) (snd key) (ob_step_ms ob) = Inr found"
proof (cases "ct_cache c key")
  case None
  then show ?thesis using assms(1) by (auto simp: aligned_route_def)
next
  case (Some f)
  then show ?thesis using assms by (auto simp: aligned_route_def routes_fresh_def)
qed

lemma try_start_anchor_planner:
  assumes "try_start_anchor ob start goal (best, c) anchor = Inr (best', c')" and "routes_fresh ob (ct_cache c)"
  shows "try_anchor (ob_world ob) (ob_self ob) start goal (ob_step_ms ob) best anchor = Inr best'"
proof (cases "segment_allowed (ob_world ob) (ob_self ob) start anchor")
  case True
  with assms(1) obtain f c1 where a: "aligned_route ob (anchor, goal) c = Inr (f, c1)" by (auto simp: try_start_anchor_def)
  from aligned_route_planner [OF a assms(2)] a True assms(1) show ?thesis
    by (cases f) (auto simp: try_start_anchor_def try_anchor_def travel_ticks_edge Let_def)
qed (use assms in \<open>simp add: try_start_anchor_def try_anchor_def\<close>)

lemma start_anchors_planner:
  "foldR (try_start_anchor ob start goal) (best, c) ps = Inr (best', c') \<Longrightarrow> routes_fresh ob (ct_cache c) \<Longrightarrow>
     foldR (try_anchor (ob_world ob) (ob_self ob) start goal (ob_step_ms ob)) best ps = Inr best'"
proof (induction ps arbitrary: best c)
  case (Cons p ps)
  from Cons.prems(1) obtain b1 c1 where one: "try_start_anchor ob start goal (best, c) p = Inr (b1, c1)"
    and rest: "foldR (try_start_anchor ob start goal) (b1, c1) ps = Inr (best', c')" by auto
  from Cons.IH [OF rest only_cache_fresh [OF try_start_anchor_cache [OF one] Cons.prems(2)]]
    try_start_anchor_planner [OF one Cons.prems(2)]
  show ?case by simp
qed simp

lemma route_to_goal_planner:
  assumes "route_to_goal ob goal c = Inr (found, c')" and "routes_fresh ob (ct_cache c)"
  shows "route_from (ob_world ob) (ob_self ob) (vs_pos (ob_self ob)) goal (ob_step_ms ob) = Inr found"
  using assms start_anchors_planner [OF _ assms(2)]
  by (auto simp: route_to_goal_def route_from_def Let_def dest: aligned_route_planner split: if_split_asm)

end
