(* ===== verification/Autonomy_Ticks.thy ===== *)
theory Autonomy_Ticks
  imports Autonomy_Routes Agent_Process
begin

text \<open>
  The controller over its ticks: controllers in service and what they remember, the work they report, and the ledger
  of reported failures. The properties these lemmas give are stated in \<open>Autonomy_Props\<close>.
\<close>

subsection \<open>A controller in service\<close>

text \<open>
  A controller that has been driven by observations of worlds which the version of the map tells apart (\<open>W\<close> gives the
  world of each version), with a moving vehicle. \<open>prev\<close> is the observation of the last tick.
\<close>

inductive serving ::
    "(node list \<Rightarrow> node) \<Rightarrow> (node list \<Rightarrow> node) \<Rightarrow> serializer \<Rightarrow> (bytes \<Rightarrow> alloc_state option) \<Rightarrow> (u64 \<Rightarrow> world) \<Rightarrow> string
     \<Rightarrow> observation option \<Rightarrow> controller \<Rightarrow> bool"
  for sequence fallback ser parse W agent where
  start: "new_controller agent = Inr c \<Longrightarrow> serving sequence fallback ser parse W agent None c"
| tick: "serving sequence fallback ser parse W agent prev c
     \<Longrightarrow> controller_act sequence fallback ser parse input c = Inr (reply, c') \<Longrightarrow> en_body input = Body_observation ob
     \<Longrightarrow> ob_world ob = W (wd_map_version (ob_world ob)) \<Longrightarrow> wd_map_version (ob_world ob) \<noteq> 0 \<Longrightarrow> vs_speed (ob_self ob) \<noteq> 0
     \<Longrightarrow> serving sequence fallback ser parse W agent (Some ob) c'"

inductive_cases serving_SomeE: "serving sequence fallback ser parse W agent (Some ob) c"

lemma new_controller_fields:
  "new_controller agent = Inr c \<Longrightarrow> ct_agent c = agent \<and> informed None c \<and> ct_reported c = [] \<and> ct_rejections c = []"
  by (auto simp: new_controller_def informed_def)

lemma allocate_remembers: "allocate ser parse ob c = Inr (ok, c') \<Longrightarrow> remembers ob' c' = remembers ob' c"
  by (auto simp: allocate_def remembers_def Let_def split: if_split_asm)

lemma report_remembers: "report c = Inr (ok, c') \<Longrightarrow> remembers ob c' = remembers ob c"
  by (auto simp: report_def remembers_def split: option.split_asm)

lemma tree_remembers:
  assumes "tree_engine sequence fallback" and "informed prev c"
    and "\<And>p. prev = Some p \<Longrightarrow> wd_map_version (ob_world p) = wd_map_version (ob_world ob) \<Longrightarrow> ob_world p = ob_world ob"
    and "autonomy_tree sequence fallback ser parse ob c = Inr (status, c')"
  shows "remembers ob c'"
proof -
  have start: "remembers ob c3" if "synchronize_controller ob c = Inr (True, c1)" "allocate ser parse ob c1 = Inr (True, c2)"
      "validate_controller ob c2 = Inr (True, c3)" for c1 c2 c3
    using synchronize_informed [OF that(1) assms(2,3)] allocate_remembers [OF that(2)]
      remembers_kept.validate_kept [OF that(3)] by simp
  note leaf = remembers_kept.recover_kept remembers_kept.leaf_kept report_remembers
  from assms(1,4) show ?thesis
    by (cases rule: tree_cases) (metis start leaf)+
qed

lemma informed_prepare: "informed prev (c\<lparr>ct_out := a\<rparr>) = informed prev c"
  by (auto simp: informed_def remembers_def split: option.split)

lemma act_remembers:
  assumes "tree_engine sequence fallback" and "informed prev c" and "en_body input = Body_observation ob"
    and "\<And>p. prev = Some p \<Longrightarrow> wd_map_version (ob_world p) = wd_map_version (ob_world ob) \<Longrightarrow> ob_world p = ob_world ob"
    and "controller_act sequence fallback ser parse input c = Inr (reply, c')"
  shows "remembers ob c' \<and> ct_agent c' = ct_agent c"
  using assms(5)
proof (cases rule: controller_act_cases)
  case (1 ob' status c1)
  with assms(3) have ob: "ob' = ob" by simp
  have "remembers ob c1"
    by (rule tree_remembers [OF assms(1) _ assms(4) 1(6) [unfolded ob]]) (simp_all add: informed_prepare assms(2))
  moreover have "ct_agent c1 = ct_agent c" using tree_drive(2) [OF assms(1) fresh_still 1(6) [unfolded ob]] by simp
  ultimately show ?thesis using 1(8) by (simp add: remembers_def)
qed

lemma serving_informed:
  assumes "serving sequence fallback ser parse W agent prev c" and "tree_engine sequence fallback"
  shows "informed prev c \<and> ct_agent c = agent \<and> (\<forall>ob. prev = Some ob \<longrightarrow> ob_world ob = W (wd_map_version (ob_world ob)))"
  using assms(1)
proof induction
  case (start c)
  then show ?case using new_controller_fields by simp
next
  case (tick prev c input reply c' ob)
  have "remembers ob c' \<and> ct_agent c' = ct_agent c"
    by (rule act_remembers [OF assms(2) conjunct1 [OF tick.IH] tick.hyps(3) _ tick.hyps(2)]) (metis tick.IH tick.hyps(4))
  with tick show ?case by (simp add: informed_def)
qed

subsection \<open>Work\<close>

interpretation task_kept: writes_keep ob "\<lambda>c. ct_task c = t" for ob t
  by unfold_locales
    (auto simp: write_defs only_cache_fields reserve_way_def split: option.splits)

lemma synchronize_task:
  assumes "synchronize_controller ob c = Inr (ok, c')"
  shows "ct_task c' = current_task ob (ct_agent c)" and "no_work_reported c' = no_work_reported c"
proof -
  have frames: "ct_task (invalidate reason b c) = ct_task c" "ct_task (expire_request ob c) = ct_task c"
    "no_work_reported (invalidate reason b c) = no_work_reported c" "no_work_reported (expire_request ob c) = no_work_reported c"
    for reason b c
    by (auto simp: no_work_reported_def invalidate_def clear_route_def expire_request_def Let_def split: option.splits)
  have reports: "no_work_reported (foldl report_failure c ds) = no_work_reported c" for c ds
    by (induction ds arbitrary: c) (auto simp: report_failure_def no_work_reported_def)
  have updates: "no_work_reported (c\<lparr>ct_map_changed := x1\<rparr>) = no_work_reported c"
    "no_work_reported (c\<lparr>ct_cache := x2\<rparr>) = no_work_reported c" "no_work_reported (c\<lparr>ct_speed := x3\<rparr>) = no_work_reported c"
    "no_work_reported (c\<lparr>ct_capacity := x3\<rparr>) = no_work_reported c" "no_work_reported (c\<lparr>ct_cost := x3\<rparr>) = no_work_reported c"
    "no_work_reported (c\<lparr>ct_step_ms := x4\<rparr>) = no_work_reported c" "no_work_reported (c\<lparr>ct_terrain := x5\<rparr>) = no_work_reported c"
    "no_work_reported (c\<lparr>ct_map := x4\<rparr>) = no_work_reported c" "no_work_reported (c\<lparr>ct_task := x6\<rparr>) = no_work_reported c"
    "no_work_reported (c\<lparr>ct_handled := x1\<rparr>) = no_work_reported c" "no_work_reported (c\<lparr>ct_energy_short := x1\<rparr>) = no_work_reported c"
    "no_work_reported (c\<lparr>ct_allocation_pending := x1\<rparr>) = no_work_reported c" "no_work_reported (c\<lparr>ct_candidate := x7\<rparr>) = no_work_reported c"
    "no_work_reported (c\<lparr>ct_reason := x8\<rparr>) = no_work_reported c" "no_work_reported (set_mode m c) = no_work_reported c"
    for c x1 x2 x3 x4 x5 x6 x7 x8 m
    by (simp_all add: no_work_reported_def set_mode_def)
  show "ct_task c' = current_task ob (ct_agent c)" and "no_work_reported c' = no_work_reported c"
    using assms by (auto simp: synchronize_controller_def Let_def frames reports updates report_failures_frame split: if_split_asm)
qed

lemma allocate_task:
  "allocate ser parse ob c = Inr (ok, c') \<Longrightarrow> ct_task c' = ct_task c \<and> no_work_reported c' = no_work_reported c"
  by (auto simp: allocate_def Let_def no_work_reported_def split: if_split_asm)

lemma current_task_spec:
  assumes "current_task ob agent = Some t"
  shows "t \<in> set (ob_assigned ob) \<and> ts_status t = TS_Pending \<and> ts_agent t = agent"
proof -
  let ?ts = "filter (\<lambda>t. ts_status t = TS_Pending \<and> ts_agent t = agent) (ob_assigned ob)"
  obtain ts where sorted: "sort_key (\<lambda>t. (ts_epoch t, ts_position t, ts_deadline t, ts_id t)) ?ts = t # ts"
    using assms by (auto simp: current_task_def split: list.split_asm)
  have "t \<in> set (sort_key (\<lambda>t. (ts_epoch t, ts_position t, ts_deadline t, ts_id t)) ?ts)" unfolding sorted by simp
  then show ?thesis by simp
qed

text \<open>What the controller knows of a task when it reports to work on it.\<close>

definition work_justified :: "observation \<Rightarrow> string \<Rightarrow> task_state \<Rightarrow> bool" where
  "work_justified ob agent t \<longleftrightarrow>
     t \<in> set (ob_assigned ob) \<and> manhattan (vs_pos (ob_self ob)) (ts_target t) \<le> ts_radius t
     \<and> (\<exists>r. route_from (ob_world ob) (ob_self ob) (vs_pos (ob_self ob)) (coordinate (px (ts_target t)) (py (ts_target t)))
              (ob_step_ms ob) = Inr (Some r)
          \<and> task_ready ob agent t r \<and> task_affordable ob t r)"

lemma tree_work:
  assumes "tree_engine sequence fallback" and "informed prev c" and "no_work_reported c" and "still c"
    and "\<And>p. prev = Some p \<Longrightarrow> wd_map_version (ob_world p) = wd_map_version (ob_world ob) \<Longrightarrow> ob_world p = ob_world ob"
    and "autonomy_tree sequence fallback ser parse ob c = Inr (status, c')"
    and "x \<in> set (aa_reports (ct_out c'))" and "tr_kind x = TR_Working"
  shows "\<exists>t. tr_task x = ts_id t \<and> work_justified ob (ct_agent c) t"
proof -
  have start: "no_work_reported c3 \<and> remembers ob c2 \<and> validated ob c2 c3 \<and> ct_task c3 = current_task ob (ct_agent c)
      \<and> ct_agent c3 = ct_agent c \<and> still c3 \<and> ct_map c3 = wd_map_version (ob_world ob)"
    if "synchronize_controller ob c = Inr (True, c1)" "allocate ser parse ob c1 = Inr (True, c2)"
      "validate_controller ob c2 = Inr (True, c3)" for c1 c2 c3
  proof -
    have "remembers ob c2"
      using synchronize_informed [OF that(1) assms(2,5)] allocate_remembers [OF that(2)] by simp
    moreover have "no_work_reported c3" "still c3"
      using synchronize_task(2) [OF that(1)] allocate_task [OF that(2)] reports_kept.validate_kept [OF that(3)] assms(3)
        synchronize_drive(1) [OF that(1) assms(4)] allocate_drive [OF that(2)] validate_node(1) [OF that(3)] by simp_all
    moreover have "ct_map c3 = wd_map_version (ob_world ob)" "ct_agent c3 = ct_agent c" "validated ob c2 c3"
      using synchronize_drive(2) [OF that(1) assms(4)] allocate_drive [OF that(2)] validate_node(2,4,5) [OF that(3)]
        controller_synchronize_agent [OF that(1)] allocate_agent [OF that(2)] by simp_all
    moreover have "ct_task c3 = current_task ob (ct_agent c)"
      using synchronize_task(1) [OF that(1)] allocate_task [OF that(2)] task_kept.validate_kept [OF that(3) refl] by simp
    ultimately show ?thesis by simp
  qed
  note leaf = reports_kept.recover_kept reports_kept.leaf_kept
  have quiet: ?thesis if "no_work_reported c'" using that assms(7,8) by (auto simp: no_work_reported_def)
  from assms(1,6) show ?thesis
  proof (cases rule: tree_cases)
    case (recovered c1 c2 c3)
    then show ?thesis using start leaf quiet by metis
  next
    case (unplanned c1 c2 c3 c4)
    then show ?thesis using start leaf quiet by metis
  next
    case (navigated c1 c2 c3 c4 c5 c6 ok)
    then show ?thesis using start leaf quiet by metis
  next
    case (executed c1 c2 c3 c4 c5 c6)
    note s = start [OF executed(1-3)]
    from recover_drive(2) [OF executed(4)] s have c4: "c4 = c3" "\<not> ct_handled c3" "\<not> ct_energy_short c3"
      and "ct_task c3 \<noteq> None" by simp_all
    then obtain t where t: "ct_task c3 = Some t" by blast
    have t5: "ct_task c5 = Some t" and t6: "ct_task c6 = Some t" and q6: "no_work_reported c6"
      using leaf_drives(1) [OF executed(5)] leaf_drives(2) [OF executed(6)] t c4 s
        reports_kept.leaf_kept(1) [OF executed(5)] reports_kept.leaf_kept(2) [OF executed(6)] by simp_all
    have near: "manhattan (vs_pos (ob_self ob)) (ts_target t) \<le> ts_radius t"
      using executed(6) t5 by (auto simp: execute_def split: if_split_asm)
    have "aa_reports (ct_out c') = aa_reports (ct_out c6) @ [\<lparr>tr_task = ts_id t, tr_kind = TR_Working\<rparr>]"
      using executed(7) t6 by (auto simp: report_def)
    then have x: "tr_task x = ts_id t" using assms(7,8) q6 by (auto simp: no_work_reported_def)
    from s c4 t obtain r k where r: "task_ready ob (ct_agent c) t r" "task_affordable ob t r"
      "route_to_goal ob (coordinate (px (ts_target t)) (py (ts_target t))) c2 = Inr (Some r, k)"
      by (auto simp: validated_def)
    have "routes_fresh ob (ct_cache c2)" using s by (simp add: remembers_def)
    from route_to_goal_planner [OF r(3) this] r(1,2) near current_task_spec [of ob "ct_agent c" t] s t
    have "work_justified ob (ct_agent c) t" unfolding work_justified_def by auto
    with x show ?thesis by blast
  qed
qed

subsection \<open>Reported failures\<close>

lemma report_failures_spec:
  "\<exists>new. aa_detections (ct_out (foldl report_failure c ds)) = aa_detections (ct_out c) @ new
     \<and> distinct (map failure_key new) \<and> failure_key ` set new = failure_key ` set ds - set (ct_reported c)
     \<and> set (ct_reported (foldl report_failure c ds)) = set (ct_reported c) \<union> failure_key ` set ds"
proof (induction ds arbitrary: c)
  case Nil
  then show ?case by simp
next
  case (Cons d ds)
  show ?case
  proof (cases "failure_key d \<in> set (ct_reported c)")
    case True
    then have "report_failure c d = c" by (simp add: report_failure_def)
    then have same: "foldl report_failure c (d # ds) = foldl report_failure c ds" by simp
    have sets: "failure_key ` set (d # ds) - set (ct_reported c) = failure_key ` set ds - set (ct_reported c)"
      "set (ct_reported c) \<union> failure_key ` set (d # ds) = set (ct_reported c) \<union> failure_key ` set ds" using True by auto
    show ?thesis using Cons.IH [of c] unfolding same sets .
  next
    case False
    then have d: "aa_detections (ct_out (report_failure c d)) = aa_detections (ct_out c) @ [d]"
      "ct_reported (report_failure c d) = failure_key d # ct_reported c" by (simp_all add: report_failure_def)
    obtain new where "aa_detections (ct_out (foldl report_failure c (d # ds))) = aa_detections (ct_out c) @ d # new"
      "distinct (map failure_key new)" "failure_key ` set new = failure_key ` set ds - insert (failure_key d) (set (ct_reported c))"
      "set (ct_reported (foldl report_failure c (d # ds))) = insert (failure_key d) (set (ct_reported c) \<union> failure_key ` set ds)"
      using Cons.IH [of "report_failure c d"] d by auto
    then show ?thesis using False by (intro exI [of _ "d # new"]) auto
  qed
qed

text \<open>The ledger of reports after one node or tick.\<close>

definition ledger :: "controller \<Rightarrow> failure_detection list \<Rightarrow> string set \<Rightarrow> bool" where
  "ledger c ds keys \<longleftrightarrow> aa_detections (ct_out c) = ds \<and> set (ct_reported c) = keys"

interpretation ledger_kept: writes_keep ob "\<lambda>c. ledger c ds keys" for ob ds keys
  by unfold_locales
    (auto simp: ledger_def write_defs only_cache_def reserve_way_frames drive_frames split: option.splits)

lemma synchronize_ledger:
  assumes "synchronize_controller ob c = Inr (ok, c')" and "aa_detections (ct_out c) = []"
  shows "\<exists>new. ledger c' new (set (ct_reported c) \<union> failure_key ` set (ob_detections ob)) \<and> distinct (map failure_key new)
     \<and> failure_key ` set new = failure_key ` set (ob_detections ob) - set (ct_reported c)"
proof -
  define c1 where "c1 = set_mode BM_Idle (c\<lparr>ct_task := None, ct_handled := False,
    ct_energy_short := False, ct_allocation_pending := False, ct_candidate := None\<rparr>)\<lparr>ct_reason := RR_Unspecified\<rparr>"
  have c1: "aa_detections (ct_out c1) = []" "ct_reported c1 = ct_reported c"
    using assms(2) by (simp_all add: c1_def set_mode_def)
  have frames: "aa_detections (ct_out (invalidate reason b c)) = aa_detections (ct_out c)" "ct_reported (invalidate reason b c) = ct_reported c"
    "aa_detections (ct_out (expire_request ob c)) = aa_detections (ct_out c)" "ct_reported (expire_request ob c) = ct_reported c"
    for reason b c
    by (auto simp: invalidate_def clear_route_def expire_request_def Let_def split: option.splits)
  have "aa_detections (ct_out c') = aa_detections (ct_out (foldl report_failure c1 (ob_detections ob)))
      \<and> ct_reported c' = ct_reported (foldl report_failure c1 (ob_detections ob))"
    using assms(1) unfolding synchronize_controller_def Let_def c1_def [symmetric]
    by (auto simp: frames split: if_split_asm)
  then show ?thesis using report_failures_spec [of c1 "ob_detections ob"] c1 by (auto simp: ledger_def)
qed

lemma tree_ledger:
  assumes "tree_engine sequence fallback" and "aa_detections (ct_out c) = []"
    and "autonomy_tree sequence fallback ser parse ob c = Inr (status, c')"
  shows "\<exists>new. ledger c' new (set (ct_reported c) \<union> failure_key ` set (ob_detections ob)) \<and> distinct (map failure_key new)
     \<and> failure_key ` set new = failure_key ` set (ob_detections ob) - set (ct_reported c)"
proof -
  have allocated: "ledger c2 ds keys" if "allocate ser parse ob c1 = Inr (ok, c2)" "ledger c1 ds keys" for ok c1 c2 ds keys
    using that by (auto simp: allocate_def ledger_def Let_def split: if_split_asm)
  have reported: "ledger c2 ds keys" if "report c1 = Inr (ok, c2)" "ledger c1 ds keys" for ok c1 c2 ds keys
    using that by (auto simp: report_def ledger_def split: option.split_asm)
  have kept: "ledger c' ds keys" if "synchronize_controller ob c = Inr (True, c1)" "ledger c1 ds keys" for c1 ds keys
    using assms(1,3)
  proof (cases rule: tree_cases)
    case (recovered d1 d2 d3)
    then show ?thesis using that allocated ledger_kept.validate_kept ledger_kept.recover_kept by (metis Inr_inject Pair_inject)
  next
    case (unplanned d1 d2 d3 d4)
    then show ?thesis using that allocated ledger_kept.validate_kept ledger_kept.recover_kept ledger_kept.leaf_kept(1)
      by (metis Inr_inject Pair_inject)
  next
    case (executed d1 d2 d3 d4 d5 d6)
    then have "ledger d4 ds keys"
      using that allocated ledger_kept.validate_kept ledger_kept.recover_kept by (metis Inr_inject Pair_inject)
    then show ?thesis using executed reported ledger_kept.leaf_kept by metis
  next
    case (navigated d1 d2 d3 d4 d5 d6 ok)
    then have "ledger d4 ds keys"
      using that allocated ledger_kept.validate_kept ledger_kept.recover_kept by (metis Inr_inject Pair_inject)
    then show ?thesis using navigated ledger_kept.leaf_kept by metis
  qed
  obtain c1 where "synchronize_controller ob c = Inr (True, c1)"
    using assms(1,3) by (cases rule: tree_cases) auto
  from synchronize_ledger [OF this assms(2)] kept [OF this] show ?thesis by blast
qed

definition observed_failures :: "envelope \<Rightarrow> failure_detection set" where
  "observed_failures m = (case en_body m of Body_observation ob \<Rightarrow> set (ob_detections ob) | _ \<Rightarrow> {})"

lemma act_ledger:
  assumes "tree_engine sequence fallback" and "controller_act sequence fallback ser parse input c = Inr (reply, c')"
  shows "distinct (map failure_key (aa_detections (en_action reply)))
     \<and> failure_key ` set (aa_detections (en_action reply)) = failure_key ` observed_failures input - set (ct_reported c)
     \<and> set (ct_reported c') = set (ct_reported c) \<union> failure_key ` observed_failures input"
  using assms(2)
proof (cases rule: controller_act_cases)
  case (1 ob status c1)
  have "aa_detections (ct_out (c\<lparr>ct_out := empty_action\<lparr>aa_tick := ob_tick ob\<rparr>\<rparr>)) = []" by (simp add: empty_action_def)
  from tree_ledger [OF assms(1) this 1(6)] 1(1,7,8) show ?thesis
    by (auto simp: ledger_def finish_action_fields observed_failures_def)
qed

lemma replies_ledger:
  assumes "tree_engine sequence fallback"
  shows "agent_replies (controller_act sequence fallback ser parse) c inputs = Inr (replies, c') \<Longrightarrow>
     distinct (map failure_key (concat (map (aa_detections \<circ> en_action) replies)))
     \<and> failure_key ` set (concat (map (aa_detections \<circ> en_action) replies))
        = failure_key ` (\<Union>m \<in> set inputs. observed_failures m) - set (ct_reported c)"
proof (induction inputs arbitrary: c replies)
  case (Cons m ms)
  from Cons.prems obtain reply c1 rs where act: "controller_act sequence fallback ser parse m c = Inr (reply, c1)"
    and rest: "agent_replies (controller_act sequence fallback ser parse) c1 ms = Inr (rs, c')" and "replies = reply # rs"
    by auto
  with act_ledger [OF assms act] Cons.IH [OF rest] show ?case by (auto simp: image_Un)
qed simp

end
