(* ===== verification/Autonomy_Follow.thy ===== *)
theory Autonomy_Follow
  imports Autonomy_Ticks
begin

text \<open>
  The route a controller follows: where it comes from, and that it is given up when the map or the vehicle changes.
\<close>

subsection \<open>Where a route comes from\<close>

text \<open>The place that a goal names in an observation.\<close>

definition place_of :: "observation \<Rightarrow> string \<Rightarrow> point \<Rightarrow> bool" where
  "place_of ob goal p \<longleftrightarrow>
     (\<exists>t \<in> set (ob_assigned ob). goal = ''task:'' @ ts_id t \<and> p = ts_target t)
     \<or> (\<exists>l \<in> set (wd_locations (ob_world ob)). p = lc_pos l
          \<and> (goal = ''return:'' @ lc_id l \<and> lc_kind l = LK_Return \<or> goal = ''charge:'' @ lc_id l \<and> lc_kind l = LK_Charging))"

text \<open>The route was planned in the tick of this observation, and the action announces it.\<close>

definition planned_now :: "observation \<Rightarrow> controller \<Rightarrow> bool" where
  "planned_now ob c \<longleftrightarrow>
     (\<exists>r p. ct_route c = Some r \<and> place_of ob (ct_goal c) p
        \<and> route_from (ob_world ob) (ob_self ob) (vs_pos (ob_self ob)) p (ob_step_ms ob) = Inr (Some r)
        \<and> aa_plan (ct_out c) = Some \<lparr>rp_version = ct_route_version c, rp_map_version = ct_map c, rp_goal = ct_goal c,
            rp_waypoints = ro_points r\<rparr>)"

text \<open>Since the controller was in a state before: no route, the same one, or one of this tick.\<close>

definition route_since :: "observation \<Rightarrow> controller \<Rightarrow> controller \<Rightarrow> bool" where
  "route_since ob c0 c \<longleftrightarrow>
     ct_route c = None
     \<or> (ct_route c = ct_route c0 \<and> ct_goal c = ct_goal c0 \<and> ct_route_version c = ct_route_version c0)
     \<or> planned_now ob c"

lemma route_since_refl [simp]: "route_since ob c c"
  by (simp add: route_since_def)

lemma cache_route: 
  "only_cache ob c c' \<Longrightarrow> ct_route c' = ct_route c \<and> ct_goal c' = ct_goal c \<and> ct_route_version c' = ct_route_version c
     \<and> ct_out c' = ct_out c \<and> ct_map c' = ct_map c"
  by (auto simp: only_cache_def)

lemma reserve_route:
  "ct_route (snd (reserve_way ob current nxt ahead c)) = ct_route c" "ct_goal (snd (reserve_way ob current nxt ahead c)) = ct_goal c"
  "ct_route_version (snd (reserve_way ob current nxt ahead c)) = ct_route_version c"
  "ct_map (snd (reserve_way ob current nxt ahead c)) = ct_map c"
  "aa_plan (ct_out (snd (reserve_way ob current nxt ahead c))) = aa_plan (ct_out c)"
  by (auto simp: reserve_way_def Let_def split: option.split)

lemma drive_plan: "aa_plan (drive ob current nxt m a) = aa_plan a"
  by (simp add: drive_def Let_def)

interpretation since: steady ob "route_since ob c0" for ob c0
  by unfold_locales
    (auto simp: route_since_def planned_now_def set_mode_def clear_route_def reject_def Let_def reserve_route drive_plan
      dest!: cache_route split: option.splits)

text \<open>A route from the planner may be set.\<close>

lemma set_route_now:
  assumes "route_to_goal ob p c = Inr (Some r, c1)" and "routes_fresh ob (ct_cache c)" and "place_of ob goal p"
  shows "route_since ob c0 (set_route r goal c2)"
  using route_to_goal_planner [OF assms(1,2)] assms(3)
  by (auto simp: route_since_def planned_now_def set_route_def Let_def)

lemma coordinate_point [simp]: "coordinate (px p) (py p) = p"
  by (simp add: coordinate_def)

subsection \<open>The nodes that set routes\<close>

lemma follow_since:
  "route_since ob c0 c \<Longrightarrow> (case follow ob m c of (moving, c') \<Rightarrow>
      Inr (True, if moving then c' else set_mode BM_Waiting c')) = (Inr (ok, c2) :: (bool \<times> controller) result) \<Longrightarrow> route_since ob c0 c2"
  using since.follow_kept [of ob c0 c m] since.mode [of ob c0] by (auto simp: split_beta split: if_split_asm)

lemma return_home_since:
  assumes "return_home ob c = Inr (ok, c')" and "route_since ob c0 c" and "routes_fresh ob (ct_cache c)"
  shows "route_since ob c0 c'"
proof (cases "if vs_return (ob_self ob) = [] then None
    else find (\<lambda>l. lc_id l = vs_return (ob_self ob) \<and> lc_kind l = LK_Return) (wd_locations (ob_world ob))")
  case None
  then show ?thesis using assms by (auto simp: return_home_def Let_def intro: since.steady_kept)
next
  case (Some l)
  then have l: "l \<in> set (wd_locations (ob_world ob))" "lc_id l = vs_return (ob_self ob)" "lc_kind l = LK_Return"
    by (auto simp: find_Some_iff split: if_split_asm)
  let ?goal = "''return:'' @ vs_return (ob_self ob)"
  have place: "place_of ob ?goal (lc_pos l)" unfolding place_of_def using l by auto
  have routed: "route_since ob c0 c'"
    if "(case found of None \<Rightarrow> Inr (True, set_mode BM_Waiting (clear_route c1))
        | Some r \<Rightarrow> case follow ob BM_Returning (set_route r ?goal c1) of (moving, c') \<Rightarrow>
                    Inr (True, if moving then c' else set_mode BM_Waiting c'))
          = (Inr (ok, c') :: (bool \<times> controller) result)"
      and found: "route_to_goal ob (lc_pos l) c = Inr (found, c1)" for found c1
  proof (cases found)
    case None
    then show ?thesis
      using that(1) since.cache [OF route_to_goal_cache [OF found] assms(2)] by (auto intro: since.steady_kept)
  next
    case (Some r)
    then have "route_since ob c0 (set_route r ?goal c1)" using set_route_now [OF _ assms(3) place] found by simp
    with that(1) Some show ?thesis by (auto intro: follow_since)
  qed
  from assms(1,2) show ?thesis
    unfolding return_home_def Let_def Some option.case coordinate_point
    by (auto intro: since.steady_kept follow_since dest!: routed split: if_split_asm)
qed

lemma try_charger_choice:
  assumes "try_charger ob t (selected, c) l = Inr (selected', c')"
  shows "selected' = selected \<or> lc_kind l = LK_Charging
    \<and> (\<exists>r. selected' = keep_best (\<lambda>a b. charger_key a < charger_key b) selected \<lparr>cg_location = l, cg_route = r\<rparr>)"
  using assms unfolding try_charger_def Let_def prod.case bindR_def
  by (simp split: if_split_asm sum.split_asm prod.split_asm option.split_asm) blast+

lemma select_charger_known:
  assumes "select_charger ob t c = Inr (Some l, c')"
  shows "l \<in> set (wd_locations (ob_world ob)) \<and> lc_kind l = LK_Charging"
proof -
  let ?ok = "\<lambda>s. \<forall>g. s = Some g \<longrightarrow> cg_location g \<in> set (wd_locations (ob_world ob)) \<and> lc_kind (cg_location g) = LK_Charging"
  have step: "?ok y" if "try_charger ob t (x, a) l = Inr (y, b)" "?ok x" "l \<in> set (wd_locations (ob_world ob))" for x y a b l
    using try_charger_choice [OF that(1)] that(2,3) by (auto simp: keep_best_def split: option.split_asm if_split_asm)
  have "?ok y" if "foldR (try_charger ob t) (x, a) ls = Inr (y, b)" "?ok x" "set ls \<subseteq> set (wd_locations (ob_world ob))" for x y a b ls
    using that
  proof (induction ls arbitrary: x a)
    case (Cons l ls)
    from Cons.prems(1) obtain z d where one: "try_charger ob t (x, a) l = Inr (z, d)" and rest: "foldR (try_charger ob t) (z, d) ls = Inr (y, b)"
      by auto
    show ?case by (rule Cons.IH [OF rest step [OF one Cons.prems(2)]]) (use Cons.prems(3) in simp_all)
  qed simp
  then show ?thesis using assms by (fastforce simp: select_charger_def)
qed

lemma go_charging_since:
  assumes "go_charging ob l c = Inr (ok, c')" and "route_since ob c0 c" and "routes_fresh ob (ct_cache c)"
    and "l \<in> set (wd_locations (ob_world ob))" and "lc_kind l = LK_Charging"
  shows "route_since ob c0 c'"
proof -
  let ?goal = "''charge:'' @ lc_id l"
  have place: "place_of ob ?goal (lc_pos l)" unfolding place_of_def using assms(4,5) by auto
  have routed: "route_since ob c0 c'"
    if "(case found of None \<Rightarrow> Inr (True, reject c1)
        | Some r \<Rightarrow> if ro_energy r > vs_energy (ob_self ob) then Inr (True, reject c1)
                     else Inr (True, snd (follow ob BM_Navigating (set_route r ?goal c1)))) = Inr (ok, c')"
      and found: "route_to_goal ob (lc_pos l) c = Inr (found, c1)" for found c1
  proof -
    have "route_since ob c0 (snd (follow ob BM_Navigating (set_route r ?goal c1)))" if "found = Some r" for r
      using set_route_now [OF _ assms(3) place] found that by (intro since.follow_kept) simp
    then show ?thesis using that(1) since.cache [OF route_to_goal_cache [OF found] assms(2)]
      by (cases found) (auto intro: since.steady_kept split: if_split_asm)
  qed
  from assms(1,2) show ?thesis unfolding go_charging_def Let_def coordinate_point
    by (auto intro: since.steady_kept since.follow_kept dest!: routed split: if_split_asm)
qed

lemma recover_since:
  assumes "recover ob c = Inr (ok, c')" and "route_since ob c0 c" and "routes_fresh ob (ct_cache c)"
  shows "route_since ob c0 c'"
proof (cases "ct_task c")
  case None
  then show ?thesis using assms return_home_since by (auto simp: recover_def split: if_split_asm)
next
  case (Some t)
  have charger: "route_since ob c0 c'"
    if "(case found of None \<Rightarrow> Inr (True, reject c1) | Some l \<Rightarrow> go_charging ob l c1) = Inr (ok, c')"
      and select: "select_charger ob t c = Inr (found, c1)" for found c1
  proof -
    note cache = select_charger_cache [OF select]
    have c1: "route_since ob c0 c1" "routes_fresh ob (ct_cache c1)"
      using since.cache [OF cache assms(2)] only_cache_fresh [OF cache assms(3)] by blast+
    show ?thesis
    proof (cases found)
      case None
      then show ?thesis using that(1) c1 by (auto intro: since.steady_kept)
    next
      case (Some l)
      with select_charger_known [of ob t c l c1] select that(1) c1 show ?thesis by (auto intro: go_charging_since)
    qed
  qed
  from assms show ?thesis unfolding recover_def Some option.case
    by (auto dest!: charger split: if_split_asm)
qed
subsection \<open>One tick\<close>

text \<open>Validation leaves a candidate that the planner computed for the current task.\<close>

lemma plan_since:
  assumes "plan c = Inr (ok, c')" and "route_since ob c0 c" and "validated ob before c" and "\<not> ct_handled c"
    and "routes_fresh ob (ct_cache before)" and "\<And>t. ct_task c = Some t \<Longrightarrow> t \<in> set (ob_assigned ob)"
  shows "route_since ob c0 c'"
proof (cases "ct_task c")
  case None
  then show ?thesis using assms(1) by (simp add: plan_def)
next
  case (Some t)
  with assms(3,4) obtain r c1 where r: "ct_candidate c = Some r" "route_to_goal ob (ts_target t) before = Inr (Some r, c1)"
    by (auto simp: validated_def)
  have "place_of ob (''task:'' @ ts_id t) (ts_target t)" unfolding place_of_def using assms(6) [OF Some] by blast
  from set_route_now [OF r(2) assms(5) this] assms(1,2) r(1) show ?thesis
    by (auto simp: plan_def Some split: if_split_asm)
qed

lemma current_task_assigned: "current_task ob agent = Some t \<Longrightarrow> t \<in> set (ob_assigned ob)"
proof -
  assume t: "current_task ob agent = Some t"
  let ?ts = "sort_key (\<lambda>t. (ts_epoch t, ts_position t, ts_deadline t, ts_id t))
             (filter (\<lambda>t. ts_status t = TS_Pending \<and> ts_agent t = agent) (ob_assigned ob))"
  from t have "t \<in> set ?ts" by (cases ?ts) (simp_all add: current_task_def)
  then show ?thesis by simp
qed

lemma report_failures_route:
  "ct_route (foldl report_failure c ds) = ct_route c" "ct_goal (foldl report_failure c ds) = ct_goal c"
  "ct_route_version (foldl report_failure c ds) = ct_route_version c"
  by (induction ds arbitrary: c) (simp_all add: report_failure_def)

lemma expire_route:
  "ct_route (expire_request ob c) = ct_route c" "ct_goal (expire_request ob c) = ct_goal c"
  "ct_route_version (expire_request ob c) = ct_route_version c"
  by (auto simp: expire_request_def invalidate_def Let_def split: option.split)

lemma report_failures_capacity: "ct_capacity (foldl report_failure c ds) = ct_capacity c"
  by (induction ds arbitrary: c) (simp_all add: report_failure_def)

text \<open>A route outlives the synchronization only if neither the map nor what routes depend on has changed.\<close>

lemma synchronize_route:
  assumes "synchronize_controller ob c = Inr (ok, c')" and "ct_route c' = Some r"
  shows "ct_route c' = ct_route c \<and> ct_goal c' = ct_goal c \<and> ct_route_version c' = ct_route_version c
    \<and> (ct_map c = 0 \<or> ct_map c = wd_map_version (ob_world ob)) \<and> \<not> dynamics_changed ob c"
proof -
  define c2 where "c2 = foldl report_failure (set_mode BM_Idle (c\<lparr>ct_task := None, ct_handled := False,
    ct_energy_short := False, ct_allocation_pending := False, ct_candidate := None\<rparr>)\<lparr>ct_reason := RR_Unspecified\<rparr>) (ob_detections ob)"
  define moved where "moved \<longleftrightarrow> ct_map c2 \<noteq> 0 \<and> ct_map c2 \<noteq> wd_map_version (ob_world ob)"
  define c3 where "c3 = c2\<lparr>ct_map_changed := moved,
      ct_cache := (if moved \<or> dynamics_changed ob c2 then Map.empty else ct_cache c2),
      ct_speed := vs_speed (ob_self ob), ct_capacity := vs_capacity (ob_self ob), ct_cost := vs_cost (ob_self ob),
      ct_step_ms := ob_step_ms ob, ct_terrain := vs_terrain (ob_self ob), ct_map := wd_map_version (ob_world ob),
      ct_task := current_task ob (ct_agent c2)\<rparr>"
  define reason where "reason = route_trouble ob (dynamics_changed ob c2) c3"
  have c': "c' = expire_request ob (if ct_route c3 \<noteq> None \<and> reason \<noteq> RR_Unspecified then invalidate reason True c3 else c3)"
    using assms(1) unfolding synchronize_controller_def Let_def reason_def c2_def [symmetric] moved_def [symmetric] c3_def [symmetric]
    by simp
  have same: "ct_route c3 = ct_route c" "ct_goal c3 = ct_goal c" "ct_route_version c3 = ct_route_version c"
    by (simp_all add: c3_def c2_def report_failures_route set_mode_def)
  have "ct_route (invalidate reason True c3) = None" by (simp add: invalidate_def clear_route_def Let_def)
  with assms(2) c' have keep: "reason = RR_Unspecified" and c3: "ct_route c3 = Some r" "c' = expire_request ob c3"
    by (auto simp: expire_route split: if_split_asm)
  have "ct_map_changed c3 = moved" by (simp add: c3_def)
  with keep have "\<not> moved" "\<not> dynamics_changed ob c2" by (auto simp: reason_def route_trouble_def split: if_split_asm)
  moreover have "ct_map c2 = ct_map c" "dynamics_changed ob c2 = dynamics_changed ob c"
    unfolding c2_def by (simp_all add: dynamics_changed_def report_failures_knowledge report_failures_frame report_failures_capacity set_mode_def)
  ultimately show ?thesis using same c3 by (auto simp: moved_def expire_route)
qed

lemma allocate_since: "allocate ser parse ob c = Inr (ok, c') \<Longrightarrow> route_since ob c c'"
  by (auto simp: allocate_def route_since_def Let_def split: if_split_asm)

lemma report_since: "report c = Inr (ok, c') \<Longrightarrow> route_since ob c0 c \<Longrightarrow> route_since ob c0 c'"
  by (auto simp: report_def route_since_def planned_now_def split: option.split_asm)

lemma recover_ends: "return_home ob c = Inr (ok, c') \<Longrightarrow> ok" "go_charging ob l c = Inr (ok, c') \<Longrightarrow> ok"
  unfolding return_home_def go_charging_def Let_def bindR_def split_beta
  by (simp_all split: if_split_asm sum.split_asm prod.split_asm option.split_asm)

lemma recover_passes: "recover ob c = Inr (False, c') \<Longrightarrow> c' = c \<and> \<not> ct_handled c"
  unfolding recover_def bindR_def split_beta
  by (auto split: if_split_asm sum.split_asm option.split_asm dest: recover_ends)

lemma tree_since:
  assumes "tree_engine sequence fallback" and "informed prev c"
    and "\<And>p. prev = Some p \<Longrightarrow> wd_map_version (ob_world p) = wd_map_version (ob_world ob) \<Longrightarrow> ob_world p = ob_world ob"
    and "autonomy_tree sequence fallback ser parse ob c = Inr (status, c')"
  shows "\<exists>c1. synchronize_controller ob c = Inr (True, c1) \<and> route_since ob c1 c'"
proof -
  have upto: "route_since ob c1 c3 \<and> routes_fresh ob (ct_cache c2) \<and> routes_fresh ob (ct_cache c3)
      \<and> (\<forall>t. ct_task c3 = Some t \<longrightarrow> t \<in> set (ob_assigned ob))"
    if s: "synchronize_controller ob c = Inr (True, c1)" and a: "allocate ser parse ob c1 = Inr (True, c2)"
      and v: "validate_controller ob c2 = Inr (True, c3)" for c1 c2 c3
  proof -
    have m: "remembers ob c2" using synchronize_informed [OF s assms(2,3)] allocate_remembers [OF a] by simp
    have "ct_task c3 = ct_task c1"
      using task_kept.validate_kept [OF v, of "ct_task c2"] a by (auto simp: allocate_def Let_def split: if_split_asm)
    then have "ct_task c3 = Some t \<longrightarrow> t \<in> set (ob_assigned ob)" for t
      using synchronize_task(1) [OF s] current_task_assigned by auto
    with m remembers_kept.validate_kept [OF v m] since.validate_kept [OF v allocate_since [OF a]] show ?thesis
      by (simp add: remembers_def)
  qed
  have planned: "route_since ob c1 c5"
    if "synchronize_controller ob c = Inr (True, c1)" "allocate ser parse ob c1 = Inr (True, c2)"
      "validate_controller ob c2 = Inr (True, c3)" "recover ob c3 = Inr (False, c4)" "plan c4 = Inr (ok, c5)" for c1 c2 c3 c4 c5 ok
  proof -
    note recover_passes [OF that(4)]
    with upto [OF that(1-3)] validate_node(5) [OF that(3)] that(5) show ?thesis by (auto intro: plan_since)
  qed
  from assms(1,4) show ?thesis
  proof (cases rule: tree_cases)
    case (recovered c1 c2 c3)
    with upto [OF recovered(1-3)] recover_since [OF recovered(4)] show ?thesis by blast
  next
    case (unplanned c1 c2 c3 c4)
    with planned [OF unplanned] show ?thesis by blast
  next
    case (executed c1 c2 c3 c4 c5 c6)
    from report_since [OF executed(7) since.work_kept(1) [OF executed(6) planned [OF executed(1-5)]]] executed(1) show ?thesis by blast
  next
    case (navigated c1 c2 c3 c4 c5 c6 ok)
    from since.work_kept(2) [OF navigated(7) since.work_kept(1) [OF navigated(6) planned [OF navigated(1-5)]]] navigated(1)
    show ?thesis by blast
  qed
qed

subsection \<open>A run\<close>

lemma route_from_vehicle:
  assumes "same_dynamics v v'"
  shows "route_from w v start goal step_ms = route_from w v' start goal step_ms"
proof -
  have "try_anchor w v start goal step_ms = try_anchor w v' start goal step_ms"
    unfolding try_anchor_def same_dynamics_segment [OF assms] same_dynamics_energy [OF assms] same_dynamics_ticks [OF assms]
      astar_vehicle [OF assms] by (rule refl)
  then show ?thesis unfolding route_from_def astar_vehicle [OF assms] by (simp only:)
qed

text \<open>The route was planned for this world and this kind of vehicle, whenever that was.\<close>

definition plan_of :: "observation \<Rightarrow> route \<Rightarrow> bool" where
  "plan_of ob r \<longleftrightarrow> (\<exists>start goal. route_from (ob_world ob) (ob_self ob) start goal (ob_step_ms ob) = Inr (Some r))"

text \<open>What a tick does to the route: it plans one, or it keeps the one it has, in an unchanged world.\<close>

definition kept_route :: "observation option \<Rightarrow> observation \<Rightarrow> controller \<Rightarrow> controller \<Rightarrow> bool" where
  "kept_route prev ob c c' \<longleftrightarrow>
     ct_route c' = ct_route c \<and> ct_goal c' = ct_goal c \<and> ct_route_version c' = ct_route_version c
     \<and> (case prev of None \<Rightarrow> False
        | Some p \<Rightarrow> ob_world p = ob_world ob \<and> same_dynamics (ob_self p) (ob_self ob) \<and> ob_step_ms p = ob_step_ms ob)"

lemma tick_route:
  assumes "tree_engine sequence fallback" and "informed prev c" and "prev = None \<Longrightarrow> ct_route c = None"
    and "en_body input = Body_observation ob"
    and "\<And>p. prev = Some p \<Longrightarrow> wd_map_version (ob_world p) = wd_map_version (ob_world ob) \<Longrightarrow> ob_world p = ob_world ob"
    and "controller_act sequence fallback ser parse input c = Inr (reply, c')" and "ct_route c' = Some r"
  shows "planned_now ob c' \<and> aa_plan (en_action reply) = aa_plan (ct_out c') \<or> kept_route prev ob c c'"
  using assms(6)
proof (cases rule: controller_act_cases)
  case (1 ob' status c1)
  with assms(4) have ob: "ob' = ob" by simp
  let ?c = "c\<lparr>ct_out := empty_action\<lparr>aa_tick := ob_tick ob\<rparr>\<rparr>"
  obtain c2 where s: "synchronize_controller ob ?c = Inr (True, c2)" and since: "route_since ob c2 c1"
    using tree_since [OF assms(1) _ assms(5) 1(6) [unfolded ob]] assms(2) by (auto simp: informed_prepare)
  have c': "ct_route c' = ct_route c1" "ct_goal c' = ct_goal c1" "ct_route_version c' = ct_route_version c1"
    "planned_now ob c' = planned_now ob c1" "ct_out c' = ct_out c1"
    using 1(8) by (simp_all add: planned_now_def)
  have plan: "aa_plan (en_action reply) = aa_plan (ct_out c1)" using 1(7) by (simp add: finish_action_def Let_def)
  show ?thesis
  proof (cases "planned_now ob c1")
    case True
    with c' plan show ?thesis by simp
  next
    case False
    with since assms(7) c' have same: "ct_route c1 = ct_route c2" "ct_goal c1 = ct_goal c2" "ct_route_version c1 = ct_route_version c2"
      by (auto simp: route_since_def)
    from synchronize_route [OF s, of r] assms(7) c'(1) same(1)
    have keep: "ct_route c2 = ct_route c" "ct_goal c2 = ct_goal c" "ct_route_version c2 = ct_route_version c"
      and steady: "ct_map c = 0 \<or> ct_map c = wd_map_version (ob_world ob)" "\<not> dynamics_changed ob c"
      by (auto simp: dynamics_changed_def)
    have "prev \<noteq> None" using assms(3,7) same keep c' by auto
    then obtain p where p: "prev = Some p" by blast
    with assms(2) have m: "remembers p c" "wd_map_version (ob_world p) \<noteq> 0" "vs_speed (ob_self p) \<noteq> 0"
      by (auto simp: informed_def)
    then have "wd_map_version (ob_world p) = wd_map_version (ob_world ob)" using steady(1) by (auto simp: remembers_def)
    with assms(5) [OF p] have "ob_world p = ob_world ob" by blast
    moreover have "same_dynamics (ob_self p) (ob_self ob)" "ob_step_ms p = ob_step_ms ob"
      using steady(2) m by (auto simp: dynamics_changed_def same_dynamics_def remembers_def Let_def)
    ultimately show ?thesis using same keep c' p by (simp add: kept_route_def)
  qed
qed

lemma serving_plan:
  assumes "serving sequence fallback ser parse W agent prev c" and "tree_engine sequence fallback"
  shows "ct_route c = None \<or> (\<exists>ob r. prev = Some ob \<and> ct_route c = Some r \<and> plan_of ob r)"
  using assms(1)
proof induction
  case (start c)
  then show ?case by (auto simp: new_controller_def)
next
  case (tick prev c input reply c' ob)
  note known = serving_informed [OF tick.hyps(1) assms(2)]
  show ?case
  proof (cases "ct_route c'")
    case (Some r)
    have "planned_now ob c' \<and> aa_plan (en_action reply) = aa_plan (ct_out c') \<or> kept_route prev ob c c'"
      by (rule tick_route [OF assms(2) conjunct1 [OF known] _ tick.hyps(3) _ tick.hyps(2) Some])
        (use tick.IH in blast, metis known tick.hyps(4))
    then have "plan_of ob r"
    proof
      assume "planned_now ob c' \<and> aa_plan (en_action reply) = aa_plan (ct_out c')"
      with Some show ?thesis by (auto simp: planned_now_def plan_of_def)
    next
      assume k: "kept_route prev ob c c'"
      then obtain p where p: "prev = Some p" "ob_world p = ob_world ob" "same_dynamics (ob_self p) (ob_self ob)" "ob_step_ms p = ob_step_ms ob"
        by (auto simp: kept_route_def split: option.split_asm)
      have "ct_route c = Some r" using k Some by (simp add: kept_route_def)
      with tick.IH p(1) have "plan_of p r" by auto
      with p show ?thesis by (simp add: plan_of_def route_from_vehicle [OF p(3)])
    qed
    with Some show ?thesis by blast
  qed simp
qed

end
