(* ===== verification/Autonomy_Props.thy ===== *)
theory Autonomy_Props
  imports Autonomy_Follow
begin

text \<open>
  Properties of the controller: it drives only where it may, its routes are the planner's, it works only on tasks it can
  finish, and it reports every failure once. The witnesses are two evaluated ticks, in which a vehicle drives through a
  reserved gate to its task and works there; their engine is the plain reading of the two control nodes.
\<close>

subsection \<open>Two ticks\<close>

primrec run_sequence :: "node list \<Rightarrow> node" where
  "run_sequence [] c = Inr (True, c)"
| "run_sequence (n # ns) c = bindR (n c) (\<lambda>(ok, c'). if ok then run_sequence ns c' else Inr (False, c'))"

primrec run_fallback :: "node list \<Rightarrow> node" where
  "run_fallback [] c = Inr (False, c)"
| "run_fallback (n # ns) c = bindR (n c) (\<lambda>(ok, c'). if ok then Inr (True, c') else run_fallback ns c')"

lemma run_engine: "tree_engine run_sequence run_fallback"
  by (simp add: tree_engine_def)

definition gate_world :: world where
  "gate_world = \<lparr>wd_width = 2, wd_height = 1,
     wd_regions = [\<lparr>rg_id = ''gate'', rg_kind = RK_Chokepoint, rg_min = \<lparr>px = 1, py = 0\<rparr>, rg_max = \<lparr>px = 2, py = 1\<rparr>,
       rg_terrain = [], rg_mult = 1000, rg_closed = False\<rparr>],
     wd_cell = 1, wd_map_version = 1, wd_locations = []\<rparr>"

definition gate_vehicle :: vehicle_state where
  "gate_vehicle = \<lparr>vs_id = ''a'', vs_kind = ''ugv'', vs_pos = \<lparr>px = 0, py = 0\<rparr>, vs_vx = 0, vs_vy = 0, vs_speed = 2,
     vs_energy = 100, vs_payload = 0, vs_caps = [Cap_Search], vs_terrain = [], vs_active = True, vs_initial = 100,
     vs_cost = 1, vs_return = [], vs_capacity = 100\<rparr>"

definition gate_task :: task_state where
  "gate_task = \<lparr>ts_id = ''t'', ts_kind = ''search'', ts_target = \<lparr>px = 2, py = 0\<rparr>, ts_cap = Cap_Search, ts_payload = 0,
     ts_deadline = 20, ts_radius = 0, ts_agent = ''a'', ts_status = TS_Pending, ts_service = 2, ts_service_energy = 1,
     ts_progress = 0, ts_epoch = 0, ts_version = 0, ts_priority = 1, ts_score = 0, ts_position = 0\<rparr>"

definition gate_failure :: failure_detection where
  "gate_failure = \<lparr>fd_failed = ''b'', fd_detector = ''a'', fd_failure_tick = 0, fd_detection_tick = 0\<rparr>"

definition gate_observation :: "u64 \<Rightarrow> i64 \<Rightarrow> observation" where
  "gate_observation tick x = \<lparr>ob_tick = tick, ob_step_ms = 1000, ob_self = gate_vehicle\<lparr>vs_pos := \<lparr>px = x, py = 0\<rparr>\<rparr>,
     ob_assigned = [gate_task], ob_delivered = [], ob_world = gate_world, ob_available = [], ob_peers = [''a''], ob_epoch = 0,
     ob_policy = AP_Scripted, ob_known = [gate_task], ob_profile = [], ob_detections = [gate_failure],
     ob_reservations = [\<lparr>sr_resource = ''gate'', sr_agent = ''a'', sr_start = 0, sr_end = 5, sr_version = 1,
       sr_route_version = 1, sr_map_version = 1\<rparr>], ob_reachable = []\<rparr>"

definition gate_input :: "u64 \<Rightarrow> i64 \<Rightarrow> envelope" where
  "gate_input tick x = \<lparr>en_schema = 1, en_sequence = tick + 1, en_time_ms = tick * 1000, en_sender = ''sim'',
     en_recipient = ''a'', en_body = Body_observation (gate_observation tick x)\<rparr>"

abbreviation gate_act :: "envelope \<Rightarrow> controller \<Rightarrow> (envelope \<times> controller) result" where
  "gate_act \<equiv> controller_act run_sequence run_fallback (\<lambda>_. []) (\<lambda>_. None)"

lemma gate_evaluates:
  "(case new_controller ''a'' of Inl e \<Rightarrow> False | Inr c \<Rightarrow>
     (case gate_act (gate_input 0 0) c of Inl e \<Rightarrow> False | Inr (r1, c1) \<Rightarrow>
        aa_vx (en_action r1) = 1 \<and> aa_vy (en_action r1) = 0 \<and> aa_route_version (en_action r1) = 1
        \<and> map fd_failed (aa_detections (en_action r1)) = [''b''] \<and> map tr_kind (aa_reports (en_action r1)) = []
        \<and> (case gate_act (gate_input 1 2) c1 of Inl e \<Rightarrow> False | Inr (r2, c2) \<Rightarrow>
             map tr_kind (aa_reports (en_action r2)) = [TR_Working] \<and> map tr_task (aa_reports (en_action r2)) = [''t'']
             \<and> aa_detections (en_action r2) = [])))"
  by code_simp

lemma result_pairE:
  assumes "case r of Inl e \<Rightarrow> False | Inr (a, b) \<Rightarrow> P a b"
  obtains a b where "r = Inr (a, b)" "P a b"
  using assms by (cases r) auto

lemma resultE:
  assumes "case r of Inl e \<Rightarrow> False | Inr a \<Rightarrow> P a"
  obtains a where "r = Inr a" "P a"
  using assms by (cases r) auto

lemma gate_ticks:
  obtains c r1 c1 r2 c2 where "new_controller ''a'' = Inr c" "gate_act (gate_input 0 0) c = Inr (r1, c1)"
    "gate_act (gate_input 1 2) c1 = Inr (r2, c2)" "aa_vx (en_action r1) = 1" "aa_vy (en_action r1) = 0"
    "aa_route_version (en_action r1) = 1" "map fd_failed (aa_detections (en_action r1)) = [''b'']" "aa_detections (en_action r2) = []"
    "map tr_kind (aa_reports (en_action r2)) = [TR_Working]" "map tr_task (aa_reports (en_action r2)) = [''t'']"
  using gate_evaluates by (elim resultE result_pairE conjE) (rule that)

lemma gate_body [simp]:
  "en_body (gate_input tick x) = Body_observation (gate_observation tick x)"
  "ob_world (gate_observation tick x) = gate_world" "wd_map_version gate_world = 1"
  "vs_speed (ob_self (gate_observation tick x)) = 2"
  by (simp_all add: gate_input_def gate_observation_def gate_world_def gate_vehicle_def)

lemma gate_serving:
  assumes "new_controller ''a'' = Inr c" and "gate_act (gate_input 0 0) c = Inr (r1, c1)"
  shows "serving run_sequence run_fallback (\<lambda>_. []) (\<lambda>_. None) (\<lambda>_. gate_world) ''a'' (Some (gate_observation 0 0)) c1"
  by (rule serving.tick [OF serving.start [OF assms(1)] assms(2)]) simp_all

subsection \<open>Driving\<close>

text \<open>C23: a controller moves its vehicle only along its route and only where it may. If the action of a tick has a
  velocity, the velocity is along one axis towards the next waypoint of the current route, the mode says so, and the
  straight way to that waypoint either meets no chokepoint or the agent holds a committed window of this tick for the
  one it is checked against, granted for the route version the action carries and for the current map.\<close>

theorem drives_with_grant:
  assumes "tree_engine sequence fallback" and "en_body input = Body_observation ob"
    and "controller_act sequence fallback ser parse input c = Inr (reply, c')"
    and "aa_vx (en_action reply) \<noteq> 0 \<or> aa_vy (en_action reply) \<noteq> 0"
  shows "\<exists>r. ct_route c' = Some r \<and> ct_waypoint c' < length (ro_points r)
    \<and> drives_to ob (ro_points r ! ct_waypoint c') (en_action reply)
    \<and> way_open ob (ct_agent c) (aa_route_version (en_action reply)) (ro_points r ! ct_waypoint c')"
  using assms by (rule act_drives)

theorem drives_with_grant_witness:
  "\<exists>c r1 c1 nxt. new_controller ''a'' = Inr c \<and> gate_act (gate_input 0 0) c = Inr (r1, c1) \<and> aa_vx (en_action r1) = 1
     \<and> way_open (gate_observation 0 0) (ct_agent c) 1 nxt"
proof -
  obtain c r1 c1 where run: "new_controller ''a'' = Inr c" "gate_act (gate_input 0 0) c = Inr (r1, c1)"
    and out: "aa_vx (en_action r1) = 1" "aa_route_version (en_action r1) = 1" by (rule gate_ticks)
  from drives_with_grant [OF run_engine gate_body(1) run(2)] run out show ?thesis by fastforce
qed

subsection \<open>Routes\<close>

text \<open>C34: the route a controller follows is the planner's, and it is given up when the world changes. As long as the version
  of the map tells the worlds it saw apart and its vehicle can move, a route that it holds after a tick is one that the
  planner computes for the world and the vehicle as observed in that very tick. Either the planner computes it from the
  observed position to the place that the goal names, and the action announces it with its waypoints; or it is the route
  of the tick before, for the same goal and under the same version, and neither the world nor the length of a tick nor
  the speed, the cost and the terrain of the vehicle have changed since.\<close>

theorem routes_are_planned:
  assumes "serving sequence fallback ser parse W agent prev c" and "tree_engine sequence fallback"
    and "controller_act sequence fallback ser parse input c = Inr (reply, c')" and "en_body input = Body_observation ob"
    and "ob_world ob = W (wd_map_version (ob_world ob))" and "wd_map_version (ob_world ob) \<noteq> 0" and "vs_speed (ob_self ob) \<noteq> 0"
    and "ct_route c' = Some r"
  shows "(\<exists>start goal. route_from (ob_world ob) (ob_self ob) start goal (ob_step_ms ob) = Inr (Some r))
    \<and> ((\<exists>p. place_of ob (ct_goal c') p
          \<and> route_from (ob_world ob) (ob_self ob) (vs_pos (ob_self ob)) p (ob_step_ms ob) = Inr (Some r)
          \<and> aa_plan (en_action reply) = Some \<lparr>rp_version = ct_route_version c', rp_map_version = wd_map_version (ob_world ob),
              rp_goal = ct_goal c', rp_waypoints = ro_points r\<rparr>)
       \<or> ct_route c = Some r \<and> ct_goal c' = ct_goal c \<and> ct_route_version c' = ct_route_version c
         \<and> (\<exists>p. prev = Some p \<and> ob_world p = ob_world ob \<and> same_dynamics (ob_self p) (ob_self ob) \<and> ob_step_ms p = ob_step_ms ob))"
proof -
  note known = serving_informed [OF assms(1,2)]
  note served = serving.tick [OF assms(1,3-7)]
  have "plan_of ob r" using serving_plan [OF served assms(2)] assms(8) by auto
  moreover have "ct_map c' = wd_map_version (ob_world ob)"
    using serving_informed [OF served assms(2)] by (simp add: informed_def remembers_def)
  moreover have "planned_now ob c' \<and> aa_plan (en_action reply) = aa_plan (ct_out c') \<or> kept_route prev ob c c'"
    by (rule tick_route [OF assms(2) conjunct1 [OF known] _ assms(4) _ assms(3,8)])
      (use serving_plan [OF assms(1,2)] in blast, metis known assms(5))
  ultimately show ?thesis
    using assms(8) unfolding plan_of_def planned_now_def kept_route_def by (auto split: option.split_asm)
qed

theorem routes_are_planned_witness:
  "\<exists>c r1 c1 r. new_controller ''a'' = Inr c \<and> gate_act (gate_input 0 0) c = Inr (r1, c1) \<and> ct_route c1 = Some r
     \<and> (\<exists>p. route_from gate_world (ob_self (gate_observation 0 0)) (vs_pos (ob_self (gate_observation 0 0))) p
           (ob_step_ms (gate_observation 0 0)) = Inr (Some r))"
proof -
  obtain c r1 c1 where run: "new_controller ''a'' = Inr c" "gate_act (gate_input 0 0) c = Inr (r1, c1)"
    and out: "aa_vx (en_action r1) = 1" by (rule gate_ticks)
  from act_drives [OF run_engine gate_body(1) run(2)] out obtain r where r: "ct_route c1 = Some r" by auto
  from routes_are_planned [OF serving.start [OF run(1)] run_engine run(2) gate_body(1) _ _ _ r, of "\<lambda>_. gate_world"] run r
  show ?thesis by auto
qed

subsection \<open>Work\<close>

text \<open>C24: a controller works only on tasks it can finish. Whenever it reports to work on a task, that task is pending and
  assigned to this agent in the observation, the vehicle stands within its radius, has the capability and the payload,
  and the planner's route to it leaves the time to serve it by its deadline and the energy to serve it and keep the
  reserve.\<close>

theorem work_reports_justified:
  assumes "serving sequence fallback ser parse W agent prev c" and "tree_engine sequence fallback"
    and "controller_act sequence fallback ser parse input c = Inr (reply, c')" and "en_body input = Body_observation ob"
    and "ob_world ob = W (wd_map_version (ob_world ob))"
    and "x \<in> set (aa_reports (en_action reply))" and "tr_kind x = TR_Working"
  shows "\<exists>t. tr_task x = ts_id t \<and> work_justified ob agent t"
  using assms(3)
proof (cases rule: controller_act_cases)
  case (1 ob' status c1)
  with assms(4) have ob: "ob' = ob" by simp
  note known = serving_informed [OF assms(1,2)]
  have "no_work_reported (c\<lparr>ct_out := empty_action\<lparr>aa_tick := ob_tick ob\<rparr>\<rparr>)"
    by (simp add: no_work_reported_def empty_action_def)
  moreover have "ob_world p = ob_world ob" if "prev = Some p" "wd_map_version (ob_world p) = wd_map_version (ob_world ob)" for p
    using known that assms(5) by metis
  moreover have "informed prev (c\<lparr>ct_out := empty_action\<lparr>aa_tick := ob_tick ob\<rparr>\<rparr>)" using known by (simp add: informed_prepare)
  ultimately have "\<exists>t. tr_task x = ts_id t \<and> work_justified ob (ct_agent (c\<lparr>ct_out := empty_action\<lparr>aa_tick := ob_tick ob\<rparr>\<rparr>)) t"
    using tree_work [OF assms(2) _ _ fresh_still _ 1(6) [unfolded ob]] assms(6,7) 1(7) by (simp add: finish_action_fields)
  then show ?thesis using known by simp
qed

theorem work_reports_justified_witness:
  "\<exists>t. ts_id t = ''t'' \<and> work_justified (gate_observation 1 2) ''a'' t"
proof -
  obtain c r1 c1 r2 c2 where run: "new_controller ''a'' = Inr c" "gate_act (gate_input 0 0) c = Inr (r1, c1)"
    "gate_act (gate_input 1 2) c1 = Inr (r2, c2)"
    and out: "map tr_kind (aa_reports (en_action r2)) = [TR_Working]" "map tr_task (aa_reports (en_action r2)) = [''t'']"
    by (rule gate_ticks)
  from out obtain x where "x \<in> set (aa_reports (en_action r2))" "tr_kind x = TR_Working" "tr_task x = ''t''" by auto
  with work_reports_justified [OF gate_serving [OF run(1,2)] run_engine run(3) gate_body(1), of x] show ?thesis by auto
qed

subsection \<open>Failures\<close>

text \<open>C36: a controller reports every failure it is shown exactly once. Over any run of its process the detections in its
  replies have pairwise different keys (the failed agent and the tick of the detection), and their keys are those of all
  the detections in the observations it answered.\<close>

theorem failures_reported_once:
  assumes "tree_engine sequence fallback" and "new_controller agent = Inr c"
    and "agent_replies (controller_act sequence fallback ser parse) c inputs = Inr (replies, c')"
  shows "distinct (map failure_key (concat (map (aa_detections \<circ> en_action) replies)))
     \<and> failure_key ` set (concat (map (aa_detections \<circ> en_action) replies))
        = failure_key ` (\<Union>m \<in> set inputs. observed_failures m)"
  using replies_ledger [OF assms(1,3)] new_controller_fields [OF assms(2)] by simp

theorem failures_reported_once_witness:
  "\<exists>c replies c'. new_controller ''a'' = Inr c \<and> agent_replies gate_act c [gate_input 0 0, gate_input 1 2] = Inr (replies, c')
     \<and> length replies = 2 \<and> distinct (map failure_key (concat (map (aa_detections \<circ> en_action) replies)))
     \<and> failure_key gate_failure \<in> failure_key ` set (concat (map (aa_detections \<circ> en_action) replies))"
proof -
  obtain c r1 c1 r2 c2 where run: "new_controller ''a'' = Inr c" "gate_act (gate_input 0 0) c = Inr (r1, c1)"
    "gate_act (gate_input 1 2) c1 = Inr (r2, c2)" by (rule gate_ticks)
  then have replies: "agent_replies gate_act c [gate_input 0 0, gate_input 1 2] = Inr ([r1, r2], c2)" by simp
  have "gate_failure \<in> (\<Union>m \<in> set [gate_input 0 0, gate_input 1 2]. observed_failures m)"
    by (simp add: observed_failures_def gate_observation_def)
  then have "failure_key gate_failure \<in> failure_key ` set (concat (map (aa_detections \<circ> en_action) [r1, r2]))"
    "distinct (map failure_key (concat (map (aa_detections \<circ> en_action) [r1, r2])))"
    using failures_reported_once [OF run_engine run(1) replies] by blast+
  with run(1) replies show ?thesis by (metis length_Cons list.size(3) numeral_2_eq_2)
qed

end
