(* ===== verification/Mission_Props.thy ===== *)
theory Mission_Props
  imports Mission_Conduct Mission_Demo Autonomy_Props
begin

text \<open>
  What holds of a mission whatever the agents answer, and that the supervisor's checks of what crosses a process
  boundary refuse nothing the processes of this repository send.
\<close>

subsection \<open>An agent's answer bears the tick of its observation\<close>

text \<open>The whole tree keeps what the other nodes keep besides the writes from \<open>Validate\<close> on.\<close>

locale tree_keeps = writes_keep ob P for ob :: observation and P :: "controller \<Rightarrow> bool" +
  assumes synchronized: "synchronize_controller ob c = Inr (ok, c') \<Longrightarrow> P c \<Longrightarrow> P c'"
    and allocated: "allocate ser parse ob c = Inr (ok, c') \<Longrightarrow> P c \<Longrightarrow> P c'"
    and reported: "report c = Inr (ok, c') \<Longrightarrow> P c \<Longrightarrow> P c'"
begin

lemma tree_kept:
  assumes "tree_engine sequence fallback" and "P c"
    and "autonomy_tree sequence fallback ser parse ob c = Inr (status, c')"
  shows "P c'"
  using assms(1,3)
proof (cases rule: tree_cases)
  case (recovered c1 c2 c3)
  show ?thesis by (rule recover_kept [OF recovered(4) validate_kept [OF recovered(3) allocated [OF recovered(2) synchronized [OF recovered(1) assms(2)]]]])
next
  case (unplanned c1 c2 c3 c4)
  show ?thesis by (rule leaf_kept(1) [OF unplanned(5) recover_kept [OF unplanned(4) validate_kept [OF unplanned(3) allocated [OF unplanned(2) synchronized [OF unplanned(1) assms(2)]]]]])
next
  case (executed c1 c2 c3 c4 c5 c6)
  show ?thesis
    by (rule reported [OF executed(7) leaf_kept(2) [OF executed(6) leaf_kept(1) [OF executed(5) recover_kept [OF executed(4) validate_kept [OF executed(3) allocated [OF executed(2) synchronized [OF executed(1) assms(2)]]]]]]])
next
  case (navigated c1 c2 c3 c4 c5 c6 ok)
  show ?thesis
    by (rule leaf_kept(3) [OF navigated(7) leaf_kept(2) [OF navigated(6) leaf_kept(1) [OF navigated(5) recover_kept [OF navigated(4) validate_kept [OF navigated(3) allocated [OF navigated(2) synchronized [OF navigated(1) assms(2)]]]]]]])
qed

end

lemma tick_frames:
  "aa_tick (ct_out (report_failure c d)) = aa_tick (ct_out c)" "aa_tick (ct_out (invalidate reason b c)) = aa_tick (ct_out c)"
  "aa_tick (ct_out (expire_request ob c)) = aa_tick (ct_out c)"
  by (auto simp: report_failure_def clear_route_def invalidate_def expire_request_def Let_def split: option.splits)

lemma report_failures_tick: "aa_tick (ct_out (foldl report_failure c ds)) = aa_tick (ct_out c)"
  by (induction ds arbitrary: c) (simp_all add: tick_frames)

interpretation tick_kept: tree_keeps ob "\<lambda>c. aa_tick (ct_out c) = tick" for ob tick
  by unfold_locales
    (auto simp: write_defs only_cache_fields reserve_way_def drive_def synchronize_controller_def tick_frames report_failures_tick
      allocate_def report_def split: option.splits if_split_asm)

lemma reply_checked:
  assumes "tree_engine sequence fallback" and "controller_act sequence fallback ser parse e c = Inr (reply, c')"
  shows "check_reply reply e = Inr ()"
  using assms(2)
proof (cases rule: controller_act_cases)
  case (1 ob status c1)
  have "aa_tick (ct_out c1) = ob_tick ob"
    by (rule tick_kept.tree_kept [OF assms(1) _ 1(6)]) simp
  with 1 show ?thesis by (simp add: check_reply_def sent_observation_def finish_action_fields)
qed

subsection \<open>The agents through one exchange\<close>

text \<open>An agent that owes no answer, and one that has answered an observation or will not.\<close>

definition idle :: "(string, 'c option \<times> envelope list) ordered_map \<Rightarrow> envelope \<Rightarrow> bool" where
  "idle agents e \<longleftrightarrow> (\<exists>p. map_find agents (en_recipient e) = Some (p, []))"

definition answered :: "(string, 'c option \<times> envelope list) ordered_map \<Rightarrow> envelope \<Rightarrow> bool" where
  "answered agents e \<longleftrightarrow> (\<exists>p sent. map_find agents (en_recipient e) = Some (p, sent)
     \<and> (sent = [] \<or> (\<exists>reply. sent = [reply] \<and> check_reply reply e = Inr ())))"

definition stream_failure :: "string \<Rightarrow> exn \<Rightarrow> bool" where
  "stream_failure gone e \<longleftrightarrow> e = Runtime_error gone \<or> e = Runtime_error ''protocol frame is too large''"

definition checked_agent :: "(envelope \<Rightarrow> 'c \<Rightarrow> (envelope \<times> 'c) result) \<Rightarrow> bool" where
  "checked_agent act \<longleftrightarrow> (\<forall>e c. case act e c of Inl x \<Rightarrow> True | Inr (reply, c') \<Rightarrow> check_reply reply e = Inr ())"

lemma told:
  fixes act :: "envelope \<Rightarrow> 'c \<Rightarrow> (envelope \<times> 'c) result" and gone :: string and ser :: serializer and ser_entry :: "log_entry \<Rightarrow> bytes"
    and ser_frame :: "sim_frame \<Rightarrow> bytes" and ser_envelope :: "envelope \<Rightarrow> bytes" and begin_agent :: "string \<Rightarrow> 'c result"
  assumes "checked_agent act" and "idle agents e"
  defines "ch \<equiv> processes gone ser ser_entry ser_frame ser_envelope begin_agent act"
  shows "(\<exists>x. tell ch agents e = Inl x \<and> stream_failure gone x)
    \<or> (\<exists>p. tell ch agents e = Inr (map_put (en_recipient e) p agents) \<and> answered (map_put (en_recipient e) p agents) e)"
proof -
  from assms(2) obtain p where p: "map_find agents (en_recipient e) = Some (p, [])" by (auto simp: idle_def)
  show ?thesis
  proof (cases "length (ser_envelope e) > max_frame")
    case True
    then show ?thesis by (simp add: tell_def map_at_def p ch_def processes_def put_frame_def stream_failure_def)
  next
    case False
    then have "tell ch agents e = Inr (map_put (en_recipient e) (agent_receive ser_envelope act e (p, [])) agents)"
      by (simp add: tell_def map_at_def p ch_def processes_def put_frame_def)
    moreover obtain q sent where q: "agent_receive ser_envelope act e (p, []) = (q, sent)"
      by (cases "agent_receive ser_envelope act e (p, [])")
    then have "sent = [] \<or> (\<exists>reply. sent = [reply] \<and> check_reply reply e = Inr ())"
      using assms(1) [unfolded checked_agent_def, rule_format, of e "the p"]
      by (auto simp: agent_receive_def split: option.splits sum.splits if_splits)
    ultimately show ?thesis by (auto simp: answered_def q)
  qed
qed

lemma tell_all:
  fixes act :: "envelope \<Rightarrow> 'c \<Rightarrow> (envelope \<times> 'c) result" and gone :: string and ser :: serializer and ser_entry :: "log_entry \<Rightarrow> bytes"
    and ser_frame :: "sim_frame \<Rightarrow> bytes" and ser_envelope :: "envelope \<Rightarrow> bytes" and begin_agent :: "string \<Rightarrow> 'c result"
  assumes "checked_agent act"
  defines "ch \<equiv> processes gone ser ser_entry ser_frame ser_envelope begin_agent act"
  shows "\<forall>e \<in> set es. idle agents e \<Longrightarrow> distinct (map en_recipient es) \<Longrightarrow>
     (\<exists>x. foldR (tell ch) agents es = Inl x \<and> stream_failure gone x)
     \<or> (\<exists>agents'. foldR (tell ch) agents es = Inr agents' \<and> map fst agents' = map fst agents \<and> (\<forall>e \<in> set es. answered agents' e)
          \<and> (\<forall>j. j \<notin> en_recipient ` set es \<longrightarrow> map_find agents' j = map_find agents j))"
proof (induction es arbitrary: agents)
  case (Cons e es)
  then have "idle agents e" by simp
  from told [OF assms(1) this, of gone ser ser_entry ser_frame ser_envelope begin_agent, folded ch_def]
  consider (stop) x where "tell ch agents e = Inl x" "stream_failure gone x"
    | (go) p where "tell ch agents e = Inr (map_put (en_recipient e) p agents)" "answered (map_put (en_recipient e) p agents) e"
    by blast
  then show ?case
  proof cases
    case stop
    then show ?thesis by simp
  next
    case go
    let ?agents = "map_put (en_recipient e) p agents"
    have other: "en_recipient d \<noteq> en_recipient e" if "d \<in> set es" for d 
      using Cons.prems(2) that by (metis distinct.simps(2) image_eqI list.set_map list.simps(9))
    have "\<forall>d \<in> set es. idle ?agents d" using Cons.prems other by (auto simp: idle_def)
    from Cons.IH [OF this] Cons.prems(2) consider (stop) x where "foldR (tell ch) ?agents es = Inl x" "stream_failure gone x"
      | (told) agents' where "foldR (tell ch) ?agents es = Inr agents'" "map fst agents' = map fst ?agents"
          "\<forall>e \<in> set es. answered agents' e" "\<forall>j. j \<notin> en_recipient ` set es \<longrightarrow> map_find agents' j = map_find ?agents j"
      by auto
    then show ?thesis
    proof cases
      case stop
      then show ?thesis using go by simp
    next
      case told
      have "map fst ?agents = map fst agents" using \<open>idle agents e\<close> by (intro keys_put) (auto simp: idle_def)
      moreover have "answered agents' e" using told(4) Cons.prems(2) go(2) by (auto simp: answered_def)
      ultimately show ?thesis using told go(1) by auto
    qed
  qed
qed simp

lemma hear_all:
  fixes act :: "envelope \<Rightarrow> 'c \<Rightarrow> (envelope \<times> 'c) result" and gone :: string and ser :: serializer and ser_entry :: "log_entry \<Rightarrow> bytes"
    and ser_frame :: "sim_frame \<Rightarrow> bytes" and ser_envelope :: "envelope \<Rightarrow> bytes" and begin_agent :: "string \<Rightarrow> 'c result"
  defines "ch \<equiv> processes gone ser ser_entry ser_frame ser_envelope begin_agent act"
  shows "\<forall>e \<in> set es. answered agents e \<Longrightarrow> distinct (map en_recipient es) \<Longrightarrow>
     (\<exists>x. foldR (hear ch) (agents, rs) es = Inl x \<and> stream_failure gone x)
     \<or> (\<exists>agents' rs'. foldR (hear ch) (agents, rs) es = Inr (agents', rs') \<and> map fst agents' = map fst agents \<and> (\<forall>e \<in> set es. idle agents' e)
          \<and> (\<forall>j. j \<notin> en_recipient ` set es \<longrightarrow> map_find agents' j = map_find agents j))"
proof (induction es arbitrary: agents rs)
  case (Cons e es)
  then obtain p sent where p: "map_find agents (en_recipient e) = Some (p, sent)"
    and sent: "sent = [] \<or> (\<exists>reply. sent = [reply] \<and> check_reply reply e = Inr ())" by (auto simp: answered_def)
  show ?case
  proof (cases "sent = []")
    case True
    then have "hear ch (agents, rs) e = Inl (Runtime_error gone)"
      by (simp add: hear_def map_at_def p ch_def processes_def take_frame_def)
    then show ?thesis by (simp add: stream_failure_def)
  next
    case False
    with sent obtain reply where reply: "sent = [reply]" "check_reply reply e = Inr ()" by blast
    let ?agents = "map_put (en_recipient e) (p, []) agents"
    have go: "hear ch (agents, rs) e = Inr (?agents, rs @ [reply])"
      by (simp add: hear_def map_at_def p reply ch_def processes_def take_frame_def)
    have other: "en_recipient d \<noteq> en_recipient e" if "d \<in> set es" for d 
      using Cons.prems(2) that by (metis distinct.simps(2) image_eqI list.set_map list.simps(9))
    have "\<forall>d \<in> set es. answered ?agents d" using Cons.prems other by (auto simp: answered_def)
    from Cons.IH [OF this, of "rs @ [reply]"] Cons.prems(2)
    consider (stop) x where "foldR (hear ch) (?agents, rs @ [reply]) es = Inl x" "stream_failure gone x"
      | (heard) agents' rs' where "foldR (hear ch) (?agents, rs @ [reply]) es = Inr (agents', rs')" "map fst agents' = map fst ?agents"
          "\<forall>e \<in> set es. idle agents' e" "\<forall>j. j \<notin> en_recipient ` set es \<longrightarrow> map_find agents' j = map_find ?agents j"
      by auto
    then show ?thesis
    proof cases
      case stop
      then show ?thesis using go by simp
    next
      case heard
      have "map fst ?agents = map fst agents" using p by (intro keys_put) simp
      moreover have "idle agents' e" using heard(4) Cons.prems(2) by (auto simp: idle_def)
      ultimately show ?thesis using heard go by auto
    qed
  qed
qed simp

text \<open>The agents of a mission: none yet, or those of the vehicles, none of which owes an answer.\<close>

definition crew :: "string list \<Rightarrow> (string, 'c option \<times> envelope list) ordered_map \<Rightarrow> bool" where
  "crew ids agents \<longleftrightarrow> agents = [] \<or> map fst agents = ids \<and> (\<forall>i \<in> set ids. \<exists>p. map_find agents i = Some (p, []))"

lemma enlisted:
  fixes gone :: string and ser :: serializer and begin_agent :: "string \<Rightarrow> 'c result"
  assumes "crew (map en_recipient es) agents" and sorted: "strictly_sorted en_recipient es"
  obtains crew1 where "enlist_all (processes gone ser ser_entry ser_frame ser_envelope begin_agent act) es agents = Inr crew1"
    and "map fst crew1 = map en_recipient es" and "\<forall>e \<in> set es. idle crew1 e"
proof -
  let ?ch = "processes gone ser ser_entry ser_frame ser_envelope begin_agent act"
  let ?boot = "\<lambda>i. ((case begin_agent i of Inl x \<Rightarrow> None | Inr c \<Rightarrow> Some c), []) :: 'c option \<times> envelope list"
  have d: "distinct (map en_recipient es)" using sorted by (rule strictly_sorted_distinct)
  show thesis
  proof (cases "agents = []")
    case True
    have "foldR (enlist ?ch True) [] es = Inr ([] @ map (\<lambda>e. (en_recipient e, ?boot (en_recipient e))) es)"
      by (rule enlist_fresh) (use sorted in \<open>auto simp: processes_def split: sum.split\<close>)
    with True that show ?thesis
      by (simp add: enlist_all_def comp_def idle_def map_find_fresh [OF d sorted])
  next
    case False
    with assms(1) have c: "map fst agents = map en_recipient es" "\<forall>e \<in> set es. idle agents e"
      by (auto simp: crew_def idle_def)
    moreover have "foldR (enlist ?ch False) agents es = Inr agents"
      by (rule enlist_again) (use c(2) in \<open>auto simp: idle_def\<close>)
    moreover have "length agents = length es" using c(1) by (metis length_map)
    ultimately show ?thesis using False that by (simp add: enlist_all_def)
  qed
qed

text \<open>An exchange fails only by a stream, and leaves such a crew again.\<close>

lemma answers_crew:
  fixes act :: "envelope \<Rightarrow> 'c \<Rightarrow> (envelope \<times> 'c) result" and gone :: string and ser :: serializer and ser_entry :: "log_entry \<Rightarrow> bytes"
    and ser_frame :: "sim_frame \<Rightarrow> bytes" and ser_envelope :: "envelope \<Rightarrow> bytes" and begin_agent :: "string \<Rightarrow> 'c result"
  assumes "checked_agent act" and "crew (map en_recipient es) agents"
    and order: "order_observations b = Inr es" and sorted: "strictly_sorted en_recipient es"
  defines "ch \<equiv> processes gone ser ser_entry ser_frame ser_envelope begin_agent act"
  shows "(\<exists>x. answers ch b agents = Inl x \<and> stream_failure gone x)
    \<or> (\<exists>agents' acts. answers ch b agents = Inr (agents', acts) \<and> crew (map en_recipient es) agents')"
proof -
  have d: "distinct (map en_recipient es)" using sorted by (rule strictly_sorted_distinct)
  obtain crew1 where e: "enlist_all ch es agents = Inr crew1" and keys: "map fst crew1 = map en_recipient es"
    and ready: "\<forall>e \<in> set es. idle crew1 e" unfolding ch_def by (rule enlisted [OF assms(2) sorted])
  from tell_all [OF assms(1) ready d, of gone ser ser_entry ser_frame ser_envelope begin_agent, folded ch_def]
  consider (mute) x where "foldR (tell ch) crew1 es = Inl x" "stream_failure gone x"
    | (told) crew2 where "foldR (tell ch) crew1 es = Inr crew2" "map fst crew2 = map fst crew1" "\<forall>e \<in> set es. answered crew2 e"
    by blast
  then show ?thesis
  proof cases
    case mute
    then show ?thesis by (simp add: answers_def order e)
  next
    case told
    from hear_all [OF told(3) d, of gone ser ser_entry ser_frame ser_envelope begin_agent act "[]", folded ch_def]
    consider (deaf) x where "foldR (hear ch) (crew2, []) es = Inl x" "stream_failure gone x"
      | (heard) crew3 rs where "foldR (hear ch) (crew2, []) es = Inr (crew3, rs)" "map fst crew3 = map fst crew2"
          "\<forall>e \<in> set es. idle crew3 e"
      by blast
    then show ?thesis
    proof cases
      case deaf
      then show ?thesis by (simp add: answers_def order e told(1))
    next
      case heard
      then have "crew (map en_recipient es) crew3" using told(2) keys by (simp add: crew_def idle_def)
      then show ?thesis by (simp add: answers_def order e told(1) heard(1))
    qed
  qed
qed

text \<open>The outcome of the loop: only a stream can fail, and the agents that are left are those of the vehicles.\<close>

definition fair_outcome :: "string \<Rightarrow> string list \<Rightarrow> (sim_frame \<times> (string, 'c option \<times> envelope list) ordered_map \<times> 'q) result option \<Rightarrow> bool" where
  "fair_outcome gone ids r \<longleftrightarrow> (case r of
     None \<Rightarrow> False | Some (Inl e) \<Rightarrow> stream_failure gone e | Some (Inr (terminal, agents, q)) \<Rightarrow> crew ids agents)"

lemma dead_outcome: "fair_outcome gone ids (mission_loop (processes gone ser ser_entry ser_frame ser_envelope begin_agent act) (agents, None, []))"
  by (subst mission_loop.simps) (simp add: mission_turn_dead fair_outcome_def stream_failure_def)

lemma exchange_fair:
  fixes act :: "envelope \<Rightarrow> 'c \<Rightarrow> (envelope \<times> 'c) result" and gone :: string and ser :: serializer and ser_entry :: "log_entry \<Rightarrow> bytes"
    and ser_frame :: "sim_frame \<Rightarrow> bytes" and ser_envelope :: "envelope \<Rightarrow> bytes" and begin_agent :: "string \<Rightarrow> 'c result"
  assumes "checked_agent act" and r: "reachable ser sc s" and b: "observe s = Inr b"
    and ids: "ids = map vp_id (sc_vehicles (normalize_scenario sc))" and "crew ids agents" and "\<not> finished s"
  defines "ch \<equiv> processes gone ser ser_entry ser_frame ser_envelope begin_agent act"
  shows "(\<exists>x. exchange ch b (agents, Some (s, w, shown), []) = Inl x \<and> stream_failure gone x)
    \<or> (\<exists>agents' q. exchange ch b (agents, Some (s, w, shown), []) = Inr (agents', q) \<and> crew ids agents'
        \<and> (q = (None, []) \<or> (\<exists>s' w' shown' b'. q = (Some (s', w', shown'), [Observations_frame b']) \<and> observe s' = Inr b'
              \<and> reachable ser sc s' \<and> unat (si_tick s') = unat (si_tick s) + 1)))"
proof -
  let ?es = "bt_observations b"
  have who: "map en_recipient ?es = ids" "strictly_sorted en_recipient ?es"
    using observations_ordered(2) [OF r b] reachable_ok [OF r] by (simp_all add: ids sim_ok_def vehicles_ok_def)
  from answers_crew [OF assms(1) _ observations_ordered(1) [OF r b] who(2), of agents gone ser ser_entry ser_frame ser_envelope begin_agent,
    folded ch_def, unfolded who(1), OF assms(5)]
  consider (stop) x where "answers ch b agents = Inl x" "stream_failure gone x"
    | (go) agents' acts where "answers ch b agents = Inr (agents', acts)" "crew ids agents'" by blast
  then show ?thesis
  proof cases
    case stop
    then show ?thesis by (simp add: exchange_def)
  next
    case go
    show ?thesis
    proof (cases "length (ser_frame (Actions_frame acts)) > max_frame")
      case True
      then show ?thesis
        by (simp add: exchange_def go(1)) (simp add: ch_def processes_def put_frame_def stream_failure_def)
    next
      case False
      let ?q = "sim_receive ser ser_entry ser_frame (Actions_frame acts) (Some (s, w, shown), [])"
      have x: "exchange ch b (agents, Some (s, w, shown), []) = Inr (agents', ?q)"
        using False by (cases ?q) (simp add: exchange_def go(1), simp add: ch_def processes_def put_frame_def)
      obtain p sent where q: "?q = (p, sent)" by (cases ?q)
      from sim_receive_answers [OF q assms(6)] consider "?q = (None, [])"
        | s' w' shown' out where "?q = (Some (s', w', shown'), [Observations_frame (so_observations out)])" "step ser acts s = Inr (s', out)"
        unfolding q by blast
      then show ?thesis
      proof cases
        case 1
        then show ?thesis using x go(2) by simp
      next
        case 2
        note next_state = reachable.another [OF r 2(2) [unfolded step_def]] reachable_step(3) [OF r 2(2) [unfolded step_def]] step_observes [OF 2(2)]
        then show ?thesis using x go(2) 2(1) by auto
      qed
    qed
  qed
qed

lemma mission_loop_fair:
  fixes act :: "envelope \<Rightarrow> 'c \<Rightarrow> (envelope \<times> 'c) result"
  assumes act: "checked_agent act"
  shows "reachable ser sc s \<Longrightarrow> observe s = Inr b \<Longrightarrow> crew (map vp_id (sc_vehicles (normalize_scenario sc))) agents \<Longrightarrow>
    fair_outcome gone (map vp_id (sc_vehicles (normalize_scenario sc)))
      (mission_loop (processes gone ser ser_entry ser_frame ser_envelope begin_agent act) (agents, Some (s, w, shown), [Observations_frame b]))"
proof (induction "unat (sc_max_ticks (normalize_scenario sc)) - unat (si_tick s)" arbitrary: s b w shown agents rule: less_induct)
  case less
  let ?ch = "processes gone ser ser_entry ser_frame ser_envelope begin_agent act"
  note loop = mission_loop.simps [of ?ch "(agents, Some (s, w, shown), [Observations_frame b])"]
  note turn = mission_turn_live [OF less.prems(2), of gone ser ser_entry ser_frame ser_envelope begin_agent act agents w shown]
  show ?case
  proof (cases "finished s")
    case True
    then show ?thesis unfolding loop turn using less.prems(3) by (simp add: fair_outcome_def)
  next
    case False
    from exchange_fair [OF act less.prems(1,2) refl less.prems(3) False, of gone ser_entry ser_frame ser_envelope begin_agent w shown]
    consider (stop) x where "exchange ?ch b (agents, Some (s, w, shown), []) = Inl x" "stream_failure gone x"
      | (die) agents' where "exchange ?ch b (agents, Some (s, w, shown), []) = Inr (agents', None, [])"
      | (go) agents' s' w' shown' b' where
          "exchange ?ch b (agents, Some (s, w, shown), []) = Inr (agents', Some (s', w', shown'), [Observations_frame b'])"
          "crew (map vp_id (sc_vehicles (normalize_scenario sc))) agents'" "observe s' = Inr b'" "reachable ser sc s'"
          "unat (si_tick s') = unat (si_tick s) + 1"
      by blast
    then show ?thesis
    proof cases
      case stop
      then show ?thesis unfolding loop turn using False by (simp add: fair_outcome_def)
    next
      case die
      then show ?thesis unfolding loop turn using False dead_outcome by simp
    next
      case go
      have "unat (si_tick s') \<le> unat (sc_max_ticks (normalize_scenario sc))"
        using reachable_run [OF go(4)] by (simp add: run_ok_def word_le_nat_alt)
      then have "unat (sc_max_ticks (normalize_scenario sc)) - unat (si_tick s')
          < unat (sc_max_ticks (normalize_scenario sc)) - unat (si_tick s)" using go(5) by linarith
      from less.hyps [OF this go(4,3,2)] show ?thesis unfolding loop turn using False go(1) by simp
    qed
  qed
qed

lemma dismissed:
  "foldR (\<lambda>_ p. dismiss (processes gone ser ser_entry ser_frame ser_envelope begin_agent act) p) () agents = Inl x \<Longrightarrow>
     \<exists>i \<in> fst ` set agents. x = Runtime_error (''agent process failed: '' @ i)"
  by (induction agents) (auto simp: dismiss_def processes_def bindR_def require_def split: sum.split_asm if_split_asm)

subsection \<open>Properties\<close>

text \<open>C10: a mission always ends. Whatever the agents answer and whenever a process dies, the supervisor comes to a result:
  the simulation's ticks are bounded, and a process that has died is noticed at the next read.\<close>

theorem mission_ends:
  "\<exists>r. run_mission (processes gone ser ser_entry ser_frame ser_envelope begin_agent act) (sim_start ser ser_entry ser_frame sc) = Some r"
  by (rule run_mission_ends)

text \<open>C7: a mission that succeeds is a simulation run, fed with the agents' replies, and it can be reproduced from its log.
  There are batches of actions, batches of observations and a final state such that, tick by tick, the observations are
  those the simulation made in its state, the actions are the replies with which the agents' function answered the
  observation addressed to each of them, each agent going on from the state in which its last call left it, and the
  next state is the simulation's step with these actions. The terminal frame is the last observations and holds the
  summary of the final state; the simulation process, run on the bytes of these batches, gives this summary, a log, and
  the bytes of these observations; and replaying the log gives the same summary and bytes.\<close>

theorem mission_recorded:
  assumes "parses_back ser_frame parse_frame" and "parses_back ser_entry parse_entry"
    and "run_mission (processes gone ser ser_entry ser_frame ser_envelope begin_agent act) (sim_start ser ser_entry ser_frame sc)
      = Some (Inr terminal)"
  shows "\<exists>s batches obs s' shown log. new_simulator ser sc = Inr s \<and> conducted ser act s (at_start begin_agent) batches obs s'
    \<and> terminal = Observations_frame (List.last obs) \<and> bt_summary (List.last obs) = Some (summarize s')
    \<and> run_simulation ser ser_entry ser_frame parse_frame True sc (requests ser_frame batches) = Inr (summarize s', shown, log)
    \<and> write_frames ser_frame (map Observations_frame obs) [] = Inr shown
    \<and> export_replay_trace ser parse_entry ser_frame sc (Some log) = Inr (summarize s', shown)"
proof -
  obtain s batches obs s' shown log where run: "new_simulator ser sc = Inr s" "conducted ser act s (at_start begin_agent) batches obs s'"
    "terminal = Observations_frame (List.last obs)"
    "run_simulation ser ser_entry ser_frame parse_frame True sc (requests ser_frame batches) = Inr (summarize s', shown, log)"
    "write_frames ser_frame (map Observations_frame obs) [] = Inr shown"
    by (rule run_mission_conducted [OF assms(1,3)])
  have "bt_summary (List.last obs) = Some (summarize s')"
    using conducted_shown [OF run(2)] observe_batch by fastforce
  moreover have "export_replay_trace ser parse_entry ser_frame sc (Some log) = Inr (summarize s', shown)"
    using run_simulation_replays [OF assms(2) run(4)] by (auto simp: export_replay_trace_def)
  ultimately show ?thesis using run by blast
qed

theorem mission_recorded_witness:
  "\<exists>es fs s batches obs s' shown log.
     run_mission (idle_mission (demo_encode es) (demo_encode fs)) (sim_start (\<lambda>_. []) (demo_encode es) (demo_encode fs) demo_short)
       = Some (Inr (Observations_frame (List.last obs)))
     \<and> conducted (\<lambda>_. []) (\<lambda>e c. Inr (idle_reply e, c)) s (at_start (\<lambda>_. Inr ())) batches obs s'
     \<and> export_replay_trace (\<lambda>_. []) (demo_decode es) (demo_encode fs) demo_short (Some log) = Inr (summarize s', shown)"
proof -
  obtain es fs terminal where run: "run_mission (idle_mission (demo_encode es) (demo_encode fs))
      (sim_start (\<lambda>_. []) (demo_encode es) (demo_encode fs) demo_short) = Some (Inr terminal)" by (rule idle_mission_succeeds)
  from mission_recorded [OF demo_codec demo_codec run [unfolded idle_mission_def]] run show ?thesis by blast
qed

text \<open>C9: what crosses a process boundary is well formed. In every reachable state the supervisor accepts the simulator's
  observations, one for each vehicle and in the order of the vehicles already, and it accepts whatever a controller
  answers.\<close>

theorem envelopes_accepted:
  assumes "tree_engine sequence fallback" and "reachable ser sc s" and "observe s = Inr b"
  shows "order_observations b = Inr (bt_observations b) \<and> map en_recipient (bt_observations b) = map vh_id (si_vehicles s)
    \<and> (\<forall>e c reply c'. controller_act sequence fallback ser' parse e c = Inr (reply, c') \<longrightarrow> check_reply reply e = Inr ())"
  using observations_ordered [OF assms(2,3)] reply_checked [OF assms(1)] by blast

theorem envelopes_accepted_witness:
  "\<exists>s b. reachable (\<lambda>_. []) demo_short s \<and> observe s = Inr b \<and> order_observations b = Inr (bt_observations b)"
proof -
  obtain s b a out where run: "new_simulator (\<lambda>_. []) demo_short = Inr s" "observe s = Inr b" by (rule short_run)
  from envelopes_accepted [OF run_engine reachable.start [OF run(1)] run(2)] reachable.start [OF run(1)] run(2) show ?thesis by blast
qed

text \<open>C8: so a mission of these processes fails only where a process closed its stream or exited with an error, or where a
  frame was too large. None of the supervisor's protocol errors occurs.\<close>

theorem mission_failures:
  assumes "tree_engine sequence fallback"
    and "run_mission (processes gone ser ser_entry ser_frame ser_envelope new_controller (controller_act sequence fallback ser parse))
      (sim_start ser ser_entry ser_frame sc) = Some (Inl x)"
  shows "x \<in> {Runtime_error gone, Runtime_error ''protocol frame is too large'',
      Runtime_error ''simulator process failed''}
    \<or> (\<exists>v. v \<in> set (sc_vehicles (normalize_scenario sc)) \<and> x = Runtime_error (''agent process failed: '' @ vp_id v))"
proof -
  let ?ch = "processes gone ser ser_entry ser_frame ser_envelope new_controller (controller_act sequence fallback ser parse)"
  let ?ids = "map vp_id (sc_vehicles (normalize_scenario sc))"
  have act: "checked_agent (controller_act sequence fallback ser parse)"
    using reply_checked [OF assms(1)] by (auto simp: checked_agent_def split: sum.split)
  have "fair_outcome gone ?ids (mission_loop ?ch ([], sim_start ser ser_entry ser_frame sc))"
  proof (cases rule: sim_start_cases [of ser ser_entry ser_frame sc])
    case dead
    then show ?thesis using dead_outcome by simp
  next
    case (up s w first shown)
    then show ?thesis using mission_loop_fair [OF act reachable.start] by (simp add: crew_def)
  qed
  then consider (stream) e where "mission_loop ?ch ([], sim_start ser ser_entry ser_frame sc) = Some (Inl e)" "stream_failure gone e"
    | (over) terminal agents q where "mission_loop ?ch ([], sim_start ser ser_entry ser_frame sc) = Some (Inr (terminal, agents, q))"
        "crew ?ids agents"
    by (auto simp: fair_outcome_def split: option.split_asm sum.split_asm)
  then show ?thesis
  proof cases
    case stream
    with assms(2) show ?thesis by (auto simp: run_mission_def stream_failure_def)
  next
    case over
    show ?thesis
    proof (cases "foldR (\<lambda>_ p. dismiss ?ch p) () agents")
      case (Inl y)
      from dismissed [OF Inl] obtain i where "i \<in> fst ` set agents" "y = Runtime_error (''agent process failed: '' @ i)" by blast
      moreover have "i \<in> set ?ids" using calculation(1) over(2) by (auto simp: crew_def simp flip: set_map)
      moreover have "x = y" using assms(2) over(1) Inl by (simp add: run_mission_def)
      ultimately show ?thesis by auto
    next
      case (Inr u)
      then have "bindR (ch_finish_sim ?ch q) (\<lambda>(code, q'). bindR (require (code = 0) (Runtime_error ''simulator process failed''))
          (\<lambda>_. bindR (ch_check_stop ?ch q') (\<lambda>_. Inr terminal))) = Inl x" using assms(2) over(1) by (simp add: run_mission_def)
      then show ?thesis by (auto simp: processes_def require_def split: if_split_asm)
    qed
  qed
qed

text \<open>The supervisor cannot hand the first observation to an agent: it does not fit into a frame.\<close>

lemma oversized:
  fixes gone :: string and ser_entry :: "log_entry \<Rightarrow> bytes" and ser_frame :: "sim_frame \<Rightarrow> bytes" and begin_agent :: "string \<Rightarrow> 'c result" and act :: "envelope \<Rightarrow> 'c \<Rightarrow> (envelope \<times> 'c) result"
  assumes "reachable ser sc s" and "observe s = Inr b" and "\<not> finished s"
  defines "ch \<equiv> processes gone ser ser_entry ser_frame (\<lambda>_. replicate (Suc max_frame) (CHR ''x'')) begin_agent act"
  shows "mission_loop ch ([], Some (s, w, shown), [Observations_frame b]) = Some (Inl (Runtime_error ''protocol frame is too large''))"
proof -
  note order = observations_ordered [OF assms(1,2)]
  obtain e es where es: "bt_observations b = e # es"
    using reachable_ids(1) [OF assms(1)] arg_cong [OF order(2), of length] by (cases "bt_observations b") auto
  have sorted: "strictly_sorted en_recipient (bt_observations b)" using reachable_ids(3) [OF assms(1)] by (simp add: order(2))
  have none: "crew (map en_recipient (bt_observations b)) ([] :: (string \<times> 'c option \<times> envelope list) list)" by (simp add: crew_def)
  obtain crew1 where enlist: "enlist_all ch (bt_observations b) [] = Inr crew1" and "\<forall>e \<in> set (bt_observations b). idle crew1 e"
    unfolding ch_def by (rule enlisted [OF none sorted])
  then obtain p where "map_find crew1 (en_recipient e) = Some (p, [])" by (auto simp: es idle_def)
  then have "tell ch crew1 e = Inl (Runtime_error ''protocol frame is too large'')"
    by (simp add: tell_def map_at_def) (simp add: ch_def processes_def put_frame_def)
  then have "exchange ch b ([], Some (s, w, shown), []) = Inl (Runtime_error ''protocol frame is too large'')"
    by (simp add: exchange_def answers_def order(1) enlist) (simp add: es)
  then show ?thesis
    using assms(3) by (subst mission_loop.simps) (simp add: ch_def mission_turn_live [OF assms(2)])
qed

theorem mission_failures_witness:
  "\<exists>es fs x. run_mission (processes ''process closed its protocol stream'' (\<lambda>_. []) (demo_encode es) (demo_encode fs) (\<lambda>_. replicate (Suc max_frame) (CHR ''x'')) new_controller
        (controller_act run_sequence run_fallback (\<lambda>_. []) (\<lambda>_. None))) (sim_start (\<lambda>_. []) (demo_encode es) (demo_encode fs) demo_short)
      = Some (Inl x) \<and> x \<noteq> Runtime_error ''observation crossed an agent boundary''"
proof -
  let ?ser = "(\<lambda>_. []) :: serializer"
  obtain s b a out where run: "new_simulator ?ser demo_short = Inr s" "observe s = Inr b" "\<not> finished s" by (rule short_run)
  let ?es = "[Header_entry \<lparr>lh_schema = 1, lh_name = sc_name demo_short, lh_seed = sc_seed demo_short, lh_hash = scenario_hash ?ser demo_short\<rparr>]"
  let ?ch = "processes ''process closed its protocol stream'' ?ser (demo_encode ?es) (demo_encode [Observations_frame b]) (\<lambda>_. replicate (Suc max_frame) (CHR ''x'')) new_controller
        (controller_act run_sequence run_fallback (\<lambda>_. []) (\<lambda>_. None))"
  have codes: "length (demo_encode [m] m) \<le> max_frame" for m :: "'m" by (rule demo_encode_short) (simp_all add: max_frame_def)
  have w: "write_frame (demo_encode [m]) True m out = Inr (out @ frame_of (demo_encode [m]) m)" for m :: "'m" and out
    using codes [of m] by (simp add: write_frame_eq)
  obtain w0 shown where up: "sim_start ?ser (demo_encode ?es) (demo_encode [Observations_frame b]) demo_short
      = (Some (s, w0, shown), [Observations_frame b])"
    by (simp add: sim_start_def open_log_def run(1,2) w)
  have "run_mission ?ch (sim_start ?ser (demo_encode ?es) (demo_encode [Observations_frame b]) demo_short)
      = Some (Inl (Runtime_error ''protocol frame is too large''))"
    unfolding run_mission_def up oversized [OF reachable.start [OF run(1)] run(2,3)] by simp
  with mission_failures [OF run_engine this] show ?thesis by blast
qed

end
