(* ===== verification/Pipes.thy ===== *)
theory Pipes
  imports Framing
begin

text \<open>
  What the supervisor asks of the operating system (\<^verbatim>\<open>runner/src/main.cpp\<close>): frames read from and written to
  non-blocking pipes, and the end of a child process. The system calls are the fields of \<open>system\<close>, functions of a state
  \<open>'o\<close>; an exception does not need it any more. \<open>None\<close> is a loop that never ends.
\<close>

subsection \<open>System calls\<close>

text \<open>\<open>poll\<close> on one descriptor: an event that was asked for, \<open>EINTR\<close>, or anything else.\<close>

datatype poll_outcome = Poll_ready | Poll_interrupted | Poll_other

text \<open>\<open>read\<close> and \<open>write\<close>: a positive count, zero, one of \<open>EINTR\<close>, \<open>EAGAIN\<close> and \<open>EWOULDBLOCK\<close>, or another error.\<close>

datatype 'b transfer = Moved 'b | Closed | Retry | Broken string

text \<open>What \<open>waitpid\<close> says of a child, and its two uses: with \<open>WNOHANG\<close> and without.\<close>

datatype exit_status = Exited int | Signaled int | Other_status

datatype wait_outcome = Ended exit_status | Running | Wait_interrupted | Wait_failed string

datatype signal = SIGTERM | SIGKILL

record 'o system =
  sy_stopped :: "'o \<Rightarrow> bool"
  sy_poll :: "'o \<Rightarrow> poll_outcome \<times> 'o"
  sy_read :: "nat \<Rightarrow> 'o \<Rightarrow> bytes transfer \<times> 'o"
  sy_write :: "bytes \<Rightarrow> 'o \<Rightarrow> nat transfer \<times> 'o"
  sy_waitpid :: "'o \<Rightarrow> wait_outcome \<times> 'o"
  sy_wait_end :: "'o \<Rightarrow> wait_outcome \<times> 'o"
  sy_kill :: "signal \<Rightarrow> 'o \<Rightarrow> 'o"
  sy_pause :: "int \<Rightarrow> 'o \<Rightarrow> 'o"

subsection \<open>Reading and writing\<close>

definition check_stop :: "'o system \<Rightarrow> 'o \<Rightarrow> unit result" where
  "check_stop sys st = require (\<not> sy_stopped sys st) (Runtime_error ''supervisor terminated'')"

partial_function (option) await :: "'o system \<Rightarrow> string \<Rightarrow> 'o \<Rightarrow> 'o result option" where
  "await sys error st =
     (case check_stop sys st of
        Inl e \<Rightarrow> Some (Inl e)
      | Inr u \<Rightarrow>
          (case sy_poll sys st of
             (Poll_ready, st') \<Rightarrow> Some (Inr st')
           | (Poll_interrupted, st') \<Rightarrow> await sys error st'
           | (Poll_other, st') \<Rightarrow> Some (Inl (Runtime_error error))))"

text \<open>\<open>got\<close> is what the buffer holds up to the offset, \<open>bs\<close> what is still to be written.\<close>

partial_function (option) read_exact :: "'o system \<Rightarrow> nat \<Rightarrow> bytes \<Rightarrow> 'o \<Rightarrow> (bytes \<times> 'o) result option" where
  "read_exact sys sz got st =
     (if length got \<ge> sz then Some (Inr (got, st))
      else
        (case await sys ''process response timed out'' st of
           None \<Rightarrow> None
         | Some (Inl e) \<Rightarrow> Some (Inl e)
         | Some (Inr st1) \<Rightarrow>
             (case sy_read sys (sz - length got) st1 of
                (Moved bs, st2) \<Rightarrow> read_exact sys sz (got @ bs) st2
              | (Closed, st2) \<Rightarrow> Some (Inl (Runtime_error ''process closed its protocol stream''))
              | (Retry, st2) \<Rightarrow> read_exact sys sz got st2
              | (Broken e, st2) \<Rightarrow> Some (Inl (Runtime_error e)))))"

partial_function (option) write_exact :: "'o system \<Rightarrow> bytes \<Rightarrow> 'o \<Rightarrow> 'o result option" where
  "write_exact sys bs st =
     (if bs = [] then Some (Inr st)
      else
        (case await sys ''process request timed out'' st of
           None \<Rightarrow> None
         | Some (Inl e) \<Rightarrow> Some (Inl e)
         | Some (Inr st1) \<Rightarrow>
             (case sy_write sys bs st1 of
                (Moved n, st2) \<Rightarrow> write_exact sys (drop n bs) st2
              | (Closed, st2) \<Rightarrow> Some (Inl (Runtime_error ''process closed its protocol stream''))
              | (Retry, st2) \<Rightarrow> write_exact sys bs st2
              | (Broken e, st2) \<Rightarrow> Some (Inl (Runtime_error e)))))"

text \<open>Unlike a file, a pipe that ends before a frame is an error.\<close>

definition receive_frame :: "'o system \<Rightarrow> (bytes \<Rightarrow> 'm option) \<Rightarrow> 'o \<Rightarrow> ('m \<times> 'o) result option" where
  "receive_frame sys parse st =
     (case read_exact sys 4 [] st of
        None \<Rightarrow> None
      | Some (Inl e) \<Rightarrow> Some (Inl e)
      | Some (Inr (header, st1)) \<Rightarrow>
          let sz = header_size header
          in if unat sz > max_frame then Some (Inl (Runtime_error ''process returned an oversized protocol frame''))
             else
               (case read_exact sys (unat sz) [] st1 of
                  None \<Rightarrow> None
                | Some (Inl e) \<Rightarrow> Some (Inl e)
                | Some (Inr (payload, st2)) \<Rightarrow>
                    (case parse payload of
                       None \<Rightarrow> Some (Inl (Runtime_error ''process returned an invalid protocol frame''))
                     | Some m \<Rightarrow> Some (Inr (m, st2)))))"

definition send_frame :: "'o system \<Rightarrow> ('m \<Rightarrow> bytes) \<Rightarrow> 'm \<Rightarrow> 'o \<Rightarrow> 'o result option" where
  "send_frame sys ser m st =
     (let payload = ser m
      in if length payload > max_frame then Some (Inl (Runtime_error ''protocol frame is too large''))
         else
           (case write_exact sys (frame_header (of_nat (length payload))) st of
              None \<Rightarrow> None
            | Some (Inl e) \<Rightarrow> Some (Inl e)
            | Some (Inr st1) \<Rightarrow> write_exact sys payload st1))"

subsection \<open>The end of a process\<close>

text \<open>\<open>wait\<close>: no status when the time is over. Each turn waits at most ten milliseconds.\<close>

function wait_child :: "'o system \<Rightarrow> int \<Rightarrow> int \<Rightarrow> 'o \<Rightarrow> (exit_status option \<times> 'o) result" where
  "wait_child sys timeout waited st =
     (case sy_waitpid sys st of
        (Ended status, st1) \<Rightarrow> Inr (Some status, st1)
      | (Wait_failed e, st1) \<Rightarrow> Inl (Runtime_error e)
      | (_, st1) \<Rightarrow>
          if waited \<ge> timeout then Inr (None, st1)
          else
            let interval = min 10 (timeout - waited)
            in wait_child sys timeout (waited + interval) (sy_pause sys interval st1))"
  by pat_completeness auto
termination
  by (relation "measure (\<lambda>(sys, timeout, waited, st). nat (timeout - waited))") auto

declare wait_child.simps [simp del]

text \<open>The loop after \<open>SIGKILL\<close>: until \<open>waitpid\<close> is not interrupted. The status variable starts as zero, which is an
  exit with code zero.\<close>

partial_function (option) reap :: "'o system \<Rightarrow> 'o \<Rightarrow> (exit_status \<times> 'o) option" where
  "reap sys st =
     (case sy_wait_end sys st of
        (Ended status, st1) \<Rightarrow> Some (status, st1)
      | (Wait_interrupted, st1) \<Rightarrow> reap sys st1
      | (_, st1) \<Rightarrow> Some (Exited 0, st1))"

record process =
  pr_pid :: int
  pr_input :: int
  pr_output :: int

definition exit_code :: "exit_status \<Rightarrow> int" where
  "exit_code status = (case status of Exited n \<Rightarrow> n | Signaled n \<Rightarrow> 128 + n | Other_status \<Rightarrow> 1)"

text \<open>\<open>finish\<close>: the child's input is closed, then it is waited for, asked to terminate and killed.\<close>

definition finish :: "'o system \<Rightarrow> bool \<Rightarrow> int \<Rightarrow> process \<Rightarrow> 'o \<Rightarrow> (int \<times> process \<times> 'o) result option" where
  "finish sys force timeout p st =
     (let p = p\<lparr>pr_input := -1\<rparr>
      in if pr_pid p \<le> 0 then Some (Inr (0, p\<lparr>pr_output := -1\<rparr>, st))
         else
           let st1 = (if force then sy_kill sys SIGTERM st else st)
           in case bindR (wait_child sys timeout 0 st1) (\<lambda>(status, st2).
                    if status = None \<and> \<not> force then wait_child sys timeout 0 (sy_kill sys SIGTERM st2)
                    else Inr (status, st2)) of
                Inl e \<Rightarrow> Some (Inl e)
              | Inr (Some status, st3) \<Rightarrow> Some (Inr (exit_code status, p\<lparr>pr_pid := -1, pr_output := -1\<rparr>, st3))
              | Inr (None, st3) \<Rightarrow>
                  (case reap sys (sy_kill sys SIGKILL st3) of
                     None \<Rightarrow> None
                   | Some (status, st4) \<Rightarrow> Some (Inr (exit_code status, p\<lparr>pr_pid := -1, pr_output := -1\<rparr>, st4))))"

definition terminate :: "'o system \<Rightarrow> process \<Rightarrow> 'o \<Rightarrow> process \<times> 'o" where
  "terminate sys p st = (p\<lparr>pr_input := -1\<rparr>, if pr_pid p > 0 then sy_kill sys SIGTERM st else st)"

text \<open>The destructor drops what \<open>finish\<close> throws. Where it throws, the handle stays as it is but for the input.\<close>

definition destroy :: "'o system \<Rightarrow> process \<Rightarrow> 'o \<Rightarrow> unit option" where
  "destroy sys p st = (case finish sys True 100 p st of None \<Rightarrow> None | Some r \<Rightarrow> Some ())"

subsection \<open>The start of a process\<close>

text \<open>The descriptors that are open, as far as the supervisor opens and closes them. The results of the system calls are
  parameters: the two ends of a new pipe, and whether a call succeeds.\<close>

definition close_fd :: "int \<Rightarrow> int set \<Rightarrow> int set" where
  "close_fd d fds = (if d \<ge> 0 then fds - {d} else fds)"

record pipe_calls =
  pc_pipe :: "(int \<times> int) option"
  pc_first :: bool
  pc_second :: bool

definition make_pipe :: "string \<Rightarrow> pipe_calls \<Rightarrow> int set \<Rightarrow> (int \<times> int) result \<times> int set" where
  "make_pipe failure c fds =
     (case pc_pipe c of
        None \<Rightarrow> (Inl (Runtime_error failure), fds)
      | Some (r, w) \<Rightarrow>
          let fds' = fds \<union> {r, w}
          in if \<not> pc_first c \<or> \<not> pc_second c then (Inl (Runtime_error failure), close_fd w (close_fd r fds'))
             else (Inr (r, w), fds'))"

text \<open>\<open>sc_fork\<close>: the child, if it could be made; \<open>sc_reaped\<close>: \<open>finish\<close> returns where the constructor calls it.\<close>

record spawn_calls =
  sc_input :: pipe_calls
  sc_output :: pipe_calls
  sc_fork :: "int option"
  sc_nonblock :: bool
  sc_reaped :: bool

definition spawn_process :: "string \<Rightarrow> spawn_calls \<Rightarrow> int set \<Rightarrow> process result \<times> int set" where
  "spawn_process failure c fds =
     (case make_pipe failure (sc_input c) fds of
        (Inl e, fds1) \<Rightarrow> (Inl e, fds1)
      | (Inr (in_read, in_write), fds1) \<Rightarrow>
          (case make_pipe failure (sc_output c) fds1 of
             (Inl e, fds2) \<Rightarrow> (Inl e, close_fd in_write (close_fd in_read fds2))
           | (Inr (out_read, out_write), fds2) \<Rightarrow>
               let fds3 = close_fd out_write (close_fd in_read fds2)
               in case sc_fork c of
                    None \<Rightarrow> (Inl (Runtime_error failure), close_fd out_read (close_fd in_write fds3))
                  | Some pid \<Rightarrow>
                      if sc_nonblock c then (Inr \<lparr>pr_pid = pid, pr_input = in_write, pr_output = out_read\<rparr>, fds3)
                      else
                        let fds4 = close_fd in_write fds3
                        in (Inl (Runtime_error failure), if sc_reaped c then close_fd out_read fds4 else fds4)))"

end
