(* ===== verification/Pipes_Laws.thy ===== *)
theory Pipes_Laws
  imports Pipes
begin

text \<open>
  Frames through pipes. However the operating system cuts a stream into pieces and however often it interrupts, the
  supervisor reads the frames that \<open>Framing\<close> reads from the whole stream, and writes the bytes that \<open>Framing\<close> writes. A
  child is waited for twice at most before it is killed.
\<close>

subsection \<open>What a pipe promises\<close>

text \<open>\<open>pending\<close> is what has been sent and not been read, \<open>sent\<close> what has been written.\<close>

locale pipe =
  fixes sys :: "'o system" and pending :: "'o \<Rightarrow> bytes" and sent :: "'o \<Rightarrow> bytes"
  assumes poll_keeps: "sy_poll sys st = (r, st') \<Longrightarrow> pending st' = pending st \<and> sent st' = sent st"
    and read_moves: "sy_read sys n st = (Moved bs, st') \<Longrightarrow> pending st = bs @ pending st' \<and> length bs \<le> n"
    and read_retries: "sy_read sys n st = (Retry, st') \<Longrightarrow> pending st' = pending st"
    and write_moves: "sy_write sys bs st = (Moved n, st') \<Longrightarrow> sent st' = sent st @ take n bs"
    and write_retries: "sy_write sys bs st = (Retry, st') \<Longrightarrow> sent st' = sent st"
begin

lemma await_keeps: "await sys e st = Some (Inr st') \<Longrightarrow> pending st' = pending st \<and> sent st' = sent st"
proof -
  have "await s e st = Some r \<Longrightarrow> s = sys \<longrightarrow> (\<forall>st'. r = Inr st' \<longrightarrow> pending st' = pending st \<and> sent st' = sent st)" for s r
  proof (induct rule: await.raw_induct [rotated, consumes 1, case_names turn])
    case (turn again s e st r)
    from turn(2) show ?case
      by (cases "sy_poll s st") (auto split: sum.splits poll_outcome.splits dest!: poll_keeps turn(1))
  qed
  then show "await sys e st = Some (Inr st') \<Longrightarrow> pending st' = pending st \<and> sent st' = sent st" by blast
qed

lemma read_exact_reads:
  "read_exact sys n got st = Some (Inr (bs, st')) \<Longrightarrow> length got \<le> n \<Longrightarrow>
     \<exists>more. bs = got @ more \<and> length bs = n \<and> pending st = more @ pending st'"
proof -
  have "read_exact s n got st = Some r \<Longrightarrow> s = sys \<longrightarrow> (\<forall>bs st'. r = Inr (bs, st') \<longrightarrow> length got \<le> n \<longrightarrow>
     (\<exists>more. bs = got @ more \<and> length bs = n \<and> pending st = more @ pending st'))" for s r
  proof (induct rule: read_exact.raw_induct [rotated, consumes 1, case_names turn])
    case (turn again s n got st r)
    show ?case
    proof (intro impI allI)
      fix bs st' assume s: "s = sys" and r: "r = Inr (bs, st')" and le: "length got \<le> n"
      show "\<exists>more. bs = got @ more \<and> length bs = n \<and> pending st = more @ pending st'"
      proof (cases "length got \<ge> n")
        case True
        then show ?thesis using turn(2) r le by simp
      next
        case False
        with turn(2) r s obtain st1 where st1: "await sys ''process response timed out'' st = Some (Inr st1)"
          by (auto split: option.split_asm sum.split_asm)
        obtain res st2 where read: "sy_read sys (n - length got) st1 = (res, st2)" by (cases "sy_read sys (n - length got) st1")
        from turn(2) r s False st1 read consider (moved) xs where "res = Moved xs" "again sys n (got @ xs) st2 = Some r"
          | (retry) "res = Retry" "again sys n got st2 = Some r"
          by (cases res) auto
        then show ?thesis
        proof cases
          case moved
          from read_moves [OF read [unfolded moved(1)]] have "pending st1 = xs @ pending st2" "length (got @ xs) \<le> n"
            using False by auto
          then show ?thesis using turn(1) [OF moved(2)] r await_keeps [OF st1] by auto
        next
          case retry
          then show ?thesis using turn(1) [OF retry(2)] r le await_keeps [OF st1] read_retries [OF read [unfolded retry(1)]] by auto
        qed
      qed
    qed
  qed
  then show "read_exact sys n got st = Some (Inr (bs, st')) \<Longrightarrow> length got \<le> n \<Longrightarrow>
     \<exists>more. bs = got @ more \<and> length bs = n \<and> pending st = more @ pending st'" by blast
qed

lemma write_exact_writes: "write_exact sys bs st = Some (Inr st') \<Longrightarrow> sent st' = sent st @ bs"
proof -
  have "write_exact s bs st = Some r \<Longrightarrow> s = sys \<longrightarrow> (\<forall>st'. r = Inr st' \<longrightarrow> sent st' = sent st @ bs)" for s r
  proof (induct rule: write_exact.raw_induct [rotated, consumes 1, case_names turn])
    case (turn again s bs st r)
    show ?case
    proof (intro impI allI)
      fix st' assume s: "s = sys" and r: "r = Inr st'"
      show "sent st' = sent st @ bs"
      proof (cases "bs = []")
        case True
        then show ?thesis using turn(2) r by simp
      next
        case False
        with turn(2) r s obtain st1 where st1: "await sys ''process request timed out'' st = Some (Inr st1)"
          by (auto split: option.split_asm sum.split_asm)
        obtain res st2 where wrote: "sy_write sys bs st1 = (res, st2)" by (cases "sy_write sys bs st1")
        from turn(2) r s False st1 wrote consider (moved) n where "res = Moved n" "again sys (drop n bs) st2 = Some r"
          | (retry) "res = Retry" "again sys bs st2 = Some r"
          by (cases res) auto
        then show ?thesis
        proof cases
          case moved
          then show ?thesis using turn(1) [OF moved(2)] r await_keeps [OF st1] write_moves [OF wrote [unfolded moved(1)]] by simp
        next
          case retry
          then show ?thesis using turn(1) [OF retry(2)] r await_keeps [OF st1] write_retries [OF wrote [unfolded retry(1)]] by simp
        qed
      qed
    qed
  qed
  then show "write_exact sys bs st = Some (Inr st') \<Longrightarrow> sent st' = sent st @ bs" by blast
qed

lemma receive_frame_reads:
  assumes "receive_frame sys parse st = Some (Inr (m, st'))"
  shows "read_frame parse (pending st) = Inr (Some (m, pending st'))"
proof -
  from assms obtain header st1 payload where h: "read_exact sys 4 [] st = Some (Inr (header, st1))"
    and fits: "unat (header_size header) \<le> max_frame"
    and p: "read_exact sys (unat (header_size header)) [] st1 = Some (Inr (payload, st'))" and m: "parse payload = Some m"
    by (auto simp: receive_frame_def Let_def split: option.split_asm sum.split_asm if_split_asm)
  from read_exact_reads [OF h] read_exact_reads [OF p]
  have "pending st = header @ payload @ pending st'" "length header = 4" "length payload = unat (header_size header)" by auto
  moreover from this have "header \<noteq> []" by auto
  ultimately show ?thesis using fits m by (simp add: read_frame_def Let_def)
qed

lemma send_frame_writes:
  assumes "send_frame sys ser m st = Some (Inr st')"
  shows "write_frame ser True m (sent st) = Inr (sent st')"
proof -
  from assms obtain st1 where fits: "length (ser m) \<le> max_frame"
    and w: "write_exact sys (frame_header (of_nat (length (ser m)))) st = Some (Inr st1)" "write_exact sys (ser m) st1 = Some (Inr st')"
    by (auto simp: send_frame_def Let_def split: option.split_asm sum.split_asm if_split_asm)
  from write_exact_writes [OF w(1)] write_exact_writes [OF w(2)] fits show ?thesis
    by (simp add: write_frame_eq frame_of_def)
qed

end

subsection \<open>A scripted system\<close>

text \<open>What happens at the pipe, one event after the other: a signal interrupts \<open>poll\<close>, a wake-up without data, data that
  arrives, room for so many bytes. A request to stop is seen as soon as it comes. A script that is over is silence. A child
  ends with a status after so many polls, or never; a signal to terminate it puts a new plan in place.\<close>

datatype pipe_event = Interrupt | Spurious | Data bytes | Room nat | Stop

record os_script =
  os_events :: "pipe_event list"
  os_written :: bytes
  os_child :: "(nat \<times> exit_status) option"
  os_on_term :: "(nat \<times> exit_status) option"
  os_signals :: "signal list"
  os_paused :: int

definition scripted_poll :: "os_script \<Rightarrow> poll_outcome \<times> os_script" where
  "scripted_poll st =
     (case os_events st of
        [] \<Rightarrow> (Poll_other, st)
      | Interrupt # es \<Rightarrow> (Poll_interrupted, st\<lparr>os_events := es\<rparr>)
      | _ \<Rightarrow> (Poll_ready, st))"

definition scripted_read :: "nat \<Rightarrow> os_script \<Rightarrow> bytes transfer \<times> os_script" where
  "scripted_read n st =
     (case os_events st of
        Data bs # es \<Rightarrow>
          if bs = [] then (Closed, st)
          else (Moved (take n bs), st\<lparr>os_events := (if length bs \<le> n then es else Data (drop n bs) # es)\<rparr>)
      | Spurious # es \<Rightarrow> (Retry, st\<lparr>os_events := es\<rparr>)
      | _ \<Rightarrow> (Broken ''broken pipe'', st))"

definition scripted_write :: "bytes \<Rightarrow> os_script \<Rightarrow> nat transfer \<times> os_script" where
  "scripted_write bs st =
     (case os_events st of
        Room n # es \<Rightarrow>
          if n = 0 then (Closed, st)
          else let k = min n (length bs)
               in (Moved k, st\<lparr>os_events := (if n \<le> length bs then es else Room (n - k) # es),
                                os_written := os_written st @ take k bs\<rparr>)
      | Spurious # es \<Rightarrow> (Retry, st\<lparr>os_events := es\<rparr>)
      | _ \<Rightarrow> (Broken ''broken pipe'', st))"

definition scripted_waitpid :: "os_script \<Rightarrow> wait_outcome \<times> os_script" where
  "scripted_waitpid st =
     (case os_child st of
        None \<Rightarrow> (Running, st)
      | Some (0, status) \<Rightarrow> (Ended status, st)
      | Some (Suc n, status) \<Rightarrow> (Running, st\<lparr>os_child := Some (n, status)\<rparr>))"

definition scripted_kill :: "signal \<Rightarrow> os_script \<Rightarrow> os_script" where
  "scripted_kill sig st =
     st\<lparr>os_signals := os_signals st @ [sig], os_child := (if sig = SIGTERM then os_on_term st else Some (0, Signaled 9))\<rparr>"

definition scripted :: "os_script system" where
  "scripted =
     \<lparr>sy_stopped = (\<lambda>st. os_events st \<noteq> [] \<and> hd (os_events st) = Stop), sy_poll = scripted_poll, sy_read = scripted_read,
      sy_write = scripted_write, sy_waitpid = scripted_waitpid, sy_wait_end = scripted_waitpid, sy_kill = scripted_kill,
      sy_pause = (\<lambda>ms st. st\<lparr>os_paused := os_paused st + ms\<rparr>)\<rparr>"

fun arriving :: "pipe_event list \<Rightarrow> bytes" where
  "arriving [] = []"
| "arriving (Data bs # es) = bs @ arriving es"
| "arriving (e # es) = arriving es"

interpretation script_pipe: pipe scripted "\<lambda>st. arriving (os_events st)" os_written
  by unfold_locales
    (auto simp: scripted_def scripted_poll_def scripted_read_def scripted_write_def Let_def
      split: list.splits pipe_event.splits if_split_asm)

subsection \<open>Enough data is enough\<close>

abbreviation incoming :: "os_script \<Rightarrow> bytes" where
  "incoming st \<equiv> arriving (os_events st)"

definition readable :: "os_script \<Rightarrow> bool" where
  "readable st \<longleftrightarrow> (\<forall>e \<in> set (os_events st). case e of Interrupt \<Rightarrow> True | Spurious \<Rightarrow> True | Data bs \<Rightarrow> bs \<noteq> [] | _ \<Rightarrow> False)"

lemma await_now:
  "os_events st = ev # es \<Longrightarrow> ev \<noteq> Stop \<Longrightarrow> ev \<noteq> Interrupt \<Longrightarrow> await scripted e st = Some (Inr st)"
  by (subst await.simps) (simp add: check_stop_def scripted_def scripted_poll_def split: pipe_event.split)

lemma await_later:
  "os_events st = Interrupt # es \<Longrightarrow> await scripted e st = await scripted e (st\<lparr>os_events := es\<rparr>)"
  by (subst await.simps) (simp add: check_stop_def scripted_def scripted_poll_def)

lemma read_exact_interrupted:
  assumes "os_events st = Interrupt # es" and "length got < n"
  shows "read_exact scripted n got st = read_exact scripted n got (st\<lparr>os_events := es\<rparr>)"
proof -
  have "read_exact scripted n got st' = (case await scripted ''process response timed out'' st' of
           None \<Rightarrow> None
         | Some (Inl e) \<Rightarrow> Some (Inl e)
         | Some (Inr st1) \<Rightarrow>
             (case sy_read scripted (n - length got) st1 of
                (Moved bs, st2) \<Rightarrow> read_exact scripted n (got @ bs) st2
              | (Closed, st2) \<Rightarrow> Some (Inl (Runtime_error ''process closed its protocol stream''))
              | (Retry, st2) \<Rightarrow> read_exact scripted n got st2
              | (Broken e, st2) \<Rightarrow> Some (Inl (Runtime_error e))))" for st'
    using assms(2) by (subst read_exact.simps) simp
  from this [of st] this [of "st\<lparr>os_events := es\<rparr>"] show ?thesis by (simp only: await_later [OF assms(1)])
qed

lemma read_exact_complete:
  "readable st \<Longrightarrow> n \<le> length got + length (incoming st) \<Longrightarrow>
     \<exists>bs st'. read_exact scripted n got st = Some (Inr (bs, st')) \<and> readable st'"
proof (induction "length (os_events st)" arbitrary: st got rule: less_induct)
  case less
  show ?case
  proof (cases "length got \<ge> n")
    case True
    then show ?thesis using less.prems by (subst read_exact.simps) simp
  next
    case False
    with less.prems(2) obtain ev es where evs: "os_events st = ev # es" by (cases "os_events st") auto
    let ?st = "st\<lparr>os_events := es\<rparr>"
    have ready: "readable ?st" using less.prems(1) by (simp add: readable_def evs)
    from less.prems(1) consider "ev = Interrupt" | "ev = Spurious" | bs where "ev = Data bs" "bs \<noteq> []"
      by (cases ev) (auto simp: readable_def evs)
    then show ?thesis
    proof cases
      case 1
      with evs less.prems(2) less.hyps [of ?st got] ready show ?thesis
        using read_exact_interrupted [of st es got n] False by (simp add: not_le)
    next
      case 2
      then have "read_exact scripted n got st = read_exact scripted n got ?st"
        using evs False by (subst read_exact.simps) (simp add: await_now, simp add: scripted_def scripted_read_def)
      with 2 evs less.prems(2) less.hyps [of ?st got] ready show ?thesis by simp
    next
      case 3
      let ?n = "n - length got"
      have now: "await scripted e st = Some (Inr st)" for e by (rule await_now [OF evs]) (simp_all add: 3)
      have read: "sy_read scripted ?n st
          = (Moved (take ?n bs), st\<lparr>os_events := (if length bs \<le> ?n then es else Data (drop ?n bs) # es)\<rparr>)"
        by (simp add: scripted_def scripted_read_def evs 3)
      have go: "read_exact scripted n got st = read_exact scripted n (got @ take ?n bs)
          (st\<lparr>os_events := (if length bs \<le> ?n then es else Data (drop ?n bs) # es)\<rparr>)"
        by (subst read_exact.simps) (use False in \<open>simp add: now read del: if_split\<close>)
      show ?thesis
      proof (cases "length bs \<le> ?n")
        case True
        with go 3 evs less.prems(2) less.hyps [of ?st "got @ bs"] ready show ?thesis by simp
      next
        case fits: False
        then have "readable (st\<lparr>os_events := Data (drop ?n bs) # es\<rparr>)" using ready by (simp add: readable_def)
        moreover have "n \<le> length (got @ take ?n bs)" using fits False by simp
        ultimately show ?thesis unfolding go using fits by (subst read_exact.simps) simp
      qed
    qed
  qed
qed

lemma read_frame_parts:
  assumes "read_frame parse stream = Inr (Some (m, rest))"
  obtains header payload where "stream = header @ payload @ rest" "length header = 4" "unat (header_size header) \<le> max_frame"
    "length payload = unat (header_size header)" "parse payload = Some m"
proof -
  let ?n = "unat (header_size (take 4 stream))"
  from assms have "length (take 4 stream) = 4" "?n \<le> max_frame" "length (take ?n (drop 4 stream)) = ?n"
    "parse (take ?n (drop 4 stream)) = Some m" "rest = drop ?n (drop 4 stream)"
    by (auto simp: read_frame_def Let_def split: if_split_asm option.split_asm)
  then show thesis
    by (intro that [of "take 4 stream" "take ?n (drop 4 stream)"]) (simp_all only: append_take_drop_id)
qed

lemma receive_frame_complete:
  assumes "readable st" and "read_frame parse (incoming st) = Inr (Some (m, rest))"
  shows "\<exists>st'. receive_frame scripted parse st = Some (Inr (m, st')) \<and> incoming st' = rest"
proof -
  from assms(2) obtain header payload where frame: "incoming st = header @ payload @ rest" "length header = 4"
    "unat (header_size header) \<le> max_frame" "length payload = unat (header_size header)" "parse payload = Some m"
    by (rule read_frame_parts)
  obtain bs st1 where h: "read_exact scripted 4 [] st = Some (Inr (bs, st1))" "readable st1"
    using read_exact_complete [OF assms(1), of 4 "[]"] frame(1,2) by auto
  from script_pipe.read_exact_reads [OF h(1)] frame(1,2) have bs: "bs = header" "incoming st1 = payload @ rest" by auto
  obtain ps st2 where p: "read_exact scripted (unat (header_size header)) [] st1 = Some (Inr (ps, st2))"
    using read_exact_complete [OF h(2), of "unat (header_size header)" "[]"] frame(4) bs(2) by auto
  from script_pipe.read_exact_reads [OF p] bs(2) frame(4) have "ps = payload" "incoming st2 = rest" by auto
  with h(1) p bs(1) frame(3,5) show ?thesis by (simp add: receive_frame_def Let_def)
qed

subsection \<open>Starting a child\<close>

text \<open>A process that cannot be started leaves no descriptor open, as long as the child that was made already can be reaped;
  one that is started leaves open exactly its two ends.\<close>

definition fresh_pipe :: "pipe_calls \<Rightarrow> int set \<Rightarrow> bool" where
  "fresh_pipe c fds \<longleftrightarrow> (\<forall>r w. pc_pipe c = Some (r, w) \<longrightarrow> 0 \<le> r \<and> 0 \<le> w \<and> r \<noteq> w \<and> r \<notin> fds \<and> w \<notin> fds)"

lemma make_pipe_fds:
  assumes "fresh_pipe c fds"
  shows "make_pipe failure c fds = (Inl (Runtime_error failure), fds)
    \<or> (\<exists>r w. make_pipe failure c fds = (Inr (r, w), fds \<union> {r, w}) \<and> pc_pipe c = Some (r, w) \<and> 0 \<le> r \<and> 0 \<le> w \<and> r \<noteq> w
         \<and> r \<notin> fds \<and> w \<notin> fds)"
  using assms by (auto simp: make_pipe_def close_fd_def fresh_pipe_def Let_def split: option.split)

lemma spawn_leaks_nothing:
  assumes "fresh_pipe (sc_input c) fds"
    and "\<And>r w. pc_pipe (sc_input c) = Some (r, w) \<Longrightarrow> fresh_pipe (sc_output c) (fds \<union> {r, w})"
    and "sc_nonblock c \<or> sc_reaped c"
  shows "(\<exists>e. spawn_process failure c fds = (Inl e, fds))
    \<or> (\<exists>pid i out. spawn_process failure c fds = (Inr \<lparr>pr_pid = pid, pr_input = i, pr_output = out\<rparr>, fds \<union> {i, out})
         \<and> sc_fork c = Some pid \<and> i \<notin> fds \<and> out \<notin> fds \<and> i \<noteq> out)"
  using make_pipe_fds [OF assms(1), of failure]
proof (elim disjE exE conjE)
  fix r w
  assume i: "make_pipe failure (sc_input c) fds = (Inr (r, w), fds \<union> {r, w})" and p: "pc_pipe (sc_input c) = Some (r, w)"
    and ok: "0 \<le> r" "0 \<le> w" "r \<noteq> w" "r \<notin> fds" "w \<notin> fds"
  from make_pipe_fds [OF assms(2) [OF p], of failure] show ?thesis
  proof (elim disjE exE conjE)
    assume "make_pipe failure (sc_output c) (fds \<union> {r, w}) = (Inl (Runtime_error failure), fds \<union> {r, w})"
    then show ?thesis using i ok by (simp add: spawn_process_def close_fd_def)
  next
    fix r' w'
    assume out: "make_pipe failure (sc_output c) (fds \<union> {r, w}) = (Inr (r', w'), fds \<union> {r, w} \<union> {r', w'})"
      and ok': "0 \<le> r'" "0 \<le> w'" "r' \<noteq> w'" "r' \<notin> fds \<union> {r, w}" "w' \<notin> fds \<union> {r, w}"
    have left: "fds \<union> {r, w} \<union> {r', w'} - {r} - {w'} = fds \<union> {w, r'}" "fds \<union> {w, r'} - {w} - {r'} = fds" using ok ok' by auto
    show ?thesis
    proof (cases "sc_fork c")
      case None
      then show ?thesis using i out left ok ok' by (simp add: spawn_process_def close_fd_def)
    next
      case (Some pid)
      then show ?thesis using i out left ok ok' assms(3) by (cases "sc_nonblock c") (auto simp: spawn_process_def close_fd_def)
    qed
  qed
qed (simp add: spawn_process_def)

subsection \<open>Waiting for a child\<close>

text \<open>A child with this plan is seen to end within the time: it is polled at once and then every ten milliseconds.\<close>

definition in_time :: "int \<Rightarrow> (nat \<times> exit_status) option \<Rightarrow> exit_status option" where
  "in_time timeout plan =
     (case plan of
        None \<Rightarrow> None
      | Some (n, status) \<Rightarrow> if n = 0 \<or> 10 * (int n - 1) < timeout then Some status else None)"

lemma wait_child_scripted:
  "\<exists>st'. wait_child scripted timeout waited st = Inr (in_time (timeout - waited) (os_child st), st')
     \<and> os_signals st' = os_signals st \<and> os_on_term st' = os_on_term st"
proof (induction "nat (timeout - waited)" arbitrary: waited st rule: less_induct)
  case less
  let ?w = "waited + min 10 (timeout - waited)"
  let ?pause = "\<lambda>st. st\<lparr>os_paused := os_paused st + min 10 (timeout - waited)\<rparr>"
  have wait: "wait_child scripted timeout waited st = (case scripted_waitpid st of
        (Ended status, st1) \<Rightarrow> Inr (Some status, st1) | (Wait_failed e, st1) \<Rightarrow> Inl (Runtime_error e)
      | (_, st1) \<Rightarrow> if waited \<ge> timeout then Inr (None, st1) else wait_child scripted timeout ?w (?pause st1))"
    by (subst wait_child.simps) (simp add: scripted_def Let_def split: prod.split wait_outcome.split)
  have again: "\<exists>st'. wait_child scripted timeout waited st = Inr (in_time (timeout - waited) (os_child st), st')
     \<and> os_signals st' = os_signals st \<and> os_on_term st' = os_on_term st"
    if "scripted_waitpid st = (Running, st1)" "os_signals st1 = os_signals st" "os_on_term st1 = os_on_term st"
      "waited < timeout" "in_time (timeout - ?w) (os_child st1) = in_time (timeout - waited) (os_child st)" for st1
    using that less.hyps [of ?w "?pause st1"] unfolding wait by simp
  show ?case
  proof (cases "os_child st")
    case None
    then have p: "scripted_waitpid st = (Running, st)" by (simp add: scripted_waitpid_def)
    show ?thesis
    proof (cases "waited < timeout")
      case True
      then show ?thesis by (intro again [OF p]) (simp_all add: None in_time_def)
    next
      case False
      then show ?thesis using p None unfolding wait by (simp add: in_time_def)
    qed
  next
    case (Some plan)
    obtain n status where plan: "plan = (n, status)" by (cases plan)
    show ?thesis
    proof (cases n)
      case 0
      then show ?thesis unfolding wait by (simp add: scripted_waitpid_def Some plan in_time_def)
    next
      case (Suc m)
      then have p: "scripted_waitpid st = (Running, st\<lparr>os_child := Some (m, status)\<rparr>)"
        by (simp add: scripted_waitpid_def Some plan)
      show ?thesis
      proof (cases "waited < timeout")
        case True
        then show ?thesis by (intro again [OF p]) (auto simp: Some plan Suc in_time_def min_def)
      next
        case False
        then show ?thesis using p unfolding wait by (simp add: Some plan Suc in_time_def)
      qed
    qed
  qed
qed

subsection \<open>Properties\<close>

text \<open>C11: pipes do not show. However the bytes arrive in pieces and however often a signal or an empty wake-up comes between
  them, the supervisor reads a frame exactly where the frame reader of the other processes reads it from the whole
  stream, with the same message and the same rest.\<close>

theorem pipe_frames:
  assumes "readable st"
  shows "(\<exists>st'. receive_frame scripted parse st = Some (Inr (m, st')) \<and> incoming st' = rest)
    \<longleftrightarrow> read_frame parse (incoming st) = Inr (Some (m, rest))"
proof
  assume "\<exists>st'. receive_frame scripted parse st = Some (Inr (m, st')) \<and> incoming st' = rest"
  then obtain st' where "receive_frame scripted parse st = Some (Inr (m, st'))" "incoming st' = rest" by (elim exE conjE)
  from script_pipe.receive_frame_reads [OF this(1)] this(2) show "read_frame parse (incoming st) = Inr (Some (m, rest))" by simp
qed (rule receive_frame_complete [OF assms])

theorem pipe_frames_witness:
  "\<exists>st'. receive_frame scripted Some \<lparr>os_events = [Data [CHR 0x00, CHR 0x00], Interrupt, Data [CHR 0x00], Spurious,
       Data [CHR 0x02, CHR ''a''], Interrupt, Data ''bc''], os_written = [], os_child = None, os_on_term = None,
       os_signals = [], os_paused = 0\<rparr> = Some (Inr (''ab'', st')) \<and> incoming st' = ''c''"
proof -
  have sz: "header_size [CHR 0x00, CHR 0x00, CHR 0x00, CHR 0x02] = 2" by code_simp
  have "read_frame Some (CHR 0x00 # CHR 0x00 # CHR 0x00 # CHR 0x02 # ''abc'') = Inr (Some (''ab'', ''c''))"
    by (simp add: read_frame_def sz max_frame_def Let_def)
  then show ?thesis by (intro pipe_frames [THEN iffD2]) (simp_all add: readable_def)
qed

text \<open>What the supervisor writes into one pipe it reads from another, through whatever pieces.\<close>

lemma pipe_roundtrip:
  assumes "parses_back ser parse" and "send_frame scripted ser m w = Some (Inr w')"
    and "readable r" and "incoming r = drop (length (os_written w)) (os_written w') @ rest"
  shows "\<exists>r'. receive_frame scripted parse r = Some (Inr (m, r')) \<and> incoming r' = rest"
proof -
  from script_pipe.send_frame_writes [OF assms(2)]
  have "length (ser m) \<le> max_frame" "incoming r = frame_of ser m @ rest" by (simp_all add: write_frame_eq assms(4))
  then show ?thesis using receive_frame_complete [OF assms(3)] read_frame_of [OF assms(1)] by metis
qed

text \<open>C12: how a child ends. One that ends within the time has its own exit code and gets no signal; one that does not is asked
  to terminate and has the same time again; one that ignores that too is killed. In every case the handle is empty
  afterwards, so that finishing it again does nothing.\<close>

theorem finish_escalates:
  assumes "0 < pr_pid p"
  shows "\<exists>st'. finish scripted False timeout p st = Some (Inr
      (case in_time timeout (os_child st) of
         Some status \<Rightarrow> exit_code status
       | None \<Rightarrow> (case in_time timeout (os_on_term st) of Some status \<Rightarrow> exit_code status | None \<Rightarrow> 137),
       \<lparr>pr_pid = -1, pr_input = -1, pr_output = -1\<rparr>, st'))
    \<and> os_signals st' = os_signals st @ (if in_time timeout (os_child st) \<noteq> None then []
        else if in_time timeout (os_on_term st) \<noteq> None then [SIGTERM] else [SIGTERM, SIGKILL])
    \<and> finish scripted force timeout' \<lparr>pr_pid = -1, pr_input = -1, pr_output = -1\<rparr> st'
        = Some (Inr (0, \<lparr>pr_pid = -1, pr_input = -1, pr_output = -1\<rparr>, st'))"
proof -
  have p: "p\<lparr>pr_input := -1, pr_pid := -1, pr_output := -1\<rparr> = \<lparr>pr_pid = -1, pr_input = -1, pr_output = -1\<rparr>" by simp
  have again: "finish scripted force timeout' \<lparr>pr_pid = -1, pr_input = -1, pr_output = -1\<rparr> st'
        = Some (Inr (0, \<lparr>pr_pid = -1, pr_input = -1, pr_output = -1\<rparr>, st'))" for st'
    by (simp add: finish_def)
  obtain st1 where w1: "wait_child scripted timeout 0 st = Inr (in_time timeout (os_child st), st1)"
    and s1: "os_signals st1 = os_signals st" "os_on_term st1 = os_on_term st"
    using wait_child_scripted [of timeout 0 st] by auto
  let ?asked = "sy_kill scripted SIGTERM st1"
  have k1: "os_signals ?asked = os_signals st @ [SIGTERM]" "os_child ?asked = os_on_term st"
    by (simp_all add: scripted_def scripted_kill_def s1)
  obtain st2 where w2: "wait_child scripted timeout 0 ?asked = Inr (in_time timeout (os_on_term st), st2)"
    and s2: "os_signals st2 = os_signals st @ [SIGTERM]"
    using wait_child_scripted [of timeout 0 ?asked] k1 by auto
  have k2: "reap scripted (sy_kill scripted SIGKILL st2)
      = Some (Signaled 9, st2\<lparr>os_signals := os_signals st @ [SIGTERM, SIGKILL], os_child := Some (0, Signaled 9)\<rparr>)"
    by (subst reap.simps) (simp add: scripted_def scripted_kill_def scripted_waitpid_def s2)
  show ?thesis
  proof (cases "in_time timeout (os_child st)")
    case (Some status)
    then show ?thesis using assms by (simp add: finish_def w1 s1 again)
  next
    case none: None
    show ?thesis
    proof (cases "in_time timeout (os_on_term st)")
      case (Some status)
      then show ?thesis using assms none by (simp add: finish_def w1 w2 s2 again)
    next
      case None
      then show ?thesis using assms none by (simp add: finish_def w1 w2 k2 again exit_code_def)
    qed
  qed
qed

text \<open>A child that never ends, whatever it is told.\<close>

theorem finish_escalates_witness:
  "\<exists>st'. finish scripted False 5000 \<lparr>pr_pid = 42, pr_input = 3, pr_output = 4\<rparr> \<lparr>os_events = [], os_written = [], os_child = None,
      os_on_term = None, os_signals = [], os_paused = 0\<rparr> = Some (Inr (137, \<lparr>pr_pid = -1, pr_input = -1, pr_output = -1\<rparr>, st'))
    \<and> os_signals st' = [SIGTERM, SIGKILL]"
  using finish_escalates [of "\<lparr>pr_pid = 42, pr_input = 3, pr_output = 4\<rparr>" 5000 "\<lparr>os_events = [], os_written = [], os_child = None,
      os_on_term = None, os_signals = [], os_paused = 0\<rparr>"] by (auto simp: in_time_def)

end
