(* ===== verification/Gazebo.thy ===== *)
theory Gazebo
  imports Event_Log Ordered_Map
begin

text \<open>
  The Gazebo adapter (\<^verbatim>\<open>ros2/sentinel_gazebo/src/adapter.cpp\<close>): it plays a trace, the observations of a run, as
  requests to the entity services of a Gazebo world. A service is called and its answer awaited before anything else
  happens, so the adapter's effect is the list of requests it has sent; \<open>gz\<close> tells whether the last request of such a
  list succeeds. Log output and the pauses between two ticks are left out.

  Coordinates are sent as doubles: \<open>Milli x\<close> stands for \<open>x / 1000.0\<close> and \<open>Half_milli x\<close> for \<open>x / 2000.0\<close>, heights
  are in millimetres, and a heading is the pair of velocities \<open>atan2\<close> is applied to, or none for the initial 0.0.
\<close>

subsection \<open>Requests\<close>

datatype metres = Milli i64 | Half_milli i64

type_synonym heading = "(i64 \<times> i64) option"

datatype request =
    Set_pose string metres metres int heading
  | Remove string

record adapter =
  ad_yaw :: "(string, heading) ordered_map"
  ad_positions :: "(string, point) ordered_map"
  ad_owners :: "(string, string) ordered_map"
  ad_regions :: "(string, bool) ordered_map"
  ad_visible :: "string list"
  ad_removed :: "string list"
  ad_partitioned :: "bool option"
  ad_sent :: "request list"

text \<open>\<open>opened\<close>: the trace file could be opened; \<open>positive\<close>: the playback rate is greater than zero.\<close>

definition new_adapter :: "bool \<Rightarrow> bool \<Rightarrow> adapter result" where
  "new_adapter opened positive =
     (if \<not> opened then Inl (Runtime_error ''failed to open visualization trace'')
      else if \<not> positive then Inl (Invalid_argument ''playback rate must be positive'')
      else Inr \<lparr>ad_yaw = [], ad_positions = [], ad_owners = [], ad_regions = [], ad_visible = [], ad_removed = [],
                ad_partitioned = None, ad_sent = []\<rparr>)"

text \<open>\<open>std::set\<close> as its elements in order.\<close>

definition set_add :: "string \<Rightarrow> string list \<Rightarrow> string list" where
  "set_add k xs = (if binary_search xs k then xs else insert_by (\<lambda>x. x) k xs)"

definition set_pose ::
    "(request list \<Rightarrow> bool) \<Rightarrow> string \<Rightarrow> metres \<Rightarrow> metres \<Rightarrow> int \<Rightarrow> heading \<Rightarrow> adapter \<Rightarrow> adapter result" where
  "set_pose gz k x y z yaw a =
     (let sent = ad_sent a @ [Set_pose k x y z yaw]
      in if gz sent then Inr (a\<lparr>ad_sent := sent\<rparr>) else Inl (Runtime_error ''Gazebo rejected an entity pose''))"

definition remove_entity :: "(request list \<Rightarrow> bool) \<Rightarrow> string \<Rightarrow> adapter \<Rightarrow> adapter result" where
  "remove_entity gz k a =
     (if binary_search (ad_removed a) k then Inr a
      else
        let sent = ad_sent a @ [Remove k]; a' = a\<lparr>ad_removed := set_add k (ad_removed a)\<rparr>
        in if gz sent then Inr (a'\<lparr>ad_sent := sent\<rparr>) else Inl (Runtime_error ''Gazebo rejected an entity removal''))"

subsection \<open>One batch of observations\<close>

definition apply_vehicle :: "(request list \<Rightarrow> bool) \<Rightarrow> vehicle_state \<Rightarrow> adapter \<Rightarrow> adapter result" where
  "apply_vehicle gz v a =
     (if \<not> vs_active v then remove_entity gz (vs_id v) a
      else
        let before = (case map_find (ad_yaw a) (vs_id v) of None \<Rightarrow> None | Some h \<Rightarrow> h);
            yaw = (if vs_vx v \<noteq> 0 \<or> vs_vy v \<noteq> 0 then Some (vs_vy v, vs_vx v) else before)
        in set_pose gz (vs_id v) (Milli (px (vs_pos v))) (Milli (py (vs_pos v))) (if vs_kind v = ''uav'' then 800 else 200) yaw
             (a\<lparr>ad_yaw := map_put (vs_id v) yaw (ad_yaw a)\<rparr>))"

text \<open>The loop over the known tasks, and the one over the tasks that are no longer known.\<close>

definition show_task ::
    "(request list \<Rightarrow> bool) \<Rightarrow> string list \<times> adapter \<Rightarrow> task_state \<Rightarrow> (string list \<times> adapter) result" where
  "show_task gz = (\<lambda>(active, a) t.
     let active' = set_add (ts_id t) active;
         a1 = a\<lparr>ad_positions := map_put (ts_id t) (ts_target t) (ad_positions a)\<rparr>
     in bindR (if binary_search (ad_visible a1) (ts_id t) then Inr a1
               else set_pose gz (ts_id t) (Milli (px (ts_target t))) (Milli (py (ts_target t)))
                      (if ts_kind t = ''inspection'' then 240 else 120) None a1) (\<lambda>a2.
          Inr (active', a2\<lparr>ad_owners := map_put (ts_id t) (ts_agent t) (ad_owners a2)\<rparr>)))"

definition hide_task :: "(request list \<Rightarrow> bool) \<Rightarrow> string list \<Rightarrow> adapter \<Rightarrow> string \<Rightarrow> adapter result" where
  "hide_task gz active a k =
     (if binary_search active k then Inr a
      else bindR (map_at (ad_positions a) k) (\<lambda>p. set_pose gz k (Milli (px p)) (Milli (py p)) (- 1000) None a))"

definition apply_tasks :: "(request list \<Rightarrow> bool) \<Rightarrow> observation \<Rightarrow> adapter \<Rightarrow> adapter result" where
  "apply_tasks gz ob a =
     bindR (foldR (show_task gz) ([], a) (ob_known ob)) (\<lambda>(active, a1).
     bindR (foldR (hide_task gz active) a1 (ad_visible a1)) (\<lambda>a2.
       Inr (a2\<lparr>ad_visible := active\<rparr>)))"

definition show_region :: "(request list \<Rightarrow> bool) \<Rightarrow> adapter \<Rightarrow> region \<Rightarrow> adapter result" where
  "show_region gz a r =
     (if rg_kind r \<noteq> RK_Chokepoint \<or> map_find (ad_regions a) (rg_id r) = Some (rg_closed r) then Inr a
      else
        bindR (set_pose gz (rg_id r @ ''-block'') (Half_milli (px (rg_min r) + px (rg_max r)))
                 (Half_milli (py (rg_min r) + py (rg_max r))) (if rg_closed r then 300 else - 1000) None a) (\<lambda>a'.
          Inr (a'\<lparr>ad_regions := map_put (rg_id r) (rg_closed r) (ad_regions a')\<rparr>)))"

text \<open>The first observation of the vehicle \<open>uav-alpha\<close> decides; other batches change nothing.\<close>

definition observed :: "envelope \<Rightarrow> observation option" where
  "observed e = (case en_body e of Body_observation ob \<Rightarrow> Some ob | _ \<Rightarrow> None)"

definition apply_partition :: "(request list \<Rightarrow> bool) \<Rightarrow> observation_batch \<Rightarrow> adapter \<Rightarrow> adapter result" where
  "apply_partition gz b a =
     (case filter (\<lambda>ob. vs_id (ob_self ob) = ''uav-alpha'') (List.map_filter observed (bt_observations b)) of
        [] \<Rightarrow> Inr a
      | ob # obs \<Rightarrow>
          let partitioned = (length (ob_reachable ob) < length (ob_peers ob))
          in if ad_partitioned a = Some partitioned then Inr a
             else
               bindR (set_pose gz ''partition-indicator'' (Milli (px (vs_pos (ob_self ob)))) (Milli (py (vs_pos (ob_self ob))))
                        (if partitioned then 1500 else - 1000) None a) (\<lambda>a'.
                 Inr (a'\<lparr>ad_partitioned := Some partitioned\<rparr>)))"

definition apply_envelope :: "(request list \<Rightarrow> bool) \<Rightarrow> adapter \<Rightarrow> envelope \<Rightarrow> adapter result" where
  "apply_envelope gz a e =
     (case observed e of
        None \<Rightarrow> Inl (Runtime_error ''invalid visualization observation'')
      | Some ob \<Rightarrow>
          if vs_id (ob_self ob) \<noteq> en_recipient e then Inl (Runtime_error ''invalid visualization observation'')
          else apply_vehicle gz (ob_self ob) a)"

text \<open>\<open>observation ()\<close> of the first envelope, which has been checked by then.\<close>

definition apply_batch :: "(request list \<Rightarrow> bool) \<Rightarrow> observation_batch \<Rightarrow> adapter \<Rightarrow> adapter result" where
  "apply_batch gz b a =
     bindR (foldR (apply_envelope gz) a (bt_observations b)) (\<lambda>a1.
       case List.map_filter observed (bt_observations b) of
         [] \<Rightarrow> Inr a1
       | ob # obs \<Rightarrow>
           bindR (apply_tasks gz ob a1) (\<lambda>a2.
           bindR (foldR (show_region gz) a2 (wd_regions (ob_world ob))) (\<lambda>a3. apply_partition gz b a3)))"

subsection \<open>Playing a trace\<close>

definition first_step_ms :: "observation_batch \<Rightarrow> u64" where
  "first_step_ms b = (case observed (hd (bt_observations b)) of None \<Rightarrow> 0 | Some ob \<Rightarrow> ob_step_ms ob)"

text \<open>The variables of the loop: whether the terminal frame has been seen, and the tick before.\<close>

definition play_frame ::
    "(request list \<Rightarrow> bool) \<Rightarrow> bool \<times> u64 option \<times> adapter \<Rightarrow> sim_frame \<Rightarrow> (bool \<times> u64 option \<times> adapter) result" where
  "play_frame gz = (\<lambda>(terminal, previous, a) frame.
     case frame of
       Observations_frame b \<Rightarrow>
         if terminal then Inl (Runtime_error ''invalid visualization trace'')
         else if bt_observations b = [] \<or> (case previous of None \<Rightarrow> False | Some t \<Rightarrow> bt_tick b \<noteq> t + 1)
         then Inl (Runtime_error ''invalid visualization tick sequence'')
         else
           bindR (apply_batch gz b a) (\<lambda>a'.
             if \<not> bt_finished b \<and> first_step_ms b = 0 then Inl (Runtime_error ''invalid visualization step'')
             else Inr (bt_finished b, Some (bt_tick b), a'))
     | _ \<Rightarrow> Inl (Runtime_error ''invalid visualization trace''))"

function play_loop ::
    "(request list \<Rightarrow> bool) \<Rightarrow> (bytes \<Rightarrow> sim_frame option) \<Rightarrow> bool \<times> u64 option \<times> adapter \<Rightarrow> bytes
     \<Rightarrow> (bool \<times> u64 option \<times> adapter) result" where
  "play_loop gz parse st input =
     (case read_frame parse input of
        Inl e \<Rightarrow> Inl e
      | Inr None \<Rightarrow> Inr st
      | Inr (Some (frame, rest)) \<Rightarrow>
          (case play_frame gz st frame of Inl e \<Rightarrow> Inl e | Inr st' \<Rightarrow> play_loop gz parse st' rest))"
  by pat_completeness auto
termination
  by (relation "measure (\<lambda>(gz, parse, st, input). length input)") (auto dest: read_frame_shorter)

declare play_loop.simps [simp del]

text \<open>\<open>ready\<close>: both entity services are there within twenty seconds.\<close>

definition play :: "(request list \<Rightarrow> bool) \<Rightarrow> (bytes \<Rightarrow> sim_frame option) \<Rightarrow> bool \<Rightarrow> bytes \<Rightarrow> adapter \<Rightarrow> adapter result" where
  "play gz parse ready input a =
     (if \<not> ready then Inl (Runtime_error ''Gazebo entity services are unavailable'')
      else bindR (play_loop gz parse (False, None, a) input) (\<lambda>(terminal, previous, a').
        if \<not> terminal then Inl (Runtime_error ''visualization trace has no terminal frame'') else Inr a'))"

end
