(* ===== verification/Gazebo_Laws.thy ===== *)
theory Gazebo_Laws
  imports Gazebo Event_Log_Laws
begin

text \<open>
  The trace that a run leaves plays to its end, and then every vehicle that is still active stands in the Gazebo world
  where the simulation left it.
\<close>

subsection \<open>Requests and what they touch\<close>

fun entity :: "request \<Rightarrow> string" where
  "entity (Set_pose k x y z h) = k"
| "entity (Remove k) = k"

definition latest :: "string \<Rightarrow> request list \<Rightarrow> request option" where
  "latest k sent = foldl (\<lambda>r q. if entity q = k then Some q else r) None sent"

lemma latest_simps [simp]: "latest k [] = None" "latest k (sent @ [q]) = (if entity q = k then Some q else latest k sent)"
  by (simp_all add: latest_def)

lemma latest_other: "k \<notin> entity ` set later \<Longrightarrow> latest k (sent @ later) = latest k sent"
  by (induction later rule: rev_induct) (auto simp flip: append_assoc)

definition touches :: "string set \<Rightarrow> adapter \<Rightarrow> adapter \<Rightarrow> bool" where
  "touches ks a a' \<longleftrightarrow> (\<exists>later. ad_sent a' = ad_sent a @ later \<and> entity ` set later \<subseteq> ks)"

lemma touches_refl [simp]: "touches ks a a"
  by (simp add: touches_def)

lemma touches_same: "ad_sent a' = ad_sent a \<Longrightarrow> touches ks a a'"
  by (simp add: touches_def)

lemma touches_mono: "touches ks a a' \<Longrightarrow> ks \<subseteq> ls \<Longrightarrow> touches ls a a'"
  unfolding touches_def by (meson order_trans)

lemma touches_trans: "touches ks a b \<Longrightarrow> touches ls b c \<Longrightarrow> touches (ks \<union> ls) a c"
  unfolding touches_def by (elim exE conjE) (rule exI [of _ "_ @ _"], auto)

lemma touches_within: "touches ks a b \<Longrightarrow> touches ks b c \<Longrightarrow> touches ks a c"
  using touches_trans [of ks a b ks c] by simp

lemma touches_latest: "touches ks a a' \<Longrightarrow> k \<notin> ks \<Longrightarrow> latest k (ad_sent a') = latest k (ad_sent a)"
  unfolding touches_def by (elim exE conjE) (simp, rule latest_other, blast)

text \<open>Gazebo takes every request, and the adapter's tables are in order.\<close>

definition willing :: "(request list \<Rightarrow> bool) \<Rightarrow> bool" where
  "willing gz \<longleftrightarrow> (\<forall>sent. gz sent)"

definition adapter_ok :: "adapter \<Rightarrow> bool" where
  "adapter_ok a \<longleftrightarrow> map_ok (ad_positions a) \<and> sorted (ad_visible a) \<and> set (ad_visible a) \<subseteq> fst ` set (ad_positions a)"

lemma sorted_insert: "sorted xs \<Longrightarrow> sorted (insert_by (\<lambda>x. x) k xs)"
  by (induction xs) auto

lemma set_add: "sorted xs \<Longrightarrow> sorted (set_add k xs) \<and> set (set_add k xs) = insert k (set xs)"
  by (auto simp: set_add_def binary_search_iff sorted_insert)

lemma set_pose_willing: "willing gz \<Longrightarrow> set_pose gz k x y z h a = Inr (a\<lparr>ad_sent := ad_sent a @ [Set_pose k x y z h]\<rparr>)"
  by (simp add: set_pose_def willing_def Let_def)

subsection \<open>Vehicles\<close>

definition placed :: "vehicle_state \<Rightarrow> adapter \<Rightarrow> bool" where
  "placed v a \<longleftrightarrow> (\<exists>h. latest (vs_id v) (ad_sent a)
     = Some (Set_pose (vs_id v) (Milli (px (vs_pos v))) (Milli (py (vs_pos v))) (if vs_kind v = ''uav'' then 800 else 200) h))"

lemma apply_vehicle_willing:
  assumes "willing gz" and "adapter_ok a"
  shows "\<exists>a'. apply_vehicle gz v a = Inr a' \<and> adapter_ok a' \<and> ad_visible a' = ad_visible a \<and> touches {vs_id v} a a'
    \<and> (vs_active v \<longrightarrow> placed v a')"
proof (cases "vs_active v")
  case True
  then show ?thesis
    using assms(2) by (simp add: apply_vehicle_def Let_def set_pose_willing [OF assms(1)] adapter_ok_def placed_def touches_def)
next
  case False
  then show ?thesis
    using assms by (auto simp: apply_vehicle_def remove_entity_def Let_def willing_def adapter_ok_def touches_def)
qed

definition envelope_ok :: "string set \<Rightarrow> envelope \<Rightarrow> bool" where
  "envelope_ok ids e \<longleftrightarrow> (\<exists>ob. observed e = Some ob \<and> vs_id (ob_self ob) = en_recipient e \<and> ts_id ` set (ob_known ob) \<subseteq> ids
     \<and> ob_step_ms ob \<noteq> 0)"

lemma apply_envelopes:
  assumes gz: "willing gz"
  shows "adapter_ok a \<Longrightarrow> \<forall>e \<in> set es. envelope_ok ids e \<Longrightarrow> distinct (map en_recipient es) \<Longrightarrow>
    \<exists>a'. foldR (apply_envelope gz) a es = Inr a' \<and> adapter_ok a' \<and> ad_visible a' = ad_visible a
      \<and> touches (en_recipient ` set es) a a'
      \<and> (\<forall>e \<in> set es. \<forall>ob. observed e = Some ob \<longrightarrow> vs_active (ob_self ob) \<longrightarrow> placed (ob_self ob) a')"
proof (induction es arbitrary: a)
  case (Cons e es)
  from Cons.prems(2) obtain ob where ob: "observed e = Some ob" "vs_id (ob_self ob) = en_recipient e"
    by (auto simp: envelope_ok_def)
  from apply_vehicle_willing [OF gz Cons.prems(1), of "ob_self ob"] obtain a1 where
    a1: "apply_vehicle gz (ob_self ob) a = Inr a1" "adapter_ok a1" "ad_visible a1 = ad_visible a" "touches {en_recipient e} a a1"
      "vs_active (ob_self ob) \<longrightarrow> placed (ob_self ob) a1" using ob(2) by auto
  from Cons.IH [OF a1(2)] Cons.prems(2,3) obtain a2 where
    a2: "foldR (apply_envelope gz) a1 es = Inr a2" "adapter_ok a2" "ad_visible a2 = ad_visible a1"
      "touches (en_recipient ` set es) a1 a2"
      "\<forall>e \<in> set es. \<forall>ob. observed e = Some ob \<longrightarrow> vs_active (ob_self ob) \<longrightarrow> placed (ob_self ob) a2" by auto
  have "foldR (apply_envelope gz) a (e # es) = Inr a2" using a1(1) a2(1) ob by (simp add: apply_envelope_def)
  moreover have "touches (en_recipient ` set (e # es)) a a2" using touches_trans [OF a1(4) a2(4)] by simp
  moreover have "placed (ob_self ob) a2" if "vs_active (ob_self ob)"
    using that a1(5) touches_latest [OF a2(4), of "en_recipient e"] Cons.prems(3) by (simp add: placed_def ob(2))
  ultimately show ?case using a1(3) a2 ob(1) by auto
qed simp

subsection \<open>Tasks, regions and the partition\<close>

lemma show_tasks:
  assumes gz: "willing gz"
  shows "adapter_ok a \<Longrightarrow> sorted active \<Longrightarrow> set active \<subseteq> fst ` set (ad_positions a) \<Longrightarrow>
    \<exists>active' a'. foldR (show_task gz) (active, a) ts = Inr (active', a') \<and> adapter_ok a' \<and> sorted active'
      \<and> set active' = set active \<union> ts_id ` set ts \<and> set active' \<subseteq> fst ` set (ad_positions a')
      \<and> ad_visible a' = ad_visible a \<and> touches (ts_id ` set ts) a a'"
proof (induction ts arbitrary: active a)
  case (Cons t ts)
  let ?active = "set_add (ts_id t) active"
  have "\<exists>a1. show_task gz (active, a) t = Inr (?active, a1) \<and> adapter_ok a1 \<and> ad_visible a1 = ad_visible a
      \<and> fst ` set (ad_positions a1) = insert (ts_id t) (fst ` set (ad_positions a)) \<and> touches {ts_id t} a a1"
    using Cons.prems(1) by (cases "binary_search (ad_visible a) (ts_id t)")
      (auto simp: show_task_def Let_def set_pose_willing [OF gz] adapter_ok_def touches_def map_put_ok)
  then obtain a1 where a1: "show_task gz (active, a) t = Inr (?active, a1)" "adapter_ok a1" "ad_visible a1 = ad_visible a"
    "fst ` set (ad_positions a1) = insert (ts_id t) (fst ` set (ad_positions a))" "touches {ts_id t} a a1" by blast
  have active: "sorted ?active" "set ?active = insert (ts_id t) (set active)" using set_add [OF Cons.prems(2)] by simp_all
  with Cons.prems(3) a1(4) have "set ?active \<subseteq> fst ` set (ad_positions a1)" by auto
  from Cons.IH [OF a1(2) active(1) this] obtain active' a2 where
    a2: "foldR (show_task gz) (?active, a1) ts = Inr (active', a2)" "adapter_ok a2" "sorted active'"
      "set active' = set ?active \<union> ts_id ` set ts" "set active' \<subseteq> fst ` set (ad_positions a2)" "ad_visible a2 = ad_visible a1"
      "touches (ts_id ` set ts) a1 a2" by blast
  then show ?case using a1 active(2) touches_trans [OF a1(5) a2(7)] by auto
qed simp

lemma hide_tasks:
  assumes gz: "willing gz"
  shows "map_ok (ad_positions a) \<Longrightarrow> set ks \<subseteq> fst ` set (ad_positions a) \<Longrightarrow>
    \<exists>a'. foldR (hide_task gz active) a ks = Inr a' \<and> ad_positions a' = ad_positions a \<and> touches (set ks) a a'"
proof (induction ks arbitrary: a)
  case (Cons k ks)
  obtain p where "map_find (ad_positions a) k = Some p" using Cons.prems map_find_None [OF Cons.prems(1), of k] by auto
  then have "\<exists>a1. hide_task gz active a k = Inr a1 \<and> ad_positions a1 = ad_positions a \<and> touches {k} a a1"
    by (cases "binary_search active k") (simp_all add: hide_task_def set_pose_willing [OF gz] touches_def map_at_def)
  then obtain a1 where a1: "hide_task gz active a k = Inr a1" "ad_positions a1 = ad_positions a" "touches {k} a a1" by blast
  from Cons.IH [of a1] Cons.prems a1(2) obtain a2 where
    "foldR (hide_task gz active) a1 ks = Inr a2" "ad_positions a2 = ad_positions a1" "touches (set ks) a1 a2" by auto
  then show ?case using a1 touches_trans [OF a1(3), of "set ks" a2] by auto
qed simp

lemma apply_tasks_willing:
  assumes gz: "willing gz" and "adapter_ok a"
  shows "\<exists>a'. apply_tasks gz ob a = Inr a' \<and> adapter_ok a' \<and> set (ad_visible a') = ts_id ` set (ob_known ob)
    \<and> touches (ts_id ` set (ob_known ob) \<union> set (ad_visible a)) a a'"
proof -
  obtain active a1 where a1: "foldR (show_task gz) ([], a) (ob_known ob) = Inr (active, a1)" "adapter_ok a1" "sorted active"
    "set active = ts_id ` set (ob_known ob)" "set active \<subseteq> fst ` set (ad_positions a1)" "ad_visible a1 = ad_visible a"
    "touches (ts_id ` set (ob_known ob)) a a1"
    using show_tasks [OF gz assms(2), of "[]" "ob_known ob"] by auto
  then have "map_ok (ad_positions a1)" "set (ad_visible a1) \<subseteq> fst ` set (ad_positions a1)" by (simp_all add: adapter_ok_def)
  from hide_tasks [OF gz this, of active] obtain a2 where
    a2: "foldR (hide_task gz active) a1 (ad_visible a1) = Inr a2" "ad_positions a2 = ad_positions a1"
      "touches (set (ad_visible a1)) a1 a2" by blast
  from touches_trans [OF a1(7) a2(3)] have "touches (ts_id ` set (ob_known ob) \<union> set (ad_visible a)) a (a2\<lparr>ad_visible := active\<rparr>)"
    by (simp add: touches_def a1(6))
  then show ?thesis using a1 a2 by (simp add: apply_tasks_def adapter_ok_def)
qed

lemma show_regions:
  assumes gz: "willing gz"
  shows "\<exists>a'. foldR (show_region gz) a rs = Inr a' \<and> ad_positions a' = ad_positions a \<and> ad_visible a' = ad_visible a
    \<and> touches {k. \<exists>i. k = i @ ''-block''} a a'"
proof (induction rs arbitrary: a)
  case (Cons r rs)
  obtain a1 where a1: "show_region gz a r = Inr a1" "ad_positions a1 = ad_positions a" "ad_visible a1 = ad_visible a"
    "touches {k. \<exists>i. k = i @ ''-block''} a a1"
    by (cases "rg_kind r \<noteq> RK_Chokepoint \<or> map_find (ad_regions a) (rg_id r) = Some (rg_closed r)")
      (auto simp: show_region_def set_pose_willing [OF gz] touches_def)
  from Cons.IH [of a1] obtain a2 where "foldR (show_region gz) a1 rs = Inr a2" "ad_positions a2 = ad_positions a1"
    "ad_visible a2 = ad_visible a1" "touches {k. \<exists>i. k = i @ ''-block''} a1 a2" by blast
  then show ?case using a1 touches_within [OF a1(4)] by auto
qed simp

lemma apply_partition_willing:
  assumes "willing gz"
  shows "\<exists>a'. apply_partition gz b a = Inr a' \<and> ad_positions a' = ad_positions a \<and> ad_visible a' = ad_visible a
    \<and> touches {''partition-indicator''} a a'"
  by (cases "filter (\<lambda>ob. vs_id (ob_self ob) = ''uav-alpha'') (List.map_filter observed (bt_observations b))")
    (auto simp: apply_partition_def Let_def set_pose_willing [OF assms] touches_def)

subsection \<open>A batch\<close>

definition batch_ok :: "string set \<Rightarrow> observation_batch \<Rightarrow> bool" where
  "batch_ok ids b \<longleftrightarrow> bt_observations b \<noteq> [] \<and> distinct (map en_recipient (bt_observations b))
     \<and> (\<forall>e \<in> set (bt_observations b). envelope_ok ids e)"

text \<open>Names of vehicles that are not those of other entities the adapter moves.\<close>

definition apart :: "string set \<Rightarrow> string \<Rightarrow> bool" where
  "apart ids k \<longleftrightarrow> k \<notin> ids \<and> k \<noteq> ''partition-indicator'' \<and> (\<forall>i. k \<noteq> i @ ''-block'')"

definition pictured :: "string set \<Rightarrow> observation_batch \<Rightarrow> adapter \<Rightarrow> bool" where
  "pictured ids b a \<longleftrightarrow> (\<forall>e \<in> set (bt_observations b). \<forall>ob. observed e = Some ob \<longrightarrow> vs_active (ob_self ob)
     \<longrightarrow> apart ids (en_recipient e) \<longrightarrow> placed (ob_self ob) a)"

lemma apply_batch_willing:
  assumes gz: "willing gz" and a: "adapter_ok a" "set (ad_visible a) \<subseteq> ids" and b: "batch_ok ids b"
  shows "\<exists>a'. apply_batch gz b a = Inr a' \<and> adapter_ok a' \<and> set (ad_visible a') \<subseteq> ids \<and> pictured ids b a'"
proof -
  from apply_envelopes [OF gz a(1), of "bt_observations b" ids] b obtain a1 where
    a1: "foldR (apply_envelope gz) a (bt_observations b) = Inr a1" "adapter_ok a1" "ad_visible a1 = ad_visible a"
      "\<forall>e \<in> set (bt_observations b). \<forall>ob. observed e = Some ob \<longrightarrow> vs_active (ob_self ob) \<longrightarrow> placed (ob_self ob) a1"
    by (auto simp: batch_ok_def)
  from b obtain e es ob where es: "bt_observations b = e # es" "observed e = Some ob" "ts_id ` set (ob_known ob) \<subseteq> ids"
    by (cases "bt_observations b") (auto simp: batch_ok_def envelope_ok_def)
  from apply_tasks_willing [OF gz a1(2), of ob] obtain a2 where
    a2: "apply_tasks gz ob a1 = Inr a2" "adapter_ok a2" "set (ad_visible a2) = ts_id ` set (ob_known ob)"
      "touches (ts_id ` set (ob_known ob) \<union> set (ad_visible a1)) a1 a2" by blast
  from show_regions [OF gz, of a2 "wd_regions (ob_world ob)"] obtain a3 where
    a3: "foldR (show_region gz) a2 (wd_regions (ob_world ob)) = Inr a3" "ad_positions a3 = ad_positions a2"
      "ad_visible a3 = ad_visible a2" "touches {k. \<exists>i. k = i @ ''-block''} a2 a3" by blast
  from apply_partition_willing [OF gz, of b a3] obtain a4 where
    a4: "apply_partition gz b a3 = Inr a4" "ad_positions a4 = ad_positions a3" "ad_visible a4 = ad_visible a3"
      "touches {''partition-indicator''} a3 a4" by blast
  have run: "apply_batch gz b a = Inr a4"
    unfolding apply_batch_def a1(1) using a2(1) a3(1) a4(1) by (simp add: es List.map_filter_simps)
  have "touches ids a1 a2" by (rule touches_mono [OF a2(4)]) (use es(3) a(2) a1(3) in auto)
  from touches_trans [OF touches_trans [OF this a3(4)] a4(4)]
  have "touches (ids \<union> {k. \<exists>i. k = i @ ''-block''} \<union> {''partition-indicator''}) a1 a4" .
  then have "latest k (ad_sent a4) = latest k (ad_sent a1)" if "apart ids k" for k
    using that by (intro touches_latest) (auto simp: apart_def)
  moreover have "vs_id (ob_self ob) = en_recipient e" if "e \<in> set (bt_observations b)" "observed e = Some ob" for e ob
    using b that by (auto simp: batch_ok_def envelope_ok_def)
  ultimately have "pictured ids b a4" using a1(4) by (simp add: pictured_def placed_def)
  moreover have "adapter_ok a4" "set (ad_visible a4) \<subseteq> ids"
    using a2(2,3) a3(2,3) a4(2,3) es(3) by (simp_all add: adapter_ok_def)
  ultimately show ?thesis using run by blast
qed

subsection \<open>The film of a run\<close>

text \<open>The batches a run shows from a state on, and the state they end in.\<close>

inductive filmed :: "serializer \<Rightarrow> scenario \<Rightarrow> sim \<Rightarrow> observation_batch list \<Rightarrow> sim \<Rightarrow> bool" for ser sc where
  over: "reachable ser sc s \<Longrightarrow> observe s = Inr b \<Longrightarrow> finished s \<Longrightarrow> filmed ser sc s [b] s"
| scene: "reachable ser sc s \<Longrightarrow> observe s = Inr b \<Longrightarrow> \<not> finished s \<Longrightarrow> si_tick s1 = si_tick s + 1
    \<Longrightarrow> filmed ser sc s1 bs s' \<Longrightarrow> filmed ser sc s (b # bs) s'"

lemma live_loop_filmed:
  "live_loop ser ser_entry ser_frame parse_frame sink (s, w, shown) input = Inr (s', w', shown') \<Longrightarrow> reachable ser sc s \<Longrightarrow>
   observe s = Inr b \<Longrightarrow>
    \<exists>obs. filmed ser sc s (b # obs) s' \<and> write_frames ser_frame (map Observations_frame obs) shown = Inr shown'"
proof (induction "length input" arbitrary: input s w shown b rule: less_induct)
  case less
  note loop = less.prems(1) [unfolded live_loop.simps [of ser ser_entry ser_frame parse_frame sink "(s, w, shown)"] fst_conv]
  show ?case
  proof (cases "finished s")
    case True
    with loop have "s' = s" "shown' = shown" by simp_all
    then show ?thesis using filmed.over [OF less.prems(2,3) True] by (intro exI [of _ "[]"]) simp
  next
    case False
    with loop obtain actions rest where read: "read_frame parse_frame input = Inr (Some (Actions_frame actions, rest))"
      by (auto split: sum.splits option.splits sim_frame.splits)
    with loop False obtain s1 w1 shown1 where turn: "live_turn ser ser_entry ser_frame sink actions (s, w, shown) = Inr (s1, w1, shown1)"
      and later: "live_loop ser ser_entry ser_frame parse_frame sink (s1, w1, shown1) rest = Inr (s', w', shown')"
      by (auto split: sum.splits)
    from turn obtain out where one: "step ser actions s = Inr (s1, out)"
      and wrote: "write_frame ser_frame True (Observations_frame (so_observations out)) shown = Inr shown1"
      by (rule live_turn_parts)
    have r: "reachable ser sc s1" by (rule reachable.another [OF less.prems(2) one [unfolded step_def]])
    have o: "observe s1 = Inr (so_observations out)" using one unfolding step_def by (auto elim!: step_internal_phases)
    from less.hyps [OF read_frame_shorter [OF read] later r o] obtain obs where
      f: "filmed ser sc s1 (so_observations out # obs) s'"
        "write_frames ser_frame (map Observations_frame obs) shown1 = Inr shown'" by blast
    have "si_tick s1 = si_tick s + 1" by (rule reachable_step(1) [OF less.prems(2) one [unfolded step_def]])
    from filmed.scene [OF less.prems(2,3) False this f(1)] f(2) wrote show ?thesis
      by (intro exI [of _ "so_observations out # obs"]) simp
  qed
qed

text \<open>What a reachable state shows is a batch the adapter can draw.\<close>

lemma observed_batch:
  assumes r: "reachable ser sc s" and b: "observe s = Inr b"
  shows "batch_ok (tp_id ` set (sc_tasks (normalize_scenario sc))) b" and "first_step_ms b \<noteq> 0"
    and "\<forall>v \<in> set (si_vehicles s). \<exists>e \<in> set (bt_observations b). \<exists>ob. observed e = Some ob
           \<and> ob_self ob = vehicle_view v \<and> en_recipient e = vh_id v"
proof -
  let ?ids = "tp_id ` set (sc_tasks (normalize_scenario sc))"
  from reachable_run [OF r] obtain u where run: "map vh_spec (si_vehicles s) = sc_vehicles (normalize_scenario sc)"
    "map tk_spec (si_tasks s) = sc_tasks (normalize_scenario sc)" "sc_step_ms (si_scenario s) = sc_step_ms (normalize_scenario sc)"
    and valid: "validate_scenario (normalize_scenario sc) = Inr u" by (auto simp: run_ok_def)
  have "sc_step_ms (si_scenario s) \<noteq> 0" using validate_checks(1) [OF valid] by (auto simp: run(3) bad_world_def Let_def)
  moreover have "ts_id (project_task s i k t) = tk_id t" for i k t
    by (simp add: project_task_def project_owner_def task_view_def Let_def split: option.split)
  moreover have "tk_id t \<in> ?ids" if "t \<in> set (si_tasks s)" for t
    using that by (simp add: tk_id_def flip: run(2))
  ultimately have one: "envelope_ok ?ids e \<and> en_recipient e = vh_id v
      \<and> (\<exists>ob. observed e = Some ob \<and> ob_self ob = vehicle_view v \<and> ob_step_ms ob \<noteq> 0)"
    if "observe_vehicle s i v = Inr e" for i v e
    using that by (auto simp: observe_vehicle_def Let_def envelope_ok_def observed_def vehicle_view_def)
  from b obtain es where es: "mapiR (observe_vehicle s) 0 (si_vehicles s) = Inr es" "bt_observations b = es"
    by (auto simp: observe_def)
  have each: "list_all2 (\<lambda>v e. envelope_ok ?ids e \<and> en_recipient e = vh_id v
      \<and> (\<exists>ob. observed e = Some ob \<and> ob_self ob = vehicle_view v \<and> ob_step_ms ob \<noteq> 0)) (si_vehicles s) es"
    by (rule list_all2_mono [OF mapiR_all2 [OF es(1)]]) (use one in blast)
  then have who: "map en_recipient es = map vh_id (si_vehicles s)" by (induction rule: list_all2_induct) auto
  have sorted: "strictly_sorted vh_id (si_vehicles s)" using reachable_ok [OF r] by (simp add: sim_ok_def vehicles_ok_def)
  have "length (si_vehicles s) = length (sc_vehicles (normalize_scenario sc))" by (simp flip: run(1))
  then have "si_vehicles s \<noteq> []" using validate_checks(2) [OF valid] by auto
  then have ne: "es \<noteq> []" using who by auto
  have all: "\<forall>e \<in> set es. envelope_ok ?ids e" using each by (induction rule: list_all2_induct) auto
  show "batch_ok ?ids b"
    using ne all strictly_sorted_distinct [OF sorted] by (simp add: batch_ok_def es(2) who)
  from ne obtain e es' where "es = e # es'" by (cases es) auto
  with each show "first_step_ms b \<noteq> 0" by (auto simp: first_step_ms_def es(2) list_all2_Cons2)
  show "\<forall>v \<in> set (si_vehicles s). \<exists>e \<in> set (bt_observations b). \<exists>ob. observed e = Some ob
           \<and> ob_self ob = vehicle_view v \<and> en_recipient e = vh_id v"
    unfolding es(2) using each by (induction rule: list_all2_induct) auto
qed

text \<open>The adapter plays a film to its end.\<close>

lemma play_film:
  assumes gz: "willing gz" and ids: "ids = tp_id ` set (sc_tasks (normalize_scenario sc))"
  shows "filmed ser sc s obs s' \<Longrightarrow> adapter_ok a \<Longrightarrow> set (ad_visible a) \<subseteq> ids \<Longrightarrow>
    (case previous of None \<Rightarrow> True | Some t \<Rightarrow> si_tick s = t + 1) \<Longrightarrow>
    \<exists>t a' b. foldR (play_frame gz) (False, previous, a) (map Observations_frame obs) = Inr (True, Some t, a')
      \<and> observe s' = Inr b \<and> pictured ids b a' \<and> reachable ser sc s' \<and> finished s'"
proof (induction arbitrary: a previous rule: filmed.induct)
  case (over s b)
  note ok = observed_batch [OF over(1,2), folded ids]
  from apply_batch_willing [OF gz over(4,5) ok(1)] obtain a' where a': "apply_batch gz b a = Inr a'" "pictured ids b a'" by blast
  have "bt_tick b = si_tick s" "bt_finished b" using over(2,3) by (auto simp: observe_def)
  moreover have "bt_observations b \<noteq> []" using ok(1) by (simp add: batch_ok_def)
  ultimately have "play_frame gz (False, previous, a) (Observations_frame b) = Inr (True, Some (bt_tick b), a')"
    using a'(1) over(6) by (cases previous) (simp_all add: play_frame_def)
  with a'(2) over(1-3) show ?case by simp
next
  case (scene s b s1 bs s')
  note ok = observed_batch [OF scene(1,2), folded ids]
  from apply_batch_willing [OF gz scene(7,8) ok(1)] obtain a1 where a1: "apply_batch gz b a = Inr a1" "adapter_ok a1"
    "set (ad_visible a1) \<subseteq> ids" by blast
  have "bt_tick b = si_tick s" "\<not> bt_finished b" using scene(2,3) by (auto simp: observe_def)
  moreover have "bt_observations b \<noteq> []" using ok(1) by (simp add: batch_ok_def)
  ultimately have "play_frame gz (False, previous, a) (Observations_frame b) = Inr (False, Some (si_tick s), a1)"
    using a1(1) scene(9) ok(2) by (cases previous) (simp_all add: play_frame_def)
  with scene.IH [OF a1(2,3), of "Some (si_tick s)"] scene(4) show ?case by simp
qed

lemma play_loop_frames:
  assumes pb: "parses_back ser_frame parse_frame"
  shows "write_frames ser_frame ms out = Inr out' \<Longrightarrow>
    \<exists>bytes. out' = out @ bytes \<and> play_loop gz parse_frame st bytes = foldR (play_frame gz) st ms"
proof (induction ms arbitrary: out st)
  case Nil
  then show ?case by (simp add: play_loop.simps read_nothing)
next
  case (Cons m ms)
  then have fits: "length (ser_frame m) \<le> max_frame" and w: "write_frames ser_frame ms (out @ frame_of ser_frame m) = Inr out'"
    by (auto simp: write_frame_eq)
  show ?case
  proof (cases "play_frame gz st m")
    case (Inl e)
    from Cons.IH [OF w] obtain bytes where "out' = (out @ frame_of ser_frame m) @ bytes" by blast
    then show ?thesis
      using Inl by (intro exI [of _ "frame_of ser_frame m @ bytes"]) (simp add: play_loop.simps [of gz parse_frame st] read_frame_of [OF pb fits])
  next
    case (Inr st')
    from Cons.IH [OF w, of st'] obtain bytes where "out' = (out @ frame_of ser_frame m) @ bytes"
      "play_loop gz parse_frame st' bytes = foldR (play_frame gz) st' ms" by blast
    then show ?thesis
      using Inr by (intro exI [of _ "frame_of ser_frame m @ bytes"]) (simp add: play_loop.simps [of gz parse_frame st] read_frame_of [OF pb fits])
  qed
qed

end
