(* ===== verification/Gazebo_Props.thy ===== *)
theory Gazebo_Props
  imports Gazebo_Laws Mission_Conduct Mission_Demo
begin

text \<open>
  From a run to the screen: the log of a run is exported as a trace, and the adapter plays it.
\<close>

lemma run_plays:
  assumes "willing gz" and "parses_back ser_frame parse_frame" and "new_adapter True True = Inr start"
    and "run_simulation ser ser_entry ser_frame parse_frame sink sc input = Inr (sm, shown, log)"
  shows "\<exists>a s. play gz parse_frame True shown start = Inr a \<and> reachable ser sc s \<and> finished s \<and> sm = summarize s
    \<and> (\<forall>v \<in> set (si_vehicles s). vh_active v \<longrightarrow> apart (tp_id ` set (sc_tasks (normalize_scenario sc))) (vh_id v)
         \<longrightarrow> placed (vehicle_view v) a)"
proof -
  let ?ids = "tp_id ` set (sc_tasks (normalize_scenario sc))"
  from assms(4) [unfolded run_simulation_def] obtain s w first shown0 s' w' where
    s: "new_simulator ser sc = Inr s" and first: "observe s = Inr first"
    and shown0: "write_frame ser_frame True (Observations_frame first) [] = Inr shown0"
    and loop: "live_loop ser ser_entry ser_frame parse_frame sink (s, w, shown0) input = Inr (s', w', shown)"
    and sm: "sm = summarize s'" by auto
  from live_loop_filmed [OF loop reachable.start [OF s] first] obtain obs where
    film: "filmed ser sc s (first # obs) s'" and "write_frames ser_frame (map Observations_frame obs) shown0 = Inr shown" by blast
  then have "write_frames ser_frame (map Observations_frame (first # obs)) [] = Inr shown" using shown0 by simp
  from play_loop_frames [OF assms(2) this, of gz "(False, None, start)"]
  have plays: "play_loop gz parse_frame (False, None, start) shown
      = foldR (play_frame gz) (False, None, start) (map Observations_frame (first # obs))" by simp
  have start: "adapter_ok start" "set (ad_visible start) \<subseteq> ?ids" using assms(3) by (auto simp: new_adapter_def adapter_ok_def)
  from play_film [OF assms(1) refl film start, of None] obtain t a b where
    a: "foldR (play_frame gz) (False, None, start) (map Observations_frame (first # obs)) = Inr (True, Some t, a)"
    and b: "observe s' = Inr b" "pictured ?ids b a" "reachable ser sc s'" "finished s'" by auto
  have "play gz parse_frame True shown start = Inr a" unfolding play_def plays a by simp
  moreover have "placed (vehicle_view v) a" if "v \<in> set (si_vehicles s')" "vh_active v" "apart ?ids (vh_id v)" for v
  proof -
    from observed_batch(3) [OF b(3,1)] that(1) obtain e ob where "e \<in> set (bt_observations b)" "observed e = Some ob"
      "ob_self ob = vehicle_view v" "en_recipient e = vh_id v" by blast
    with b(2) that(2,3) show ?thesis by (auto simp: pictured_def vehicle_view_def)
  qed
  ultimately show ?thesis using b(3,4) sm by blast
qed

text \<open>C13: what a run leaves can be shown. If a live run ends well, its log exports to a trace that the adapter plays to the
  end without refusing a frame, as long as Gazebo takes the requests; and then every vehicle that is still active stands
  where the final state of the run has it, unless a task or another entity the adapter moves bears its name.\<close>

theorem trace_plays:
  assumes "willing gz" and "parses_back ser_frame parse_frame" and "parses_back ser_entry parse_entry"
    and "new_adapter True True = Inr start"
    and "run_simulation ser ser_entry ser_frame parse_frame sink sc input = Inr (sm, shown, log)"
  shows "\<exists>film a s. export_replay_trace ser parse_entry ser_frame sc (Some log) = Inr (sm, film)
    \<and> play gz parse_frame True film start = Inr a \<and> reachable ser sc s \<and> finished s \<and> sm = summarize s
    \<and> (\<forall>v \<in> set (si_vehicles s). vh_active v \<longrightarrow> apart (tp_id ` set (sc_tasks (normalize_scenario sc))) (vh_id v)
         \<longrightarrow> placed (vehicle_view v) a)"
proof -
  have "export_replay_trace ser parse_entry ser_frame sc (Some log) = Inr (sm, shown)"
    using run_simulation_replays [OF assms(3,5)] by (auto simp: export_replay_trace_def)
  with run_plays [OF assms(1,2,4,5)] show ?thesis by blast
qed

theorem trace_plays_witness:
  "\<exists>es fs log film sm a start. export_replay_trace (\<lambda>_. []) (demo_decode es) (demo_encode fs) demo_short (Some log) = Inr (sm, film)
     \<and> new_adapter True True = Inr start \<and> play (\<lambda>_. True) (demo_decode fs) True film start = Inr a"
proof -
  obtain es fs terminal where run: "run_mission (idle_mission (demo_encode es) (demo_encode fs))
      (sim_start (\<lambda>_. []) (demo_encode es) (demo_encode fs) demo_short) = Some (Inr terminal)" by (rule idle_mission_succeeds)
  have codec: "parses_back (demo_encode fs) (demo_decode fs)" by (rule demo_codec)
  note mission = run [unfolded idle_mission_def]
  obtain batches sm shown log where go: "run_simulation (\<lambda>_. []) (demo_encode es) (demo_encode fs) (demo_decode fs) True demo_short
      (requests (demo_encode fs) batches) = Inr (sm, shown, log)"
    by (rule run_mission_conducted [OF codec mission]) blast
  obtain start where start: "new_adapter True True = Inr start" by (simp add: new_adapter_def)
  have "willing (\<lambda>_. True)" by (simp add: willing_def)
  from trace_plays [OF this codec demo_codec start go] start show ?thesis by blast
qed

end
