(* ===== verification/Spec2Isabelle.thy ===== *)
theory Spec2Isabelle
  imports Sim_Props Sim_Files_Laws Allocation_Detour Autonomy_Motion Mission_Props Pipes_Laws Gazebo_Props
begin

text \<open>
  A model of \<^verbatim>\<open>sentinel\<close>, a deterministic simulator for teams of autonomous vehicles with the agents that steer them:
  seeded chance, an emulated radio network, route planning on a grid, space-time reservations, distributed task
  allocation, an event log that replays exactly, and the processes that exchange all this over pipes.

  \<^bold>\<open>How the parts interact.\<close> The supervisor (\<^verbatim>\<open>runner/\<close>) starts one simulation process (\<^verbatim>\<open>sim/\<close>) and one agent process
  per vehicle (\<^verbatim>\<open>agent/\<close>). Once per tick the simulator (\<^verbatim>\<open>core/\<close>) hands out one observation per vehicle; each agent runs
  its behaviour tree, which allocates tasks with its peers' messages and plans routes (\<^verbatim>\<open>planning/\<close>), and answers with
  an action; the simulator admits the batch of actions, applies the scenario's events, moves messages through the
  emulated network, settles commits and reservations, moves the vehicles and logs the step. The log replays without
  agents, and exports as a trace that the Gazebo adapter (\<^verbatim>\<open>ros2/\<close>) plays.

  \<^bold>\<open>How to read the model.\<close> Protobuf messages and C++ structs are records with the source's fields, enumerations
  are datatypes, a throwing function returns \<open>'a result\<close> (\<open>Inl\<close> the exception). Unsigned integers are words and
  wrap; \<open>std::int64_t\<close> is \<open>int\<close>, so a theorem about a signed quantity is about the exact value, which is the C++
  value as long as no signed overflow (undefined in C++) occurs. \<open>std::sort\<close> is \<open>sort_key\<close> on the comparator's key,
  \<open>std::map\<close> an association list in the order of its keys where it is iterated over. Objects are records that their
  operations return updated. Parameters stand for code outside the repository: \<open>ser\<close> and \<open>parse\<close> for the protobuf
  library (\<open>parses_back\<close>: what fits into a frame is parsed back), \<open>sequence\<close> and \<open>fallback\<close> for the behaviour-tree engine
  (\<open>tree_engine\<close>), \<open>system\<close> for the operating system, \<open>device\<close> for the file system, \<open>gz\<close> for Gazebo.

  \<^bold>\<open>Theories.\<close>
  \<^item> \<open>Prelude\<close>, \<open>Ordered_Map\<close>: machine integers, exceptions, searched and sorted vectors, selection of a best candidate,
    ordered maps.
  \<^item> \<open>Proto\<close>: the messages of \<^verbatim>\<open>proto/sentinel/v1/sentinel.proto\<close>.
  \<^item> \<open>Rng\<close> (\<^verbatim>\<open>core/src/rng.cpp\<close>): the generator, unbiased ranges by rejection, named streams.
  \<^item> \<open>Hash\<close> (\<^verbatim>\<open>core/src/hash.cpp\<close>): the running hash of a state.
  \<^item> \<open>Framing\<close> (\<^verbatim>\<open>proto/src/framing.cpp\<close>): length-prefixed frames between processes.
  \<^item> \<open>Network\<close>, \<open>Network_Laws\<close> (\<^verbatim>\<open>core/src/network.cpp\<close>): the network emulator; every packet is accounted for, delays and
    budgets are kept, partitions hold.
  \<^item> \<open>Geometry\<close>, \<open>Astar\<close>, \<open>Astar_Laws\<close>, \<open>Planner\<close>, \<open>Planner_Laws\<close>, \<open>Reservations\<close>
    (\<^verbatim>\<open>planning/src/planner.cpp\<close>): geometry, shortest routes, feasibility, bundles, and the reservation table.
  \<^item> \<open>Scenario\<close>, \<open>Scenario_Laws\<close> (\<^verbatim>\<open>core/src/scenario.cpp\<close>): normal form, validation and hash of a scenario.
  \<^item> \<open>Sim_State\<close>, \<open>Sim_Actions\<close>, \<open>Sim_Step\<close>, \<open>Sim_Run\<close>, \<open>Sim_Observe\<close> (\<^verbatim>\<open>core/src/simulator.cpp\<close>): the simulator's state
    and construction, the admission of a batch of actions, the phases of a step in the order of
    \<^verbatim>\<open>Simulator::step_internal\<close>, and what leaves the simulator. \<open>Sim_Laws\<close> proves the invariant of the state through
    every phase, \<open>Sim_Frames\<close> what each phase leaves alone, \<open>Sim_Motion\<close> what a vehicle may do in a step, \<open>Sim_Trace\<close> the
    facts of whole runs and that a recorded step replays; \<open>Sim_Props\<close> states what this means for steps and runs, on the
    small run of \<open>Sim_Demo\<close> where a witness needs one, and evaluates a run that breaks what the documentation says of
    chokepoints that overlap.
  \<^item> \<open>Event_Log\<close>, \<open>Sim_Files\<close> (\<^verbatim>\<open>core/src/event_log.cpp\<close>, \<^verbatim>\<open>sim/src/main.cpp\<close>): the log, the live run that writes it, its
    replay, and the commands of the simulator on files. \<open>Event_Log_Laws\<close> shows that recording and replaying are inverse,
    \<open>Sim_Files_Laws\<close> the same for the files on disk.
  \<^item> \<open>Allocation\<close> (\<^verbatim>\<open>agent/src/allocation.cpp\<close>): the allocator of an agent. \<open>Allocation_Claims\<close> is about the claims in
    favour of a bid, \<open>Allocation_Bundle\<close> about the bundle that is built, \<open>Allocation_Reports\<close> about what is believed of
    peers, \<open>Allocation_Laws\<close> about the whole update, \<open>Allocation_Detour\<close> about a bid that the others refuse.
  \<^item> \<open>Autonomy\<close> (\<^verbatim>\<open>agent/src/autonomy.cpp\<close>): the controller, the leaves of its behaviour tree and one tick.
    \<open>Autonomy_Laws\<close> shows what the leaves keep and when a vehicle is driven, \<open>Autonomy_Routes\<close> that cached routes are
    current, \<open>Autonomy_Follow\<close> where the route that is followed comes from and when it is given up, \<open>Autonomy_Ticks\<close> and
    \<open>Autonomy_Props\<close> what holds over any sequence of ticks, \<open>Autonomy_Motion\<close> how a driven vehicle and the simulator's arithmetic reach a waypoint.
  \<^item> \<open>Agent_Process\<close> (\<^verbatim>\<open>agent/src/main.cpp\<close>), \<open>Supervisor\<close>, \<open>Pipes\<close> (\<^verbatim>\<open>runner/src/main.cpp\<close>): the agent's loop over its
    standard streams, the supervisor's loop over processes, and below it the start of a child, frames through
    pipes and the end of a child. \<open>Mission\<close> connects the supervisor with the model's own simulation and agents,
    \<open>Mission_Conduct\<close> shows that a successful mission does what direct calls of agents and simulator would do,
    \<open>Mission_Demo\<close> evaluates a whole mission, \<open>Mission_Props\<close> and \<open>Pipes_Laws\<close> hold the theorems.
  \<^item> \<open>Gazebo\<close>, \<open>Gazebo_Laws\<close>, \<open>Gazebo_Props\<close> (\<^verbatim>\<open>ros2/sentinel_gazebo/src/adapter.cpp\<close>): the adapter that shows a trace, and
    that the trace of every run that ended well can be shown.

  \<^bold>\<open>Interfaces.\<close> The locales state what one part relies on in another and are interpreted where it is provided: the
  choice of a best candidate (\<open>selection\<close>, \<open>least_key\<close>), a generator that reaches every output (\<open>full_period\<close>), a memo
  table in front of a computation (\<open>memo\<close>), a ledger of exclusive windows (\<open>ledger\<close>), what the nodes of the behaviour tree
  keep (\<open>steady\<close> for the nodes that set no route, \<open>writes_keep\<close>, which extends it to the others, and
  \<open>tree_keeps\<close> for the whole tree), and what a pipe promises (\<open>pipe\<close>).

  \<^bold>\<open>Termination.\<close> Most loops are total functions with a measure: the length of an input, the time that is left, the draws
  until an accepted one. The search of \<open>Astar\<close> is \<open>while_option\<close> and is shown to end. Where the source may really loop for
  ever, in the supervisor's loop over arbitrary processes and in system calls that are interrupted again and again, the
  model returns an option and \<open>None\<close> is a loop that never ends; \<open>Mission_Props\<close> shows that missions end, \<open>Pipes_Laws\<close> that
  reading ends once the data is there. No fuel is used.

  \<^bold>\<open>Not modelled.\<close> What a child process does between \<open>fork\<close> and \<open>exec\<close>, the signal handlers, the printing of exceptions and exit codes of the \<open>main\<close> functions, log output and the pauses of the adapter, the
  arithmetic on doubles behind it, the text parser of scenario files, and the wire format of protobuf messages. Python tools,
  tests, benchmarks, launch files and assets are outside.
\<close>

end
